(* ===== verification/Prelude.thy ===== *)
theory Prelude
  imports Main "HOL-Library.Word" "HOL-Library.Char_ord" "HOL-Library.List_Lexorder"
    "HOL-Library.Product_Lexorder"
begin

text \<open>
  Shared vocabulary of the development: the lemma collections the component theories fill,
  saturating \<open>u64\<close> arithmetic, the ASCII operations of Rust's \<open>str\<close>, and the part of
  \<open>std::path\<close> the program uses. A Rust \<open>Path\<close> is compared, hashed, joined and split by its
  components, so a path is the list of components \<open>Path::components\<close> yields; a name is the
  byte string of its \<open>OsStr\<close>.
\<close>

named_theorems store_simps "unfolding rules of the evidence store operations"
named_theorems store_inv "preservation of the evidence store invariant"
named_theorems outcome_simps "unfolding rules of attempt outcomes"

subsection \<open>Results\<close>

text \<open>A Rust \<open>Result<T, E>\<close> is \<open>'e + 't\<close>, with \<open>Inl\<close> for \<open>Err\<close>.\<close>

abbreviation Err :: "'e \<Rightarrow> 'e + 'a" where "Err \<equiv> Inl"
abbreviation Ok :: "'a \<Rightarrow> 'e + 'a" where "Ok \<equiv> Inr"

fun is_ok :: "'e + 'a \<Rightarrow> bool" where
  "is_ok (Inl _) = False"
| "is_ok (Inr _) = True"

lemma is_ok_iff: "is_ok r \<longleftrightarrow> (\<exists>x. r = Inr x)"
  by (cases r) auto

subsection \<open>Saturating \<open>u64\<close> arithmetic\<close>

type_synonym u64 = "64 word"

definition u64_max :: u64 where
  "u64_max = - 1"

definition saturating_add :: "u64 \<Rightarrow> u64 \<Rightarrow> u64" where
  "saturating_add a b = (if unat a + unat b < 2 ^ 64 then a + b else u64_max)"

definition saturating_mul :: "u64 \<Rightarrow> u64 \<Rightarrow> u64" where
  "saturating_mul a b = (if unat a * unat b < 2 ^ 64 then a * b else u64_max)"

text \<open>The same operations on unbounded integers, for evaluation.\<close>

lemma saturating_add_code [code]:
  "saturating_add a b = (if uint a + uint b < 18446744073709551616 then a + b else u64_max)"
proof -
  have "uint a + uint b < 18446744073709551616 \<longleftrightarrow> int (unat a + unat b) < int (2 ^ 64)"
    by simp
  then have "unat a + unat b < 2 ^ 64 \<longleftrightarrow> uint a + uint b < 18446744073709551616"
    by (simp only: of_nat_less_iff)
  then show ?thesis by (simp add: saturating_add_def)
qed

lemma saturating_mul_code [code]:
  "saturating_mul a b = (if uint a * uint b < 18446744073709551616 then a * b else u64_max)"
proof -
  have "uint a * uint b < 18446744073709551616 \<longleftrightarrow> int (unat a * unat b) < int (2 ^ 64)"
    by simp
  then have "unat a * unat b < 2 ^ 64 \<longleftrightarrow> uint a * uint b < 18446744073709551616"
    by (simp only: of_nat_less_iff)
  then show ?thesis by (simp add: saturating_mul_def)
qed

lemma unat_u64_max: "unat u64_max = 2 ^ 64 - 1"
  by (simp add: u64_max_def unsigned_minus_1_eq_mask mask_eq_exp_minus_1)

lemma unat_u64_less: "unat (a :: u64) < 2 ^ 64"
  using unsigned_less [of a, where ?'a = nat] by simp

lemma unat_saturating_add: "unat (saturating_add a b) = min (unat a + unat b) (2 ^ 64 - 1)"
  by (simp add: saturating_add_def unat_u64_max unat_word_ariths)

lemma unat_saturating_mul: "unat (saturating_mul a b) = min (unat a * unat b) (2 ^ 64 - 1)"
  by (simp add: saturating_mul_def unat_u64_max unat_word_ariths)

lemma saturating_add_0 [simp]: "saturating_add a 0 = a" "saturating_add 0 a = a"
  by (simp_all add: word_unat_eq_iff unat_saturating_add)
     (use unat_u64_less [of a] in auto)

lemma saturating_add_mono: "a \<le> saturating_add a b" "b \<le> saturating_add a b"
  using unat_u64_less [of a] unat_u64_less [of b]
  by (auto simp: word_le_nat_alt unat_saturating_add)

lemma unat_fold_saturating_add:
  "unat (fold (\<lambda>x acc. saturating_add acc (f x)) xs a)
     = min (unat a + sum_list (map (\<lambda>x. unat (f x)) xs)) (2 ^ 64 - 1)"
proof (induction xs arbitrary: a)
  case Nil
  then show ?case using unat_u64_less [of a] by simp
next
  case (Cons x xs)
  then show ?case by (simp add: unat_saturating_add min_def)
qed

subsection \<open>ASCII\<close>

definition byte :: "char \<Rightarrow> int" where
  "byte c = of_char c"

definition is_ascii :: "string \<Rightarrow> bool" where
  "is_ascii s = list_all (\<lambda>c. byte c < 128) s"

definition char_to_ascii_lowercase :: "char \<Rightarrow> char" where
  "char_to_ascii_lowercase c =
     (if 65 \<le> byte c \<and> byte c \<le> 90 then char_of (byte c + 32) else c)"

definition to_ascii_lowercase :: "string \<Rightarrow> string" where
  "to_ascii_lowercase s = map char_to_ascii_lowercase s"

definition is_ascii_alphanumeric :: "char \<Rightarrow> bool" where
  "is_ascii_alphanumeric c =
     (let b = byte c in (48 \<le> b \<and> b \<le> 57) \<or> (65 \<le> b \<and> b \<le> 90) \<or> (97 \<le> b \<and> b \<le> 122))"

lemma byte_char_of [simp]: "0 \<le> n \<Longrightarrow> n < 256 \<Longrightarrow> byte (char_of n) = n"
  by (simp add: byte_def)

lemma byte_lower:
  "byte (char_to_ascii_lowercase c) = (if 65 \<le> byte c \<and> byte c \<le> 90 then byte c + 32 else byte c)"
  by (simp add: char_to_ascii_lowercase_def)

lemma lower_idem [simp]:
  "char_to_ascii_lowercase (char_to_ascii_lowercase c) = char_to_ascii_lowercase c"
  by (simp add: char_to_ascii_lowercase_def)

lemma to_ascii_lowercase_idem [simp]: "to_ascii_lowercase (to_ascii_lowercase s) = to_ascii_lowercase s"
  by (simp add: to_ascii_lowercase_def)

lemma to_ascii_lowercase_length [simp]: "length (to_ascii_lowercase s) = length s"
  by (simp add: to_ascii_lowercase_def)

subsection \<open>Paths\<close>

text \<open>
  The components of \<open>std::path::Component\<close>, in its derived order. A prefix is the parsed
  prefix (drive or share) as \<open>std\<close> compares it.
\<close>

datatype component = Prefix string | RootDir | CurDir | ParentDir | Normal string

fun component_key :: "component \<Rightarrow> nat \<times> string" where
  "component_key (Prefix s) = (0, s)"
| "component_key RootDir = (1, [])"
| "component_key CurDir = (2, [])"
| "component_key ParentDir = (3, [])"
| "component_key (Normal s) = (4, s)"

lemma component_key_inj: "component_key a = component_key b \<longleftrightarrow> a = b"
  by (cases a; cases b) auto

instantiation component :: linorder
begin
definition less_eq_component :: "component \<Rightarrow> component \<Rightarrow> bool" where
  "less_eq_component a b = (component_key a \<le> component_key b)"
definition less_component :: "component \<Rightarrow> component \<Rightarrow> bool" where
  "less_component a b = (component_key a < component_key b)"
instance
  by standard
    (auto simp: less_eq_component_def less_component_def component_key_inj
      dest: antisym)
end

type_synonym path = "component list"

text \<open>\<open>Path::file_name\<close>, \<open>Path::parent\<close>, \<open>starts_with\<close>, \<open>strip_prefix\<close>.\<close>

definition file_name :: "path \<Rightarrow> string option" where
  "file_name p = (if p = [] then None else case last p of Normal s \<Rightarrow> Some s | _ \<Rightarrow> None)"

definition parent :: "path \<Rightarrow> path option" where
  "parent p = (if p = [] then None
     else case last p of
       Prefix _ \<Rightarrow> None | RootDir \<Rightarrow> None | _ \<Rightarrow> Some (butlast p))"

definition starts_with :: "path \<Rightarrow> path \<Rightarrow> bool" where
  "starts_with p root = (take (length root) p = root)"

definition strip_prefix :: "path \<Rightarrow> path \<Rightarrow> path option" where
  "strip_prefix p root = (if starts_with p root then Some (drop (length root) p) else None)"

text \<open>
  \<open>Path::extension\<close>: the text after the last dot of the file name, unless the only dot
  starts the name.
\<close>

definition rsplit_dot :: "string \<Rightarrow> (string \<times> string) option" where
  "rsplit_dot s =
     (if CHR ''.'' \<in> set s
      then Some (rev (tl (dropWhile (\<lambda>c. c \<noteq> CHR ''.'') (rev s))),
                 rev (takeWhile (\<lambda>c. c \<noteq> CHR ''.'') (rev s)))
      else None)"

definition extension :: "path \<Rightarrow> string option" where
  "extension p =
     (case file_name p of
        None \<Rightarrow> None
      | Some name \<Rightarrow>
          (case rsplit_dot name of
             None \<Rightarrow> None
           | Some (before, after) \<Rightarrow> if before = [] then None else Some after))"

lemma starts_with_append: "starts_with (root @ rest) root"
  by (simp add: starts_with_def)

lemma starts_with_iff: "starts_with p root \<longleftrightarrow> (\<exists>rest. p = root @ rest)"
  unfolding starts_with_def by (metis append_eq_conv_conj)

lemma strip_prefix_Some: "strip_prefix p root = Some rest \<longleftrightarrow> p = root @ rest"
  by (auto simp: strip_prefix_def starts_with_def)
     (metis append_take_drop_id)

lemma rsplit_dot_append:
  assumes "CHR ''.'' \<notin> set ext"
  shows "rsplit_dot (stem @ CHR ''.'' # ext) = Some (stem, ext)"
proof -
  have "takeWhile (\<lambda>c. c \<noteq> CHR ''.'') (rev ext @ CHR ''.'' # rev stem) = rev ext"
    using assms by (subst takeWhile_append2) auto
  moreover have "dropWhile (\<lambda>c. c \<noteq> CHR ''.'') (rev ext @ CHR ''.'' # rev stem) = CHR ''.'' # rev stem"
    using assms by (subst dropWhile_append2) auto
  ultimately show ?thesis by (simp add: rsplit_dot_def)
qed

lemma extension_append:
  assumes "CHR ''.'' \<notin> set ext" and "stem \<noteq> []"
  shows "extension (dir @ [Normal (stem @ CHR ''.'' # ext)]) = Some ext"
  using assms by (simp add: extension_def file_name_def rsplit_dot_append)

subsection \<open>Lists\<close>

text \<open>\<open>Vec::dedup\<close>: drops an element equal to the one kept before it.\<close>

fun dedup :: "'a list \<Rightarrow> 'a list" where
  "dedup [] = []"
| "dedup [x] = [x]"
| "dedup (x # y # ys) = (if x = y then dedup (y # ys) else x # dedup (y # ys))"

lemma set_dedup [simp]: "set (dedup xs) = set xs"
  by (induction xs rule: dedup.induct) auto

lemma dedup_eq_Nil [simp]: "dedup xs = [] \<longleftrightarrow> xs = []"
  by (induction xs rule: dedup.induct) auto

lemma sorted_dedup: "sorted xs \<Longrightarrow> sorted (dedup xs)"
  by (induction xs rule: dedup.induct) auto

lemma distinct_dedup_sorted: "sorted xs \<Longrightarrow> distinct (dedup (xs :: 'a :: linorder list))"
proof (induction xs rule: dedup.induct)
  case (3 x y ys)
  then show ?case by (auto simp: order_le_less)
qed auto

lemma map_filter_map_Some: "map f xs = map Some ys \<Longrightarrow> List.map_filter f xs = ys"
proof (induction xs arbitrary: ys)
  case Nil
  then show ?case by (simp add: map_filter_simps)
next
  case (Cons x xs)
  then show ?case by (cases ys) (simp_all add: map_filter_simps)
qed

lemma map_filter_append: "List.map_filter f (xs @ ys) = List.map_filter f xs @ List.map_filter f ys"
  by (simp add: List.map_filter_def)

lemma filter_append_snoc [simp]: "filter P (xs @ [x]) = filter P xs @ (if P x then [x] else [])"
  by simp

subsection \<open>Ordered maps\<close>

text \<open>
  A \<open>BTreeMap\<close> is an association list with strictly ascending keys. \<open>entry_modify\<close> is
  \<open>entry(k).or_insert(d)\<close> followed by an update in place.
\<close>

fun entry_modify :: "'k :: linorder \<Rightarrow> 'v \<Rightarrow> ('v \<Rightarrow> 'v) \<Rightarrow> ('k \<times> 'v) list \<Rightarrow> ('k \<times> 'v) list" where
  "entry_modify k d f [] = [(k, f d)]"
| "entry_modify k d f ((k', v) # m) =
     (if k = k' then (k', f v) # m
      else if k < k' then (k, f d) # (k', v) # m
      else (k', v) # entry_modify k d f m)"

lemma keys_entry_modify [simp]: "fst ` set (entry_modify k d f m) = insert k (fst ` set m)"
  by (induction k d f m rule: entry_modify.induct) auto

lemma sorted_entry_modify:
  "sorted_wrt (<) (map fst m) \<Longrightarrow> sorted_wrt (<) (map fst (entry_modify k d f m))"
proof (induction k d f m rule: entry_modify.induct)
  case (2 k d f k' v m)
  show ?case
  proof (cases "k' < k")
    case True
    have "\<forall>x \<in> fst ` set (entry_modify k d f m). k' < x"
      unfolding keys_entry_modify using 2(2) True by auto
    then show ?thesis using 2 True by (auto simp: image_iff)
  qed (use 2 in \<open>auto intro: less_trans\<close>)
qed simp

lemma map_of_entry_modify:
  "sorted_wrt (<) (map fst m) \<Longrightarrow>
     map_of (entry_modify k d f m)
       = (map_of m)(k \<mapsto> f (case map_of m k of None \<Rightarrow> d | Some v \<Rightarrow> v))"
proof (induction k d f m rule: entry_modify.induct)
  case (2 k d f k' v m)
  have "map_of m k = None" if "k < k'"
    using that 2(2) by (force simp: map_of_eq_None_iff)
  then show ?case using 2 by (auto simp: fun_eq_iff)
qed (simp add: fun_eq_iff)

end
