(* ===== verification/Routing.thy ===== *)
theory Routing
  imports Prelude
begin

text \<open>
  Asset Routing (\<open>crates/cao-core/src/routing.rs\<close>): the closed enumerations of Asset Kinds,
  Variants, operations and requested work, the Profile Capabilities, the compilation of a
  Routing Policy with its complete list of conflicts, the Routing Decision of one path and the
  Routing Ledger of a batch. The source keeps closed sets as boolean arrays indexed by the
  discriminant of the enumeration; the model keeps them as boolean lists with the same indices.
\<close>

subsection \<open>Enumerations\<close>

datatype asset_kind = KTexture | KMesh | KAnimation | KArchive

datatype texture_variant = Native | Convertible

datatype mesh_variant = Standard | Terrain

datatype asset_operation = Extraction | Optimization | Conversion | MeshReferenceMaintenance

datatype execution_mode = Apply | DryRun

definition from_dry_run :: "bool \<Rightarrow> execution_mode" where
  "from_dry_run dry_run = (if dry_run then DryRun else Apply)"

datatype routed_asset_phase = ArchiveExtractionPhase | LooseAssetProcessing

datatype optimizer_target = TTexture | TMesh | TAnimation | TArchive

datatype skip_reason = DisabledAssetKind | ExcludedAssetVariant

datatype requested_work =
    NativeTextureOptimization
  | StandardMeshOptimization
  | TerrainMeshOptimization
  | AnimationOptimization
  | ArchiveExtraction
  | ArchiveCreation

datatype profile_capability =
    CapNativeTextureOptimization
  | CapConvertibleTextureConversion
  | CapStandardMeshOptimization
  | CapTerrainMeshOptimization
  | CapAnimationOptimization
  | CapArchiveExtraction
  | CapMeshReferenceMaintenance
  | CapArchiveCreation

datatype asset_variant = VTexture texture_variant | VMesh mesh_variant

text \<open>The discriminants, in declaration order: \<open>operation as usize\<close> and its siblings.\<close>

fun operation_index :: "asset_operation \<Rightarrow> nat" where
  "operation_index Extraction = 0"
| "operation_index Optimization = 1"
| "operation_index Conversion = 2"
| "operation_index MeshReferenceMaintenance = 3"

fun work_index :: "requested_work \<Rightarrow> nat" where
  "work_index NativeTextureOptimization = 0"
| "work_index StandardMeshOptimization = 1"
| "work_index TerrainMeshOptimization = 2"
| "work_index AnimationOptimization = 3"
| "work_index ArchiveExtraction = 4"
| "work_index ArchiveCreation = 5"

fun capability_index :: "profile_capability \<Rightarrow> nat" where
  "capability_index CapNativeTextureOptimization = 0"
| "capability_index CapConvertibleTextureConversion = 1"
| "capability_index CapStandardMeshOptimization = 2"
| "capability_index CapTerrainMeshOptimization = 3"
| "capability_index CapAnimationOptimization = 4"
| "capability_index CapArchiveExtraction = 5"
| "capability_index CapMeshReferenceMaintenance = 6"
| "capability_index CapArchiveCreation = 7"

fun skip_reason_index :: "skip_reason \<Rightarrow> nat" where
  "skip_reason_index DisabledAssetKind = 0"
| "skip_reason_index ExcludedAssetVariant = 1"

text \<open>The derived orders of the enumerations the program sorts by.\<close>

instantiation requested_work :: linorder
begin
definition less_eq_requested_work :: "requested_work \<Rightarrow> requested_work \<Rightarrow> bool" where
  "less_eq_requested_work a b = (work_index a \<le> work_index b)"
definition less_requested_work :: "requested_work \<Rightarrow> requested_work \<Rightarrow> bool" where
  "less_requested_work a b = (work_index a < work_index b)"
instance
proof
  fix a b :: requested_work
  show "a \<le> b \<Longrightarrow> b \<le> a \<Longrightarrow> a = b"
    by (cases a; cases b) (simp_all add: less_eq_requested_work_def)
qed (auto simp: less_eq_requested_work_def less_requested_work_def)
end

lemma operation_index_inj: "operation_index a = operation_index b \<longleftrightarrow> a = b"
  by (cases a; cases b) simp_all

lemma operation_index_less [simp]: "operation_index a < 4"
  by (cases a) simp_all

lemma work_index_inj: "work_index a = work_index b \<longleftrightarrow> a = b"
  by (cases a; cases b) simp_all

lemma work_index_less [simp]: "work_index a < 6"
  by (cases a) simp_all

lemma capability_index_inj: "capability_index a = capability_index b \<longleftrightarrow> a = b"
  by (cases a; cases b) simp_all

lemma capability_index_less [simp]: "capability_index a < 8"
  by (cases a) simp_all

subsection \<open>Definition tables\<close>

definition all_skip_reasons :: "skip_reason list" where
  "all_skip_reasons = [DisabledAssetKind, ExcludedAssetVariant]"

definition requested_work_definitions ::
    "(requested_work \<times> profile_capability \<times> asset_variant option) list" where
  "requested_work_definitions =
    [(NativeTextureOptimization, CapNativeTextureOptimization, Some (VTexture Native)),
     (StandardMeshOptimization, CapStandardMeshOptimization, Some (VMesh Standard)),
     (TerrainMeshOptimization, CapTerrainMeshOptimization, Some (VMesh Terrain)),
     (AnimationOptimization, CapAnimationOptimization, None),
     (ArchiveExtraction, CapArchiveExtraction, None),
     (ArchiveCreation, CapArchiveCreation, None)]"

definition work_capabilities :: "(requested_work \<times> profile_capability) list" where
  "work_capabilities =
     map (\<lambda>(work, capability, _). (work, capability)) requested_work_definitions"

fun capability_kind :: "profile_capability \<Rightarrow> asset_kind" where
  "capability_kind CapNativeTextureOptimization = KTexture"
| "capability_kind CapConvertibleTextureConversion = KTexture"
| "capability_kind CapStandardMeshOptimization = KMesh"
| "capability_kind CapTerrainMeshOptimization = KMesh"
| "capability_kind CapMeshReferenceMaintenance = KMesh"
| "capability_kind CapAnimationOptimization = KAnimation"
| "capability_kind CapArchiveExtraction = KArchive"
| "capability_kind CapArchiveCreation = KArchive"

definition built_in_extensions :: "(string \<times> asset_kind) list" where
  "built_in_extensions =
    [(''.dds'', KTexture), (''.tga'', KTexture), (''.nif'', KMesh),
     (''.btr'', KMesh), (''.bto'', KMesh), (''.hkx'', KAnimation)]"

definition all_capabilities :: "profile_capability list" where
  "all_capabilities =
    [CapNativeTextureOptimization, CapConvertibleTextureConversion,
     CapStandardMeshOptimization, CapTerrainMeshOptimization, CapAnimationOptimization,
     CapArchiveExtraction, CapMeshReferenceMaintenance, CapArchiveCreation]"

subsection \<open>Closed sets\<close>

type_synonym asset_operations = "bool list"

definition no_operations :: asset_operations where
  "no_operations = replicate 4 False"

definition contains :: "asset_operations \<Rightarrow> asset_operation \<Rightarrow> bool" where
  "contains ops operation = ops ! operation_index operation"

definition include_operation :: "asset_operation \<Rightarrow> asset_operations \<Rightarrow> asset_operations" where
  "include_operation operation ops = ops[operation_index operation := True]"

definition operations_empty :: "asset_operations \<Rightarrow> bool" where
  "operations_empty ops = (\<not> list_ex (\<lambda>included. included) ops)"

record routing_policy_request =
  request_mode :: execution_mode
  request_work :: "bool list"

definition for_work :: "execution_mode \<Rightarrow> requested_work list \<Rightarrow> routing_policy_request" where
  "for_work mode work =
     \<lparr>request_mode = mode,
      request_work = fold (\<lambda>choice set. set[work_index choice := True]) work (replicate 6 False)\<rparr>"

definition optimize_native_textures :: routing_policy_request where
  "optimize_native_textures = for_work Apply [NativeTextureOptimization]"

record profile_capabilities =
  raw_archive_extension :: "string option"
  capability_set :: "bool list"

definition from_definition :: "string option \<Rightarrow> profile_capability list \<Rightarrow> profile_capabilities" where
  "from_definition ext capabilities =
     \<lparr>raw_archive_extension = ext,
      capability_set =
        fold (\<lambda>capability set. set[capability_index capability := True]) capabilities
          (replicate 8 False)\<rparr>"

definition define_capabilities :: "string \<Rightarrow> profile_capability list \<Rightarrow> profile_capabilities" where
  "define_capabilities ext capabilities = from_definition (Some ext) capabilities"

definition without_archive_extension :: "profile_capability list \<Rightarrow> profile_capabilities" where
  "without_archive_extension capabilities = from_definition None capabilities"

definition supports :: "profile_capabilities \<Rightarrow> profile_capability \<Rightarrow> bool" where
  "supports c capability = capability_set c ! capability_index capability"

definition supports_kind :: "profile_capabilities \<Rightarrow> asset_kind \<Rightarrow> bool" where
  "supports_kind c kind =
     list_ex (\<lambda>capability. supports c capability \<and> capability_kind capability = kind)
       all_capabilities"

text \<open>Setting the listed indices of an all-false array makes it the indicator of the list.\<close>

lemma length_fold_set [simp]:
  "length (fold (\<lambda>x set. set[f x := True]) xs ys) = length ys"
  by (induction xs arbitrary: ys) auto

lemma fold_set_nth:
  assumes "i < length ys"
  shows "fold (\<lambda>x set. set[f x := True]) xs ys ! i \<longleftrightarrow> ys ! i \<or> i \<in> f ` set xs"
  using assms
proof (induction xs arbitrary: ys)
  case (Cons a xs)
  then show ?case by (cases "f a = i") auto
qed simp

lemma for_work_requests:
  "request_work (for_work mode work) ! work_index w \<longleftrightarrow> w \<in> set work"
  by (auto simp: for_work_def fold_set_nth work_index_inj)

lemma length_for_work [simp]: "length (request_work (for_work mode work)) = 6"
  by (simp add: for_work_def)

lemma supports_from_definition [simp]:
  "supports (from_definition ext caps) c \<longleftrightarrow> c \<in> set caps"
  by (auto simp: supports_def from_definition_def fold_set_nth capability_index_inj)

lemma all_capabilities_complete: "c \<in> set all_capabilities"
  by (cases c) (simp_all add: all_capabilities_def)

lemma supports_kind_iff:
  "supports_kind c kind \<longleftrightarrow> (\<exists>capability. supports c capability \<and> capability_kind capability = kind)"
  using all_capabilities_complete by (auto simp: supports_kind_def list_ex_iff)

subsection \<open>Policy conflicts\<close>

datatype malformed_archive_extension_reason =
  MissingLeadingPeriod | EmptySuffix | InvalidCharacter

datatype policy_validation_error =
    MissingArchiveExtension
  | MalformedArchiveExtension string malformed_archive_extension_reason
  | AmbiguousArchiveExtension string string asset_kind
  | UnsupportedRequestedAssetKind requested_work asset_kind
  | UnsupportedRequestedAssetVariant requested_work asset_variant
  | UnsupportedDerivedOperation requested_work asset_operation

definition malformed_reason :: "string \<Rightarrow> malformed_archive_extension_reason option" where
  "malformed_reason ext =
     (case ext of
        [] \<Rightarrow> Some MissingLeadingPeriod
      | c # suffix \<Rightarrow>
          if c \<noteq> CHR ''.'' then Some MissingLeadingPeriod
          else if suffix = [] then Some EmptySuffix
          else if \<not> list_all is_ascii_alphanumeric suffix then Some InvalidCharacter
          else None)"

subsection \<open>The Routing Policy\<close>

record routing_policy =
  policy_mode :: execution_mode
  policy_work :: "bool list"
  converts_textures :: bool
  archive_extension :: string

text \<open>
  The three error-collecting steps of \<open>RoutingPolicy::compile\<close>: the Archive extension, each
  explicit work choice in enumeration order, and derived Mesh Reference Maintenance.
\<close>

definition compile_archive_extension ::
    "string option \<Rightarrow> policy_validation_error list \<times> string" where
  "compile_archive_extension raw =
     (case raw of
        None \<Rightarrow> ([MissingArchiveExtension], [])
      | Some [] \<Rightarrow> ([MissingArchiveExtension], [])
      | Some ext \<Rightarrow>
          (case malformed_reason ext of
             Some reason \<Rightarrow> ([MalformedArchiveExtension ext reason], [])
           | None \<Rightarrow>
               (let lower = to_ascii_lowercase ext
                in case find (\<lambda>(built_in, _). built_in = lower) built_in_extensions of
                     Some (built_in, kind) \<Rightarrow> ([AmbiguousArchiveExtension ext built_in kind], lower)
                   | None \<Rightarrow> ([], lower))))"

definition compile_work_conflicts ::
    "routing_policy_request \<Rightarrow> profile_capabilities \<Rightarrow> policy_validation_error list" where
  "compile_work_conflicts request capabilities =
     List.maps
       (\<lambda>(work, capability, variant).
          if \<not> request_work request ! work_index work \<or> supports capabilities capability then []
          else let kind = capability_kind capability
               in case variant of
                    Some v \<Rightarrow>
                      if supports_kind capabilities kind
                      then [UnsupportedRequestedAssetVariant work v]
                      else [UnsupportedRequestedAssetKind work kind]
                  | None \<Rightarrow> [UnsupportedRequestedAssetKind work kind])
       requested_work_definitions"

definition compile_converts ::
    "routing_policy_request \<Rightarrow> profile_capabilities \<Rightarrow> bool \<Rightarrow> bool" where
  "compile_converts request capabilities prefers_conversion =
     (prefers_conversion
      \<and> request_work request ! work_index NativeTextureOptimization
      \<and> supports capabilities CapConvertibleTextureConversion)"

definition compile ::
    "routing_policy_request \<Rightarrow> profile_capabilities \<Rightarrow> bool
       \<Rightarrow> policy_validation_error list + routing_policy" where
  "compile request capabilities prefers_conversion =
     (let (extension_errors, ext) = compile_archive_extension (raw_archive_extension capabilities);
          work_errors = compile_work_conflicts request capabilities;
          converts = compile_converts request capabilities prefers_conversion;
          derived_errors =
            (if converts \<and> \<not> supports capabilities CapMeshReferenceMaintenance
             then [UnsupportedDerivedOperation NativeTextureOptimization MeshReferenceMaintenance]
             else []);
          errors = extension_errors @ work_errors @ derived_errors
      in if errors \<noteq> [] then Err errors
         else Ok \<lparr>policy_mode = request_mode request, policy_work = request_work request,
                  converts_textures = converts, archive_extension = ext\<rparr>)"

definition requests :: "routing_policy \<Rightarrow> requested_work \<Rightarrow> bool" where
  "requests policy work = policy_work policy ! work_index work"

definition maintains_mesh_references :: "routing_policy \<Rightarrow> bool" where
  "maintains_mesh_references policy = converts_textures policy"

fun kind_has_work :: "routing_policy \<Rightarrow> asset_kind \<Rightarrow> bool" where
  "kind_has_work policy KTexture =
     (requests policy NativeTextureOptimization \<or> converts_textures policy)"
| "kind_has_work policy KMesh =
     (requests policy StandardMeshOptimization \<or> requests policy TerrainMeshOptimization
      \<or> maintains_mesh_references policy)"
| "kind_has_work policy KAnimation = requests policy AnimationOptimization"
| "kind_has_work policy KArchive = requests policy ArchiveExtraction"

subsection \<open>Routing Decisions\<close>

datatype asset_identity =
  IdTexture texture_variant | IdMesh mesh_variant | IdAnimation | IdArchive

fun identity_kind :: "asset_identity \<Rightarrow> asset_kind" where
  "identity_kind (IdTexture _) = KTexture"
| "identity_kind (IdMesh _) = KMesh"
| "identity_kind IdAnimation = KAnimation"
| "identity_kind IdArchive = KArchive"

record routed_asset =
  execution_path :: path
  asset_identity :: asset_identity
  asset_phase :: routed_asset_phase
  asset_target :: optimizer_target
  asset_mode :: execution_mode
  asset_ops :: asset_operations

record skipped_asset =
  skipped_path :: path
  skipped_identity :: asset_identity
  skipped_reason :: skip_reason

datatype routing_decision = Routed routed_asset | Skipped skipped_asset | Unsupported

definition normalized_terminal_extension :: "path \<Rightarrow> string" where
  "normalized_terminal_extension p =
     (case extension p of
        None \<Rightarrow> []
      | Some ext \<Rightarrow> if is_ascii ext then CHR ''.'' # to_ascii_lowercase ext else [])"

text \<open>
  The \<open>match\<close> of \<open>AssetRouter::route\<close>: the identity, phase, target and operation set of a
  recognized extension.
\<close>

definition classify_extension ::
    "routing_policy \<Rightarrow> string
       \<Rightarrow> (asset_identity \<times> routed_asset_phase \<times> optimizer_target \<times> asset_operations) option" where
  "classify_extension policy ext =
     (let when = (\<lambda>condition operation ops. if condition then include_operation operation ops else ops)
      in if ext = ''.dds'' then
           Some (IdTexture Native, LooseAssetProcessing, TTexture,
             when (requests policy NativeTextureOptimization) Optimization no_operations)
         else if ext = ''.tga'' then
           Some (IdTexture Convertible, LooseAssetProcessing, TTexture,
             when (converts_textures policy) Conversion no_operations)
         else if ext = ''.nif'' \<or> ext = ''.btr'' \<or> ext = ''.bto'' then
           (let (variant, work) =
              (if ext = ''.nif'' then (Standard, StandardMeshOptimization)
               else (Terrain, TerrainMeshOptimization))
            in Some (IdMesh variant, LooseAssetProcessing, TMesh,
                 when (maintains_mesh_references policy) MeshReferenceMaintenance
                   (when (requests policy work) Optimization no_operations)))
         else if ext = ''.hkx'' then
           Some (IdAnimation, LooseAssetProcessing, TAnimation,
             when (requests policy AnimationOptimization) Optimization no_operations)
         else if ext \<noteq> [] \<and> ext = archive_extension policy then
           Some (IdArchive, ArchiveExtractionPhase, TArchive,
             when (requests policy ArchiveExtraction) Extraction no_operations)
         else None)"

definition route :: "routing_policy \<Rightarrow> path \<Rightarrow> routing_decision" where
  "route policy p =
     (case classify_extension policy (normalized_terminal_extension p) of
        None \<Rightarrow> Unsupported
      | Some (identity, phase, target, ops) \<Rightarrow>
          if \<not> operations_empty ops then
            Routed \<lparr>execution_path = p, asset_identity = identity, asset_phase = phase,
                    asset_target = target, asset_mode = policy_mode policy, asset_ops = ops\<rparr>
          else
            Skipped \<lparr>skipped_path = p, skipped_identity = identity,
                     skipped_reason =
                       (if kind_has_work policy (identity_kind identity)
                        then ExcludedAssetVariant else DisabledAssetKind)\<rparr>)"

subsection \<open>The Routing Ledger\<close>

record routing_ledger =
  routed_assets :: "routed_asset list"
  skipped_asset_counts :: "skip_reason \<rightharpoonup> nat"

definition empty_ledger :: routing_ledger where
  "empty_ledger = \<lparr>routed_assets = [], skipped_asset_counts = Map.empty\<rparr>"

definition bump_count :: "'k \<Rightarrow> ('k \<rightharpoonup> nat) \<Rightarrow> ('k \<rightharpoonup> nat)" where
  "bump_count k counts = counts(k \<mapsto> (case counts k of None \<Rightarrow> 1 | Some n \<Rightarrow> n + 1))"

definition ledger_step :: "routing_policy \<Rightarrow> path \<Rightarrow> routing_ledger \<Rightarrow> routing_ledger" where
  "ledger_step policy p ledger =
     (case route policy p of
        Routed asset \<Rightarrow> ledger\<lparr>routed_assets := routed_assets ledger @ [asset]\<rparr>
      | Skipped asset \<Rightarrow>
          ledger\<lparr>skipped_asset_counts :=
                   bump_count (skipped_reason asset) (skipped_asset_counts ledger)\<rparr>
      | Unsupported \<Rightarrow> ledger)"

definition route_all :: "routing_policy \<Rightarrow> path list \<Rightarrow> routing_ledger" where
  "route_all policy paths = fold (ledger_step policy) paths empty_ledger"

definition routed_assets_in_phase :: "routing_ledger \<Rightarrow> routed_asset_phase \<Rightarrow> routed_asset list" where
  "routed_assets_in_phase ledger phase =
     filter (\<lambda>asset. asset_phase asset = phase) (routed_assets ledger)"

definition routed_assets_for :: "routing_ledger \<Rightarrow> optimizer_target \<Rightarrow> routed_asset list" where
  "routed_assets_for ledger target =
     filter (\<lambda>asset. asset_target asset = target) (routed_assets ledger)"

definition ledger_skipped_count :: "routing_ledger \<Rightarrow> skip_reason \<Rightarrow> nat" where
  "ledger_skipped_count ledger reason =
     (case skipped_asset_counts ledger reason of None \<Rightarrow> 0 | Some n \<Rightarrow> n)"

subsection \<open>Lemmas: compilation\<close>

lemma requested_work_definitions_capability:
  "(work, capability, variant) \<in> set requested_work_definitions \<Longrightarrow>
     (work, capability) \<in> set work_capabilities"
  by (force simp: work_capabilities_def)

lemma malformed_reason_None:
  "malformed_reason ext = None \<longleftrightarrow>
     (\<exists>suffix. ext = CHR ''.'' # suffix \<and> suffix \<noteq> [] \<and> list_all is_ascii_alphanumeric suffix)"
  by (auto simp: malformed_reason_def split: list.splits if_splits)

text \<open>What makes a raw Archive extension acceptable, apart from the conflict text.\<close>

definition valid_archive_extension :: "string option \<Rightarrow> bool" where
  "valid_archive_extension raw =
     (case raw of
        None \<Rightarrow> False
      | Some ext \<Rightarrow> malformed_reason ext = None
          \<and> to_ascii_lowercase ext \<notin> fst ` set built_in_extensions)"

lemma find_built_in_None:
  "find (\<lambda>(built_in, _). built_in = lower) built_in_extensions = None
     \<longleftrightarrow> lower \<notin> fst ` set built_in_extensions"
  by (force simp: find_None_iff)

lemma malformed_reason_Nil [simp]: "malformed_reason [] = Some MissingLeadingPeriod"
  by (simp add: malformed_reason_def)

lemma compile_archive_extension_Some:
  "compile_archive_extension (Some ext) =
     (if ext = [] then ([MissingArchiveExtension], [])
      else case malformed_reason ext of
        Some reason \<Rightarrow> ([MalformedArchiveExtension ext reason], [])
      | None \<Rightarrow>
          (case find (\<lambda>(built_in, _). built_in = to_ascii_lowercase ext) built_in_extensions of
             Some (built_in, kind) \<Rightarrow>
               ([AmbiguousArchiveExtension ext built_in kind], to_ascii_lowercase ext)
           | None \<Rightarrow> ([], to_ascii_lowercase ext)))"
  unfolding compile_archive_extension_def Let_def by (induct ext) simp_all

lemma compile_archive_extension_ok:
  "fst (compile_archive_extension raw) = [] \<longleftrightarrow> valid_archive_extension raw"
proof (cases raw)
  case None
  then show ?thesis by (simp add: compile_archive_extension_def valid_archive_extension_def)
next
  case (Some ext)
  then show ?thesis
    by (auto simp: compile_archive_extension_Some valid_archive_extension_def
        simp flip: find_built_in_None split: option.splits)
qed

lemma compile_archive_extension_value:
  "valid_archive_extension (Some ext) \<Longrightarrow>
     compile_archive_extension (Some ext) = ([], to_ascii_lowercase ext)"
  by (auto simp: compile_archive_extension_Some valid_archive_extension_def
      simp flip: find_built_in_None split: option.splits)

lemma compile_archive_extension_length: "length (fst (compile_archive_extension raw)) \<le> 1"
  unfolding compile_archive_extension_def
  by (auto simp: Let_def split: option.splits list.splits)

fun error_work :: "policy_validation_error \<Rightarrow> requested_work option" where
  "error_work (UnsupportedRequestedAssetKind work _) = Some work"
| "error_work (UnsupportedRequestedAssetVariant work _) = Some work"
| "error_work _ = None"

lemma compile_archive_extension_unnamed:
  "List.map_filter error_work (fst (compile_archive_extension raw)) = []"
  by (cases raw)
     (auto simp: compile_archive_extension_Some map_filter_simps split: option.splits,
      simp add: compile_archive_extension_def map_filter_simps)

lemma compile_archive_extension_no_kind:
  "UnsupportedRequestedAssetKind work kind \<notin> set (fst (compile_archive_extension raw))"
  by (cases raw)
     (auto simp: compile_archive_extension_Some split: option.splits,
      simp add: compile_archive_extension_def)

text \<open>Every explicit work choice has its own row, so a conflict names its work exactly once.\<close>

definition work_capability :: "requested_work \<Rightarrow> profile_capability" where
  "work_capability work = the (map_of work_capabilities work)"

lemma work_capability_simps [simp]:
  "work_capability NativeTextureOptimization = CapNativeTextureOptimization"
  "work_capability StandardMeshOptimization = CapStandardMeshOptimization"
  "work_capability TerrainMeshOptimization = CapTerrainMeshOptimization"
  "work_capability AnimationOptimization = CapAnimationOptimization"
  "work_capability ArchiveExtraction = CapArchiveExtraction"
  "work_capability ArchiveCreation = CapArchiveCreation"
  by (simp_all add: work_capability_def work_capabilities_def requested_work_definitions_def)

definition conflicting :: "routing_policy_request \<Rightarrow> profile_capabilities \<Rightarrow> requested_work \<Rightarrow> bool" where
  "conflicting request capabilities work =
     (request_work request ! work_index work \<and> \<not> supports capabilities (work_capability work))"

definition all_work :: "requested_work list" where
  "all_work =
    [NativeTextureOptimization, StandardMeshOptimization, TerrainMeshOptimization,
     AnimationOptimization, ArchiveExtraction, ArchiveCreation]"

lemma all_work_complete: "w \<in> set all_work"
  by (cases w) (simp_all add: all_work_def)

lemma compile_work_conflicts_works:
  "map error_work (compile_work_conflicts request capabilities)
     = map Some (filter (conflicting request capabilities) all_work)"
  by (simp add: compile_work_conflicts_def requested_work_definitions_def all_work_def
      conflicting_def Let_def)

lemma compile_work_conflicts_Nil:
  "compile_work_conflicts request capabilities = [] \<longleftrightarrow>
     (\<forall>work. \<not> conflicting request capabilities work)"
proof -
  have "compile_work_conflicts request capabilities = [] \<longleftrightarrow>
      filter (conflicting request capabilities) all_work = []"
    using compile_work_conflicts_works [of request capabilities]
    by (metis map_is_Nil_conv)
  then show ?thesis using all_work_complete by (auto simp: filter_empty_conv)
qed

lemma requested_work_definitions_row:
  "(work, capability, variant) \<in> set requested_work_definitions \<Longrightarrow>
     capability = work_capability work
     \<and> (variant = None \<longleftrightarrow> capability_kind capability \<in> {KAnimation, KArchive})"
  by (auto simp: requested_work_definitions_def)

lemma compile_work_conflicts_kind:
  assumes "UnsupportedRequestedAssetKind work kind \<in> set (compile_work_conflicts request capabilities)"
  shows "kind = capability_kind (work_capability work)
     \<and> (kind \<in> {KAnimation, KArchive} \<or> \<not> supports_kind capabilities kind)"
proof -
  obtain w capability variant where row: "(w, capability, variant) \<in> set requested_work_definitions"
    and err: "UnsupportedRequestedAssetKind work kind \<in> set
      (if \<not> request_work request ! work_index w \<or> supports capabilities capability then []
       else let kind = capability_kind capability
            in case variant of
                 Some v \<Rightarrow> if supports_kind capabilities kind
                   then [UnsupportedRequestedAssetVariant w v]
                   else [UnsupportedRequestedAssetKind w kind]
               | None \<Rightarrow> [UnsupportedRequestedAssetKind w kind])"
    using assms unfolding compile_work_conflicts_def by (fastforce simp: List.maps_eq)
  show ?thesis
    using err requested_work_definitions_row [OF row]
    by (cases variant) (auto simp: Let_def split: if_splits)
qed

lemma compile_Ok:
  "compile request capabilities prefers = Ok policy \<longleftrightarrow>
     valid_archive_extension (raw_archive_extension capabilities)
     \<and> (\<forall>work. \<not> conflicting request capabilities work)
     \<and> (compile_converts request capabilities prefers \<longrightarrow>
          supports capabilities CapMeshReferenceMaintenance)
     \<and> policy = \<lparr>policy_mode = request_mode request, policy_work = request_work request,
                 converts_textures = compile_converts request capabilities prefers,
                 archive_extension = snd (compile_archive_extension (raw_archive_extension capabilities))\<rparr>"
  by (auto simp: compile_def Let_def compile_work_conflicts_Nil
      simp flip: compile_archive_extension_ok split: prod.splits)

lemma compiled_extension:
  assumes "compile request capabilities prefers = Ok policy"
  obtains ext where "raw_archive_extension capabilities = Some ext"
    and "valid_archive_extension (Some ext)"
    and "archive_extension policy = to_ascii_lowercase ext"
  using assms
  by (auto simp: compile_Ok compile_archive_extension_value valid_archive_extension_def
      split: option.splits)

lemma to_ascii_lowercase_dot [simp]: "to_ascii_lowercase (CHR ''.'' # s) = CHR ''.'' # to_ascii_lowercase s"
  by (simp add: to_ascii_lowercase_def char_to_ascii_lowercase_def byte_def)

lemma compiled_extension_not_built_in:
  assumes "compile request capabilities prefers = Ok policy"
  shows "archive_extension policy \<notin> fst ` set built_in_extensions \<and> archive_extension policy \<noteq> []"
  using assms
  by (elim compiled_extension)
     (auto simp: valid_archive_extension_def malformed_reason_None)

subsection \<open>Lemmas: decisions\<close>

lemma length_include [simp]: "length (include_operation operation ops) = length ops"
  by (simp add: include_operation_def)

lemma contains_include:
  "length ops = 4 \<Longrightarrow>
     contains (include_operation operation ops) other \<longleftrightarrow> other = operation \<or> contains ops other"
  by (auto simp: contains_def include_operation_def nth_list_update operation_index_inj)

lemma length_no_operations [simp]: "length no_operations = 4"
  by (simp add: no_operations_def)

lemma contains_no_operations [simp]: "\<not> contains no_operations operation"
  by (simp add: contains_def no_operations_def)

lemma operation_index_surj: "i < 4 \<Longrightarrow> \<exists>operation. operation_index operation = i"
  by (auto simp: less_Suc_eq numeral_eq_Suc
      intro: exI [of _ Extraction] exI [of _ Optimization] exI [of _ Conversion]
        exI [of _ MeshReferenceMaintenance])

lemma operations_empty_iff:
  assumes "length ops = 4"
  shows "operations_empty ops \<longleftrightarrow> (\<forall>operation. \<not> contains ops operation)"
proof -
  have "list_ex (\<lambda>b. b) ops \<longleftrightarrow> (\<exists>i < 4. ops ! i)"
    using assms by (simp add: list_ex_length)
  also have "\<dots> \<longleftrightarrow> (\<exists>operation. contains ops operation)"
    using operation_index_surj by (force simp: contains_def)
  finally show ?thesis by (simp add: operations_empty_def)
qed

text \<open>
  The work each identity can carry: the specification the \<open>match\<close> of \<open>route\<close> implements.
\<close>

fun identity_operations :: "routing_policy \<Rightarrow> asset_identity \<Rightarrow> asset_operation set" where
  "identity_operations policy (IdTexture Native) =
     (if requests policy NativeTextureOptimization then {Optimization} else {})"
| "identity_operations policy (IdTexture Convertible) =
     (if converts_textures policy then {Conversion} else {})"
| "identity_operations policy (IdMesh Standard) =
     (if requests policy StandardMeshOptimization then {Optimization} else {})
     \<union> (if converts_textures policy then {MeshReferenceMaintenance} else {})"
| "identity_operations policy (IdMesh Terrain) =
     (if requests policy TerrainMeshOptimization then {Optimization} else {})
     \<union> (if converts_textures policy then {MeshReferenceMaintenance} else {})"
| "identity_operations policy IdAnimation =
     (if requests policy AnimationOptimization then {Optimization} else {})"
| "identity_operations policy IdArchive =
     (if requests policy ArchiveExtraction then {Extraction} else {})"

fun identity_target :: "asset_identity \<Rightarrow> optimizer_target" where
  "identity_target (IdTexture _) = TTexture"
| "identity_target (IdMesh _) = TMesh"
| "identity_target IdAnimation = TAnimation"
| "identity_target IdArchive = TArchive"

definition identity_phase :: "asset_identity \<Rightarrow> routed_asset_phase" where
  "identity_phase identity =
     (if identity = IdArchive then ArchiveExtractionPhase else LooseAssetProcessing)"

definition recognize :: "routing_policy \<Rightarrow> string \<Rightarrow> asset_identity option" where
  "recognize policy ext =
     (case map_of [(''.dds'', IdTexture Native), (''.tga'', IdTexture Convertible),
                   (''.nif'', IdMesh Standard), (''.btr'', IdMesh Terrain),
                   (''.bto'', IdMesh Terrain), (''.hkx'', IdAnimation)] ext of
        Some identity \<Rightarrow> Some identity
      | None \<Rightarrow> if ext \<noteq> [] \<and> ext = archive_extension policy then Some IdArchive else None)"

lemma classify_extension_None:
  "classify_extension policy ext = None \<longleftrightarrow> recognize policy ext = None"
  by (simp add: classify_extension_def recognize_def Let_def)

lemma carried_include:
  "length ops = 4 \<Longrightarrow>
     Collect (contains (include_operation added ops)) = insert added (Collect (contains ops))"
  by (auto simp: contains_include)

lemma carried_none [simp]: "Collect (contains no_operations) = {}"
  by auto

lemma classify_extension_Some:
  assumes "classify_extension policy ext = Some (identity, phase, target, ops)"
  shows "recognize policy ext = Some identity \<and> phase = identity_phase identity
     \<and> target = identity_target identity \<and> length ops = 4
     \<and> {operation. contains ops operation} = identity_operations policy identity"
proof -
  consider "ext = ''.dds''" | "ext = ''.tga''" | "ext = ''.nif''" | "ext = ''.btr''"
    | "ext = ''.bto''" | "ext = ''.hkx''"
    | "ext \<notin> {''.dds'', ''.tga'', ''.nif'', ''.btr'', ''.bto'', ''.hkx''}" by blast
  then show ?thesis
  proof cases
    case 7
    then have "recognize policy ext =
        (if ext \<noteq> [] \<and> ext = archive_extension policy then Some IdArchive else None)"
      by (simp add: recognize_def)
    moreover from 7 have "classify_extension policy ext =
        (if ext \<noteq> [] \<and> ext = archive_extension policy
         then Some (IdArchive, ArchiveExtractionPhase, TArchive,
           (if requests policy ArchiveExtraction then include_operation Extraction no_operations
            else no_operations))
         else None)"
      unfolding classify_extension_def Let_def by simp
    ultimately show ?thesis using assms
      by (simp add: identity_phase_def carried_include split: if_splits)
  qed (use assms in \<open>auto simp: classify_extension_def recognize_def Let_def
        identity_phase_def maintains_mesh_references_def contains_include split: if_splits\<close>)
qed

lemma identity_cases:
  obtains "identity = IdTexture Native" | "identity = IdTexture Convertible"
  | "identity = IdMesh Standard" | "identity = IdMesh Terrain"
  | "identity = IdAnimation" | "identity = IdArchive"
proof (cases identity)
  case (IdTexture v)
  then show ?thesis using that by (cases v) auto
next
  case (IdMesh v)
  then show ?thesis using that by (cases v) auto
qed (use that in auto)

lemma kind_has_work_intro:
  "identity_operations policy identity \<noteq> {} \<Longrightarrow> kind_has_work policy (identity_kind identity)"
  by (cases identity rule: identity_cases)
     (auto simp: maintains_mesh_references_def split: if_splits)

lemma kind_has_work_elim:
  assumes "kind_has_work policy kind"
  obtains identity where "identity_kind identity = kind" "identity_operations policy identity \<noteq> {}"
proof (cases kind)
  case KTexture
  then show ?thesis using assms that [of "IdTexture Native"] that [of "IdTexture Convertible"]
    by fastforce
next
  case KMesh
  then show ?thesis using assms that [of "IdMesh Standard"] that [of "IdMesh Terrain"]
    by (fastforce simp: maintains_mesh_references_def)
next
  case KAnimation
  then show ?thesis using assms that [of IdAnimation] by simp
next
  case KArchive
  then show ?thesis using assms that [of IdArchive] by simp
qed

lemma route_cases:
  obtains (unsupported) "recognize policy (normalized_terminal_extension p) = None"
      "route policy p = Unsupported"
  | (recognized) identity ops where
      "recognize policy (normalized_terminal_extension p) = Some identity"
      "length ops = 4" "{operation. contains ops operation} = identity_operations policy identity"
      "route policy p =
         (if identity_operations policy identity \<noteq> {}
          then Routed \<lparr>execution_path = p, asset_identity = identity,
                 asset_phase = identity_phase identity, asset_target = identity_target identity,
                 asset_mode = policy_mode policy, asset_ops = ops\<rparr>
          else Skipped \<lparr>skipped_path = p, skipped_identity = identity,
                 skipped_reason = (if kind_has_work policy (identity_kind identity)
                    then ExcludedAssetVariant else DisabledAssetKind)\<rparr>)"
proof (cases "classify_extension policy (normalized_terminal_extension p)")
  case None
  moreover from None have "recognize policy (normalized_terminal_extension p) = None"
    by (simp only: classify_extension_None)
  ultimately show ?thesis by (intro unsupported) (simp_all add: route_def)
next
  case (Some facts)
  obtain identity phase target ops where f: "facts = (identity, phase, target, ops)"
    by (cases facts)
  note c = classify_extension_Some [OF Some [unfolded f]]
  have e: "operations_empty ops \<longleftrightarrow> identity_operations policy identity = {}"
    using c operations_empty_iff [of ops] by blast
  show ?thesis
    using c e Some f by (intro recognized [of identity ops]) (simp_all add: route_def)
qed

subsection \<open>Lemmas: the ledger\<close>

fun decision_asset :: "routing_decision \<Rightarrow> routed_asset option" where
  "decision_asset (Routed asset) = Some asset"
| "decision_asset _ = None"

fun decision_skip :: "routing_decision \<Rightarrow> skip_reason option" where
  "decision_skip (Skipped asset) = Some (skipped_reason asset)"
| "decision_skip _ = None"

fun decision_kind :: "routing_decision \<Rightarrow> asset_kind option" where
  "decision_kind (Routed asset) = Some (identity_kind (asset_identity asset))"
| "decision_kind (Skipped asset) = Some (identity_kind (skipped_identity asset))"
| "decision_kind Unsupported = None"

lemma ledger_skipped_count_bump:
  "(case bump_count k counts k' of None \<Rightarrow> 0 | Some n \<Rightarrow> n)
     = (case counts k' of None \<Rightarrow> 0 | Some n \<Rightarrow> n) + (if k = k' then 1 else 0)"
  by (simp add: bump_count_def split: option.splits)

lemma ledger_step_routed:
  "routed_assets (ledger_step policy p ledger) =
     routed_assets ledger @ List.map_filter (decision_asset \<circ> route policy) [p]"
  by (cases "route policy p") (simp_all add: ledger_step_def map_filter_simps)

lemma ledger_step_skipped:
  "ledger_skipped_count (ledger_step policy p ledger) reason =
     ledger_skipped_count ledger reason
     + (if decision_skip (route policy p) = Some reason then 1 else 0)"
  by (cases "route policy p")
     (simp_all add: ledger_step_def ledger_skipped_count_def ledger_skipped_count_bump)

lemma fold_ledger_routed:
  "routed_assets (fold (ledger_step policy) paths ledger) =
     routed_assets ledger @ List.map_filter (decision_asset \<circ> route policy) paths"
proof (induction paths arbitrary: ledger)
  case Nil
  then show ?case by (simp add: map_filter_simps)
next
  case (Cons p paths)
  then show ?case
    by (cases "route policy p") (simp_all add: ledger_step_routed map_filter_simps)
qed

lemma fold_ledger_skipped:
  "ledger_skipped_count (fold (ledger_step policy) paths ledger) reason =
     ledger_skipped_count ledger reason
     + length (filter (\<lambda>p. decision_skip (route policy p) = Some reason) paths)"
  by (induction paths arbitrary: ledger) (simp_all add: ledger_step_skipped)

lemma route_all_routed:
  "routed_assets (route_all policy paths) = List.map_filter (decision_asset \<circ> route policy) paths"
  by (simp add: route_all_def fold_ledger_routed empty_ledger_def)

lemma route_all_skipped:
  "ledger_skipped_count (route_all policy paths) reason =
     length (filter (\<lambda>p. decision_skip (route policy p) = Some reason) paths)"
proof -
  have "ledger_skipped_count empty_ledger reason = 0"
    by (simp add: ledger_skipped_count_def empty_ledger_def)
  then show ?thesis by (simp add: route_all_def fold_ledger_skipped)
qed

lemma route_Routed:
  assumes "route policy p = Routed asset"
  shows "recognize policy (normalized_terminal_extension p) = Some (asset_identity asset)
    \<and> execution_path asset = p \<and> asset_mode asset = policy_mode policy
    \<and> asset_target asset = identity_target (asset_identity asset)
    \<and> asset_phase asset = identity_phase (asset_identity asset)
    \<and> Collect (contains (asset_ops asset)) = identity_operations policy (asset_identity asset)
    \<and> identity_operations policy (asset_identity asset) \<noteq> {}"
  using assms by (cases policy p rule: route_cases) (auto split: if_splits)

lemma routed_assets_route:
  "asset \<in> set (routed_assets (route_all policy paths)) \<Longrightarrow>
     \<exists>p \<in> set paths. route policy p = Routed asset"
  by (auto simp: route_all_routed List.map_filter_def)
     (metis decision_asset.simps option.sel option.discI routing_decision.exhaust)

lemma routing_partition:
  "length paths =
     length (List.map_filter (decision_asset \<circ> route policy) paths)
     + length (filter (\<lambda>p. decision_skip (route policy p) = Some DisabledAssetKind) paths)
     + length (filter (\<lambda>p. decision_skip (route policy p) = Some ExcludedAssetVariant) paths)
     + length (filter (\<lambda>p. route policy p = Unsupported) paths)"
proof (induction paths)
  case Nil
  then show ?case by (simp add: map_filter_simps)
next
  case (Cons p paths)
  show ?case
  proof (cases "route policy p")
    case (Skipped s)
    with Cons show ?thesis by (cases "skipped_reason s") (simp_all add: map_filter_simps)
  qed (use Cons in \<open>simp_all add: map_filter_simps\<close>)
qed

lemma normalized_terminal_extension_append:
  assumes "CHR ''.'' \<notin> set ext" and "stem \<noteq> []" and "is_ascii ext"
  shows "normalized_terminal_extension (dir @ [Normal (stem @ CHR ''.'' # ext)])
     = CHR ''.'' # to_ascii_lowercase ext"
  using assms by (simp add: normalized_terminal_extension_def extension_append)

subsection \<open>Properties\<close>

text \<open>
  C5: A Routing Policy compiles exactly when the profile's Archive extension is well formed and
  is none of the built-in Asset extensions, every requested piece of work has its Profile
  Capability, and a conversion that the Conversion Preference turns on can be followed by Mesh
  Reference Maintenance.
\<close>

theorem compile_accepts_iff:
  "(\<exists>policy. compile request capabilities prefers = Ok policy) \<longleftrightarrow>
     valid_archive_extension (raw_archive_extension capabilities)
     \<and> (\<forall>work. request_work request ! work_index work \<longrightarrow>
           supports capabilities (work_capability work))
     \<and> (prefers \<and> request_work request ! work_index NativeTextureOptimization
          \<and> supports capabilities CapConvertibleTextureConversion
        \<longrightarrow> supports capabilities CapMeshReferenceMaintenance)"
  by (auto simp: compile_Ok conflicting_def compile_converts_def)

definition demo_capabilities :: profile_capabilities where
  "demo_capabilities = define_capabilities ''.BSA''
     [CapNativeTextureOptimization, CapConvertibleTextureConversion, CapStandardMeshOptimization,
      CapMeshReferenceMaintenance, CapArchiveExtraction]"

definition demo_request :: routing_policy_request where
  "demo_request = for_work Apply [NativeTextureOptimization, ArchiveExtraction]"

lemma demo_valid: "valid_archive_extension (raw_archive_extension demo_capabilities)"
  by code_simp

lemma demo_supports:
  "request_work demo_request ! work_index work \<longrightarrow> supports demo_capabilities (work_capability work)"
proof -
  have "request_work demo_request ! work_index work \<longleftrightarrow>
      work \<in> {NativeTextureOptimization, ArchiveExtraction}"
    by (simp add: demo_request_def for_work_requests)
  then show ?thesis by (auto simp: demo_capabilities_def define_capabilities_def)
qed

theorem compile_accepts_iff_witness:
  "\<exists>policy. compile demo_request demo_capabilities True = Ok policy"
proof -
  have "supports demo_capabilities CapMeshReferenceMaintenance" by code_simp
  then show ?thesis
    using compile_accepts_iff [of demo_request demo_capabilities True] demo_valid demo_supports
    by blast
qed

text \<open>
  A rejected request reports every conflict in one pass. The explicit work choices the
  errors name are exactly the requested choices whose capability the profile lacks, each once
  and in enumeration order, and a choice is reported as an unsupported Kind exactly when the
  profile supports nothing of that Kind or the choice has no Variant.
\<close>

theorem compile_reports_every_conflict:
  assumes "compile request capabilities prefers = Err errors"
  shows "errors \<noteq> []
    \<and> List.map_filter error_work errors = filter (conflicting request capabilities) all_work
    \<and> (\<forall>work kind. UnsupportedRequestedAssetKind work kind \<in> set errors \<longrightarrow>
          kind = capability_kind (work_capability work)
          \<and> (kind \<in> {KAnimation, KArchive} \<or> \<not> supports_kind capabilities kind))"
proof -
  let ?ext = "fst (compile_archive_extension (raw_archive_extension capabilities))"
  let ?derived = "if compile_converts request capabilities prefers
      \<and> \<not> supports capabilities CapMeshReferenceMaintenance
    then [UnsupportedDerivedOperation NativeTextureOptimization MeshReferenceMaintenance] else []"
  have errors: "errors = ?ext @ compile_work_conflicts request capabilities @ ?derived"
    and "errors \<noteq> []"
    using assms by (auto simp: compile_def Let_def split: prod.splits if_splits)
  moreover have "List.map_filter error_work ?ext = []"
    by (rule compile_archive_extension_unnamed)
  moreover have "List.map_filter error_work (compile_work_conflicts request capabilities)
      = filter (conflicting request capabilities) all_work"
    by (rule map_filter_map_Some) (rule compile_work_conflicts_works)
  moreover have "List.map_filter error_work ?derived = []"
    by (simp add: map_filter_simps)
  moreover have "UnsupportedRequestedAssetKind work kind \<in> set (compile_work_conflicts request capabilities)"
    if "UnsupportedRequestedAssetKind work kind \<in> set errors" for work kind
    using that compile_archive_extension_no_kind by (auto simp: errors split: if_splits)
  ultimately show ?thesis
    using compile_work_conflicts_kind by (simp add: map_filter_append) blast
qed

definition bare_capabilities :: profile_capabilities where
  "bare_capabilities = without_archive_extension [CapStandardMeshOptimization]"

theorem compile_reports_every_conflict_witness:
  "\<exists>errors. compile (for_work Apply [ArchiveExtraction, TerrainMeshOptimization])
       bare_capabilities True = Err errors
     \<and> List.map_filter error_work errors = [TerrainMeshOptimization, ArchiveExtraction]"
proof -
  let ?request = "for_work Apply [ArchiveExtraction, TerrainMeshOptimization]"
  let ?errors = "[MissingArchiveExtension,
    UnsupportedRequestedAssetVariant TerrainMeshOptimization (VMesh Terrain),
    UnsupportedRequestedAssetKind ArchiveExtraction KArchive]"
  have compiled: "compile ?request bare_capabilities True = Err ?errors" by code_simp
  moreover have "filter (conflicting ?request bare_capabilities) all_work
      = [TerrainMeshOptimization, ArchiveExtraction]" by code_simp
  ultimately show ?thesis using compile_reports_every_conflict [OF compiled] by metis
qed

text \<open>
  C6: Routing decides by name alone and decides completely. A path is unsupported exactly when
  its extension names no Asset; a recognized path is routed exactly when its identity has work
  under the policy, and then carries precisely that work, to the optimizer and phase of its
  identity, in the policy's mode; otherwise it is skipped, as a disabled Kind when no Variant of
  its Kind has work and as an excluded Variant otherwise.
\<close>

theorem route_decides:
  "case route policy p of
     Unsupported \<Rightarrow> recognize policy (normalized_terminal_extension p) = None
   | Routed asset \<Rightarrow>
       recognize policy (normalized_terminal_extension p) = Some (asset_identity asset)
       \<and> execution_path asset = p \<and> asset_mode asset = policy_mode policy
       \<and> asset_target asset = identity_target (asset_identity asset)
       \<and> asset_phase asset = identity_phase (asset_identity asset)
       \<and> Collect (contains (asset_ops asset)) = identity_operations policy (asset_identity asset)
       \<and> identity_operations policy (asset_identity asset) \<noteq> {}
   | Skipped asset \<Rightarrow>
       recognize policy (normalized_terminal_extension p) = Some (skipped_identity asset)
       \<and> skipped_path asset = p
       \<and> identity_operations policy (skipped_identity asset) = {}
       \<and> (skipped_reason asset = ExcludedAssetVariant \<longleftrightarrow>
            (\<exists>identity. identity_kind identity = identity_kind (skipped_identity asset)
               \<and> identity_operations policy identity \<noteq> {}))"
proof (cases policy p rule: route_cases)
  case unsupported
  then show ?thesis by simp
next
  case (recognized identity ops)
  have work: "kind_has_work policy (identity_kind identity) \<longleftrightarrow>
      (\<exists>other. identity_kind other = identity_kind identity \<and> identity_operations policy other \<noteq> {})"
    by (metis kind_has_work_intro kind_has_work_elim)
  show ?thesis
    using recognized work by (cases "identity_operations policy identity = {}") simp_all
qed

text \<open>
  A profile's Archive extension never captures a built-in Asset. Under every policy that
  compiles, a file whose extension is a built-in one, in any ASCII case, is recognized as the
  Kind of that extension, whatever the profile's Archive extension is.
\<close>

theorem built_in_extension_recognized:
  assumes "compile request capabilities prefers = Ok policy"
    and "(CHR ''.'' # to_ascii_lowercase ext, kind) \<in> set built_in_extensions"
    and "CHR ''.'' \<notin> set ext" and "is_ascii ext" and "stem \<noteq> []"
  shows "decision_kind (route policy (dir @ [Normal (stem @ CHR ''.'' # ext)])) = Some kind
    \<and> archive_extension policy \<noteq> CHR ''.'' # to_ascii_lowercase ext"
proof -
  let ?p = "dir @ [Normal (stem @ CHR ''.'' # ext)]"
  have norm: "normalized_terminal_extension ?p = CHR ''.'' # to_ascii_lowercase ext"
    using assms(3,5,4) by (rule normalized_terminal_extension_append)
  have known: "recognize policy (CHR ''.'' # to_ascii_lowercase ext) \<noteq> None
      \<and> (\<forall>identity. recognize policy (CHR ''.'' # to_ascii_lowercase ext) = Some identity
           \<longrightarrow> identity_kind identity = kind)"
    using assms(2) by (auto simp: built_in_extensions_def recognize_def)
  then have "decision_kind (route policy ?p) = Some kind"
    by (cases policy ?p rule: route_cases) (auto simp: norm)
  moreover have "archive_extension policy \<noteq> CHR ''.'' # to_ascii_lowercase ext"
    using compiled_extension_not_built_in [OF assms(1)] assms(2) by force
  ultimately show ?thesis by simp
qed

definition demo_policy :: routing_policy where
  "demo_policy =
     \<lparr>policy_mode = Apply, policy_work = [True, False, False, False, True, False],
      converts_textures = True, archive_extension = ''.bsa''\<rparr>"

lemma demo_policy_compiled: "compile demo_request demo_capabilities True = Ok demo_policy"
  by code_simp

theorem built_in_extension_recognized_witness:
  "decision_kind (route demo_policy [Normal ''textures'', Normal ''Sky.DdS'']) = Some KTexture"
proof -
  have "(CHR ''.'' # to_ascii_lowercase ''DdS'', KTexture) \<in> set built_in_extensions"
    and "CHR ''.'' \<notin> set ''DdS''" and "is_ascii ''DdS''" and "''Sky'' \<noteq> []"
    by code_simp+
  from built_in_extension_recognized [OF demo_policy_compiled this, of "[Normal ''textures'']"]
  show ?thesis by simp
qed

text \<open>
  C7: The Routing Ledger conserves its input. Its Routed Assets are the routed paths in caller
  order, duplicates included; each Skip Reason counts exactly the recognized paths excluded for
  it; and routed, skipped and unsupported paths together are every path once.
\<close>

theorem route_all_conserves:
  "map execution_path (routed_assets (route_all policy paths))
     = filter (\<lambda>p. decision_asset (route policy p) \<noteq> None) paths
   \<and> ledger_skipped_count (route_all policy paths) reason
     = length (filter (\<lambda>p. decision_skip (route policy p) = Some reason) paths)
   \<and> length (routed_assets (route_all policy paths))
       + ledger_skipped_count (route_all policy paths) DisabledAssetKind
       + ledger_skipped_count (route_all policy paths) ExcludedAssetVariant
       + length (filter (\<lambda>p. route policy p = Unsupported) paths) = length paths"
proof -
  have "map execution_path (List.map_filter (decision_asset \<circ> route policy) paths)
      = filter (\<lambda>p. decision_asset (route policy p) \<noteq> None) paths"
  proof (induction paths)
    case Nil
    then show ?case by (simp add: map_filter_simps)
  next
    case (Cons p paths)
    then show ?case
      using route_Routed [of policy p] by (cases "route policy p") (simp_all add: map_filter_simps)
  qed
  then show ?thesis
    using routing_partition [of paths policy] by (simp add: route_all_routed route_all_skipped)
qed

end
