(* ===== verification/WorkChoices.thy ===== *)
theory WorkChoices
  imports Routing
begin

text \<open>
  Work Choices (\<open>run/work_choices.rs\<close>, the choices of \<open>run/finalization/mod.rs\<close> and the source
  cleanup of \<open>run/archives.rs\<close>), the Admission Rules (\<open>admission.rs\<close>) and the Run Request
  (\<open>run/lifecycle.rs\<close>). Mesh levels are bytes and the Admission's work set is a byte of bits, as
  in the source; resize sides are 32-bit words.
\<close>

unbundle bit_operations_syntax

datatype source_cleanup = Backup | Remove

record archive_finalization_choices =
  compress :: bool
  delete_sources :: bool
  create_dummy_plugins :: bool
  merge_incompressible :: bool
  merge_textures :: bool

definition default_finalization_choices :: archive_finalization_choices where
  "default_finalization_choices =
     \<lparr>compress = True, delete_sources = True, create_dummy_plugins = True,
      merge_incompressible = True, merge_textures = False\<rparr>"

datatype work_choice_error =
  MeshLevelError "32 word" | ZeroResizeRatio | OddResizeSize | ZeroResizeSize

datatype mesh_level = MeshLevel (level_byte: "8 word")

definition mesh_level_necessary :: mesh_level where "mesh_level_necessary = MeshLevel 1"
definition mesh_level_full :: mesh_level where "mesh_level_full = MeshLevel 3"
definition mesh_level_default :: mesh_level where "mesh_level_default = MeshLevel 0"

instantiation mesh_level :: linorder
begin
definition less_eq_mesh_level :: "mesh_level \<Rightarrow> mesh_level \<Rightarrow> bool" where
  "less_eq_mesh_level a b = (level_byte a \<le> level_byte b)"
definition less_mesh_level :: "mesh_level \<Rightarrow> mesh_level \<Rightarrow> bool" where
  "less_mesh_level a b = (level_byte a < level_byte b)"
instance
  by standard (auto simp: less_eq_mesh_level_def less_mesh_level_def mesh_level.expand)
end

text \<open>\<open>u8::try_from\<close> on an \<open>i32\<close>, then the range pattern \<open>0..=3\<close>.\<close>

definition u8_try_from_i32 :: "32 word \<Rightarrow> 8 word option" where
  "u8_try_from_i32 v = (if 0 \<le> sint v \<and> sint v \<le> 255 then Some (word_of_int (sint v)) else None)"

definition mesh_level_new :: "32 word \<Rightarrow> work_choice_error + mesh_level" where
  "mesh_level_new v =
     (case u8_try_from_i32 v of
        Some b \<Rightarrow> if b \<le> 3 then Ok (MeshLevel b) else Err (MeshLevelError v)
      | None \<Rightarrow> Err (MeshLevelError v))"

record resize_ratio =
  ratio_width :: "32 word"
  ratio_height :: "32 word"

definition resize_ratio_new :: "32 word \<Rightarrow> 32 word \<Rightarrow> work_choice_error + resize_ratio" where
  "resize_ratio_new w h =
     (if w = 0 \<or> h = 0 then Err ZeroResizeRatio else Ok \<lparr>ratio_width = w, ratio_height = h\<rparr>)"

record resize_size =
  size_width :: "32 word"
  size_height :: "32 word"

definition resize_size_new :: "32 word \<Rightarrow> 32 word \<Rightarrow> work_choice_error + resize_size" where
  "resize_size_new w h =
     (if w mod 2 \<noteq> 0 \<or> h mod 2 \<noteq> 0 then Err OddResizeSize
      else if w = 0 \<or> h = 0 then Err ZeroResizeSize
      else Ok \<lparr>size_width = w, size_height = h\<rparr>)"

datatype texture_resize_choice = NoResize | ResizeByRatio resize_ratio | ResizeToSize resize_size

record texture_choices =
  necessary :: bool
  compress_textures :: bool
  mipmaps :: bool
  resize :: texture_resize_choice

definition default_texture_choices :: texture_choices where
  "default_texture_choices =
     \<lparr>necessary = True, compress_textures = False, mipmaps = False, resize = NoResize\<rparr>"

record mesh_choices =
  level :: mesh_level
  headparts :: bool
  resave :: bool

definition default_mesh_choices :: mesh_choices where
  "default_mesh_choices = \<lparr>level = mesh_level_default, headparts = True, resave = False\<rparr>"

record work_choices =
  textures :: texture_choices
  meshes :: mesh_choices
  archive_extraction :: source_cleanup
  archive_finalization :: archive_finalization_choices

definition default_work_choices :: work_choices where
  "default_work_choices =
     \<lparr>textures = default_texture_choices, meshes = default_mesh_choices,
      archive_extraction = Backup, archive_finalization = default_finalization_choices\<rparr>"

subsection \<open>Admission Rules\<close>

record admission =
  admission_work :: "8 word"
  highest_mesh_level :: mesh_level

fun work_bit :: "requested_work \<Rightarrow> 8 word" where
  "work_bit NativeTextureOptimization = push_bit 0 1"
| "work_bit StandardMeshOptimization = push_bit 1 1"
| "work_bit TerrainMeshOptimization = push_bit 2 1"
| "work_bit AnimationOptimization = push_bit 3 1"
| "work_bit ArchiveExtraction = push_bit 4 1"
| "work_bit ArchiveCreation = push_bit 5 1"

definition admission_new :: "bool \<Rightarrow> profile_capabilities option \<Rightarrow> admission" where
  "admission_new several_mods capabilities =
     \<lparr>admission_work =
        (case capabilities of
           None \<Rightarrow> - 1
         | Some c \<Rightarrow>
             fold (\<lambda>(requested, capability) work.
                     if \<not> supports c capability then work AND NOT (work_bit requested) else work)
               work_capabilities (- 1)),
      highest_mesh_level = (if several_mods then mesh_level_necessary else mesh_level_full)\<rparr>"

definition admits :: "admission \<Rightarrow> requested_work \<Rightarrow> bool" where
  "admits a work = (admission_work a AND work_bit work \<noteq> 0)"

definition admitted_work :: "admission \<Rightarrow> requested_work list \<Rightarrow> requested_work list" where
  "admitted_work a work = filter (admits a) work"

definition admitted_work_choices :: "admission \<Rightarrow> work_choices \<Rightarrow> work_choices" where
  "admitted_work_choices a choices =
     choices\<lparr>meshes := (meshes choices)\<lparr>level := min (level (meshes choices)) (highest_mesh_level a)\<rparr>\<rparr>"

subsection \<open>Run Requests\<close>

datatype mod_selection = SingleModRoot path | ChildModRoots path

fun selection_directory :: "mod_selection \<Rightarrow> path" where
  "selection_directory (SingleModRoot d) = d"
| "selection_directory (ChildModRoots d) = d"

fun is_several_mods :: "mod_selection \<Rightarrow> bool" where
  "is_several_mods (ChildModRoots _) = True"
| "is_several_mods (SingleModRoot _) = False"

datatype archive_precedence = DeterministicDiscovery | ExplicitOrder "path list"

record run_request =
  profile_identity :: string
  request_execution_mode :: execution_mode
  mod_selection :: mod_selection
  requested_work :: "requested_work list"
  request_precedence :: archive_precedence
  request_choices :: work_choices

definition run_request_new ::
    "string \<Rightarrow> execution_mode \<Rightarrow> mod_selection \<Rightarrow> requested_work list \<Rightarrow> run_request" where
  "run_request_new identity mode selection work =
     \<lparr>profile_identity = identity, request_execution_mode = mode, mod_selection = selection,
      requested_work = dedup (sort work), request_precedence = DeterministicDiscovery,
      request_choices = default_work_choices\<rparr>"

definition request_admission :: "run_request \<Rightarrow> admission" where
  "request_admission r = admission_new (is_several_mods (mod_selection r)) None"

definition with_archive_precedence :: "archive_precedence \<Rightarrow> run_request \<Rightarrow> run_request" where
  "with_archive_precedence p r = r\<lparr>request_precedence := p\<rparr>"

definition with_work_choices :: "work_choices \<Rightarrow> run_request \<Rightarrow> run_request" where
  "with_work_choices choices r =
     r\<lparr>request_choices := admitted_work_choices (request_admission r) choices\<rparr>"

definition has_requested_work :: "run_request \<Rightarrow> bool" where
  "has_requested_work r = (requested_work r \<noteq> [])"

subsection \<open>Lemmas\<close>

text \<open>Clearing a bit of the byte removes exactly that work from the set it stands for.\<close>

lemma work_bit_and: "work_bit a AND work_bit b = (if a = b then work_bit a else 0)"
  by (cases a; cases b) simp_all

lemma work_bit_nonzero [simp]: "work_bit a \<noteq> 0"
  by (cases a) simp_all

lemma admits_clear:
  "(w AND NOT (work_bit cleared)) AND work_bit work \<noteq> 0 \<longleftrightarrow>
     work \<noteq> cleared \<and> w AND work_bit work \<noteq> 0"
proof -
  have "(w AND NOT (work_bit cleared)) AND work_bit work =
      w AND (work_bit work AND NOT (work_bit cleared))"
    by (metis and.assoc and.commute)
  also have "work_bit work AND NOT (work_bit cleared) = (if work = cleared then 0 else work_bit work)"
    by (cases work; cases cleared) simp_all
  finally show ?thesis by simp
qed

lemma admits_fold:
  "fold (\<lambda>(requested, capability) work.
       if \<not> supports c capability then work AND NOT (work_bit requested) else work) rows w
     AND work_bit work \<noteq> 0
   \<longleftrightarrow> w AND work_bit work \<noteq> 0 \<and> (\<forall>(requested, capability) \<in> set rows.
          requested = work \<longrightarrow> supports c capability)"
proof (induction rows arbitrary: w)
  case (Cons row rows)
  then show ?case by (cases row) (auto simp: admits_clear)
qed simp

lemma admits_iff:
  "admits (admission_new several capabilities) work \<longleftrightarrow>
     (\<forall>c. capabilities = Some c \<longrightarrow> supports c (work_capability work))"
proof (cases capabilities)
  case None
  then show ?thesis by (simp add: admits_def admission_new_def)
next
  case (Some c)
  have "(\<forall>(requested, capability) \<in> set work_capabilities. requested = work \<longrightarrow> supports c capability)
      \<longleftrightarrow> supports c (work_capability work)"
    by (cases work) (simp_all add: work_capabilities_def requested_work_definitions_def)
  with Some show ?thesis
    by (simp add: admits_def admission_new_def admits_fold)
qed

lemma uint_byte_of_int: "0 \<le> k \<Longrightarrow> k \<le> 255 \<Longrightarrow> uint (word_of_int k :: 8 word) = k"
  by (simp add: uint_word_of_int)

lemma u8_try_from_i32_Some:
  "u8_try_from_i32 v = Some b \<longleftrightarrow> uint b = sint v"
proof -
  have "uint b \<le> 255"
    using uint_lt2p [of b] by simp
  moreover have "word_of_int (sint v) = b" if "uint b = sint v"
    using that by (metis word_of_int_uint)
  ultimately show ?thesis
    unfolding u8_try_from_i32_def using uint_byte_of_int [of "sint v"]
    by (metis option.distinct(1) option.inject uint_ge_0)
qed

lemma u8_try_from_i32_None: "u8_try_from_i32 v = None \<longleftrightarrow> sint v < 0 \<or> 255 < sint v"
  by (simp add: u8_try_from_i32_def) linarith

lemma mesh_level_new_Ok:
  "mesh_level_new v = Ok l \<longleftrightarrow> uint (level_byte l) = sint v \<and> sint v \<le> 3"
proof (cases l)
  case (MeshLevel b)
  have "mesh_level_new v = Ok (MeshLevel b) \<longleftrightarrow> u8_try_from_i32 v = Some b \<and> b \<le> 3"
    by (auto simp: mesh_level_new_def split: option.splits)
  then show ?thesis
    using MeshLevel by (auto simp: u8_try_from_i32_Some word_le_def)
qed

lemma mesh_level_new_is_ok: "is_ok (mesh_level_new v) \<longleftrightarrow> 0 \<le> sint v \<and> sint v \<le> 3"
proof
  assume "is_ok (mesh_level_new v)"
  then obtain l where "mesh_level_new v = Ok l"
    by (auto simp: is_ok_iff)
  then show "0 \<le> sint v \<and> sint v \<le> 3"
    unfolding mesh_level_new_Ok by (metis uint_ge_0)
next
  assume range: "0 \<le> sint v \<and> sint v \<le> 3"
  then have "uint (word_of_int (sint v) :: 8 word) = sint v"
    by (intro uint_byte_of_int) auto
  then have "mesh_level_new v = Ok (MeshLevel (word_of_int (sint v)))"
    unfolding mesh_level_new_Ok mesh_level.sel using range by metis
  then show "is_ok (mesh_level_new v)" by simp
qed

lemma mesh_level_new_Err: "mesh_level_new v = Err e \<Longrightarrow> e = MeshLevelError v"
  by (auto simp: mesh_level_new_def split: option.splits if_splits)

lemma admitted_level:
  "level (meshes (admitted_work_choices (admission_new several c) choices))
     = min (level (meshes choices)) (if several then mesh_level_necessary else mesh_level_full)"
  by (simp add: admitted_work_choices_def admission_new_def)

subsection \<open>Properties\<close>

text \<open>
  An Admission admits a piece of work exactly when no Profile Capabilities are given or
  they hold the capability of that work, and filtering a selection keeps exactly the admitted
  choices in their order. Several mods only lower the mesh level, to at most the necessary one,
  and admitting choices twice is admitting them once.
\<close>

theorem admission_admits:
  "admitted_work (admission_new several capabilities) work
     = filter (\<lambda>w. case capabilities of None \<Rightarrow> True | Some c \<Rightarrow> supports c (work_capability w)) work
   \<and> level (meshes (admitted_work_choices (admission_new several capabilities) choices))
     = (if several then min (level (meshes choices)) mesh_level_necessary
        else min (level (meshes choices)) mesh_level_full)
   \<and> admitted_work_choices (admission_new several capabilities)
       (admitted_work_choices (admission_new several capabilities) choices)
     = admitted_work_choices (admission_new several capabilities) choices"
proof (intro conjI)
  have "admits (admission_new several capabilities)
      = (\<lambda>w. case capabilities of None \<Rightarrow> True | Some c \<Rightarrow> supports c (work_capability w))"
    by (rule ext) (simp add: admits_iff split: option.split)
  then show "admitted_work (admission_new several capabilities) work
      = filter (\<lambda>w. case capabilities of None \<Rightarrow> True | Some c \<Rightarrow> supports c (work_capability w)) work"
    by (simp add: admitted_work_def)
qed (simp_all add: admitted_level, simp add: admitted_work_choices_def)

text \<open>
  Work Choices refuse every value outside their domain. A mesh level is accepted exactly
  between 0 and 3 read as a signed integer and keeps its value; a resize ratio exactly when
  neither divisor is zero; an exact size exactly when both sides are even and non-zero, oddness
  being reported before zero.
\<close>

theorem work_choice_domains:
  "(is_ok (mesh_level_new v) \<longleftrightarrow> 0 \<le> sint v \<and> sint v \<le> 3)
   \<and> (mesh_level_new v = Ok l \<longleftrightarrow> uint (level_byte l) = sint v \<and> sint v \<le> 3)
   \<and> (is_ok (resize_ratio_new w h) \<longleftrightarrow> w \<noteq> 0 \<and> h \<noteq> 0)
   \<and> (is_ok (resize_size_new w h) \<longleftrightarrow> even (unat w) \<and> even (unat h) \<and> w \<noteq> 0 \<and> h \<noteq> 0)
   \<and> (resize_size_new w h = Err OddResizeSize \<longleftrightarrow> \<not> (even (unat w) \<and> even (unat h)))"
proof -
  have even: "x mod 2 = 0 \<longleftrightarrow> even (unat x)" for x :: "32 word"
    by (simp add: word_unat_eq_iff unat_mod even_iff_mod_2_eq_zero)
  show ?thesis
    by (auto simp: mesh_level_new_is_ok mesh_level_new_Ok resize_ratio_new_def resize_size_new_def even)
qed

text \<open>
  A Run Request holds each requested piece of work once, in enumeration order, and holds no
  other. Work Choices given to a request over several mods never keep a mesh level above the
  necessary one, and every other choice is kept as given.
\<close>

theorem run_request_normal:
  "sorted (requested_work (run_request_new identity mode selection work))
   \<and> distinct (requested_work (run_request_new identity mode selection work))
   \<and> set (requested_work (run_request_new identity mode selection work)) = set work
   \<and> (let kept = request_choices (with_work_choices choices (run_request_new identity mode selection work))
      in (is_several_mods selection \<longrightarrow> level (meshes kept) \<le> mesh_level_necessary)
         \<and> level (meshes kept) \<le> level (meshes choices)
         \<and> textures kept = textures choices
         \<and> archive_extraction kept = archive_extraction choices
         \<and> archive_finalization kept = archive_finalization choices)"
  by (simp add: run_request_new_def sorted_dedup distinct_dedup_sorted with_work_choices_def
      request_admission_def admitted_level Let_def)
     (simp add: admitted_work_choices_def)

definition two_mods_request :: run_request where
  "two_mods_request =
     run_request_new ''Skyrim'' Apply (ChildModRoots [Normal ''mods''])
       [ArchiveCreation, NativeTextureOptimization, ArchiveCreation]"

theorem run_request_normal_witness:
  "level (meshes (request_choices
       (with_work_choices (default_work_choices\<lparr>meshes := default_mesh_choices\<lparr>level := MeshLevel 3\<rparr>\<rparr>)
         two_mods_request))) \<le> mesh_level_necessary"
  using run_request_normal [of "''Skyrim''" Apply "ChildModRoots [Normal ''mods'']"
      "[ArchiveCreation, NativeTextureOptimization, ArchiveCreation]"
      "default_work_choices\<lparr>meshes := default_mesh_choices\<lparr>level := MeshLevel 3\<rparr>\<rparr>"]
  by (simp add: two_mods_request_def Let_def)

end
