(* ===== verification/Attempts.thy ===== *)
theory Attempts
  imports Prelude
begin

text \<open>
  Attempt Outcomes (\<open>crates/cao-core/src/attempt.rs\<close>), the three-state mutation of
  \<open>execution.rs\<close>, the capacity shortage an Operation Failure may carry (\<open>run/capacity.rs\<close>)
  and the publication result of \<open>run/artifacts.rs\<close>. The safe-to-continue rule lives here and
  nowhere else; every producer of the program builds its result from these values.
\<close>

datatype mutation_state = MNone | MCommitted | MPartialOrUnknown

datatype completed_mutation = CNone | CCommitted

fun mutation_of_completed :: "completed_mutation \<Rightarrow> mutation_state" where
  "mutation_of_completed CNone = MNone"
| "mutation_of_completed CCommitted = MCommitted"

record capacity_shortage =
  shortage_root :: path
  shortage_required :: u64
  shortage_available :: u64

text \<open>
  The detail of a shortage. Its decimal numerals are the \<open>Display\<close> form of the two counts.
\<close>

fun digits_rev :: "nat \<Rightarrow> string" where
  "digits_rev n = (if n < 10 then [char_of (48 + n)] else char_of (48 + n mod 10) # digits_rev (n div 10))"

declare digits_rev.simps [simp del]

definition show_nat :: "nat \<Rightarrow> string" where
  "show_nat n = rev (digits_rev n)"

definition show_shortage :: "capacity_shortage \<Rightarrow> string" where
  "show_shortage s =
     ''Insufficient Archive staging capacity: estimated '' @ show_nat (unat (shortage_required s))
     @ '' bytes, available '' @ show_nat (unat (shortage_available s))
     @ '' bytes. Estimates include staging overhead allowances but do not reserve ''
     @ ''space or guarantee filesystem metadata, quotas, or concurrent writes.''"

record 'f operation_failure =
  category :: 'f
  detail :: string
  failure_shortage :: "capacity_shortage option"

definition new_failure :: "'f \<Rightarrow> string \<Rightarrow> 'f operation_failure" where
  "new_failure c d = \<lparr>category = c, detail = d, failure_shortage = None\<rparr>"

definition with_capacity_shortage ::
    "capacity_shortage \<Rightarrow> 'f operation_failure \<Rightarrow> 'f operation_failure" where
  "with_capacity_shortage s f = f\<lparr>failure_shortage := Some s\<rparr>"

definition from_capacity_shortage :: "'f \<Rightarrow> capacity_shortage \<Rightarrow> 'f operation_failure" where
  "from_capacity_shortage c s = with_capacity_shortage s (new_failure c (show_shortage s))"

datatype 'f attempt_outcome =
    Succeeded completed_mutation
  | Failed "'f operation_failure" mutation_state bool

fun succeeded :: "'f attempt_outcome \<Rightarrow> bool" where
  "succeeded (Succeeded _) = True"
| "succeeded (Failed _ _ _) = False"

fun safe_to_continue :: "'f attempt_outcome \<Rightarrow> bool" where
  "safe_to_continue (Succeeded _) = True"
| "safe_to_continue (Failed _ mutation claimed) = (claimed \<and> mutation \<noteq> MPartialOrUnknown)"

fun failure_of :: "'f attempt_outcome \<Rightarrow> 'f operation_failure option" where
  "failure_of (Succeeded _) = None"
| "failure_of (Failed f _ _) = Some f"

definition failure_category :: "'f attempt_outcome \<Rightarrow> 'f option" where
  "failure_category outcome = map_option category (failure_of outcome)"

fun mutation_of :: "'f attempt_outcome \<Rightarrow> mutation_state" where
  "mutation_of (Succeeded m) = mutation_of_completed m"
| "mutation_of (Failed _ m _) = m"

record attempt_facts =
  facts_mutation :: mutation_state
  facts_succeeded :: bool
  facts_safe :: bool

definition facts :: "'f attempt_outcome \<Rightarrow> attempt_facts" where
  "facts outcome =
     \<lparr>facts_mutation = mutation_of outcome, facts_succeeded = succeeded outcome,
      facts_safe = safe_to_continue outcome\<rparr>"

subsection \<open>Publication results\<close>

datatype publication_state = NotPublished | PublishedStillOwned | PublishedAndReleased

record publication_result =
  publication_state :: publication_state
  error_detail :: string

definition publication_mutation :: "publication_result \<Rightarrow> mutation_state" where
  "publication_mutation r =
     (case publication_state r of NotPublished \<Rightarrow> MNone | _ \<Rightarrow> MCommitted)"

definition publication_safe :: "publication_result \<Rightarrow> bool" where
  "publication_safe r = (publication_state r \<noteq> PublishedStillOwned)"

subsection \<open>Lemmas\<close>

lemma succeeded_safe: "succeeded outcome \<Longrightarrow> safe_to_continue outcome"
  by (cases outcome) simp_all

lemma partial_unsafe [outcome_simps]: "mutation_of outcome = MPartialOrUnknown \<Longrightarrow> \<not> safe_to_continue outcome"
  by (cases outcome rule: safe_to_continue.cases) (auto elim: mutation_of_completed.elims)

lemma failure_of_None: "failure_of outcome = None \<longleftrightarrow> succeeded outcome"
  by (cases outcome) simp_all

lemma facts_consistent:
  "facts_safe (facts outcome) \<Longrightarrow> facts_mutation (facts outcome) \<noteq> MPartialOrUnknown"
  "facts_succeeded (facts outcome) \<Longrightarrow> facts_safe (facts outcome)"
  by (auto simp: facts_def succeeded_safe dest: partial_unsafe)

lemma publication_safe_mutation:
  "\<not> publication_safe r \<Longrightarrow> publication_mutation r = MCommitted"
  by (simp add: publication_safe_def publication_mutation_def)

end
