(* ===== verification/Lifecycle.thy ===== *)
theory Lifecycle
  imports WorkChoices Attempts
begin

text \<open>
  The Run lifecycle vocabulary (\<open>run/lifecycle.rs\<close>), the preparation facts
  (\<open>run/preparation.rs\<close>), the crate's error (\<open>error.rs\<close>) and the result types of the three kinds of
  attempts (\<open>execution.rs\<close>, \<open>run/archives.rs\<close>, \<open>run/finalization/mod.rs\<close>). Counts of things in
  memory (\<open>usize\<close>) are natural numbers; sizes in bytes are 64-bit words.
\<close>

subsection \<open>Errors\<close>

datatype error =
    EvidenceInvariant string
  | ConfigurationLoading string
  | WorkEscaped string
  | SchedulingError string
  | SafetyCleanupError string
  | ArchiveError string
  | IoError string

fun error_text :: "error \<Rightarrow> string" where
  "error_text (EvidenceInvariant s) = ''Run Evidence invariant violated: '' @ s"
| "error_text (ConfigurationLoading s) = s"
| "error_text (WorkEscaped s) = s"
| "error_text (SchedulingError s) = s"
| "error_text (SafetyCleanupError s) = s"
| "error_text (ArchiveError s) = s"
| "error_text (IoError s) = s"

subsection \<open>Phases\<close>

datatype run_phase =
    Preparing
  | DiscoveringArchives
  | ExtractingArchives
  | BuildingEffectiveAssetTree
  | ProcessingAssets
  | ArchiveFinalization
  | SafetyCleanup

fun phase_index :: "run_phase \<Rightarrow> nat" where
  "phase_index Preparing = 0"
| "phase_index DiscoveringArchives = 1"
| "phase_index ExtractingArchives = 2"
| "phase_index BuildingEffectiveAssetTree = 3"
| "phase_index ProcessingAssets = 4"
| "phase_index ArchiveFinalization = 5"
| "phase_index SafetyCleanup = 6"

lemma phase_index_inj: "phase_index a = phase_index b \<longleftrightarrow> a = b"
  by (cases a; cases b) simp_all

instantiation run_phase :: linorder
begin
definition less_eq_run_phase :: "run_phase \<Rightarrow> run_phase \<Rightarrow> bool" where
  "less_eq_run_phase a b = (phase_index a \<le> phase_index b)"
definition less_run_phase :: "run_phase \<Rightarrow> run_phase \<Rightarrow> bool" where
  "less_run_phase a b = (phase_index a < phase_index b)"
instance
  by standard (auto simp: less_eq_run_phase_def less_run_phase_def phase_index_inj)
end

definition phase_sequence :: "run_phase list" where
  "phase_sequence =
     [Preparing, DiscoveringArchives, ExtractingArchives, BuildingEffectiveAssetTree,
      ProcessingAssets, ArchiveFinalization, SafetyCleanup]"

text \<open>Every phase between Preparing and Safety Cleanup: \<open>SEQUENCE[1..SEQUENCE.len() - 1]\<close>.\<close>

definition work_phase_sequence :: "run_phase list" where
  "work_phase_sequence = take (length phase_sequence - 2) (drop 1 phase_sequence)"

datatype run_phase_status = StExecuted | StSkipped | StPlanned

datatype phase_skip_reason = NoRequestedWork

datatype run_outcome = OutSucceeded | OutCompletedWithFailures | OutCancelled | OutFailed

subsection \<open>Diagnostics and failures\<close>

datatype run_diagnostic_code =
    ObserverFailed
  | DispatcherFailed
  | IgnoredModExcluded
  | SeparatorModExcluded
  | LinkedEntryExcluded
  | PluginUnreadable
  | CapacityShortageDiagnostic

datatype run_diagnostic_severity = Informational | Warning

fun severity :: "run_diagnostic_code \<Rightarrow> run_diagnostic_severity" where
  "severity CapacityShortageDiagnostic = Warning"
| "severity _ = Informational"

record run_diagnostic =
  diagnostic_code :: run_diagnostic_code
  diagnostic_phase :: run_phase
  diagnostic_detail :: string
  diagnostic_path :: path
  diagnostic_shortage :: "capacity_shortage option"

definition new_diagnostic :: "run_diagnostic_code \<Rightarrow> run_phase \<Rightarrow> string \<Rightarrow> run_diagnostic" where
  "new_diagnostic c p d =
     \<lparr>diagnostic_code = c, diagnostic_phase = p, diagnostic_detail = d, diagnostic_path = [],
      diagnostic_shortage = None\<rparr>"

datatype run_failure_code =
    SchedulingFailed
  | PolicyConflict
  | ConfigurationLoadingFailed
  | ModSelectionResolutionFailed
  | ConflictingModRoots
  | TemporaryArtifactCleanupFailed
  | SafetyCleanupServiceFailed
  | StagingOwnershipUnverified
  | StagingActive
  | StagingRecoveryFailed
  | ArchiveOrderMissing
  | ArchiveOrderExtra
  | ArchiveOrderDuplicate
  | ArchiveOrderOutsideRoot
  | ArchiveUnreadable
  | ArchiveEntryInvalid
  | ArchiveInsufficientCapacity
  | ArchiveCreationPlanningFailed
  | RunWorkEscaped

record run_failure =
  failure_code :: run_failure_code
  failure_phase :: run_phase
  failure_detail :: string
  policy_conflicts :: "policy_validation_error list"
  failure_path :: path
  run_failure_shortage :: "capacity_shortage option"

definition new_run_failure :: "run_failure_code \<Rightarrow> run_phase \<Rightarrow> string \<Rightarrow> run_failure" where
  "new_run_failure c p d =
     \<lparr>failure_code = c, failure_phase = p, failure_detail = d, policy_conflicts = [],
      failure_path = [], run_failure_shortage = None\<rparr>"

subsection \<open>Progress and phase records\<close>

record run_progress =
  total :: nat
  progress_succeeded :: nat
  progress_failed :: nat

definition determinate :: "nat \<Rightarrow> nat \<Rightarrow> nat \<Rightarrow> run_progress" where
  "determinate t s f = \<lparr>total = t, progress_succeeded = s, progress_failed = f\<rparr>"

definition completed :: "run_progress \<Rightarrow> nat" where
  "completed p = progress_succeeded p + progress_failed p"

record run_phase_record =
  record_of :: run_phase
  status :: run_phase_status
  skip_reason_of :: "phase_skip_reason option"
  progress :: "run_progress option"

definition executed :: "run_phase \<Rightarrow> run_progress option \<Rightarrow> run_phase_record" where
  "executed p g = \<lparr>record_of = p, status = StExecuted, skip_reason_of = None, progress = g\<rparr>"

definition skipped :: "run_phase \<Rightarrow> phase_skip_reason \<Rightarrow> run_phase_record" where
  "skipped p r = \<lparr>record_of = p, status = StSkipped, skip_reason_of = Some r, progress = None\<rparr>"

definition planned :: "run_phase \<Rightarrow> run_phase_record" where
  "planned p = \<lparr>record_of = p, status = StPlanned, skip_reason_of = None, progress = None\<rparr>"

subsection \<open>Mutation summaries\<close>

datatype mutation_kind = MutExtraction | MutAssetProcessing | MutFinalization

fun mutation_kind_index :: "mutation_kind \<Rightarrow> nat" where
  "mutation_kind_index MutExtraction = 0"
| "mutation_kind_index MutAssetProcessing = 1"
| "mutation_kind_index MutFinalization = 2"

lemma mutation_kind_index_inj: "mutation_kind_index a = mutation_kind_index b \<longleftrightarrow> a = b"
  by (cases a; cases b) simp_all

instantiation mutation_kind :: linorder
begin
definition less_eq_mutation_kind :: "mutation_kind \<Rightarrow> mutation_kind \<Rightarrow> bool" where
  "less_eq_mutation_kind a b = (mutation_kind_index a \<le> mutation_kind_index b)"
definition less_mutation_kind :: "mutation_kind \<Rightarrow> mutation_kind \<Rightarrow> bool" where
  "less_mutation_kind a b = (mutation_kind_index a < mutation_kind_index b)"
instance
  by standard (auto simp: less_eq_mutation_kind_def less_mutation_kind_def mutation_kind_index_inj)
end

record mutation_summary =
  summary_root :: path
  summary_kind :: mutation_kind
  committed :: nat
  partial_or_unknown :: nat

subsection \<open>Preparation\<close>

record selected_profile =
  capabilities :: profile_capabilities
  prefers_conversion :: bool
  ignored_mods :: "string list"
  packing_exclusions :: "string list"

definition new_selected_profile :: "profile_capabilities \<Rightarrow> selected_profile" where
  "new_selected_profile c =
     \<lparr>capabilities = c, prefers_conversion = False, ignored_mods = [], packing_exclusions = []\<rparr>"

definition compile_policy ::
    "selected_profile \<Rightarrow> routing_policy_request \<Rightarrow> policy_validation_error list + routing_policy" where
  "compile_policy p request = compile request (capabilities p) (prefers_conversion p)"

record run_preparation =
  prep_mod_roots :: "path list"
  prep_profile :: selected_profile
  prep_policy :: routing_policy
  prep_precedence :: archive_precedence

subsection \<open>Results of the three kinds of attempts\<close>

datatype archive_extraction_failure =
  ExtractionFailed | MergeFailed | ExtractionSourceCleanupFailed | ExtractionInsufficientCapacity

record archive_extraction_result =
  extraction_path :: path
  extraction_root :: path
  extraction_outcome :: "archive_extraction_failure attempt_outcome"

datatype asset_execution_failure =
    UnsupportedTarget
  | IdentityMismatch
  | LoadFailed
  | OperationFailed
  | SaveFailed
  | SourceRemovalFailed
  | StagingFailed
  | CommitFailed
  | BackendException
  | CleanupFailed

record asset_execution_result =
  asset_outcome :: "asset_execution_failure attempt_outcome"
  affected_path :: path
  result_operation :: string
  service_detail :: string
  result_cleanup_failures :: "run_failure list"

record routed_asset_attempt =
  attempt_root :: path
  attempt_asset :: routed_asset
  attempt_result :: asset_execution_result

datatype archive_finalization_failure =
    FinInsufficientCapacity
  | FinWriteFailed
  | FinCommitFailed
  | FinPluginCreationFailed
  | FinPluginRemovalFailed
  | FinSourceCleanupFailed
  | FinUnexpectedException

record archive_finalization_attempt =
  output_path :: path
  output_root :: path
  output_outcome :: "archive_finalization_failure attempt_outcome"

datatype archive_finalization_mutation_kind =
  EmptyDirectoryPruning | PluginCreation | PluginRemoval

record archive_finalization_mutation =
  effect_root :: path
  effect_path :: path
  effect_kind :: archive_finalization_mutation_kind
  effect_mutation :: mutation_state
  effect_count :: nat

record archive_finalization_account =
  account_failure :: "archive_finalization_failure operation_failure option"
  account_cancelled :: bool
  account_safe :: bool
  account_mutations :: "archive_finalization_mutation list"

definition default_account :: archive_finalization_account where
  "default_account =
     \<lparr>account_failure = None, account_cancelled = False, account_safe = True, account_mutations = []\<rparr>"

record archive_finalization_result =
  fin_attempts :: "archive_finalization_attempt list"
  fin_failure :: "archive_finalization_failure operation_failure option"
  fin_cancelled :: bool
  fin_safe :: bool
  fin_mutations :: "archive_finalization_mutation list"

definition from_parts ::
    "archive_finalization_attempt list \<Rightarrow> archive_finalization_account \<Rightarrow> archive_finalization_result"
  where
  "from_parts attempts account =
     \<lparr>fin_attempts = attempts, fin_failure = account_failure account,
      fin_cancelled = account_cancelled account, fin_safe = account_safe account,
      fin_mutations = account_mutations account\<rparr>"

definition default_finalization_result :: archive_finalization_result where
  "default_finalization_result = from_parts [] default_account"

record archive_collision =
  collision_root :: path
  collision_game_path :: string
  winning_archive :: path
  shadowed_archives :: "path list"
  loose_asset_wins :: bool

subsection \<open>Planned Archive Work\<close>

record planned_archive_extraction =
  planned_archive :: path
  planned_root :: path
  entry_count :: nat
  winner_count :: nat
  planned_capacity :: u64
  deletes_source_archive :: bool

datatype packed_archive_kind = PackStandard | PackIncompressible | PackTextures

record planned_output_archive =
  planned_output_path :: path
  planned_output_root :: path
  planned_output_kind :: packed_archive_kind
  file_count :: nat
  total_bytes :: u64
  dummy_plugin_path :: "path option"
  deletes_packed_sources :: bool

datatype output_plan_basis = EstimateFromModRootsAsTheyAre

record planned_archive_work =
  extractions :: "planned_archive_extraction list"
  outputs :: "planned_output_archive list"
  output_basis :: "output_plan_basis option"

definition no_planned_work :: planned_archive_work where
  "no_planned_work = \<lparr>extractions = [], outputs = [], output_basis = None\<rparr>"

text \<open>
  Pairs each output with the Dummy Plugin it is the first to need. The \<open>HashSet\<close> of the closure
  is the set threaded through.
\<close>

fun first_dummy_plugins ::
    "path set \<Rightarrow> planned_output_archive list \<Rightarrow> (planned_output_archive \<times> path option) list" where
  "first_dummy_plugins seen [] = []"
| "first_dummy_plugins seen (output # rest) =
     (case dummy_plugin_path output of
        Some plugin \<Rightarrow>
          if plugin \<in> seen then (output, None) # first_dummy_plugins seen rest
          else (output, Some plugin) # first_dummy_plugins (insert plugin seen) rest
      | None \<Rightarrow> (output, None) # first_dummy_plugins seen rest)"

definition with_first_dummy_plugins ::
    "planned_output_archive list \<Rightarrow> (planned_output_archive \<times> path option) list" where
  "with_first_dummy_plugins outs = first_dummy_plugins {} outs"

subsection \<open>Lemmas\<close>

lemma phase_sequence_complete: "set phase_sequence = UNIV" "sorted_wrt (<) phase_sequence"
proof -
  show "set phase_sequence = UNIV"
  proof (intro set_eqI iffI UNIV_I)
    fix p :: run_phase
    show "p \<in> set phase_sequence" by (cases p) (simp_all add: phase_sequence_def)
  qed
  show "sorted_wrt (<) phase_sequence"
    by (simp add: phase_sequence_def less_run_phase_def)
qed

lemma phase_less_simps [simp]:
  "(a :: run_phase) < b \<longleftrightarrow> phase_index a < phase_index b"
  "(a :: run_phase) \<le> b \<longleftrightarrow> phase_index a \<le> phase_index b"
  by (simp_all add: less_run_phase_def less_eq_run_phase_def)

lemma record_simps [simp]:
  "record_of (executed p g) = p" "status (executed p g) = StExecuted"
  "skip_reason_of (executed p g) = None" "progress (executed p g) = g"
  "record_of (skipped p r) = p" "status (skipped p r) = StSkipped"
  "skip_reason_of (skipped p r) = Some r" "progress (skipped p r) = None"
  "record_of (planned p) = p" "status (planned p) = StPlanned"
  "skip_reason_of (planned p) = None" "progress (planned p) = None"
  by (simp_all add: executed_def skipped_def planned_def)

lemma determinate_simps [simp]:
  "total (determinate t s f) = t" "progress_succeeded (determinate t s f) = s"
  "progress_failed (determinate t s f) = f" "completed (determinate t s f) = s + f"
  by (simp_all add: determinate_def completed_def)

lemma first_dummy_plugins_outputs: "map fst (first_dummy_plugins seen outs) = outs"
  by (induction seen outs rule: first_dummy_plugins.induct) (auto split: option.split)

lemma first_dummy_plugins_distinct:
  "distinct (List.map_filter snd (first_dummy_plugins seen outs))
   \<and> set (List.map_filter snd (first_dummy_plugins seen outs))
       = set (List.map_filter dummy_plugin_path outs) - seen"
proof (induction seen outs rule: first_dummy_plugins.induct)
  case (1 seen)
  then show ?case by (simp add: map_filter_simps)
next
  case (2 seen out rest)
  then show ?case
    by (cases "dummy_plugin_path out")
       (auto simp: map_filter_simps)
qed

end
