(* ===== verification/Evidence.thy ===== *)
theory Evidence
  imports Lifecycle
begin

text \<open>
  Run Evidence (\<open>run/evidence.rs\<close>, \<open>run/evidence/attempt_phase.rs\<close>,
  \<open>run/evidence/planned_work.rs\<close>): the store of one run's facts, its phase transitions, the
  shared progress step of the three attempt-bearing phases, the publication of facts to an
  observation sink that may panic, and the sealing of the evidence.

  A step returns its error, or \<open>None\<close>, together with the evidence it leaves behind, so what a
  rejected step retains is visible. A sink is a function of everything published so far and of
  the item published now; its value is the message of its panic, if it panics. The trace of
  publications is the sink's own history.
\<close>

subsection \<open>Storage\<close>

record archive_discovery_evidence =
  skipped_archive_counts :: "skip_reason \<rightharpoonup> nat"
  unsupported_explicit_paths :: "path list"
  nested_archive_count :: nat

definition default_discovery :: archive_discovery_evidence where
  "default_discovery =
     \<lparr>skipped_archive_counts = Map.empty, unsupported_explicit_paths = [], nested_archive_count = 0\<rparr>"

definition skipped_archive_count :: "archive_discovery_evidence \<Rightarrow> skip_reason \<Rightarrow> nat" where
  "skipped_archive_count d reason =
     (case skipped_archive_counts d reason of None \<Rightarrow> 0 | Some n \<Rightarrow> n)"

record storage =
  preparation :: "run_preparation option"
  phases :: "run_phase_record list"
  diagnostics :: "run_diagnostic list"
  failures :: "run_failure list"
  archive_collisions :: "archive_collision list"
  archive_collisions_recorded :: bool
  archive_extraction_attempts :: "archive_extraction_result list"
  archive_discovery :: "archive_discovery_evidence option"
  skipped_archive_counts_recorded :: bool
  nested_archive_count_recorded :: bool
  stored_ledger :: "routing_ledger option"
  asset_attempts :: "routed_asset_attempt list"
  archive_finalization_of :: "archive_finalization_result option"
  archive_finalization_completed :: bool
  planned_work :: planned_archive_work
  safety_cleanup_failures :: "run_failure list"
  cancellation_observed :: bool
  cleanup_failures :: "run_failure list"
  mutation_summaries :: "mutation_summary list"
  skipped_counts :: "skip_reason \<rightharpoonup> nat"

definition default_storage :: storage where
  "default_storage =
     \<lparr>preparation = None, phases = [], diagnostics = [], failures = [], archive_collisions = [],
      archive_collisions_recorded = False, archive_extraction_attempts = [],
      archive_discovery = None, skipped_archive_counts_recorded = False,
      nested_archive_count_recorded = False, stored_ledger = None, asset_attempts = [],
      archive_finalization_of = None, archive_finalization_completed = False,
      planned_work = no_planned_work, safety_cleanup_failures = [], cancellation_observed = False,
      cleanup_failures = [], mutation_summaries = [], skipped_counts = Map.empty\<rparr>"

definition storage_phase :: "storage \<Rightarrow> run_phase \<Rightarrow> run_phase_record option" where
  "storage_phase s p = find (\<lambda>r. record_of r = p) (phases s)"

definition last_record :: "storage \<Rightarrow> run_phase_record option" where
  "last_record s = (if phases s = [] then None else Some (last (phases s)))"

definition current_phase :: "storage \<Rightarrow> run_phase option" where
  "current_phase s = map_option record_of (last_record s)"

definition is_planning :: "storage \<Rightarrow> run_phase \<Rightarrow> bool" where
  "is_planning s p =
     (case last_record s of None \<Rightarrow> False | Some r \<Rightarrow> record_of r = p \<and> status r = StPlanned)"

definition archive_discovery_current :: "storage \<Rightarrow> bool" where
  "archive_discovery_current s =
     (case current_phase s of
        None \<Rightarrow> False
      | Some p \<Rightarrow> DiscoveringArchives \<le> p \<and> p \<le> BuildingEffectiveAssetTree)"

definition archive_discovery_complete :: "storage \<Rightarrow> bool" where
  "archive_discovery_complete s =
     (skipped_archive_counts_recorded s \<and> nested_archive_count_recorded s)"

definition storage_skipped_count :: "storage \<Rightarrow> skip_reason \<Rightarrow> nat" where
  "storage_skipped_count s reason =
     (case archive_discovery s of None \<Rightarrow> 0 | Some d \<Rightarrow> skipped_archive_count d reason)
     + (case stored_ledger s of None \<Rightarrow> 0 | Some l \<Rightarrow> ledger_skipped_count l reason)"

record completed_attempt =
  completed_kind :: mutation_kind
  completed_root :: path
  completed_facts :: attempt_facts

definition finalization_attempts :: "storage \<Rightarrow> archive_finalization_attempt list" where
  "finalization_attempts s =
     (case archive_finalization_of s of None \<Rightarrow> [] | Some r \<Rightarrow> fin_attempts r)"

definition completed_attempts :: "storage \<Rightarrow> completed_attempt list" where
  "completed_attempts s =
     map (\<lambda>a. \<lparr>completed_kind = MutExtraction, completed_root = extraction_root a,
               completed_facts = facts (extraction_outcome a)\<rparr>) (archive_extraction_attempts s)
     @ map (\<lambda>a. \<lparr>completed_kind = MutAssetProcessing, completed_root = attempt_root a,
                 completed_facts = facts (asset_outcome (attempt_result a))\<rparr>) (asset_attempts s)
     @ map (\<lambda>a. \<lparr>completed_kind = MutFinalization, completed_root = output_root a,
                 completed_facts = facts (output_outcome a)\<rparr>) (finalization_attempts s)"

subsection \<open>The mutable owner and its sink\<close>

datatype publication =
    PubPhase run_phase_record
  | PubFailure run_failure
  | PubDiagnostic run_diagnostic

type_synonym sink = "publication list \<Rightarrow> publication \<Rightarrow> string option"

record evidence =
  storage_of :: storage
  observations :: "sink option"
  published_diagnostics :: nat
  diagnostic_publications :: "nat list"
  trace :: "publication list"

type_synonym step_result = "error option \<times> evidence"

definition new_evidence :: "sink option \<Rightarrow> evidence" where
  "new_evidence sink =
     \<lparr>storage_of = default_storage, observations = sink, published_diagnostics = 0,
      diagnostic_publications = [], trace = []\<rparr>"

definition update_storage :: "(storage \<Rightarrow> storage) \<Rightarrow> evidence \<Rightarrow> evidence" where
  "update_storage f ev = ev\<lparr>storage_of := f (storage_of ev)\<rparr>"

definition retain_observer_failure :: "run_phase \<Rightarrow> string \<Rightarrow> evidence \<Rightarrow> evidence" where
  "retain_observer_failure p message ev =
     update_storage (\<lambda>s. s\<lparr>diagnostics := diagnostics s @ [new_diagnostic ObserverFailed p message]\<rparr>) ev"

text \<open>
  \<open>report_safely\<close> around one call of the sink: the call extends the history, and a panic is
  retained as an unpublished diagnostic. Without a sink nothing is called.
\<close>

definition report_safely :: "run_phase \<Rightarrow> publication \<Rightarrow> evidence \<Rightarrow> evidence" where
  "report_safely p item ev =
     (case observations ev of
        None \<Rightarrow> ev
      | Some sink \<Rightarrow>
          let called = ev\<lparr>trace := trace ev @ [item]\<rparr>
          in case sink (trace ev) item of
               None \<Rightarrow> called
             | Some message \<Rightarrow> retain_observer_failure p message called)"

subsection \<open>Phase transitions\<close>

definition validate_progress :: "run_phase_record \<Rightarrow> error option" where
  "validate_progress r =
     (case progress r of
        Some g \<Rightarrow>
          if completed g > total g
          then Some (EvidenceInvariant ''Run Phase progress exceeds its immutable total'')
          else None
      | None \<Rightarrow> None)"

definition validate_replacement :: "run_phase_record \<Rightarrow> run_phase_record \<Rightarrow> error option" where
  "validate_replacement previous replacement =
     (if status previous \<noteq> status replacement \<or> skip_reason_of previous \<noteq> skip_reason_of replacement
      then Some (EvidenceInvariant ''Run Phase status and skip reason are immutable after traversal'')
      else case validate_progress replacement of
        Some e \<Rightarrow> Some e
      | None \<Rightarrow>
          (case progress previous of
             None \<Rightarrow>
               (case progress replacement of
                  Some after \<Rightarrow>
                    if completed after \<noteq> 0
                    then Some (EvidenceInvariant ''Determinate Run Phase progress must begin at zero'')
                    else None
                | None \<Rightarrow> None)
           | Some before \<Rightarrow>
               (case progress replacement of
                  None \<Rightarrow> Some (EvidenceInvariant ''Run Phase progress cannot become indeterminate'')
                | Some after \<Rightarrow>
                    if total before \<noteq> total after
                    then Some (EvidenceInvariant ''Run Phase progress total cannot change'')
                    else if progress_succeeded after < progress_succeeded before
                        \<or> progress_failed after < progress_failed before
                    then Some (EvidenceInvariant ''Run Phase progress cannot regress'')
                    else None)))"

definition begins_at_zero :: "run_phase_record \<Rightarrow> bool" where
  "begins_at_zero r = (case progress r of Some g \<Rightarrow> completed g = 0 | None \<Rightarrow> True)"

definition accept_phase :: "run_phase_record \<Rightarrow> evidence \<Rightarrow> step_result" where
  "accept_phase r ev =
     (let s = storage_of ev;
          accepted = (\<lambda>ps. (None, report_safely (record_of r) (PubPhase r)
                                     (update_storage (\<lambda>s. s\<lparr>phases := ps\<rparr>) ev)))
      in case validate_progress r of
           Some e \<Rightarrow> (Some e, ev)
         | None \<Rightarrow>
             (case last_record s of
                None \<Rightarrow>
                  if record_of r \<noteq> Preparing \<and> record_of r \<noteq> SafetyCleanup
                  then (Some (EvidenceInvariant ''Run Phase traversal must begin at Preparing''), ev)
                  else if \<not> begins_at_zero r
                  then (Some (EvidenceInvariant ''Determinate Run Phase progress must begin at zero''), ev)
                  else accepted (phases s @ [r])
              | Some latest \<Rightarrow>
                  if record_of latest = record_of r then
                    (case validate_replacement latest r of
                       Some e \<Rightarrow> (Some e, ev)
                     | None \<Rightarrow> accepted (butlast (phases s) @ [r]))
                  else if record_of r \<le> record_of latest
                  then (Some (EvidenceInvariant ''Run Phases must follow canonical traversal order''), ev)
                  else if \<not> begins_at_zero r
                  then (Some (EvidenceInvariant ''Determinate Run Phase progress must begin at zero''), ev)
                  else accepted (phases s @ [r])))"

subsection \<open>Attempt types\<close>

text \<open>
  The sealed trait \<open>PhaseAttempt\<close>: the phase of one kind of attempt, its three invariant
  messages, its success test and its retention. Each implementation is one value.
\<close>

record 'a phase_attempt =
  attempt_phase :: run_phase
  outside_phase :: string
  before_plan :: string
  beyond_total :: string
  attempt_succeeded :: "'a \<Rightarrow> bool"
  retain :: "'a \<Rightarrow> storage \<Rightarrow> storage"

definition extraction_attempt :: "archive_extraction_result phase_attempt" where
  "extraction_attempt =
     \<lparr>attempt_phase = ExtractingArchives,
      outside_phase = ''Archive extraction attempts must be recorded during Extracting Archives'',
      before_plan = ''Archive extraction attempts require a planned total'',
      beyond_total = ''Archive extraction attempts cannot exceed the planned total'',
      attempt_succeeded = (\<lambda>a. succeeded (extraction_outcome a)),
      retain = (\<lambda>a s. s\<lparr>archive_extraction_attempts := archive_extraction_attempts s @ [a]\<rparr>)\<rparr>"

definition asset_attempt :: "routed_asset_attempt phase_attempt" where
  "asset_attempt =
     \<lparr>attempt_phase = ProcessingAssets,
      outside_phase = ''Asset attempts must be recorded during Processing Assets'',
      before_plan = ''Asset attempts require a planned routed-work total'',
      beyond_total = ''Asset attempts cannot exceed the routed-work total'',
      attempt_succeeded = (\<lambda>a. succeeded (asset_outcome (attempt_result a))),
      retain = (\<lambda>a s. s\<lparr>asset_attempts := asset_attempts s @ [a]\<rparr>)\<rparr>"

definition finalization_attempt :: "archive_finalization_attempt phase_attempt" where
  "finalization_attempt =
     \<lparr>attempt_phase = ArchiveFinalization,
      outside_phase = ''Archive Finalization attempts require the immutable executed plan'',
      before_plan = ''Archive Finalization attempts require the immutable executed plan'',
      beyond_total = ''Archive Finalization attempts cannot exceed the planned total'',
      attempt_succeeded = (\<lambda>a. succeeded (output_outcome a)),
      retain = (\<lambda>a s.
        let result = (case archive_finalization_of s of
                        None \<Rightarrow> default_finalization_result | Some r \<Rightarrow> r)
        in s\<lparr>archive_finalization_of := Some (result\<lparr>fin_attempts := fin_attempts result @ [a]\<rparr>)\<rparr>)\<rparr>"

definition attempt_bearing_phases :: "run_phase list" where
  "attempt_bearing_phases =
     [attempt_phase extraction_attempt, attempt_phase asset_attempt, attempt_phase finalization_attempt]"

definition plannable_phases :: "run_phase list" where
  "plannable_phases = [attempt_phase extraction_attempt, attempt_phase finalization_attempt]"

subsection \<open>Recording\<close>

definition record_phase :: "run_phase_record \<Rightarrow> evidence \<Rightarrow> step_result" where
  "record_phase r ev =
     (if status r = StExecuted \<and> record_of r \<in> set attempt_bearing_phases
      then (Some (EvidenceInvariant
             ''An attempt-bearing Run Phase can only be executed through its attempt-phase handle''), ev)
      else if status r = StPlanned \<and> record_of r \<notin> set plannable_phases
      then (Some (EvidenceInvariant
             ''Only Extracting Archives and Archive Finalization can be planned''), ev)
      else accept_phase r ev)"

definition open_attempt_phase :: "run_phase_record \<Rightarrow> evidence \<Rightarrow> step_result" where
  "open_attempt_phase r ev =
     (if storage_phase (storage_of ev) (record_of r) \<noteq> None
      then (Some (EvidenceInvariant ''An attempt-bearing Run Phase can only be opened once''), ev)
      else accept_phase r ev)"

definition record_preparation :: "run_preparation \<Rightarrow> evidence \<Rightarrow> step_result" where
  "record_preparation p ev =
     (if preparation (storage_of ev) \<noteq> None
      then (Some (EvidenceInvariant ''Successful Run preparation can only be recorded once''), ev)
      else if current_phase (storage_of ev) \<noteq> Some Preparing
      then (Some (EvidenceInvariant ''Successful Run preparation must be recorded during Preparing''), ev)
      else (None, update_storage (\<lambda>s. s\<lparr>preparation := Some p\<rparr>) ev))"

definition retain_diagnostic :: "run_diagnostic \<Rightarrow> evidence \<Rightarrow> evidence" where
  "retain_diagnostic d ev =
     (let ev' = update_storage (\<lambda>s. s\<lparr>diagnostics := diagnostics s @ [d]\<rparr>) ev
      in ev'\<lparr>diagnostic_publications :=
               diagnostic_publications ev' @ [length (diagnostics (storage_of ev')) - 1]\<rparr>)"

text \<open>One round of the loop of \<open>publish_diagnostics\<close>: the claim precedes the call.\<close>

definition publish_next_diagnostic :: "evidence \<Rightarrow> evidence" where
  "publish_next_diagnostic ev =
     (let index = diagnostic_publications ev ! published_diagnostics ev;
          claimed = ev\<lparr>published_diagnostics := published_diagnostics ev + 1\<rparr>;
          d = diagnostics (storage_of ev) ! index
      in report_safely (diagnostic_phase d) (PubDiagnostic d) claimed)"

lemma report_safely_publications [simp]:
  "diagnostic_publications (report_safely p item ev) = diagnostic_publications ev"
  "published_diagnostics (report_safely p item ev) = published_diagnostics ev"
  "observations (report_safely p item ev) = observations ev"
  by (simp_all add: report_safely_def retain_observer_failure_def update_storage_def Let_def
      split: option.split)

lemma publish_next_publications [simp]:
  "diagnostic_publications (publish_next_diagnostic ev) = diagnostic_publications ev"
  "published_diagnostics (publish_next_diagnostic ev) = published_diagnostics ev + 1"
  "observations (publish_next_diagnostic ev) = observations ev"
  by (simp_all add: publish_next_diagnostic_def Let_def)

function publish_diagnostics :: "evidence \<Rightarrow> evidence" where
  "publish_diagnostics ev =
     (if published_diagnostics ev < length (diagnostic_publications ev)
      then publish_diagnostics (publish_next_diagnostic ev)
      else ev)"
  by pat_completeness auto

termination
  by (relation "measure (\<lambda>ev. length (diagnostic_publications ev) - published_diagnostics ev)") auto

declare publish_diagnostics.simps [simp del]

definition record_diagnostic :: "run_diagnostic \<Rightarrow> evidence \<Rightarrow> evidence" where
  "record_diagnostic d ev = publish_diagnostics (retain_diagnostic d ev)"

definition retain_failure :: "run_failure \<Rightarrow> evidence \<Rightarrow> evidence" where
  "retain_failure f ev = update_storage (\<lambda>s. s\<lparr>failures := failures s @ [f]\<rparr>) ev"

definition record_failure :: "run_failure \<Rightarrow> evidence \<Rightarrow> evidence" where
  "record_failure f ev = report_safely (failure_phase f) (PubFailure f) (retain_failure f ev)"

definition open_archive_extraction :: "nat \<Rightarrow> evidence \<Rightarrow> step_result" where
  "open_archive_extraction t ev =
     open_attempt_phase (executed ExtractingArchives (Some (determinate t 0 0))) ev"

definition open_archive_finalization :: "evidence \<Rightarrow> step_result" where
  "open_archive_finalization ev = open_attempt_phase (executed ArchiveFinalization None) ev"

definition plan_archive_finalization :: "nat \<Rightarrow> evidence \<Rightarrow> step_result" where
  "plan_archive_finalization t ev =
     (let s = storage_of ev;
          plannable = (\<not> archive_finalization_completed s
            \<and> (case last_record s of
                 None \<Rightarrow> False
               | Some r \<Rightarrow> record_of r = ArchiveFinalization \<and> status r = StExecuted \<and> progress r = None))
      in if \<not> plannable
         then (Some (EvidenceInvariant
                ''Archive Finalization needs an executed phase and one immutable plan''), ev)
         else accept_phase (executed ArchiveFinalization (Some (determinate t 0 0)))
                (update_storage
                   (\<lambda>s. s\<lparr>archive_finalization_of := Some default_finalization_result\<rparr>) ev))"

definition finish_archive_finalization :: "archive_finalization_account \<Rightarrow> evidence \<Rightarrow> step_result" where
  "finish_archive_finalization account ev =
     (let s = storage_of ev;
          executing = (case last_record s of
                         None \<Rightarrow> False
                       | Some r \<Rightarrow> record_of r = ArchiveFinalization \<and> status r = StExecuted)
      in if archive_finalization_completed s \<or> \<not> executing
         then (Some (EvidenceInvariant
                ''Archive Finalization results require the executed work phase exactly once''), ev)
         else (None, update_storage
                (\<lambda>s. s\<lparr>archive_finalization_of := Some (from_parts (finalization_attempts s) account),
                      cancellation_observed := cancellation_observed s \<or> account_cancelled account,
                      archive_finalization_completed := True\<rparr>) ev))"

definition record_attempt_progress :: "'a phase_attempt \<Rightarrow> 'a \<Rightarrow> evidence \<Rightarrow> step_result" where
  "record_attempt_progress T attempt ev =
     (case last_record (storage_of ev) of
        None \<Rightarrow> (Some (EvidenceInvariant (outside_phase T)), ev)
      | Some current \<Rightarrow>
          if record_of current \<noteq> attempt_phase T \<or> status current \<noteq> StExecuted
          then (Some (EvidenceInvariant (outside_phase T)), ev)
          else
            (case progress current of
               None \<Rightarrow> (Some (EvidenceInvariant (before_plan T)), ev)
             | Some g \<Rightarrow>
                 if completed g \<ge> total g
                 then (Some (EvidenceInvariant (beyond_total T)), ev)
                 else
                   let ok = attempt_succeeded T attempt
                   in accept_phase
                        (executed (attempt_phase T)
                           (Some (determinate (total g)
                                    (progress_succeeded g + of_bool ok)
                                    (progress_failed g + of_bool (\<not> ok)))))
                        (update_storage (retain T attempt) ev)))"

definition record_archive_collisions :: "archive_collision list \<Rightarrow> evidence \<Rightarrow> step_result" where
  "record_archive_collisions collisions ev =
     (if current_phase (storage_of ev) \<noteq> Some DiscoveringArchives
      then (Some (EvidenceInvariant
             ''Archive Collisions must be recorded during Discovering Archives''), ev)
      else if archive_collisions_recorded (storage_of ev)
      then (Some (EvidenceInvariant ''Archive Collisions can only be recorded once''), ev)
      else (None, update_storage (\<lambda>s. s\<lparr>archive_collisions := collisions,
                                      archive_collisions_recorded := True\<rparr>) ev))"

definition discovery_or_default :: "storage \<Rightarrow> archive_discovery_evidence" where
  "discovery_or_default s =
     (case archive_discovery s of None \<Rightarrow> default_discovery | Some d \<Rightarrow> d)"

definition record_skipped_archive_counts :: "(skip_reason \<rightharpoonup> nat) \<Rightarrow> evidence \<Rightarrow> step_result" where
  "record_skipped_archive_counts counts ev =
     (if \<not> archive_discovery_current (storage_of ev)
      then (Some (EvidenceInvariant
             ''Skipped Archive counts must be recorded during Archive discovery''), ev)
      else if skipped_archive_counts_recorded (storage_of ev)
      then (Some (EvidenceInvariant ''Skipped Archive counts can only be recorded once''), ev)
      else (None, update_storage
             (\<lambda>s. s\<lparr>skipped_archive_counts_recorded := True,
                   archive_discovery :=
                     Some ((discovery_or_default s)\<lparr>skipped_archive_counts := counts\<rparr>)\<rparr>) ev))"

definition record_nested_archive_count :: "nat \<Rightarrow> evidence \<Rightarrow> step_result" where
  "record_nested_archive_count n ev =
     (if \<not> archive_discovery_current (storage_of ev)
      then (Some (EvidenceInvariant
             ''The nested Archive count must be recorded during Archive discovery''), ev)
      else if nested_archive_count_recorded (storage_of ev)
      then (Some (EvidenceInvariant ''The nested Archive count can only be recorded once''), ev)
      else (None, update_storage
             (\<lambda>s. s\<lparr>nested_archive_count_recorded := True,
                   archive_discovery :=
                     Some ((discovery_or_default s)\<lparr>nested_archive_count := n\<rparr>)\<rparr>) ev))"

definition open_processing_assets :: "routing_ledger \<Rightarrow> evidence \<Rightarrow> step_result" where
  "open_processing_assets ledger ev =
     (let s = storage_of ev in
      if current_phase s \<noteq> Some BuildingEffectiveAssetTree
        \<or> \<not> archive_discovery_complete s \<or> failures s \<noteq> []
      then (Some (EvidenceInvariant
             ''Routing Ledger requires completed, successful Effective Asset Tree discovery''), ev)
      else if stored_ledger s \<noteq> None
      then (Some (EvidenceInvariant ''Definitive routing can only be recorded once''), ev)
      else open_attempt_phase
             (executed ProcessingAssets (Some (determinate (length (routed_assets ledger)) 0 0)))
             (update_storage (\<lambda>s. s\<lparr>stored_ledger := Some ledger\<rparr>) ev))"

definition record_planned_extraction :: "planned_archive_extraction \<Rightarrow> evidence \<Rightarrow> step_result" where
  "record_planned_extraction x ev =
     (if \<not> is_planning (storage_of ev) ExtractingArchives
      then (Some (EvidenceInvariant
             ''Planned Archive extractions must be recorded during a Planned Extracting Archives''), ev)
      else (None, update_storage
             (\<lambda>s. s\<lparr>planned_work := (planned_work s)\<lparr>extractions := extractions (planned_work s) @ [x]\<rparr>\<rparr>) ev))"

definition record_output_plan_basis :: "output_plan_basis \<Rightarrow> evidence \<Rightarrow> step_result" where
  "record_output_plan_basis basis ev =
     (if \<not> is_planning (storage_of ev) ArchiveFinalization
      then (Some (EvidenceInvariant
             ''An output plan basis must be recorded during a Planned Archive Finalization''), ev)
      else if output_basis (planned_work (storage_of ev)) \<noteq> None
      then (Some (EvidenceInvariant ''An output plan basis can only be recorded once''), ev)
      else (None, update_storage
             (\<lambda>s. s\<lparr>planned_work := (planned_work s)\<lparr>output_basis := Some basis\<rparr>\<rparr>) ev))"

definition record_planned_output :: "planned_output_archive \<Rightarrow> evidence \<Rightarrow> step_result" where
  "record_planned_output out ev =
     (if \<not> is_planning (storage_of ev) ArchiveFinalization
      then (Some (EvidenceInvariant
             ''Planned output Archives must be recorded during a Planned Archive Finalization''), ev)
      else if output_basis (planned_work (storage_of ev)) = None
      then (Some (EvidenceInvariant
             ''Planned output Archives must follow the basis they were planned from''), ev)
      else (None, update_storage
             (\<lambda>s. s\<lparr>planned_work := (planned_work s)\<lparr>outputs := outputs (planned_work s) @ [out]\<rparr>\<rparr>) ev))"

definition record_safety_cleanup_failure :: "run_failure \<Rightarrow> evidence \<Rightarrow> step_result" where
  "record_safety_cleanup_failure f ev =
     (if current_phase (storage_of ev) \<noteq> Some SafetyCleanup \<or> failure_phase f \<noteq> SafetyCleanup
        \<or> failure_code f \<notin> {TemporaryArtifactCleanupFailed, SafetyCleanupServiceFailed}
      then (Some (EvidenceInvariant
             ''Safety Cleanup failures require the cleanup phase and a cleanup failure code''), ev)
      else (None, update_storage
             (\<lambda>s. s\<lparr>safety_cleanup_failures := safety_cleanup_failures s @ [f]\<rparr>) ev))"

definition record_cancellation_observation :: "evidence \<Rightarrow> evidence" where
  "record_cancellation_observation ev = update_storage (\<lambda>s. s\<lparr>cancellation_observed := True\<rparr>) ev"

subsection \<open>Sealing\<close>

type_synonym effect = "(path \<times> mutation_kind) \<times> mutation_state \<times> nat"

definition mutation_effects :: "storage \<Rightarrow> effect list" where
  "mutation_effects s =
     map (\<lambda>a. ((completed_root a, completed_kind a), facts_mutation (completed_facts a), 1))
       (completed_attempts s)
     @ map (\<lambda>m. ((effect_root m, MutFinalization), effect_mutation m, effect_count m))
         (case archive_finalization_of s of None \<Rightarrow> [] | Some r \<Rightarrow> fin_mutations r)"

fun group_effect :: "effect \<Rightarrow> ((path \<times> mutation_kind) \<times> mutation_summary) list
    \<Rightarrow> ((path \<times> mutation_kind) \<times> mutation_summary) list" where
  "group_effect ((root, kind), mutation, count) grouped =
     (if mutation = MNone then grouped
      else entry_modify (root, kind)
             \<lparr>summary_root = root, summary_kind = kind, committed = 0, partial_or_unknown = 0\<rparr>
             (\<lambda>summary. if mutation = MCommitted
                then summary\<lparr>committed := committed summary + count\<rparr>
                else summary\<lparr>partial_or_unknown := partial_or_unknown summary + count\<rparr>)
             grouped)"

definition derive_mutation_summaries :: "storage \<Rightarrow> mutation_summary list" where
  "derive_mutation_summaries s = map snd (fold group_effect (mutation_effects s) [])"

definition consume :: "evidence \<Rightarrow> error + storage" where
  "consume ev =
     (let s = storage_of ev in
      if current_phase s \<noteq> Some SafetyCleanup
      then Err (EvidenceInvariant ''Run Evidence can only be consumed after Safety Cleanup'')
      else Ok (s\<lparr>mutation_summaries := derive_mutation_summaries s,
                cleanup_failures :=
                  List.maps (\<lambda>a. result_cleanup_failures (attempt_result a)) (asset_attempts s)
                  @ safety_cleanup_failures s,
                skipped_counts :=
                  map_of (filter (\<lambda>(_, n). n \<noteq> 0)
                    (map (\<lambda>reason. (reason, storage_skipped_count s reason)) all_skip_reasons))\<rparr>))"

definition evidence_skipped_count :: "storage \<Rightarrow> skip_reason \<Rightarrow> nat" where
  "evidence_skipped_count s reason = (case skipped_counts s reason of None \<Rightarrow> 0 | Some n \<Rightarrow> n)"

end
