(* ===== verification/EvidenceRuns.thy ===== *)
theory EvidenceRuns
  imports EvidenceLaws
begin

text \<open>
  Run Evidence as a state machine. An operation is one call a producer can make on
  \<open>MutableRunEvidence\<close> or on a handle it lends out; reachability is any sequence of such calls,
  rejected ones included, from an empty store. Every reachable store is well formed, every
  rejected call leaves the evidence exactly as it was, and a sink sees every fact at most once,
  in order, and only once the store holds it.
\<close>

datatype evidence_op =
    RecordExecuted run_phase "run_progress option"
  | RecordSkipped run_phase phase_skip_reason
  | RecordPlanned run_phase
  | RecordPreparation run_preparation
  | RecordDiagnostic run_diagnostic
  | RetainDiagnostic run_diagnostic
  | PublishDiagnostics
  | RecordFailure run_failure
  | RetainFailure run_failure
  | OpenExtraction nat
  | RecordExtraction archive_extraction_result
  | RecordCollisions "archive_collision list"
  | RecordSkippedCounts "skip_reason \<rightharpoonup> nat"
  | RecordNestedCount nat
  | OpenProcessing routing_ledger
  | RecordAsset routed_asset_attempt
  | OpenFinalization
  | PlanFinalization nat
  | RecordOutput archive_finalization_attempt
  | FinishFinalization archive_finalization_account
  | RecordPlannedExtraction planned_archive_extraction
  | RecordOutputBasis output_plan_basis
  | RecordPlannedOutput planned_output_archive
  | RecordCleanupFailure run_failure
  | RecordCancellation

fun run_op :: "evidence_op \<Rightarrow> evidence \<Rightarrow> step_result" where
  "run_op (RecordExecuted p g) ev = record_phase (executed p g) ev"
| "run_op (RecordSkipped p r) ev = record_phase (skipped p r) ev"
| "run_op (RecordPlanned p) ev = record_phase (planned p) ev"
| "run_op (RecordPreparation p) ev = record_preparation p ev"
| "run_op (RecordDiagnostic d) ev = (None, record_diagnostic d ev)"
| "run_op (RetainDiagnostic d) ev = (None, retain_diagnostic d ev)"
| "run_op PublishDiagnostics ev = (None, publish_diagnostics ev)"
| "run_op (RecordFailure f) ev = (None, record_failure f ev)"
| "run_op (RetainFailure f) ev = (None, retain_failure f ev)"
| "run_op (OpenExtraction n) ev = open_archive_extraction n ev"
| "run_op (RecordExtraction a) ev = record_attempt_progress extraction_attempt a ev"
| "run_op (RecordCollisions cs) ev = record_archive_collisions cs ev"
| "run_op (RecordSkippedCounts counts) ev = record_skipped_archive_counts counts ev"
| "run_op (RecordNestedCount n) ev = record_nested_archive_count n ev"
| "run_op (OpenProcessing l) ev = open_processing_assets l ev"
| "run_op (RecordAsset a) ev = record_attempt_progress asset_attempt a ev"
| "run_op OpenFinalization ev = open_archive_finalization ev"
| "run_op (PlanFinalization n) ev = plan_archive_finalization n ev"
| "run_op (RecordOutput a) ev = record_attempt_progress finalization_attempt a ev"
| "run_op (FinishFinalization account) ev = finish_archive_finalization account ev"
| "run_op (RecordPlannedExtraction x) ev = record_planned_extraction x ev"
| "run_op (RecordOutputBasis b) ev = record_output_plan_basis b ev"
| "run_op (RecordPlannedOutput out) ev = record_planned_output out ev"
| "run_op (RecordCleanupFailure f) ev = record_safety_cleanup_failure f ev"
| "run_op RecordCancellation ev = (None, record_cancellation_observation ev)"

inductive reachable :: "evidence \<Rightarrow> bool" where
  start: "reachable (new_evidence sink)"
| step: "reachable ev \<Longrightarrow> reachable (snd (run_op op ev))"

inductive_cases reachableE: "reachable ev"

subsection \<open>The store invariant\<close>

definition ledger_ok :: "storage \<Rightarrow> bool" where
  "ledger_ok s =
     (case stored_ledger s of
        None \<Rightarrow> phase_progress (phases s) ProcessingAssets = None
      | Some l \<Rightarrow> (\<exists>g. phase_progress (phases s) ProcessingAssets = Some g
                       \<and> total g = length (routed_assets l)))"

definition planned_at :: "storage \<Rightarrow> run_phase \<Rightarrow> bool" where
  "planned_at s p = (\<exists>r. phase_map (phases s) p = Some r \<and> status r = StPlanned)"

definition planned_ok :: "storage \<Rightarrow> bool" where
  "planned_ok s =
     ((extractions (planned_work s) \<noteq> [] \<longrightarrow> planned_at s ExtractingArchives)
      \<and> (output_basis (planned_work s) \<noteq> None \<longrightarrow> planned_at s ArchiveFinalization)
      \<and> (outputs (planned_work s) \<noteq> [] \<longrightarrow> output_basis (planned_work s) \<noteq> None))"

definition wf_store :: "storage \<Rightarrow> bool" where
  "wf_store s =
     (phases_ok (phases s)
      \<and> attempts_match extraction_attempt archive_extraction_attempts s
      \<and> attempts_match asset_attempt asset_attempts s
      \<and> attempts_match finalization_attempt finalization_attempts s
      \<and> ledger_ok s \<and> planned_ok s)"

lemma wf_storeD:
  assumes "wf_store s"
  shows "phases_ok (phases s)"
    "attempts_match extraction_attempt archive_extraction_attempts s"
    "attempts_match asset_attempt asset_attempts s"
    "attempts_match finalization_attempt finalization_attempts s"
    "ledger_ok s" "planned_ok s"
  using assms by (simp_all add: wf_store_def)

lemma attempt_phase_simps [simp]:
  "attempt_phase extraction_attempt = ExtractingArchives"
  "attempt_phase asset_attempt = ProcessingAssets"
  "attempt_phase finalization_attempt = ArchiveFinalization"
  by (simp_all add: extraction_attempt_def asset_attempt_def finalization_attempt_def)

text \<open>The fields the invariant reads, apart from the phases.\<close>

definition same_work :: "storage \<Rightarrow> storage \<Rightarrow> bool" where
  "same_work s s' =
     (archive_extraction_attempts s' = archive_extraction_attempts s
      \<and> asset_attempts s' = asset_attempts s
      \<and> finalization_attempts s' = finalization_attempts s
      \<and> planned_work s' = planned_work s)"

lemma same_facts_work: "same_facts s s' \<Longrightarrow> same_work s s'"
  by (simp add: same_work_def same_facts_fields finalization_attempts_def)

lemma wf_store_frame:
  assumes "wf_store s" and "phases s' = phases s" and "same_work s s'" and "stored_ledger s' = stored_ledger s"
  shows "wf_store s'"
proof -
  note wf = wf_storeD [OF assms(1)]
  note same = assms(3) [unfolded same_work_def]
  have "ledger_ok s'" using wf(5) unfolding ledger_ok_def assms(2,4) .
  moreover have "planned_ok s'"
    using wf(6) same unfolding planned_ok_def planned_at_def assms(2) by simp
  ultimately show ?thesis
    using wf(1) attempts_match_frame [OF wf(2) assms(2)] attempts_match_frame [OF wf(3) assms(2)]
      attempts_match_frame [OF wf(4) assms(2)] same
    by (simp add: wf_store_def assms(2))
qed

lemma wf_store_facts: "wf_store s \<Longrightarrow> same_facts s s' \<Longrightarrow> wf_store s'"
  by (erule wf_store_frame) (simp_all add: same_facts_fields same_facts_work)

lemma planned_at_accept:
  assumes "phases_ok (phases s)" and "acceptable r s" and "phases s' = phases_after r s" and "planned_at s p"
  shows "planned_at s' p"
proof (cases "record_of r = p")
  case True
  from assms(4) obtain r0 where r0: "phase_map (phases s) p = Some r0" "status r0 = StPlanned"
    by (auto simp: planned_at_def)
  then have "status r = StPlanned"
    using accepted_status_fixed [OF assms(1,2)] True validate_replacement_None(1) by metis
  then show ?thesis
    using True assms(3) phase_map_after [OF assms(1,2)] by (simp add: planned_at_def)
next
  case False
  then show ?thesis
    using assms(3,4) phase_map_after [OF assms(1,2)] by (simp add: planned_at_def)
qed

lemma planned_ok_accept:
  assumes "planned_ok s" and "phases_ok (phases s)" and "acceptable r s"
    and "phases s' = phases_after r s" and "planned_work s' = planned_work s"
  shows "planned_ok s'"
  using assms(1,5) planned_at_accept [OF assms(2,3,4)] by (auto simp: planned_ok_def)

lemma phase_progress_after:
  assumes "phases_ok (phases s)" and "acceptable r s"
  shows "phase_progress (phases_after r s) p =
    (if p = record_of r then (if status r = StExecuted then progress r else None)
     else phase_progress (phases s) p)"
  using phase_map_after [OF assms] by (simp add: phase_progress_def)

lemma not_executed_progress:
  assumes "phases_ok (phases s)" and "acceptable r s" and "status r \<noteq> StExecuted"
  shows "phase_progress (phases s) (record_of r) = None"
proof (cases "phase_map (phases s) (record_of r)")
  case (Some r0)
  then have "status r0 = status r"
    using accepted_status_fixed [OF assms(1,2)] validate_replacement_None(1) by metis
  then show ?thesis using Some assms(3) by (simp add: phase_progress_def)
qed (simp add: phase_progress_def)

lemma wf_store_accept:
  assumes "wf_store s" and "acceptable r s" and "constructed r"
    and "phases s' = phases_after r s" and "same_work s s'" and "ledger_ok s'"
    and "record_of r \<in> set attempt_bearing_phases \<Longrightarrow>
           phase_progress (phases s) (record_of r) = None \<and> begins_at_zero r"
  shows "wf_store s'"
proof -
  note wf = wf_storeD [OF assms(1)]
  have empty: "kept s = []" if "attempts_match T kept s" "attempt_phase T = record_of r"
      "record_of r \<in> set attempt_bearing_phases" for T :: "'x phase_attempt" and kept
    using that assms(7) by (simp add: attempts_match_def)
  have bearing: "attempt_phase extraction_attempt \<in> set attempt_bearing_phases"
      "attempt_phase asset_attempt \<in> set attempt_bearing_phases"
      "attempt_phase finalization_attempt \<in> set attempt_bearing_phases"
    by (simp_all add: attempt_bearing_phases_def)
  have "attempts_match extraction_attempt archive_extraction_attempts s'"
    by (rule attempts_match_accept [OF wf(2,1) assms(2,4)])
      (use assms(5,7) empty [OF wf(2)] bearing in \<open>auto simp: same_work_def simp del: attempt_phase_simps\<close>)
  moreover have "attempts_match asset_attempt asset_attempts s'"
    by (rule attempts_match_accept [OF wf(3,1) assms(2,4)])
      (use assms(5,7) empty [OF wf(3)] bearing in \<open>auto simp: same_work_def simp del: attempt_phase_simps\<close>)
  moreover have "attempts_match finalization_attempt finalization_attempts s'"
    by (rule attempts_match_accept [OF wf(4,1) assms(2,4)])
      (use assms(5,7) empty [OF wf(4)] bearing in \<open>auto simp: same_work_def simp del: attempt_phase_simps\<close>)
  moreover have "planned_ok s'"
    using planned_ok_accept [OF wf(6,1) assms(2,4)] assms(5) by (simp add: same_work_def)
  moreover have "phases_ok (phases s')"
    unfolding assms(4) by (rule phases_ok_after [OF wf(1) assms(2,3)])
  ultimately show ?thesis using assms(6) by (simp add: wf_store_def)
qed

lemma acceptable_cong: "phases s' = phases s \<Longrightarrow> acceptable r s' = acceptable r s"
  by (simp add: acceptable_def last_record_def)

text \<open>
  One accepted transition on the evidence: \<open>s0\<close> is the store the transition is checked on, which
  may differ from the store before the step in the fields the step set first.
\<close>

lemma accept_phase_wf:
  assumes "wf_store (storage_of ev)" and "constructed r"
    and "ledger_ok (storage_of ev) \<Longrightarrow> acceptable r (storage_of ev) \<Longrightarrow>
          ledger_ok ((storage_of ev)\<lparr>phases := phases_after r (storage_of ev)\<rparr>)"
    and "acceptable r (storage_of ev) \<Longrightarrow> record_of r \<in> set attempt_bearing_phases \<Longrightarrow>
           phase_progress (phases (storage_of ev)) (record_of r) = None \<and> begins_at_zero r"
  shows "wf_store (storage_of (snd (accept_phase r ev)))"
proof (cases "acceptable r (storage_of ev)")
  case True
  let ?s = "(storage_of ev)\<lparr>phases := phases_after r (storage_of ev)\<rparr>"
  have "wf_store ?s"
    by (rule wf_store_accept [OF assms(1) True assms(2)])
      (use assms(3,4) True wf_storeD(5) [OF assms(1)] in
        \<open>simp_all add: same_work_def finalization_attempts_def\<close>)
  moreover have "same_facts ?s (storage_of (snd (accept_phase r ev)))"
    using same_facts_report [of "update_storage (\<lambda>s. s\<lparr>phases := phases_after r (storage_of ev)\<rparr>) ev"]
    by (simp add: accept_phase_accepted [OF True])
  ultimately show ?thesis by (rule wf_store_facts)
next
  case False
  then show ?thesis using assms(1) accept_phase_rejected by metis
qed

lemma ledger_ok_other:
  assumes "ledger_ok s" and "phases_ok (phases s)" and "acceptable r s"
    and "record_of r \<noteq> ProcessingAssets \<or> status r \<noteq> StExecuted"
  shows "ledger_ok (s\<lparr>phases := phases_after r s\<rparr>)"
proof -
  have "phase_progress (phases_after r s) ProcessingAssets = phase_progress (phases s) ProcessingAssets"
    using assms(4) not_executed_progress [OF assms(2,3)] phase_progress_after [OF assms(2,3)] by auto
  then show ?thesis using assms(1) by (auto simp: ledger_ok_def split: option.splits)
qed

lemma record_phase_cases:
  obtains (refused) "snd (record_phase r ev) = ev" "fst (record_phase r ev) \<noteq> None"
  | (accepted) "record_phase r ev = accept_phase r ev"
      "record_of r \<notin> set attempt_bearing_phases \<or> status r \<noteq> StExecuted"
proof (cases "status r = StExecuted \<and> record_of r \<in> set attempt_bearing_phases
    \<or> status r = StPlanned \<and> record_of r \<notin> set plannable_phases")
  case True
  then show ?thesis by (intro refused) (auto simp: record_phase_def)
next
  case False
  then show ?thesis by (intro accepted) (auto simp: record_phase_def)
qed

lemma record_phase_wf:
  assumes "wf_store (storage_of ev)" and "constructed r"
  shows "wf_store (storage_of (snd (record_phase r ev)))"
proof -
  note wf = wf_storeD [OF assms(1)]
  show ?thesis
  proof (cases r ev rule: record_phase_cases)
    case accepted
    have zero: "begins_at_zero r" if "status r \<noteq> StExecuted"
      using that assms(2) by (simp add: constructed_def begins_at_zero_def)
    have "wf_store (storage_of (snd (accept_phase r ev)))"
    proof (rule accept_phase_wf [OF assms])
      assume acc: "acceptable r (storage_of ev)"
      show "ledger_ok (storage_of ev) \<Longrightarrow>
          ledger_ok ((storage_of ev)\<lparr>phases := phases_after r (storage_of ev)\<rparr>)"
        using ledger_ok_other [OF _ wf(1) acc] accepted(2) by (auto simp: attempt_bearing_phases_def)
      show "record_of r \<in> set attempt_bearing_phases \<Longrightarrow>
          phase_progress (phases (storage_of ev)) (record_of r) = None \<and> begins_at_zero r"
        using not_executed_progress [OF wf(1) acc] accepted(2) zero by blast
    qed
    then show ?thesis using accepted by simp
  qed (use assms in simp)
qed

lemma unopened_progress:
  "storage_phase s p = None \<Longrightarrow> phase_progress (phases s) p = None"
  by (simp add: storage_phase_map phase_progress_def)

lemma open_attempt_phase_wf:
  assumes "wf_store (storage_of ev)" and "constructed r" and "begins_at_zero r"
    and "record_of r \<noteq> ProcessingAssets"
  shows "wf_store (storage_of (snd (open_attempt_phase r ev)))"
proof (cases "storage_phase (storage_of ev) (record_of r)")
  case None
  have "wf_store (storage_of (snd (accept_phase r ev)))"
    by (rule accept_phase_wf [OF assms(1,2)])
      (use assms None unopened_progress ledger_ok_other wf_storeD(1) [OF assms(1)] in auto)
  then show ?thesis using None by (simp add: open_attempt_phase_def)
qed (use assms in \<open>simp add: open_attempt_phase_def\<close>)

lemma open_processing_assets_cases:
  obtains (refused) "snd (open_processing_assets l ev) = ev" "fst (open_processing_assets l ev) \<noteq> None"
  | (opened) "storage_phase (storage_of ev) ProcessingAssets = None \<Longrightarrow>
        open_processing_assets l ev =
          accept_phase (executed ProcessingAssets (Some (determinate (length (routed_assets l)) 0 0)))
            (update_storage (\<lambda>s. s\<lparr>stored_ledger := Some l\<rparr>) ev)"
      "current_phase (storage_of ev) = Some BuildingEffectiveAssetTree"
      "archive_discovery_complete (storage_of ev)" "failures (storage_of ev) = []"
      "stored_ledger (storage_of ev) = None"
proof (cases "current_phase (storage_of ev) = Some BuildingEffectiveAssetTree
    \<and> archive_discovery_complete (storage_of ev) \<and> failures (storage_of ev) = []
    \<and> stored_ledger (storage_of ev) = None")
  case True
  then show ?thesis
    by (intro opened) (simp_all add: open_processing_assets_def open_attempt_phase_def storage_phase_def Let_def)
next
  case False
  then show ?thesis by (intro refused) (auto simp: open_processing_assets_def Let_def)
qed

lemma current_last:
  assumes "current_phase s = Some p"
  obtains ps r where "phases s = ps @ [r]" "record_of r = p" "last_record s = Some r"
  using assms
  by (cases "phases s" rule: rev_cases) (auto simp: current_phase_def last_record_def)

lemma later_unrecorded:
  assumes "phases_ok (phases s)" and "current_phase s = Some p" and "p < q"
  shows "phase_map (phases s) q = None"
proof -
  from assms(2) obtain ps r where s: "phases s = ps @ [r]" "record_of r = p"
    by (rule current_last)
  then have "\<forall>x \<in> record_of ` set (phases s). x < q"
    using assms(1,3) by (auto simp: phases_ok_def sorted_wrt_append simp del: phase_less_simps intro: less_trans)
  then show ?thesis unfolding phase_map_None by blast
qed

lemma open_processing_assets_opens:
  assumes "phases_ok (phases (storage_of ev))"
    and "current_phase (storage_of ev) = Some BuildingEffectiveAssetTree"
  shows "phase_map (phases (storage_of ev)) ProcessingAssets = None"
    and "acceptable (executed ProcessingAssets (Some (determinate n 0 0))) (storage_of ev)"
proof -
  show "phase_map (phases (storage_of ev)) ProcessingAssets = None"
    by (rule later_unrecorded [OF assms]) simp
  from assms(2) obtain ps r where "phases (storage_of ev) = ps @ [r]"
      "record_of r = BuildingEffectiveAssetTree" "last_record (storage_of ev) = Some r"
    by (rule current_last)
  then show "acceptable (executed ProcessingAssets (Some (determinate n 0 0))) (storage_of ev)"
    by (simp add: acceptable_def validate_progress_def begins_at_zero_def)
qed

lemma open_processing_assets_wf:
  assumes "wf_store (storage_of ev)"
  shows "wf_store (storage_of (snd (open_processing_assets l ev)))"
proof (cases l ev rule: open_processing_assets_cases)
  case opened
  let ?r = "executed ProcessingAssets (Some (determinate (length (routed_assets l)) 0 0))"
  let ?s = "(storage_of ev)\<lparr>stored_ledger := Some l\<rparr>"
  let ?t = "?s\<lparr>phases := phases_after ?r ?s\<rparr>"
  note wf = wf_storeD [OF assms]
  note fresh = open_processing_assets_opens(1) [OF wf(1) opened(2)]
    and acc = open_processing_assets_opens(2) [OF wf(1) opened(2), of "length (routed_assets l)"]
  have acc': "acceptable ?r ?s" using acc acceptable_cong [of ?s "storage_of ev"] by simp
  have after: "phases_after ?r ?s = phases_after ?r (storage_of ev)"
    by (simp add: phases_after_def current_phase_def last_record_def)
  have "wf_store ?t"
  proof (rule wf_store_accept [OF assms acc])
    show "ledger_ok ?t"
      using phase_progress_after [OF wf(1) acc] after by (simp add: ledger_ok_def)
    show "phase_progress (phases (storage_of ev)) (record_of ?r) = None \<and> begins_at_zero ?r"
      using fresh by (simp add: phase_progress_def begins_at_zero_def)
  qed (simp_all add: same_work_def finalization_attempts_def after)
  moreover have "same_facts ?t (storage_of (snd (open_processing_assets l ev)))"
  proof -
    let ?u = "update_storage (\<lambda>s. s\<lparr>stored_ledger := Some l\<rparr>) ev"
    have "open_processing_assets l ev = accept_phase ?r ?u"
      using opened(1) fresh by (simp add: storage_phase_map)
    moreover have "acceptable ?r (storage_of ?u)" using acc' by simp
    ultimately show ?thesis
      using same_facts_report [of "update_storage (\<lambda>s. s\<lparr>phases := phases_after ?r ?s\<rparr>) ?u"
          ProcessingAssets "PubPhase ?r"]
      by (simp add: accept_phase_accepted)
  qed
  ultimately show ?thesis by (rule wf_store_facts)
qed (use assms in simp)

lemma plan_archive_finalization_cases:
  obtains (refused) "snd (plan_archive_finalization n ev) = ev" "fst (plan_archive_finalization n ev) \<noteq> None"
  | (accepted) r where
      "plan_archive_finalization n ev =
         accept_phase (executed ArchiveFinalization (Some (determinate n 0 0)))
           (update_storage (\<lambda>s. s\<lparr>archive_finalization_of := Some default_finalization_result\<rparr>) ev)"
      "last_record (storage_of ev) = Some r" "record_of r = ArchiveFinalization"
      "status r = StExecuted" "progress r = None" "\<not> archive_finalization_completed (storage_of ev)"
proof (cases "\<not> archive_finalization_completed (storage_of ev) \<and> (\<exists>r. last_record (storage_of ev) = Some r
    \<and> record_of r = ArchiveFinalization \<and> status r = StExecuted \<and> progress r = None)")
  case True
  then obtain r where "last_record (storage_of ev) = Some r" "record_of r = ArchiveFinalization"
      "status r = StExecuted" "progress r = None" "\<not> archive_finalization_completed (storage_of ev)"
    by blast
  then show ?thesis by (intro accepted) (simp_all add: plan_archive_finalization_def)
next
  case False
  then show ?thesis
    by (intro refused) (auto simp: plan_archive_finalization_def Let_def split: option.split)
qed

lemma plan_archive_finalization_wf:
  assumes "wf_store (storage_of ev)"
  shows "wf_store (storage_of (snd (plan_archive_finalization n ev)))"
    and "fst (plan_archive_finalization n ev) \<noteq> None \<Longrightarrow> snd (plan_archive_finalization n ev) = ev"
proof -
  let ?r = "executed ArchiveFinalization (Some (determinate n 0 0))"
  let ?u = "update_storage (\<lambda>s. s\<lparr>archive_finalization_of := Some default_finalization_result\<rparr>) ev"
  note wf = wf_storeD [OF assms]
  have "wf_store (storage_of (snd (plan_archive_finalization n ev)))
      \<and> (fst (plan_archive_finalization n ev) \<noteq> None \<longrightarrow> snd (plan_archive_finalization n ev) = ev)"
  proof (cases n ev rule: plan_archive_finalization_cases)
    case (accepted r)
    have map: "phase_map (phases (storage_of ev)) ArchiveFinalization = Some r"
      using last_record_phase_map [OF wf(1) accepted(2)] accepted(3) by simp
    then have none: "phase_progress (phases (storage_of ev)) ArchiveFinalization = None"
      using accepted(5) by (simp add: phase_progress_def)
    then have "finalization_attempts (storage_of ev) = []"
      using wf(4) by (simp add: attempts_match_def)
    then have wfu: "wf_store (storage_of ?u)"
      by (intro wf_store_frame [OF assms])
        (simp_all add: same_work_def finalization_attempts_def default_finalization_result_def from_parts_def)
    have "constructed r"
      using map phase_map_Some wf(1) by (fastforce simp: phases_ok_def list_all_iff)
    then have "validate_replacement r ?r = None"
      using accepted by (simp add: validate_replacement_def validate_progress_def constructed_def)
    then have "acceptable ?r (storage_of ev)"
      using accepted(2,3) by (simp add: acceptable_def validate_progress_def)
    then have acc: "acceptable ?r (storage_of ?u)"
      using acceptable_cong [of "storage_of ?u" "storage_of ev"] by simp
    have "wf_store (storage_of (snd (accept_phase ?r ?u)))"
    proof (rule accept_phase_wf [OF wfu])
      show "ledger_ok (storage_of ?u) \<Longrightarrow> acceptable ?r (storage_of ?u) \<Longrightarrow>
          ledger_ok ((storage_of ?u)\<lparr>phases := phases_after ?r (storage_of ?u)\<rparr>)"
        by (rule ledger_ok_other [OF _ wf_storeD(1) [OF wfu]]) simp_all
    qed (use none in \<open>simp_all add: begins_at_zero_def\<close>)
    moreover have "fst (accept_phase ?r ?u) = None" using acc accept_phase_iff by simp
    ultimately show ?thesis using accepted(1) by simp
  qed (use assms in simp)
  then show "wf_store (storage_of (snd (plan_archive_finalization n ev)))"
    and "fst (plan_archive_finalization n ev) \<noteq> None \<Longrightarrow> snd (plan_archive_finalization n ev) = ev"
    by blast+
qed

text \<open>Retaining one kind of attempt leaves the lists of the other kinds and the ledger alone.\<close>

lemma retain_others:
  "asset_attempts (retain extraction_attempt a s) = asset_attempts s"
  "finalization_attempts (retain extraction_attempt a s) = finalization_attempts s"
  "archive_extraction_attempts (retain asset_attempt b s) = archive_extraction_attempts s"
  "finalization_attempts (retain asset_attempt b s) = finalization_attempts s"
  "archive_extraction_attempts (retain finalization_attempt c s) = archive_extraction_attempts s"
  "asset_attempts (retain finalization_attempt c s) = asset_attempts s"
  "stored_ledger (retain extraction_attempt a s) = stored_ledger s"
  "stored_ledger (retain asset_attempt b s) = stored_ledger s"
  "stored_ledger (retain finalization_attempt c s) = stored_ledger s"
  "planned_work (retain extraction_attempt a s) = planned_work s"
  "planned_work (retain asset_attempt b s) = planned_work s"
  "planned_work (retain finalization_attempt c s) = planned_work s"
  by (simp_all add: extraction_attempt_def asset_attempt_def finalization_attempt_def
      finalization_attempts_def Let_def)

lemma match_same:
  assumes "attempts_match U k s" and "k s' = k s"
    and "phase_progress (phases s') (attempt_phase U) = phase_progress (phases s) (attempt_phase U)"
  shows "attempts_match U k s'"
  using assms unfolding attempts_match_def by metis

context attempt_kind
begin

lemma record_frame:
  assumes "phases_ok (phases (storage_of ev))" and "is_open T (storage_of ev) g" and "completed g < total g"
  shows "same_facts ((retain T a (storage_of ev))\<lparr>phases := phases_after (advanced T a g) (retain T a (storage_of ev))\<rparr>)
      (storage_of (snd (record_attempt_progress T a ev)))"
  using same_facts_report [of "update_storage (\<lambda>s. s\<lparr>phases := phases_after (advanced T a g)
      (retain T a (storage_of ev))\<rparr>) (update_storage (retain T a) ev)"]
  by (simp add: record_accepted [OF assms])

lemma record_progress:
  assumes "phases_ok (phases (storage_of ev))" and "is_open T (storage_of ev) g" and "completed g < total g"
  shows "phase_progress (phases (storage_of (snd (record_attempt_progress T a ev)))) p
      = (if p = attempt_phase T then progress (advanced T a g)
         else phase_progress (phases (storage_of ev)) p)"
    and "planned_at (storage_of ev) p \<Longrightarrow> planned_at (storage_of (snd (record_attempt_progress T a ev))) p"
proof -
  note map = record_keeps(3) [OF assms, of a]
  show "phase_progress (phases (storage_of (snd (record_attempt_progress T a ev)))) p
      = (if p = attempt_phase T then progress (advanced T a g)
         else phase_progress (phases (storage_of ev)) p)"
    by (simp add: phase_progress_def map advanced_def)
  obtain r where "last_record (storage_of ev) = Some r" "record_of r = attempt_phase T" "status r = StExecuted"
    using assms(2) by (rule is_openE)
  then have "\<not> planned_at (storage_of ev) (attempt_phase T)"
    using last_record_phase_map [OF assms(1)] by (auto simp: planned_at_def)
  then show "planned_at (storage_of ev) p \<Longrightarrow> planned_at (storage_of (snd (record_attempt_progress T a ev))) p"
    by (auto simp: planned_at_def map)
qed

lemma open_progress:
  assumes "phases_ok (phases s)" and "is_open T s g"
  shows "phase_progress (phases s) (attempt_phase T) = Some g"
proof -
  obtain r where "last_record s = Some r" "record_of r = attempt_phase T" "status r = StExecuted"
      "progress r = Some g"
    using assms(2) by (rule is_openE)
  then show ?thesis using last_record_phase_map [OF assms(1)] by (force simp: phase_progress_def)
qed

lemma record_wf:
  assumes "wf_store (storage_of ev)"
    and others: "\<And>g. is_open T (storage_of ev) g \<Longrightarrow> completed g < total g \<Longrightarrow>
        let s' = storage_of (snd (record_attempt_progress T a ev)) in
        (attempt_phase T \<noteq> ExtractingArchives \<longrightarrow>
          archive_extraction_attempts s' = archive_extraction_attempts (storage_of ev))
        \<and> (attempt_phase T \<noteq> ProcessingAssets \<longrightarrow> asset_attempts s' = asset_attempts (storage_of ev))
        \<and> (attempt_phase T \<noteq> ArchiveFinalization \<longrightarrow>
          finalization_attempts s' = finalization_attempts (storage_of ev))
        \<and> stored_ledger s' = stored_ledger (storage_of ev) \<and> planned_work s' = planned_work (storage_of ev)"
    and own: "let s' = storage_of (snd (record_attempt_progress T a ev)) in
        (attempt_phase T = ExtractingArchives \<longrightarrow> attempts_match extraction_attempt archive_extraction_attempts s')
        \<and> (attempt_phase T = ProcessingAssets \<longrightarrow> attempts_match asset_attempt asset_attempts s')
        \<and> (attempt_phase T = ArchiveFinalization \<longrightarrow> attempts_match finalization_attempt finalization_attempts s')"
  shows "wf_store (storage_of (snd (record_attempt_progress T a ev)))"
proof (cases "\<exists>g. is_open T (storage_of ev) g \<and> completed g < total g")
  case True
  then obtain g where g: "is_open T (storage_of ev) g" "completed g < total g" by blast
  let ?s = "storage_of ev" and ?t = "storage_of (snd (record_attempt_progress T a ev))"
  note wf = wf_storeD [OF assms(1)]
  note prog = record_progress [OF wf(1) g, where a = a]
  note other = others [OF g, unfolded Let_def] and own' = own [unfolded Let_def]
  have "attempts_match extraction_attempt archive_extraction_attempts ?t"
    using own' other match_same [OF wf(2)] prog(1) by (cases "attempt_phase T = ExtractingArchives") simp_all
  moreover have "attempts_match asset_attempt asset_attempts ?t"
    using own' other match_same [OF wf(3)] prog(1) by (cases "attempt_phase T = ProcessingAssets") simp_all
  moreover have "attempts_match finalization_attempt finalization_attempts ?t"
    using own' other match_same [OF wf(4)] prog(1) by (cases "attempt_phase T = ArchiveFinalization") simp_all
  moreover have "ledger_ok ?t"
    using wf(5) other prog(1) [where p = ProcessingAssets] open_progress [OF wf(1) g(1)]
    by (auto simp: ledger_ok_def advanced_def split: option.splits if_splits)
  moreover have "planned_ok ?t"
    using wf(6) other prog(2) by (auto simp: planned_ok_def)
  ultimately show ?thesis
    using record_keeps(2) [OF wf(1) g] by (simp add: wf_store_def)
qed (use record_rejected assms in simp)

end

lemma record_extraction_wf:
  assumes "wf_store (storage_of ev)"
  shows "wf_store (storage_of (snd (record_attempt_progress extraction_attempt a ev)))"
proof (rule extraction.record_wf [OF assms])
  fix g
  assume g: "is_open extraction_attempt (storage_of ev) g" "completed g < total g"
  note same = same_facts_fields [OF extraction.record_frame [OF wf_storeD(1) [OF assms] g, where a = a]]
  show "let s' = storage_of (snd (record_attempt_progress extraction_attempt a ev)) in
      (attempt_phase extraction_attempt \<noteq> ExtractingArchives \<longrightarrow>
        archive_extraction_attempts s' = archive_extraction_attempts (storage_of ev))
      \<and> (attempt_phase extraction_attempt \<noteq> ProcessingAssets \<longrightarrow> asset_attempts s' = asset_attempts (storage_of ev))
      \<and> (attempt_phase extraction_attempt \<noteq> ArchiveFinalization \<longrightarrow>
        finalization_attempts s' = finalization_attempts (storage_of ev))
      \<and> stored_ledger s' = stored_ledger (storage_of ev) \<and> planned_work s' = planned_work (storage_of ev)"
    using same retain_others by (simp add: Let_def finalization_attempts_def)
qed (use extraction.record_matches wf_storeD [OF assms] in \<open>simp add: Let_def\<close>)

lemma record_asset_wf:
  assumes "wf_store (storage_of ev)"
  shows "wf_store (storage_of (snd (record_attempt_progress asset_attempt a ev)))"
proof (rule asset.record_wf [OF assms])
  fix g
  assume g: "is_open asset_attempt (storage_of ev) g" "completed g < total g"
  note same = same_facts_fields [OF asset.record_frame [OF wf_storeD(1) [OF assms] g, where a = a]]
  show "let s' = storage_of (snd (record_attempt_progress asset_attempt a ev)) in
      (attempt_phase asset_attempt \<noteq> ExtractingArchives \<longrightarrow>
        archive_extraction_attempts s' = archive_extraction_attempts (storage_of ev))
      \<and> (attempt_phase asset_attempt \<noteq> ProcessingAssets \<longrightarrow> asset_attempts s' = asset_attempts (storage_of ev))
      \<and> (attempt_phase asset_attempt \<noteq> ArchiveFinalization \<longrightarrow>
        finalization_attempts s' = finalization_attempts (storage_of ev))
      \<and> stored_ledger s' = stored_ledger (storage_of ev) \<and> planned_work s' = planned_work (storage_of ev)"
    using same retain_others by (simp add: Let_def finalization_attempts_def)
qed (use asset.record_matches wf_storeD [OF assms] in \<open>simp add: Let_def\<close>)

lemma record_output_wf:
  assumes "wf_store (storage_of ev)"
  shows "wf_store (storage_of (snd (record_attempt_progress finalization_attempt a ev)))"
proof (rule finalization.record_wf [OF assms])
  fix g
  assume g: "is_open finalization_attempt (storage_of ev) g" "completed g < total g"
  note same = same_facts_fields [OF finalization.record_frame [OF wf_storeD(1) [OF assms] g, where a = a]]
  show "let s' = storage_of (snd (record_attempt_progress finalization_attempt a ev)) in
      (attempt_phase finalization_attempt \<noteq> ExtractingArchives \<longrightarrow>
        archive_extraction_attempts s' = archive_extraction_attempts (storage_of ev))
      \<and> (attempt_phase finalization_attempt \<noteq> ProcessingAssets \<longrightarrow> asset_attempts s' = asset_attempts (storage_of ev))
      \<and> (attempt_phase finalization_attempt \<noteq> ArchiveFinalization \<longrightarrow>
        finalization_attempts s' = finalization_attempts (storage_of ev))
      \<and> stored_ledger s' = stored_ledger (storage_of ev) \<and> planned_work s' = planned_work (storage_of ev)"
    using same retain_others by (simp add: Let_def finalization_attempts_def)
qed (use finalization.record_matches wf_storeD [OF assms] in \<open>simp add: Let_def\<close>)

subsection \<open>Every operation\<close>

lemma quiet_wf:
  assumes "wf_store (storage_of ev)" and "phases s' = phases (storage_of ev)"
    and "archive_extraction_attempts s' = archive_extraction_attempts (storage_of ev)"
    and "asset_attempts s' = asset_attempts (storage_of ev)"
    and "archive_finalization_of s' = archive_finalization_of (storage_of ev)"
    and "stored_ledger s' = stored_ledger (storage_of ev)" and "planned_work s' = planned_work (storage_of ev)"
  shows "wf_store s'"
  by (rule wf_store_frame [OF assms(1)]) (simp_all add: same_work_def finalization_attempts_def assms)

lemmas quiet_defs =
  record_preparation_def record_archive_collisions_def record_skipped_archive_counts_def
  record_nested_archive_count_def record_safety_cleanup_failure_def
  record_cancellation_observation_def retain_failure_def

lemma last_planning:
  assumes "phases_ok (phases s)" and "is_planning s p"
  shows "planned_at s p"
proof -
  obtain r where "last_record s = Some r" "record_of r = p" "status r = StPlanned"
    using assms(2) by (auto simp: is_planning_def split: option.splits)
  then show ?thesis
    using last_record_phase_map [OF assms(1)] by (auto simp: planned_at_def)
qed

lemma planned_wf:
  assumes "wf_store (storage_of ev)" and "s' = (storage_of ev)\<lparr>planned_work := w\<rparr>" and "planned_ok s'"
  shows "wf_store s'"
proof -
  note wf = wf_storeD [OF assms(1)]
  have "phases s' = phases (storage_of ev)" "stored_ledger s' = stored_ledger (storage_of ev)"
    by (simp_all add: assms(2))
  moreover from this have "ledger_ok s'" using wf(5) unfolding ledger_ok_def by metis
  ultimately show ?thesis
    using wf(1) assms(3) match_same [OF wf(2), of s'] match_same [OF wf(3), of s'] match_same [OF wf(4), of s']
    by (simp add: wf_store_def assms(2) finalization_attempts_def)
qed

lemma plan_steps_wf:
  assumes "wf_store (storage_of ev)"
  shows "wf_store (storage_of (snd (record_planned_extraction x ev)))"
    and "wf_store (storage_of (snd (record_output_plan_basis b ev)))"
    and "wf_store (storage_of (snd (record_planned_output out ev)))"
proof -
  note wf = wf_storeD [OF assms]
  note plan = wf(6) [unfolded planned_ok_def] and last = last_planning [OF wf(1)]
  show "wf_store (storage_of (snd (record_planned_extraction x ev)))"
    using assms planned_wf [OF assms refl] plan last
    by (simp add: record_planned_extraction_def planned_ok_def planned_at_def)
  show "wf_store (storage_of (snd (record_output_plan_basis b ev)))"
    using assms planned_wf [OF assms refl] plan last
    by (simp add: record_output_plan_basis_def planned_ok_def planned_at_def)
  show "wf_store (storage_of (snd (record_planned_output out ev)))"
    using assms planned_wf [OF assms refl] plan last
    by (simp add: record_planned_output_def planned_ok_def planned_at_def)
qed

lemma finish_wf:
  assumes "wf_store (storage_of ev)"
  shows "wf_store (storage_of (snd (finish_archive_finalization account ev)))"
proof -
  let ?s = "(storage_of ev)\<lparr>archive_finalization_of := Some (from_parts (finalization_attempts (storage_of ev)) account),
      cancellation_observed := cancellation_observed (storage_of ev) \<or> account_cancelled account,
      archive_finalization_completed := True\<rparr>"
  have "finalization_attempts ?s = finalization_attempts (storage_of ev)"
    by (simp add: finalization_attempts_def from_parts_def)
  then have "wf_store ?s"
    by (intro wf_store_frame [OF assms]) (simp_all add: same_work_def)
  then show ?thesis
    using assms by (simp add: finish_archive_finalization_def Let_def)
qed

lemma retain_diagnostic_storage:
  "same_facts (storage_of ev) (storage_of (retain_diagnostic d ev))"
  unfolding same_facts_def retain_diagnostic_def Let_def
  by (intro exI [of _ "[d]"]) simp

lemma run_op_wf:
  assumes "wf_store (storage_of ev)"
  shows "wf_store (storage_of (snd (run_op op ev)))"
proof (cases op)
  case (RecordDiagnostic d)
  have "same_facts (storage_of ev) (storage_of (record_diagnostic d ev))"
    unfolding record_diagnostic_def
    by (rule same_facts_trans [OF retain_diagnostic_storage publish_diagnostics_storage])
  then show ?thesis using wf_store_facts [OF assms] RecordDiagnostic by simp
next
  case (RetainDiagnostic d)
  then show ?thesis using wf_store_facts [OF assms retain_diagnostic_storage] by simp
next
  case PublishDiagnostics
  then show ?thesis using wf_store_facts [OF assms publish_diagnostics_storage] by simp
next
  case (RecordFailure f)
  have "wf_store (storage_of (retain_failure f ev))"
    by (rule quiet_wf [OF assms]) (simp_all add: retain_failure_def)
  then show ?thesis
    using wf_store_facts [OF _ same_facts_report] RecordFailure by (simp add: record_failure_def)
next
  case (RecordSkippedCounts counts)
  then show ?thesis by (simp add: quiet_defs assms quiet_wf [OF assms])
next
  case (RecordNestedCount n)
  then show ?thesis by (simp add: quiet_defs assms quiet_wf [OF assms])
qed (simp_all add: assms quiet_defs quiet_wf [OF assms] record_phase_wf [OF assms] plan_steps_wf [OF assms]
    finish_wf [OF assms] record_extraction_wf [OF assms] record_asset_wf [OF assms]
    record_output_wf [OF assms] open_processing_assets_wf [OF assms]
    plan_archive_finalization_wf [OF assms] open_archive_extraction_def open_archive_finalization_def
    open_attempt_phase_wf [OF assms] begins_at_zero_def)

lemma reachable_wf: "reachable ev \<Longrightarrow> wf_store (storage_of ev)"
proof (induction rule: reachable.induct)
  case (start sink)
  show ?case
    by (simp add: new_evidence_def default_storage_def wf_store_def phases_ok_def attempts_match_def
        phase_progress_def ledger_ok_def planned_ok_def no_planned_work_def finalization_attempts_def)
qed (rule run_op_wf)

subsection \<open>Diagnostics that are not an observer's\<close>

definition reported :: "evidence \<Rightarrow> run_diagnostic list" where
  "reported ev = filter (\<lambda>d. diagnostic_code d \<noteq> ObserverFailed) (diagnostics (storage_of ev))"

lemma reported_report [simp]: "reported (report_safely p item ev) = reported ev"
  by (simp add: report_safely_def retain_observer_failure_def reported_def new_diagnostic_def Let_def
      split: option.split)

lemma reported_publish [simp]: "reported (publish_diagnostics ev) = reported ev"
proof (induction ev rule: publish_diagnostics.induct)
  case (1 ev)
  have "reported (publish_next_diagnostic ev) = reported ev"
    by (simp add: publish_next_diagnostic_def Let_def) (simp add: reported_def)
  then show ?case using 1 by (subst publish_diagnostics.simps) simp
qed

lemma reported_retain [simp]:
  "diagnostic_code d \<noteq> ObserverFailed \<Longrightarrow> reported (retain_diagnostic d ev) = reported ev @ [d]"
  by (simp add: reported_def retain_diagnostic_def Let_def)

lemma reported_record [simp]:
  "diagnostic_code d \<noteq> ObserverFailed \<Longrightarrow> reported (record_diagnostic d ev) = reported ev @ [d]"
  by (simp add: record_diagnostic_def)

lemma record_diagnostic_same: "same_facts (storage_of ev) (storage_of (record_diagnostic d ev))"
  unfolding record_diagnostic_def
  by (rule same_facts_trans [OF retain_diagnostic_storage publish_diagnostics_storage])

lemma reachable_record_diagnostic: "reachable ev \<Longrightarrow> reachable (record_diagnostic d ev)"
  using reachable.step [of ev "RecordDiagnostic d"] by simp

subsection \<open>Rejection\<close>

lemma accept_phase_error: "fst (accept_phase r ev) \<noteq> None \<Longrightarrow> snd (accept_phase r ev) = ev"
  using accept_phase_iff accept_phase_rejected by metis

lemma open_attempt_phase_error:
  "fst (open_attempt_phase r ev) \<noteq> None \<Longrightarrow> snd (open_attempt_phase r ev) = ev"
  by (cases "storage_phase (storage_of ev) (record_of r) = None")
    (simp_all add: open_attempt_phase_def accept_phase_error)

lemma record_phase_error: "fst (record_phase r ev) \<noteq> None \<Longrightarrow> snd (record_phase r ev) = ev"
  by (cases r ev rule: record_phase_cases) (simp_all add: accept_phase_error)

lemma open_processing_error:
  assumes "phases_ok (phases (storage_of ev))" and "fst (open_processing_assets l ev) \<noteq> None"
  shows "snd (open_processing_assets l ev) = ev"
proof (cases l ev rule: open_processing_assets_cases)
  case opened
  let ?u = "update_storage (\<lambda>s. s\<lparr>stored_ledger := Some l\<rparr>) ev"
  note acc = open_processing_assets_opens [OF assms(1) opened(2)]
  have "fst (accept_phase (executed ProcessingAssets (Some (determinate (length (routed_assets l)) 0 0))) ?u) = None"
    unfolding accept_phase_iff using acc(2) acceptable_cong [of "storage_of ?u" "storage_of ev"] by simp
  then show ?thesis using opened(1) acc(1) assms(2) by (simp add: storage_phase_map)
qed

lemma record_attempt_error:
  assumes "phases_ok (phases (storage_of ev))"
  shows "fst (record_attempt_progress extraction_attempt a ev) \<noteq> None \<Longrightarrow>
      snd (record_attempt_progress extraction_attempt a ev) = ev"
    and "fst (record_attempt_progress asset_attempt b ev) \<noteq> None \<Longrightarrow>
      snd (record_attempt_progress asset_attempt b ev) = ev"
    and "fst (record_attempt_progress finalization_attempt c ev) \<noteq> None \<Longrightarrow>
      snd (record_attempt_progress finalization_attempt c ev) = ev"
  using extraction.record_accepted [OF assms] extraction.record_rejected
    asset.record_accepted [OF assms] asset.record_rejected
    finalization.record_accepted [OF assms] finalization.record_rejected
  by (metis fst_conv)+

lemma guarded_error:
  "fst (if c then (Some e, ev) else (None, ev')) \<noteq> None \<Longrightarrow>
     snd (if c then (Some e, ev) else (None, ev')) = ev"
  "fst (if c then (Some e, ev) else if d then (Some e', ev) else (None, ev')) \<noteq> None \<Longrightarrow>
     snd (if c then (Some e, ev) else if d then (Some e', ev) else (None, ev')) = ev"
  by (cases c; simp) (cases c; cases d; simp)

lemma simple_error:
  "fst (record_preparation p ev) \<noteq> None \<Longrightarrow> snd (record_preparation p ev) = ev"
  "fst (record_archive_collisions cs ev) \<noteq> None \<Longrightarrow> snd (record_archive_collisions cs ev) = ev"
  "fst (record_skipped_archive_counts m ev) \<noteq> None \<Longrightarrow> snd (record_skipped_archive_counts m ev) = ev"
  "fst (record_nested_archive_count n ev) \<noteq> None \<Longrightarrow> snd (record_nested_archive_count n ev) = ev"
  "fst (record_planned_extraction x ev) \<noteq> None \<Longrightarrow> snd (record_planned_extraction x ev) = ev"
  "fst (record_output_plan_basis b ev) \<noteq> None \<Longrightarrow> snd (record_output_plan_basis b ev) = ev"
  "fst (record_planned_output out ev) \<noteq> None \<Longrightarrow> snd (record_planned_output out ev) = ev"
  "fst (record_safety_cleanup_failure f ev) \<noteq> None \<Longrightarrow> snd (record_safety_cleanup_failure f ev) = ev"
  "fst (finish_archive_finalization account ev) \<noteq> None \<Longrightarrow> snd (finish_archive_finalization account ev) = ev"
  unfolding quiet_defs record_planned_extraction_def record_output_plan_basis_def
    record_planned_output_def finish_archive_finalization_def Let_def
  by (erule guarded_error)+

lemma run_op_error:
  assumes "wf_store (storage_of ev)" and "fst (run_op op ev) \<noteq> None"
  shows "snd (run_op op ev) = ev"
proof -
  note ok = wf_storeD(1) [OF assms(1)]
  show ?thesis
    using assms(2)
    by (cases op)
      (simp_all only: run_op.simps fst_conv simp_thms record_phase_error open_attempt_phase_error
        open_processing_error [OF ok] record_attempt_error [OF ok] simple_error
        open_archive_extraction_def open_archive_finalization_def
        plan_archive_finalization_wf(2) [OF assms(1)] not_False_eq_True)
qed

end
