(* ===== verification/EvidencePublication.thy ===== *)
theory EvidencePublication
  imports EvidenceRuns "HOL-Library.Sublist"
begin

text \<open>
  What an observation sink sees. The projections of the trace to phases, failures and
  diagnostics are related to the store by an invariant that every operation preserves: facts
  are published in order, at most once, and only after the store holds them. The sealed
  evidence's mutation summaries are related to the effects they sum.
\<close>

fun pub_phase :: "publication \<Rightarrow> run_phase_record option" where
  "pub_phase (PubPhase r) = Some r"
| "pub_phase _ = None"

fun pub_failure :: "publication \<Rightarrow> run_failure option" where
  "pub_failure (PubFailure f) = Some f"
| "pub_failure _ = None"

fun pub_diagnostic :: "publication \<Rightarrow> run_diagnostic option" where
  "pub_diagnostic (PubDiagnostic d) = Some d"
| "pub_diagnostic _ = None"

definition seen_phases :: "evidence \<Rightarrow> run_phase_record list" where
  "seen_phases ev = List.map_filter pub_phase (trace ev)"

definition seen_failures :: "evidence \<Rightarrow> run_failure list" where
  "seen_failures ev = List.map_filter pub_failure (trace ev)"

definition seen_diagnostics :: "evidence \<Rightarrow> run_diagnostic list" where
  "seen_diagnostics ev = List.map_filter pub_diagnostic (trace ev)"

lemmas seen_defs = seen_phases_def seen_failures_def seen_diagnostics_def

text \<open>A later record of the same phase keeps its status and total and never regresses.\<close>

definition progressed :: "run_phase_record \<Rightarrow> run_phase_record \<Rightarrow> bool" where
  "progressed r r' =
     (record_of r' = record_of r \<and> status r' = status r \<and> skip_reason_of r' = skip_reason_of r
      \<and> (\<forall>g. progress r = Some g \<longrightarrow> (\<exists>g'. progress r' = Some g' \<and> total g' = total g
            \<and> progress_succeeded g \<le> progress_succeeded g' \<and> progress_failed g \<le> progress_failed g')))"

lemma progressed_refl [simp]: "progressed r r"
  by (simp add: progressed_def)

lemma progressed_self: "r \<in> A \<Longrightarrow> \<exists>x \<in> A. progressed r x"
  using progressed_refl by blast

lemma progressed_trans: "progressed a b \<Longrightarrow> progressed b c \<Longrightarrow> progressed a c"
  unfolding progressed_def by (metis order_trans)

lemma replacement_progressed:
  assumes "validate_replacement r0 r = None" and "record_of r0 = record_of r"
  shows "progressed r0 r"
  using validate_replacement_None [OF assms(1)] assms(2) by (auto simp: progressed_def)

definition diagnostics_published :: "evidence \<Rightarrow> bool" where
  "diagnostics_published ev =
     (published_diagnostics ev \<le> length (diagnostic_publications ev)
      \<and> sorted_wrt (<) (diagnostic_publications ev)
      \<and> (\<forall>i \<in> set (diagnostic_publications ev). i < length (diagnostics (storage_of ev)))
      \<and> (observations ev \<noteq> None \<longrightarrow>
           seen_diagnostics ev = map ((!) (diagnostics (storage_of ev)))
             (take (published_diagnostics ev) (diagnostic_publications ev))))"

definition phases_published :: "evidence \<Rightarrow> bool" where
  "phases_published ev =
     (sorted (map record_of (seen_phases ev))
      \<and> (\<forall>r \<in> set (seen_phases ev). \<exists>r' \<in> set (phases (storage_of ev)). progressed r r'))"

definition publications_ok :: "evidence \<Rightarrow> bool" where
  "publications_ok ev =
     (diagnostics_published ev \<and> phases_published ev
      \<and> subseq (seen_failures ev) (failures (storage_of ev))
      \<and> (observations ev = None \<longrightarrow> trace ev = []))"

subsection \<open>The sink's call\<close>

lemma report_safely_trace:
  "trace (report_safely p item ev) = trace ev @ (if observations ev = None then [] else [item])"
  by (auto simp: report_safely_def retain_observer_failure_def Let_def split: option.split)

lemma report_safely_diagnostics:
  obtains ds where "diagnostics (storage_of (report_safely p item ev)) = diagnostics (storage_of ev) @ ds"
  using report_safely_storage [of p item ev] by force

lemma diagnostics_published_grow:
  assumes "diagnostics_published ev"
    and "diagnostics (storage_of ev') = diagnostics (storage_of ev) @ ds"
    and "diagnostic_publications ev' = diagnostic_publications ev"
    and "published_diagnostics ev' = published_diagnostics ev"
    and "observations ev' = observations ev" and "seen_diagnostics ev' = seen_diagnostics ev"
  shows "diagnostics_published ev'"
proof -
  let ?taken = "take (published_diagnostics ev) (diagnostic_publications ev)"
  have "map ((!) (diagnostics (storage_of ev) @ ds)) ?taken = map ((!) (diagnostics (storage_of ev))) ?taken"
    using assms(1) by (auto simp: diagnostics_published_def nth_append dest: in_set_takeD)
  then show ?thesis
    using assms by (auto simp: diagnostics_published_def)
qed

text \<open>An update that touches none of the three published lists.\<close>

lemma publications_update:
  assumes "publications_ok ev"
    and "phases (f (storage_of ev)) = phases (storage_of ev)"
    and "failures (f (storage_of ev)) = failures (storage_of ev)"
    and "diagnostics (f (storage_of ev)) = diagnostics (storage_of ev)"
  shows "publications_ok (update_storage f ev)"
  using assms by (simp add: publications_ok_def diagnostics_published_def phases_published_def seen_defs)

lemma publications_report:
  assumes "publications_ok ev" and "pub_diagnostic item = None"
    and "\<And>r. pub_phase item = Some r \<Longrightarrow> r \<in> set (phases (storage_of ev))
          \<and> (\<forall>q \<in> set (seen_phases ev). record_of q \<le> record_of r)"
    and "subseq (seen_failures ev @ (case pub_failure item of None \<Rightarrow> [] | Some f \<Rightarrow> [f])) (failures (storage_of ev))"
  shows "publications_ok (report_safely p item ev)"
proof (cases "observations ev = None")
  case True
  then show ?thesis using assms(1) by (simp add: report_safely_def)
next
  case False
  let ?ev = "report_safely p item ev"
  note tr = report_safely_trace [of p item ev]
  obtain ds where ds: "diagnostics (storage_of ?ev) = diagnostics (storage_of ev) @ ds"
    by (rule report_safely_diagnostics)
  have "diagnostics_published ?ev"
    by (rule diagnostics_published_grow [OF _ ds])
      (use assms(1,2) in \<open>simp_all add: publications_ok_def seen_diagnostics_def tr map_filter_append map_filter_simps\<close>)
  moreover have "phases_published ?ev"
  proof (cases "pub_phase item")
    case None
    then show ?thesis
      using assms(1) by (simp add: publications_ok_def phases_published_def seen_phases_def tr
          map_filter_append map_filter_simps)
  next
    case (Some r)
    then have "seen_phases ?ev = seen_phases ev @ [r]"
      using False by (simp add: seen_phases_def tr map_filter_append map_filter_simps)
    then show ?thesis
      using assms(1) assms(3) [OF Some]
      by (auto simp: publications_ok_def phases_published_def sorted_append simp del: phase_less_simps
          intro: progressed_self)
  qed
  moreover have "subseq (seen_failures ?ev) (failures (storage_of ?ev))"
    using assms(4) False
    by (cases "pub_failure item") (auto simp: seen_failures_def tr map_filter_append map_filter_simps)
  ultimately show ?thesis
    using False unfolding publications_ok_def report_safely_publications report_fields by blast
qed

lemma accept_keeps:
  assumes "phases_ok (phases s)" and "acceptable r s"
  shows "\<forall>q \<in> set (phases s). record_of q \<le> record_of r
      \<and> (\<exists>q' \<in> set (phases_after r s). progressed q q')"
    and "r \<in> set (phases_after r s)"
proof -
  have "(\<forall>q \<in> set (phases s). record_of q \<le> record_of r
      \<and> (\<exists>q' \<in> set (phases_after r s). progressed q q')) \<and> r \<in> set (phases_after r s)"
    using assms(2)
  proof (cases rule: phases_after_cases)
    case (replace ps latest)
    have "\<forall>q \<in> set ps. record_of q < record_of latest"
      using assms(1) replace(1) by (auto simp: phases_ok_def sorted_wrt_append simp del: phase_less_simps)
    moreover have "progressed latest r" by (rule replacement_progressed [OF replace(3,2)])
    ultimately show ?thesis
      using replace by (auto simp del: phase_less_simps intro: progressed_self)
  next
    case (extend ps latest)
    have "\<forall>q \<in> set ps. record_of q < record_of latest"
      using assms(1) extend(1) by (auto simp: phases_ok_def sorted_wrt_append simp del: phase_less_simps)
    then show ?thesis
      using extend by (auto simp del: phase_less_simps intro: progressed_self)
  qed simp
  then show "\<forall>q \<in> set (phases s). record_of q \<le> record_of r
      \<and> (\<exists>q' \<in> set (phases_after r s). progressed q q')"
    and "r \<in> set (phases_after r s)" by blast+
qed

lemma publications_accept:
  assumes "publications_ok ev" and "phases_ok (phases (storage_of ev))"
  shows "publications_ok (snd (accept_phase r ev))"
proof (cases "acceptable r (storage_of ev)")
  case True
  let ?u = "update_storage (\<lambda>s. s\<lparr>phases := phases_after r (storage_of ev)\<rparr>) ev"
  note keeps = accept_keeps [OF assms(2) True]
  have seen: "seen_phases ?u = seen_phases ev" "seen_failures ?u = seen_failures ev"
      "seen_diagnostics ?u = seen_diagnostics ev"
    by (simp_all add: seen_defs)
  have covered: "\<forall>q \<in> set (seen_phases ev). \<exists>q' \<in> set (phases (storage_of ev)). progressed q q'"
    using assms(1) by (simp add: publications_ok_def phases_published_def)
  then have "\<forall>q \<in> set (seen_phases ev). \<exists>q' \<in> set (phases_after r (storage_of ev)). progressed q q'"
    using keeps(1) progressed_trans by meson
  then have "publications_ok ?u"
    using assms(1) by (simp add: publications_ok_def phases_published_def diagnostics_published_def seen)
  moreover have "\<forall>q \<in> set (seen_phases ev). record_of q \<le> record_of r"
    using covered keeps(1) unfolding progressed_def by metis
  ultimately show ?thesis
    unfolding accept_phase_accepted [OF True] snd_conv
    by (intro publications_report)
      (use keeps(2) seen in \<open>auto simp: publications_ok_def simp del: phase_less_simps\<close>)
qed (use assms accept_phase_rejected in simp)

subsection \<open>Every operation\<close>

lemma publications_retain_diagnostic:
  assumes "publications_ok ev"
  shows "publications_ok (retain_diagnostic d ev)"
proof -
  let ?ev = "retain_diagnostic d ev" and ?ds = "diagnostics (storage_of ev)"
  have ev: "diagnostics (storage_of ?ev) = ?ds @ [d]" "trace ?ev = trace ev"
      "diagnostic_publications ?ev = diagnostic_publications ev @ [length ?ds]"
      "published_diagnostics ?ev = published_diagnostics ev" "observations ?ev = observations ev"
      "phases (storage_of ?ev) = phases (storage_of ev)" "failures (storage_of ?ev) = failures (storage_of ev)"
    by (simp_all add: retain_diagnostic_def Let_def)
  have ok: "diagnostics_published ev" using assms by (simp add: publications_ok_def)
  have "map ((!) (?ds @ [d])) (take (published_diagnostics ev) (diagnostic_publications ev))
      = map ((!) ?ds) (take (published_diagnostics ev) (diagnostic_publications ev))"
    using ok by (auto simp: diagnostics_published_def nth_append dest: in_set_takeD)
  then have "diagnostics_published ?ev"
    using ok by (auto simp: diagnostics_published_def ev seen_diagnostics_def sorted_wrt_append)
  then show ?thesis
    using assms by (simp add: publications_ok_def phases_published_def seen_defs ev)
qed

lemma publications_publish_next:
  assumes "publications_ok ev" and "published_diagnostics ev < length (diagnostic_publications ev)"
  shows "publications_ok (publish_next_diagnostic ev)"
proof -
  let ?n = "published_diagnostics ev"
  let ?d = "diagnostics (storage_of ev) ! (diagnostic_publications ev ! ?n)"
  let ?claimed = "ev\<lparr>published_diagnostics := ?n + 1\<rparr>"
  let ?ev = "publish_next_diagnostic ev"
  have ev: "?ev = report_safely (diagnostic_phase ?d) (PubDiagnostic ?d) ?claimed"
    by (simp add: publish_next_diagnostic_def Let_def)
  have tr: "trace ?ev = trace ev @ (if observations ev = None then [] else [PubDiagnostic ?d])"
    unfolding ev report_safely_trace by simp
  obtain ds where ds: "diagnostics (storage_of ?ev) = diagnostics (storage_of ev) @ ds"
    unfolding ev using report_safely_diagnostics [of "diagnostic_phase ?d" "PubDiagnostic ?d" ?claimed] by auto
  have ok: "diagnostics_published ev" using assms(1) by (simp add: publications_ok_def)
  have bound: "\<forall>i \<in> set (diagnostic_publications ev). i < length (diagnostics (storage_of ev))"
    using ok by (simp add: diagnostics_published_def)
  have taken: "take (?n + 1) (diagnostic_publications ev)
      = take ?n (diagnostic_publications ev) @ [diagnostic_publications ev ! ?n]"
    using assms(2) by (simp add: take_Suc_conv_app_nth)
  have "map ((!) (diagnostics (storage_of ev) @ ds)) (take (?n + 1) (diagnostic_publications ev))
      = map ((!) (diagnostics (storage_of ev))) (take ?n (diagnostic_publications ev)) @ [?d]"
    unfolding taken using bound assms(2) by (auto simp: nth_append dest: in_set_takeD)
  then have "diagnostics_published ?ev"
    using ok assms(2) bound
    by (auto simp: diagnostics_published_def ds seen_diagnostics_def tr map_filter_append map_filter_simps
        intro: order_less_le_trans)
  moreover have "phases (storage_of ?ev) = phases (storage_of ev)" "failures (storage_of ?ev) = failures (storage_of ev)"
    unfolding ev by simp_all
  ultimately show ?thesis
    using assms(1)
    by (simp add: publications_ok_def phases_published_def seen_defs tr map_filter_append map_filter_simps)
qed

lemma publications_publish: "publications_ok ev \<Longrightarrow> publications_ok (publish_diagnostics ev)"
proof (induction ev rule: publish_diagnostics.induct)
  case (1 ev)
  then show ?case
    using publications_publish_next by (subst publish_diagnostics.simps) simp
qed

lemma publish_diagnostics_all:
  "published_diagnostics ev \<le> length (diagnostic_publications ev) \<Longrightarrow>
     published_diagnostics (publish_diagnostics ev) = length (diagnostic_publications (publish_diagnostics ev))
     \<and> diagnostic_publications (publish_diagnostics ev) = diagnostic_publications ev"
proof (induction ev rule: publish_diagnostics.induct)
  case (1 ev)
  then show ?case by (subst (1 2 3) publish_diagnostics.simps) auto
qed

lemma publications_retain_failure:
  assumes "publications_ok ev"
  shows "publications_ok (retain_failure f ev)"
  using assms
  by (simp add: publications_ok_def diagnostics_published_def phases_published_def seen_defs
      retain_failure_def list_emb_prefix)

lemma publications_record_failure:
  assumes "publications_ok ev"
  shows "publications_ok (record_failure f ev)"
  unfolding record_failure_def
proof (rule publications_report [OF publications_retain_failure [OF assms]])
  have "subseq (seen_failures ev) (failures (storage_of ev))"
    using assms by (simp add: publications_ok_def)
  then have "subseq (seen_failures ev @ [f]) (failures (storage_of ev) @ [f])" by simp
  then show "subseq (seen_failures (retain_failure f ev)
      @ (case pub_failure (PubFailure f) of None \<Rightarrow> [] | Some f \<Rightarrow> [f])) (failures (storage_of (retain_failure f ev)))"
    by (simp add: retain_failure_def seen_failures_def)
qed simp_all

lemma publications_record_phase:
  "publications_ok ev \<Longrightarrow> phases_ok (phases (storage_of ev)) \<Longrightarrow> publications_ok (snd (record_phase r ev))"
  by (cases r ev rule: record_phase_cases) (simp_all add: publications_accept)

lemma publications_open:
  "publications_ok ev \<Longrightarrow> phases_ok (phases (storage_of ev)) \<Longrightarrow> publications_ok (snd (open_attempt_phase r ev))"
  by (simp add: open_attempt_phase_def publications_accept)

lemma publications_open_processing:
  assumes "publications_ok ev" and "phases_ok (phases (storage_of ev))"
  shows "publications_ok (snd (open_processing_assets l ev))"
proof (cases l ev rule: open_processing_assets_cases)
  case opened
  let ?u = "update_storage (\<lambda>s. s\<lparr>stored_ledger := Some l\<rparr>) ev"
  have "publications_ok ?u" by (rule publications_update [OF assms(1)]) simp_all
  then have "publications_ok (snd (accept_phase
      (executed ProcessingAssets (Some (determinate (length (routed_assets l)) 0 0))) ?u))"
    by (rule publications_accept) (simp add: assms(2))
  then show ?thesis
    using opened(1) open_processing_assets_opens(1) [OF assms(2) opened(2)] by (simp add: storage_phase_map)
qed (use assms in simp)

lemma publications_plan:
  assumes "publications_ok ev" and "phases_ok (phases (storage_of ev))"
  shows "publications_ok (snd (plan_archive_finalization n ev))"
proof (cases n ev rule: plan_archive_finalization_cases)
  case (accepted r)
  let ?u = "update_storage (\<lambda>s. s\<lparr>archive_finalization_of := Some default_finalization_result\<rparr>) ev"
  have "publications_ok ?u" by (rule publications_update [OF assms(1)]) simp_all
  then have "publications_ok (snd (accept_phase
      (executed ArchiveFinalization (Some (determinate n 0 0))) ?u))"
    by (rule publications_accept) (simp add: assms(2))
  then show ?thesis using accepted(1) by simp
qed (use assms in simp)

lemma publications_attempt:
  assumes "publications_ok ev" and "phases_ok (phases (storage_of ev))"
    and retained: "phases (retain T a (storage_of ev)) = phases (storage_of ev)"
      "failures (retain T a (storage_of ev)) = failures (storage_of ev)"
      "diagnostics (retain T a (storage_of ev)) = diagnostics (storage_of ev)"
  shows "publications_ok (snd (record_attempt_progress T a ev))"
proof -
  have "publications_ok (update_storage (retain T a) ev)"
    using assms(1) retained by (rule publications_update)
  then have "publications_ok (snd (accept_phase r (update_storage (retain T a) ev)))" for r
    by (rule publications_accept) (simp add: assms(2) retained)
  then show ?thesis
    using assms(1) by (simp add: record_attempt_progress_def Let_def split: option.split)
qed

lemma retain_publishes:
  "phases (retain extraction_attempt a s) = phases s" "failures (retain extraction_attempt a s) = failures s"
  "diagnostics (retain extraction_attempt a s) = diagnostics s"
  "phases (retain asset_attempt b s) = phases s" "failures (retain asset_attempt b s) = failures s"
  "diagnostics (retain asset_attempt b s) = diagnostics s"
  "phases (retain finalization_attempt c s) = phases s" "failures (retain finalization_attempt c s) = failures s"
  "diagnostics (retain finalization_attempt c s) = diagnostics s"
  by (simp_all add: extraction_attempt_def asset_attempt_def finalization_attempt_def Let_def)

lemma publications_guarded:
  assumes "publications_ok ev" and "publications_ok ev'"
  shows "publications_ok (snd (if c then (Some e, ev) else (None, ev')))"
    and "publications_ok (snd (if c then (Some e, ev) else if d then (Some e', ev) else (None, ev')))"
  using assms by simp_all

lemma publications_simple:
  assumes "publications_ok ev"
  shows "publications_ok (snd (record_preparation p ev))"
    "publications_ok (snd (record_archive_collisions cs ev))"
    "publications_ok (snd (record_skipped_archive_counts m ev))"
    "publications_ok (snd (record_nested_archive_count n ev))"
    "publications_ok (snd (record_planned_extraction x ev))"
    "publications_ok (snd (record_output_plan_basis b ev))"
    "publications_ok (snd (record_planned_output out ev))"
    "publications_ok (snd (record_safety_cleanup_failure f ev))"
    "publications_ok (snd (finish_archive_finalization account ev))"
    "publications_ok (record_cancellation_observation ev)"
  unfolding quiet_defs record_planned_extraction_def record_output_plan_basis_def
    record_planned_output_def finish_archive_finalization_def Let_def
  by (intro publications_guarded assms publications_update; simp)+

lemma run_op_publications:
  assumes "publications_ok ev" and "wf_store (storage_of ev)"
  shows "publications_ok (snd (run_op op ev))"
proof -
  note ok = wf_storeD(1) [OF assms(2)]
  show ?thesis
    by (cases op)
      (simp_all only: run_op.simps snd_conv publications_record_phase [OF assms(1) ok]
        publications_simple [OF assms(1)] publications_record_failure [OF assms(1)]
        publications_retain_failure [OF assms(1)] publications_retain_diagnostic [OF assms(1)]
        publications_publish publications_publish [OF assms(1)] record_diagnostic_def
        publications_open [OF assms(1) ok] open_archive_extraction_def open_archive_finalization_def
        publications_open_processing [OF assms(1) ok] publications_plan [OF assms(1) ok]
        publications_attempt [OF assms(1) ok] retain_publishes)
qed

lemma reachable_publications: "reachable ev \<Longrightarrow> publications_ok ev"
proof (induction rule: reachable.induct)
  case (start sink)
  show ?case
    by (simp add: new_evidence_def default_storage_def publications_ok_def diagnostics_published_def
        phases_published_def seen_defs map_filter_simps)
next
  case (step ev op)
  then show ?case using run_op_publications reachable_wf by blast
qed

subsection \<open>Mutation summaries\<close>

definition effect_total :: "mutation_state \<Rightarrow> path \<times> mutation_kind \<Rightarrow> effect list \<Rightarrow> nat" where
  "effect_total m k effects = (\<Sum>(k', m', n) \<leftarrow> effects. if k' = k \<and> m' = m then n else 0)"

definition affected :: "effect list \<Rightarrow> path \<times> mutation_kind \<Rightarrow> bool" where
  "affected effects k = list_ex (\<lambda>(k', m, _). k' = k \<and> m \<noteq> MNone) effects"

definition summary_of :: "effect list \<Rightarrow> path \<times> mutation_kind \<Rightarrow> mutation_summary" where
  "summary_of effects k =
     \<lparr>summary_root = fst k, summary_kind = snd k, committed = effect_total MCommitted k effects,
      partial_or_unknown = effect_total MPartialOrUnknown k effects\<rparr>"

lemma unaffected_total:
  "\<not> affected effects k \<Longrightarrow> m \<noteq> MNone \<Longrightarrow> effect_total m k effects = 0"
  by (induction effects) (auto simp: affected_def effect_total_def split: if_splits)

lemma effect_total_snoc:
  "effect_total m k (effects @ [(k', m', n)]) = effect_total m k effects + (if k' = k \<and> m' = m then n else 0)"
  by (simp add: effect_total_def)

lemma affected_snoc:
  "affected (effects @ [(k', m', n)]) k \<longleftrightarrow> affected effects k \<or> (k' = k \<and> m' \<noteq> MNone)"
  by (simp add: affected_def)

lemma grouped:
  "sorted_wrt (<) (map fst (fold group_effect effects []))
   \<and> map_of (fold group_effect effects [])
       = (\<lambda>k. if affected effects k then Some (summary_of effects k) else None)"
proof (induction effects rule: rev_induct)
  case Nil
  then show ?case by (simp add: affected_def fun_eq_iff)
next
  case (snoc e effects)
  obtain root kind m n where e: "e = ((root, kind), m, n)" by (metis prod.exhaust)
  let ?m = "fold group_effect effects []" and ?k = "(root, kind)"
  show ?case
  proof (cases "m = MNone")
    case True
    then have "summary_of (effects @ [e]) = summary_of effects" "affected (effects @ [e]) = affected effects"
      by (auto simp: fun_eq_iff summary_of_def e effect_total_snoc affected_snoc)
    then show ?thesis using snoc True by (simp add: e fun_eq_iff)
  next
    case False
    then have m: "m = MCommitted \<or> m = MPartialOrUnknown" by (cases m) simp_all
    have zero: "\<not> affected effects ?k \<Longrightarrow> effect_total MCommitted ?k effects = 0"
        "\<not> affected effects ?k \<Longrightarrow> effect_total MPartialOrUnknown ?k effects = 0"
      by (rule unaffected_total; simp)+
    from m show ?thesis
      by (elim disjE)
        (use snoc zero in \<open>auto simp: e sorted_entry_modify map_of_entry_modify fun_eq_iff summary_of_def
           effect_total_snoc affected_snoc\<close>)
  qed
qed

lemma derived_keys:
  "map (\<lambda>x. (summary_root x, summary_kind x)) (derive_mutation_summaries s)
     = map fst (fold group_effect (mutation_effects s) [])"
proof -
  let ?m = "fold group_effect (mutation_effects s) []"
  have dist: "distinct (map fst ?m)"
    using grouped strict_sorted_iff by blast
  have "(summary_root x, summary_kind x) = k" if "(k, x) \<in> set ?m" for k x
  proof -
    have "map_of ?m k = Some x" using that dist by simp
    then have "x = summary_of (mutation_effects s) k"
      using grouped [of "mutation_effects s"] by (simp split: if_splits)
    then show ?thesis by (simp add: summary_of_def)
  qed
  then show ?thesis
    unfolding derive_mutation_summaries_def map_map by (intro map_cong) auto
qed

lemma derived_set:
  "set (derive_mutation_summaries s)
     = summary_of (mutation_effects s) ` {k. affected (mutation_effects s) k}"
proof -
  let ?m = "fold group_effect (mutation_effects s) []"
  have dist: "distinct (map fst ?m)"
    using grouped strict_sorted_iff by blast
  have member: "(k, x) \<in> set ?m \<longleftrightarrow> affected (mutation_effects s) k \<and> x = summary_of (mutation_effects s) k" for k x
  proof -
    have "(k, x) \<in> set ?m \<longleftrightarrow> map_of ?m k = Some x" using dist by simp
    also have "\<dots> \<longleftrightarrow> affected (mutation_effects s) k \<and> x = summary_of (mutation_effects s) k"
      using grouped [of "mutation_effects s"] by auto
    finally show ?thesis .
  qed
  have "snd ` set ?m = {x. \<exists>k. (k, x) \<in> set ?m}" by force
  then show ?thesis unfolding derive_mutation_summaries_def set_map member by blast
qed

subsection \<open>A run of operations\<close>

definition run_ops :: "evidence_op list \<Rightarrow> evidence \<Rightarrow> evidence" where
  "run_ops ops ev = fold (\<lambda>op ev. snd (run_op op ev)) ops ev"

lemma reachable_run_ops: "reachable ev \<Longrightarrow> reachable (run_ops ops ev)"
  unfolding run_ops_def by (induction ops arbitrary: ev) (simp_all add: reachable.step)

definition demo_root :: path where
  "demo_root = [Prefix ''C:'', RootDir, Normal ''mods'', Normal ''A'']"

definition demo_asset :: routed_asset where
  "demo_asset =
     \<lparr>execution_path = demo_root @ [Normal ''a.dds''], asset_identity = IdTexture Native,
      asset_phase = LooseAssetProcessing, asset_target = TTexture, asset_mode = Apply,
      asset_ops = [False, True, False, False]\<rparr>"

definition demo_attempt :: routed_asset_attempt where
  "demo_attempt =
     \<lparr>attempt_root = demo_root, attempt_asset = demo_asset,
      attempt_result = \<lparr>asset_outcome = Succeeded CCommitted, affected_path = [],
        result_operation = [], service_detail = [], result_cleanup_failures = []\<rparr>\<rparr>"

text \<open>A sink that panics on every diagnostic.\<close>

definition demo_sink :: sink where
  "demo_sink seen item = (case item of PubDiagnostic _ \<Rightarrow> Some ''observer'' | _ \<Rightarrow> None)"

definition demo_ops :: "evidence_op list" where
  "demo_ops =
     [RecordExecuted Preparing None, RecordExecuted DiscoveringArchives None,
      RecordSkippedCounts Map.empty, OpenExtraction 0,
      RecordExecuted BuildingEffectiveAssetTree None, RecordNestedCount 0,
      OpenProcessing \<lparr>routed_assets = [demo_asset, demo_asset], skipped_asset_counts = Map.empty\<rparr>,
      RecordDiagnostic (new_diagnostic PluginUnreadable ProcessingAssets ''plugin''),
      RecordAsset demo_attempt]"

definition demo_evidence :: evidence where
  "demo_evidence = run_ops demo_ops (new_evidence (Some demo_sink))"

lemma demo_reachable: "reachable demo_evidence"
  unfolding demo_evidence_def by (rule reachable_run_ops [OF reachable.start])

lemma validate_progress_None:
  "validate_progress r = None \<longleftrightarrow>
     (case progress r of None \<Rightarrow> True | Some g \<Rightarrow> completed g \<le> total g)"
  by (auto simp: validate_progress_def split: option.split)

subsection \<open>Properties\<close>

text \<open>
  C1: Whatever producers do, the store's accounts agree with its facts. Phases are recorded in
  canonical order, each once, beginning at Preparing (or at Safety Cleanup when scheduling
  failed); no progress exceeds its total; and the progress of each attempt-bearing phase counts
  exactly the successes and failures in that phase's own list of attempts, against the ledger's
  routed total for Processing Assets.
\<close>

theorem evidence_accounts_agree:
  assumes "reachable ev" and "s = storage_of ev"
  shows "sorted_wrt (<) (map record_of (phases s))
    \<and> (phases s = [] \<or> record_of (hd (phases s)) \<in> {Preparing, SafetyCleanup})
    \<and> list_all (\<lambda>r. case progress r of None \<Rightarrow> True | Some g \<Rightarrow> completed g \<le> total g) (phases s)
    \<and> attempts_match extraction_attempt archive_extraction_attempts s
    \<and> attempts_match asset_attempt asset_attempts s
    \<and> attempts_match finalization_attempt finalization_attempts s
    \<and> map_option total (phase_progress (phases s) ProcessingAssets)
        = map_option (\<lambda>l. length (routed_assets l)) (stored_ledger s)"
proof -
  have wf: "wf_store s" unfolding assms(2) by (rule reachable_wf [OF assms(1)])
  have "map_option total (phase_progress (phases s) ProcessingAssets)
        = map_option (\<lambda>l. length (routed_assets l)) (stored_ledger s)"
    using wf_storeD(5) [OF wf] by (auto simp: ledger_ok_def split: option.splits)
  then show ?thesis
    using wf_storeD [OF wf] by (auto simp: phases_ok_def list_all_iff validate_progress_None)
qed

theorem evidence_accounts_agree_witness:
  "attempts_match asset_attempt asset_attempts (storage_of demo_evidence)
   \<and> phase_progress (phases (storage_of demo_evidence)) ProcessingAssets = Some (determinate 2 1 0)"
proof -
  have "phase_progress (phases (storage_of demo_evidence)) ProcessingAssets = Some (determinate 2 1 0)"
    by code_simp
  then show ?thesis using evidence_accounts_agree [OF demo_reachable refl] by simp
qed

text \<open>
  C2: A rejected recording step retains nothing: whenever a step reports an invariant violation,
  the evidence, its publications included, is exactly what it was before the step.
\<close>

theorem rejected_step_retains_nothing:
  assumes "reachable ev" and "fst (run_op op ev) \<noteq> None"
  shows "snd (run_op op ev) = ev"
  using assms by (intro run_op_error reachable_wf)

theorem rejected_step_retains_nothing_witness:
  "snd (run_op (RecordExecuted ProcessingAssets None) demo_evidence) = demo_evidence"
proof (rule rejected_step_retains_nothing [OF demo_reachable])
  show "fst (run_op (RecordExecuted ProcessingAssets None) demo_evidence) \<noteq> None" by code_simp
qed

text \<open>
  An Asset attempt is accepted exactly while Processing Assets is the current, executed phase
  and its routed total is not yet complete. It is then appended to the Asset attempts and the
  progress advances by exactly one success or one failure; otherwise nothing changes.
\<close>

theorem asset_attempt_accepted_iff:
  assumes "reachable ev" and "ev' = snd (record_attempt_progress asset_attempt a ev)"
  shows "(fst (record_attempt_progress asset_attempt a ev) = None \<longleftrightarrow>
      (\<exists>g. is_open asset_attempt (storage_of ev) g \<and> completed g < total g))
    \<and> (if fst (record_attempt_progress asset_attempt a ev) = None
       then asset_attempts (storage_of ev') = asset_attempts (storage_of ev) @ [a]
         \<and> map_option completed (phase_progress (phases (storage_of ev')) ProcessingAssets)
           = map_option (\<lambda>g. completed g + 1) (phase_progress (phases (storage_of ev)) ProcessingAssets)
       else ev' = ev)"
proof (cases "\<exists>g. is_open asset_attempt (storage_of ev) g \<and> completed g < total g")
  case True
  then obtain g where g: "is_open asset_attempt (storage_of ev) g" "completed g < total g" by blast
  note ok = wf_storeD(1) [OF reachable_wf [OF assms(1)]]
  show ?thesis
    using asset.record_keeps(1) [OF ok g, of a] asset.record_accepted [OF ok g, of a]
      asset.record_progress(1) [OF ok g, of a ProcessingAssets] asset.open_progress [OF ok g(1)] True
    by (cases "attempt_succeeded asset_attempt a") (simp_all add: assms(2) advanced_def completed_def)
next
  case False
  then show ?thesis using asset.record_rejected [OF False, of a] by (auto simp: assms(2))
qed

theorem asset_attempt_accepted_iff_witness:
  "asset_attempts (storage_of (snd (record_attempt_progress asset_attempt demo_attempt demo_evidence)))
     = [demo_attempt, demo_attempt]"
proof -
  have "fst (record_attempt_progress asset_attempt demo_attempt demo_evidence) = None" by code_simp
  moreover have "asset_attempts (storage_of demo_evidence) = [demo_attempt]" by code_simp
  ultimately show ?thesis
    using asset_attempt_accepted_iff [OF demo_reachable refl, of demo_attempt] by simp
qed

text \<open>
  C3: An observation sink sees facts only once the store holds them. Its diagnostics are the
  claimed ones of the store, each once and in the order they were retained, even when the sink
  panics on them; its failures are a subsequence of the store's failures; and its phase records
  come in canonical order, each still held by the store with the same status and total and no
  smaller progress. After a publication step no retained diagnostic is left unpublished.
\<close>

theorem sink_sees_retained_facts_once:
  assumes "reachable ev" and "observations ev \<noteq> None"
  shows "seen_diagnostics ev = map ((!) (diagnostics (storage_of ev)))
             (take (published_diagnostics ev) (diagnostic_publications ev))
    \<and> sorted_wrt (<) (diagnostic_publications ev)
    \<and> subseq (seen_failures ev) (failures (storage_of ev))
    \<and> sorted (map record_of (seen_phases ev))
    \<and> (\<forall>r \<in> set (seen_phases ev). \<exists>r' \<in> set (phases (storage_of ev)). progressed r r')
    \<and> published_diagnostics (publish_diagnostics ev) = length (diagnostic_publications ev)"
  using reachable_publications [OF assms(1)] publish_diagnostics_all [of ev] assms(2)
  by (simp add: publications_ok_def diagnostics_published_def phases_published_def)

theorem sink_sees_retained_facts_once_witness:
  "seen_diagnostics demo_evidence = [new_diagnostic PluginUnreadable ProcessingAssets ''plugin'']
   \<and> length (diagnostics (storage_of demo_evidence)) = 2"
proof -
  have "case observations demo_evidence of None \<Rightarrow> False | Some _ \<Rightarrow> True" by code_simp
  then have "observations demo_evidence \<noteq> None" by (auto split: option.splits)
  moreover have "map ((!) (diagnostics (storage_of demo_evidence)))
             (take (published_diagnostics demo_evidence) (diagnostic_publications demo_evidence))
       = [new_diagnostic PluginUnreadable ProcessingAssets ''plugin'']" by code_simp
  moreover have "length (diagnostics (storage_of demo_evidence)) = 2" by code_simp
  ultimately show ?thesis using sink_sees_retained_facts_once [OF demo_reachable] by simp
qed

text \<open>
  Planned Archive Work and attempts exclude each other. When a Dry Run has recorded a planned
  extraction, no extraction was attempted and none can be accepted; when it has recorded an
  output plan, no output was attempted, and every planned output follows its recorded basis.
\<close>

theorem planned_work_never_attempted:
  assumes "reachable ev" and "s = storage_of ev"
  shows "(extractions (planned_work s) \<noteq> [] \<longrightarrow> archive_extraction_attempts s = []
            \<and> fst (record_attempt_progress extraction_attempt a ev) \<noteq> None)
    \<and> (output_basis (planned_work s) \<noteq> None \<longrightarrow> finalization_attempts s = []
            \<and> fst (record_attempt_progress finalization_attempt b ev) \<noteq> None)
    \<and> (outputs (planned_work s) \<noteq> [] \<longrightarrow> output_basis (planned_work s) \<noteq> None)"
proof -
  have wf: "wf_store s" unfolding assms(2) by (rule reachable_wf [OF assms(1)])
  note wfs = wf_storeD [OF wf]
  have none: "phase_progress (phases s) p = None" if "planned_at s p" for p
    using that by (auto simp: planned_at_def phase_progress_def)
  have "archive_extraction_attempts s = []
      \<and> fst (record_attempt_progress extraction_attempt a ev) \<noteq> None" if "planned_at s ExtractingArchives"
    using none [OF that] wfs(2) extraction.open_progress [OF wfs(1)] extraction.record_rejected [of ev a]
    by (auto simp: attempts_match_def assms(2))
  moreover have "finalization_attempts s = []
      \<and> fst (record_attempt_progress finalization_attempt b ev) \<noteq> None" if "planned_at s ArchiveFinalization"
    using none [OF that] wfs(4) finalization.open_progress [OF wfs(1)] finalization.record_rejected [of ev b]
    by (auto simp: attempts_match_def assms(2))
  ultimately show ?thesis using wfs(6) unfolding planned_ok_def by blast
qed

definition demo_planned :: evidence where
  "demo_planned = run_ops
     [RecordExecuted Preparing None, RecordExecuted DiscoveringArchives None, RecordPlanned ExtractingArchives,
      RecordPlannedExtraction \<lparr>planned_archive = demo_root @ [Normal ''a.bsa''], planned_root = demo_root,
        entry_count = 2, winner_count = 1, planned_capacity = 4096, deletes_source_archive = False\<rparr>]
     (new_evidence None)"

theorem planned_work_never_attempted_witness:
  "archive_extraction_attempts (storage_of demo_planned) = []
   \<and> length (extractions (planned_work (storage_of demo_planned))) = 1"
proof -
  have "reachable demo_planned"
    unfolding demo_planned_def by (rule reachable_run_ops [OF reachable.start])
  moreover have one: "length (extractions (planned_work (storage_of demo_planned))) = 1" by code_simp
  ultimately show ?thesis using planned_work_never_attempted [OF _ refl] by force
qed

text \<open>
  C4: Sealing derives exactly one summary for each Mod Root and kind that some effect mutated,
  ordered by Mod Root and kind. Its counts are the sums of the committed and of the partial or
  unknown effects of that key, over every completed attempt of the three kinds, each counting
  once, and every finalization effect with its recorded count.
\<close>

theorem sealed_summaries_sum_effects:
  assumes "consume ev = Ok sealed"
  shows "sorted_wrt (<) (map (\<lambda>x. (summary_root x, summary_kind x)) (mutation_summaries sealed))
    \<and> set (mutation_summaries sealed) = summary_of (mutation_effects (storage_of ev)) `
        {k. affected (mutation_effects (storage_of ev)) k}
    \<and> cleanup_failures sealed =
        concat (map (\<lambda>a. result_cleanup_failures (attempt_result a)) (asset_attempts (storage_of ev)))
        @ safety_cleanup_failures (storage_of ev)
    \<and> evidence_skipped_count sealed reason = storage_skipped_count (storage_of ev) reason"
proof -
  let ?s = "storage_of ev"
  have sealed: "mutation_summaries sealed = derive_mutation_summaries ?s"
    "cleanup_failures sealed =
        List.maps (\<lambda>a. result_cleanup_failures (attempt_result a)) (asset_attempts ?s) @ safety_cleanup_failures ?s"
    "skipped_counts sealed = map_of (filter (\<lambda>(_, n). n \<noteq> 0)
        (map (\<lambda>reason. (reason, storage_skipped_count ?s reason)) all_skip_reasons))"
    using assms by (auto simp: consume_def Let_def split: if_splits)
  have "evidence_skipped_count sealed reason = storage_skipped_count ?s reason"
    unfolding evidence_skipped_count_def sealed all_skip_reasons_def by (cases reason) simp_all
  then show ?thesis
    using derived_set grouped [of "mutation_effects ?s"]
    by (simp add: sealed derived_keys)
qed

definition demo_sealed :: "error + storage" where
  "demo_sealed = consume (snd (run_op (RecordExecuted SafetyCleanup None) demo_evidence))"

theorem sealed_summaries_sum_effects_witness:
  "\<exists>sealed. demo_sealed = Ok sealed
     \<and> map committed (mutation_summaries sealed) = [1] \<and> cleanup_failures sealed = []"
proof -
  let ?ev = "snd (run_op (RecordExecuted SafetyCleanup None) demo_evidence)"
  have "case demo_sealed of Inl _ \<Rightarrow> False | Inr s \<Rightarrow> map committed (mutation_summaries s) = [1]" by code_simp
  then obtain sealed where sealed: "consume ?ev = Ok sealed" "map committed (mutation_summaries sealed) = [1]"
    by (auto simp: demo_sealed_def split: sum.splits)
  have "concat (map (\<lambda>a. result_cleanup_failures (attempt_result a)) (asset_attempts (storage_of ?ev)))
        @ safety_cleanup_failures (storage_of ?ev) = []" by code_simp
  then show ?thesis
    using sealed sealed_summaries_sum_effects [OF sealed(1)] by (auto simp: demo_sealed_def)
qed

end
