(* ===== verification/Capacity.thy ===== *)
theory Capacity
  imports Lifecycle
begin

text \<open>
  The Capacity Check (\<open>run/capacity.rs\<close>): the demand of a run's Archive work per Mod Root, the
  volume identities frozen for the run, the first shortage of a demand, and what a shortage means
  at each stage. The volume probe is the Win32 side of the program: a parameter whose answers may
  change from call to call, \<open>None\<close> standing for a panicking query. The number of calls made so
  far is part of the state; the \<open>Mutex\<close> of the frozen identities is held for single reads and
  writes only, so it does not appear.
\<close>

record demand =
  demand_roots :: "(path \<times> u64) list"
  demand_total :: u64

definition empty_demand :: demand where
  "empty_demand = \<lparr>demand_roots = [], demand_total = 0\<rparr>"

fun add_bytes :: "path \<Rightarrow> u64 \<Rightarrow> (path \<times> u64) list \<Rightarrow> (path \<times> u64) list" where
  "add_bytes root bytes [] = [(root, bytes)]"
| "add_bytes root bytes ((added, d) # rest) =
     (if added = root then (added, saturating_add d bytes) # rest
      else (added, d) # add_bytes root bytes rest)"

definition demand_add :: "path \<Rightarrow> u64 \<Rightarrow> demand \<Rightarrow> demand" where
  "demand_add root bytes d =
     d\<lparr>demand_total := saturating_add (demand_total d) bytes,
       demand_roots := add_bytes root bytes (demand_roots d)\<rparr>"

datatype capacity_stage = BeforeExtraction | BeforeCreation | Recheck

datatype capacity_verdict =
    Fits
  | FailRun run_failure
  | FailWork capacity_shortage
  | Warn run_diagnostic

record volume_probe =
  probe_available :: "nat \<Rightarrow> path \<Rightarrow> u64 option option"
  probe_volume :: "nat \<Rightarrow> path \<Rightarrow> string option option"

record capacity_state =
  frozen :: "path \<rightharpoonup> string option"
  probe_calls :: nat

text \<open>A panicking query is an unknown answer.\<close>

definition contained_probe :: "'a option option \<Rightarrow> 'a option" where
  "contained_probe answer = (case answer of None \<Rightarrow> None | Some a \<Rightarrow> a)"

definition volume_identity ::
    "volume_probe \<Rightarrow> path \<Rightarrow> capacity_state \<Rightarrow> string option \<times> capacity_state" where
  "volume_identity probe root st =
     (case frozen st root of
        Some v \<Rightarrow> (v, st)
      | None \<Rightarrow>
          let v = contained_probe (probe_volume probe (probe_calls st) root)
          in (v, st\<lparr>frozen := (frozen st)(root \<mapsto> v), probe_calls := probe_calls st + 1\<rparr>))"

definition available_bytes ::
    "volume_probe \<Rightarrow> path \<Rightarrow> capacity_state \<Rightarrow> u64 option \<times> capacity_state" where
  "available_bytes probe root st =
     (contained_probe (probe_available probe (probe_calls st) root),
      st\<lparr>probe_calls := probe_calls st + 1\<rparr>)"

fun required_loop ::
    "volume_probe \<Rightarrow> u64 \<Rightarrow> string \<Rightarrow> (path \<times> u64) list \<Rightarrow> u64 \<Rightarrow> capacity_state \<Rightarrow> u64 \<times> capacity_state"
  where
  "required_loop probe whole volume [] required st = (required, st)"
| "required_loop probe whole volume ((other, bytes) # rest) required st =
     (if bytes = 0 then required_loop probe whole volume rest required st
      else
        let (v, st') = volume_identity probe other st
        in case v of
             None \<Rightarrow> (whole, st')
           | Some other_volume \<Rightarrow>
               required_loop probe whole volume rest
                 (if other_volume = volume then saturating_add required bytes else required) st')"

definition sole_demand :: "demand \<Rightarrow> path \<Rightarrow> bool" where
  "sole_demand d root = list_all (\<lambda>(other, bytes). bytes = 0 \<or> other = root) (demand_roots d)"

definition required_at ::
    "volume_probe \<Rightarrow> demand \<Rightarrow> path \<Rightarrow> capacity_state \<Rightarrow> u64 \<times> capacity_state" where
  "required_at probe d root st =
     (if sole_demand d root then (demand_total d, st)
      else
        let (v, st') = volume_identity probe root st
        in case v of
             None \<Rightarrow> (demand_total d, st')
           | Some volume \<Rightarrow> required_loop probe (demand_total d) volume (demand_roots d) 0 st')"

definition shortage_at ::
    "volume_probe \<Rightarrow> demand \<Rightarrow> path \<Rightarrow> capacity_state \<Rightarrow> capacity_shortage option \<times> capacity_state" where
  "shortage_at probe d root st =
     (let (required, st1) = required_at probe d root st;
          (available, st2) = available_bytes probe root st1
      in case available of
           None \<Rightarrow> (None, st2)
         | Some a \<Rightarrow>
             if a < required
             then (Some \<lparr>shortage_root = root, shortage_required = required, shortage_available = a\<rparr>, st2)
             else (None, st2))"

fun shortage_loop ::
    "volume_probe \<Rightarrow> demand \<Rightarrow> (path \<times> u64) list \<Rightarrow> capacity_state
       \<Rightarrow> capacity_shortage option \<times> capacity_state" where
  "shortage_loop probe d [] st = (None, st)"
| "shortage_loop probe d ((root, bytes) # rest) st =
     (if bytes = 0 then shortage_loop probe d rest st
      else case shortage_at probe d root st of
             (Some s, st') \<Rightarrow> (Some s, st')
           | (None, st') \<Rightarrow> shortage_loop probe d rest st')"

definition first_shortage ::
    "volume_probe \<Rightarrow> demand \<Rightarrow> capacity_state \<Rightarrow> capacity_shortage option \<times> capacity_state" where
  "first_shortage probe d st = shortage_loop probe d (demand_roots d) st"

definition shortage_warning :: "run_phase \<Rightarrow> string option \<Rightarrow> capacity_shortage \<Rightarrow> run_diagnostic" where
  "shortage_warning p volume s =
     (new_diagnostic CapacityShortageDiagnostic p
        (''Capacity shortage: an Apply run would need an estimated '' @ show_nat (unat (shortage_required s))
         @ '' bytes on ''
         @ (case volume of Some v \<Rightarrow> ''volume '' @ v | None \<Rightarrow> ''the volume holding this Mod Root'')
         @ '', but '' @ show_nat (unat (shortage_available s))
         @ '' bytes are available, so it would fail its Capacity ''
         @ ''Check. The Dry Run itself needs no space.''))
     \<lparr>diagnostic_path := shortage_root s, diagnostic_shortage := Some s\<rparr>"

definition warning ::
    "volume_probe \<Rightarrow> run_phase \<Rightarrow> capacity_shortage \<Rightarrow> capacity_state \<Rightarrow> run_diagnostic \<times> capacity_state" where
  "warning probe p s st =
     (let (volume, st') = volume_identity probe (shortage_root s) st
      in (shortage_warning p volume s, st'))"

definition insufficient_capacity :: "capacity_shortage \<Rightarrow> run_failure" where
  "insufficient_capacity s =
     (new_run_failure ArchiveInsufficientCapacity DiscoveringArchives (show_shortage s))
     \<lparr>failure_path := shortage_root s, run_failure_shortage := Some s\<rparr>"

definition verdict ::
    "volume_probe \<Rightarrow> execution_mode \<Rightarrow> capacity_stage \<Rightarrow> capacity_shortage option \<Rightarrow> capacity_state
       \<Rightarrow> capacity_verdict \<times> capacity_state" where
  "verdict probe mode stage shortage st =
     (case shortage of
        None \<Rightarrow> (Fits, st)
      | Some s \<Rightarrow>
          (case (stage, mode) of
             (BeforeExtraction, Apply) \<Rightarrow> (FailRun (insufficient_capacity s), st)
           | (BeforeExtraction, DryRun) \<Rightarrow> apfst Warn (warning probe DiscoveringArchives s st)
           | (BeforeCreation, DryRun) \<Rightarrow> apfst Warn (warning probe ArchiveFinalization s st)
           | (BeforeCreation, Apply) \<Rightarrow> (FailWork s, st)
           | (Recheck, _) \<Rightarrow> (FailWork s, st)))"

definition capacity_check ::
    "volume_probe \<Rightarrow> execution_mode \<Rightarrow> capacity_stage \<Rightarrow> demand \<Rightarrow> capacity_state
       \<Rightarrow> capacity_verdict \<times> capacity_state" where
  "capacity_check probe mode stage d st =
     (let (s, st') = first_shortage probe d st in verdict probe mode stage s st')"

definition check_at ::
    "volume_probe \<Rightarrow> execution_mode \<Rightarrow> capacity_stage \<Rightarrow> demand \<Rightarrow> path \<Rightarrow> capacity_state
       \<Rightarrow> capacity_verdict \<times> capacity_state" where
  "check_at probe mode stage d root st =
     (let (s, st') = shortage_at probe d root st in verdict probe mode stage s st')"

text \<open>The \<open>unreachable!\<close> of the source is \<open>None\<close>.\<close>

definition recheck_at ::
    "volume_probe \<Rightarrow> execution_mode \<Rightarrow> demand \<Rightarrow> path \<Rightarrow> capacity_state
       \<Rightarrow> capacity_shortage option option \<times> capacity_state" where
  "recheck_at probe mode d root st =
     (let (v, st') = check_at probe mode Recheck d root st
      in (case v of
            Fits \<Rightarrow> Some None
          | FailWork s \<Rightarrow> Some (Some s)
          | FailRun _ \<Rightarrow> None
          | Warn _ \<Rightarrow> None, st'))"

subsection \<open>Demand\<close>

definition demand_of :: "(path \<times> u64) list \<Rightarrow> demand" where
  "demand_of adds = fold (\<lambda>(root, bytes). demand_add root bytes) adds empty_demand"

definition bytes_at :: "path \<Rightarrow> (path \<times> u64) list \<Rightarrow> nat" where
  "bytes_at root rows = (\<Sum>(r, b) \<leftarrow> rows. if r = root then unat b else 0)"

definition capped :: "nat \<Rightarrow> nat" where
  "capped n = min n (2 ^ 64 - 1)"

lemma capped_add_capped [simp]: "capped (capped a + b) = capped (a + b)" "capped (a + capped b) = capped (a + b)"
  by (auto simp: capped_def)

lemma unat_saturating_capped: "unat (saturating_add a b) = capped (unat a + unat b)"
  by (simp add: capped_def unat_saturating_add)

lemma capped_unat [simp]: "capped (unat (a :: u64)) = unat a"
  using unat_u64_less [of a] by (simp add: capped_def)

lemma capped_mono: "a \<le> b \<Longrightarrow> capped a \<le> capped b"
  by (simp add: capped_def)

lemma set_add_bytes [simp]: "fst ` set (add_bytes root bytes rows) = insert root (fst ` set rows)"
  by (induction root bytes rows rule: add_bytes.induct) auto

lemma distinct_add_bytes:
  "distinct (map fst rows) \<Longrightarrow> distinct (map fst (add_bytes root bytes rows))"
proof (induction root bytes rows rule: add_bytes.induct)
  case (2 root bytes added d rest)
  then show ?case
    using set_add_bytes [of root bytes rest] by (cases "added = root") (auto simp del: set_add_bytes)
qed simp

lemma add_bytes_lookup:
  "map_of (add_bytes root bytes rows) =
     (map_of rows)(root \<mapsto> saturating_add (case map_of rows root of None \<Rightarrow> 0 | Some d \<Rightarrow> d) bytes)"
  by (induction root bytes rows rule: add_bytes.induct) (auto simp: fun_eq_iff)

lemma demand_of_snoc: "demand_of (adds @ [(root, bytes)]) = demand_add root bytes (demand_of adds)"
  by (simp add: demand_of_def)

lemma demand_of_rows:
  "distinct (map fst (demand_roots (demand_of adds)))
   \<and> fst ` set (demand_roots (demand_of adds)) = fst ` set adds
   \<and> (\<forall>root b. map_of (demand_roots (demand_of adds)) root = Some b \<longrightarrow> unat b = capped (bytes_at root adds))
   \<and> unat (demand_total (demand_of adds)) = capped (\<Sum>(_, b) \<leftarrow> adds. unat b)"
proof (induction adds rule: rev_induct)
  case Nil
  then show ?case by (simp add: demand_of_def empty_demand_def capped_def)
next
  case (snoc add adds)
  obtain root bytes where add: "add = (root, bytes)" by fastforce
  let ?rows = "demand_roots (demand_of adds)"
  have absent: "bytes_at root adds = 0" if "map_of ?rows root = None"
  proof -
    have "root \<notin> fst ` set adds" using that snoc by (simp add: map_of_eq_None_iff)
    then show ?thesis by (induction adds) (auto simp: bytes_at_def)
  qed
  have at: "bytes_at r (adds @ [add]) = bytes_at r adds + (if root = r then unat bytes else 0)" for r
    by (simp add: bytes_at_def add)
  show ?case
    using snoc absent
    by (auto simp: add demand_of_snoc demand_add_def distinct_add_bytes add_bytes_lookup at [unfolded add]
        unat_saturating_capped split: option.splits)
qed

definition row_sum :: "(path \<Rightarrow> bool) \<Rightarrow> (path \<times> u64) list \<Rightarrow> nat" where
  "row_sum P rows = (\<Sum>(r, b) \<leftarrow> rows. if P r then unat b else 0)"

lemma row_sum_simps [simp]:
  "row_sum P [] = 0"
  "row_sum P ((r, b) # rows) = (if P r then unat b else 0) + row_sum P rows"
  "row_sum P (rows @ rows') = row_sum P rows + row_sum P rows'"
  by (simp_all add: row_sum_def)

lemma row_sum_add_bytes:
  "capped (row_sum P (add_bytes root bytes rows))
     = capped (row_sum P rows + (if P root then unat bytes else 0))"
proof (induction root bytes rows rule: add_bytes.induct)
  case (2 root bytes added d rest)
  show ?case
  proof (cases "added = root")
    case True
    then show ?thesis by (simp add: unat_saturating_capped ac_simps)
  next
    case False
    then have "capped (row_sum P (add_bytes root bytes ((added, d) # rest)))
        = capped ((if P added then unat d else 0) + capped (row_sum P (add_bytes root bytes rest)))"
      by simp
    also have "\<dots> = capped ((if P added then unat d else 0) + (row_sum P rest + (if P root then unat bytes else 0)))"
      using 2 False by simp
    finally show ?thesis by (simp add: ac_simps)
  qed
qed simp

lemma demand_of_row_sum: "capped (row_sum P (demand_roots (demand_of adds))) = capped (row_sum P adds)"
proof (induction adds rule: rev_induct)
  case (snoc add adds)
  obtain root bytes where add: "add = (root, bytes)" by fastforce
  have "capped (row_sum P (demand_roots (demand_of (adds @ [add]))))
      = capped (capped (row_sum P (demand_roots (demand_of adds))) + (if P root then unat bytes else 0))"
    by (simp add: add demand_of_snoc demand_add_def row_sum_add_bytes)
  then show ?case using snoc by (simp add: add)
qed (simp add: demand_of_def empty_demand_def)

lemma demand_of_total: "unat (demand_total (demand_of adds)) = capped (row_sum (\<lambda>_. True) adds)"
  using demand_of_rows [of adds] by (simp add: row_sum_def case_prod_beta)

lemma row_sum_mono: "(\<And>r. P r \<Longrightarrow> Q r) \<Longrightarrow> row_sum P rows \<le> row_sum Q rows"
  by (induction rows) (auto intro: add_mono)

subsection \<open>What a root is charged\<close>

text \<open>
  The requirement of a root under frozen identities: the whole demand when the root has it alone,
  when its volume is unknown, or when some root with work is on an unknown volume; otherwise the
  demand of the roots on its volume, saturated.
\<close>

definition settled :: "(path \<rightharpoonup> string option) \<Rightarrow> demand \<Rightarrow> path \<Rightarrow> nat" where
  "settled identities d root =
     (if sole_demand d root then unat (demand_total d)
      else case identities root of
        Some (Some volume) \<Rightarrow>
          if list_ex (\<lambda>(other, bytes). bytes \<noteq> 0 \<and> identities other = Some None) (demand_roots d)
          then unat (demand_total d)
          else capped (row_sum (\<lambda>r. identities r = Some (Some volume)) (demand_roots d))
      | _ \<Rightarrow> unat (demand_total d))"

lemma volume_identity_frozen:
  assumes "volume_identity probe root st = (v, st')"
  shows "frozen st' root = Some v" and "map_le (frozen st) (frozen st')"
  using assms
  by (auto simp: volume_identity_def map_le_def Let_def split: option.splits)

lemma map_leD: "map_le m m' \<Longrightarrow> m k = Some v \<Longrightarrow> m' k = Some v"
  unfolding map_le_def by (metis domI)

lemma required_loop_settles:
  assumes "required_loop probe whole volume rows required st = (r, st')"
  shows "map_le (frozen st) (frozen st')
    \<and> (\<forall>identities. map_le (frozen st') identities \<longrightarrow>
        (if list_ex (\<lambda>(other, bytes). bytes \<noteq> 0 \<and> identities other = Some None) rows then r = whole
         else unat r = capped (unat required + row_sum (\<lambda>r. identities r = Some (Some volume)) rows)))"
  using assms
proof (induction probe whole volume rows required st rule: required_loop.induct)
  case (2 probe whole volume other bytes rest required st)
  show ?case
  proof (cases "bytes = 0")
    case True
    then show ?thesis using 2 by simp
  next
    case False
    obtain v st1 where id: "volume_identity probe other st = (v, st1)" by fastforce
    note frozen1 = volume_identity_frozen [OF id]
    show ?thesis
    proof (cases v)
      case None
      then have "r = whole" "st' = st1" using 2(3) False id by simp_all
      then show ?thesis
        using None frozen1 False by (auto dest: map_leD)
    next
      case (Some other_volume)
      define required' where
        "required' = (if other_volume = volume then saturating_add required bytes else required)"
      have loop: "required_loop probe whole volume rest required' st1 = (r, st')"
        using 2(3) False id Some by (simp add: required'_def)
      note ih = 2(2) [OF False id [symmetric] refl Some loop [unfolded required'_def]]
      have "map_le (frozen st) (frozen st')"
        using ih frozen1(2) map_le_trans by blast
      moreover have "if list_ex (\<lambda>(other, bytes). bytes \<noteq> 0 \<and> identities other = Some None) ((other, bytes) # rest)
          then r = whole
          else unat r = capped (unat required + row_sum (\<lambda>r. identities r = Some (Some volume)) ((other, bytes) # rest))"
        if "map_le (frozen st') identities" for identities
      proof -
        have "identities other = Some (Some other_volume)"
          using ih frozen1(1) that Some by (auto dest: map_leD)
        then show ?thesis
          using ih that by (auto simp: unat_saturating_capped ac_simps split: if_splits)
      qed
      ultimately show ?thesis by blast
    qed
  qed
qed (simp add: map_le_def)

lemma required_at_settles:
  assumes "required_at probe d root st = (r, st')"
  shows "map_le (frozen st) (frozen st')"
    and "map_le (frozen st') identities \<Longrightarrow> unat r = settled identities d root"
proof -
  have "map_le (frozen st) (frozen st')
      \<and> (map_le (frozen st') identities \<longrightarrow> unat r = settled identities d root)"
  proof (cases "sole_demand d root")
    case True
    then show ?thesis using assms by (auto simp: required_at_def settled_def map_le_def)
  next
    case False
    obtain v st1 where id: "volume_identity probe root st = (v, st1)" by fastforce
    note frozen1 = volume_identity_frozen [OF id]
    show ?thesis
    proof (cases v)
      case None
      then have "r = demand_total d" "st' = st1" using assms False id by (simp_all add: required_at_def)
      then show ?thesis
        using None frozen1 False by (auto simp: settled_def dest: map_leD)
    next
      case (Some volume)
      then have loop: "required_loop probe (demand_total d) volume (demand_roots d) 0 st1 = (r, st')"
        using assms False id by (simp add: required_at_def)
      note loops = required_loop_settles [OF loop]
      have "map_le (frozen st) (frozen st')"
        using loops frozen1(2) map_le_trans by blast
      moreover have "unat r = settled identities d root" if "map_le (frozen st') identities"
      proof -
        have "identities root = Some (Some volume)"
          using loops frozen1(1) that Some by (auto dest: map_leD)
        then show ?thesis using loops that False by (auto simp: settled_def split: if_splits)
      qed
      ultimately show ?thesis by blast
    qed
  qed
  then show "map_le (frozen st) (frozen st')"
    and "map_le (frozen st') identities \<Longrightarrow> unat r = settled identities d root" by blast+
qed

text \<open>A root fits when its free space, sampled at some call, was unknown or covered its charge.\<close>

definition answered :: "volume_probe \<Rightarrow> path \<Rightarrow> u64 \<Rightarrow> bool" where
  "answered probe root a = (\<exists>n. probe_available probe n root = Some (Some a))"

definition root_fits :: "volume_probe \<Rightarrow> (path \<rightharpoonup> string option) \<Rightarrow> demand \<Rightarrow> path \<Rightarrow> bool" where
  "root_fits probe identities d root =
     (\<exists>n. case contained_probe (probe_available probe n root) of
            None \<Rightarrow> True
          | Some a \<Rightarrow> settled identities d root \<le> unat a)"

lemma root_fitsI:
  "contained_probe (probe_available probe n root) = None \<Longrightarrow> root_fits probe identities d root"
  "contained_probe (probe_available probe n root) = Some a \<Longrightarrow> settled identities d root \<le> unat a \<Longrightarrow>
     root_fits probe identities d root"
  unfolding root_fits_def by (rule exI [of _ n]; simp)+

lemma shortage_at_settles:
  assumes "shortage_at probe d root st = (s, st')"
  shows "map_le (frozen st) (frozen st')"
    and "map_le (frozen st') identities \<Longrightarrow>
      (case s of
         None \<Rightarrow> root_fits probe identities d root
       | Some x \<Rightarrow> shortage_root x = root \<and> unat (shortage_required x) = settled identities d root
           \<and> shortage_available x < shortage_required x \<and> answered probe root (shortage_available x))"
proof -
  obtain r st1 where r: "required_at probe d root st = (r, st1)" by fastforce
  define answer where "answer = contained_probe (probe_available probe (probe_calls st1) root)"
  have st': "frozen st' = frozen st1"
    using assms r by (auto simp: shortage_at_def available_bytes_def Let_def split: option.splits if_splits)
  note settles = required_at_settles [OF r]
  show "map_le (frozen st) (frozen st')" using settles(1) st' by simp
  assume "map_le (frozen st') identities"
  then have charge: "unat r = settled identities d root" using settles(2) st' by simp
  show "case s of
         None \<Rightarrow> root_fits probe identities d root
       | Some x \<Rightarrow> shortage_root x = root \<and> unat (shortage_required x) = settled identities d root
           \<and> shortage_available x < shortage_required x \<and> answered probe root (shortage_available x)"
  proof (cases answer)
    case None
    then have "s = None" using assms r by (simp add: shortage_at_def available_bytes_def answer_def)
    then show ?thesis using None root_fitsI(1) by (simp add: answer_def)
  next
    case (Some a)
    then have "answered probe root a"
      by (auto simp: answered_def answer_def contained_probe_def split: option.splits)
    moreover have "s = (if a < r then Some \<lparr>shortage_root = root, shortage_required = r, shortage_available = a\<rparr> else None)"
      using assms r Some by (auto simp: shortage_at_def available_bytes_def answer_def split: if_splits)
    ultimately show ?thesis
      using Some charge root_fitsI(2) [OF Some [unfolded answer_def], of identities d]
      by (auto simp: word_less_nat_alt not_less)
  qed
qed

text \<open>
  The first root of the rows that its charge does not fit, or none: the meaning of the result of
  the loop over the demand.
\<close>

definition row_fits :: "volume_probe \<Rightarrow> (path \<rightharpoonup> string option) \<Rightarrow> demand \<Rightarrow> path \<times> u64 \<Rightarrow> bool" where
  "row_fits probe identities d row = (snd row = 0 \<or> root_fits probe identities d (fst row))"

definition is_first_shortage ::
    "volume_probe \<Rightarrow> (path \<rightharpoonup> string option) \<Rightarrow> demand \<Rightarrow> (path \<times> u64) list
       \<Rightarrow> capacity_shortage option \<Rightarrow> bool" where
  "is_first_shortage probe identities d rows s =
     (case s of
        None \<Rightarrow> list_all (row_fits probe identities d) rows
      | Some x \<Rightarrow>
          (\<exists>before bytes after.
             rows = before @ (shortage_root x, bytes) # after \<and> bytes \<noteq> 0
             \<and> list_all (row_fits probe identities d) before)
          \<and> unat (shortage_required x) = settled identities d (shortage_root x)
          \<and> shortage_available x < shortage_required x
          \<and> answered probe (shortage_root x) (shortage_available x))"

lemma is_first_shortage_Cons:
  assumes "row_fits probe identities d row" and "is_first_shortage probe identities d rest s"
  shows "is_first_shortage probe identities d (row # rest) s"
proof (cases s)
  case (Some x)
  then obtain before bytes after where
      "rest = before @ (shortage_root x, bytes) # after" "bytes \<noteq> 0"
      "list_all (row_fits probe identities d) before"
    using assms(2) by (auto simp: is_first_shortage_def)
  then have "row # rest = (row # before) @ (shortage_root x, bytes) # after \<and> bytes \<noteq> 0
      \<and> list_all (row_fits probe identities d) (row # before)"
    using assms(1) by simp
  then have "\<exists>before bytes after. row # rest = before @ (shortage_root x, bytes) # after \<and> bytes \<noteq> 0
      \<and> list_all (row_fits probe identities d) before" by blast
  then show ?thesis using assms(2) Some by (simp add: is_first_shortage_def)
qed (use assms in \<open>simp add: is_first_shortage_def\<close>)

lemma shortage_loop_settles:
  assumes "shortage_loop probe d rows st = (s, st')"
  shows "map_le (frozen st) (frozen st')
    \<and> (\<forall>identities. map_le (frozen st') identities \<longrightarrow> is_first_shortage probe identities d rows s)"
  using assms
proof (induction probe d rows st rule: shortage_loop.induct)
  case (2 probe d root bytes rest st)
  show ?case
  proof (cases "bytes = 0")
    case True
    then show ?thesis using 2(1,3) is_first_shortage_Cons by (simp add: row_fits_def)
  next
    case False
    obtain x st1 where first: "shortage_at probe d root st = (x, st1)" by fastforce
    note settles = shortage_at_settles [OF first]
    show ?thesis
    proof (cases x)
      case None
      then have "shortage_loop probe d rest st1 = (s, st')" using 2(3) False first by simp
      note ih = 2(2) [OF False first [symmetric] None this]
      have "map_le (frozen st) (frozen st')"
        using ih settles(1) map_le_trans by blast
      moreover have "row_fits probe identities d (root, bytes)" if "map_le (frozen st') identities" for identities
      proof -
        have "map_le (frozen st1) identities" using ih that map_le_trans by blast
        then show ?thesis using settles(2) None by (simp add: row_fits_def)
      qed
      ultimately show ?thesis using ih is_first_shortage_Cons by blast
    next
      case (Some y)
      then have "s = Some y" "st' = st1" using 2(3) False first by simp_all
      moreover have "is_first_shortage probe identities d ((root, bytes) # rest) (Some y)"
        if "map_le (frozen st1) identities" for identities
        using settles(2) [OF that] Some False
        by (auto simp: is_first_shortage_def intro: exI [of _ "[]"])
      ultimately show ?thesis using settles(1) by simp
    qed
  qed
qed (simp add: map_le_def is_first_shortage_def)

fun is_failed_run :: "capacity_verdict \<Rightarrow> bool" where
  "is_failed_run (FailRun _) = True"
| "is_failed_run _ = False"

fun is_warning :: "capacity_verdict \<Rightarrow> bool" where
  "is_warning (Warn _) = True"
| "is_warning _ = False"

lemma verdict_kinds:
  "fst (verdict probe mode stage s st) = Fits \<longleftrightarrow> s = None"
  "is_failed_run (fst (verdict probe mode stage s st)) \<longleftrightarrow> s \<noteq> None \<and> stage = BeforeExtraction \<and> mode = Apply"
  "is_warning (fst (verdict probe mode stage s st)) \<longleftrightarrow> s \<noteq> None \<and> stage \<noteq> Recheck \<and> mode = DryRun"
  by (cases s; cases stage; cases mode; simp add: verdict_def apfst_def map_prod_def split: prod.split)+

lemma verdict_recheck: "verdict probe mode Recheck s st = (case s of None \<Rightarrow> Fits | Some x \<Rightarrow> FailWork x, st)"
  by (simp add: verdict_def split: option.split)

subsection \<open>Properties\<close>

text \<open>
  C10: The Capacity Check finds exactly the first Mod Root, in demand order, whose charge exceeds
  its known free space. It fits only when every root with work was sampled and its free space was
  unknown or covers the charge, with the charge read off the volume identities frozen at the end
  of the check; and identities frozen before the check are never changed by it.
\<close>

theorem capacity_check_finds_first_shortage:
  assumes "first_shortage probe d st = (s, st')"
  shows "is_first_shortage probe (frozen st') d (demand_roots d) s
    \<and> map_le (frozen st) (frozen st')"
  using shortage_loop_settles [OF assms [unfolded first_shortage_def]] by (auto simp: map_le_refl)

definition demo_probe :: volume_probe where
  "demo_probe =
     \<lparr>probe_available = (\<lambda>n root. if root = [Normal ''a''] then Some (Some 250) else None),
      probe_volume = (\<lambda>n root. if n < 2 then Some (Some ''C'') else Some (Some ''D''))\<rparr>"

definition demo_demand :: demand where
  "demo_demand = demand_of [([Normal ''idle''], 0), ([Normal ''a''], 100), ([Normal ''b''], 200)]"

definition fresh_state :: capacity_state where
  "fresh_state = \<lparr>frozen = Map.empty, probe_calls = 0\<rparr>"

theorem capacity_check_finds_first_shortage_witness:
  "is_first_shortage demo_probe (frozen (snd (first_shortage demo_probe demo_demand fresh_state))) demo_demand
     (demand_roots demo_demand)
     (Some \<lparr>shortage_root = [Normal ''a''], shortage_required = 300, shortage_available = 250\<rparr>)"
proof -
  have "fst (first_shortage demo_probe demo_demand fresh_state)
      = Some \<lparr>shortage_root = [Normal ''a''], shortage_required = 300, shortage_available = 250\<rparr>"
    by code_simp
  then show ?thesis
    using capacity_check_finds_first_shortage [OF prod.collapse [symmetric], of demo_probe demo_demand fresh_state]
    by simp
qed

text \<open>
  A Mod Root's charge never underestimates. For a demand built from any sequence of adds, and a
  root whose volume is known, the charge is at least the root's own saturated demand and that of
  all roots known to share its volume, and at most the saturated whole demand; and it is exactly
  the demand of its volume when no root with demand is on an unknown volume.
\<close>

theorem charge_is_volume_demand:
  assumes "identities root = Some (Some volume)"
  shows "capped (row_sum (\<lambda>r. r = root) adds) \<le> settled identities (demand_of adds) root
    \<and> capped (row_sum (\<lambda>r. identities r = Some (Some volume)) adds) \<le> settled identities (demand_of adds) root
    \<and> settled identities (demand_of adds) root \<le> capped (row_sum (\<lambda>_. True) adds)
    \<and> (list_all (\<lambda>(r, b). b = 0 \<or> identities r \<noteq> Some None) (demand_roots (demand_of adds)) \<longrightarrow>
        settled identities (demand_of adds) root = capped (row_sum (\<lambda>r. identities r = Some (Some volume)) adds))"
proof -
  let ?d = "demand_of adds" and ?on = "\<lambda>r. identities r = Some (Some volume)"
  have mono: "capped (row_sum P adds) \<le> capped (row_sum Q adds)" if "\<And>r. P r \<Longrightarrow> Q r" for P Q
    by (rule capped_mono [OF row_sum_mono [OF that]])
  have own: "capped (row_sum (\<lambda>r. r = root) adds) \<le> capped (row_sum ?on adds)"
    by (rule mono) (use assms in simp)
  have sole: "capped (row_sum (\<lambda>_. True) adds) = capped (row_sum ?on adds)" if "sole_demand ?d root"
  proof -
    have "row_sum (\<lambda>_. True) rows = row_sum ?on rows"
      if "list_all (\<lambda>(other, bytes). bytes = 0 \<or> other = root) rows" for rows
      using that assms by (induction rows) auto
    then have "row_sum (\<lambda>_. True) (demand_roots ?d) = row_sum ?on (demand_roots ?d)"
      using \<open>sole_demand ?d root\<close> unfolding sole_demand_def by blast
    then show ?thesis by (metis demand_of_row_sum)
  qed
  have charge: "settled identities ?d root \<in> {capped (row_sum (\<lambda>_. True) adds), capped (row_sum ?on adds)}"
    using assms by (simp add: settled_def demand_of_total demand_of_row_sum)
  have known: "settled identities ?d root = capped (row_sum ?on adds)"
    if "list_all (\<lambda>(r, b). b = 0 \<or> identities r \<noteq> Some None) (demand_roots ?d)"
  proof (cases "sole_demand ?d root")
    case True
    then show ?thesis using sole by (simp add: settled_def demand_of_total)
  next
    case False
    have "\<not> list_ex (\<lambda>(other, bytes). bytes \<noteq> 0 \<and> identities other = Some None) (demand_roots ?d)"
      using that by (auto simp: list_all_iff list_ex_iff)
    then show ?thesis using False assms by (simp add: settled_def demand_of_row_sum)
  qed
  have "capped (row_sum ?on adds) \<le> capped (row_sum (\<lambda>_. True) adds)" by (rule mono) simp
  with own charge known show ?thesis by auto
qed

theorem charge_is_volume_demand_witness:
  "settled (Map.empty([Normal ''a''] \<mapsto> Some ''C'', [Normal ''b''] \<mapsto> Some ''D'', [Normal ''c''] \<mapsto> Some ''C''))
     (demand_of [([Normal ''a''], 100), ([Normal ''b''], 200), ([Normal ''c''], 50)]) [Normal ''a''] = 150"
proof -
  let ?ids = "Map.empty([Normal ''a''] \<mapsto> Some ''C'', [Normal ''b''] \<mapsto> Some ''D'', [Normal ''c''] \<mapsto> Some ''C'')"
  let ?adds = "[([Normal ''a''], 100), ([Normal ''b''], 200), ([Normal ''c''], 50)] :: (path \<times> u64) list"
  have "list_all (\<lambda>(r, b). b = 0 \<or> ?ids r \<noteq> Some None) (demand_roots (demand_of ?adds))" by code_simp
  moreover have "capped (row_sum (\<lambda>r. ?ids r = Some (Some ''C'')) ?adds) = 150" by (simp add: capped_def)
  ultimately show ?thesis
    using charge_is_volume_demand [of ?ids "[Normal ''a'']" "''C''" ?adds] by simp
qed

text \<open>
  What a shortage means is one table. A check fits exactly when no shortage is found; before
  extraction a shortage fails an Apply run, a Dry Run is only ever warned before work, and from
  creation on an Apply shortage fails just the work it guards. A recheck reports exactly the
  shortage at its root and never reaches the panic of an impossible verdict.
\<close>

theorem capacity_verdict_table:
  "(fst (capacity_check probe mode stage d st) = Fits \<longleftrightarrow> fst (first_shortage probe d st) = None)
   \<and> (is_failed_run (fst (capacity_check probe mode stage d st)) \<longleftrightarrow>
        fst (first_shortage probe d st) \<noteq> None \<and> stage = BeforeExtraction \<and> mode = Apply)
   \<and> (is_warning (fst (capacity_check probe mode stage d st)) \<longleftrightarrow>
        fst (first_shortage probe d st) \<noteq> None \<and> stage \<noteq> Recheck \<and> mode = DryRun)
   \<and> recheck_at probe mode d root st = apfst Some (shortage_at probe d root st)"
  by (simp add: capacity_check_def recheck_at_def check_at_def verdict_kinds verdict_recheck case_prod_beta
      apfst_def map_prod_def split: option.split)

end
