(* ===== verification/GamePaths.thy ===== *)
theory GamePaths
  imports Prelude
begin

text \<open>
  Game paths: the normalization and rejection of raw Archive entry names, reserved names, the
  containment of relative paths and the conflict test of planned outputs (\<open>run/archives.rs\<close>,
  \<open>run/staging.rs\<close>, \<open>run/artifacts.rs\<close>). A name is its UTF-8 bytes, so a character below 32, a
  separator or a reserved character is the byte of the same value, and the superscript digits
  one, two and three are the byte pairs C2 B9, C2 B2 and C2 B3.
\<close>

fun split_on :: "char \<Rightarrow> string \<Rightarrow> string list" where
  "split_on c [] = [[]]"
| "split_on c (x # xs) =
     (if x = c then [] # split_on c xs
      else case split_on c xs of [] \<Rightarrow> [[x]] | seg # segs \<Rightarrow> (x # seg) # segs)"

fun join_with :: "string \<Rightarrow> string list \<Rightarrow> string" where
  "join_with sep [] = []"
| "join_with sep [s] = s"
| "join_with sep (s # t # ss) = s @ sep @ join_with sep (t # ss)"

definition trim_end_matches :: "(char \<Rightarrow> bool) \<Rightarrow> string \<Rightarrow> string" where
  "trim_end_matches P s = rev (dropWhile P (rev s))"

definition ends_with_char :: "(char \<Rightarrow> bool) \<Rightarrow> string \<Rightarrow> bool" where
  "ends_with_char P s = (s \<noteq> [] \<and> P (last s))"

definition char_to_ascii_uppercase :: "char \<Rightarrow> char" where
  "char_to_ascii_uppercase c =
     (if 97 \<le> byte c \<and> byte c \<le> 122 then char_of (byte c - 32) else c)"

definition to_ascii_uppercase :: "string \<Rightarrow> string" where
  "to_ascii_uppercase s = map char_to_ascii_uppercase s"

definition is_staging_name :: "string \<Rightarrow> bool" where
  "is_staging_name name =
     (take (length ''.cao-staging'') (to_ascii_lowercase name) = ''.cao-staging'')"

fun component_text :: "component \<Rightarrow> string" where
  "component_text (Prefix s) = s"
| "component_text RootDir = [char_of (92 :: int)]"
| "component_text CurDir = ''.''"
| "component_text ParentDir = ''..''"
| "component_text (Normal s) = s"

definition has_staging_component :: "path \<Rightarrow> bool" where
  "has_staging_component p = list_ex (\<lambda>c. is_staging_name (component_text c)) p"

text \<open>The device numbers after \<open>COM\<close> and \<open>LPT\<close>: the digits 1 to 9 and three superscripts.\<close>

definition device_numbers :: "string list" where
  "device_numbers =
     map (\<lambda>d. [char_of (48 + d :: int)]) [1, 2, 3, 4, 5, 6, 7, 8, 9]
     @ map (\<lambda>b. [char_of (194 :: int), char_of (b :: int)]) [185, 178, 179]"

definition reserved_device_name :: "string \<Rightarrow> bool" where
  "reserved_device_name name =
     (let stem = to_ascii_uppercase
            (trim_end_matches (\<lambda>c. c = CHR '' '' \<or> c = CHR ''.'') (hd (split_on CHR ''.'' name)))
      in if stem \<in> set [''CON'', ''PRN'', ''AUX'', ''NUL'', ''CONIN$'', ''CONOUT$''] then True
         else (take 3 stem = ''COM'' \<or> take 3 stem = ''LPT'') \<and> drop 3 stem \<in> set device_numbers)"

definition slashes :: "string \<Rightarrow> string" where
  "slashes name = map (\<lambda>c. if byte c = 92 then CHR ''/'' else c) name"

definition forbidden_char :: "char \<Rightarrow> bool" where
  "forbidden_char c = (byte c < 32 \<or> byte c \<in> set [58, 42, 63, 34, 60, 62, 124])"

text \<open>The loop over the segments: \<open>..\<close> pops, and fails on nothing to pop.\<close>

fun resolve_segments :: "string list \<Rightarrow> string list \<Rightarrow> string list option" where
  "resolve_segments parts [] = Some parts"
| "resolve_segments parts (seg # segs) =
     (if seg = [] \<or> seg = ''.'' then resolve_segments parts segs
      else if seg = ''..'' then
        (if parts = [] then None else resolve_segments (butlast parts) segs)
      else resolve_segments (parts @ [seg]) segs)"

definition unsafe_part :: "string \<Rightarrow> bool" where
  "unsafe_part part =
     (ends_with_char (\<lambda>c. c = CHR ''.'' \<or> c = CHR '' '') part \<or> is_staging_name part
      \<or> reserved_device_name part)"

definition canonical_archive_entry_path :: "string \<Rightarrow> string + string" where
  "canonical_archive_entry_path raw =
     (let name = slashes raw in
      if name = [] \<or> hd name = CHR ''/'' \<or> list_ex forbidden_char name
      then Err ''Archive entry has an invalid game path.''
      else
        let segments = split_on CHR ''/'' name in
        if last segments \<in> set [[], ''.'', ''..'']
        then Err ''Archive entry escapes its extraction directory.''
        else
          case resolve_segments [] segments of
            None \<Rightarrow> Err ''Archive entry escapes its extraction directory.''
          | Some parts \<Rightarrow>
              if parts = [] then Err ''Archive entry escapes its extraction directory.''
              else if list_ex unsafe_part parts
              then Err ''Archive entry aliases an unsafe or reserved path.''
              else Ok (join_with ''/'' parts))"

text \<open>
  \<open>Path::join\<close> of one segment that holds no separator and no drive, as the components of the
  result: an empty segment and \<open>.\<close> add nothing.
\<close>

definition join_segment :: "path \<Rightarrow> string \<Rightarrow> path" where
  "join_segment p seg =
     (if seg = [] \<or> seg = ''.'' then p
      else if seg = ''..'' then p @ [ParentDir]
      else p @ [Normal seg])"

definition join_game_path :: "path \<Rightarrow> string \<Rightarrow> path" where
  "join_game_path directory game_path = fold (\<lambda>seg p. join_segment p seg) (split_on CHR ''/'' game_path) directory"

fun normal_parts :: "path \<Rightarrow> string list option" where
  "normal_parts [] = Some []"
| "normal_parts (Normal s # rest) = map_option ((#) s) (normal_parts rest)"
| "normal_parts (_ # rest) = None"

definition contained_parts :: "path \<Rightarrow> path \<Rightarrow> string list option" where
  "contained_parts root p =
     (case strip_prefix p root of
        None \<Rightarrow> None
      | Some relative \<Rightarrow>
          (case normal_parts relative of
             None \<Rightarrow> None
           | Some parts \<Rightarrow> if parts \<noteq> [] \<and> \<not> has_staging_component relative then Some parts else None))"

fun contained_loop :: "string list \<Rightarrow> path \<Rightarrow> string list option" where
  "contained_loop parts [] = Some parts"
| "contained_loop parts (Normal s # rest) = contained_loop (parts @ [s]) rest"
| "contained_loop parts (CurDir # rest) = contained_loop parts rest"
| "contained_loop parts (ParentDir # rest) =
     (if parts = [] then None else contained_loop (butlast parts) rest)"
| "contained_loop parts (Prefix _ # rest) = None"
| "contained_loop parts (RootDir # rest) = None"

definition contained_relative :: "path \<Rightarrow> path option" where
  "contained_relative p = (if p = [] then None else map_option (map Normal) (contained_loop [] p))"

subsection \<open>Conflicts of planned outputs\<close>

text \<open>
  \<open>CompareStringOrdinal\<close> compares names through the operating system's uppercase table, one
  UTF-16 unit at a time: it orders names by a key, the list of their uppercased units. The key is
  a parameter; a planned set is a \<open>BTreeSet\<close> of names under it, kept as an ordered map from key to
  spelling. \<open>slash_prefixes\<close> are the slices \<open>path[..slash]\<close> at each separator.
\<close>

type_synonym name_key = "string \<Rightarrow> int list"

fun slash_prefixes :: "string \<Rightarrow> string list" where
  "slash_prefixes [] = []"
| "slash_prefixes (c # cs) =
     (if c = CHR ''/'' then [[]] else []) @ map ((#) c) (slash_prefixes cs)"

definition has_game_path_ancestor :: "name_key \<Rightarrow> string \<Rightarrow> string \<Rightarrow> bool" where
  "has_game_path_ancestor key p ancestor = list_ex (\<lambda>prefix. key prefix = key ancestor) (slash_prefixes p)"

definition conflicts_with_planned :: "name_key \<Rightarrow> (int list \<times> string) list \<Rightarrow> string \<Rightarrow> bool" where
  "conflicts_with_planned key planned game_path =
     (list_ex (\<lambda>prefix. key prefix \<in> set (map fst planned)) (slash_prefixes game_path)
      \<or> (case find (\<lambda>(k, _). key (game_path @ ''/'') \<le> k) planned of
           None \<Rightarrow> False
         | Some (_, child) \<Rightarrow> has_game_path_ancestor key child game_path))"

subsection \<open>Lemmas: segments\<close>

lemma split_on_Nil [simp]: "split_on c s \<noteq> []"
  by (induction s) (auto split: list.split)

lemma split_on_no_sep: "c \<notin> set s \<Longrightarrow> split_on c s = [s]"
  by (induction s) auto

lemma split_on_append: "c \<notin> set s \<Longrightarrow> split_on c (s @ c # t) = s # split_on c t"
  by (induction s) auto

lemma split_on_segments: "seg \<in> set (split_on c s) \<Longrightarrow> c \<notin> set seg"
  by (induction s arbitrary: seg) (auto split: list.splits if_splits)

lemma split_on_chars: "seg \<in> set (split_on c s) \<Longrightarrow> set seg \<subseteq> set s"
proof (induction s arbitrary: seg)
  case (Cons x xs)
  have rest: "set t \<subseteq> set (x # xs)" if "t \<in> set (split_on c xs)" for t
    using Cons.IH [OF that] by auto
  show ?case
  proof (cases "split_on c xs")
    case (Cons t ts)
    show ?thesis
    proof (cases "seg \<in> set (split_on c xs)")
      case True
      then show ?thesis by (rule rest)
    next
      case False
      then have "seg = [] \<or> seg = x # t"
        using Cons.prems \<open>split_on c xs = t # ts\<close> by (auto split: if_splits)
      then show ?thesis using rest [of t] Cons by auto
    qed
  qed simp
qed simp

lemma join_split: "join_with [c] (split_on c s) = s"
proof (induction s)
  case (Cons x xs)
  then show ?case
    by (cases "split_on c xs" rule: list.exhaust [where ?'a = string])
      (auto, metis join_with.simps(2,3) append_Cons neq_Nil_conv append_self_conv2)
qed simp

lemma split_join:
  "parts \<noteq> [] \<Longrightarrow> list_all (\<lambda>part. c \<notin> set part) parts \<Longrightarrow> split_on c (join_with [c] parts) = parts"
  by (induction "[c]" parts rule: join_with.induct) (auto simp: split_on_no_sep split_on_append)

definition ordinary :: "string \<Rightarrow> bool" where
  "ordinary seg = (seg \<noteq> [] \<and> seg \<noteq> ''.'' \<and> seg \<noteq> ''..'')"

lemma resolve_segments_ordinary:
  "resolve_segments parts segs = Some out \<Longrightarrow> list_all ordinary parts \<Longrightarrow>
   list_all ordinary out \<and> set out \<subseteq> set parts \<union> set segs"
proof (induction parts segs rule: resolve_segments.induct)
  case (2 parts seg segs)
  have bl: "list_all ordinary (butlast parts)"
    using 2(5) by (auto simp: list_all_iff dest: in_set_butlastD)
  consider (skip) "seg = [] \<or> seg = ''.''" | (pop) "seg = ''..''"
    | (push) "ordinary seg" "\<not> (seg = [] \<or> seg = ''.'')" "seg \<noteq> ''..''"
    by (auto simp: ordinary_def)
  then show ?case
  proof cases
    case skip
    then have "resolve_segments parts segs = Some out" using 2(4) by (auto split: if_splits)
    then show ?thesis using 2(1) [OF skip _ 2(5)] by auto
  next
    case pop
    then have ne: "parts \<noteq> []" and run: "resolve_segments (butlast parts) segs = Some out"
      using 2(4) by (auto split: if_splits)
    have "list_all ordinary out \<and> set out \<subseteq> set (butlast parts) \<union> set segs"
      using 2(2) [OF _ pop ne run bl] pop by auto
    then show ?thesis by (auto dest: in_set_butlastD)
  next
    case push
    then have run: "resolve_segments (parts @ [seg]) segs = Some out"
      using 2(4) by (auto split: if_splits)
    have "list_all ordinary (parts @ [seg])" using push 2(5) by simp
    then show ?thesis using 2(3) [OF push(2,3) run] by auto
  qed
qed simp

lemma resolve_ordinary: "list_all ordinary segs \<Longrightarrow> resolve_segments parts segs = Some (parts @ segs)"
  by (induction parts segs rule: resolve_segments.induct) (auto simp: ordinary_def)

subsection \<open>Archive entry names\<close>

text \<open>An entry's place in the Archive and the size it unpacks to (\<open>ArchiveEntry\<close>).\<close>

record archive_entry =
  entry_name :: string
  decompressed_size :: u64

definition entry_overhead :: "archive_entry \<Rightarrow> u64" where
  "entry_overhead e = saturating_add (saturating_mul (of_nat (length (entry_name e))) 8) 65536"

definition estimated_capacity_bytes :: "archive_entry list \<Rightarrow> u64" where
  "estimated_capacity_bytes entries =
     fold (\<lambda>e acc. saturating_add acc (saturating_add (decompressed_size e) (entry_overhead e)))
       entries 65536"

text \<open>
  What a safe part is: it names a file or directory of its own, holds no separator or forbidden
  character, and is no reserved name.
\<close>

definition safe_part :: "string \<Rightarrow> bool" where
  "safe_part part =
     (ordinary part \<and> last part \<notin> {CHR ''.'', CHR '' ''}
      \<and> \<not> is_staging_name part \<and> \<not> reserved_device_name part
      \<and> list_all (\<lambda>c. \<not> forbidden_char c \<and> c \<noteq> CHR ''/'' \<and> byte c \<noteq> 92) part)"

lemma safe_part_iff:
  "safe_part part \<longleftrightarrow> ordinary part \<and> \<not> unsafe_part part
     \<and> list_all (\<lambda>c. \<not> forbidden_char c \<and> c \<noteq> CHR ''/'' \<and> byte c \<noteq> 92) part"
  by (auto simp: safe_part_def unsafe_part_def ends_with_char_def ordinary_def)

lemma slashes_chars: "c \<in> set (slashes s) \<Longrightarrow> byte c \<noteq> 92"
  by (auto simp: slashes_def byte_def split: if_splits)

lemma slashes_id: "(\<forall>c\<in>set s. byte c \<noteq> 92) \<Longrightarrow> slashes s = s"
  by (auto simp: slashes_def intro: map_idI)

lemma canonical_parts:
  assumes "canonical_archive_entry_path raw = Ok p"
  obtains parts where "p = join_with ''/'' parts" "parts \<noteq> []" "list_all safe_part parts"
proof -
  let ?n = "slashes raw"
  let ?segs = "split_on CHR ''/'' ?n"
  obtain parts where res: "resolve_segments [] ?segs = Some parts" and ne: "parts \<noteq> []"
    and p: "p = join_with ''/'' parts" and ok: "\<not> list_ex unsafe_part parts"
    and chars: "\<not> list_ex forbidden_char ?n"
    using assms by (auto simp: canonical_archive_entry_path_def Let_def
        split: if_splits option.splits)
  have ord: "list_all ordinary parts" and sub: "set parts \<subseteq> set ?segs"
    using resolve_segments_ordinary [OF res] by auto
  have "safe_part part" if "part \<in> set parts" for part
  proof -
    have seg: "part \<in> set ?segs" using that sub by auto
    have "c \<in> set ?n" if "c \<in> set part" for c
      using split_on_chars [OF seg] that by auto
    then show ?thesis
      using that ord ok chars split_on_segments [OF seg] slashes_chars [of _ raw]
      by (auto simp: safe_part_iff list_all_iff list_ex_iff)
  qed
  then show thesis using that p ne by (auto simp: list_all_iff)
qed

lemma set_join_with: "set (join_with sep parts) \<subseteq> set sep \<union> \<Union> (set ` set parts)"
  by (induction sep parts rule: join_with.induct) auto

lemma join_safe_chars:
  assumes "list_all safe_part parts" "c \<in> set (join_with ''/'' parts)"
  shows "\<not> forbidden_char c \<and> byte c \<noteq> 92"
proof -
  consider "c = CHR ''/''" | part where "part \<in> set parts" "c \<in> set part"
    using set_join_with [of "''/''" parts] assms(2) by auto
  then show ?thesis
  proof cases
    case 1
    then show ?thesis by (simp add: forbidden_char_def byte_def)
  next
    case 2
    then show ?thesis using assms(1) by (auto simp: list_all_iff safe_part_iff)
  qed
qed

lemma join_safe_head:
  assumes "list_all safe_part parts" "parts \<noteq> []"
  shows "join_with ''/'' parts \<noteq> [] \<and> hd (join_with ''/'' parts) \<noteq> CHR ''/''"
proof -
  obtain part rest where parts: "parts = part # rest" using assms(2) by (cases parts) auto
  then obtain c cs where part: "part = c # cs" "c \<noteq> CHR ''/''"
    using assms(1) by (cases part) (auto simp: safe_part_iff ordinary_def)
  then show ?thesis by (cases rest) (simp_all add: parts)
qed

lemma split_join_safe:
  "list_all safe_part parts \<Longrightarrow> parts \<noteq> [] \<Longrightarrow> split_on CHR ''/'' (join_with ''/'' parts) = parts"
  by (rule split_join) (auto simp: safe_part_iff list_all_iff)

lemma canonical_join_safe:
  assumes "list_all safe_part parts" "parts \<noteq> []"
  shows "canonical_archive_entry_path (join_with ''/'' parts) = Ok (join_with ''/'' parts)"
proof -
  let ?p = "join_with ''/'' parts"
  have sl: "slashes ?p = ?p"
    using join_safe_chars [OF assms(1)] by (auto intro: slashes_id)
  have ord: "list_all ordinary parts" and safe: "\<not> list_ex unsafe_part parts"
    using assms(1) by (auto simp: safe_part_iff list_all_iff list_ex_iff)
  have last: "last parts \<notin> {[], ''.'', ''..''}"
    using ord assms(2) by (auto simp: list_all_iff ordinary_def)
  have chars: "\<not> list_ex forbidden_char ?p"
    using join_safe_chars [OF assms(1)] by (auto simp: list_ex_iff)
  show ?thesis
    using last join_safe_head [OF assms] chars safe assms(2) resolve_ordinary [OF ord, of "[]"]
    by (simp add: canonical_archive_entry_path_def Let_def sl split_join_safe [OF assms])
qed

lemma join_parts: "list_all ordinary parts \<Longrightarrow> fold (\<lambda>seg p. join_segment p seg) parts d = d @ map Normal parts"
  by (induction parts arbitrary: d) (auto simp: join_segment_def ordinary_def)

text \<open>
  C8: An Archive entry name that passes the check names a file strictly inside the directory it
  is extracted beside: the canonical name is a non-empty list of parts, each of them an ordinary
  name without separator, control or reserved character, not ending in a dot or a space, naming
  neither reserved staging nor a device; and joining it onto any directory appends exactly those
  parts, so no entry reaches a parent, a root or another drive.
\<close>

theorem archive_entry_stays_beside_archive:
  assumes "canonical_archive_entry_path raw = Ok p"
  shows "\<exists>parts. p = join_with ''/'' parts \<and> parts \<noteq> [] \<and> list_all safe_part parts
           \<and> join_game_path d p = d @ map Normal parts
           \<and> contained_parts d (join_game_path d p) = Some parts"
proof -
  obtain parts where p: "p = join_with ''/'' parts" "parts \<noteq> []" "list_all safe_part parts"
    using canonical_parts [OF assms] .
  have ord: "list_all ordinary parts" and st: "\<forall>s\<in>set parts. \<not> is_staging_name s"
    using p(3) by (auto simp: list_all_iff safe_part_iff unsafe_part_def)
  have join: "join_game_path d p = d @ map Normal parts"
    using p by (simp add: join_game_path_def split_join_safe join_parts [OF ord])
  have np: "normal_parts (map Normal parts) = Some parts" for parts
    by (induction parts) auto
  have "contained_parts d (d @ map Normal parts) = Some parts"
    using p(2) st by (simp add: contained_parts_def np has_staging_component_def list_ex_iff
        strip_prefix_Some [THEN iffD2, OF refl])
  then show ?thesis using p join by auto
qed

theorem archive_entry_stays_beside_archive_witness:
  "\<exists>parts. ''a/b.dds'' = join_with ''/'' parts \<and> parts \<noteq> [] \<and> list_all safe_part parts
     \<and> join_game_path [RootDir, Normal ''m''] ''a/b.dds'' = [RootDir, Normal ''m''] @ map Normal parts
     \<and> contained_parts [RootDir, Normal ''m''] (join_game_path [RootDir, Normal ''m''] ''a/b.dds'')
         = Some parts"
  by (rule archive_entry_stays_beside_archive [of "''a//x/../b.dds''"]) code_simp

text \<open>
  The canonical name of an entry is a fixed point of the check: extraction, which checks each
  planned name again before it stages anything, accepts every name the preflight produced.
\<close>

theorem canonical_entry_fixed_point:
  assumes "canonical_archive_entry_path raw = Ok p"
  shows "canonical_archive_entry_path p = Ok p"
  using canonical_parts [OF assms] canonical_join_safe by metis

theorem canonical_entry_fixed_point_witness:
  "canonical_archive_entry_path ''TEXTURES/SHARED.DDS'' = Ok ''TEXTURES/SHARED.DDS''"
proof (rule canonical_entry_fixed_point)
  show "canonical_archive_entry_path
          (''TEXTURES'' @ [char_of (92 :: int)] @ ''folder/.././SHARED.DDS'') = Ok ''TEXTURES/SHARED.DDS''"
    by code_simp
qed

lemma min_sum_list:
  fixes g f :: "'a \<Rightarrow> nat"
  assumes "\<And>x. x \<in> set xs \<Longrightarrow> g x = min (f x) M"
  shows "min (a + sum_list (map g xs)) M = min (a + sum_list (map f xs)) M"
  using assms
proof (induction xs arbitrary: a)
  case (Cons x xs)
  have "min (a + sum_list (map g (x # xs))) M = min (a + g x + sum_list (map g xs)) M"
    by (simp add: add.assoc)
  also have "\<dots> = min (a + g x + sum_list (map f xs)) M"
    using Cons.IH [of "a + g x"] Cons.prems by simp
  also have "\<dots> = min (a + sum_list (map f (x # xs))) M"
    using Cons.prems [of x] by simp
  finally show ?case .
qed simp

text \<open>
  C11: The estimate of an Archive's staging space never wraps: it is the saturated sum of a base
  allowance and, for every entry (shadowed ones too), its unpacked size, eight times the length
  of its name and a fixed overhead.
\<close>

theorem estimate_is_saturated_sum:
  assumes "\<forall>e\<in>set entries. length (entry_name e) < 2 ^ 64"
  shows "unat (estimated_capacity_bytes entries)
         = min (65536 + (\<Sum>e\<leftarrow>entries. unat (decompressed_size e) + 8 * length (entry_name e) + 65536))
               (2 ^ 64 - 1)"
proof -
  let ?f = "\<lambda>e. unat (decompressed_size e) + 8 * length (entry_name e) + 65536"
  let ?g = "\<lambda>e. unat (saturating_add (decompressed_size e) (entry_overhead e))"
  have g: "?g e = min (?f e) (2 ^ 64 - 1)" if "e \<in> set entries" for e
    using assms that
    by (simp add: entry_overhead_def unat_saturating_add unat_saturating_mul unat_of_nat
        take_bit_nat_eq_self)
  have "unat (estimated_capacity_bytes entries) = min (65536 + sum_list (map ?g entries)) (2 ^ 64 - 1)"
    by (simp add: estimated_capacity_bytes_def unat_fold_saturating_add)
  also have "\<dots> = min (65536 + sum_list (map ?f entries)) (2 ^ 64 - 1)"
    by (rule min_sum_list) (rule g)
  finally show ?thesis .
qed

theorem estimate_is_saturated_sum_witness:
  "unat (estimated_capacity_bytes [\<lparr>entry_name = ''a'', decompressed_size = 1000\<rparr>])
     = min (65536 + (\<Sum>e\<leftarrow>[\<lparr>entry_name = ''a'', decompressed_size = 1000\<rparr>].
         unat (decompressed_size e) + 8 * length (entry_name e) + 65536)) (2 ^ 64 - 1)"
  by (rule estimate_is_saturated_sum) simp

subsection \<open>Explicit Archive Precedence paths\<close>

fun rooted :: "component \<Rightarrow> bool" where
  "rooted (Prefix _) = True"
| "rooted RootDir = True"
| "rooted _ = False"

definition ups :: "path \<Rightarrow> nat" where
  "ups p = length (filter (\<lambda>c. c = ParentDir) p)"

definition downs :: "path \<Rightarrow> nat" where
  "downs p = length (filter (\<lambda>c. \<exists>s. c = Normal s) p)"

lemma ups_downs_simps [simp]:
  "ups [] = 0" "downs [] = 0"
  "ups (c # p) = (if c = ParentDir then Suc (ups p) else ups p)"
  "downs (Normal s # p) = Suc (downs p)" "downs (ParentDir # p) = downs p" "downs (CurDir # p) = downs p"
  by (auto simp: ups_def downs_def)

lemma climbs_Cons:
  "(\<exists>n\<le>Suc (length p). k + downs (take n (c # p)) < ups (take n (c # p)))
   \<longleftrightarrow> (\<exists>n\<le>length p. k + downs (c # take n p) < ups (c # take n p))"
proof
  assume "\<exists>n\<le>Suc (length p). k + downs (take n (c # p)) < ups (take n (c # p))"
  then obtain n where n: "n \<le> Suc (length p)" "k + downs (take n (c # p)) < ups (take n (c # p))"
    by auto
  then obtain m where "n = Suc m" by (cases n) auto
  then show "\<exists>n\<le>length p. k + downs (c # take n p) < ups (c # take n p)"
    using n by auto
next
  assume "\<exists>n\<le>length p. k + downs (c # take n p) < ups (c # take n p)"
  then obtain m where "m \<le> length p" "k + downs (c # take m p) < ups (c # take m p)" by auto
  then show "\<exists>n\<le>Suc (length p). k + downs (take n (c # p)) < ups (take n (c # p))"
    by (intro exI [of _ "Suc m"]) auto
qed

lemma contained_loop_None:
  "contained_loop parts p = None \<longleftrightarrow>
   list_ex rooted p \<or> (\<exists>n\<le>length p. length parts + downs (take n p) < ups (take n p))"
proof (induction parts p rule: contained_loop.induct)
  case (1 parts)
  then show ?case by simp
next
  case (2 parts s rest)
  then show ?case by (simp add: climbs_Cons)
next
  case (3 parts rest)
  then show ?case by (simp add: climbs_Cons)
next
  case (4 parts rest)
  show ?case
  proof (cases "parts = []")
    case True
    have "\<exists>n\<le>length rest. length parts + downs (ParentDir # take n rest) < ups (ParentDir # take n rest)"
      by (rule exI [of _ 0]) (simp add: True)
    then show ?thesis using True climbs_Cons [where c = ParentDir and p = rest and k = 0] by simp
  next
    case False
    then obtain m where len: "length parts = Suc m" by (cases parts) simp_all
    show ?thesis
      using 4 [OF False] False climbs_Cons [where c = ParentDir and p = rest and k = "Suc m"]
      by (simp add: len)
  qed
qed simp_all

text \<open>
  A path of an explicit Archive Precedence is refused exactly when it is empty, has a drive,
  share or root, or climbs above its start: some initial part of it holds more \<open>..\<close> than
  ordinary names. An accepted path is reduced to ordinary names only, so joining it onto a Mod
  Root stays inside that root.
\<close>

theorem precedence_path_contained_iff:
  "(contained_relative p = None \<longleftrightarrow>
      p = [] \<or> list_ex rooted p \<or> (\<exists>n. n \<le> length p \<and> downs (take n p) < ups (take n p)))
   \<and> pred_option (\<lambda>q. \<exists>names. q = map Normal names) (contained_relative p)"
proof -
  have "contained_loop [] p = None \<longleftrightarrow>
      list_ex rooted p \<or> (\<exists>n\<le>length p. downs (take n p) < ups (take n p))"
    using contained_loop_None [of "[]" p] by simp
  then show ?thesis by (cases "contained_loop [] p") (auto simp: contained_relative_def)
qed

subsection \<open>Planned outputs\<close>

text \<open>
  What is relied on of \<open>CompareStringOrdinal\<close>: the key of a path is the key of its parts,
  separated by the separator, which no other character maps to.
\<close>

definition ordinal_key :: "name_key \<Rightarrow> bool" where
  "ordinal_key key =
     (key [] = [] \<and> (\<forall>a b. key (a @ CHR ''/'' # b) = key a @ [47] @ key b)
      \<and> (\<forall>s. CHR ''/'' \<notin> set s \<longrightarrow> 47 \<notin> set (key s)))"

definition above :: "name_key \<Rightarrow> string \<Rightarrow> string \<Rightarrow> bool" where
  "above key a p = (\<exists>rest. key p = key a @ 47 # rest)"

lemma slash_prefixes_iff: "a \<in> set (slash_prefixes p) \<longleftrightarrow> (\<exists>b. p = a @ CHR ''/'' # b)"
  by (induction p arbitrary: a) (auto simp: Cons_eq_append_conv)

lemma key_split:
  assumes "ordinal_key key" "key g = ks @ 47 # rest"
  shows "\<exists>a b. g = a @ CHR ''/'' # b \<and> key a = ks"
  using assms(2)
proof (induction "length g" arbitrary: g ks rule: less_induct)
  case less
  have "CHR ''/'' \<in> set g"
    using assms(1) less.prems unfolding ordinal_key_def by (metis in_set_conv_decomp)
  then obtain seg b where g: "g = seg @ CHR ''/'' # b" and seg: "CHR ''/'' \<notin> set seg"
    by (metis split_list_first)
  have kg: "key seg @ 47 # key b = ks @ 47 # rest" and no: "47 \<notin> set (key seg)"
    using assms(1) less.prems seg by (auto simp: ordinal_key_def g)
  show ?case
  proof (cases "ks = key seg")
    case True
    then show ?thesis using g by auto
  next
    case False
    then obtain us where us: "key seg @ us = ks \<and> 47 # key b = us @ 47 # rest
        \<or> key seg = ks @ us \<and> us @ 47 # key b = 47 # rest"
      using kg by (auto simp: append_eq_append_conv2)
    then have "us \<noteq> []" using False by auto
    then have "key seg @ us = ks" "47 # key b = us @ 47 # rest"
      using us no by (auto simp: Cons_eq_append_conv append_eq_Cons_conv)
    then obtain ks' where ks': "ks = key seg @ 47 # ks'" "key b = ks' @ 47 # rest"
      using \<open>us \<noteq> []\<close> by (cases us) auto
    obtain a b' where "b = a @ CHR ''/'' # b'" "key a = ks'"
      using less.hyps [OF _ ks'(2)] by (auto simp: g)
    then have "g = (seg @ CHR ''/'' # a) @ CHR ''/'' # b'" "key (seg @ CHR ''/'' # a) = ks"
      using assms(1) by (auto simp: g ks' ordinal_key_def)
    then show ?thesis by blast
  qed
qed

lemma ancestor_iff:
  assumes "ordinal_key key"
  shows "(\<exists>prefix\<in>set (slash_prefixes p). key prefix = key a) \<longleftrightarrow> above key a p"
proof
  assume "\<exists>prefix\<in>set (slash_prefixes p). key prefix = key a"
  then obtain x b where "p = x @ CHR ''/'' # b" "key x = key a" by (auto simp: slash_prefixes_iff)
  then show "above key a p" using assms by (auto simp: above_def ordinal_key_def)
next
  assume "above key a p"
  then obtain rest where "key p = key a @ 47 # rest" by (auto simp: above_def)
  then obtain x b where "p = x @ CHR ''/'' # b" "key x = key a"
    using key_split [OF assms] by blast
  then show "\<exists>prefix\<in>set (slash_prefixes p). key prefix = key a" by (auto simp: slash_prefixes_iff)
qed

lemma between_prefix:
  fixes P :: "'a :: linorder list"
  shows "P \<le> k \<Longrightarrow> k \<le> P @ x \<Longrightarrow> \<exists>y. k = P @ y"
proof (induction P arbitrary: k)
  case (Cons c P)
  then obtain k' where "k = c # k'" by (cases k) auto
  then show ?case using Cons by auto
qed simp

lemma prefix_less_eq: "(P :: 'a :: linorder list) \<le> P @ x"
  by (induction P) auto

lemma find_sorted_least:
  assumes "sorted (map fst xs)" "find Q xs = Some y" "z \<in> set xs" "Q z"
  shows "fst y \<le> fst z"
  using assms by (induction xs) (auto split: if_splits)

lemma find_SomeD: "find Q xs = Some x \<Longrightarrow> x \<in> set xs \<and> Q x"
  by (induction xs) (auto split: if_splits)

lemma conflicts_iff:
  assumes key: "ordinal_key key" and sorted: "sorted (map fst planned)"
    and keyed: "\<And>k s. (k, s) \<in> set planned \<Longrightarrow> k = key s"
  shows "conflicts_with_planned key planned g \<longleftrightarrow>
         (\<exists>s\<in>snd ` set planned. above key s g \<or> above key g s)"
proof -
  let ?P = "key g @ [47]"
  have P: "key (g @ ''/'') = ?P" using key by (simp add: ordinal_key_def)
  have anc: "list_ex (\<lambda>prefix. key prefix \<in> set (map fst planned)) (slash_prefixes g)
      \<longleftrightarrow> (\<exists>s\<in>snd ` set planned. above key s g)"
  proof -
    have "set (map fst planned) = key ` snd ` set planned" using keyed by force
    then have "list_ex (\<lambda>prefix. key prefix \<in> set (map fst planned)) (slash_prefixes g)
        \<longleftrightarrow> (\<exists>s\<in>snd ` set planned. \<exists>prefix\<in>set (slash_prefixes g). key prefix = key s)"
      by (auto simp: list_ex_iff)
    then show ?thesis by (simp add: ancestor_iff [OF key])
  qed
  have desc: "(case find (\<lambda>(k, _). ?P \<le> k) planned of
        None \<Rightarrow> False | Some (_, child) \<Rightarrow> has_game_path_ancestor key child g)
      \<longleftrightarrow> (\<exists>s\<in>snd ` set planned. above key g s)" (is "?L \<longleftrightarrow> ?R")
  proof
    assume ?L
    then obtain k child where f: "find (\<lambda>(k, _). ?P \<le> k) planned = Some (k, child)"
      and a: "has_game_path_ancestor key child g" by (auto split: option.splits)
    have "(k, child) \<in> set planned" using find_SomeD [OF f] by simp
    moreover have "above key g child"
      using a ancestor_iff [OF key, of child g] by (auto simp: has_game_path_ancestor_def list_ex_iff)
    ultimately show ?R by force
  next
    assume ?R
    then obtain k s where ks: "(k, s) \<in> set planned" "above key g s" by force
    then obtain x where x: "k = ?P @ x" using keyed [OF ks(1)] by (auto simp: above_def)
    have le: "?P \<le> k" unfolding x by (rule prefix_less_eq)
    then obtain k0 child where f: "find (\<lambda>(k, _). ?P \<le> k) planned = Some (k0, child)"
      using ks(1) find_None_iff [of "\<lambda>(k, _). ?P \<le> k" planned]
      by (cases "find (\<lambda>(k, _). ?P \<le> k) planned") auto
    have "?P \<le> k0" "(k0, child) \<in> set planned" using find_SomeD [OF f] by auto
    moreover have "k0 \<le> k" using find_sorted_least [OF sorted f ks(1)] le by simp
    ultimately obtain y where "k0 = ?P @ y" using between_prefix [of ?P k0 x] x by auto
    then have "above key g child" using keyed [OF \<open>(k0, child) \<in> set planned\<close>] by (auto simp: above_def)
    then have "has_game_path_ancestor key child g"
      using ancestor_iff [OF key, of child g] by (auto simp: has_game_path_ancestor_def list_ex_iff)
    then show ?L using f by simp
  qed
  show ?thesis using anc desc by (auto simp: conflicts_with_planned_def P)
qed

text \<open>
  C9: Probing the slices of the path and the first planned output at or after the path with a slash
  finds every conflict: the test is true exactly when some planned output is an ancestor or a
  descendant of the game path at a component boundary, compared as the volume compares names.
\<close>

theorem planned_conflict_exact:
  assumes "ordinal_key key" "sorted (map fst planned)" "list_all (\<lambda>(k, s). k = key s) planned"
  shows "conflicts_with_planned key planned g
         \<longleftrightarrow> (\<exists>s. s \<in> snd ` set planned \<and> (above key s g \<or> above key g s))"
  using conflicts_iff [OF assms(1,2)] assms(3) by (fastforce simp: list_all_iff)

definition ascii_key :: name_key where
  "ascii_key s = map (\<lambda>c. byte (char_to_ascii_uppercase c)) s"

lemma byte_slash: "char_of (47 :: int) = CHR ''/''"
  by code_simp

lemma byte_upper: "byte (char_to_ascii_uppercase c) = 47 \<longleftrightarrow> c = CHR ''/''"
proof
  assume a: "byte (char_to_ascii_uppercase c) = 47"
  then have "byte c = 47"
    by (auto simp: char_to_ascii_uppercase_def split: if_splits)
  then show "c = CHR ''/''" by (metis (full_types) byte_def char_of_char byte_slash)
qed (simp add: char_to_ascii_uppercase_def byte_def)

lemma ascii_key_ordinal: "ordinal_key ascii_key"
  by (auto simp: ordinal_key_def ascii_key_def byte_upper eq_commute [of 47])

definition demo_planned :: "(int list \<times> string) list" where
  "demo_planned = map (\<lambda>s. (ascii_key s, s)) [''Meshes/a.nif'', ''textures/B/c.dds'', ''textures/d'']"

theorem planned_conflict_exact_witness:
  "conflicts_with_planned ascii_key demo_planned ''TEXTURES/b''
     \<and> (conflicts_with_planned ascii_key demo_planned ''TEXTURES/b''
        \<longleftrightarrow> (\<exists>s. s \<in> snd ` set demo_planned \<and> (above ascii_key s ''TEXTURES/b''
                                            \<or> above ascii_key ''TEXTURES/b'' s)))"
proof
  show "conflicts_with_planned ascii_key demo_planned ''TEXTURES/b''"
    by (simp add: conflicts_with_planned_def has_game_path_ancestor_def demo_planned_def ascii_key_def
        char_to_ascii_uppercase_def byte_def)
  show "conflicts_with_planned ascii_key demo_planned ''TEXTURES/b''
        \<longleftrightarrow> (\<exists>s. s \<in> snd ` set demo_planned \<and> (above ascii_key s ''TEXTURES/b''
                                            \<or> above ascii_key ''TEXTURES/b'' s))"
    by (rule planned_conflict_exact [OF ascii_key_ordinal])
       (simp_all add: demo_planned_def ascii_key_def char_to_ascii_uppercase_def byte_def)
qed

end
