(* ===== verification/Observation.thy ===== *)
theory Observation
  imports Prelude
begin

text \<open>
  What a run observes of the world around it. A cancellation token is a flag that other threads
  set once and that is never cleared; the run only reads it. \<open>token\<close> is the number of further reads
  that still find it clear, \<open>None\<close> when it is never set. A call through a seam of the program
  either returns or panics; the panic's message is what \<open>take_panic_message\<close> reads of it.
\<close>

type_synonym token = "nat option"

definition is_cancelled :: "token \<Rightarrow> bool \<times> token" where
  "is_cancelled t = (t = Some 0, map_option (\<lambda>n. n - 1) t)"

lemma is_cancelled_simps [simp]:
  "is_cancelled None = (False, None)"
  "is_cancelled (Some 0) = (True, Some 0)"
  "is_cancelled (Some (Suc n)) = (False, Some n)"
  by (simp_all add: is_cancelled_def)

text \<open>A token once found set is found set by every later read.\<close>

lemma cancelled_stays: "is_cancelled t = (True, t') \<Longrightarrow> is_cancelled t' = (True, t')"
  by (auto simp: is_cancelled_def)

text \<open>The reads left never grow.\<close>

fun before :: "token \<Rightarrow> token \<Rightarrow> bool" where
  "before None t = (t = None)"
| "before (Some n) t = (\<exists>m\<le>n. t = Some m)"

lemma before_refl [simp]: "before t t"
  by (cases t) auto

lemma before_trans: "before a b \<Longrightarrow> before b c \<Longrightarrow> before a c"
  by (cases a; cases b) auto

lemma before_read: "is_cancelled t = (c, t') \<Longrightarrow> before t t'"
  by (cases t) (auto simp: is_cancelled_def)

lemma is_cancelled_cases:
  obtains (stop) "is_cancelled t = (True, Some 0)" "t = Some 0"
  | (go) t1 where "is_cancelled t = (False, t1)" "before t t1"
proof (cases "t = Some 0")
  case False
  then obtain t1 where "is_cancelled t = (False, t1)" by (simp add: is_cancelled_def)
  then show thesis using go before_read by blast
qed (use stop in simp)

datatype 'a call = Returned 'a | Panicked string

text \<open>A panic contained as an error whose text is the panic's message.\<close>

fun contain :: "(string + 'a) call \<Rightarrow> string + 'a" where
  "contain (Returned r) = r"
| "contain (Panicked message) = Err message"

end
