(* ===== verification/Unicode.thy ===== *)
theory Unicode
  imports GamePaths
begin

text \<open>
  Names as characters and paths as text: the part of \<open>OsStr\<close>, \<open>str\<close> and \<open>Path::display\<close> that
  matching, ordering and failure details rely on. A name is its bytes; a character is its code point.
\<close>

text \<open>
  \<open>to_string_lossy\<close>: an \<open>OsStr\<close> is UTF-8 but for unpaired surrogates (\<open>ED A0..BF xx\<close>), each of
  which becomes the replacement character.
\<close>

fun to_string_lossy :: "string \<Rightarrow> string" where
  "to_string_lossy (a # b # c # rest) =
     (if byte a = 237 \<and> byte b \<ge> 160
      then char_of (239 :: int) # char_of (191 :: int) # char_of (189 :: int) # to_string_lossy rest
      else a # to_string_lossy (b # c # rest))"
| "to_string_lossy s = s"

text \<open>\<open>str::chars\<close>: the code points of a UTF-8 string, by the number of bytes the first announces.\<close>

definition continuation_bytes :: "char \<Rightarrow> nat" where
  "continuation_bytes c =
     (if byte c < 192 then 0 else if byte c < 224 then 1 else if byte c < 240 then 2 else 3)"

definition code_point :: "char \<Rightarrow> string \<Rightarrow> int" where
  "code_point c rest =
     (if byte c < 128 then byte c
      else fold (\<lambda>b n. n * 64 + byte b mod 64) rest (byte c mod 2 ^ (6 - length rest)))"

function chars :: "string \<Rightarrow> int list" where
  "chars [] = []"
| "chars (c # rest) =
     code_point c (take (continuation_bytes c) rest) # chars (drop (continuation_bytes c) rest)"
  by pat_completeness auto
termination by (relation "measure length") auto

text \<open>\<open>display_name\<close>: the text of a path, with \<open>/\<close> between its names.\<close>

fun path_text :: "path \<Rightarrow> string" where
  "path_text (Prefix s # rest) = s @ path_text rest"
| "path_text (RootDir # rest) = char_of (92 :: int) # path_text rest"
| "path_text rest = join_with [char_of (92 :: int)] (map component_text rest)"

definition display_name :: "path \<Rightarrow> string" where
  "display_name p = slashes (to_string_lossy (path_text p))"

text \<open>The game path of a path below a Mod Root: what is not Unicode is replaced in each component.\<close>

definition game_path_text :: "path \<Rightarrow> string" where
  "game_path_text relative = join_with ''/'' (map (\<lambda>c. to_string_lossy (component_text c)) relative)"

definition relative_game_path :: "path \<Rightarrow> path \<Rightarrow> string" where
  "relative_game_path root p =
     game_path_text (case strip_prefix p root of None \<Rightarrow> p | Some rest \<Rightarrow> rest)"

end
