(* ===== verification/ArchivePreflight.thy ===== *)
theory ArchivePreflight
  imports Observation Unicode Capacity "HOL-Library.Multiset"
begin

text \<open>
  The preflight of Archive discovery (\<open>run/archives.rs\<close>): explicit Archive Precedence, the manifest
  of every selected Archive with each entry checked, the frozen winners, the collisions and the
  Capacity Check. It changes nothing on disk, so what it reads of the filesystem and of the
  Archives is an argument: \<open>scan_view\<close> holds the answers of \<open>std::fs\<close> and \<open>cao_winfs\<close> and of the
  Archive reader, where an error is its text.
\<close>

record metadata =
  is_dir :: bool
  is_symlink :: bool
  is_reparse_point :: bool

record scan_view =
  ordinal :: name_key
  list_entries :: "path \<Rightarrow> (string + archive_entry list) call"
  weakly_canonical :: "path \<Rightarrow> path option"
  canonical :: "path \<Rightarrow> path option"
  read_dir :: "path \<Rightarrow> string + (string + string) list"
  is_file :: "path \<Rightarrow> bool"
  symlink_metadata :: "path \<Rightarrow> string + metadata"

record root_archives =
  archives_root :: path
  selected_archives :: "path list"
  loose_paths :: "string list"

record extraction_plan =
  plan_archive :: path
  plan_root :: path
  plan_entries :: "string list"
  merge_entries :: "string list"
  plan_bytes :: u64

datatype preflight =
    Planned "extraction_plan list" "archive_collision list" "run_diagnostic option"
  | Failed run_failure
  | Cancelled

definition discovery_failure :: "run_failure_code \<Rightarrow> path \<Rightarrow> string \<Rightarrow> run_failure" where
  "discovery_failure code p what = (new_run_failure code DiscoveringArchives what)\<lparr>failure_path := p\<rparr>"

definition is_loose :: "scan_view \<Rightarrow> root_archives \<Rightarrow> string \<Rightarrow> bool" where
  "is_loose view root game = list_ex (\<lambda>l. ordinal view l = ordinal view game) (loose_paths root)"

subsection \<open>Existing destinations\<close>

fun match_children ::
    "name_key \<Rightarrow> path \<Rightarrow> string \<Rightarrow> (string + string) list \<Rightarrow> path option \<Rightarrow> string + path option" where
  "match_children key dir name [] found = Ok found"
| "match_children key dir name (Inl e # rest) found = Err e"
| "match_children key dir name (Inr child # rest) found =
     (if key child = key name
      then (if found \<noteq> None then Err ''Archive destination has ambiguous casing.''
            else match_children key dir name rest (Some (dir @ [Normal child])))
      else match_children key dir name rest found)"

definition matching_child ::
    "name_key \<Rightarrow> string + (string + string) list \<Rightarrow> path \<Rightarrow> string \<Rightarrow> string + path option" where
  "matching_child key listing dir name =
     (case listing of Inl e \<Rightarrow> Err e | Inr children \<Rightarrow> match_children key dir name children None)"

fun walk_destination :: "scan_view \<Rightarrow> bool \<Rightarrow> path \<Rightarrow> string list \<Rightarrow> string + unit" where
  "walk_destination view has_loose_file current [] = Ok ()"
| "walk_destination view has_loose_file current (part # rest) =
     (case matching_child (ordinal view) (read_dir view current) current part of
        Inl e \<Rightarrow> Err e
      | Inr None \<Rightarrow> Ok ()
      | Inr (Some existing) \<Rightarrow>
          if rest = []
          then (if \<not> has_loose_file \<or> \<not> is_file view existing
                then Err ''Archive destination is already occupied.'' else Ok ())
          else case symlink_metadata view existing of
                 Inl e \<Rightarrow> Err e
               | Inr m \<Rightarrow>
                   if is_reparse_point m then Err ''Archive destination parent is a reparse point.''
                   else if \<not> is_dir m \<or> is_symlink m
                   then Err ''Archive destination parent is not an ordinary directory.''
                   else walk_destination view has_loose_file existing rest)"

definition validate_existing_destination :: "scan_view \<Rightarrow> path \<Rightarrow> path \<Rightarrow> bool \<Rightarrow> string + unit" where
  "validate_existing_destination view root destination has_loose_file =
     (case contained_parts root destination of
        None \<Rightarrow> Err ''Archive destination is outside its Mod Root.''
      | Some parts \<Rightarrow> walk_destination view has_loose_file root parts)"

subsection \<open>Explicit Archive Precedence\<close>

text \<open>
  Two paths are Windows-equivalent when their components are: \<open>compare_ordinal_ignore_case\<close> reads
  their texts, which the separators split the same way.
\<close>

definition path_key :: "scan_view \<Rightarrow> path \<Rightarrow> int list list" where
  "path_key view p = map (\<lambda>c. ordinal view (component_text c)) p"

fun order_loop ::
    "scan_view \<Rightarrow> path \<Rightarrow> path list \<Rightarrow> path list \<Rightarrow> path list \<Rightarrow> run_failure + path list" where
  "order_loop view root archives ordered [] = Ok ordered"
| "order_loop view root archives ordered (requested # rest) =
     (case contained_relative requested of
        None \<Rightarrow> Err (discovery_failure ArchiveOrderOutsideRoot requested
          ''Archive Precedence paths must be relative and contained in the Mod Root.'')
      | Some normalized \<Rightarrow>
          let candidate = root @ normalized in
          if (case canonical view candidate of None \<Rightarrow> False | Some resolved \<Rightarrow> \<not> starts_with resolved root)
          then Err (discovery_failure ArchiveOrderOutsideRoot candidate
                 ''Required Archive resolves outside the Mod Root.'')
          else case find (\<lambda>archive. path_key view archive = path_key view candidate) archives of
                 None \<Rightarrow> Err (discovery_failure ArchiveOrderExtra candidate
                   ''Archive Precedence names an Archive that is not enabled in this Mod Root.'')
               | Some found \<Rightarrow>
                   if found \<in> set ordered
                   then Err (discovery_failure ArchiveOrderDuplicate candidate
                     ''Archive Precedence names the same enabled Archive more than once.'')
                   else order_loop view root archives (ordered @ [found]) rest)"

definition validate_archive_order ::
    "scan_view \<Rightarrow> path \<Rightarrow> path list \<Rightarrow> path list \<Rightarrow> run_failure + path list" where
  "validate_archive_order view root archives order =
     (case order_loop view root archives [] order of
        Inl e \<Rightarrow> Err e
      | Inr ordered \<Rightarrow>
          if length ordered \<noteq> length archives
          then Err (discovery_failure ArchiveOrderMissing root
                 ''Archive Precedence must include every enabled Archive in this Mod Root.'')
          else Ok ordered)"

fun order_roots ::
    "scan_view \<Rightarrow> path list \<Rightarrow> root_archives list \<Rightarrow> run_failure + root_archives list" where
  "order_roots view order [] = Ok []"
| "order_roots view order (root # roots) =
     (case validate_archive_order view (archives_root root) (selected_archives root) order of
        Inl e \<Rightarrow> Err e
      | Inr ordered \<Rightarrow>
          (case order_roots view order roots of
             Inl e \<Rightarrow> Err e
           | Inr rest \<Rightarrow> Ok (root\<lparr>selected_archives := ordered\<rparr> # rest)))"

subsection \<open>Reading the manifests\<close>

text \<open>Every game path a root's Archives provide, in key order, with the first spelling seen.\<close>

type_synonym participants = "(int list \<times> string \<times> path list) list"

definition provide :: "scan_view \<Rightarrow> path \<Rightarrow> string \<Rightarrow> participants \<Rightarrow> participants" where
  "provide view archive game provided =
     entry_modify (ordinal view game) (game, []) (\<lambda>(spelling, by). (spelling, by @ [archive])) provided"

definition destination_inside :: "scan_view \<Rightarrow> path \<Rightarrow> path \<Rightarrow> path option" where
  "destination_inside view root destination =
     (if (case weakly_canonical view destination of None \<Rightarrow> False | Some resolved \<Rightarrow> starts_with resolved root)
      then strip_prefix destination root else None)"

text \<open>One entry: its name below the Archive's directory and its game path, or why it is invalid.\<close>

definition check_entry ::
    "scan_view \<Rightarrow> root_archives \<Rightarrow> path \<Rightarrow> int list list \<Rightarrow> archive_entry \<Rightarrow> string + string \<times> string" where
  "check_entry view root directory own entry =
     (case canonical_archive_entry_path (entry_name entry) of
        Inl e \<Rightarrow> Err e
      | Inr local \<Rightarrow>
          let destination = join_game_path directory local in
          case destination_inside view (archives_root root) destination of
            None \<Rightarrow> Err ''Archive entry resolves outside the Mod Root or cannot be resolved.''
          | Some relative \<Rightarrow>
              let game = game_path_text relative in
              if ordinal view game \<in> set own then Err ''Archive manifest contains aliased entries.''
              else case validate_existing_destination view (archives_root root) destination
                          (is_loose view root game) of
                     Inl e \<Rightarrow> Err e
                   | Inr _ \<Rightarrow> Ok (local, game))"

datatype scan_stop = ScanFailed run_failure | ScanCancelled

fun scan_entries ::
    "scan_view \<Rightarrow> root_archives \<Rightarrow> path \<Rightarrow> path \<Rightarrow> int list list \<Rightarrow> participants \<Rightarrow> token
       \<Rightarrow> archive_entry list \<Rightarrow> (scan_stop + (string \<times> string) list \<times> participants) \<times> token" where
  "scan_entries view root archive directory own provided t [] = (Ok ([], provided), t)"
| "scan_entries view root archive directory own provided t (entry # rest) =
     (let (stop, t1) = is_cancelled t in
      if stop then (Err ScanCancelled, t1)
      else case check_entry view root directory own entry of
             Inl e \<Rightarrow> (Err (ScanFailed (discovery_failure ArchiveEntryInvalid archive e)), t1)
           | Inr (local, game) \<Rightarrow>
               (case scan_entries view root archive directory (ordinal view game # own)
                       (provide view archive game provided) t1 rest of
                  (Inl s, t2) \<Rightarrow> (Err s, t2)
                | (Inr (pairs, provided'), t2) \<Rightarrow> (Ok ((local, game) # pairs, provided'), t2)))"

definition archive_directory :: "root_archives \<Rightarrow> path \<Rightarrow> path" where
  "archive_directory root archive =
     (case parent archive of Some directory \<Rightarrow> directory | None \<Rightarrow> archives_root root)"

text \<open>An Archive's plan before its winners are frozen, with each entry's game path.\<close>

fun scan_archives ::
    "scan_view \<Rightarrow> root_archives \<Rightarrow> participants \<Rightarrow> token \<Rightarrow> path list
       \<Rightarrow> (scan_stop + (extraction_plan \<times> string list) list \<times> participants) \<times> token" where
  "scan_archives view root provided t [] = (Ok ([], provided), t)"
| "scan_archives view root provided t (archive # rest) =
     (let (stop, t1) = is_cancelled t in
      if stop then (Err ScanCancelled, t1)
      else case contain (list_entries view archive) of
             Inl e \<Rightarrow> (Err (ScanFailed (discovery_failure ArchiveUnreadable archive e)), t1)
           | Inr entries \<Rightarrow>
               (case scan_entries view root archive (archive_directory root archive) [] provided t1 entries of
                  (Inl s, t2) \<Rightarrow> (Err s, t2)
                | (Inr (pairs, provided'), t2) \<Rightarrow>
                    (case scan_archives view root provided' t2 rest of
                       (Inl s, t3) \<Rightarrow> (Err s, t3)
                     | (Inr (plans, provided''), t3) \<Rightarrow>
                         (Ok ((\<lparr>plan_archive = archive, plan_root = archives_root root,
                                plan_entries = map fst pairs, merge_entries = [],
                                plan_bytes = estimated_capacity_bytes entries\<rparr>, map snd pairs) # plans,
                              provided''), t3))))"

fun scan_roots ::
    "scan_view \<Rightarrow> nat \<Rightarrow> token \<Rightarrow> root_archives list
       \<Rightarrow> (scan_stop + (nat \<times> extraction_plan \<times> string list) list \<times> participants list) \<times> token" where
  "scan_roots view i t [] = (Ok ([], []), t)"
| "scan_roots view i t (root # roots) =
     (case scan_archives view root [] t (selected_archives root) of
        (Inl s, t1) \<Rightarrow> (Err s, t1)
      | (Inr (plans, provided), t1) \<Rightarrow>
          (case scan_roots view (Suc i) t1 roots of
             (Inl s, t2) \<Rightarrow> (Err s, t2)
           | (Inr (all_plans, parts), t2) \<Rightarrow>
               (Ok (map (Pair i) plans @ all_plans, provided # parts), t2)))"

subsection \<open>Winners, collisions and the verdict\<close>

definition wins :: "scan_view \<Rightarrow> participants \<Rightarrow> path \<Rightarrow> string \<Rightarrow> bool" where
  "wins view provided archive game =
     (case map_of provided (ordinal view game) of Some (_, a # _) \<Rightarrow> a = archive | _ \<Rightarrow> False)"

fun freeze_entries ::
    "scan_view \<Rightarrow> root_archives \<Rightarrow> participants \<Rightarrow> path \<Rightarrow> (int list \<times> string) list
       \<Rightarrow> (string \<times> string) list \<Rightarrow> (unit + string list \<times> (int list \<times> string) list)" where
  "freeze_entries view root provided archive outs [] = Ok ([], outs)"
| "freeze_entries view root provided archive outs ((local, game) # rest) =
     (if \<not> wins view provided archive game \<or> is_loose view root game
      then freeze_entries view root provided archive outs rest
      else if conflicts_with_planned (ordinal view) outs game then Err ()
      else case freeze_entries view root provided archive
                  (entry_modify (ordinal view game) game id outs) rest of
             Inl _ \<Rightarrow> Err ()
           | Inr (merges, outs') \<Rightarrow> Ok (local # merges, outs'))"

fun freeze_plans ::
    "scan_view \<Rightarrow> root_archives list \<Rightarrow> participants list \<Rightarrow> (int list \<times> string) list list
       \<Rightarrow> (nat \<times> extraction_plan \<times> string list) list \<Rightarrow> run_failure + extraction_plan list" where
  "freeze_plans view roots parts outs [] = Ok []"
| "freeze_plans view roots parts outs ((i, plan, games) # rest) =
     (case freeze_entries view (roots ! i) (parts ! i) (plan_archive plan) (outs ! i)
             (zip (plan_entries plan) games) of
        Inl _ \<Rightarrow> Err (discovery_failure ArchiveEntryInvalid (plan_archive plan)
          ''Archive entries require a file and directory at the same game path.'')
      | Inr (merges, outs_i) \<Rightarrow>
          (case freeze_plans view roots parts (outs[i := outs_i]) rest of
             Inl e \<Rightarrow> Err e
           | Inr plans \<Rightarrow> Ok (plan\<lparr>merge_entries := merges\<rparr> # plans)))"

definition root_collisions :: "scan_view \<Rightarrow> root_archives \<times> participants \<Rightarrow> archive_collision list" where
  "root_collisions view = (\<lambda>(root, provided).
     List.map_filter (\<lambda>(k, game, by).
        if length by < 2 then None
        else Some \<lparr>collision_root = archives_root root, collision_game_path = game,
                   winning_archive = hd by, shadowed_archives = tl by,
                   loose_asset_wins = is_loose view root game\<rparr>) provided)"

definition demand_of_plans :: "extraction_plan list \<Rightarrow> demand" where
  "demand_of_plans plans = fold (\<lambda>plan. demand_add (plan_root plan) (plan_bytes plan)) plans empty_demand"

text \<open>The \<open>unreachable!\<close> of the source, a verdict that fails work, is \<open>None\<close>.\<close>

definition preflight_verdict ::
    "extraction_plan list \<Rightarrow> archive_collision list \<Rightarrow> capacity_verdict \<Rightarrow> preflight option" where
  "preflight_verdict plans collisions v =
     (case v of
        Fits \<Rightarrow> Some (Planned plans collisions None)
      | Warn w \<Rightarrow> Some (Planned plans collisions (Some w))
      | FailRun f \<Rightarrow> Some (Failed f)
      | FailWork _ \<Rightarrow> None)"

definition plan_roots ::
    "scan_view \<Rightarrow> volume_probe \<Rightarrow> execution_mode \<Rightarrow> root_archives list \<Rightarrow> token \<Rightarrow> capacity_state
       \<Rightarrow> preflight option \<times> token \<times> capacity_state" where
  "plan_roots view probe mode roots t st =
     (case scan_roots view 0 t roots of
        (Inl (ScanFailed f), t1) \<Rightarrow> (Some (Failed f), t1, st)
      | (Inl ScanCancelled, t1) \<Rightarrow> (Some Cancelled, t1, st)
      | (Inr (scanned, parts), t1) \<Rightarrow>
          (case freeze_plans view roots parts (replicate (length roots) []) scanned of
             Inl f \<Rightarrow> (Some (Failed f), t1, st)
           | Inr plans \<Rightarrow>
               let collisions = concat (map (root_collisions view) (zip roots parts)) in
               if plans = [] then (Some (Planned [] collisions None), t1, st)
               else
                 let (v, st1) = capacity_check probe mode BeforeExtraction (demand_of_plans plans) st
                 in (preflight_verdict plans collisions v, t1, st1)))"

definition apply_precedence ::
    "scan_view \<Rightarrow> archive_precedence \<Rightarrow> root_archives list \<Rightarrow> run_failure + root_archives list" where
  "apply_precedence view precedence roots =
     (case precedence of
        DeterministicDiscovery \<Rightarrow> Ok roots
      | ExplicitOrder order \<Rightarrow> order_roots view order roots)"

definition preflight ::
    "scan_view \<Rightarrow> volume_probe \<Rightarrow> execution_mode \<Rightarrow> archive_precedence \<Rightarrow> root_archives list
       \<Rightarrow> token \<Rightarrow> capacity_state \<Rightarrow> preflight option \<times> token \<times> capacity_state" where
  "preflight view probe mode precedence roots t st =
     (case apply_precedence view precedence roots of
        Inl f \<Rightarrow> (Some (Failed f), t, st)
      | Inr ordered \<Rightarrow> plan_roots view probe mode ordered t st)"

subsection \<open>Lemmas: reading the manifests\<close>

definition entry_place :: "scan_view \<Rightarrow> root_archives \<Rightarrow> path \<Rightarrow> string \<times> string \<Rightarrow> bool" where
  "entry_place view root directory = (\<lambda>(local, game).
     \<exists>relative. destination_inside view (archives_root root) (join_game_path directory local) = Some relative
       \<and> game = game_path_text relative
       \<and> validate_existing_destination view (archives_root root) (join_game_path directory local)
            (is_loose view root game) = Ok ())"

lemma check_entry_ok:
  "check_entry view root directory own entry = Ok (local, game) \<Longrightarrow>
   canonical_archive_entry_path (entry_name entry) = Ok local
   \<and> entry_place view root directory (local, game) \<and> ordinal view game \<notin> set own"
  by (auto simp: check_entry_def entry_place_def Let_def split: sum.splits option.splits if_splits)

definition provide_all :: "scan_view \<Rightarrow> path \<Rightarrow> (string \<times> string) list \<Rightarrow> participants \<Rightarrow> participants" where
  "provide_all view archive pairs provided = fold (\<lambda>(local, game). provide view archive game) pairs provided"

lemma scan_entries_ok:
  assumes "scan_entries view root archive directory own provided t entries = (Ok (pairs, provided'), t')"
  shows "map (\<lambda>e. canonical_archive_entry_path (entry_name e)) entries = map (Ok \<circ> fst) pairs
    \<and> list_all (entry_place view root directory) pairs
    \<and> distinct (map (ordinal view \<circ> snd) pairs) \<and> (\<forall>p\<in>set pairs. ordinal view (snd p) \<notin> set own)
    \<and> provided' = provide_all view archive pairs provided \<and> before t t'"
  using assms
proof (induction entries arbitrary: own provided t pairs)
  case Nil
  then show ?case by (simp add: provide_all_def)
next
  case (Cons entry rest)
  obtain t1 where read: "is_cancelled t = (False, t1)"
    using Cons.prems by (cases "is_cancelled t") (auto split: if_splits)
  then obtain local game where e: "check_entry view root directory own entry = Ok (local, game)"
    using Cons.prems by (auto split: sum.splits)
  then obtain pairs' where rest: "scan_entries view root archive directory (ordinal view game # own)
        (provide view archive game provided) t1 rest = (Ok (pairs', provided'), t')"
      and pairs: "pairs = (local, game) # pairs'"
    using Cons.prems read by (auto split: prod.splits sum.splits)
  show ?case
    using Cons.IH [OF rest] check_entry_ok [OF e] before_read [OF read]
    by (auto simp: pairs provide_all_def intro: before_trans)
qed

text \<open>The Archives that provide a key, from high to low precedence.\<close>

definition providers :: "participants \<Rightarrow> int list \<Rightarrow> path list" where
  "providers provided k = (case map_of provided k of None \<Rightarrow> [] | Some (_, by) \<Rightarrow> by)"

lemma wins_providers: "wins view provided archive game \<longleftrightarrow>
   (case providers provided (ordinal view game) of [] \<Rightarrow> False | a # _ \<Rightarrow> a = archive)"
  by (auto simp: wins_def providers_def split: option.splits list.splits)

abbreviation ordered_keys :: "('k :: linorder \<times> 'v) list \<Rightarrow> bool" where
  "ordered_keys m \<equiv> sorted_wrt (<) (map fst m)"

lemma provide_providers:
  assumes "ordered_keys provided"
  shows "ordered_keys (provide view archive game provided)"
    and "providers (provide view archive game provided) k
         = providers provided k @ (if k = ordinal view game then [archive] else [])"
  using assms sorted_entry_modify
  by (auto simp: provide_def providers_def map_of_entry_modify split: option.splits)

lemma provide_all_providers:
  assumes "ordered_keys provided" "distinct (map (ordinal view \<circ> snd) pairs)"
  shows "ordered_keys (provide_all view archive pairs provided)
    \<and> providers (provide_all view archive pairs provided) k
       = providers provided k @ (if k \<in> ordinal view ` snd ` set pairs then [archive] else [])"
  using assms
proof (induction pairs arbitrary: provided)
  case (Cons p pairs)
  obtain local game where p: "p = (local, game)" by fastforce
  have "provide_all view archive (p # pairs) provided
      = provide_all view archive pairs (provide view archive game provided)"
    by (simp add: provide_all_def p)
  then show ?case
    using Cons.IH [OF provide_providers(1) [OF Cons.prems(1), of view archive game]] Cons.prems
    by (auto simp: provide_providers(2) p image_iff)
qed (simp add: provide_all_def)

text \<open>What one scanned Archive is: its manifest read and every entry in place.\<close>

definition scanned_plan :: "scan_view \<Rightarrow> root_archives \<Rightarrow> path \<Rightarrow> extraction_plan \<times> string list \<Rightarrow> bool" where
  "scanned_plan view root archive = (\<lambda>(plan, games).
     plan_archive plan = archive \<and> plan_root plan = archives_root root \<and> length games = length (plan_entries plan)
     \<and> (\<exists>entries. contain (list_entries view archive) = Ok entries
          \<and> map (\<lambda>e. canonical_archive_entry_path (entry_name e)) entries = map Ok (plan_entries plan)
          \<and> plan_bytes plan = estimated_capacity_bytes entries)
     \<and> list_all (entry_place view root (archive_directory root archive)) (zip (plan_entries plan) games)
     \<and> distinct (map (ordinal view) games))"

lemma scan_archives_ok:
  assumes "scan_archives view root provided t archives = (Ok (plans, provided'), t')" "ordered_keys provided"
  shows "list_all2 (scanned_plan view root) archives plans \<and> ordered_keys provided'
    \<and> (\<forall>k. providers provided' k = providers provided k
             @ map (plan_archive \<circ> fst) (filter (\<lambda>(_, games). k \<in> ordinal view ` set games) plans))
    \<and> before t t'"
  using assms
proof (induction archives arbitrary: provided t plans)
  case Nil
  then show ?case by simp
next
  case (Cons archive rest)
  obtain t1 where read: "is_cancelled t = (False, t1)"
    using Cons.prems by (cases "is_cancelled t") (auto split: if_splits)
  then obtain entries where entries: "contain (list_entries view archive) = Ok entries"
    using Cons.prems by (auto split: sum.splits)
  then obtain pairs provided1 t2 plans' where
      own: "scan_entries view root archive (archive_directory root archive) [] provided t1 entries
              = (Ok (pairs, provided1), t2)"
      and rest: "scan_archives view root provided1 t2 rest = (Ok (plans', provided'), t')"
      and plans: "plans = (\<lparr>plan_archive = archive, plan_root = archives_root root,
            plan_entries = map fst pairs, merge_entries = [],
            plan_bytes = estimated_capacity_bytes entries\<rparr>, map snd pairs) # plans'"
    using Cons.prems read by (auto split: prod.splits sum.splits)
  note e = scan_entries_ok [OF own]
  have all: "provided1 = provide_all view archive pairs provided" "distinct (map (ordinal view \<circ> snd) pairs)"
    using e by auto
  note prov = provide_all_providers [OF Cons.prems(2) all(2), of archive, folded all(1)]
  have "scanned_plan view root archive (hd plans)"
    using e entries by (auto simp: scanned_plan_def plans zip_map_fst_snd)
  moreover have "before t t2" using e before_read [OF read] before_trans by blast
  ultimately show ?case
    using Cons.IH [OF rest] prov by (auto simp: plans image_iff intro: before_trans)
qed

text \<open>The scan of all roots is one group of plans per root, each tagged with its root's index.\<close>

definition tagged :: "nat \<Rightarrow> 'a list list \<Rightarrow> (nat \<times> 'a) list" where
  "tagged i rows = concat (map (\<lambda>(j, row). map (Pair j) row) (enumerate i rows))"

lemma tagged_simps [simp]:
  "tagged i [] = []" "tagged i (row # rows) = map (Pair i) row @ tagged (Suc i) rows"
  by (simp_all add: tagged_def)

definition scanned_root :: "scan_view \<Rightarrow> root_archives \<Rightarrow> (extraction_plan \<times> string list) list \<Rightarrow> participants \<Rightarrow> bool" where
  "scanned_root view root row provided =
     (list_all2 (scanned_plan view root) (selected_archives root) row
      \<and> (\<forall>k. providers provided k
             = map (plan_archive \<circ> fst) (filter (\<lambda>(_, games). k \<in> ordinal view ` set games) row)))"

lemma scan_roots_ok:
  assumes "scan_roots view i t roots = (Ok (scanned, parts), t')"
  shows "\<exists>rows. scanned = tagged i rows \<and> length rows = length roots \<and> length parts = length roots
           \<and> (\<forall>j<length roots. scanned_root view (roots ! j) (rows ! j) (parts ! j))
           \<and> before t t'"
  using assms
proof (induction roots arbitrary: i t scanned parts)
  case Nil
  then show ?case by (auto intro: exI [of _ "[]"])
next
  case (Cons root roots)
  obtain plans provided t1 all_plans parts' where
      own: "scan_archives view root [] t (selected_archives root) = (Ok (plans, provided), t1)"
      and rest: "scan_roots view (Suc i) t1 roots = (Ok (all_plans, parts'), t')"
      and eq: "scanned = map (Pair i) plans @ all_plans" "parts = provided # parts'"
    using Cons.prems by (auto split: prod.splits sum.splits)
  have one: "scanned_root view root plans provided" "before t t1"
    using scan_archives_ok [OF own] by (auto simp: scanned_root_def providers_def)
  obtain rows where g: "all_plans = tagged (Suc i) rows" "length rows = length roots"
      "length parts' = length roots" "before t1 t'"
      "\<forall>j<length roots. scanned_root view (roots ! j) (rows ! j) (parts' ! j)"
    using Cons.IH [OF rest] by blast
  have "scanned_root view ((root # roots) ! j) ((plans # rows) ! j) (parts ! j)"
    if "j < length (root # roots)" for j
    using that one g(5) by (cases j) (simp_all add: eq)
  moreover have "before t t'" using before_trans one(2) g(4) by blast
  ultimately show ?case using g eq by (intro exI [of _ "plans # rows"]) simp
qed

subsection \<open>Lemmas: freezing winners\<close>

text \<open>Freezing the plans of one root, its planned outputs threaded through.\<close>

fun freeze_group ::
    "scan_view \<Rightarrow> root_archives \<Rightarrow> participants \<Rightarrow> (int list \<times> string) list
       \<Rightarrow> (extraction_plan \<times> string list) list
       \<Rightarrow> run_failure + extraction_plan list \<times> (int list \<times> string) list" where
  "freeze_group view root provided outs [] = Ok ([], outs)"
| "freeze_group view root provided outs ((plan, games) # rest) =
     (case freeze_entries view root provided (plan_archive plan) outs (zip (plan_entries plan) games) of
        Inl _ \<Rightarrow> Err (discovery_failure ArchiveEntryInvalid (plan_archive plan)
          ''Archive entries require a file and directory at the same game path.'')
      | Inr (merges, outs1) \<Rightarrow>
          (case freeze_group view root provided outs1 rest of
             Inl e \<Rightarrow> Err e
           | Inr (plans, outs2) \<Rightarrow> Ok (plan\<lparr>merge_entries := merges\<rparr> # plans, outs2)))"

lemma freeze_plans_group:
  assumes "i < length outs"
  shows "freeze_plans view roots parts outs (map (Pair i) row @ rest) =
     (case freeze_group view (roots ! i) (parts ! i) (outs ! i) row of
        Inl e \<Rightarrow> Err e
      | Inr (plans, outs_i) \<Rightarrow>
          (case freeze_plans view roots parts (outs[i := outs_i]) rest of
             Inl e \<Rightarrow> Err e
           | Inr plans' \<Rightarrow> Ok (plans @ plans')))"
  using assms
proof (induction row arbitrary: outs)
  case Nil
  then show ?case by (auto split: sum.splits)
next
  case (Cons p row)
  obtain plan games where p: "p = (plan, games)" by fastforce
  show ?case
  proof (cases "freeze_entries view (roots ! i) (parts ! i) (plan_archive plan) (outs ! i)
      (zip (plan_entries plan) games)")
    case (Inr r)
    then show ?thesis
      using Cons.IH [of "outs[i := snd r]"] Cons.prems
      by (auto simp: p split: sum.splits prod.splits)
  qed (simp add: p)
qed

lemma freeze_plans_tagged:
  assumes "freeze_plans view roots parts outs (tagged i rows) = Ok plans"
    and "length outs = i + length rows" "\<forall>j. i \<le> j \<and> j < length outs \<longrightarrow> outs ! j = []"
  shows "\<exists>frozen. plans = concat frozen \<and> length frozen = length rows
     \<and> (\<forall>j<length rows. \<exists>outs_j. freeze_group view (roots ! (i + j)) (parts ! (i + j)) [] (rows ! j)
                                    = Ok (frozen ! j, outs_j))"
  using assms
proof (induction rows arbitrary: outs i plans)
  case Nil
  then show ?case by (auto intro: exI [of _ "[]"])
next
  case (Cons row rows)
  have i: "i < length outs" and none: "outs ! i = []" using Cons.prems by auto
  obtain plans1 outs_i plans2 where
      own: "freeze_group view (roots ! i) (parts ! i) [] row = Ok (plans1, outs_i)"
      and rest: "freeze_plans view roots parts (outs[i := outs_i]) (tagged (Suc i) rows) = Ok plans2"
      and plans: "plans = plans1 @ plans2"
    using Cons.prems(1) by (auto simp: freeze_plans_group [OF i] none split: sum.splits prod.splits)
  obtain frozen where f: "plans2 = concat frozen" "length frozen = length rows"
      "\<forall>j<length rows. \<exists>outs_j. freeze_group view (roots ! (Suc i + j)) (parts ! (Suc i + j)) [] (rows ! j)
                                    = Ok (frozen ! j, outs_j)"
    using Cons.IH [OF rest] Cons.prems by auto
  have "\<exists>outs_j. freeze_group view (roots ! (i + j)) (parts ! (i + j)) [] ((row # rows) ! j)
          = Ok ((plans1 # frozen) ! j, outs_j)" if "j < length (row # rows)" for j
    using that own f(3) by (cases j) auto
  then show ?case using f plans by (intro exI [of _ "plans1 # frozen"]) auto
qed

text \<open>Planned outputs: keyed, ordered, and no one above another.\<close>

definition free_of_conflicts :: "name_key \<Rightarrow> (int list \<times> string) list \<Rightarrow> bool" where
  "free_of_conflicts key outs =
     (ordered_keys outs \<and> (\<forall>(k, s) \<in> set outs. k = key s)
      \<and> (\<forall>s \<in> snd ` set outs. \<forall>s' \<in> snd ` set outs. \<not> above key s s'))"

lemma not_above_self: "\<not> above key s s"
  unfolding above_def by (metis append_self_conv list.distinct(1) append.assoc)

lemma set_entry_modify_id:
  "set (entry_modify k s id outs) = (if k \<in> fst ` set outs then set outs else insert (k, s) (set outs))"
  if "ordered_keys outs"
  using that
proof (induction outs)
  case (Cons p outs)
  obtain k' v where p: "p = (k', v)" by fastforce
  show ?case using Cons by (force simp: p)
qed simp

lemma free_of_conflicts_insert:
  assumes "free_of_conflicts key outs" "ordinal_key key" "\<not> conflicts_with_planned key outs game"
  shows "free_of_conflicts key (entry_modify (key game) game id outs)"
proof -
  have keyed: "\<And>k s. (k, s) \<in> set outs \<Longrightarrow> k = key s" and order: "ordered_keys outs"
    using assms(1) by (auto simp: free_of_conflicts_def)
  have sorted: "sorted (map fst outs)" using order by (simp add: strict_sorted_iff)
  have free: "\<not> above key s game \<and> \<not> above key game s" if "s \<in> snd ` set outs" for s
    using conflicts_iff [OF assms(2) sorted keyed] assms(3) that by blast
  show ?thesis
    using assms(1) free not_above_self sorted_entry_modify [OF order]
    by (auto simp: free_of_conflicts_def set_entry_modify_id [OF order])
qed

definition winners ::
    "scan_view \<Rightarrow> root_archives \<Rightarrow> participants \<Rightarrow> path \<Rightarrow> (string \<times> string) list \<Rightarrow> (string \<times> string) list" where
  "winners view root provided archive pairs =
     filter (\<lambda>(_, game). wins view provided archive game \<and> \<not> is_loose view root game) pairs"

lemma freeze_entries_ok:
  assumes "freeze_entries view root provided archive outs pairs = Ok (merges, outs')"
  shows "merges = map fst (winners view root provided archive pairs)
    \<and> (ordinal_key (ordinal view) \<longrightarrow> free_of_conflicts (ordinal view) outs \<longrightarrow>
         free_of_conflicts (ordinal view) outs'
         \<and> fst ` set outs' = fst ` set outs
              \<union> ordinal view ` snd ` set (winners view root provided archive pairs))"
  using assms
proof (induction pairs arbitrary: outs merges)
  case Nil
  then show ?case by (simp add: winners_def)
next
  case (Cons p pairs)
  obtain local game where p: "p = (local, game)" by fastforce
  show ?case
  proof (cases "wins view provided archive game \<and> \<not> is_loose view root game")
    case False
    then have step: "freeze_entries view root provided archive outs pairs = Ok (merges, outs')"
      using Cons.prems by (auto simp: p)
    have "winners view root provided archive (p # pairs) = winners view root provided archive pairs"
      using False by (simp add: winners_def p)
    then show ?thesis using Cons.IH [OF step] by simp
  next
    case True
    then obtain merges' where free: "\<not> conflicts_with_planned (ordinal view) outs game"
      and step: "freeze_entries view root provided archive
                   (entry_modify (ordinal view game) game id outs) pairs = Ok (merges', outs')"
      and merges: "merges = local # merges'"
      using Cons.prems by (auto simp: p split: if_splits sum.splits)
    have head: "winners view root provided archive (p # pairs) = p # winners view root provided archive pairs"
      using True by (simp add: winners_def p)
    note IH = Cons.IH [OF step]
    show ?thesis
    proof (intro conjI impI)
      show "merges = map fst (winners view root provided archive (p # pairs))"
        unfolding head merges using IH by (simp add: p)
    next
      assume "ordinal_key (ordinal view)" "free_of_conflicts (ordinal view) outs"
      note ins = IH [THEN conjunct2, rule_format, OF this(1) free_of_conflicts_insert [OF this(2,1) free]]
      show "free_of_conflicts (ordinal view) outs'" using ins by blast
      show "fst ` set outs' = fst ` set outs
          \<union> ordinal view ` snd ` set (winners view root provided archive (p # pairs))"
        unfolding head using ins by (simp add: p)
    qed
  qed
qed

text \<open>The winners of a root's plans against those of an abstract first-provider rule.\<close>

definition plan_winners ::
    "scan_view \<Rightarrow> root_archives \<Rightarrow> participants \<Rightarrow> extraction_plan \<times> string list \<Rightarrow> (string \<times> string) list" where
  "plan_winners view root provided = (\<lambda>(plan, games).
     winners view root provided (plan_archive plan) (zip (plan_entries plan) games))"

lemma freeze_group_ok:
  assumes "freeze_group view root provided outs row = Ok (plans, outs')"
  shows "plans = map (\<lambda>(plan, games). plan\<lparr>merge_entries := map fst (plan_winners view root provided (plan, games))\<rparr>) row
    \<and> (ordinal_key (ordinal view) \<longrightarrow> free_of_conflicts (ordinal view) outs \<longrightarrow>
         free_of_conflicts (ordinal view) outs'
         \<and> fst ` set outs' = fst ` set outs
              \<union> (\<Union>p\<in>set row. ordinal view ` snd ` set (plan_winners view root provided p)))"
  using assms
proof (induction row arbitrary: outs plans)
  case Nil
  then show ?case by simp
next
  case (Cons p row)
  obtain plan games where p: "p = (plan, games)" by fastforce
  obtain merges outs1 plans' where
      own: "freeze_entries view root provided (plan_archive plan) outs (zip (plan_entries plan) games)
              = Ok (merges, outs1)"
      and rest: "freeze_group view root provided outs1 row = Ok (plans', outs')"
      and plans: "plans = plan\<lparr>merge_entries := merges\<rparr> # plans'"
    using Cons.prems by (auto simp: p split: sum.splits prod.splits)
  show ?case
    using freeze_entries_ok [OF own] Cons.IH [OF rest]
    by (auto simp: plans p plan_winners_def)
qed

text \<open>
  The rule the winners refine: walking the root's Archives from high to low precedence with the
  keys already taken, an entry is merged when nothing higher took its game path and no Loose
  Asset holds it. A plan's game paths are those of its entries below the Archive's directory.
\<close>

definition plan_game :: "root_archives \<Rightarrow> extraction_plan \<Rightarrow> string \<Rightarrow> string" where
  "plan_game root plan local =
     relative_game_path (archives_root root)
       (join_game_path (archive_directory root (plan_archive plan)) local)"

fun first_takers :: "scan_view \<Rightarrow> root_archives \<Rightarrow> int list list \<Rightarrow> extraction_plan list \<Rightarrow> string list list" where
  "first_takers view root taken [] = []"
| "first_takers view root taken (plan # plans) =
     filter (\<lambda>local. ordinal view (plan_game root plan local) \<notin> set taken
                      \<and> \<not> is_loose view root (plan_game root plan local)) (plan_entries plan)
     # first_takers view root
         (map (\<lambda>local. ordinal view (plan_game root plan local)) (plan_entries plan) @ taken) plans"

lemma scanned_games:
  assumes "scanned_plan view root archive (plan, games)"
  shows "games = map (plan_game root plan) (plan_entries plan)"
proof -
  have len: "length games = length (plan_entries plan)" and at: "plan_archive plan = archive"
    and place: "list_all (entry_place view root (archive_directory root archive)) (zip (plan_entries plan) games)"
    using assms by (auto simp: scanned_plan_def)
  have "games ! i = plan_game root plan (plan_entries plan ! i)" if i: "i < length games" for i
  proof -
    have "(plan_entries plan ! i, games ! i) \<in> set (zip (plan_entries plan) games)"
      using i len by (auto simp: set_zip)
    then have "entry_place view root (archive_directory root archive) (plan_entries plan ! i, games ! i)"
      using place by (auto simp: list_all_iff)
    then show ?thesis
      by (auto simp: entry_place_def plan_game_def relative_game_path_def destination_inside_def at
          split: if_splits option.splits)
  qed
  then show ?thesis using len by (auto intro: nth_equalityI)
qed

lemma scanned_archives:
  "list_all2 (scanned_plan view root) archives row \<Longrightarrow> map (plan_archive \<circ> fst) row = archives"
  by (induction archives row rule: list_all2_induct) (auto simp: scanned_plan_def)

definition row_keys :: "scan_view \<Rightarrow> (extraction_plan \<times> string list) list \<Rightarrow> int list set" where
  "row_keys view row = (\<Union>(_, games)\<in>set row. ordinal view ` set games)"

lemma wins_split:
  assumes "scanned_root view root (pre @ (plan, games) # suf) provided" "distinct (selected_archives root)"
    and "game \<in> set games"
  shows "wins view provided (plan_archive plan) game \<longleftrightarrow> ordinal view game \<notin> row_keys view pre"
proof -
  let ?K = "\<lambda>(_, games). ordinal view game \<in> ordinal view ` set games"
  have d: "distinct (map (plan_archive \<circ> fst) (pre @ (plan, games) # suf))"
    using assms(1,2) scanned_archives by (metis scanned_root_def)
  have prov: "providers provided (ordinal view game)
      = map (plan_archive \<circ> fst) (filter ?K pre) @ plan_archive plan # map (plan_archive \<circ> fst) (filter ?K suf)"
    using assms(1,3) by (simp add: scanned_root_def)
  show ?thesis
  proof (cases "filter ?K pre")
    case Nil
    then have "ordinal view game \<notin> row_keys view pre"
      by (auto simp: row_keys_def filter_empty_conv)
    then show ?thesis using prov Nil by (simp add: wins_providers)
  next
    case (Cons p ps)
    then have "p \<in> set (filter ?K pre)" by simp
    then have p: "p \<in> set pre" "?K p" by auto
    then have "ordinal view game \<in> row_keys view pre" by (auto simp: row_keys_def)
    moreover have "plan_archive (fst p) \<noteq> plan_archive plan" using d p(1) by force
    ultimately show ?thesis using prov Cons by (simp add: wins_providers)
  qed
qed

lemma filter_zip_map: "map fst (filter (\<lambda>(x, y). P y) (zip xs (map f xs))) = filter (P \<circ> f) xs"
  by (induction xs) auto

lemma winners_first_takers:
  assumes "scanned_root view root row provided" "distinct (selected_archives root)" "row = pre @ suf"
    and "set taken = row_keys view pre"
  shows "map (\<lambda>p. map fst (plan_winners view root provided p)) suf = first_takers view root taken (map fst suf)"
  using assms(3,4)
proof (induction suf arbitrary: pre taken)
  case Nil
  then show ?case by simp
next
  case (Cons p suf)
  obtain plan games where p: "p = (plan, games)" by fastforce
  obtain archive where "scanned_plan view root archive (plan, games)"
    using assms(1) Cons.prems(1)
    by (auto simp: scanned_root_def p list_all2_append2 list_all2_Cons2)
  then have games: "games = map (plan_game root plan) (plan_entries plan)" by (rule scanned_games)
  let ?free = "\<lambda>game. ordinal view game \<notin> set taken \<and> \<not> is_loose view root game"
  have "wins view provided (plan_archive plan) game = (ordinal view game \<notin> set taken)" if "game \<in> set games" for game
    using wins_split [OF assms(1) [unfolded Cons.prems(1) p] assms(2) that] Cons.prems(2) by simp
  then have "plan_winners view root provided p
      = filter (\<lambda>(local, game). ?free game) (zip (plan_entries plan) games)"
    by (auto simp: plan_winners_def winners_def p intro!: filter_cong dest: set_zip_rightD)
  then have head: "map fst (plan_winners view root provided p)
      = filter (?free \<circ> plan_game root plan) (plan_entries plan)"
    by (simp only: games filter_zip_map)
  have "set (map (\<lambda>local. ordinal view (plan_game root plan local)) (plan_entries plan) @ taken)
      = row_keys view (pre @ [p])"
    using Cons.prems(2) by (auto simp: row_keys_def p games)
  from Cons.IH [OF _ this] Cons.prems(1)
  show ?case by (simp add: head) (simp add: p comp_def)
qed

text \<open>What a successful preflight has established of one root.\<close>

definition manifest_read :: "scan_view \<Rightarrow> extraction_plan \<Rightarrow> bool" where
  "manifest_read view plan =
     (\<exists>entries. contain (list_entries view (plan_archive plan)) = Ok entries
        \<and> map (\<lambda>e. canonical_archive_entry_path (entry_name e)) entries = map Ok (plan_entries plan)
        \<and> plan_bytes plan = estimated_capacity_bytes entries)"

definition frozen_root :: "scan_view \<Rightarrow> root_archives \<Rightarrow> extraction_plan list \<Rightarrow> bool" where
  "frozen_root view root plans =
     (map plan_archive plans = selected_archives root
      \<and> list_all (\<lambda>plan. plan_root plan = archives_root root \<and> manifest_read view plan) plans
      \<and> map merge_entries plans = first_takers view root [] plans)"

lemma first_takers_update:
  "(\<And>p. p \<in> set plans \<Longrightarrow> plan_archive (f p) = plan_archive p \<and> plan_entries (f p) = plan_entries p) \<Longrightarrow>
   first_takers view root taken (map f plans) = first_takers view root taken plans"
  by (induction plans arbitrary: taken) (auto simp: plan_game_def)

lemma frozen_rootI:
  assumes "scanned_root view root row provided" "distinct (selected_archives root)"
    and "freeze_group view root provided outs row = Ok (plans, outs')"
  shows "frozen_root view root plans"
proof -
  let ?f = "\<lambda>p. (fst p)\<lparr>merge_entries := map fst (plan_winners view root provided p)\<rparr>"
  have plans: "plans = map ?f row" using freeze_group_ok [OF assms(3)] by (auto simp: case_prod_beta)
  have ok: "list_all2 (scanned_plan view root) (selected_archives root) row"
    using assms(1) by (simp add: scanned_root_def)
  have "list_all (\<lambda>plan. plan_root plan = archives_root root \<and> manifest_read view plan) plans"
    using ok unfolding plans
    by (induction rule: list_all2_induct) (auto simp: scanned_plan_def manifest_read_def)
  moreover have "map merge_entries plans = first_takers view root [] plans"
  proof -
    have "map merge_entries plans = first_takers view root [] (map fst row)"
      using winners_first_takers [OF assms(1,2), of "[]" row "[]"] by (simp add: plans row_keys_def comp_def)
    also have "\<dots> = first_takers view root [] plans"
    proof -
      have "first_takers view root taken (map fst row) = first_takers view root taken (map ?f row)" for taken
        by (induction row arbitrary: taken) (auto simp: plan_game_def)
      then show ?thesis by (simp add: plans)
    qed
    finally show ?thesis .
  qed
  ultimately show ?thesis
    using scanned_archives [OF ok] by (simp add: frozen_root_def plans comp_def)
qed

text \<open>No merged game path of a root needs a directory where another merges a file.\<close>

definition separate :: "scan_view \<Rightarrow> root_archives \<Rightarrow> extraction_plan list \<Rightarrow> bool" where
  "separate view root plans =
     (\<forall>p\<in>set plans. \<forall>q\<in>set plans. \<forall>l\<in>set (merge_entries p). \<forall>m\<in>set (merge_entries q).
        \<not> above (ordinal view) (plan_game root p l) (plan_game root q m))"

lemma above_key_cong: "key s = key s' \<Longrightarrow> key t = key t' \<Longrightarrow> above key s t = above key s' t'"
  by (simp add: above_def)

lemma winner_game:
  assumes "scanned_plan view root archive p" "l \<in> set (map fst (plan_winners view root provided p))"
  shows "\<exists>pair\<in>set (plan_winners view root provided p). snd pair = plan_game root (fst p) l"
proof -
  obtain plan games where p: "p = (plan, games)" by fastforce
  obtain g where g: "(l, g) \<in> set (plan_winners view root provided p)" using assms(2) by auto
  then have "(l, g) \<in> set (zip (plan_entries plan) games)"
    by (auto simp: plan_winners_def winners_def p)
  then have "g = plan_game root plan l"
    using scanned_games [OF assms(1) [unfolded p]] by (auto simp: set_zip)
  then show ?thesis using g p by force
qed

lemma separate_root:
  assumes "scanned_root view root row provided" "ordinal_key (ordinal view)"
    and "freeze_group view root provided [] row = Ok (plans, outs)"
  shows "separate view root plans"
proof -
  let ?f = "\<lambda>p. (fst p)\<lparr>merge_entries := map fst (plan_winners view root provided p)\<rparr>"
  have plans: "plans = map ?f row" using freeze_group_ok [OF assms(3)] by (auto simp: case_prod_beta)
  have free: "free_of_conflicts (ordinal view) outs"
    and keys: "fst ` set outs = (\<Union>p\<in>set row. ordinal view ` snd ` set (plan_winners view root provided p))"
    using freeze_group_ok [OF assms(3)] assms(2) by (auto simp: free_of_conflicts_def)
  have out: "\<exists>s\<in>snd ` set outs. ordinal view s = ordinal view (plan_game root (fst p) l)"
    if pr: "p \<in> set row" and lw: "l \<in> set (map fst (plan_winners view root provided p))" for p l
  proof -
    obtain archive where "scanned_plan view root archive p"
      using assms(1) pr by (auto simp: scanned_root_def list_all2_conv_all_nth in_set_conv_nth)
    from winner_game [OF this lw] obtain pair where
      "pair \<in> set (plan_winners view root provided p)" "snd pair = plan_game root (fst p) l" by blast
    then have "ordinal view (plan_game root (fst p) l) \<in> fst ` set outs"
      unfolding keys using pr by force
    then show ?thesis using free by (force simp: free_of_conflicts_def)
  qed
  show ?thesis
    unfolding separate_def plans
  proof (intro ballI)
    fix p q l m
    assume "p \<in> set (map ?f row)" "q \<in> set (map ?f row)" "l \<in> set (merge_entries p)" "m \<in> set (merge_entries q)"
    then obtain p' q' where p': "p' \<in> set row" "p = ?f p'" "l \<in> set (map fst (plan_winners view root provided p'))"
      and q': "q' \<in> set row" "q = ?f q'" "m \<in> set (map fst (plan_winners view root provided q'))"
      by auto
    obtain s s' where mem: "s \<in> snd ` set outs" "s' \<in> snd ` set outs"
      and same: "ordinal view s = ordinal view (plan_game root (fst p') l)"
      "ordinal view s' = ordinal view (plan_game root (fst q') m)"
      using out [OF p'(1,3)] out [OF q'(1,3)] by blast
    have "\<not> above (ordinal view) s s'"
      using free mem unfolding free_of_conflicts_def by blast
    then have "\<not> above (ordinal view) (plan_game root (fst p') l) (plan_game root (fst q') m)"
      using above_key_cong [OF same] by simp
    then show "\<not> above (ordinal view) (plan_game root p l) (plan_game root q m)"
      by (simp add: p'(2) q'(2) plan_game_def)
  qed
qed

subsection \<open>Lemmas: explicit precedence\<close>

definition names_archive :: "scan_view \<Rightarrow> path \<Rightarrow> path \<Rightarrow> path \<Rightarrow> bool" where
  "names_archive view root requested archive =
     (\<exists>normalized. contained_relative requested = Some normalized
        \<and> path_key view archive = path_key view (root @ normalized))"

lemma order_loop_ok:
  assumes "order_loop view root archives ordered order = Ok out" "distinct ordered" "set ordered \<subseteq> set archives"
  shows "\<exists>added. out = ordered @ added \<and> distinct out \<and> set out \<subseteq> set archives
           \<and> list_all2 (names_archive view root) order added"
  using assms
proof (induction order arbitrary: ordered)
  case (Cons requested rest)
  obtain normalized where n: "contained_relative requested = Some normalized"
    using Cons.prems(1) by (auto split: option.splits)
  obtain found where f: "find (\<lambda>archive. path_key view archive = path_key view (root @ normalized)) archives = Some found"
    and fresh: "found \<notin> set ordered" and rest: "order_loop view root archives (ordered @ [found]) rest = Ok out"
    using Cons.prems(1) n by (auto simp: Let_def split: if_splits option.splits)
  have "found \<in> set archives" "path_key view found = path_key view (root @ normalized)"
    using find_SomeD [OF f] by auto
  then show ?case
    using Cons.IH [OF rest] Cons.prems(2,3) fresh n by (fastforce simp: names_archive_def)
qed auto

lemma validate_order_ok:
  assumes "validate_archive_order view root archives order = Ok ordered" "distinct archives"
  shows "mset ordered = mset archives \<and> distinct ordered \<and> list_all2 (names_archive view root) order ordered"
proof -
  have run: "order_loop view root archives [] order = Ok ordered" and len: "length ordered = length archives"
    using assms(1) by (auto simp: validate_archive_order_def split: sum.splits if_splits)
  note ok = order_loop_ok [OF run]
  have "distinct ordered" "set ordered \<subseteq> set archives" using ok by auto
  then have "set ordered = set archives"
    using len assms(2) by (metis card_subset_eq distinct_card finite_set)
  then show ?thesis using ok assms(2) set_eq_iff_mset_eq_distinct [of ordered archives] by auto
qed

lemma order_roots_ok:
  assumes "order_roots view order roots = Ok ordered" "list_all (\<lambda>r. distinct (selected_archives r)) roots"
  shows "list_all2 (\<lambda>r o'. archives_root o' = archives_root r \<and> loose_paths o' = loose_paths r
           \<and> mset (selected_archives o') = mset (selected_archives r) \<and> distinct (selected_archives o')
           \<and> list_all2 (names_archive view (archives_root r)) order (selected_archives o')) roots ordered"
  using assms
proof (induction roots arbitrary: ordered)
  case (Cons root roots)
  then show ?case by (auto split: sum.splits dest: validate_order_ok)
qed simp

lemma apply_precedence_distinct:
  assumes "apply_precedence view precedence roots = Ok ordered"
    "list_all (\<lambda>r. distinct (selected_archives r)) roots" "r \<in> set ordered"
  shows "distinct (selected_archives r)"
proof (cases precedence)
  case DeterministicDiscovery
  then show ?thesis using assms by (auto simp: apply_precedence_def list_all_iff)
next
  case (ExplicitOrder order)
  then have "order_roots view order roots = Ok ordered" using assms(1) by (simp add: apply_precedence_def)
  from order_roots_ok [OF this assms(2)] assms(3) show ?thesis
    by (auto simp: list_all2_conv_all_nth in_set_conv_nth)
qed

subsection \<open>A concrete preflight\<close>

definition demo_mod :: path where
  "demo_mod = [RootDir, Normal ''mod'']"

definition demo_file :: "string \<Rightarrow> archive_entry" where
  "demo_file name = \<lparr>entry_name = name, decompressed_size = 10\<rparr>"

definition demo_view :: scan_view where
  "demo_view =
     \<lparr>ordinal = ascii_key,
      list_entries = (\<lambda>p. Returned (Ok (if p = demo_mod @ [Normal ''a.bsa'']
        then [demo_file ''t/x.dds'', demo_file ''b.nif'']
        else [demo_file ''T/X.DDS'', demo_file ''c.nif'', demo_file ''b.nif'']))),
      weakly_canonical = Some, canonical = Some,
      read_dir = (\<lambda>p. Ok []), is_file = (\<lambda>_. False), symlink_metadata = (\<lambda>_. Err ''absent'')\<rparr>"

definition demo_roots :: "root_archives list" where
  "demo_roots = [\<lparr>archives_root = demo_mod,
      selected_archives = [demo_mod @ [Normal ''a.bsa''], demo_mod @ [Normal ''b.bsa'']],
      loose_paths = [''B.NIF'']\<rparr>]"

definition silent_probe :: volume_probe where
  "silent_probe = \<lparr>probe_available = (\<lambda>_ _. None), probe_volume = (\<lambda>_ _. None)\<rparr>"

definition demo_order :: archive_precedence where
  "demo_order = ExplicitOrder [[Normal ''B.bsa''], [CurDir, Normal ''a.bsa'']]"

text \<open>The winning entries of the demonstration, the explicit order putting \<open>b.bsa\<close> first.\<close>

lemma demo_merges:
  "(case preflight demo_view silent_probe Apply demo_order demo_roots (Some 100) fresh_state of
      (Some (Planned plans _ _), _) \<Rightarrow> map merge_entries plans | _ \<Rightarrow> [])
   = [[''T/X.DDS'', ''c.nif''], []]"
  by code_simp

lemma demo_planned:
  "\<exists>plans collisions w t' st'.
     preflight demo_view silent_probe Apply demo_order demo_roots (Some 100) fresh_state
       = (Some (Planned plans collisions w), t', st')"
proof -
  have "(case preflight demo_view silent_probe Apply demo_order demo_roots (Some 100) fresh_state of
      (Some (Planned _ _ _), _) \<Rightarrow> True | _ \<Rightarrow> False)"
    by code_simp
  then show ?thesis by (auto split: prod.splits option.splits preflight.splits)
qed

subsection \<open>Properties\<close>

lemma plan_roots_ok:
  assumes "plan_roots view probe mode roots t st = (Some (Planned plans collisions w), t', st')"
  shows "\<exists>frozen rows parts. plans = concat frozen \<and> length frozen = length roots
     \<and> length rows = length roots \<and> length parts = length roots
     \<and> collisions = concat (map (root_collisions view) (zip roots parts))
     \<and> (\<forall>j<length roots. scanned_root view (roots ! j) (rows ! j) (parts ! j)
          \<and> (\<exists>outs. freeze_group view (roots ! j) (parts ! j) [] (rows ! j) = Ok (frozen ! j, outs)))"
proof -
  obtain scanned parts t1 plans' where
      scan: "scan_roots view 0 t roots = (Ok (scanned, parts), t1)"
      and freeze: "freeze_plans view roots parts (replicate (length roots) []) scanned = Ok plans'"
      and eq: "plans = plans'" "collisions = concat (map (root_collisions view) (zip roots parts))"
    using assms
    by (auto simp: plan_roots_def Let_def preflight_verdict_def
        split: sum.splits prod.splits scan_stop.splits if_splits capacity_verdict.splits)
  obtain rows where rows: "scanned = tagged 0 rows" "length rows = length roots"
      "length parts = length roots" "\<forall>j<length roots. scanned_root view (roots ! j) (rows ! j) (parts ! j)"
    using scan_roots_ok [OF scan] by blast
  obtain frozen where "plans' = concat frozen" "length frozen = length rows"
      "\<forall>j<length rows. \<exists>outs. freeze_group view (roots ! (0 + j)) (parts ! (0 + j)) [] (rows ! j)
                                 = Ok (frozen ! j, outs)"
    using freeze_plans_tagged [OF freeze [unfolded rows(1)]] rows by auto
  then show ?thesis
    using rows eq by (intro exI [of _ frozen] exI [of _ rows] exI [of _ parts]) simp
qed

text \<open>
  C12: The frozen winners refine the first-provider rule. When the preflight plans, the plans fall
  into one group per Mod Root, in the order of the roots. A group has one plan per selected Archive,
  in Archive Precedence; each plan carries its whole manifest under canonical names and the estimate
  of exactly that manifest; and its merge entries are, in manifest order, exactly those whose game
  path no Archive of higher precedence provides and no Loose Asset holds. So each game path is
  merged at most once, by its highest provider, however the providers were collected.
\<close>

theorem preflight_freezes_first_providers:
  assumes "preflight view probe mode precedence roots t st
             = (Some (Planned plans collisions w), t', st')"
    and "list_all (\<lambda>r. distinct (selected_archives r)) roots"
  shows "\<exists>ordered frozen. apply_precedence view precedence roots = Ok ordered
           \<and> plans = concat frozen \<and> list_all2 (frozen_root view) ordered frozen"
proof -
  obtain ordered where o: "apply_precedence view precedence roots = Ok ordered"
    and run: "plan_roots view probe mode ordered t st = (Some (Planned plans collisions w), t', st')"
    using assms(1) by (auto simp: preflight_def split: sum.splits)
  obtain frozen rows parts where f: "plans = concat frozen" "length frozen = length ordered"
      "\<forall>j<length ordered. scanned_root view (ordered ! j) (rows ! j) (parts ! j)
          \<and> (\<exists>outs. freeze_group view (ordered ! j) (parts ! j) [] (rows ! j) = Ok (frozen ! j, outs))"
    using plan_roots_ok [OF run] by blast
  have "frozen_root view (ordered ! j) (frozen ! j)" if "j < length ordered" for j
    using f(3) that apply_precedence_distinct [OF o assms(2)] frozen_rootI by (metis nth_mem)
  then show ?thesis using o f by (auto simp: list_all2_conv_all_nth)
qed

theorem preflight_freezes_first_providers_witness:
  "\<exists>plans ordered frozen. fst (preflight demo_view silent_probe Apply demo_order demo_roots (Some 100) fresh_state)
       \<in> range (\<lambda>(c, w). Some (Planned plans c w))
     \<and> apply_precedence demo_view demo_order demo_roots = Ok ordered
     \<and> plans = concat frozen \<and> list_all2 (frozen_root demo_view) ordered frozen"
proof -
  obtain plans collisions w t' st' where run:
    "preflight demo_view silent_probe Apply demo_order demo_roots (Some 100) fresh_state
       = (Some (Planned plans collisions w), t', st')"
    using demo_planned by blast
  have "list_all (\<lambda>r. distinct (selected_archives r)) demo_roots" by code_simp
  from preflight_freezes_first_providers [OF run this] run show ?thesis by (force simp: image_iff)
qed

text \<open>
  C13: The merge entries of a Mod Root's plans never require a file and a directory at one game
  path: under the volume's ordering of names, no merged game path lies above another.
\<close>

theorem preflight_merges_never_conflict:
  assumes "preflight view probe mode precedence roots t st
             = (Some (Planned plans collisions w), t', st')"
    and "ordinal_key (ordinal view)"
  shows "\<exists>ordered frozen. apply_precedence view precedence roots = Ok ordered
           \<and> plans = concat frozen \<and> list_all2 (separate view) ordered frozen"
proof -
  obtain ordered where o: "apply_precedence view precedence roots = Ok ordered"
    and run: "plan_roots view probe mode ordered t st = (Some (Planned plans collisions w), t', st')"
    using assms(1) by (auto simp: preflight_def split: sum.splits)
  obtain frozen rows parts where f: "plans = concat frozen" "length frozen = length ordered"
      "\<forall>j<length ordered. scanned_root view (ordered ! j) (rows ! j) (parts ! j)
          \<and> (\<exists>outs. freeze_group view (ordered ! j) (parts ! j) [] (rows ! j) = Ok (frozen ! j, outs))"
    using plan_roots_ok [OF run] by blast
  have "separate view (ordered ! j) (frozen ! j)" if "j < length ordered" for j
    using f(3) that separate_root [OF _ assms(2)] by blast
  then show ?thesis using o f by (auto simp: list_all2_conv_all_nth)
qed

theorem preflight_merges_never_conflict_witness:
  "\<exists>plans ordered frozen. fst (preflight demo_view silent_probe Apply demo_order demo_roots (Some 100) fresh_state)
       \<in> range (\<lambda>(c, w). Some (Planned plans c w))
     \<and> apply_precedence demo_view demo_order demo_roots = Ok ordered
     \<and> plans = concat frozen \<and> list_all2 (separate demo_view) ordered frozen"
proof -
  obtain plans collisions w t' st' where run:
    "preflight demo_view silent_probe Apply demo_order demo_roots (Some 100) fresh_state
       = (Some (Planned plans collisions w), t', st')"
    using demo_planned by blast
  have "ordinal_key (ordinal demo_view)" by (simp add: demo_view_def ascii_key_ordinal)
  from preflight_merges_never_conflict [OF run this] run show ?thesis by (force simp: image_iff)
qed

text \<open>
  A valid explicit Archive Precedence is a permutation of the enabled Archives: every one of
  them is named exactly once, nothing else is, and the order of the names is the order used.
\<close>

theorem explicit_order_is_permutation:
  assumes "validate_archive_order view root archives order = Ok ordered" "distinct archives"
  shows "mset ordered = mset archives \<and> list_all2 (names_archive view root) order ordered"
  using validate_order_ok [OF assms] by simp

theorem explicit_order_is_permutation_witness:
  "mset [demo_mod @ [Normal ''b.bsa''], demo_mod @ [Normal ''a.bsa'']]
     = mset [demo_mod @ [Normal ''a.bsa''], demo_mod @ [Normal ''b.bsa'']]
   \<and> list_all2 (names_archive demo_view demo_mod) [[Normal ''B.bsa''], [CurDir, Normal ''a.bsa'']]
       [demo_mod @ [Normal ''b.bsa''], demo_mod @ [Normal ''a.bsa'']]"
  by (rule explicit_order_is_permutation) code_simp+

text \<open>
  The arm the preflight declares unreachable is: before extraction no verdict fails single
  work, so every preflight ends as a plan, a Run Failure or a cancellation.
\<close>

theorem preflight_always_decides:
  "fst (preflight view probe mode precedence roots t st) \<noteq> None"
proof -
  have "preflight_verdict plans collisions v \<noteq> None"
    if v: "capacity_check probe mode BeforeExtraction d s = (v, s')" for d s v s' plans collisions
    using v by (cases mode)
      (auto simp: capacity_check_def verdict_def preflight_verdict_def apfst_def map_prod_def
        split: prod.splits option.splits capacity_verdict.splits)
  then show ?thesis
    by (auto simp: preflight_def plan_roots_def Let_def
        split: sum.splits prod.splits scan_stop.splits)
qed

end
