(* ===== verification/ArchiveExtraction.thy ===== *)
theory ArchiveExtraction
  imports ArchivePreflight
begin

text \<open>
  The extraction of one planned Archive (\<open>run/archives.rs\<close>: \<open>extract_archive\<close>, \<open>extract_staged\<close>,
  \<open>try_extract\<close>, \<open>prepare_merge_target\<close>). Every call that leaves the function, to the Archive
  reader, the filesystem, the artifact registry or the source pin, is answered by an environment
  that may depend on all calls made before: the history of calls is part of the state, and the
  properties speak of it.
\<close>

datatype seam_call =
    PinSource path path
  | ResolveRoot path
  | ListEntries path
  | StageFile path
  | ReceiptPath nat
  | ExtractEntry path string path
  | ReadDirectory path
  | CreateDirectory path
  | InspectDirectory path
  | PinDirectory path
  | Publish nat path
  | ReleaseReader
  | RemoveSource
  | BackupSource
  | RepinSource
  | RelistSource

type_synonym history = "seam_call list"

text \<open>What the seams answer, given the calls made before. Only seams the code contains may panic.\<close>

record extraction_env =
  env_key :: name_key
  env_probe :: volume_probe
  env_mode :: execution_mode
  absolute_path :: "path \<Rightarrow> string + path"
  pin_source :: "history \<Rightarrow> path \<Rightarrow> path \<Rightarrow> (string + unit) call"
  resolve_root :: "history \<Rightarrow> path \<Rightarrow> string + path"
  read_entries :: "history \<Rightarrow> path \<Rightarrow> (string + archive_entry list) call"
  stage_entry :: "history \<Rightarrow> path \<Rightarrow> string + nat"
  receipt_path :: "history \<Rightarrow> nat \<Rightarrow> string + path"
  unpack_entry :: "history \<Rightarrow> path \<Rightarrow> string \<Rightarrow> path \<Rightarrow> (string + unit) call"
  list_directory :: "history \<Rightarrow> path \<Rightarrow> string + (string + string) list"
  make_directory :: "history \<Rightarrow> path \<Rightarrow> string + unit"
  inspect_directory :: "history \<Rightarrow> path \<Rightarrow> string + metadata"
  hold_directory :: "history \<Rightarrow> path \<Rightarrow> string + unit"
  publish_entry :: "history \<Rightarrow> nat \<Rightarrow> path \<Rightarrow> publication_result"
  release_reader :: "history \<Rightarrow> unit call"
  clean_source :: "history \<Rightarrow> source_cleanup \<Rightarrow> (string + unit) call"
  repin_source :: "history \<Rightarrow> (string + unit) call"
  relist_source :: "history \<Rightarrow> (string + archive_entry list) call"

text \<open>How far an attempt got, with the calls it made and the state of the Capacity Check.\<close>

record extraction =
  calls :: history
  merging :: bool
  committed :: bool
  checks :: capacity_state

definition called :: "seam_call \<Rightarrow> extraction \<Rightarrow> extraction" where
  "called c s = s\<lparr>calls := calls s @ [c]\<rparr>"

subsection \<open>The merge destination\<close>

text \<open>The directories of the destination, created when missing and held until publication.\<close>

definition enter_directory ::
    "extraction_env \<Rightarrow> bool \<Rightarrow> path \<Rightarrow> extraction \<Rightarrow> (string + unit) \<times> extraction" where
  "enter_directory env found dir s =
     (let (made, s1) = (if found then (Ok (), s)
                        else (make_directory env (calls s) dir, called (CreateDirectory dir) s))
      in case made of
           Inl e \<Rightarrow> (Err e, s1)
         | Inr _ \<Rightarrow>
             let s2 = called (InspectDirectory dir) s1 in
             case inspect_directory env (calls s1) dir of
               Inl e \<Rightarrow> (Err e, s2)
             | Inr m \<Rightarrow>
                 if \<not> is_dir m \<or> is_symlink m \<or> is_reparse_point m
                 then (Err ''Archive destination parent is not an ordinary directory.'', s2)
                 else (hold_directory env (calls s2) dir, called (PinDirectory dir) s2))"

fun walk_target ::
    "extraction_env \<Rightarrow> path \<Rightarrow> string list \<Rightarrow> extraction \<Rightarrow> (string + path) \<times> extraction" where
  "walk_target env current [] s = (Ok current, s)"
| "walk_target env current (part # rest) s =
     (let s1 = called (ReadDirectory current) s in
      case matching_child (env_key env) (list_directory env (calls s) current) current part of
        Inl e \<Rightarrow> (Err e, s1)
      | Inr existing \<Rightarrow>
          let dir = (case existing of Some p \<Rightarrow> p | None \<Rightarrow> current @ [Normal part])
          in if rest = []
             then (if existing \<noteq> None then (Err ''Archive destination appeared after preflight.'', s1)
                   else (Ok dir, s1))
             else case enter_directory env (existing \<noteq> None) dir s1 of
                    (Inl e, s2) \<Rightarrow> (Err e, s2)
                  | (Inr _, s2) \<Rightarrow> walk_target env dir rest s2)"

definition prepare_merge_target ::
    "extraction_env \<Rightarrow> path \<Rightarrow> path \<Rightarrow> extraction \<Rightarrow> (string + path) \<times> extraction" where
  "prepare_merge_target env root destination s =
     (case contained_parts root destination of
        None \<Rightarrow> (Err ''Archive destination is outside its Mod Root.'', s)
      | Some parts \<Rightarrow> walk_target env root parts s)"

subsection \<open>Checking the plan, staging and merging\<close>

text \<open>A \<open>BTreeSet<&str>\<close> is walked in byte order.\<close>

fun check_expected :: "name_key \<Rightarrow> int list list \<Rightarrow> string list \<Rightarrow> string + unit" where
  "check_expected key keys [] = Ok ()"
| "check_expected key keys (entry # rest) =
     (if canonical_archive_entry_path entry \<noteq> Ok entry then Err ''Archive plan contains a noncanonical entry.''
      else if key entry \<in> set keys then Err ''Archive manifest contains aliased entries.''
      else check_expected key (key entry # keys) rest)"

definition check_plan :: "name_key \<Rightarrow> extraction_plan \<Rightarrow> string + unit" where
  "check_plan key plan =
     (if \<not> distinct (plan_entries plan) then Err ''Archive manifest contains duplicate canonical entries.''
      else case check_expected key [] (sort (plan_entries plan)) of
             Inl e \<Rightarrow> Err e
           | Inr _ \<Rightarrow>
               if list_ex (\<lambda>e. e \<notin> set (plan_entries plan)) (merge_entries plan)
               then Err ''Archive merge entry is absent from its manifest.'' else Ok ())"

definition changed :: string where
  "changed = ''Archive manifest changed after preflight.''"

fun stage_entries ::
    "extraction_env \<Rightarrow> path \<Rightarrow> path \<Rightarrow> string list \<Rightarrow> archive_entry list \<Rightarrow> (string \<times> nat) list \<Rightarrow> extraction
       \<Rightarrow> (string + (string \<times> nat) list) \<times> extraction" where
  "stage_entries env root source expected [] staged s = (Ok staged, s)"
| "stage_entries env root source expected (entry # rest) staged s =
     (case canonical_archive_entry_path (entry_name entry) of
        Inl _ \<Rightarrow> (Err changed, s)
      | Inr name \<Rightarrow>
          if name \<notin> set expected \<or> map_of staged name \<noteq> None then (Err changed, s)
          else
            let s1 = called (StageFile root) s in
            case stage_entry env (calls s) root of
              Inl e \<Rightarrow> (Err e, s1)
            | Inr receipt \<Rightarrow>
                let s2 = called (ReceiptPath receipt) s1 in
                case receipt_path env (calls s1) receipt of
                  Inl e \<Rightarrow> (Err e, s2)
                | Inr p \<Rightarrow>
                    let s3 = called (ExtractEntry source (entry_name entry) p) s2 in
                    case contain (unpack_entry env (calls s2) source (entry_name entry) p) of
                      Inl e \<Rightarrow> (Err e, s3)
                    | Inr _ \<Rightarrow> stage_entries env root source expected rest ((name, receipt) # staged) s3)"

fun merge_loop ::
    "extraction_env \<Rightarrow> path \<Rightarrow> path \<Rightarrow> string list \<Rightarrow> (string \<times> nat) list \<Rightarrow> extraction
       \<Rightarrow> (string + unit) \<times> extraction" where
  "merge_loop env root directory [] staged s = (Ok (), s)"
| "merge_loop env root directory (entry # rest) staged s =
     (case map_of staged entry of
        None \<Rightarrow> (Err changed, s)
      | Some receipt \<Rightarrow>
          (case prepare_merge_target env root (join_game_path directory entry) s of
             (Inl e, s1) \<Rightarrow> (Err e, s1)
           | (Inr target, s1) \<Rightarrow>
               let publication = publish_entry env (calls s1) receipt target;
                   s2 = called (Publish receipt target) s1;
                   s3 = (if publication_mutation publication = MCommitted then s2\<lparr>committed := True\<rparr> else s2)
               in if publication_state publication \<noteq> PublishedAndReleased
                  then (Err (if error_detail publication = [] then ''Archive publication did not complete.''
                             else error_detail publication), s3)
                  else merge_loop env root directory rest (filter (\<lambda>(e, _). e \<noteq> entry) staged) s3))"

subsection \<open>The attempt\<close>

definition source_contained :: "path \<Rightarrow> path \<Rightarrow> bool" where
  "source_contained root source =
     (case strip_prefix source root of
        None \<Rightarrow> False
      | Some relative \<Rightarrow> relative \<noteq> [] \<and> normal_parts relative \<noteq> None \<and> \<not> has_staging_component relative)"

text \<open>
  The recheck of free space before staging. The stage of the check is \<open>Recheck\<close>, whose verdicts
  are a fit or a failure of this work; the arms the source declares unreachable are taken as a fit.
\<close>

definition capacity_recheck ::
    "extraction_env \<Rightarrow> path \<Rightarrow> u64 \<Rightarrow> extraction \<Rightarrow> capacity_shortage option \<times> extraction" where
  "capacity_recheck env root required s =
     (let (r, st) = recheck_at (env_probe env) (env_mode env) (demand_add root required empty_demand) root (checks s)
      in (case r of Some shortage \<Rightarrow> shortage | None \<Rightarrow> None, s\<lparr>checks := st\<rparr>))"

definition stage_and_merge ::
    "extraction_env \<Rightarrow> extraction_plan \<Rightarrow> path \<Rightarrow> path \<Rightarrow> archive_entry list \<Rightarrow> extraction
       \<Rightarrow> (string + archive_extraction_failure operation_failure option) \<times> extraction" where
  "stage_and_merge env plan root source entries s =
     (case check_plan (env_key env) plan of
        Inl e \<Rightarrow> (Err e, s)
      | Inr _ \<Rightarrow>
          (case stage_entries env root source (plan_entries plan) entries [] s of
             (Inl e, s1) \<Rightarrow> (Err e, s1)
           | (Inr staged, s1) \<Rightarrow>
               if length staged \<noteq> length (plan_entries plan) then (Err changed, s1)
               else
                 let directory = (case parent source of Some d \<Rightarrow> d | None \<Rightarrow> root) in
                 (case merge_loop env root directory (merge_entries plan) staged (s1\<lparr>merging := True\<rparr>) of
                    (Inl e, s2) \<Rightarrow> (Err e, s2)
                  | (Inr _, s2) \<Rightarrow> (Ok None, s2))))"

definition try_extract ::
    "extraction_env \<Rightarrow> extraction_plan \<Rightarrow> extraction
       \<Rightarrow> (string + archive_extraction_failure operation_failure option) \<times> extraction" where
  "try_extract env plan s =
     (let s1 = called (ResolveRoot (plan_root plan)) s in
      case resolve_root env (calls s) (plan_root plan) of
        Inl e \<Rightarrow> (Err e, s1)
      | Inr root \<Rightarrow>
          (case absolute_path env (plan_archive plan) of
             Inl e \<Rightarrow> (Err e, s1)
           | Inr source \<Rightarrow>
               if \<not> source_contained root source then (Err ''Archive source is outside its Mod Root.'', s1)
               else
                 let s2 = called (ListEntries source) s1 in
                 case contain (read_entries env (calls s1) source) of
                   Inl e \<Rightarrow> (Err e, s2)
                 | Inr entries \<Rightarrow>
                     let required = max (plan_bytes plan) (estimated_capacity_bytes entries);
                         (shortage, s3) = capacity_recheck env root required s2
                     in case shortage of
                          Some x \<Rightarrow> (Ok (Some (from_capacity_shortage ExtractionInsufficientCapacity x)), s3)
                        | None \<Rightarrow> stage_and_merge env plan root source entries s3))"

definition extract_staged ::
    "extraction_env \<Rightarrow> extraction_plan \<Rightarrow> extraction
       \<Rightarrow> archive_extraction_failure attempt_outcome \<times> extraction" where
  "extract_staged env plan s =
     (let (r, s1) = try_extract env plan (s\<lparr>merging := False, committed := False\<rparr>);
          s2 = called ReleaseReader s1
      in (case r of
            Inr None \<Rightarrow> Succeeded (if committed s2 then CCommitted else CNone)
          | Inr (Some rejection) \<Rightarrow> attempt_outcome.Failed rejection MNone True
          | Inl e \<Rightarrow>
              attempt_outcome.Failed
                (new_failure (if merging s2 then MergeFailed else ExtractionFailed) e)
                (if committed s2 then MPartialOrUnknown else MNone)
                (\<not> committed s2),
          s2))"

text \<open>
  Whether the retained source is still the same readable Archive. The reader is released after the
  manifest was read, whatever it answered; any panic on the way counts as unreadable.
\<close>

definition source_readable :: "extraction_env \<Rightarrow> extraction \<Rightarrow> bool \<times> extraction" where
  "source_readable env s =
     (let s1 = called RepinSource s in
      case repin_source env (calls s) of
        Returned (Inr _) \<Rightarrow>
          let s2 = called RelistSource s1 in
          (case relist_source env (calls s1) of
             Returned r \<Rightarrow>
               let s3 = called ReleaseReader s2 in
               (case release_reader env (calls s2) of
                  Returned _ \<Rightarrow> (is_ok r, s3)
                | Panicked _ \<Rightarrow> (False, s3))
           | Panicked _ \<Rightarrow> (False, s2))
      | _ \<Rightarrow> (False, s1))"

definition extraction_result ::
    "extraction_plan \<Rightarrow> archive_extraction_failure attempt_outcome \<Rightarrow> archive_extraction_result" where
  "extraction_result plan outcome =
     \<lparr>extraction_path = plan_archive plan, extraction_root = plan_root plan, extraction_outcome = outcome\<rparr>"

definition clean_up ::
    "extraction_env \<Rightarrow> source_cleanup \<Rightarrow> archive_extraction_failure attempt_outcome \<Rightarrow> extraction
       \<Rightarrow> archive_extraction_failure attempt_outcome \<times> extraction" where
  "clean_up env cleanup staged s =
     (let s1 = called (case cleanup of Remove \<Rightarrow> RemoveSource | Backup \<Rightarrow> BackupSource) s in
      case clean_source env (calls s) cleanup of
        Returned (Inr _) \<Rightarrow> (Succeeded CCommitted, s1)
      | Returned (Inl e) \<Rightarrow>
          let (safe, s2) = (if mutation_of staged = MCommitted then source_readable env s1 else (False, s1))
          in (attempt_outcome.Failed (new_failure ExtractionSourceCleanupFailed e)
                (if safe then mutation_of staged else MPartialOrUnknown) safe, s2)
      | Panicked e \<Rightarrow>
          (attempt_outcome.Failed (new_failure ExtractionSourceCleanupFailed e) MPartialOrUnknown False, s1))"

definition extract_archive ::
    "extraction_env \<Rightarrow> extraction_plan \<Rightarrow> source_cleanup \<Rightarrow> extraction
       \<Rightarrow> archive_extraction_result \<times> extraction" where
  "extract_archive env plan cleanup s =
     (let s1 = called (PinSource (plan_archive plan) (plan_root plan)) s in
      case contain (pin_source env (calls s) (plan_archive plan) (plan_root plan)) of
        Inl e \<Rightarrow>
          (extraction_result plan (attempt_outcome.Failed (new_failure ExtractionFailed e) MNone True), s1)
      | Inr _ \<Rightarrow>
          let (staged, s2) = extract_staged env plan s1 in
          if \<not> succeeded staged then (extraction_result plan staged, s2)
          else let (outcome, s3) = clean_up env cleanup staged s2 in (extraction_result plan outcome, s3))"

subsection \<open>Lemmas: the trace of an attempt\<close>

lemma recheck_decides: "fst (recheck_at probe mode d root st) \<noteq> None"
  by (cases mode) (auto simp: recheck_at_def check_at_def verdict_def Let_def
      split: prod.splits option.splits capacity_verdict.splits)

fun is_publish :: "seam_call \<Rightarrow> bool" where
  "is_publish (Publish _ _) = True"
| "is_publish _ = False"

fun is_staging :: "seam_call \<Rightarrow> bool" where
  "is_staging (StageFile _) = True"
| "is_staging (ExtractEntry _ _ _) = True"
| "is_staging _ = False"

fun is_cleanup :: "seam_call \<Rightarrow> bool" where
  "is_cleanup RemoveSource = True"
| "is_cleanup BackupSource = True"
| "is_cleanup _ = False"

text \<open>The answers of the publications among some calls, made after a history.\<close>

fun publications :: "extraction_env \<Rightarrow> history \<Rightarrow> seam_call list \<Rightarrow> publication_result list" where
  "publications env h [] = []"
| "publications env h (c # cs) =
     (case c of Publish r t \<Rightarrow> [publish_entry env h r t] | _ \<Rightarrow> []) @ publications env (h @ [c]) cs"

lemma publications_append:
  "publications env h (a @ b) = publications env h a @ publications env (h @ a) b"
  by (induction a arbitrary: h) auto

lemma no_publications: "list_all (\<lambda>c. \<not> is_publish c) cs \<Longrightarrow> publications env h cs = []"
  by (induction cs arbitrary: h) (auto split: seam_call.splits)

definition is_committed :: "publication_result \<Rightarrow> bool" where
  "is_committed p = (publication_mutation p = MCommitted)"

definition is_released :: "publication_result \<Rightarrow> bool" where
  "is_released p = (publication_state p = PublishedAndReleased)"

text \<open>A step that only added calls of a kind, and left the progress flags alone.\<close>

definition quiet :: "(seam_call \<Rightarrow> bool) \<Rightarrow> extraction \<Rightarrow> extraction \<Rightarrow> bool" where
  "quiet P s s' = (merging s' = merging s \<and> committed s' = committed s
     \<and> (\<exists>new. calls s' = calls s @ new \<and> list_all P new))"

lemma quiet_refl [simp]: "quiet P s s"
  by (simp add: quiet_def)

lemma quiet_step: "quiet P s s' \<Longrightarrow> P c \<Longrightarrow> quiet P s (called c s')"
  by (auto simp: quiet_def called_def)

lemma quiet_trans: "quiet P a b \<Longrightarrow> quiet P b c \<Longrightarrow> quiet P a c"
  unfolding quiet_def by (metis append.assoc list_all_append)

lemma quiet_mono: "quiet P a b \<Longrightarrow> (\<And>c. P c \<Longrightarrow> Q c) \<Longrightarrow> quiet Q a b"
  unfolding quiet_def by (metis list.pred_mono_strong)

text \<open>The calls of a walk to a merge destination.\<close>

fun is_walk :: "seam_call \<Rightarrow> bool" where
  "is_walk (ReadDirectory _) = True"
| "is_walk (CreateDirectory _) = True"
| "is_walk (InspectDirectory _) = True"
| "is_walk (PinDirectory _) = True"
| "is_walk _ = False"

lemma enter_directory_quiet: "enter_directory env found dir s = (r, s') \<Longrightarrow> quiet is_walk s s'"
  by (auto simp: enter_directory_def Let_def intro!: quiet_step split: if_splits sum.splits prod.splits)

lemma walk_target_quiet: "walk_target env current parts s = (r, s') \<Longrightarrow> quiet is_walk s s'"
proof (induction parts arbitrary: current s)
  case (Cons part rest)
  have q: "quiet is_walk s (called (ReadDirectory current) s)" by (intro quiet_step) auto
  show ?case
    using Cons.prems q
    by (auto simp: Let_def split: sum.splits if_splits prod.splits
        dest!: Cons.IH enter_directory_quiet intro: quiet_trans)
qed simp

lemma prepare_quiet: "prepare_merge_target env root destination s = (r, s') \<Longrightarrow> quiet is_walk s s'"
  by (auto simp: prepare_merge_target_def split: option.splits dest: walk_target_quiet)

fun is_stage_call :: "seam_call \<Rightarrow> bool" where
  "is_stage_call (ReceiptPath _) = True"
| "is_stage_call c = is_staging c"

lemma stage_entries_quiet:
  "stage_entries env root source expected entries staged s = (r, s') \<Longrightarrow> quiet is_stage_call s s'"
proof (induction entries arbitrary: staged s)
  case (Cons entry rest)
  let ?s1 = "called (StageFile root) s"
  have q1: "quiet is_stage_call s ?s1" by (intro quiet_step) auto
  have q2: "quiet is_stage_call s (called (ReceiptPath receipt) ?s1)" for receipt
    by (intro quiet_step) auto
  have q3: "quiet is_stage_call s (called (ExtractEntry src name p) (called (ReceiptPath receipt) ?s1))"
    for src name p receipt by (intro quiet_step) auto
  show ?case
    using Cons.prems q1 q2 q3
    by (auto simp: Let_def split: sum.splits if_splits intro: quiet_trans [OF q3 Cons.IH])
qed simp

text \<open>What a merge does: publications in order, the flag exactly when one committed.\<close>

definition merged :: "extraction_env \<Rightarrow> extraction \<Rightarrow> extraction \<Rightarrow> seam_call list \<Rightarrow> bool" where
  "merged env s s' new =
     (calls s' = calls s @ new \<and> list_all (\<lambda>c. is_walk c \<or> is_publish c) new \<and> merging s' = merging s
      \<and> committed s' = (committed s \<or> list_ex is_committed (publications env (calls s) new)))"

lemma merged_walk:
  assumes "quiet is_walk s s1"
  shows "\<exists>new. merged env s s1 new \<and> publications env (calls s) new = []"
proof -
  obtain new where n: "calls s1 = calls s @ new" "list_all is_walk new"
    and f: "merging s1 = merging s" "committed s1 = committed s"
    using assms by (auto simp: quiet_def)
  have "\<not> is_publish c" if "is_walk c" for c using that by (cases c) auto
  then have "publications env (calls s) new = []"
    using n(2) by (intro no_publications) (auto simp: list_all_iff)
  then show ?thesis using n f by (auto simp: merged_def list_all_iff)
qed

lemma merged_publish:
  assumes "p = publish_entry env (calls s) receipt target"
  shows "merged env s (let s2 = called (Publish receipt target) s
            in if publication_mutation p = MCommitted then s2\<lparr>committed := True\<rparr> else s2)
           [Publish receipt target]
         \<and> publications env (calls s) [Publish receipt target] = [p]"
  by (auto simp: merged_def called_def is_committed_def assms Let_def)

lemma merged_trans:
  assumes "merged env a b new" "merged env b c new'"
  shows "merged env a c (new @ new')"
  using assms by (auto simp: merged_def publications_append)

lemma merge_loop_ok:
  assumes "merge_loop env root directory entries staged s = (r, s')"
  shows "\<exists>new. merged env s s' new
           \<and> (is_ok r \<longrightarrow> length (publications env (calls s) new) = length entries
                \<and> list_all is_released (publications env (calls s) new))"
  using assms
proof (induction entries arbitrary: staged s)
  case Nil
  then show ?case by (auto simp: merged_def intro: exI [of _ "[]"])
next
  case (Cons entry rest)
  show ?case
  proof (cases "map_of staged entry")
    case None
    then show ?thesis using Cons.prems by (auto simp: merged_def intro: exI [of _ "[]"])
  next
    case (Some receipt)
    obtain t s1 where t: "prepare_merge_target env root (join_game_path directory entry) s = (t, s1)"
      by fastforce
    obtain walk where walk: "merged env s s1 walk" "publications env (calls s) walk = []"
      using merged_walk [OF prepare_quiet [OF t]] by blast
    have at: "calls s1 = calls s @ walk" using walk(1) by (simp add: merged_def)
    show ?thesis
    proof (cases t)
      case (Inl e)
      then show ?thesis using Cons.prems Some t walk by auto
    next
      case (Inr target)
      define p where "p = publish_entry env (calls s1) receipt target"
      define s3 where "s3 = (let s2 = called (Publish receipt target) s1
            in if publication_mutation p = MCommitted then s2\<lparr>committed := True\<rparr> else s2)"
      have one: "merged env s1 s3 [Publish receipt target]"
          "publications env (calls s1) [Publish receipt target] = [p]"
        using merged_publish [OF p_def] by (auto simp: s3_def)
      have upto: "merged env s s3 (walk @ [Publish receipt target])"
          "publications env (calls s) (walk @ [Publish receipt target]) = [p]"
        using merged_trans [OF walk(1) one(1)] walk(2) one(2) by (auto simp: publications_append at)
      have at3: "calls s3 = calls s @ (walk @ [Publish receipt target])"
        using upto(1) by (simp add: merged_def)
      show ?thesis
      proof (cases "is_released p")
        case False
        then have "\<not> is_ok r" "s' = s3"
          using Cons.prems Some t Inr by (auto simp: is_released_def p_def s3_def Let_def)
        then show ?thesis using upto by blast
      next
        case True
        then have "merge_loop env root directory rest (filter (\<lambda>(e, _). e \<noteq> entry) staged) s3 = (r, s')"
          using Cons.prems Some t Inr by (simp add: is_released_def p_def s3_def Let_def)
        from Cons.IH [OF this] obtain new where n: "merged env s3 s' new"
          "is_ok r \<longrightarrow> length (publications env (calls s3) new) = length rest
             \<and> list_all is_released (publications env (calls s3) new)" by blast
        have "publications env (calls s) ((walk @ [Publish receipt target]) @ new)
            = p # publications env (calls s3) new"
          by (simp only: publications_append [of _ _ "walk @ [Publish receipt target]"] upto(2) at3
              append_Cons append_Nil)
        then show ?thesis
          using merged_trans [OF upto(1) n(1)] n(2) True
          by (intro exI [of _ "(walk @ [Publish receipt target]) @ new"]) auto
      qed
    qed
  qed
qed

text \<open>
  Staging and merging as a whole: first calls that publish nothing and clean nothing, then walks
  and publications only. A success without a rejection merged every winning entry.
\<close>

fun before_merge :: "seam_call \<Rightarrow> bool" where
  "before_merge (Publish _ _) = False"
| "before_merge c = (\<not> is_cleanup c)"

definition attempt_trace ::
    "extraction_env \<Rightarrow> extraction_plan \<Rightarrow> history \<Rightarrow> (string + archive_extraction_failure operation_failure option)
       \<Rightarrow> extraction \<Rightarrow> seam_call list \<Rightarrow> seam_call list \<Rightarrow> bool" where
  "attempt_trace env plan h r s' stage merge =
     (calls s' = h @ stage @ merge \<and> list_all before_merge stage
      \<and> list_all (\<lambda>c. is_walk c \<or> is_publish c) merge
      \<and> (committed s' = list_ex is_committed (publications env (h @ stage) merge))
      \<and> (merge \<noteq> [] \<longrightarrow> merging s')
      \<and> (r = Ok None \<longrightarrow> length (publications env (h @ stage) merge) = length (merge_entries plan)
           \<and> list_all is_released (publications env (h @ stage) merge))
      \<and> (\<forall>rejection. r = Ok (Some rejection) \<longrightarrow> merge = []))"

lemma before_mergeI: "is_stage_call c \<Longrightarrow> before_merge c"
  by (cases c) auto

lemma stage_and_merge_trace:
  assumes "stage_and_merge env plan root source entries s = (r, s')" "\<not> committed s"
  shows "\<exists>stage merge. attempt_trace env plan (calls s) r s' stage merge"
proof (cases "check_plan (env_key env) plan")
  case (Inl e)
  then show ?thesis
    using assms by (auto simp: stage_and_merge_def attempt_trace_def intro: exI [of _ "[]"])
next
  case (Inr u)
  obtain st s1 where st: "stage_entries env root source (plan_entries plan) entries [] s = (st, s1)"
    by fastforce
  have "quiet before_merge s s1"
    by (rule quiet_mono [OF stage_entries_quiet [OF st]]) (rule before_mergeI)
  then obtain stage where stage: "calls s1 = calls s @ stage" "list_all before_merge stage"
      and flags: "merging s1 = merging s" "committed s1 = committed s"
    by (auto simp: quiet_def)
  have quit: "\<exists>stage merge. attempt_trace env plan (calls s) (Inl e) s1 stage merge" for e
    using stage flags assms(2)
    by (intro exI [of _ stage] exI [of _ "[]"]) (simp add: attempt_trace_def)
  show ?thesis
  proof (cases st)
    case (Inl e)
    then show ?thesis using assms(1) Inr st quit by (auto simp: stage_and_merge_def)
  next
    case (Inr staged)
    show ?thesis
    proof (cases "length staged = length (plan_entries plan)")
      case False
      then show ?thesis
        using assms(1) \<open>check_plan (env_key env) plan = Inr u\<close> Inr st quit by (auto simp: stage_and_merge_def)
    next
      case True
      define d where "d = (case parent source of Some d \<Rightarrow> d | None \<Rightarrow> root)"
      obtain m s2 where m: "merge_loop env root d (merge_entries plan) staged (s1\<lparr>merging := True\<rparr>) = (m, s2)"
        by fastforce
      have r: "r = (case m of Inl e \<Rightarrow> Inl e | Inr _ \<Rightarrow> Ok None)" "s' = s2"
        using assms(1) \<open>check_plan (env_key env) plan = Inr u\<close> Inr st True m
        by (auto simp: stage_and_merge_def Let_def d_def split: sum.splits)
      obtain merge where merge: "merged env (s1\<lparr>merging := True\<rparr>) s2 merge"
          "is_ok m \<longrightarrow> length (publications env (calls s1) merge) = length (merge_entries plan)
             \<and> list_all is_released (publications env (calls s1) merge)"
        using merge_loop_ok [OF m] by auto
      then show ?thesis
        using stage flags assms(2) r
        by (intro exI [of _ stage] exI [of _ merge])
           (auto simp: attempt_trace_def merged_def is_ok_iff split: sum.splits)
    qed
  qed
qed

lemma attempt_trace_start:
  assumes "attempt_trace env plan h r s' stage merge" "h = h0 @ pre" "list_all before_merge pre"
  shows "attempt_trace env plan h0 r s' (pre @ stage) merge"
  using assms by (auto simp: attempt_trace_def)

lemma attempt_trace_quit:
  assumes "calls s' = h @ pre" "list_all before_merge pre" "\<not> committed s'" "r \<noteq> Ok None"
  shows "\<exists>stage merge. attempt_trace env plan h r s' stage merge"
  using assms by (intro exI [of _ pre] exI [of _ "[]"]) (simp add: attempt_trace_def)

lemma called_simps [simp]:
  "calls (called c s) = calls s @ [c]" "committed (called c s) = committed s" "merging (called c s) = merging s"
  by (simp_all add: called_def)

lemma capacity_recheck_simps:
  assumes "capacity_recheck env root required s = (x, s')"
  shows "calls s' = calls s" "committed s' = committed s"
  using assms by (auto simp: capacity_recheck_def split: prod.splits)

lemma try_extract_trace:
  assumes "try_extract env plan s = (r, s')" "\<not> committed s"
  shows "\<exists>stage merge. attempt_trace env plan (calls s) r s' stage merge"
proof (cases "resolve_root env (calls s) (plan_root plan)")
  case (Inl e)
  then show ?thesis
    using assms by (intro attempt_trace_quit [of _ _ "[ResolveRoot (plan_root plan)]"])
      (auto simp: try_extract_def Let_def)
next
  case (Inr root)
  note root = Inr
  show ?thesis
  proof (cases "absolute_path env (plan_archive plan)")
    case (Inl e)
    then show ?thesis
      using assms root by (intro attempt_trace_quit [of _ _ "[ResolveRoot (plan_root plan)]"])
        (auto simp: try_extract_def Let_def)
  next
    case (Inr source)
    note source = Inr
    let ?pre = "[ResolveRoot (plan_root plan), ListEntries source]"
    let ?s2 = "called (ListEntries source) (called (ResolveRoot (plan_root plan)) s)"
    show ?thesis
    proof (cases "source_contained root source")
      case False
      then show ?thesis
        using assms root source by (intro attempt_trace_quit [of _ _ "[ResolveRoot (plan_root plan)]"])
          (auto simp: try_extract_def Let_def)
    next
      case True
      note inside = True
      show ?thesis
      proof (cases "contain (read_entries env (calls (called (ResolveRoot (plan_root plan)) s)) source)")
        case (Inl e)
        then show ?thesis
          using assms root source inside by (intro attempt_trace_quit [of _ _ ?pre])
            (auto simp: try_extract_def Let_def)
      next
        case (Inr entries)
        obtain x s3 where x: "capacity_recheck env root
            (max (plan_bytes plan) (estimated_capacity_bytes entries)) ?s2 = (x, s3)" by fastforce
        have at: "calls s3 = calls s @ ?pre" "\<not> committed s3"
          using capacity_recheck_simps [OF x] assms(2) by auto
        have run: "(case x of Some y \<Rightarrow> (Ok (Some (from_capacity_shortage ExtractionInsufficientCapacity y)), s3)
            | None \<Rightarrow> stage_and_merge env plan root source entries s3) = (r, s')"
          using assms(1) root source inside Inr x by (simp add: try_extract_def Let_def)
        show ?thesis
        proof (cases x)
          case (Some y)
          then show ?thesis using run at by (intro attempt_trace_quit [of _ _ ?pre]) auto
        next
          case None
          then obtain stage merge where "attempt_trace env plan (calls s3) r s' stage merge"
            using run stage_and_merge_trace at(2) by fastforce
          from attempt_trace_start [OF this at(1)] show ?thesis by auto
        qed
      qed
    qed
  qed
qed

lemma extract_staged_trace:
  assumes "extract_staged env plan s = (outcome, s')"
  shows "\<exists>stage merge. calls s' = calls s @ stage @ merge @ [ReleaseReader]
     \<and> list_all before_merge stage \<and> list_all (\<lambda>c. is_walk c \<or> is_publish c) merge
     \<and> (let pubs = publications env (calls s @ stage) merge in
          mutation_of outcome = (if \<not> list_ex is_committed pubs then MNone
            else if succeeded outcome then MCommitted else MPartialOrUnknown)
          \<and> (\<not> succeeded outcome \<longrightarrow> (safe_to_continue outcome \<longleftrightarrow> \<not> list_ex is_committed pubs))
          \<and> (succeeded outcome \<longrightarrow> length pubs = length (merge_entries plan) \<and> list_all is_released pubs))"
proof -
  obtain r s1 where run: "try_extract env plan (s\<lparr>merging := False, committed := False\<rparr>) = (r, s1)" by fastforce
  then obtain stage merge where t: "attempt_trace env plan (calls s) r s1 stage merge"
    using try_extract_trace [OF run] by auto
  have "succeeded outcome \<longleftrightarrow> r = Ok None" "mutation_of outcome = (case r of Inr None \<Rightarrow>
        if committed s1 then MCommitted else MNone | Inr (Some _) \<Rightarrow> MNone
      | Inl _ \<Rightarrow> if committed s1 then MPartialOrUnknown else MNone)"
    "safe_to_continue outcome \<longleftrightarrow> is_ok r \<or> \<not> committed s1" "s' = called ReleaseReader s1"
    using assms run
    by (auto simp: extract_staged_def Let_def is_ok_iff split: sum.splits option.splits if_splits)
  then show ?thesis
    using t by (intro exI [of _ stage] exI [of _ merge])
      (auto simp: attempt_trace_def Let_def is_ok_iff split: sum.splits option.splits if_splits)
qed

text \<open>The calls around a cleanup: one cleanup call, then only checks of the retained source.\<close>

fun is_recovery :: "seam_call \<Rightarrow> bool" where
  "is_recovery RepinSource = True"
| "is_recovery RelistSource = True"
| "is_recovery ReleaseReader = True"
| "is_recovery _ = False"

lemma source_readable_calls:
  "source_readable env s = (b, s') \<Longrightarrow> \<exists>after. calls s' = calls s @ after \<and> list_all is_recovery after"
  by (auto simp: source_readable_def Let_def split: call.splits sum.splits)

text \<open>What the checks of a retained source have to answer for it to count as still readable.\<close>

definition source_retained :: "extraction_env \<Rightarrow> history \<Rightarrow> bool" where
  "source_retained env h =
     ((case repin_source env h of Returned (Inr _) \<Rightarrow> True | _ \<Rightarrow> False)
      \<and> (case relist_source env (h @ [RepinSource]) of Returned (Inr _) \<Rightarrow> True | _ \<Rightarrow> False)
      \<and> (case release_reader env (h @ [RepinSource, RelistSource]) of Returned _ \<Rightarrow> True | _ \<Rightarrow> False))"

lemma source_readable_retained: "fst (source_readable env s) = source_retained env (calls s)"
  by (auto simp: source_readable_def source_retained_def called_def Let_def is_ok_iff split: call.splits sum.splits)

text \<open>
  What an attempt may report once it asked for the cleanup of its source at a history, when what it
  merged had changed something.
\<close>

definition cleanup_reported ::
    "extraction_env \<Rightarrow> source_cleanup \<Rightarrow> history \<Rightarrow> seam_call \<Rightarrow> bool
       \<Rightarrow> archive_extraction_failure attempt_outcome \<Rightarrow> bool" where
  "cleanup_reported env cleanup h c changed_root outcome =
     (case clean_source env h cleanup of
        Returned (Inr _) \<Rightarrow> outcome = Succeeded CCommitted
      | Returned (Inl _) \<Rightarrow>
          let intact = (changed_root \<and> source_retained env (h @ [c])) in
          \<not> succeeded outcome \<and> (safe_to_continue outcome \<longleftrightarrow> intact)
          \<and> mutation_of outcome = (if intact then MCommitted else MPartialOrUnknown)
      | Panicked _ \<Rightarrow>
          \<not> succeeded outcome \<and> \<not> safe_to_continue outcome \<and> mutation_of outcome = MPartialOrUnknown)"

lemma clean_up_trace:
  assumes "clean_up env cleanup staged s = (outcome, s')"
  shows "\<exists>c after. calls s' = calls s @ c # after \<and> is_cleanup c \<and> list_all is_recovery after
     \<and> cleanup_reported env cleanup (calls s) c (mutation_of staged = MCommitted) outcome"
proof -
  let ?c = "case cleanup of Remove \<Rightarrow> RemoveSource | Backup \<Rightarrow> BackupSource"
  let ?s1 = "called ?c s"
  have c: "is_cleanup ?c" by (cases cleanup) auto
  obtain safe s2 where check:
    "(if mutation_of staged = MCommitted then source_readable env ?s1 else (False, ?s1)) = (safe, s2)"
    by fastforce
  obtain after where after: "calls s2 = calls s @ ?c # after" "list_all is_recovery after"
    using check source_readable_calls [of env ?s1 safe s2] by (auto split: if_splits)
  have safe: "safe \<longleftrightarrow> mutation_of staged = MCommitted \<and> source_retained env (calls s @ [?c])"
    using check source_readable_retained [of env ?s1] by (auto split: if_splits)
  show ?thesis
  proof (cases "clean_source env (calls s) cleanup")
    case (Returned answer)
    then show ?thesis
    proof (cases answer)
      case (Inl e)
      with Returned have "outcome = attempt_outcome.Failed (new_failure ExtractionSourceCleanupFailed e)
          (if safe then mutation_of staged else MPartialOrUnknown) safe" "s' = s2"
        using assms check by (auto simp: clean_up_def Let_def)
      then show ?thesis using Returned Inl c after safe
        by (intro exI [of _ ?c] exI [of _ after]) (auto simp: cleanup_reported_def Let_def)
    next
      case (Inr u)
      with Returned have "outcome = Succeeded CCommitted" "s' = ?s1"
        using assms by (auto simp: clean_up_def Let_def)
      then show ?thesis using Returned Inr c
        by (intro exI [of _ ?c] exI [of _ "[]"]) (auto simp: cleanup_reported_def)
    qed
  next
    case (Panicked e)
    then have "outcome = attempt_outcome.Failed (new_failure ExtractionSourceCleanupFailed e) MPartialOrUnknown False"
        "s' = ?s1"
      using assms by (auto simp: clean_up_def Let_def)
    then show ?thesis using Panicked c
      by (intro exI [of _ ?c] exI [of _ "[]"]) (auto simp: cleanup_reported_def)
  qed
qed

definition extraction_shape ::
    "extraction_env \<Rightarrow> extraction_plan \<Rightarrow> source_cleanup \<Rightarrow> history
       \<Rightarrow> archive_extraction_failure attempt_outcome \<Rightarrow> seam_call list \<Rightarrow> bool" where
  "extraction_shape env plan cleanup h outcome new =
     (\<exists>stage merge tail. new = stage @ merge @ tail
        \<and> list_all before_merge stage \<and> list_all (\<lambda>c. is_walk c \<or> is_publish c) merge
        \<and> (let pubs = publications env (h @ stage) merge in
             (list_all is_recovery tail \<and> \<not> succeeded outcome
              \<and> mutation_of outcome = (if list_ex is_committed pubs then MPartialOrUnknown else MNone)
              \<and> (safe_to_continue outcome \<longleftrightarrow> \<not> list_ex is_committed pubs))
             \<or> (\<exists>rel c after. tail = rel @ c # after \<and> list_all is_recovery rel \<and> is_cleanup c
                  \<and> list_all is_recovery after
                  \<and> cleanup_reported env cleanup (h @ stage @ merge @ rel) c (list_ex is_committed pubs) outcome
                  \<and> length pubs = length (merge_entries plan) \<and> list_all is_released pubs)))"

lemma shape_stopped:
  assumes "list_all before_merge stage" "list_all (\<lambda>c. is_walk c \<or> is_publish c) merge" "list_all is_recovery tail"
    and "\<not> succeeded outcome"
    and "mutation_of outcome
      = (if list_ex is_committed (publications env (h @ stage) merge) then MPartialOrUnknown else MNone)"
    and "safe_to_continue outcome \<longleftrightarrow> \<not> list_ex is_committed (publications env (h @ stage) merge)"
  shows "extraction_shape env plan cleanup h outcome (stage @ merge @ tail)"
  unfolding extraction_shape_def Let_def using assms by blast

lemma shape_cleaned:
  assumes "list_all before_merge stage" "list_all (\<lambda>c. is_walk c \<or> is_publish c) merge"
    and "list_all is_recovery rel" "is_cleanup c" "list_all is_recovery after"
    and "cleanup_reported env cleanup (h @ stage @ merge @ rel) c
      (list_ex is_committed (publications env (h @ stage) merge)) outcome"
    and "length (publications env (h @ stage) merge) = length (merge_entries plan)"
    and "list_all is_released (publications env (h @ stage) merge)"
  shows "extraction_shape env plan cleanup h outcome (stage @ merge @ rel @ c # after)"
  unfolding extraction_shape_def Let_def using assms by blast

lemma extract_archive_shape:
  assumes "extract_archive env plan cleanup s = (r, s')"
  shows "\<exists>new. calls s' = calls s @ new \<and> extraction_shape env plan cleanup (calls s) (extraction_outcome r) new"
proof -
  let ?pin = "PinSource (plan_archive plan) (plan_root plan)"
  let ?s1 = "called ?pin s"
  show ?thesis
  proof (cases "contain (pin_source env (calls s) (plan_archive plan) (plan_root plan))")
    case (Inl e)
    then have "calls s' = calls s @ [?pin]"
        "extraction_outcome r = attempt_outcome.Failed (new_failure ExtractionFailed e) MNone True"
      using assms by (auto simp: extract_archive_def extraction_result_def Let_def)
    moreover have "extraction_shape env plan cleanup (calls s)
        (attempt_outcome.Failed (new_failure ExtractionFailed e) MNone True) [?pin]"
      unfolding extraction_shape_def
      by (rule exI [of _ "[?pin]"], rule exI [of _ "[]"], rule exI [of _ "[]"]) simp
    ultimately show ?thesis by auto
  next
    case (Inr u)
    obtain staged s2 where staged: "extract_staged env plan ?s1 = (staged, s2)" by fastforce
    obtain stage merge where t: "calls s2 = calls s @ (?pin # stage) @ merge @ [ReleaseReader]"
        "list_all before_merge (?pin # stage)" "list_all (\<lambda>c. is_walk c \<or> is_publish c) merge"
        "let pubs = publications env (calls s @ ?pin # stage) merge in
          mutation_of staged = (if \<not> list_ex is_committed pubs then MNone
            else if succeeded staged then MCommitted else MPartialOrUnknown)
          \<and> (\<not> succeeded staged \<longrightarrow> (safe_to_continue staged \<longleftrightarrow> \<not> list_ex is_committed pubs))
          \<and> (succeeded staged \<longrightarrow> length pubs = length (merge_entries plan) \<and> list_all is_released pubs)"
      using extract_staged_trace [OF staged] by (auto simp: Let_def)
    show ?thesis
    proof (cases "succeeded staged")
      case False
      then have "s' = s2" "extraction_outcome r = staged"
        using assms Inr staged by (auto simp: extract_archive_def extraction_result_def Let_def)
      moreover have "extraction_shape env plan cleanup (calls s) staged ((?pin # stage) @ merge @ [ReleaseReader])"
        using t(4) False by (intro shape_stopped [OF t(2,3)]) (auto simp: Let_def)
      ultimately show ?thesis using t(1) by auto
    next
      case True
      obtain outcome s3 where clean: "clean_up env cleanup staged s2 = (outcome, s3)" by fastforce
      have "s' = s3" "extraction_outcome r = outcome"
        using assms Inr staged True clean by (auto simp: extract_archive_def extraction_result_def Let_def)
      moreover obtain c after where c: "calls s3 = calls s2 @ c # after" "is_cleanup c"
          "list_all is_recovery after"
          "cleanup_reported env cleanup (calls s2) c (mutation_of staged = MCommitted) outcome"
        using clean_up_trace [OF clean] by blast
      moreover have "extraction_shape env plan cleanup (calls s) outcome
          ((?pin # stage) @ merge @ [ReleaseReader] @ c # after)"
        using t(1,4) True c by (intro shape_cleaned [OF t(2,3)]) (auto simp: Let_def split: if_splits)
      ultimately show ?thesis using t(1) by auto
    qed
  qed
qed

lemma shape_publications:
  assumes "list_all before_merge stage" "list_all is_recovery tail'"
  shows "publications env h (stage @ merge @ tail') = publications env (h @ stage) merge"
proof -
  have "\<not> is_publish c" if "before_merge c" for c using that by (cases c) auto
  moreover have "\<not> is_publish c" if "is_recovery c" for c using that by (cases c) auto
  ultimately show ?thesis
    using assms by (simp add: publications_append no_publications list_all_iff)
qed

lemma call_kinds:
  "is_recovery c \<Longrightarrow> \<not> is_publish c \<and> \<not> is_staging c \<and> \<not> is_cleanup c"
  "is_cleanup c \<Longrightarrow> \<not> is_publish c \<and> \<not> is_staging c"
  "is_walk c \<Longrightarrow> \<not> is_publish c \<and> \<not> is_staging c \<and> \<not> is_cleanup c"
  "is_publish c \<Longrightarrow> \<not> is_staging c \<and> \<not> is_cleanup c"
  "before_merge c \<Longrightarrow> \<not> is_publish c \<and> \<not> is_cleanup c"
  by (cases c; simp)+

subsection \<open>A concrete attempt\<close>

definition demo_env :: extraction_env where
  "demo_env =
     \<lparr>env_key = ascii_key, env_probe = silent_probe, env_mode = Apply,
      absolute_path = Ok, pin_source = (\<lambda>_ _ _. Returned (Ok ())), resolve_root = (\<lambda>_. Ok),
      read_entries = (\<lambda>_ _. Returned (Ok [demo_file ''t/x.dds'', demo_file ''b.nif''])),
      stage_entry = (\<lambda>h _. Ok (length h)), receipt_path = (\<lambda>_ n. Ok [RootDir]),
      unpack_entry = (\<lambda>_ _ _ _. Returned (Ok ())), list_directory = (\<lambda>_ _. Ok []),
      make_directory = (\<lambda>_ _. Ok ()),
      inspect_directory = (\<lambda>_ _. Ok \<lparr>is_dir = True, is_symlink = False, is_reparse_point = False\<rparr>),
      hold_directory = (\<lambda>_ _. Ok ()),
      publish_entry = (\<lambda>_ _ _. \<lparr>publication_state = PublishedAndReleased, error_detail = []\<rparr>),
      release_reader = (\<lambda>_. Returned ()), clean_source = (\<lambda>_ _. Returned (Ok ())),
      repin_source = (\<lambda>_. Returned (Ok ())), relist_source = (\<lambda>_. Returned (Ok []))\<rparr>"

definition demo_plan :: extraction_plan where
  "demo_plan = \<lparr>plan_archive = demo_mod @ [Normal ''a.bsa''], plan_root = demo_mod,
     plan_entries = [''t/x.dds'', ''b.nif''], merge_entries = [''t/x.dds''], plan_bytes = 0\<rparr>"

definition fresh_extraction :: extraction where
  "fresh_extraction = \<lparr>calls = [], merging = False, committed = False, checks = fresh_state\<rparr>"

lemma demo_extraction_succeeds:
  "succeeded (extraction_outcome (fst (extract_archive demo_env demo_plan Remove fresh_extraction)))"
  by code_simp

subsection \<open>Properties\<close>

text \<open>
  C14: An extraction attempt reports exactly the mutation it left behind, whatever the reader, the
  registry and the filesystem answer. Without a cleanup call it failed, and it reports a partial
  mutation, and is unsafe, exactly when a publication committed, otherwise none. A cleanup call is
  only made when every winning entry was published and released; the attempt succeeds exactly when it
  was answered with success; a refused cleanup leaves the merge committed and safe exactly when the
  merge changed something and the source is shown to be still readable; anything else is partial or
  unknown and unsafe.
\<close>

theorem extraction_accounts_for_publications:
  assumes "extract_archive env plan cleanup s = (r, s')"
  shows "\<exists>new. calls s' = calls s @ new
     \<and> (let outcome = extraction_outcome r; pubs = publications env (calls s) new in
          if \<not> list_ex is_cleanup new
          then \<not> succeeded outcome
            \<and> mutation_of outcome = (if list_ex is_committed pubs then MPartialOrUnknown else MNone)
            \<and> (safe_to_continue outcome \<longleftrightarrow> \<not> list_ex is_committed pubs)
          else length pubs = length (merge_entries plan) \<and> list_all is_released pubs
            \<and> (\<exists>front c after. new = front @ c # after \<and> is_cleanup c
                 \<and> cleanup_reported env cleanup (calls s @ front) c (list_ex is_committed pubs) outcome))"
proof -
  obtain new stage merge tail where new: "calls s' = calls s @ new" and shape: "new = stage @ merge @ tail"
      "list_all before_merge stage" "list_all (\<lambda>c. is_walk c \<or> is_publish c) merge"
    and tail: "let pubs = publications env (calls s @ stage) merge; outcome = extraction_outcome r in
       (list_all is_recovery tail \<and> \<not> succeeded outcome
              \<and> mutation_of outcome = (if list_ex is_committed pubs then MPartialOrUnknown else MNone)
              \<and> (safe_to_continue outcome \<longleftrightarrow> \<not> list_ex is_committed pubs))
       \<or> (\<exists>rel c after. tail = rel @ c # after \<and> list_all is_recovery rel \<and> is_cleanup c
              \<and> list_all is_recovery after
              \<and> cleanup_reported env cleanup (calls s @ stage @ merge @ rel) c (list_ex is_committed pubs) outcome
              \<and> length pubs = length (merge_entries plan) \<and> list_all is_released pubs)"
    using extract_archive_shape [OF assms] unfolding extraction_shape_def Let_def by blast
  have quiet_part: "\<not> list_ex is_cleanup (stage @ merge)"
    using shape call_kinds by (auto simp: list_all_iff list_ex_iff)
  from tail [unfolded Let_def] show ?thesis
  proof (elim disjE exE conjE)
    assume t: "list_all is_recovery tail"
    then have "\<not> list_ex is_cleanup new"
      using quiet_part call_kinds(1) by (auto simp: shape(1) list_all_iff list_ex_iff)
    moreover assume "\<not> succeeded (extraction_outcome r)"
      "mutation_of (extraction_outcome r)
         = (if list_ex is_committed (publications env (calls s @ stage) merge) then MPartialOrUnknown else MNone)"
      "safe_to_continue (extraction_outcome r)
         \<longleftrightarrow> \<not> list_ex is_committed (publications env (calls s @ stage) merge)"
    ultimately show ?thesis
      using new shape_publications [OF shape(2) t] by (simp add: shape(1) Let_def)
  next
    fix rel c after
    assume t: "tail = rel @ c # after" "list_all is_recovery rel" "is_cleanup c" "list_all is_recovery after"
      and m: "cleanup_reported env cleanup (calls s @ stage @ merge @ rel) c
          (list_ex is_committed (publications env (calls s @ stage) merge)) (extraction_outcome r)"
      and whole: "length (publications env (calls s @ stage) merge) = length (merge_entries plan)"
        "list_all is_released (publications env (calls s @ stage) merge)"
    have pubs: "publications env (calls s) new = publications env (calls s @ stage) merge"
    proof -
      have "list_all (\<lambda>c. \<not> is_publish c) stage" "list_all (\<lambda>c. \<not> is_publish c) tail"
        using shape(2) t call_kinds by (auto simp: list_all_iff)
      then show ?thesis by (simp add: shape(1) publications_append no_publications)
    qed
    have cleaned: "list_ex is_cleanup new" "new = (stage @ merge @ rel) @ c # after"
      using t by (simp_all add: shape(1))
    have "\<exists>front c after. new = front @ c # after \<and> is_cleanup c
        \<and> cleanup_reported env cleanup (calls s @ front) c (list_ex is_committed (publications env (calls s) new))
            (extraction_outcome r)"
      using cleaned(2) t(3) m pubs by (metis append.assoc)
    then show ?thesis
      using new whole pubs cleaned(1) by (simp add: Let_def)
  qed
qed

theorem extraction_accounts_for_publications_witness:
  "\<exists>r s' new. extract_archive demo_env demo_plan Remove fresh_extraction = (r, s')
     \<and> succeeded (extraction_outcome r) \<and> calls s' = new
     \<and> length (publications demo_env [] new) = 1 \<and> list_all is_released (publications demo_env [] new)
     \<and> list_ex is_cleanup new"
proof -
  obtain r s' where run: "extract_archive demo_env demo_plan Remove fresh_extraction = (r, s')" by fastforce
  have ok: "succeeded (extraction_outcome r)" using demo_extraction_succeeds run by simp
  show ?thesis
    using extraction_accounts_for_publications [OF run] run ok
    by (auto simp: Let_def fresh_extraction_def demo_plan_def split: if_splits)
qed

text \<open>
  C15: An attempt stages first, then merges, then cleans: its calls split into a part that stages
  and never publishes, a part that publishes and never stages, and a part that does neither. The
  source is cleaned at most once, in the last part, and only when every winning entry had by then
  been published and released.
\<close>

theorem extraction_stages_merges_cleans:
  assumes "extract_archive env plan cleanup s = (r, s')"
  shows "\<exists>stage merge tail. calls s' = calls s @ stage @ merge @ tail
     \<and> list_all (\<lambda>c. \<not> is_publish c \<and> \<not> is_cleanup c) stage
     \<and> list_all (\<lambda>c. \<not> is_staging c \<and> \<not> is_cleanup c) merge
     \<and> list_all (\<lambda>c. \<not> is_staging c \<and> \<not> is_publish c) tail
     \<and> length (filter is_cleanup tail) \<le> 1
     \<and> (list_ex is_cleanup tail \<longrightarrow>
          (let pubs = publications env (calls s) (stage @ merge) in
             length pubs = length (merge_entries plan) \<and> list_all is_released pubs))"
proof -
  obtain new where new: "calls s' = calls s @ new" "extraction_shape env plan cleanup (calls s) (extraction_outcome r) new"
    using extract_archive_shape [OF assms] by blast
  then obtain stage merge tail where shape: "new = stage @ merge @ tail" "list_all before_merge stage"
      "list_all (\<lambda>c. is_walk c \<or> is_publish c) merge"
    and tail: "list_all is_recovery tail
       \<or> (\<exists>rel c after. tail = rel @ c # after \<and> list_all is_recovery rel \<and> is_cleanup c
            \<and> list_all is_recovery after
            \<and> length (publications env (calls s @ stage) merge) = length (merge_entries plan)
            \<and> list_all is_released (publications env (calls s @ stage) merge))"
    unfolding extraction_shape_def Let_def by blast
  have pubs: "publications env (calls s) (stage @ merge) = publications env (calls s @ stage) merge"
    using shape_publications [OF shape(2), of "[]"] by simp
  have none: "filter is_cleanup cs = []" if "list_all is_recovery cs" for cs
    using that call_kinds(1) by (auto simp: filter_empty_conv list_all_iff)
  have parts: "list_all (\<lambda>c. \<not> is_publish c \<and> \<not> is_cleanup c) stage"
    "list_all (\<lambda>c. \<not> is_staging c \<and> \<not> is_cleanup c) merge"
    using shape call_kinds by (auto simp: list_all_iff)
  from tail show ?thesis
  proof (elim disjE exE conjE)
    assume t: "list_all is_recovery tail"
    have "list_all (\<lambda>c. \<not> is_staging c \<and> \<not> is_publish c) tail" "\<not> list_ex is_cleanup tail"
      using t call_kinds(1) by (auto simp: list_all_iff list_ex_iff)
    then show ?thesis using new(1) shape(1) parts none [OF t] by fastforce
  next
    fix rel c after
    assume t: "tail = rel @ c # after" "list_all is_recovery rel" "is_cleanup c" "list_all is_recovery after"
      and whole: "length (publications env (calls s @ stage) merge) = length (merge_entries plan)"
        "list_all is_released (publications env (calls s @ stage) merge)"
    have "list_all (\<lambda>c. \<not> is_staging c \<and> \<not> is_publish c) tail" "length (filter is_cleanup tail) \<le> 1"
      using t call_kinds none by (auto simp: list_all_iff)
    then show ?thesis
      using new(1) shape(1) parts whole pubs by (fastforce simp: Let_def)
  qed
qed

theorem extraction_stages_merges_cleans_witness:
  "\<exists>r s' stage merge tail. extract_archive demo_env demo_plan Remove fresh_extraction = (r, s')
     \<and> calls s' = stage @ merge @ tail
     \<and> list_all (\<lambda>c. \<not> is_publish c \<and> \<not> is_cleanup c) stage
     \<and> list_all (\<lambda>c. \<not> is_staging c \<and> \<not> is_cleanup c) merge
     \<and> length (filter is_cleanup tail) \<le> 1"
proof -
  obtain r s' where run: "extract_archive demo_env demo_plan Remove fresh_extraction = (r, s')" by fastforce
  from extraction_stages_merges_cleans [OF run] show ?thesis
    using run by (auto simp: fresh_extraction_def)
qed

end
