(* ===== verification/Discovery.thy ===== *)
theory Discovery
  imports EvidenceRuns Observation GamePaths
begin

text \<open>
  The walker both discovery passes share (\<open>run/executor/work_phases.rs\<close>: \<open>Discovery\<close>). A directory
  is read at most once in a pass, since links are never followed, so what a pass observes of the
  filesystem is a finite tree: a directory that cannot be read, or its entries in enumeration
  order, each with what \<open>symlink_metadata\<close>, \<open>is_dir\<close>, \<open>is_file\<close> and \<open>canonical\<close> answer for it. The
  tree may differ from one pass to the next.
\<close>

text \<open>\<open>linked\<close> is \<open>None\<close> when the metadata cannot be read, else whether it shows a link or reparse point.\<close>

record entry_facts =
  linked :: "bool option"
  leads_to_dir :: bool
  leads_to_file :: bool
  resolves_to :: "path option"

datatype dir = Unreadable | Listing "dirent list"
and dirent = BadEntry | Dirent string entry_facts dir

text \<open>\<open>diagnosed\<close> is the set of the excluded paths already diagnosed, across both passes.\<close>

record walk =
  walk_evidence :: evidence
  walk_token :: token
  diagnosed :: "path list"

definition exclude :: "run_phase \<Rightarrow> path \<Rightarrow> string \<Rightarrow> walk \<Rightarrow> walk" where
  "exclude phase p what w =
     (if p \<in> set (diagnosed w) then w
      else w\<lparr>diagnosed := p # diagnosed w,
             walk_evidence := retain_diagnostic
               ((new_diagnostic LinkedEntryExcluded phase what)\<lparr>diagnostic_path := p\<rparr>) (walk_evidence w)\<rparr>)"

definition within_scope :: "run_phase \<Rightarrow> path \<Rightarrow> path \<Rightarrow> entry_facts \<Rightarrow> walk \<Rightarrow> bool \<times> walk" where
  "within_scope phase root p seen w =
     (case linked seen of
        None \<Rightarrow> (False, w)
      | Some False \<Rightarrow> (True, w)
      | Some True \<Rightarrow>
          if leads_to_dir seen
          then (False, exclude phase p
                 ''Directory links and reparse points are not followed during discovery.'' w)
          else case resolves_to seen of
                 None \<Rightarrow> (False, exclude phase p
                   ''Linked entry could not be resolved within the Mod Root.'' w)
               | Some resolved \<Rightarrow>
                   (case strip_prefix resolved root of
                      None \<Rightarrow> (False, exclude phase p ''Linked entry resolves outside the Mod Root.'' w)
                    | Some relative \<Rightarrow>
                        if has_staging_component relative
                        then (False, exclude phase p ''Linked entry resolves into excluded CAO staging.'' w)
                        else (True, w)))"

text \<open>What one entry is to the walk.\<close>

datatype entry_kind = Passed | VisitFile | Descend

definition examine :: "run_phase \<Rightarrow> path \<Rightarrow> path \<Rightarrow> string \<Rightarrow> entry_facts \<Rightarrow> walk \<Rightarrow> entry_kind \<times> walk" where
  "examine phase root p name seen w =
     (if is_staging_name name then (Passed, w)
      else
        let (inside, w1) = within_scope phase root p seen w in
        (if \<not> inside then Passed else if leads_to_file seen then VisitFile
         else if leads_to_dir seen then Descend else Passed, w1))"

text \<open>
  The visited files in the order of the visits, and whether the walk was complete. The visitor only
  collects, so it is applied to the list afterwards.
\<close>

fun visit_directory :: "run_phase \<Rightarrow> path \<Rightarrow> path \<Rightarrow> dir \<Rightarrow> walk \<Rightarrow> bool \<times> path list \<times> walk"
and visit_entries :: "run_phase \<Rightarrow> path \<Rightarrow> path \<Rightarrow> dirent list \<Rightarrow> walk \<Rightarrow> bool \<times> path list \<times> walk"
and visit_entry :: "run_phase \<Rightarrow> path \<Rightarrow> path \<Rightarrow> dirent \<Rightarrow> walk \<Rightarrow> bool \<times> path list \<times> walk" where
  "visit_directory phase root directory Unreadable w = (True, [], w)"
| "visit_directory phase root directory (Listing entries) w =
     visit_entries phase root directory entries w"
| "visit_entries phase root directory [] w = (True, [], w)"
| "visit_entries phase root directory (entry # rest) w =
     (case is_cancelled (walk_token w) of
        (True, t) \<Rightarrow> (False, [], w\<lparr>walk_token := t\<rparr>)
      | (False, t) \<Rightarrow>
          (case visit_entry phase root directory entry (w\<lparr>walk_token := t\<rparr>) of
             (False, files, w1) \<Rightarrow> (False, files, w1)
           | (True, files, w1) \<Rightarrow>
               (case visit_entries phase root directory rest w1 of
                  (complete, files', w2) \<Rightarrow> (complete, files @ files', w2))))"
| "visit_entry phase root directory BadEntry w = (True, [], w)"
| "visit_entry phase root directory (Dirent name seen sub) w =
     (case examine phase root (directory @ [Normal name]) name seen w of
        (Passed, w1) \<Rightarrow> (True, [], w1)
      | (VisitFile, w1) \<Rightarrow> (True, [directory @ [Normal name]], w1)
      | (Descend, w1) \<Rightarrow> visit_directory phase root (directory @ [Normal name]) sub w1)"

definition visit :: "run_phase \<Rightarrow> path \<Rightarrow> dir \<Rightarrow> walk \<Rightarrow> bool \<times> path list \<times> walk" where
  "visit phase root tree w =
     (case file_name root of
        Some name \<Rightarrow>
          if is_staging_name name then (True, [], w) else visit_directory phase root root tree w
      | None \<Rightarrow> visit_directory phase root root tree w)"

subsection \<open>The files in scope\<close>

text \<open>
  The reference: the files of a tree that lie in scope, without token, evidence or diagnostics.
\<close>

definition in_scope :: "path \<Rightarrow> entry_facts \<Rightarrow> bool" where
  "in_scope root seen =
     (linked seen = Some False
      \<or> linked seen = Some True \<and> \<not> leads_to_dir seen
        \<and> (case resolves_to seen of None \<Rightarrow> False | Some resolved \<Rightarrow>
             (case strip_prefix resolved root of
                None \<Rightarrow> False | Some relative \<Rightarrow> \<not> has_staging_component relative)))"

fun scope_files :: "path \<Rightarrow> path \<Rightarrow> dir \<Rightarrow> path list"
and scope_entries :: "path \<Rightarrow> path \<Rightarrow> dirent list \<Rightarrow> path list"
and scope_entry :: "path \<Rightarrow> path \<Rightarrow> dirent \<Rightarrow> path list" where
  "scope_files root directory Unreadable = []"
| "scope_files root directory (Listing entries) = scope_entries root directory entries"
| "scope_entries root directory [] = []"
| "scope_entries root directory (entry # rest) =
     scope_entry root directory entry @ scope_entries root directory rest"
| "scope_entry root directory BadEntry = []"
| "scope_entry root directory (Dirent name seen sub) =
     (if is_staging_name name \<or> \<not> in_scope root seen then []
      else if leads_to_file seen then [directory @ [Normal name]]
      else if leads_to_dir seen then scope_files root (directory @ [Normal name]) sub
      else [])"

lemma within_scope_fst: "fst (within_scope phase root p seen w) = in_scope root seen"
  by (auto simp: within_scope_def in_scope_def split: option.splits bool.splits)

text \<open>The excluded linked entries are diagnosed in the order they were found, each once.\<close>

definition excluded_paths :: "storage \<Rightarrow> path list" where
  "excluded_paths s = map diagnostic_path (filter (\<lambda>d. diagnostic_code d = LinkedEntryExcluded) (diagnostics s))"

definition excluded_once :: "walk \<Rightarrow> bool" where
  "excluded_once w =
     (distinct (diagnosed w) \<and> excluded_paths (storage_of (walk_evidence w)) = rev (diagnosed w))"

lemma excluded_once_exclude: "excluded_once w \<Longrightarrow> excluded_once (exclude phase p what w)"
  by (auto simp: excluded_once_def exclude_def excluded_paths_def retain_diagnostic_def Let_def new_diagnostic_def)

text \<open>What a walk may change: it reads the token and diagnoses.\<close>

definition walked :: "walk \<Rightarrow> walk \<Rightarrow> bool" where
  "walked w w' =
     (before (walk_token w) (walk_token w')
      \<and> same_facts (storage_of (walk_evidence w)) (storage_of (walk_evidence w'))
      \<and> (reachable (walk_evidence w) \<longrightarrow> reachable (walk_evidence w'))
      \<and> (excluded_once w \<longrightarrow> excluded_once w'))"

lemma walked_refl [simp]: "walked w w"
  by (simp add: walked_def)

lemma walked_trans: "walked a b \<Longrightarrow> walked b c \<Longrightarrow> walked a c"
  unfolding walked_def using before_trans same_facts_trans by blast

lemma walked_exclude: "walked w (exclude phase p what w)"
  using retain_diagnostic_storage reachable.step [of "walk_evidence w" "RetainDiagnostic d" for d]
  using excluded_once_exclude [of w phase p what] by (auto simp: walked_def exclude_def)

lemma walked_scope: "within_scope phase root p seen w = (b, w') \<Longrightarrow> walked w w'"
  by (auto simp: within_scope_def walked_exclude split: option.splits bool.splits if_splits)

lemma walked_read: "is_cancelled (walk_token w) = (c, t) \<Longrightarrow> walked w (w\<lparr>walk_token := t\<rparr>)"
  by (simp add: walked_def before_read excluded_once_def)

lemma walked_examine: "examine phase root p name seen w = (kind, w') \<Longrightarrow> walked w w'"
  by (auto simp: examine_def split: if_splits prod.splits dest: walked_scope)

lemma examine_kind:
  assumes "examine phase root p name seen w = (kind, w')"
  shows "kind = (if is_staging_name name \<or> \<not> in_scope root seen then Passed
           else if leads_to_file seen then VisitFile else if leads_to_dir seen then Descend else Passed)"
  using assms within_scope_fst [of phase root p seen w]
  by (auto simp: examine_def split: if_splits prod.splits)

text \<open>A walk of some part of the tree: what it found is a prefix of what is in scope there.\<close>

definition finds :: "path list \<Rightarrow> walk \<Rightarrow> bool \<times> path list \<times> walk \<Rightarrow> bool" where
  "finds whole w = (\<lambda>(complete, files, w').
     walked w w' \<and> (\<exists>rest. whole = files @ rest \<and> (complete \<longrightarrow> rest = []))
     \<and> (complete \<or> walk_token w' = Some 0))"

lemma finds_after: "walked w w1 \<Longrightarrow> finds whole w1 r \<Longrightarrow> finds whole w r"
  unfolding finds_def using walked_trans by fastforce

lemma finds_seq:
  "finds a w (True, f1, w1) \<Longrightarrow> finds b w1 (k, f2, w2) \<Longrightarrow> finds (a @ b) w (k, f1 @ f2, w2)"
  unfolding finds_def using walked_trans by fastforce

lemma finds_cut: "finds a w (False, f1, w1) \<Longrightarrow> finds (a @ b) w (False, f1, w1)"
  unfolding finds_def by auto

lemma visit_ok:
  "finds (scope_files root directory tree) w (visit_directory phase root directory tree w)"
  "finds (scope_entries root directory entries) w (visit_entries phase root directory entries w)"
  "finds (scope_entry root directory entry) w (visit_entry phase root directory entry w)"
proof (induction phase root directory tree w and phase root directory entries w
    and phase root directory entry w rule: visit_directory_visit_entries_visit_entry.induct)
  case (4 phase root directory entry rest w)
  obtain stop t where read: "is_cancelled (walk_token w) = (stop, t)" by fastforce
  note w1 = walked_read [OF read]
  show ?case
  proof (cases stop)
    case True
    then show ?thesis using read w1 by (auto simp: finds_def is_cancelled_def)
  next
    case False
    then have read: "is_cancelled (walk_token w) = (False, t)" using read by simp
    obtain k1 f1 w2 where one: "visit_entry phase root directory entry (w\<lparr>walk_token := t\<rparr>) = (k1, f1, w2)"
      by (metis prod_cases3)
    have f1: "finds (scope_entry root directory entry) (w\<lparr>walk_token := t\<rparr>) (k1, f1, w2)"
      using "4.IH"(1) [OF read [symmetric] refl] one by simp
    show ?thesis
    proof (cases k1)
      case False
      then show ?thesis using finds_cut finds_after [OF w1] f1 by (auto simp: read one)
    next
      case True
      then have one': "visit_entry phase root directory entry (w\<lparr>walk_token := t\<rparr>) = (True, f1, w2)"
        using one by simp
      obtain k2 f2 w3 where two: "visit_entries phase root directory rest w2 = (k2, f2, w3)"
        by (metis prod_cases3)
      have "finds (scope_entries root directory rest) w2 (k2, f2, w3)"
        using "4.IH"(2) [OF read [symmetric] refl one' [symmetric] refl refl] two
        by simp
      then have "finds (scope_entries root directory (entry # rest)) (w\<lparr>walk_token := t\<rparr>) (k2, f1 @ f2, w3)"
        using finds_seq f1 True by simp
      then show ?thesis using finds_after [OF w1] True by (simp add: read one two)
    qed
  qed
next
  case (6 phase root directory name seen sub w)
  obtain kind w1 where e: "examine phase root (directory @ [Normal name]) name seen w = (kind, w1)"
    by fastforce
  show ?case
  proof (cases kind)
    case Descend
    then show ?thesis
      using finds_after [OF walked_examine [OF e] 6 [OF e [symmetric] Descend]] examine_kind [OF e]
      by (auto simp: e split: if_splits)
  qed (use walked_examine [OF e] examine_kind [OF e] in \<open>auto simp: finds_def e split: if_splits\<close>)
qed (simp_all add: finds_def)

lemma scope_below:
  "f \<in> set (scope_files root directory tree) \<Longrightarrow>
     \<exists>names. f = directory @ map Normal names \<and> names \<noteq> [] \<and> list_all (\<lambda>n. \<not> is_staging_name n) names"
  "f \<in> set (scope_entries root directory entries) \<Longrightarrow>
     \<exists>names. f = directory @ map Normal names \<and> names \<noteq> [] \<and> list_all (\<lambda>n. \<not> is_staging_name n) names"
  "f \<in> set (scope_entry root directory entry) \<Longrightarrow>
     \<exists>names. f = directory @ map Normal names \<and> names \<noteq> [] \<and> list_all (\<lambda>n. \<not> is_staging_name n) names"
proof (induction root directory tree and root directory entries and root directory entry
    rule: scope_files_scope_entries_scope_entry.induct)
  case (6 root directory name seen sub)
  show ?case
  proof (cases "leads_to_file seen")
    case True
    then show ?thesis using 6 by (intro exI [of _ "[name]"]) (auto split: if_splits)
  next
    case False
    then obtain names where "f = (directory @ [Normal name]) @ map Normal names" "names \<noteq> []"
        "list_all (\<lambda>n. \<not> is_staging_name n) names" "\<not> is_staging_name name"
      using 6 by (auto split: if_splits)
    then show ?thesis by (intro exI [of _ "name # names"]) simp
  qed
qed auto

subsection \<open>Properties\<close>

definition root_scope :: "path \<Rightarrow> dir \<Rightarrow> path list" where
  "root_scope root tree =
     (case file_name root of
        Some name \<Rightarrow> if is_staging_name name then [] else scope_files root root tree
      | None \<Rightarrow> scope_files root root tree)"

lemma visit_finds: "finds (root_scope root tree) w (visit phase root tree w)"
  using visit_ok(1) by (auto simp: visit_def root_scope_def finds_def split: option.split)

definition demo_tree :: dir where
  "demo_tree = Listing
     [Dirent ''a.dds'' \<lparr>linked = Some False, leads_to_dir = False, leads_to_file = True, resolves_to = None\<rparr> Unreadable,
      BadEntry,
      Dirent ''link'' \<lparr>linked = Some True, leads_to_dir = True, leads_to_file = False, resolves_to = None\<rparr> Unreadable,
      Dirent ''sub'' \<lparr>linked = Some False, leads_to_dir = True, leads_to_file = False, resolves_to = None\<rparr>
        (Listing [Dirent ''b.nif'' \<lparr>linked = Some False, leads_to_dir = False, leads_to_file = True,
                                   resolves_to = None\<rparr> Unreadable])]"

definition demo_walk :: walk where
  "demo_walk = \<lparr>walk_evidence = new_evidence None, walk_token = Some 4, diagnosed = []\<rparr>"

text \<open>
  C21: A discovery pass visits exactly the regular files in scope, in enumeration order: the whole
  reference list when it completes, an initial part of it when cancellation cut it short, which
  is the only way it can be incomplete. Every visited file lies strictly below the Mod Root along
  ordinary names outside CAO staging; every excluded link is diagnosed exactly once, across both
  passes; and nothing else of the evidence changes.
\<close>

theorem discovery_visits_scope:
  assumes "visit phase root tree w = (complete, files, w')" "excluded_once w"
  shows "(\<exists>rest. root_scope root tree = files @ rest \<and> (complete \<longrightarrow> rest = []))
     \<and> (complete \<or> walk_token w' = Some 0)
     \<and> list_all (\<lambda>f. \<exists>names. f = root @ map Normal names \<and> names \<noteq> []
                      \<and> list_all (\<lambda>n. \<not> is_staging_name n) names) files
     \<and> excluded_once w' \<and> same_facts (storage_of (walk_evidence w)) (storage_of (walk_evidence w'))"
proof -
  have f: "finds (root_scope root tree) w (complete, files, w')"
    using visit_finds assms(1) by metis
  then have "set files \<subseteq> set (root_scope root tree)" by (auto simp: finds_def)
  then have "set files \<subseteq> set (scope_files root root tree)"
    by (auto simp: root_scope_def split: option.splits if_splits)
  then show ?thesis
    using f assms(2) scope_below(1) [of _ root root tree]
    by (auto simp: finds_def walked_def list_all_iff)
qed

theorem discovery_visits_scope_witness:
  "\<exists>complete files w'. visit DiscoveringArchives [RootDir] demo_tree demo_walk = (complete, files, w')
     \<and> \<not> complete \<and> files = [[RootDir, Normal ''a.dds'']]
     \<and> excluded_once w' \<and> walk_token w' = Some 0"
proof -
  obtain complete files w' where run:
    "visit DiscoveringArchives [RootDir] demo_tree demo_walk = (complete, files, w')"
    by (metis prod_cases3)
  have "(case visit DiscoveringArchives [RootDir] demo_tree demo_walk of (c, fs, _) \<Rightarrow>
      \<not> c \<and> fs = [[RootDir, Normal ''a.dds'']])" by code_simp
  then have "\<not> complete" "files = [[RootDir, Normal ''a.dds'']]" using run by auto
  moreover have "excluded_once demo_walk"
    by (simp add: excluded_once_def demo_walk_def excluded_paths_def new_evidence_def default_storage_def)
  ultimately show ?thesis using discovery_visits_scope [OF run] run by auto
qed

end
