(* ===== verification/ModSelection.thy ===== *)
theory ModSelection
  imports EvidenceRuns Observation Unicode
begin

text \<open>
  Mod Selection resolution (\<open>run/mod_selection.rs\<close>): the part of Preparing that turns a request's
  Mod Selection into the canonical Mod Roots of the run. It changes nothing on disk, so what it
  reads of the filesystem is an argument, \<open>selection_view\<close>, in which an error is its text and a
  directory's identity is the volume and file number the system reports. Lowercasing is the
  Unicode table of \<open>char::to_lowercase\<close>, an argument from code points to code points.
\<close>

type_synonym lowercase = "int \<Rightarrow> int list"

definition fold_char :: "lowercase \<Rightarrow> int \<Rightarrow> int list" where
  "fold_char lower c =
     (if c = 223 \<or> c = 7838 then [115, 115]
      else if c = 962 then [963]
      else if c = 383 then [115]
      else if c = 181 then [956]
      else lower c)"

definition folded_name :: "lowercase \<Rightarrow> string \<Rightarrow> int list" where
  "folded_name lower name = List.maps (fold_char lower) (chars name)"

subsection \<open>What the resolution reads\<close>

datatype child_kind = Missing | LookupFailed string | IsDirectory bool

record selection_view =
  sel_lower :: lowercase
  sel_canonical :: "path \<Rightarrow> string + path"
  sel_is_dir :: "path \<Rightarrow> bool"
  sel_entries :: "path \<Rightarrow> string + (string + string) list"
  sel_metadata :: "path \<Rightarrow> child_kind"
  sel_identity :: "path \<Rightarrow> string + nat \<times> nat"

text \<open>\<open>Path::ancestors\<close>.\<close>

function ancestors :: "path \<Rightarrow> path list" where
  "ancestors p = p # (case parent p of None \<Rightarrow> [] | Some q \<Rightarrow> ancestors q)"
  by pat_completeness auto
termination
  by (relation "measure length") (auto simp: parent_def split: if_splits component.splits)

declare ancestors.simps [simp del]

fun find_identity :: "selection_view \<Rightarrow> nat \<times> nat \<Rightarrow> path list \<Rightarrow> string + bool" where
  "find_identity view boundary [] = Ok False"
| "find_identity view boundary (p # rest) =
     (case sel_identity view p of
        Err e \<Rightarrow> Err e
      | Ok identity \<Rightarrow> if identity = boundary then Ok True else find_identity view boundary rest)"

definition contains_directory :: "selection_view \<Rightarrow> path \<Rightarrow> path \<Rightarrow> string + bool" where
  "contains_directory view boundary directory =
     (case sel_identity view boundary of
        Err e \<Rightarrow> Err e
      | Ok identity \<Rightarrow> find_identity view identity (ancestors directory))"

subsection \<open>The children of a mods directory\<close>

record child =
  child_path :: path
  child_name :: string
  child_folded :: "int list"

definition separator_suffix :: string where
  "separator_suffix = ''_separator''"

definition ends_with :: "string \<Rightarrow> string \<Rightarrow> bool" where
  "ends_with s suffix = (drop (length s - length suffix) s = suffix)"

definition mod_exclusion :: "child \<Rightarrow> int list list \<Rightarrow> run_diagnostic option" where
  "mod_exclusion child ignored =
     (if ends_with (child_name child) separator_suffix
      then Some ((new_diagnostic SeparatorModExcluded Preparing
             ''The child Mod Root matches a configured separator marker'')\<lparr>diagnostic_path := child_path child\<rparr>)
      else if child_folded child \<in> set ignored
      then Some ((new_diagnostic IgnoredModExcluded Preparing
             ''The child Mod Root matches an ignored-mod name'')\<lparr>diagnostic_path := child_path child\<rparr>)
      else None)"

definition resolution_failure :: "string \<Rightarrow> run_failure" where
  "resolution_failure what = new_run_failure ModSelectionResolutionFailed Preparing what"

definition read_child :: "selection_view \<Rightarrow> path \<Rightarrow> string \<Rightarrow> string + child option" where
  "read_child view root entry =
     (if is_staging_name entry then Ok None
      else case sel_metadata view (root @ [Normal entry]) of
             Missing \<Rightarrow> Ok None
           | LookupFailed e \<Rightarrow> Err e
           | IsDirectory directory \<Rightarrow>
               if \<not> directory then Ok None
               else Ok (Some \<lparr>child_path = root @ [Normal entry], child_name = to_string_lossy entry,
                        child_folded = folded_name (sel_lower view) (to_string_lossy entry)\<rparr>))"

text \<open>The loop over the entries: \<open>Ok None\<close> when cancellation is observed before an entry.\<close>

fun collect_children ::
    "selection_view \<Rightarrow> path \<Rightarrow> (string + string) list \<Rightarrow> token \<Rightarrow> (string + child list option) \<times> token"
  where
  "collect_children view root [] t = (Ok (Some []), t)"
| "collect_children view root (entry # rest) t =
     (case is_cancelled t of
        (True, t1) \<Rightarrow> (Ok None, t1)
      | (False, t1) \<Rightarrow>
          (case entry of
             Err e \<Rightarrow> (Err e, t1)
           | Ok name \<Rightarrow>
               (case read_child view root name of
                  Err e \<Rightarrow> (Err e, t1)
                | Ok found \<Rightarrow>
                    (case collect_children view root rest t1 of
                       (Err e, t2) \<Rightarrow> (Err e, t2)
                     | (Ok None, t2) \<Rightarrow> (Ok None, t2)
                     | (Ok (Some later), t2) \<Rightarrow>
                         (Ok (Some ((case found of None \<Rightarrow> [] | Some child \<Rightarrow> [child]) @ later)), t2)))))"

definition order_children :: "child list \<Rightarrow> child list" where
  "order_children children = sort_key (\<lambda>c. (child_folded c, child_name c)) children"

subsection \<open>The Mod Roots\<close>

text \<open>The overlap test against the roots found so far.\<close>

fun check_overlap :: "selection_view \<Rightarrow> child \<Rightarrow> path \<Rightarrow> path list \<Rightarrow> run_failure + unit" where
  "check_overlap view child resolved [] = Ok ()"
| "check_overlap view child resolved (existing # rest) =
     (let overlap = new_run_failure ConflictingModRoots Preparing
            (''The selected Mod Roots overlap: '' @ display_name existing @ '' and ''
             @ display_name (child_path child))
      in case contains_directory view existing resolved of
           Err e \<Rightarrow> Err (resolution_failure e)
         | Ok True \<Rightarrow> Err overlap
         | Ok False \<Rightarrow>
             (case contains_directory view resolved existing of
                Err e \<Rightarrow> Err (resolution_failure e)
              | Ok True \<Rightarrow> Err overlap
              | Ok False \<Rightarrow> check_overlap view child resolved rest))"

definition resolve_child :: "selection_view \<Rightarrow> path \<Rightarrow> path list \<Rightarrow> child \<Rightarrow> run_failure + path" where
  "resolve_child view root roots child =
     (let not_below = resolution_failure
            ''A child Mod Root cannot resolve to the selected mods directory or its ancestor''
      in case sel_canonical view (child_path child) of
           Err e \<Rightarrow> Err (resolution_failure e)
         | Ok resolved \<Rightarrow>
             if parent resolved = None then Err not_below
             else (case contains_directory view resolved root of
                     Err e \<Rightarrow> Err (resolution_failure e)
                   | Ok True \<Rightarrow> Err not_below
                   | Ok False \<Rightarrow>
                       (case check_overlap view child resolved roots of
                          Err f \<Rightarrow> Err f
                        | Ok _ \<Rightarrow> Ok resolved)))"

fun resolve_children ::
    "selection_view \<Rightarrow> path \<Rightarrow> int list list \<Rightarrow> child list \<Rightarrow> path list \<Rightarrow> evidence \<Rightarrow> token
      \<Rightarrow> (run_failure + path list) \<times> evidence \<times> token" where
  "resolve_children view root ignored [] roots ev t = (Ok roots, ev, t)"
| "resolve_children view root ignored (child # rest) roots ev t =
     (case is_cancelled t of
        (True, t1) \<Rightarrow> (Ok [], ev, t1)
      | (False, t1) \<Rightarrow>
          (case mod_exclusion child ignored of
             Some d \<Rightarrow> resolve_children view root ignored rest roots (record_diagnostic d ev) t1
           | None \<Rightarrow>
               (case resolve_child view root roots child of
                  Err f \<Rightarrow> (Err f, ev, t1)
                | Ok resolved \<Rightarrow> resolve_children view root ignored rest (roots @ [resolved]) ev t1)))"

definition selection_root :: "selection_view \<Rightarrow> mod_selection \<Rightarrow> run_failure + path" where
  "selection_root view selection =
     (let missing = resolution_failure
            ''The selected Mod Root could not be resolved to an existing directory''
      in case sel_canonical view (selection_directory selection) of
           Err _ \<Rightarrow> Err missing
         | Ok root \<Rightarrow>
             if \<not> sel_is_dir view root then Err missing
             else if parent root = None
             then Err (resolution_failure
                    ''A filesystem root cannot be selected as a Mod Root or mods directory'')
             else Ok root)"

definition ignored_names :: "selection_view \<Rightarrow> selected_profile \<Rightarrow> int list list" where
  "ignored_names view profile = map (folded_name (sel_lower view)) (ignored_mods profile)"

definition resolve_mod_roots ::
    "selection_view \<Rightarrow> mod_selection \<Rightarrow> selected_profile \<Rightarrow> evidence \<Rightarrow> token
      \<Rightarrow> (run_failure + path list) \<times> evidence \<times> token" where
  "resolve_mod_roots view selection profile ev t =
     (case selection_root view selection of
        Err f \<Rightarrow> (Err f, ev, t)
      | Ok root \<Rightarrow>
          if \<not> is_several_mods selection then (Ok [root], ev, t)
          else (case sel_entries view root of
             Err e \<Rightarrow> (Err (resolution_failure e), ev, t)
           | Ok entries \<Rightarrow>
               (case collect_children view root entries t of
                  (Err e, t1) \<Rightarrow> (Err (resolution_failure e), ev, t1)
                | (Ok None, t1) \<Rightarrow> (Ok [], ev, t1)
                | (Ok (Some children), t1) \<Rightarrow>
                    resolve_children view root (ignored_names view profile)
                      (order_children children) [] ev t1)))"

subsection \<open>What a resolution finds\<close>

lemma exclusion_code: "mod_exclusion child ignored = Some d \<Longrightarrow> diagnostic_code d \<noteq> ObserverFailed"
  by (auto simp: mod_exclusion_def new_diagnostic_def split: if_splits)

text \<open>The child directories the mods directory lists, without token: those that can be read.\<close>

definition listed_child :: "selection_view \<Rightarrow> path \<Rightarrow> string + string \<Rightarrow> child option" where
  "listed_child view root entry =
     (case entry of Err e \<Rightarrow> None
      | Ok name \<Rightarrow> (case read_child view root name of Err e \<Rightarrow> None | Ok found \<Rightarrow> found))"

definition listed_children :: "selection_view \<Rightarrow> path \<Rightarrow> (string + string) list \<Rightarrow> child list" where
  "listed_children view root entries = List.map_filter (listed_child view root) entries"

lemma collect_children_listed:
  "collect_children view root entries t = (r, t') \<Longrightarrow>
     (case r of Err e \<Rightarrow> True | Ok None \<Rightarrow> t' = Some 0
      | Ok (Some children) \<Rightarrow> children = listed_children view root entries) \<and> before t t'"
proof (induction entries arbitrary: r t t')
  case Nil
  then show ?case by (auto simp: listed_children_def map_filter_simps)
next
  case (Cons entry rest)
  show ?case
  proof (cases t rule: is_cancelled_cases)
    case stop
    then show ?thesis using Cons.prems by auto
  next
    case (go t1)
    show ?thesis
    proof (cases "\<exists>name found. entry = Ok name \<and> read_child view root name = Ok found")
      case False
      then show ?thesis using Cons.prems go by (auto split: sum.splits)
    next
      case True
      then obtain name found where e: "entry = Ok name" "read_child view root name = Ok found"
        by blast
      obtain r2 t2 where rest: "collect_children view root rest t1 = (r2, t2)" by fastforce
      have t2: "t' = t2" using Cons.prems go e rest by (simp split: sum.splits option.splits)
      have "listed_children view root (entry # rest)
          = (case found of None \<Rightarrow> [] | Some c \<Rightarrow> [c]) @ listed_children view root rest"
        using e by (simp add: listed_children_def listed_child_def map_filter_simps split: option.split)
      then show ?thesis
        using Cons.prems Cons.IH [OF rest] before_trans [OF go(2)] go e rest t2
        by (cases r2; cases found) (auto split: option.splits)
    qed
  qed
qed

text \<open>Two Mod Roots neither of which lies in the other.\<close>

definition apart :: "selection_view \<Rightarrow> path \<Rightarrow> path \<Rightarrow> bool" where
  "apart view a b = (contains_directory view a b = Ok False \<and> contains_directory view b a = Ok False)"

lemma check_overlap_apart: "check_overlap view child p roots = Ok u \<Longrightarrow> list_all (\<lambda>r. apart view r p) roots"
  by (induction view child p roots rule: check_overlap.induct)
     (auto simp: apart_def Let_def split: sum.splits bool.splits)

definition bounded_root :: "selection_view \<Rightarrow> path \<Rightarrow> path \<Rightarrow> bool" where
  "bounded_root view root r = (parent r \<noteq> None \<and> contains_directory view r root = Ok False)"

lemma resolve_child_ok:
  "resolve_child view root roots child = Ok p \<Longrightarrow>
     sel_canonical view (child_path child) = Ok p \<and> bounded_root view root p \<and> list_all (\<lambda>r. apart view r p) roots"
  using check_overlap_apart
  by (fastforce simp: resolve_child_def bounded_root_def Let_def split: sum.splits bool.splits if_splits)

definition kept_children :: "int list list \<Rightarrow> child list \<Rightarrow> child list" where
  "kept_children ignored children = filter (\<lambda>c. mod_exclusion c ignored = None) children"

lemma resolve_children_ok:
  assumes "resolve_children view root ignored children roots ev t = (Ok found, ev', t')"
    and "sorted_wrt (apart view) roots" and "list_all (bounded_root view root) roots"
  shows "sorted_wrt (apart view) found \<and> list_all (bounded_root view root) found
     \<and> (found = [] \<and> t' = Some 0
        \<or> (\<exists>more. found = roots @ more
             \<and> map (\<lambda>c. sel_canonical view (child_path c)) (kept_children ignored children) = map Ok more
             \<and> reported ev' = reported ev @ List.map_filter (\<lambda>c. mod_exclusion c ignored) children))"
  using assms
proof (induction view root ignored children roots ev t rule: resolve_children.induct)
  case (1 view root ignored roots ev t)
  then show ?case by (auto simp: kept_children_def map_filter_simps)
next
  case (2 view root ignored child rest roots ev t)
  show ?case
  proof (cases t rule: is_cancelled_cases)
    case stop
    then have "found = []" "t' = Some 0" using 2(3) by auto
    then show ?thesis by simp
  next
    case (go t1)
    show ?thesis
    proof (cases "mod_exclusion child ignored")
      case (Some d)
      then show ?thesis
        using "2.IH"(2) [OF go(1) [symmetric] refl Some] 2(3-5) exclusion_code [OF Some]
        by (auto simp: go kept_children_def map_filter_simps)
    next
      case None
      then obtain p where p: "resolve_child view root roots child = Ok p"
        using 2(3) go by (auto split: sum.splits)
      then show ?thesis
        using "2.IH"(1) [OF go(1) [symmetric] refl None p] 2(3-5) None resolve_child_ok [OF p]
        by (auto simp: go kept_children_def map_filter_simps sorted_wrt_append list_all_iff)
    qed
  qed
qed

lemma resolve_children_keeps:
  "resolve_children view root ignored children roots ev t = (r, ev', t') \<Longrightarrow>
     same_facts (storage_of ev) (storage_of ev') \<and> (reachable ev \<longrightarrow> reachable ev') \<and> before t t'"
proof (induction children arbitrary: roots ev t)
  case (Cons child rest)
  show ?case
  proof (cases t rule: is_cancelled_cases)
    case stop
    then show ?thesis using Cons.prems by auto
  next
    case (go t1)
    show ?thesis
    proof (cases "mod_exclusion child ignored")
      case (Some d)
      then show ?thesis
        using Cons.IH [of roots "record_diagnostic d ev" t1] Cons.prems before_trans [OF go(2)] go
          reachable_record_diagnostic [of ev d] same_facts_trans [OF record_diagnostic_same]
        by simp blast
    next
      case None
      then show ?thesis
        using Cons.IH [of _ ev t1] Cons.prems before_trans [OF go(2)] go
        by (auto split: sum.splits)
    qed
  qed
qed simp


subsection \<open>Properties\<close>

lemma resolve_mod_roots_keeps:
  assumes "resolve_mod_roots view selection profile ev t = (r, ev', t')"
  shows "same_facts (storage_of ev) (storage_of ev') \<and> (reachable ev \<longrightarrow> reachable ev') \<and> before t t'"
proof (cases "\<exists>root entries children t1. selection_root view selection = Ok root \<and> is_several_mods selection
    \<and> sel_entries view root = Ok entries \<and> collect_children view root entries t = (Ok (Some children), t1)")
  case True
  then obtain root entries children t1 where *: "selection_root view selection = Ok root"
    "is_several_mods selection" "sel_entries view root = Ok entries"
    "collect_children view root entries t = (Ok (Some children), t1)" by blast
  then show ?thesis
    using assms resolve_children_keeps before_trans collect_children_listed [OF *(4)]
    by (auto simp: resolve_mod_roots_def)
next
  case False
  then have "ev' = ev \<and> before t t'"
    using assms collect_children_listed
    by (auto simp: resolve_mod_roots_def split: sum.splits if_splits prod.splits option.splits) 
  then show ?thesis by simp
qed

definition chosen_children :: "selection_view \<Rightarrow> selected_profile \<Rightarrow> path \<Rightarrow> (string + string) list \<Rightarrow> child list" where
  "chosen_children view profile root entries =
     kept_children (ignored_names view profile) (order_children (listed_children view root entries))"

definition exclusions :: "selection_view \<Rightarrow> selected_profile \<Rightarrow> path \<Rightarrow> (string + string) list \<Rightarrow> run_diagnostic list" where
  "exclusions view profile root entries =
     List.map_filter (\<lambda>c. mod_exclusion c (ignored_names view profile))
       (order_children (listed_children view root entries))"

text \<open>
  C20: Resolving Several Mods, when no cancellation was observed, gives, in the order of the
  children's folded names, the canonical directories of exactly the child directories that are
  neither staging, separators nor ignored, and diagnoses each excluded child once and nothing else.
  The roots never overlap each other, none is a filesystem root, and none contains the mods
  directory, all by directory identity.
\<close>

theorem several_mods_resolve_apart:
  assumes "resolve_mod_roots view (ChildModRoots mods) profile ev t = (Ok roots, ev', t')"
    and "t' \<noteq> Some 0"
  shows "(\<exists>root entries. selection_root view (ChildModRoots mods) = Ok root \<and> sel_entries view root = Ok entries
       \<and> sorted_wrt (apart view) roots \<and> list_all (bounded_root view root) roots
       \<and> map (\<lambda>c. sel_canonical view (child_path c)) (chosen_children view profile root entries) = map Ok roots
       \<and> reported ev' = reported ev @ exclusions view profile root entries)
     \<and> same_facts (storage_of ev) (storage_of ev')"
proof -
  obtain root entries where r: "selection_root view (ChildModRoots mods) = Ok root"
      "sel_entries view root = Ok entries"
    using assms by (auto simp: resolve_mod_roots_def split: sum.splits)
  obtain res t1 where c: "collect_children view root entries t = (res, t1)" by fastforce
  note keeps = resolve_mod_roots_keeps [OF assms(1)]
  note listed = collect_children_listed [OF c]
  show ?thesis
  proof (cases "\<exists>children. res = Ok (Some children)")
    case True
    then obtain children where children: "res = Ok (Some children)" by blast
    then have "resolve_children view root (ignored_names view profile) (order_children children) [] ev t1
        = (Ok roots, ev', t')"
      using assms(1) r c by (simp add: resolve_mod_roots_def)
    from resolve_children_ok [OF this] show ?thesis
      using keeps listed children r assms(2) by (auto simp: chosen_children_def exclusions_def)
  next
    case False
    then have "roots = [] \<and> t' = Some 0"
      using assms(1) r c listed by (auto simp: resolve_mod_roots_def split: sum.splits option.splits)
    then show ?thesis using assms(2) by simp
  qed
qed


definition demo_selection :: selection_view where
  "demo_selection =
     \<lparr>sel_lower = (\<lambda>c. [if 65 \<le> c \<and> c \<le> 90 then c + 32 else c]),
      sel_canonical = (\<lambda>p. Ok p), sel_is_dir = (\<lambda>_. True),
      sel_entries = (\<lambda>_. Ok [Ok ''b'', Ok ''.CAO-staging-1'', Ok ''x_separator'', Ok ''Skip'', Ok ''A'', Ok ''readme'']),
      sel_metadata = (\<lambda>p. IsDirectory (p \<noteq> [RootDir, Normal ''mods'', Normal ''readme''])),
      sel_identity = (\<lambda>p. Ok (length p, case file_name p of None \<Rightarrow> 0 | Some n \<Rightarrow> nat (byte (hd n))))\<rparr>"

definition demo_ignoring :: selected_profile where
  "demo_ignoring = (new_selected_profile demo_capabilities)\<lparr>ignored_mods := [''SKIP'']\<rparr>"

theorem several_mods_resolve_apart_witness:
  "\<exists>ev' t'. resolve_mod_roots demo_selection (ChildModRoots [RootDir, Normal ''mods'']) demo_ignoring
       (new_evidence None) None
     = (Ok [[RootDir, Normal ''mods'', Normal ''A''], [RootDir, Normal ''mods'', Normal ''b'']], ev', t')
     \<and> same_facts (storage_of (new_evidence None)) (storage_of ev')"
proof -
  let ?r = "resolve_mod_roots demo_selection (ChildModRoots [RootDir, Normal ''mods'']) demo_ignoring (new_evidence None) None"
  have "fst ?r = Ok [[RootDir, Normal ''mods'', Normal ''A''], [RootDir, Normal ''mods'', Normal ''b'']]
      \<and> snd (snd ?r) = None"
    by code_simp
  then obtain ev' where r: "?r
      = (Ok [[RootDir, Normal ''mods'', Normal ''A''], [RootDir, Normal ''mods'', Normal ''b'']], ev', None)"
    by (metis prod.collapse)
  show ?thesis using several_mods_resolve_apart [OF r] r by blast
qed

text \<open>An observed cancellation leaves no root, not the roots resolved by then.\<close>

lemma cancelled_resolution_is_empty:
  "(selection_root view (SingleModRoot p) = Ok root \<longrightarrow>
      resolve_mod_roots view (SingleModRoot p) profile ev t = (Ok [root], ev, t))
   \<and> resolve_children view root ignored (child # rest) roots ev (Some 0) = (Ok [], ev, Some 0)
   \<and> collect_children view root (entry # entries) (Some 0) = (Ok None, Some 0)"
  by (simp add: resolve_mod_roots_def)

end
