(* ===== verification/Effects.thy ===== *)
theory Effects
  imports Observation
begin

text \<open>
  Actions: the part of the program that runs over state and leaves a function in three ways, by
  its value, by an error the \<open>?\<close> operator passes on, or by a panic that unwinds to the nearest
  \<open>catch_unwind\<close>. The state survives all three, since the program keeps what outlives a panic outside
  the contained closure. Loops run over lists; a body that returns \<open>Some\<close> leaves its loop.
\<close>

datatype ('e, 'a) outcome = Done 'a | Raise 'e | Panic string

type_synonym ('s, 'e, 'a) action = "'s \<Rightarrow> ('e, 'a) outcome \<times> 's"

definition return :: "'a \<Rightarrow> ('s, 'e, 'a) action" where
  "return x = (\<lambda>s. (Done x, s))"

definition raise :: "'e \<Rightarrow> ('s, 'e, 'a) action" where
  "raise e = (\<lambda>s. (Raise e, s))"

definition panic :: "string \<Rightarrow> ('s, 'e, 'a) action" where
  "panic message = (\<lambda>s. (Panic message, s))"

definition andThen :: "('s, 'e, 'a) action \<Rightarrow> ('a \<Rightarrow> ('s, 'e, 'b) action) \<Rightarrow> ('s, 'e, 'b) action" where
  "andThen m f = (\<lambda>s. case m s of
     (Done x, s') \<Rightarrow> f x s'
   | (Raise e, s') \<Rightarrow> (Raise e, s')
   | (Panic p, s') \<Rightarrow> (Panic p, s'))"

definition read_state :: "('s \<Rightarrow> 'a) \<Rightarrow> ('s, 'e, 'a) action" where
  "read_state f = (\<lambda>s. (Done (f s), s))"

definition change_state :: "('s \<Rightarrow> 's) \<Rightarrow> ('s, 'e, unit) action" where
  "change_state f = (\<lambda>s. (Done (), f s))"

definition lift_result :: "'e + 'a \<Rightarrow> ('s, 'e, 'a) action" where
  "lift_result r = (case r of Err e \<Rightarrow> raise e | Ok x \<Rightarrow> return x)"

definition lift_call :: "('e + 'a) call \<Rightarrow> ('s, 'e, 'a) action" where
  "lift_call c = (case c of Returned r \<Rightarrow> lift_result r | Panicked p \<Rightarrow> panic p)"

definition map_err :: "('e \<Rightarrow> 'f) \<Rightarrow> ('s, 'e, 'a) action \<Rightarrow> ('s, 'f, 'a) action" where
  "map_err f m = (\<lambda>s. case m s of
     (Done x, s') \<Rightarrow> (Done x, s')
   | (Raise e, s') \<Rightarrow> (Raise (f e), s')
   | (Panic p, s') \<Rightarrow> (Panic p, s'))"

text \<open>\<open>catch_unwind\<close> gives the way its closure was left as a value.\<close>

definition catch_unwind :: "('s, 'e, 'a) action \<Rightarrow> ('s, 'f, ('e, 'a) outcome) action" where
  "catch_unwind m = (\<lambda>s. case m s of (r, s') \<Rightarrow> (Done r, s'))"

text \<open>A closure whose error is matched on the spot; a panic passes.\<close>

definition try_action :: "('s, 'e, 'a) action \<Rightarrow> ('s, 'f, 'e + 'a) action" where
  "try_action m = (\<lambda>s. case m s of
     (Done x, s') \<Rightarrow> (Done (Ok x), s')
   | (Raise e, s') \<Rightarrow> (Done (Err e), s')
   | (Panic p, s') \<Rightarrow> (Panic p, s'))"

fun for_each :: "('x \<Rightarrow> ('s, 'e, 'r option) action) \<Rightarrow> 'x list \<Rightarrow> ('s, 'e, 'r option) action" where
  "for_each body [] = return None"
| "for_each body (x # xs) =
     andThen (body x) (\<lambda>r. case r of Some v \<Rightarrow> return (Some v) | None \<Rightarrow> for_each body xs)"

text \<open>A loop that carries a value and leaves only by an error.\<close>

fun fold_each :: "('x \<Rightarrow> 'a \<Rightarrow> ('s, 'e, 'a) action) \<Rightarrow> 'x list \<Rightarrow> 'a \<Rightarrow> ('s, 'e, 'a) action" where
  "fold_each body [] acc = return acc"
| "fold_each body (x # xs) acc = andThen (body x acc) (fold_each body xs)"

subsection \<open>Evaluation\<close>

text \<open>Not simplification rules: they would rewrite actions that are not run.\<close>

lemma run_simps:
  "return x s = (Done x, s)" "raise e s = (Raise e, s)" "panic p s = (Panic p, s)"
  "read_state f s = (Done (f s), s)" "change_state g s = (Done (), g s)"
  by (simp_all add: return_def raise_def panic_def read_state_def change_state_def)

lemma andThen_simps:
  "m s = (Done x, s') \<Longrightarrow> andThen m f s = f x s'"
  "m s = (Raise e, s') \<Longrightarrow> andThen m f s = (Raise e, s')"
  "m s = (Panic p, s') \<Longrightarrow> andThen m f s = (Panic p, s')"
  by (simp_all add: andThen_def)

lemma andThen_apply:
  "andThen m f s = (case m s of
     (Done x, s') \<Rightarrow> f x s' | (Raise e, s') \<Rightarrow> (Raise e, s') | (Panic p, s') \<Rightarrow> (Panic p, s'))"
  by (simp add: andThen_def)

lemma andThen_basic [simp]:
  "andThen (return x) f = f x" "andThen (raise e) f = raise e" "andThen (panic p) f = panic p"
  by (simp_all add: andThen_def fun_eq_iff run_simps)

lemma andThen_Done:
  assumes "andThen m f s = (Done y, s'')"
  obtains x s' where "m s = (Done x, s')" "f x s' = (Done y, s'')"
  using assms by (auto simp: andThen_def split: prod.splits outcome.splits)

lemma andThen_cases:
  obtains (finished) x s' where "m s = (Done x, s')" "andThen m f s = f x s'"
  | (raised) e s' where "m s = (Raise e, s')" "andThen m f s = (Raise e, s')"
  | (panicked) p s' where "m s = (Panic p, s')" "andThen m f s = (Panic p, s')"
proof (cases "m s")
  case (Pair r s')
  then show thesis using that by (cases r) (auto simp: andThen_def)
qed

lemma catch_unwind_run: "m s = (r, s') \<Longrightarrow> catch_unwind m s = (Done r, s')"
  by (simp add: catch_unwind_def)

subsection \<open>What an action may change\<close>

text \<open>
  \<open>steps R m\<close>: whichever way \<open>m\<close> is left, the state it leaves is related to the one it started from.
  For a reflexive and transitive \<open>R\<close> the combinators keep it, so a component states its frame once
  per primitive call and has it for everything built from them.
\<close>

definition steps :: "('s \<Rightarrow> 's \<Rightarrow> bool) \<Rightarrow> ('s, 'e, 'a) action \<Rightarrow> bool" where
  "steps R m = (\<forall>s. R s (snd (m s)))"

lemma stepsI: "(\<And>s r s'. m s = (r, s') \<Longrightarrow> R s s') \<Longrightarrow> steps R m"
  by (metis prod.collapse steps_def)

lemma stepsD: "steps R m \<Longrightarrow> m s = (r, s') \<Longrightarrow> R s s'"
  unfolding steps_def by (metis snd_conv)

lemma steps_mono: "steps R m \<Longrightarrow> (\<And>s s'. R s s' \<Longrightarrow> Q s s') \<Longrightarrow> steps Q m"
  by (simp add: steps_def)

locale frame =
  fixes R :: "'s \<Rightarrow> 's \<Rightarrow> bool"
  assumes same: "R s s" and trans: "R s t \<Longrightarrow> R t u \<Longrightarrow> R s u"
begin

lemma pure: "steps R (return x)" "steps R (raise e)" "steps R (panic p)" "steps R (read_state f)"
  by (simp_all add: steps_def same run_simps)

lemma lifted: "steps R (lift_result r)" "steps R (lift_call c)"
  by (auto simp: steps_def lift_result_def lift_call_def same run_simps split: sum.split call.split)

lemma seq:
  assumes "steps R m" and "\<And>x. steps R (f x)"
  shows "steps R (andThen m f)"
proof (rule stepsI)
  fix s r s'
  assume run: "andThen m f s = (r, s')"
  show "R s s'"
  proof (cases m s f rule: andThen_cases)
    case (finished x t)
    then show ?thesis using run stepsD [OF assms(1)] stepsD [OF assms(2)] trans by metis
  next
    case (raised e t)
    then show ?thesis using run stepsD [OF assms(1)] by simp
  next
    case (panicked p t)
    then show ?thesis using run stepsD [OF assms(1)] by simp
  qed
qed

lemma caught: "steps R m \<Longrightarrow> steps R (catch_unwind m)"
  using stepsD [of R m] by (auto intro!: stepsI simp: catch_unwind_def split: prod.splits)

lemma mapped: "steps R m \<Longrightarrow> steps R (map_err g m)"
  using stepsD [of R m] by (auto intro!: stepsI simp: map_err_def split: prod.splits outcome.splits)

lemma tried: "steps R m \<Longrightarrow> steps R (try_action m)"
  using stepsD [of R m] by (auto intro!: stepsI simp: try_action_def split: prod.splits outcome.splits)

lemma each: "(\<And>x. steps R (body x)) \<Longrightarrow> steps R (for_each body xs)"
  by (induction xs) (auto intro!: seq pure split: option.split)

lemma folded: "(\<And>x acc. steps R (body x acc)) \<Longrightarrow> steps R (fold_each body xs acc)"
  by (induction xs arbitrary: acc) (auto intro!: seq pure)

lemma branch:
  "(b \<Longrightarrow> steps R m) \<Longrightarrow> (\<not> b \<Longrightarrow> steps R n) \<Longrightarrow> steps R (if b then m else n)"
  by simp

lemma changed: "(\<And>s. R s (f s)) \<Longrightarrow> steps R (change_state f)"
  by (simp add: steps_def run_simps)

lemmas rules = pure lifted seq caught mapped tried each folded branch

end

subsection \<open>Actions that always return\<close>

definition completes :: "('s, 'e, 'a) action \<Rightarrow> bool" where
  "completes m = (\<forall>s. \<exists>x s'. m s = (Done x, s'))"

lemma completesE:
  assumes "completes m"
  obtains x s' where "m s = (Done x, s')"
  using assms unfolding completes_def by blast

lemma completes_basic: "completes (return x)" "completes (read_state f)" "completes (change_state g)"
  "completes (catch_unwind m)"
  by (simp_all add: completes_def run_simps catch_unwind_def split: prod.split)

lemma completes_andThen:
  assumes "completes m" and "\<And>x. completes (f x)"
  shows "completes (andThen m f)"
  unfolding completes_def
proof
  fix s
  obtain x s' where "m s = (Done x, s')" using assms(1) by (rule completesE)
  then show "\<exists>y s''. andThen m f s = (Done y, s'')"
    using completesE [OF assms(2)] by (simp add: andThen_simps) metis
qed

subsection \<open>What an action returns\<close>

text \<open>\<open>gives P m\<close>: every value \<open>m\<close> returns has \<open>P\<close>.\<close>

definition gives :: "('a \<Rightarrow> bool) \<Rightarrow> ('s, 'e, 'a) action \<Rightarrow> bool" where
  "gives P m = (\<forall>s x s'. m s = (Done x, s') \<longrightarrow> P x)"

lemma givesD: "gives P m \<Longrightarrow> m s = (Done x, s') \<Longrightarrow> P x"
  unfolding gives_def by blast

lemma gives_True [simp]: "gives (\<lambda>_. True) m"
  by (simp add: gives_def)

lemma gives_mono: "gives P m \<Longrightarrow> (\<And>x. P x \<Longrightarrow> Q x) \<Longrightarrow> gives Q m"
  by (simp add: gives_def)

lemma gives_after: "(\<And>x. gives P (f x)) \<Longrightarrow> gives P (andThen m f)"
  unfolding gives_def by (metis andThen_Done)

lemma gives_return: "P x \<Longrightarrow> gives P (return x)" and gives_raise: "gives P (raise e)"
  and gives_panic: "gives P (panic p)"
  by (simp_all add: gives_def run_simps)

lemma gives_andThen:
  assumes "gives Q m" and "\<And>x. Q x \<Longrightarrow> gives P (f x)"
  shows "gives P (andThen m f)"
  using assms unfolding gives_def by (metis andThen_Done)

lemma gives_for_each:
  assumes "\<And>x. x \<in> set xs \<Longrightarrow> gives (\<lambda>r. case r of None \<Rightarrow> True | Some v \<Rightarrow> P v) (body x)"
  shows "gives (\<lambda>r. case r of None \<Rightarrow> True | Some v \<Rightarrow> P v) (for_each body xs)"
  using assms
proof (induction xs)
  case (Cons x xs)
  then have rest: "gives (\<lambda>r. case r of None \<Rightarrow> True | Some v \<Rightarrow> P v) (for_each body xs)" by simp
  show ?case unfolding for_each.simps
    by (rule gives_andThen [OF Cons.prems [of x]]) (use rest in \<open>auto intro: gives_return split: option.split\<close>)
qed (simp add: gives_return)

lemma gives_fold_each:
  assumes "\<And>x acc. x \<in> set xs \<Longrightarrow> P acc \<Longrightarrow> gives P (body x acc)" and "P acc"
  shows "gives P (fold_each body xs acc)"
  using assms
proof (induction xs arbitrary: acc)
  case (Cons x xs)
  show ?case unfolding fold_each.simps
    by (rule gives_andThen [OF Cons.prems(1) [of x acc]]) (use Cons in simp_all)
qed (simp add: gives_return)

text \<open>\<open>raises Q m\<close>: every error \<open>m\<close> is left by has \<open>Q\<close>.\<close>

definition raises :: "('e \<Rightarrow> bool) \<Rightarrow> ('s, 'e, 'a) action \<Rightarrow> bool" where
  "raises Q m = (\<forall>s e s'. m s = (Raise e, s') \<longrightarrow> Q e)"

lemma raisesD: "raises Q m \<Longrightarrow> m s = (Raise e, s') \<Longrightarrow> Q e"
  unfolding raises_def by blast

lemma raises_completes: "completes m \<Longrightarrow> raises Q m"
  unfolding completes_def raises_def by (metis outcome.distinct(1) prod.inject)

lemma raises_basic: "raises Q (return x)" "Q e \<Longrightarrow> raises Q (raise e)" "raises Q (panic p)"
  "raises Q (read_state f)" "raises Q (change_state g)" "raises Q (catch_unwind n)" "raises Q (try_action n)"
  by (auto simp: raises_def run_simps catch_unwind_def try_action_def split: prod.splits outcome.splits)

lemma raises_andThen:
  assumes "raises Q m" and "\<And>x. raises Q (f x)"
  shows "raises Q (andThen m f)"
  unfolding raises_def
proof (intro allI impI)
  fix s e s'
  assume run: "andThen m f s = (Raise e, s')"
  show "Q e"
  proof (cases m s f rule: andThen_cases)
    case (finished x t)
    then have "f x t = (Raise e, s')" using run by simp
    then show ?thesis by (rule raisesD [OF assms(2)])
  qed (use run raisesD [OF assms(1)] in simp_all)
qed

lemma raises_map_err: "(\<And>e. Q (g e)) \<Longrightarrow> raises Q (map_err g m)"
  by (auto simp: raises_def map_err_def split: prod.splits outcome.splits)

lemma raises_for_each: "(\<And>x. raises Q (body x)) \<Longrightarrow> raises Q (for_each body xs)"
  by (induction xs) (auto intro!: raises_andThen raises_basic split: option.split)

lemma raises_fold_each: "(\<And>x acc. raises Q (body x acc)) \<Longrightarrow> raises Q (fold_each body xs acc)"
  by (induction xs arbitrary: acc) (auto intro!: raises_andThen raises_basic)

lemmas raises_rules = raises_basic raises_andThen raises_map_err raises_for_each raises_fold_each

text \<open>A sequence whose second part needs what the first returned.\<close>

context frame
begin

lemma seq_given:
  assumes "steps R m" and "gives P m" and "\<And>x. P x \<Longrightarrow> steps R (f x)"
  shows "steps R (andThen m f)"
proof (rule stepsI)
  fix s r s'
  assume run: "andThen m f s = (r, s')"
  show "R s s'"
  proof (cases m s f rule: andThen_cases)
    case (finished x t)
    then show ?thesis
      using run stepsD [OF assms(1)] stepsD [OF assms(3)] givesD [OF assms(2)] trans by metis
  next
    case (raised e t)
    then show ?thesis using run stepsD [OF assms(1)] by simp
  next
    case (panicked p t)
    then show ?thesis using run stepsD [OF assms(1)] by simp
  qed
qed

end

end
