(* ===== verification/FinalizationSeams.thy ===== *)
theory FinalizationSeams
  imports Effects EvidenceRuns Capacity Unicode "HOL-Library.Option_ord"
begin

text \<open>
  What Archive Finalization works with (\<open>run/probes.rs\<close>, \<open>run/finalization/\<close>): Archive names and the
  game's rules for them, the calls that leave the phase, to the packer, the Archive reader, the
  filesystem, the source pins and the artifact registry, and its state. As in Archive extraction
  an environment answers every call from all calls made before, so the calls are part of the state
  and the properties speak of them.
\<close>

subsection \<open>Names, rules and contents\<close>

record archive_name =
  name_dir :: path
  name_stem :: string
  name_suffix :: string
  name_ext :: string
  name_counter :: "32 word option"

definition full_name :: "archive_name \<Rightarrow> string" where
  "full_name n =
     name_stem n
     @ (case name_counter n of None \<Rightarrow> [] | Some c \<Rightarrow> show_nat (unat c))
     @ (if name_suffix n = [] then [] else '' - '' @ name_suffix n)
     @ name_ext n"

definition full_path :: "archive_name \<Rightarrow> path" where
  "full_path n = name_dir n @ [Normal (full_name n)]"

datatype archive_name_kind = PluginName | ArchiveFileName

record packed_file =
  packed_path :: path
  packed_size :: u64

record planned_archive =
  archive_kind :: packed_archive_kind
  archive_files :: "packed_file list"

record archive_merge =
  merge_incompressible_files :: bool
  merge_texture_files :: bool

record naming_rules =
  rule_extension :: string
  rule_suffix :: "string option"
  rule_texture_suffix :: "string option"
  rule_plugin_extensions :: "string list"
  rule_dummy :: "int list"
  rule_separate_textures :: bool

subsection \<open>The frozen plan\<close>

record finalization_output =
  out_root :: path
  out_path :: path
  out_archive :: planned_archive
  out_plugin :: "path option"
  out_bytes :: u64
  out_loading :: "path list"

record finalization_plan =
  fp_outputs :: "finalization_output list"
  fp_roots :: "path list"
  fp_rules :: naming_rules
  fp_compress :: bool
  fp_delete_sources :: bool
  fp_create_dummies :: bool
  fp_dummy_capacity :: "path \<rightharpoonup> u64"

text \<open>\<open>dummy_capacity_by_root\<close> holds every root of the plan, so indexing it never panics.\<close>

definition dummy_capacity :: "finalization_plan \<Rightarrow> path \<Rightarrow> u64" where
  "dummy_capacity plan root = (case fp_dummy_capacity plan root of None \<Rightarrow> 0 | Some b \<Rightarrow> b)"

definition dummy_len :: "naming_rules \<Rightarrow> u64" where
  "dummy_len rules = of_nat (length (rule_dummy rules))"

definition loading_plugin_names :: "archive_name \<Rightarrow> naming_rules \<Rightarrow> path list" where
  "loading_plugin_names archive rules =
     List.maps (\<lambda>ext. [full_path (archive\<lparr>name_ext := ext\<rparr>),
                       full_path (archive\<lparr>name_ext := ext, name_suffix := []\<rparr>)])
       (rule_plugin_extensions rules)"

subsection \<open>Calls and their answers\<close>

record entry_metadata =
  meta_dir :: bool
  meta_file :: bool
  meta_symlink :: bool
  meta_reparse :: bool
  meta_hidden :: bool
  meta_len :: u64

text \<open>
  \<open>symlink_metadata\<close> and \<open>metadata\<close>: a missing entry is told apart from one that cannot be read, and both
  errors have a text.
\<close>

datatype entry_answer = NoEntry string | EntryError string | EntryFound entry_metadata

text \<open>A directory tree as one walk sees it, each directory being read at most once.\<close>

datatype ptree = CannotList string | Listed "pentry list"
and pentry = BadListing string | Entry string "string + entry_metadata" ptree

text \<open>The reads of one file until the first that ends the loop, interrupted ones left out.\<close>

datatype read_end = EndOfFile | ReadFailed

record plugin_facts =
  fact_ordinary :: bool
  fact_links :: nat
  fact_size :: u64
  fact_stamp :: nat

datatype fin_call =
    Canonical path
  | ListNames path archive_name_kind
  | InspectEntry path
  | InspectTarget path
  | ReadBytes path
  | WalkSources path
  | Partition path "packed_file list" archive_merge
  | PinPackedSource path path
  | StageArchive path
  | StagedPath nat
  | WriteArchive planned_archive bool path path
  | PublishStaged nat path
  | PinLoadingPlugin path path
  | RemovePackedSource path
  | ReadBack path
  | ReleaseArchive
  | ReadSource path
  | WriteStaged path "int list"
  | PinPluginParents path path
  | OpenPlugin path
  | InspectPlugin path
  | ReadPlugin path
  | DeletePlugin path
  | WalkDirectories path
  | RemoveDirectory path

record finalization_env =
  fin_rules :: naming_rules
  fin_lower :: "int list \<Rightarrow> int list"
  fin_probe :: volume_probe
  fin_mode :: execution_mode
  fin_absolute :: "path \<Rightarrow> string + path"
  canonical_root :: "fin_call list \<Rightarrow> path \<Rightarrow> string + path"
  list_names :: "fin_call list \<Rightarrow> path \<Rightarrow> archive_name_kind \<Rightarrow> (string + archive_name list) call"
  inspect_entry :: "fin_call list \<Rightarrow> path \<Rightarrow> entry_answer"
  inspect_target :: "fin_call list \<Rightarrow> path \<Rightarrow> entry_answer"
  read_bytes :: "fin_call list \<Rightarrow> path \<Rightarrow> nat \<Rightarrow> int list option"
  source_tree :: "fin_call list \<Rightarrow> path \<Rightarrow> ptree"
  partition_sources ::
    "fin_call list \<Rightarrow> path \<Rightarrow> packed_file list \<Rightarrow> archive_merge \<Rightarrow> (string + planned_archive list) call"
  pin_packed_source :: "fin_call list \<Rightarrow> path \<Rightarrow> path \<Rightarrow> string + unit"
  stage_archive :: "fin_call list \<Rightarrow> path \<Rightarrow> string + nat"
  staged_path :: "fin_call list \<Rightarrow> nat \<Rightarrow> string + path"
  write_archive :: "fin_call list \<Rightarrow> planned_archive \<Rightarrow> bool \<Rightarrow> path \<Rightarrow> path \<Rightarrow> (string + unit) call"
  publish_staged :: "fin_call list \<Rightarrow> nat \<Rightarrow> path \<Rightarrow> publication_result"
  pin_loading_plugin :: "fin_call list \<Rightarrow> path \<Rightarrow> path \<Rightarrow> string + unit"
  remove_packed_source :: "fin_call list \<Rightarrow> path \<Rightarrow> string + unit"
  read_back :: "fin_call list \<Rightarrow> path \<Rightarrow> (string + unit) call"
  release_archive :: "fin_call list \<Rightarrow> unit call"
  read_source :: "fin_call list \<Rightarrow> path \<Rightarrow> (nat list \<times> read_end) option"
  write_staged :: "fin_call list \<Rightarrow> path \<Rightarrow> int list \<Rightarrow> bool"
  pin_plugin_parents :: "fin_call list \<Rightarrow> path \<Rightarrow> path \<Rightarrow> string + unit"
  open_plugin :: "fin_call list \<Rightarrow> path \<Rightarrow> string + unit"
  inspect_plugin :: "fin_call list \<Rightarrow> path \<Rightarrow> string + plugin_facts"
  read_plugin :: "fin_call list \<Rightarrow> path \<Rightarrow> nat \<Rightarrow> string + int list"
  delete_plugin :: "fin_call list \<Rightarrow> path \<Rightarrow> string + unit"
  directory_tree :: "fin_call list \<Rightarrow> path \<Rightarrow> ptree"
  remove_directory :: "fin_call list \<Rightarrow> path \<Rightarrow> bool"

subsection \<open>The state of the phase\<close>

text \<open>
  The last five fields are what the source keeps outside its two panic boundaries: the phase's
  account, and the progress of the output attempt in flight.
\<close>

record finalizing =
  fz_evidence :: evidence
  fz_token :: token
  fz_checks :: capacity_state
  fz_calls :: "fin_call list"
  fz_account :: archive_finalization_account
  fz_boundary :: archive_finalization_failure
  fz_removed :: nat
  fz_mutation :: mutation_state
  fz_claim :: bool

type_synonym ('e, 'a) fin_action = "(finalizing, 'e, 'a) action"

definition ask :: "fin_call \<Rightarrow> (fin_call list \<Rightarrow> 'a) \<Rightarrow> ('e, 'a) fin_action" where
  "ask c answer = (\<lambda>s. (Done (answer (fz_calls s)), s\<lparr>fz_calls := fz_calls s @ [c]\<rparr>))"

text \<open>A call whose error is passed on, and one whose panic is too.\<close>

definition ask_result :: "fin_call \<Rightarrow> (fin_call list \<Rightarrow> 'e + 'a) \<Rightarrow> ('e, 'a) fin_action" where
  "ask_result c answer = andThen (ask c answer) lift_result"

definition ask_seam :: "fin_call \<Rightarrow> (fin_call list \<Rightarrow> ('e + 'a) call) \<Rightarrow> ('e, 'a) fin_action" where
  "ask_seam c answer = andThen (ask c answer) lift_call"

definition cancelled :: "('e, bool) fin_action" where
  "cancelled = (\<lambda>s. case is_cancelled (fz_token s) of (c, t) \<Rightarrow> (Done c, s\<lparr>fz_token := t\<rparr>))"

definition change_account ::
    "(archive_finalization_account \<Rightarrow> archive_finalization_account) \<Rightarrow> ('e, unit) fin_action" where
  "change_account f = change_state (\<lambda>s. s\<lparr>fz_account := f (fz_account s)\<rparr>)"

definition mark_cancelled :: "('e, unit) fin_action" where
  "mark_cancelled = change_account (\<lambda>a. a\<lparr>account_cancelled := True\<rparr>)"

definition account_fail :: "archive_finalization_failure operation_failure \<Rightarrow> ('e, unit) fin_action" where
  "account_fail failure = change_account (\<lambda>a. a\<lparr>account_failure := Some failure\<rparr>)"

definition push_mutation :: "archive_finalization_mutation \<Rightarrow> ('e, unit) fin_action" where
  "push_mutation m = change_account (\<lambda>a. a\<lparr>account_mutations := account_mutations a @ [m]\<rparr>)"

text \<open>A recording step of the phase's handle: its error is a Run Evidence invariant violation.\<close>

definition record_step :: "(evidence \<Rightarrow> step_result) \<Rightarrow> (error, unit) fin_action" where
  "record_step step = (\<lambda>s. case step (fz_evidence s) of
     (None, ev) \<Rightarrow> (Done (), s\<lparr>fz_evidence := ev\<rparr>)
   | (Some e, ev) \<Rightarrow> (Raise e, s\<lparr>fz_evidence := ev\<rparr>))"

text \<open>The Capacity Check of the run, over the volumes it has frozen.\<close>

definition fin_check ::
    "finalization_env \<Rightarrow> capacity_stage \<Rightarrow> demand \<Rightarrow> ('e, capacity_verdict) fin_action" where
  "fin_check env stage d =
     (\<lambda>s. case capacity_check (fin_probe env) (fin_mode env) stage d (fz_checks s) of
        (v, st) \<Rightarrow> (Done v, s\<lparr>fz_checks := st\<rparr>))"

definition fin_recheck ::
    "finalization_env \<Rightarrow> demand \<Rightarrow> path \<Rightarrow> ('e, capacity_shortage option) fin_action" where
  "fin_recheck env d root =
     (\<lambda>s. case recheck_at (fin_probe env) (fin_mode env) d root (fz_checks s) of
        (Some r, st) \<Rightarrow> (Done r, s\<lparr>fz_checks := st\<rparr>)
      | (None, st) \<Rightarrow> (Panic ''internal error: entered unreachable code'', s\<lparr>fz_checks := st\<rparr>))"

end
