(* ===== verification/LoadingPlugins.thy ===== *)
theory LoadingPlugins
  imports FinalizationSeams
begin

text \<open>
  Loading Plugins and Dummy Plugins (\<open>run/finalization/plugins.rs\<close>): which recognized name loads an
  Archive, the publication of a Dummy Plugin, the maintenance of existing Archives and the guarded
  removal of exact Dummy Plugins.
\<close>

datatype loading_plugin_strength = Present | DurableForSourceDeletion

definition cannot_inspect :: "path \<Rightarrow> string \<Rightarrow> string" where
  "cannot_inspect p e = ''Cannot inspect `'' @ path_text p @ ''`: '' @ e"

definition entry_exists :: "finalization_env \<Rightarrow> path \<Rightarrow> (string, bool) fin_action" where
  "entry_exists env p =
     andThen (ask (InspectEntry p) (\<lambda>h. inspect_entry env h p)) (\<lambda>answer.
       case answer of
         EntryFound _ \<Rightarrow> return True
       | NoEntry _ \<Rightarrow> return False
       | EntryError e \<Rightarrow> raise (cannot_inspect p e))"

definition loads :: "loading_plugin_strength \<Rightarrow> entry_metadata \<Rightarrow> bool" where
  "loads strength m =
     (case strength of
        DurableForSourceDeletion \<Rightarrow> meta_file m \<and> \<not> meta_symlink m \<and> meta_len m \<noteq> 0
      | Present \<Rightarrow> meta_file m)"

definition is_loading_plugin ::
    "finalization_env \<Rightarrow> path \<Rightarrow> loading_plugin_strength \<Rightarrow> (string, bool) fin_action" where
  "is_loading_plugin env p strength =
     andThen (case strength of
         DurableForSourceDeletion \<Rightarrow> ask (InspectEntry p) (\<lambda>h. inspect_entry env h p)
       | Present \<Rightarrow> ask (InspectTarget p) (\<lambda>h. inspect_target env h p)) (\<lambda>answer.
       case answer of
         EntryFound m \<Rightarrow> return (loads strength m)
       | NoEntry _ \<Rightarrow> return False
       | EntryError e \<Rightarrow> raise (cannot_inspect p e))"

definition find_loading_plugin ::
    "finalization_env \<Rightarrow> path list \<Rightarrow> loading_plugin_strength \<Rightarrow> path option
       \<Rightarrow> (string, path option) fin_action" where
  "find_loading_plugin env names strength excluded =
     for_each (\<lambda>name.
       if Some name = excluded then return None
       else andThen (is_loading_plugin env name strength)
              (\<lambda>found. return (if found then Some name else None))) names"

definition has_exact_dummy_bytes :: "finalization_env \<Rightarrow> path \<Rightarrow> int list \<Rightarrow> ('e, bool) fin_action" where
  "has_exact_dummy_bytes env p bytes =
     andThen (ask (InspectEntry p) (\<lambda>h. inspect_entry env h p)) (\<lambda>answer.
       case answer of
         EntryFound m \<Rightarrow>
           if \<not> meta_file m \<or> meta_symlink m \<or> meta_len m \<noteq> of_nat (length bytes) then return False
           else andThen (ask (ReadBytes p) (\<lambda>h. read_bytes env h p (length bytes + 1)))
                  (\<lambda>contents. return (contents = Some bytes))
       | _ \<Rightarrow> return False)"

subsection \<open>Publishing a Dummy Plugin\<close>

record dummy_publication =
  dummy_completed :: bool
  dummy_safe :: bool
  dummy_detail :: string

definition plugin_effect :: "path \<Rightarrow> path \<Rightarrow> archive_finalization_mutation_kind \<Rightarrow> archive_finalization_mutation" where
  "plugin_effect root p kind =
     \<lparr>effect_root = root, effect_path = p, effect_kind = kind, effect_mutation = MCommitted, effect_count = 1\<rparr>"

definition publish_dummy_plugin ::
    "finalization_env \<Rightarrow> path \<Rightarrow> path \<Rightarrow> int list \<Rightarrow> (string, dummy_publication) fin_action" where
  "publish_dummy_plugin env root destination bytes =
     andThen (ask_result (StageArchive root) (\<lambda>h. stage_archive env h root)) (\<lambda>receipt.
     andThen (ask_result (StagedPath receipt) (\<lambda>h. staged_path env h receipt)) (\<lambda>staged.
     andThen (ask (WriteStaged staged bytes) (\<lambda>h. write_staged env h staged bytes)) (\<lambda>written.
     if \<not> written then raise ''Could not stage the loading plugin.''
     else
     andThen (ask (PublishStaged receipt destination) (\<lambda>h. publish_staged env h receipt destination)) (\<lambda>published.
     andThen (if publication_mutation published = MCommitted
              then push_mutation (plugin_effect root destination PluginCreation)
              else return ()) (\<lambda>_.
     let finished = publication_state published = PublishedAndReleased in
     return \<lparr>dummy_completed = finished, dummy_safe = publication_safe published,
             dummy_detail = (if finished then []
               else if error_detail published = [] then ''Loading plugin publication did not complete.''
               else error_detail published)\<rparr>)))))"

subsection \<open>The Loading Plugin of a published output\<close>

definition first_free_name :: "finalization_env \<Rightarrow> path list \<Rightarrow> (string, path option) fin_action" where
  "first_free_name env names =
     for_each (\<lambda>name. andThen (entry_exists env name) (\<lambda>there. return (if there then None else Some name))) names"

definition plugin_destination ::
    "finalization_env \<Rightarrow> path list \<Rightarrow> loading_plugin_strength \<Rightarrow> (string, path) fin_action" where
  "plugin_destination env names strength =
     (let plugin = last names in
      if strength \<noteq> DurableForSourceDeletion then return plugin
      else andThen (entry_exists env plugin) (\<lambda>there.
        if \<not> there then return plugin
        else andThen (is_loading_plugin env plugin strength) (\<lambda>loading.
          if loading then return plugin
          else andThen (first_free_name env names) (\<lambda>free.
            case free of
              Some name \<Rightarrow> return name
            | None \<Rightarrow> raise ''No ordinary loading plugin name is available.''))))"

definition ensure_output_loading_plugin ::
    "finalization_env \<Rightarrow> finalization_plan \<Rightarrow> finalization_output \<Rightarrow> (string, path) fin_action" where
  "ensure_output_loading_plugin env plan out =
     (let bytes = rule_dummy (fp_rules plan);
          names = out_loading out;
          plugin = last names;
          strength = (if fp_delete_sources plan then DurableForSourceDeletion else Present);
          publish = (\<lambda>destination.
            andThen (publish_dummy_plugin env (out_root out) destination bytes) (\<lambda>published.
              if \<not> dummy_completed published then raise (dummy_detail published) else return destination))
      in
      andThen (find_loading_plugin env names strength (Some plugin)) (\<lambda>elsewhere.
      case elsewhere of
        Some loaded \<Rightarrow> return loaded
      | None \<Rightarrow>
        andThen (plugin_destination env names strength) (\<lambda>destination.
        if destination \<noteq> plugin then publish destination
        else andThen (entry_exists env plugin) (\<lambda>there.
          if \<not> there then publish destination
          else
          andThen (if out_plugin out = None then return True else has_exact_dummy_bytes env plugin bytes) (\<lambda>exact.
          if \<not> exact then raise ''The planned loading plugin is occupied.''
          else
          andThen (ask (InspectTarget plugin) (\<lambda>h. inspect_target env h plugin)) (\<lambda>target.
          case target of
            EntryFound m \<Rightarrow>
              if meta_file m then return destination else raise ''The planned loading plugin is not a file.''
          | _ \<Rightarrow> raise ''The planned loading plugin is not a file.''))))))"

subsection \<open>Existing Archives\<close>

text \<open>
  \<open>Some False\<close> leaves the loop: finalization must stop, the failure or cancellation being in the
  account already.
\<close>

definition plugin_failed ::
    "archive_finalization_failure \<Rightarrow> string \<Rightarrow> ('e, unit) fin_action" where
  "plugin_failed c what =
     andThen (account_fail (new_failure c what)) (\<lambda>_.
     andThen cancelled (\<lambda>stop. change_account (\<lambda>a. a\<lparr>account_cancelled := stop\<rparr>)))"

definition create_missing_dummy ::
    "finalization_env \<Rightarrow> finalization_plan \<Rightarrow> path \<Rightarrow> path list
       \<Rightarrow> (string, dummy_publication option) fin_action" where
  "create_missing_dummy env plan root names =
     andThen (find_loading_plugin env names Present None) (\<lambda>loaded.
     if loaded \<noteq> None then return None
     else andThen (entry_exists env (last names)) (\<lambda>there.
       if there then raise ''The loading plugin name is occupied.''
       else andThen (publish_dummy_plugin env root (last names) (rule_dummy (fp_rules plan)))
              (\<lambda>published. return (Some published))))"

definition create_missing_dummy_plugins ::
    "finalization_env \<Rightarrow> finalization_plan \<Rightarrow> path \<Rightarrow> (string, bool) fin_action" where
  "create_missing_dummy_plugins env plan root =
     andThen (ask_seam (ListNames root ArchiveFileName) (\<lambda>h. list_names env h root ArchiveFileName)) (\<lambda>archives.
     andThen (for_each (\<lambda>archive.
       andThen cancelled (\<lambda>stop.
       if stop then andThen mark_cancelled (\<lambda>_. return (Some False))
       else
         let names = loading_plugin_names archive (fp_rules plan) in
         if names = [] then panic ''every game has a plugin extension''
         else
         andThen (try_action (create_missing_dummy env plan root names)) (\<lambda>created.
         case created of
           Ok None \<Rightarrow> return None
         | Ok (Some published) \<Rightarrow>
             if dummy_completed published then return None
             else
               andThen (account_fail (new_failure FinPluginCreationFailed (dummy_detail published))) (\<lambda>_.
               andThen (change_account (\<lambda>a. a\<lparr>account_safe := dummy_safe published\<rparr>)) (\<lambda>_.
               andThen cancelled (\<lambda>stop.
               andThen (change_account (\<lambda>a. a\<lparr>account_cancelled := stop\<rparr>)) (\<lambda>_. return (Some False)))))
         | Err e \<Rightarrow>
             andThen (plugin_failed FinPluginCreationFailed e) (\<lambda>_. return (Some False))))) archives)
       (\<lambda>r. return (r = None)))"

datatype dummy_removal = NotDummy | DummyRemoved

definition plugin_io :: "string \<Rightarrow> path \<Rightarrow> string \<Rightarrow> string" where
  "plugin_io act p e = act @ '' `'' @ path_text p @ ''`: '' @ e"

definition remove_exact_dummy_plugin ::
    "finalization_env \<Rightarrow> path \<Rightarrow> path \<Rightarrow> int list \<Rightarrow> (string, dummy_removal) fin_action" where
  "remove_exact_dummy_plugin env plugin mod_root bytes =
     andThen (lift_result (fin_absolute env plugin)) (\<lambda>p.
     andThen (lift_result (fin_absolute env mod_root)) (\<lambda>root.
     andThen (ask_result (PinPluginParents p root) (\<lambda>h. pin_plugin_parents env h p root)) (\<lambda>_.
     andThen (map_err (plugin_io ''Could not pin Dummy Plugin for removal'' p)
       (ask_result (OpenPlugin p) (\<lambda>h. open_plugin env h p))) (\<lambda>_.
     andThen (map_err (plugin_io ''Could not inspect Dummy Plugin'' p)
       (ask_result (InspectPlugin p) (\<lambda>h. inspect_plugin env h p))) (\<lambda>original.
     if \<not> fact_ordinary original
     then raise (''A Dummy Plugin is no longer an ordinary file: '' @ path_text p)
     else if fact_links original \<noteq> 1 then raise ''A linked Dummy Plugin cannot be removed.''
     else if fact_size original \<noteq> of_nat (length bytes) then return NotDummy
     else
     andThen (map_err (plugin_io ''Could not read pinned Dummy Plugin'' p)
       (ask_result (ReadPlugin p) (\<lambda>h. read_plugin env h p (length bytes)))) (\<lambda>contents.
     if length contents \<noteq> length bytes then raise ''A Dummy Plugin changed during verification.''
     else if contents \<noteq> bytes then return NotDummy
     else
     andThen (map_err (plugin_io ''Could not inspect Dummy Plugin'' p)
       (ask_result (InspectPlugin p) (\<lambda>h. inspect_plugin env h p))) (\<lambda>verified.
     if fact_links verified \<noteq> 1 \<or> fact_stamp verified \<noteq> fact_stamp original
     then raise ''A Dummy Plugin changed during verification.''
     else
     andThen (map_err (plugin_io ''Could not remove pinned Dummy Plugin'' p)
       (ask_result (DeletePlugin p) (\<lambda>h. delete_plugin env h p))) (\<lambda>_. return DummyRemoved))))))))"

definition remove_dummy_plugins ::
    "finalization_env \<Rightarrow> finalization_plan \<Rightarrow> path \<Rightarrow> (string, bool) fin_action" where
  "remove_dummy_plugins env plan root =
     andThen (try_action (ask_seam (ListNames root PluginName) (\<lambda>h. list_names env h root PluginName))) (\<lambda>listed.
     case listed of
       Err e \<Rightarrow> andThen (plugin_failed FinPluginRemovalFailed e) (\<lambda>_. return False)
     | Ok plugins \<Rightarrow>
       andThen (for_each (\<lambda>plugin.
         andThen cancelled (\<lambda>stop.
         if stop then andThen mark_cancelled (\<lambda>_. return (Some False))
         else
         andThen (try_action (remove_exact_dummy_plugin env (full_path plugin) root (rule_dummy (fp_rules plan)))) (\<lambda>removed.
         case removed of
           Ok NotDummy \<Rightarrow> return None
         | Ok DummyRemoved \<Rightarrow>
             andThen (push_mutation (plugin_effect root (full_path plugin) PluginRemoval)) (\<lambda>_. return None)
         | Err e \<Rightarrow> andThen (plugin_failed FinPluginRemovalFailed e) (\<lambda>_. return (Some False))))) plugins)
       (\<lambda>r. return (r = None)))"

definition maintain_existing_loading_plugins ::
    "finalization_env \<Rightarrow> finalization_plan \<Rightarrow> path \<Rightarrow> (string, bool) fin_action" where
  "maintain_existing_loading_plugins env plan root =
     (if fp_create_dummies plan then create_missing_dummy_plugins env plan root
      else remove_dummy_plugins env plan root)"

end
