(* ===== verification/FinalizationPlanning.thy ===== *)
theory FinalizationPlanning
  imports LoadingPlugins
begin

text \<open>
  Freezing the outputs of Archive Finalization before any mutation (\<open>run/finalization/planning.rs\<close>):
  the sources of every Mod Root, the output names, the planned Dummy Plugins and the capacity
  estimates.
\<close>

datatype planning_stop = PlanningCancelled | PlanningFailed string

definition check :: "(planning_stop, unit) fin_action" where
  "check = andThen cancelled (\<lambda>stop. if stop then raise PlanningCancelled else return ())"

definition name_counters :: nat where
  "name_counters = 255"

definition capacity_allowance :: u64 where
  "capacity_allowance = 65536"

subsection \<open>Sources\<close>

definition contains_text :: "int list \<Rightarrow> int list \<Rightarrow> bool" where
  "contains_text needle text =
     list_ex (\<lambda>n. take (length needle) (drop n text) = needle) [0..<Suc (length text)]"

definition is_packing_excluded :: "finalization_env \<Rightarrow> path \<Rightarrow> int list list \<Rightarrow> bool" where
  "is_packing_excluded env relative rules =
     (let text = fin_lower env
            (chars (join_with ''/'' (map (\<lambda>c. to_string_lossy (component_text c)) relative)))
      in list_ex (\<lambda>rule. rule \<noteq> [] \<and> contains_text rule text) rules)"

datatype source_kind = NotSource | SubDirectory path ptree | SourceFile packed_file

definition cannot_inspect_input :: "path \<Rightarrow> string \<Rightarrow> planning_stop" where
  "cannot_inspect_input p e =
     PlanningFailed (''Cannot inspect finalization input `'' @ path_text p @ ''`: '' @ e)"

fun source_entry ::
    "finalization_env \<Rightarrow> path \<Rightarrow> int list list \<Rightarrow> path \<Rightarrow> pentry \<Rightarrow> planning_stop + source_kind" where
  "source_entry env root rules dir (BadListing e) = Err (cannot_inspect_input dir e)"
| "source_entry env root rules dir (Entry name metadata sub) =
     (let p = dir @ [Normal name];
          relative = (case strip_prefix p root of Some rest \<Rightarrow> rest | None \<Rightarrow> p)
      in case metadata of
           Err e \<Rightarrow> Err (cannot_inspect_input p e)
         | Ok m \<Rightarrow>
             if has_staging_component relative \<or> meta_symlink m \<or> meta_reparse m then Ok NotSource
             else if meta_dir m then Ok (SubDirectory p sub)
             else if meta_file m \<and> length relative \<ge> 2 \<and> \<not> is_packing_excluded env relative rules
             then Ok (SourceFile \<lparr>packed_path = p, packed_size = meta_len m\<rparr>)
             else Ok NotSource)"

definition scan_sources ::
    "finalization_env \<Rightarrow> path \<Rightarrow> int list list \<Rightarrow> path \<Rightarrow> pentry list \<Rightarrow> packed_file list
       \<Rightarrow> (planning_stop, packed_file list) fin_action" where
  "scan_sources env root rules dir entries sources =
     fold_each (\<lambda>entry acc.
       andThen check (\<lambda>_.
       andThen (lift_result (source_entry env root rules dir entry)) (\<lambda>kind.
       return (case kind of SourceFile f \<Rightarrow> acc @ [f] | _ \<Rightarrow> acc)))) entries sources"

text \<open>The directories pushed while the entries of one directory are walked, the last pushed on top.\<close>

definition pushed ::
    "finalization_env \<Rightarrow> path \<Rightarrow> int list list \<Rightarrow> path \<Rightarrow> pentry list \<Rightarrow> (path \<times> ptree) list" where
  "pushed env root rules dir entries =
     rev (List.map_filter (\<lambda>entry.
       case source_entry env root rules dir entry of Ok (SubDirectory p sub) \<Rightarrow> Some (p, sub) | _ \<Rightarrow> None)
       entries)"

lemma pushed_smaller:
  "sum_list (map (\<lambda>x. size (snd x)) (pushed env root rules dir entries)) \<le> size_list size entries"
proof -
  have "sum_list (map (\<lambda>x. size (snd x)) (List.map_filter (\<lambda>entry.
       case source_entry env root rules dir entry of Ok (SubDirectory p sub) \<Rightarrow> Some (p, sub) | _ \<Rightarrow> None)
       es)) \<le> size_list size es" for es
  proof (induction es)
    case (Cons entry es)
    have "size sub \<le> size entry" if "source_entry env root rules dir entry = Ok (SubDirectory p sub)" for p sub
      using that by (cases entry) (auto simp: Let_def split: sum.splits if_splits)
    then show ?case
      using Cons by (auto simp: map_filter_simps le_SucI add_mono split: sum.split source_kind.split)
  qed (simp add: map_filter_simps)
  then show ?thesis by (simp add: pushed_def rev_map [symmetric] sum_list_rev)
qed

function collect_loop ::
    "finalization_env \<Rightarrow> path \<Rightarrow> int list list \<Rightarrow> (path \<times> ptree) list \<Rightarrow> packed_file list
       \<Rightarrow> (planning_stop, packed_file list) fin_action" where
  "collect_loop env root rules [] sources = return sources"
| "collect_loop env root rules ((dir, CannotList e) # pending) sources = raise (cannot_inspect_input dir e)"
| "collect_loop env root rules ((dir, Listed entries) # pending) sources =
     andThen (scan_sources env root rules dir entries sources)
       (collect_loop env root rules (pushed env root rules dir entries @ pending))"
  by pat_completeness auto
termination
  by (relation "measure (\<lambda>(env, root, rules, pending, sources). sum_list (map (\<lambda>x. size (snd x)) pending))")
     (use pushed_smaller in \<open>auto simp: le_imp_less_Suc\<close>)

definition collect_sources ::
    "finalization_env \<Rightarrow> path \<Rightarrow> int list list \<Rightarrow> (planning_stop, packed_file list) fin_action" where
  "collect_sources env root rules =
     andThen (ask (WalkSources root) (\<lambda>h. source_tree env h root))
       (\<lambda>tree. collect_loop env root rules [(root, tree)] [])"

subsection \<open>Capacity estimate\<close>

definition size_source :: "finalization_env \<Rightarrow> path \<Rightarrow> (planning_stop, u64) fin_action" where
  "size_source env p =
     (let failed = (\<lambda>e. PlanningFailed (''Cannot size packed source `'' @ path_text p @ ''`: '' @ e))
      in andThen (ask (InspectTarget p) (\<lambda>h. inspect_target env h p)) (\<lambda>answer.
           case answer of
             EntryFound m \<Rightarrow> return (meta_len m)
           | NoEntry e \<Rightarrow> raise (failed e)
           | EntryError e \<Rightarrow> raise (failed e)))"

definition source_overhead :: "path \<Rightarrow> path \<Rightarrow> u64" where
  "source_overhead root p =
     (let name = (case strip_prefix p root of Some rest \<Rightarrow> rest | None \<Rightarrow> p)
      in saturating_add capacity_allowance
           (saturating_mul (of_nat (length (to_string_lossy (path_text name)))) 3))"

definition estimate_packed_capacity ::
    "finalization_env \<Rightarrow> finalization_output \<Rightarrow> u64 \<Rightarrow> (planning_stop, unit) fin_action
       \<Rightarrow> (planning_stop, u64) fin_action" where
  "estimate_packed_capacity env out dummy chk =
     fold_each (\<lambda>source estimate.
       andThen chk (\<lambda>_.
       andThen (size_source env (packed_path source)) (\<lambda>size.
       return (saturating_add estimate
         (saturating_add (saturating_mul size 2) (source_overhead (out_root out) (packed_path source)))))))
     (archive_files (out_archive out))
     (if out_loading out \<noteq> [] then saturating_add capacity_allowance dummy else capacity_allowance)"

subsection \<open>Output names\<close>

definition name_available ::
    "finalization_env \<Rightarrow> path list \<Rightarrow> archive_name \<Rightarrow> (planning_stop, bool) fin_action" where
  "name_available env reserved candidate =
     (let p = full_path candidate in
      andThen (ask (InspectEntry p) (\<lambda>h. inspect_entry env h p)) (\<lambda>answer.
        case answer of
          EntryFound _ \<Rightarrow> return False
        | NoEntry _ \<Rightarrow> return (p \<notin> set reserved)
        | EntryError e \<Rightarrow>
            raise (PlanningFailed (''Cannot plan output Archive `'' @ path_text p @ ''`: '' @ e))))"

definition try_name ::
    "finalization_env \<Rightarrow> path list \<Rightarrow> archive_name \<Rightarrow> (planning_stop, archive_name option) fin_action" where
  "try_name env reserved candidate =
     andThen check (\<lambda>_.
     andThen (name_available env reserved candidate) (\<lambda>ok.
     return (if ok then Some candidate else None)))"

definition archive_suffix :: "naming_rules \<Rightarrow> packed_archive_kind \<Rightarrow> string" where
  "archive_suffix rules kind =
     (case (case kind of PackTextures \<Rightarrow> rule_texture_suffix rules | _ \<Rightarrow> rule_suffix rules) of
        None \<Rightarrow> [] | Some s \<Rightarrow> s)"

definition archive_candidate :: "naming_rules \<Rightarrow> string \<Rightarrow> archive_name \<Rightarrow> archive_name" where
  "archive_candidate rules suffix plugin = plugin\<lparr>name_ext := rule_extension rules, name_suffix := suffix\<rparr>"

definition select_name ::
    "finalization_env \<Rightarrow> string \<Rightarrow> archive_name list \<Rightarrow> path list
       \<Rightarrow> (planning_stop, archive_name) fin_action" where
  "select_name env suffix plugins reserved =
     (let candidate = archive_candidate (fin_rules env) suffix in
      andThen (for_each (\<lambda>plugin. try_name env reserved (candidate plugin)) plugins) (\<lambda>selected.
      case selected of
        Some name \<Rightarrow> return name
      | None \<Rightarrow>
        andThen (for_each (\<lambda>counter.
          try_name env reserved ((candidate (hd plugins))\<lparr>name_counter := Some (of_nat counter)\<rparr>))
          [0..<name_counters]) (\<lambda>selected.
        case selected of
          Some name \<Rightarrow> return name
        | None \<Rightarrow> raise (PlanningFailed ''No available output Archive name.''))))"

subsection \<open>Planning one Archive, one root, all roots\<close>

definition plan_archive ::
    "finalization_env \<Rightarrow> path \<Rightarrow> archive_name list \<Rightarrow> planned_archive \<Rightarrow> finalization_plan \<times> path list
       \<Rightarrow> (planning_stop, finalization_plan \<times> path list) fin_action" where
  "plan_archive env root plugins archive = (\<lambda>(plan, reserved).
     andThen check (\<lambda>_.
     andThen (select_name env (archive_suffix (fin_rules env) (archive_kind archive)) plugins reserved) (\<lambda>selected.
     let names = loading_plugin_names selected (fin_rules env) in
     andThen (if fp_create_dummies plan
         then andThen check (\<lambda>_. map_err PlanningFailed (find_loading_plugin env names Present None))
         else return None) (\<lambda>loading.
     let out = \<lparr>out_root = root, out_path = full_path selected, out_archive = archive,
                out_plugin = (if fp_create_dummies plan \<and> loading = None \<and> names \<noteq> []
                              then Some (last names) else None),
                out_bytes = 0, out_loading = (if fp_create_dummies plan then names else [])\<rparr>
     in
     andThen (estimate_packed_capacity env out (dummy_len (fin_rules env)) check) (\<lambda>bytes.
     return (plan\<lparr>fp_outputs := fp_outputs plan @ [out\<lparr>out_bytes := bytes\<rparr>]\<rparr>,
             full_path selected # reserved))))))"

text \<open>\<open>ArchiveName\<close>'s derived order compares its fields in declaration order.\<close>

definition name_order ::
    "archive_name \<Rightarrow> path \<times> string \<times> string \<times> string \<times> 32 word option" where
  "name_order n = (name_dir n, name_stem n, name_suffix n, name_ext n, name_counter n)"

definition root_plugins ::
    "finalization_env \<Rightarrow> path \<Rightarrow> (planning_stop, archive_name list) fin_action" where
  "root_plugins env root =
     andThen (map_err PlanningFailed
       (ask_seam (ListNames root PluginName) (\<lambda>h. list_names env h root PluginName))) (\<lambda>listed.
     andThen (fold_each (\<lambda>plugin kept.
       andThen check (\<lambda>_.
       andThen (has_exact_dummy_bytes env (full_path plugin) (rule_dummy (fin_rules env))) (\<lambda>exact.
       return (if exact then kept else kept @ [plugin])))) listed []) (\<lambda>kept.
     if kept \<noteq> [] then return (sort_key name_order kept)
     else
       case file_name root of
         Some name \<Rightarrow>
           if to_string_lossy name \<noteq> name
           then raise (PlanningFailed (''The Mod Root name of `'' @ path_text root @ ''` is not valid Unicode.''))
           else return [\<lparr>name_dir = root, name_stem = name, name_suffix = [], name_ext = ''.esp'',
                         name_counter = None\<rparr>]
       | None \<Rightarrow> raise (PlanningFailed (''The Mod Root name of `'' @ path_text root @ ''` is not valid Unicode.''))))"

definition existing_allowance ::
    "finalization_env \<Rightarrow> finalization_plan \<Rightarrow> path \<Rightarrow> (planning_stop, u64) fin_action" where
  "existing_allowance env plan root =
     (if \<not> fp_create_dummies plan then return 0
      else andThen check (\<lambda>_.
           andThen (map_err PlanningFailed
             (ask_seam (ListNames root ArchiveFileName) (\<lambda>h. list_names env h root ArchiveFileName))) (\<lambda>existing.
           return (saturating_mul (of_nat (length existing)) (dummy_len (fin_rules env))))))"

definition plan_root_outputs ::
    "finalization_env \<Rightarrow> archive_merge \<Rightarrow> int list list \<Rightarrow> path \<Rightarrow> finalization_plan \<times> path list
       \<Rightarrow> (planning_stop, finalization_plan \<times> path list) fin_action" where
  "plan_root_outputs env merge rules input = (\<lambda>(plan, reserved).
     andThen check (\<lambda>_.
     andThen (map_err PlanningFailed
       (ask_result (Canonical input) (\<lambda>h. canonical_root env h input))) (\<lambda>root.
     let plan1 = plan\<lparr>fp_roots := fp_roots plan @ [root]\<rparr> in
     andThen (existing_allowance env plan1 root) (\<lambda>allowance.
     let plan2 = plan1\<lparr>fp_dummy_capacity := (fp_dummy_capacity plan1)(root \<mapsto> allowance)\<rparr> in
     andThen (root_plugins env root) (\<lambda>plugins.
     andThen (collect_sources env root rules) (\<lambda>sources.
     andThen check (\<lambda>_.
     andThen (map_err PlanningFailed
       (ask_seam (Partition root sources merge) (\<lambda>h. partition_sources env h root sources merge))) (\<lambda>archives.
     fold_each (plan_archive env root plugins) archives (plan2, reserved)))))))))"

definition empty_plan :: "naming_rules \<Rightarrow> archive_finalization_choices \<Rightarrow> finalization_plan" where
  "empty_plan rules choices =
     \<lparr>fp_outputs = [], fp_roots = [], fp_rules = rules, fp_compress = compress choices,
      fp_delete_sources = delete_sources choices, fp_create_dummies = create_dummy_plugins choices,
      fp_dummy_capacity = Map.empty\<rparr>"

definition merge_of :: "naming_rules \<Rightarrow> archive_finalization_choices \<Rightarrow> archive_merge" where
  "merge_of rules choices =
     \<lparr>merge_incompressible_files = merge_incompressible choices,
      merge_texture_files = (merge_textures choices \<and> \<not> rule_separate_textures rules)\<rparr>"

definition plan_finalization ::
    "finalization_env \<Rightarrow> path list \<Rightarrow> archive_finalization_choices \<Rightarrow> int list list
       \<Rightarrow> (planning_stop, finalization_plan) fin_action" where
  "plan_finalization env roots choices rules =
     andThen (fold_each (plan_root_outputs env (merge_of (fin_rules env) choices) rules) roots
       (empty_plan (fin_rules env) choices, [])) (\<lambda>(plan, reserved).
     andThen check (\<lambda>_. return plan))"

end
