(* ===== verification/FinalizationAttempt.thy ===== *)
theory FinalizationAttempt
  imports FinalizationPlanning
begin

text \<open>
  One planned output's atomic attempt (\<open>run/finalization/attempt.rs\<close>): the capacity recheck, the pins
  of the packed sources, the write, the publication without replacement, the Loading Plugin and the
  source cleanup. Its progress is in the state, outside the boundary that contains its panics.
\<close>

datatype attempt_stop = StoppedShort capacity_shortage | StoppedFailed string

definition set_boundary :: "archive_finalization_failure \<Rightarrow> ('e, unit) fin_action" where
  "set_boundary b = change_state (\<lambda>s. s\<lparr>fz_boundary := b\<rparr>)"

definition output_recheck ::
    "finalization_env \<Rightarrow> finalization_plan \<Rightarrow> finalization_output \<Rightarrow> demand \<Rightarrow> (attempt_stop, unit) fin_action" where
  "output_recheck env plan out dummies =
     andThen (try_action (estimate_packed_capacity env out (dummy_len (fp_rules plan)) (return ()))) (\<lambda>estimated.
     case estimated of
       Err (PlanningFailed e) \<Rightarrow> raise (StoppedFailed e)
     | Err PlanningCancelled \<Rightarrow> panic ''the recheck never polls cancellation''
     | Ok current \<Rightarrow>
         andThen (fin_recheck env (demand_add (out_root out) (max (out_bytes out) current) dummies) (out_root out))
           (\<lambda>short. case short of
              Some shortage \<Rightarrow> raise (StoppedShort shortage)
            | None \<Rightarrow> return ()))"

definition pin_sources ::
    "finalization_env \<Rightarrow> finalization_plan \<Rightarrow> finalization_output \<Rightarrow> (attempt_stop, path list) fin_action" where
  "pin_sources env plan out =
     (if \<not> fp_delete_sources plan then return []
      else fold_each (\<lambda>source pins.
        andThen (map_err StoppedFailed (ask_result (PinPackedSource (packed_path source) (out_root out))
          (\<lambda>h. pin_packed_source env h (packed_path source) (out_root out))))
          (\<lambda>_. return (pins @ [packed_path source]))) (archive_files (out_archive out)) [])"

definition write_output ::
    "finalization_env \<Rightarrow> finalization_plan \<Rightarrow> finalization_output \<Rightarrow> (attempt_stop, nat) fin_action" where
  "write_output env plan out =
     map_err StoppedFailed
     (andThen (ask_result (StageArchive (out_root out)) (\<lambda>h. stage_archive env h (out_root out))) (\<lambda>receipt.
      andThen (ask_result (StagedPath receipt) (\<lambda>h. staged_path env h receipt)) (\<lambda>staged.
      andThen (ask_seam (WriteArchive (out_archive out) (fp_compress plan) (out_root out) staged)
        (\<lambda>h. write_archive env h (out_archive out) (fp_compress plan) (out_root out) staged)) (\<lambda>_.
      return receipt))))"

definition publish_output ::
    "finalization_env \<Rightarrow> finalization_output \<Rightarrow> nat \<Rightarrow> (attempt_stop, unit) fin_action" where
  "publish_output env out receipt =
     andThen (set_boundary FinCommitFailed) (\<lambda>_.
     andThen (ask (PublishStaged receipt (out_path out)) (\<lambda>h. publish_staged env h receipt (out_path out))) (\<lambda>publication.
     andThen (change_state (\<lambda>s. s\<lparr>fz_mutation := publication_mutation publication\<rparr>)) (\<lambda>_.
     if publication_state publication \<noteq> PublishedAndReleased
     then andThen (change_state (\<lambda>s. s\<lparr>fz_claim := publication_safe publication\<rparr>)) (\<lambda>_.
          raise (StoppedFailed (if error_detail publication = [] then ''Archive publication did not complete.''
                                else error_detail publication)))
     else return ())))"

definition hold_loading_plugin ::
    "finalization_env \<Rightarrow> finalization_plan \<Rightarrow> finalization_output \<Rightarrow> (attempt_stop, unit) fin_action" where
  "hold_loading_plugin env plan out =
     andThen (set_boundary FinPluginCreationFailed) (\<lambda>_.
     if out_loading out = [] then return ()
     else
     andThen (map_err StoppedFailed (ensure_output_loading_plugin env plan out)) (\<lambda>plugin.
     if fp_delete_sources plan
     then map_err StoppedFailed (ask_result (PinLoadingPlugin plugin (out_root out))
            (\<lambda>h. pin_loading_plugin env h plugin (out_root out)))
     else return ()))"

definition remove_pin :: "finalization_env \<Rightarrow> path \<Rightarrow> unit \<Rightarrow> (attempt_stop, unit) fin_action" where
  "remove_pin env pin = (\<lambda>_.
     andThen (map_err StoppedFailed (ask_result (RemovePackedSource pin) (\<lambda>h. remove_packed_source env h pin)))
       (\<lambda>_. change_state (\<lambda>s. s\<lparr>fz_removed := fz_removed s + 1\<rparr>)))"

definition clean_sources :: "finalization_env \<Rightarrow> path list \<Rightarrow> (attempt_stop, unit) fin_action" where
  "clean_sources env pins =
     andThen (set_boundary FinSourceCleanupFailed) (\<lambda>_. fold_each (remove_pin env) pins ())"

definition try_attempt ::
    "finalization_env \<Rightarrow> finalization_plan \<Rightarrow> finalization_output \<Rightarrow> demand \<Rightarrow> (attempt_stop, unit) fin_action" where
  "try_attempt env plan out dummies =
     andThen (output_recheck env plan out dummies) (\<lambda>_.
     andThen (pin_sources env plan out) (\<lambda>pins.
     andThen (write_output env plan out) (\<lambda>receipt.
     andThen (publish_output env out receipt) (\<lambda>_.
     andThen (hold_loading_plugin env plan out) (\<lambda>_.
     clean_sources env pins)))))"

subsection \<open>What is left after a failure\<close>

definition archive_reads_back :: "finalization_env \<Rightarrow> path \<Rightarrow> ('e, bool) fin_action" where
  "archive_reads_back env archive =
     andThen (try_action (ask_seam (ReadBack archive) (\<lambda>h. read_back env h archive))) (\<lambda>listed.
     andThen (ask (ReleaseArchive) (\<lambda>h. release_archive env h)) (\<lambda>released.
     case released of Returned _ \<Rightarrow> return (is_ok listed) | Panicked p \<Rightarrow> panic p))"

definition readable_packed_source :: "finalization_env \<Rightarrow> path \<Rightarrow> ('e, bool) fin_action" where
  "readable_packed_source env source =
     andThen (ask (InspectEntry source) (\<lambda>h. inspect_entry env h source)) (\<lambda>answer.
     case answer of
       EntryFound m \<Rightarrow>
         if \<not> meta_file m \<or> meta_symlink m then return False
         else andThen (ask (ReadSource source) (\<lambda>h. read_source env h source)) (\<lambda>reads.
           return (case reads of
               Some (counts, EndOfFile) \<Rightarrow> sum_list counts = unat (meta_len m)
             | _ \<Rightarrow> False))
     | _ \<Rightarrow> return False)"

text \<open>\<open>Iterator::all\<close>: the first unreadable source ends it.\<close>

definition all_readable :: "finalization_env \<Rightarrow> path list \<Rightarrow> ('e, bool) fin_action" where
  "all_readable env sources =
     andThen (for_each (\<lambda>p. andThen (readable_packed_source env p)
       (\<lambda>ok. return (if ok then None else Some ()))) sources)
       (\<lambda>r. return (r = None))"

definition recoverable :: "finalization_env \<Rightarrow> finalization_output \<Rightarrow> ('e, bool) fin_action" where
  "recoverable env out =
     andThen (read_state (\<lambda>s. (fz_boundary s, fz_removed s))) (\<lambda>(b, removed).
     if b = FinPluginCreationFailed then return False
     else andThen (archive_reads_back env (out_path out)) (\<lambda>back.
       if \<not> back then return False
       else all_readable env (map packed_path (drop removed (archive_files (out_archive out))))))"

definition verify_claim :: "finalization_env \<Rightarrow> finalization_output \<Rightarrow> ('e, unit) fin_action" where
  "verify_claim env out =
     andThen (read_state (\<lambda>s. fz_mutation s = MCommitted \<and> fz_claim s)) (\<lambda>needed.
     if \<not> needed then return ()
     else andThen (catch_unwind (recoverable env out :: (unit, bool) fin_action)) (\<lambda>verified.
       change_state (\<lambda>s. s\<lparr>fz_claim := (case verified of Done ok \<Rightarrow> ok | _ \<Rightarrow> False)\<rparr>)))"

definition begin_attempt :: "('e, unit) fin_action" where
  "begin_attempt = change_state (\<lambda>s.
     s\<lparr>fz_boundary := FinWriteFailed, fz_removed := 0, fz_mutation := MNone, fz_claim := True\<rparr>)"

definition failed_outcome ::
    "archive_finalization_failure operation_failure \<Rightarrow> finalizing \<Rightarrow> archive_finalization_failure attempt_outcome" where
  "failed_outcome failure s = attempt_outcome.Failed failure (fz_mutation s) (fz_claim s)"

definition attempt_output ::
    "finalization_env \<Rightarrow> finalization_plan \<Rightarrow> finalization_output \<Rightarrow> demand
       \<Rightarrow> ('e, archive_finalization_attempt) fin_action" where
  "attempt_output env plan out dummies =
     andThen begin_attempt (\<lambda>_.
     andThen (catch_unwind (try_attempt env plan out dummies)) (\<lambda>attempted.
     andThen (case attempted of
         Done _ \<Rightarrow> return (Succeeded CCommitted)
       | Raise (StoppedShort shortage) \<Rightarrow>
           read_state (failed_outcome (from_capacity_shortage FinInsufficientCapacity shortage))
       | Raise (StoppedFailed e) \<Rightarrow>
           andThen (verify_claim env out) (\<lambda>_.
           read_state (\<lambda>s. failed_outcome (new_failure (fz_boundary s) e) s))
       | Panic message \<Rightarrow>
           read_state (\<lambda>s. attempt_outcome.Failed (new_failure FinUnexpectedException message) (fz_mutation s) False))
       (\<lambda>outcome.
     return \<lparr>output_path = out_path out, output_root = out_root out, output_outcome = outcome\<rparr>)))"

end
