(* ===== verification/Finalization.thy ===== *)
theory Finalization
  imports FinalizationAttempt
begin

text \<open>
  Archive Finalization (\<open>run/finalization/mod.rs\<close>): the Apply phase, which plans, attempts every
  output, maintains Loading Plugins and prunes empty directories, writing its facts through the
  handle of its phase; and the planning-only step of a Dry Run.
\<close>

datatype escape = EscapeEvidence error | EscapeWork string

definition packing_exclusions_of :: "finalization_env \<Rightarrow> run_preparation \<Rightarrow> int list list" where
  "packing_exclusions_of env prep =
     map (\<lambda>rule. fin_lower env (chars (slashes rule))) (packing_exclusions (prep_profile prep))"

definition creation_requested :: "run_preparation \<Rightarrow> bool" where
  "creation_requested prep = requests (prep_policy prep) ArchiveCreation"

subsection \<open>Capacity demand\<close>

definition creation_demand :: "finalization_plan \<Rightarrow> demand \<times> demand" where
  "creation_demand plan =
     (let dummies = fold (\<lambda>root. demand_add root (dummy_capacity plan root)) (fp_roots plan) empty_demand
      in (fold (\<lambda>out. demand_add (out_root out) (out_bytes out)) (fp_outputs plan) dummies, dummies))"

subsection \<open>Empty directories\<close>

fun prunable :: "path \<Rightarrow> path \<Rightarrow> pentry \<Rightarrow> (path \<times> ptree) option" where
  "prunable root dir (BadListing _) = None"
| "prunable root dir (Entry name (Err _) sub) = None"
| "prunable root dir (Entry name (Ok m) sub) =
     (let p = dir @ [Normal name]
      in if \<not> meta_dir m \<or> meta_symlink m \<or> meta_reparse m \<or> meta_hidden m then None
         else if has_staging_component (case strip_prefix p root of Some rest \<Rightarrow> rest | None \<Rightarrow> p) then None
         else Some (p, sub))"

lemma prunable_smaller:
  "sum_list (map (\<lambda>x. Suc (size (snd x))) (List.map_filter (prunable root dir) entries)) \<le> size_list size entries"
proof (induction entries)
  case (Cons entry es)
  have "size sub < size entry" if "prunable root dir entry = Some (p, sub)" for p sub
    using that by (cases "(root, dir, entry)" rule: prunable.cases) (auto simp: Let_def split: if_splits)
  then show ?case
    using Cons by (auto simp: map_filter_simps le_SucI add_mono Suc_le_eq split: option.split)
qed (simp add: map_filter_simps)

text \<open>The directories found, in the order they were found; one that cannot be listed holds none.\<close>

function find_directories :: "path \<Rightarrow> (path \<times> ptree) list \<Rightarrow> path list" where
  "find_directories root [] = []"
| "find_directories root ((dir, CannotList e) # pending) = find_directories root pending"
| "find_directories root ((dir, Listed entries) # pending) =
     (let found = List.map_filter (prunable root dir) entries
      in map fst found @ find_directories root (rev found @ pending))"
  by pat_completeness auto
termination
  by (relation "measure (\<lambda>(root, pending). sum_list (map (\<lambda>x. Suc (size (snd x))) pending))")
     (use prunable_smaller in \<open>auto simp: le_imp_less_Suc le_SucI rev_map [symmetric] sum_list_rev\<close>)

text \<open>
  The longest path first; the length of a path counts the UTF-16 units of its text, which is an
  argument. Only the number of successful removals matters to the caller.
\<close>

definition longest_first :: "(path \<Rightarrow> nat) \<Rightarrow> path list \<Rightarrow> path list" where
  "longest_first len directories = sort_key (\<lambda>p. - int (len p)) directories"

text \<open>The number of UTF-16 units of a UTF-8 string: one per character, two above the basic plane.\<close>

definition utf16_length :: "string \<Rightarrow> nat" where
  "utf16_length s = sum_list (map (\<lambda>c. if c < 65536 then 1 else 2) (chars s))"

definition delete_empty_directories :: "finalization_env \<Rightarrow> path \<Rightarrow> ('e, nat) fin_action" where
  "delete_empty_directories env root =
     andThen (ask (WalkDirectories root) (\<lambda>h. directory_tree env h root)) (\<lambda>tree.
     fold_each (\<lambda>dir removed.
       andThen (ask (RemoveDirectory dir) (\<lambda>h. remove_directory env h dir))
         (\<lambda>gone. return (removed + (if gone then 1 else 0))))
       (longest_first (\<lambda>p. utf16_length (path_text p)) (find_directories root [(root, tree)])) 0)"

definition prune_empty_directories :: "finalization_env \<Rightarrow> path list \<Rightarrow> ('e, unit) fin_action" where
  "prune_empty_directories env roots =
     andThen (for_each (\<lambda>root.
       andThen cancelled (\<lambda>stop.
       if stop then andThen mark_cancelled (\<lambda>_. return (Some ()))
       else
       andThen (delete_empty_directories env root) (\<lambda>pruned.
       andThen (if pruned \<noteq> 0
         then push_mutation \<lparr>effect_root = root, effect_path = root, effect_kind = EmptyDirectoryPruning,
                             effect_mutation = MCommitted, effect_count = pruned\<rparr>
         else return ()) (\<lambda>_. return None)))) roots) (\<lambda>_. return ())"

subsection \<open>The phase\<close>

definition record_shortage ::
    "capacity_shortage \<Rightarrow> path option \<Rightarrow> (escape, unit) fin_action" where
  "record_shortage shortage archive =
     (let failure = from_capacity_shortage FinInsufficientCapacity shortage in
      case archive of
        None \<Rightarrow> account_fail failure
      | Some p \<Rightarrow>
          map_err EscapeEvidence (record_step (record_attempt_progress finalization_attempt
            \<lparr>output_path = p, output_root = shortage_root shortage,
             output_outcome = attempt_outcome.Failed failure MNone True\<rparr>)))"

text \<open>One Mod Root's Loading Plugins; \<open>Some False\<close> returns from the pass, \<open>Some True\<close> leaves its loop.\<close>

definition maintain_root ::
    "finalization_env \<Rightarrow> finalization_plan \<Rightarrow> path list \<Rightarrow> (escape, bool option) fin_action" where
  "maintain_root env plan remaining =
     (let root = hd remaining;
          maintain =
            andThen cancelled (\<lambda>stop.
            if stop then andThen mark_cancelled (\<lambda>_. return (Some True))
            else
            andThen (map_err EscapeWork (maintain_existing_loading_plugins env plan root)) (\<lambda>go.
            return (if go then None else Some False)))
      in
      andThen cancelled (\<lambda>stop.
      if stop then andThen mark_cancelled (\<lambda>_. return (Some True))
      else if dummy_capacity plan root = 0 then maintain
      else
      andThen (fin_recheck env
        (fold (\<lambda>later. demand_add later (dummy_capacity plan later)) remaining empty_demand) root) (\<lambda>short.
      case short of
        Some shortage \<Rightarrow> andThen (record_shortage shortage None) (\<lambda>_. return (Some False))
      | None \<Rightarrow> maintain)))"

definition suffixes_of :: "'a list \<Rightarrow> 'a list list" where
  "suffixes_of xs = map (\<lambda>i. drop i xs) [0..<length xs]"

definition maintain_and_prune ::
    "finalization_env \<Rightarrow> finalization_plan \<Rightarrow> (escape, unit) fin_action" where
  "maintain_and_prune env plan =
     andThen (for_each (maintain_root env plan) (suffixes_of (fp_roots plan))) (\<lambda>left.
     if left = Some False then return ()
     else
     andThen (read_state (\<lambda>s. account_cancelled (fz_account s))) (\<lambda>stopped.
     if stopped then return () else prune_empty_directories env (fp_roots plan)))"

text \<open>One output: \<open>Some False\<close> returns from the phase, \<open>Some True\<close> leaves the loop over the outputs.\<close>

definition run_output ::
    "finalization_env \<Rightarrow> finalization_plan \<Rightarrow> demand \<Rightarrow> finalization_output \<Rightarrow> (escape, bool option) fin_action" where
  "run_output env plan dummies out =
     andThen cancelled (\<lambda>stop.
     if stop then andThen mark_cancelled (\<lambda>_. return (Some True))
     else
     andThen (attempt_output env plan out dummies) (\<lambda>attempt.
     let rejected = failure_category (output_outcome attempt) = Some FinInsufficientCapacity in
     andThen (if rejected then return ()
       else change_account (\<lambda>a. a\<lparr>account_safe := safe_to_continue (output_outcome attempt)\<rparr>)) (\<lambda>_.
     andThen (map_err EscapeEvidence
       (record_step (record_attempt_progress finalization_attempt attempt))) (\<lambda>_.
     if rejected then return (Some False)
     else andThen (read_state (\<lambda>s. account_safe (fz_account s))) (\<lambda>safe.
       return (if safe then None else Some True))))))"

definition contained_cleanup ::
    "finalization_env \<Rightarrow> finalization_plan \<Rightarrow> (escape, unit) fin_action" where
  "contained_cleanup env plan =
     andThen (catch_unwind (maintain_and_prune env plan)) (\<lambda>cleanup.
     let failed = (\<lambda>what.
       andThen (change_account (\<lambda>a. a\<lparr>account_safe := False\<rparr>)) (\<lambda>_.
       account_fail (new_failure FinUnexpectedException what)))
     in case cleanup of
          Done _ \<Rightarrow> return ()
        | Raise (EscapeEvidence e) \<Rightarrow> raise (EscapeEvidence e)
        | Raise (EscapeWork what) \<Rightarrow> failed what
        | Panic message \<Rightarrow> failed message)"

definition run_outputs ::
    "finalization_env \<Rightarrow> finalization_plan \<Rightarrow> demand \<Rightarrow> (escape, unit) fin_action" where
  "run_outputs env plan dummies =
     andThen (for_each (run_output env plan dummies) (fp_outputs plan)) (\<lambda>left.
     if left = Some False then return ()
     else
     andThen (read_state (\<lambda>s. account_cancelled (fz_account s))) (\<lambda>before.
     andThen (if before then return True else cancelled) (\<lambda>stop.
     andThen (change_account (\<lambda>a. a\<lparr>account_cancelled := stop\<rparr>)) (\<lambda>_.
     andThen (read_state (\<lambda>s. account_safe (fz_account s))) (\<lambda>safe.
     if stop \<or> \<not> safe then return () else contained_cleanup env plan)))))"

definition output_at :: "finalization_plan \<Rightarrow> path \<Rightarrow> path option" where
  "output_at plan root = map_option out_path (find (\<lambda>out. out_root out = root) (fp_outputs plan))"

definition finalize_plan :: "finalization_env \<Rightarrow> finalization_plan \<Rightarrow> (escape, unit) fin_action" where
  "finalize_plan env plan =
     andThen cancelled (\<lambda>stop.
     if stop then mark_cancelled
     else
       let (demand, dummies) = creation_demand plan in
       andThen (fin_check env BeforeCreation demand) (\<lambda>v.
       case v of
         Fits \<Rightarrow> run_outputs env plan dummies
       | FailWork shortage \<Rightarrow> record_shortage shortage (output_at plan (shortage_root shortage))
       | _ \<Rightarrow> panic ''Archive Finalization runs only in an Apply run''))"

definition run_finalization_phase ::
    "finalization_env \<Rightarrow> archive_finalization_choices \<Rightarrow> run_preparation \<Rightarrow> (escape, unit) fin_action" where
  "run_finalization_phase env choices prep =
     (let plan_phase = (\<lambda>n. map_err EscapeEvidence (record_step (plan_archive_finalization n))) in
      if \<not> creation_requested prep
      then andThen (plan_phase 0) (\<lambda>_. prune_empty_directories env (prep_mod_roots prep))
      else
      andThen (try_action (plan_finalization env (prep_mod_roots prep) choices (packing_exclusions_of env prep))) (\<lambda>planned.
      case planned of
        Err PlanningCancelled \<Rightarrow> mark_cancelled
      | Err (PlanningFailed what) \<Rightarrow> raise (EscapeWork what)
      | Ok plan \<Rightarrow> andThen (plan_phase (length (fp_outputs plan))) (\<lambda>_. finalize_plan env plan)))"

definition finalize_archives ::
    "finalization_env \<Rightarrow> archive_finalization_choices \<Rightarrow> run_preparation \<Rightarrow> (error, unit) fin_action" where
  "finalize_archives env choices prep =
     (let finish = (\<lambda>s. record_step (finish_archive_finalization (fz_account s)) s);
          escaped = (\<lambda>what.
            andThen (account_fail (new_failure FinUnexpectedException what)) (\<lambda>_.
            andThen (change_account (\<lambda>a. a\<lparr>account_safe := False\<rparr>)) (\<lambda>_. finish)))
      in
      andThen (change_account (\<lambda>_. default_account)) (\<lambda>_.
      andThen (catch_unwind (run_finalization_phase env choices prep)) (\<lambda>outcome.
      case outcome of
        Done _ \<Rightarrow> finish
      | Raise (EscapeEvidence e) \<Rightarrow> raise e
      | Raise (EscapeWork what) \<Rightarrow> escaped what
      | Panic message \<Rightarrow> escaped message)))"

subsection \<open>The planning-only step\<close>

datatype creation_planning =
    NotRequested
  | CreationPlanned "planned_output_archive list" "run_diagnostic option"
  | CreationCancelled
  | CreationFailed string

definition planned_output_of :: "finalization_plan \<Rightarrow> finalization_output \<Rightarrow> planned_output_archive" where
  "planned_output_of plan out =
     \<lparr>planned_output_path = out_path out, planned_output_root = out_root out,
      planned_output_kind = archive_kind (out_archive out),
      file_count = length (archive_files (out_archive out)),
      total_bytes = fold (\<lambda>f total. saturating_add total (packed_size f)) (archive_files (out_archive out)) 0,
      dummy_plugin_path = out_plugin out, deletes_packed_sources = fp_delete_sources plan\<rparr>"

definition planned_outputs :: "finalization_plan \<Rightarrow> planned_output_archive list" where
  "planned_outputs plan = map (planned_output_of plan) (fp_outputs plan)"

definition plan_archive_creation ::
    "finalization_env \<Rightarrow> archive_finalization_choices \<Rightarrow> run_preparation \<Rightarrow> ('e, creation_planning) fin_action" where
  "plan_archive_creation env choices prep =
     (if \<not> creation_requested prep then return NotRequested
      else
      andThen (catch_unwind
        (andThen (plan_finalization env (prep_mod_roots prep) choices (packing_exclusions_of env prep)) (\<lambda>plan.
         andThen (fin_check env BeforeCreation (fst (creation_demand plan))) (\<lambda>v.
         return (planned_outputs plan, v))))) (\<lambda>planned.
      case planned of
        Done (outs, Fits) \<Rightarrow> return (CreationPlanned outs None)
      | Done (outs, Warn w) \<Rightarrow> return (CreationPlanned outs (Some w))
      | Done (outs, _) \<Rightarrow> panic ''Archive creation is planned only in a Dry Run''
      | Raise PlanningCancelled \<Rightarrow> return CreationCancelled
      | Raise (PlanningFailed what) \<Rightarrow> return (CreationFailed what)
      | Panic message \<Rightarrow> return (CreationFailed message)))"

end
