(* ===== verification/EvidenceProducers.thy ===== *)
theory EvidenceProducers
  imports EvidenceRuns
begin

text \<open>
  What a producer of Run Evidence relies on: the recording steps it is sure to have accepted. An
  attempt-bearing phase is open at \<open>n\<close> and \<open>k\<close> when its handle was opened with total \<open>n\<close> and \<open>k\<close>
  attempts were recorded since; the phases of the program walk from one such state to the next.
\<close>

definition open_at :: "'a phase_attempt \<Rightarrow> nat \<Rightarrow> nat \<Rightarrow> evidence \<Rightarrow> bool" where
  "open_at T n k ev = (reachable ev \<and> (\<exists>g. is_open T (storage_of ev) g \<and> total g = n \<and> completed g = k))"

lemma reachable_phases_ok: "reachable ev \<Longrightarrow> phases_ok (phases (storage_of ev))"
  using reachable_wf wf_storeD(1) by blast

lemma last_phases_after [simp]: "phases_after r s \<noteq> []" "last (phases_after r s) = r"
  by (auto simp: phases_after_def)

lemma last_record_same: "phases s' = phases s \<Longrightarrow> last_record s' = last_record s"
  by (simp add: last_record_def)

context attempt_kind
begin

lemma producer_step:
  assumes "phases_ok (phases (storage_of ev))" and "is_open T (storage_of ev) g" and "completed g < total g"
  shows "fst (record_attempt_progress T a ev) = None
     \<and> (\<exists>g'. is_open T (storage_of (snd (record_attempt_progress T a ev))) g' \<and> total g' = total g
          \<and> completed g' = Suc (completed g))
     \<and> kept (storage_of (snd (record_attempt_progress T a ev))) = kept (storage_of ev) @ [a]"
proof -
  let ?ev = "snd (record_attempt_progress T a ev)"
  let ?g = "determinate (total g) (progress_succeeded g + of_bool (attempt_succeeded T a))
              (progress_failed g + of_bool (\<not> attempt_succeeded T a))"
  have "phases (storage_of ?ev) = phases_after (advanced T a g) (retain T a (storage_of ev))"
    by (simp add: record_accepted [OF assms])
  then have "last_record (storage_of ?ev) = Some (advanced T a g)"
    by (simp add: last_record_def)
  then have "is_open T (storage_of ?ev) ?g"
    by (simp add: is_open_def advanced_def)
  moreover have "total ?g = total g" "completed ?g = Suc (completed g)"
    by (simp_all add: completed_def)
  ultimately show ?thesis
    using record_keeps(1) [OF assms, of a] by (auto simp: record_accepted [OF assms])
qed

end

lemma open_at_step:
  assumes "reachable (snd (record_attempt_progress T a ev))" and "attempt_kind T kept"
    and "open_at T n k ev" and "k < n"
  shows "fst (record_attempt_progress T a ev) = None"
    and "open_at T n (Suc k) (snd (record_attempt_progress T a ev))"
    and "kept (storage_of (snd (record_attempt_progress T a ev))) = kept (storage_of ev) @ [a]"
proof -
  obtain g where g: "is_open T (storage_of ev) g" "total g = n" "completed g = k" and ev: "reachable ev"
    using assms(3) by (auto simp: open_at_def)
  note s = attempt_kind.producer_step [OF assms(2) reachable_phases_ok [OF ev] g(1), of a]
  show "fst (record_attempt_progress T a ev) = None"
    "kept (storage_of (snd (record_attempt_progress T a ev))) = kept (storage_of ev) @ [a]"
    using s assms(4) g by simp_all
  show "open_at T n (Suc k) (snd (record_attempt_progress T a ev))"
    using s assms(1,4) g by (auto simp: open_at_def)
qed

lemmas extraction_step = open_at_step [OF _ extraction.attempt_kind_axioms]
lemmas asset_step = open_at_step [OF _ asset.attempt_kind_axioms]
lemmas output_step = open_at_step [OF _ finalization.attempt_kind_axioms]

lemma reachable_attempts:
  assumes "reachable ev"
  shows "reachable (snd (record_attempt_progress extraction_attempt x ev))"
    and "reachable (snd (record_attempt_progress asset_attempt y ev))"
    and "reachable (snd (record_attempt_progress finalization_attempt z ev))"
  using reachable.step [OF assms, of "RecordExtraction x"] reachable.step [OF assms, of "RecordAsset y"]
    reachable.step [OF assms, of "RecordOutput z"] by simp_all

subsection \<open>Archive Finalization\<close>

text \<open>The executed phase as its handle opens it, and with its plan.\<close>

definition finalization_opened :: "evidence \<Rightarrow> bool" where
  "finalization_opened ev =
     (reachable ev \<and> \<not> archive_finalization_completed (storage_of ev)
      \<and> (case last_record (storage_of ev) of None \<Rightarrow> False
         | Some r \<Rightarrow> record_of r = ArchiveFinalization \<and> status r = StExecuted \<and> progress r = None))"

definition finalizing_at :: "nat \<Rightarrow> nat \<Rightarrow> evidence \<Rightarrow> bool" where
  "finalizing_at n k ev =
     (open_at finalization_attempt n k ev \<and> \<not> archive_finalization_completed (storage_of ev))"

lemma finalization_opened_plan:
  assumes "finalization_opened ev"
  shows "fst (plan_archive_finalization n ev) = None"
    and "finalizing_at n 0 (snd (plan_archive_finalization n ev))"
    and "finalization_attempts (storage_of (snd (plan_archive_finalization n ev))) = []"
proof -
  obtain r where r: "reachable ev" "\<not> archive_finalization_completed (storage_of ev)"
      "last_record (storage_of ev) = Some r" "record_of r = ArchiveFinalization" "status r = StExecuted"
      "progress r = None"
    using assms by (auto simp: finalization_opened_def split: option.splits)
  let ?r = "executed ArchiveFinalization (Some (determinate n 0 0))"
  let ?u = "update_storage (\<lambda>s. s\<lparr>archive_finalization_of := Some default_finalization_result\<rparr>) ev"
  have plan: "plan_archive_finalization n ev = accept_phase ?r ?u"
    using r by (simp add: plan_archive_finalization_def)
  have "r \<in> set (phases (storage_of ev))" using r(3) by (auto simp: last_record_def split: if_splits)
  then have "constructed r"
    using reachable_phases_ok [OF r(1)] by (auto simp: phases_ok_def list_all_iff)
  then have "acceptable ?r (storage_of ?u)"
    using r last_record_same [of "storage_of ?u" "storage_of ev"]
    by (simp add: acceptable_def validate_replacement_def validate_progress_def constructed_def)
  from accept_phase_accepted [OF this]
  have acc: "accept_phase ?r ?u = (None, report_safely (record_of ?r) (PubPhase ?r)
      (update_storage (\<lambda>s. s\<lparr>phases := phases_after ?r (storage_of ?u)\<rparr>) ?u))" .
  then show "fst (plan_archive_finalization n ev) = None" by (simp add: plan)
  have reach: "reachable (snd (plan_archive_finalization n ev))"
    using reachable.step [OF r(1), of "PlanFinalization n"] by simp
  have ph: "phases (storage_of (snd (accept_phase ?r ?u))) = phases_after ?r (storage_of ?u)"
    by (simp add: acc)
  have "is_open finalization_attempt (storage_of (snd (accept_phase ?r ?u))) (determinate n 0 0)"
    unfolding is_open_def last_record_def ph by (simp add: finalization_attempt_def)
  moreover have "archive_finalization_completed (storage_of (snd (accept_phase ?r ?u)))
      = archive_finalization_completed (storage_of ev)"
    by (simp add: acc)
  ultimately show "finalizing_at n 0 (snd (plan_archive_finalization n ev))"
    using reach r(2) unfolding finalizing_at_def open_at_def plan
    by (auto intro!: exI [of _ "determinate n 0 0"])
  show "finalization_attempts (storage_of (snd (plan_archive_finalization n ev))) = []"
    by (simp add: plan acc finalization_attempts_def) (simp add: default_finalization_result_def from_parts_def)
qed

lemma finalizing_at_record:
  assumes "finalizing_at n k ev" and "k < n"
  shows "fst (record_attempt_progress finalization_attempt a ev) = None"
    and "finalizing_at n (Suc k) (snd (record_attempt_progress finalization_attempt a ev))"
    and "finalization_attempts (storage_of (snd (record_attempt_progress finalization_attempt a ev)))
      = finalization_attempts (storage_of ev) @ [a]"
proof -
  have o: "open_at finalization_attempt n k ev" and ev: "reachable ev"
    using assms(1) by (auto simp: finalizing_at_def open_at_def)
  note step = output_step [OF reachable_attempts(3) [OF ev] o assms(2)]
  show "fst (record_attempt_progress finalization_attempt a ev) = None" by (rule step(1))
  show "finalization_attempts (storage_of (snd (record_attempt_progress finalization_attempt a ev)))
      = finalization_attempts (storage_of ev) @ [a]" by (rule step(3))
  obtain g where g: "is_open finalization_attempt (storage_of ev) g" "total g = n" "completed g = k"
    using o by (auto simp: open_at_def)
  have "archive_finalization_completed (storage_of (snd (record_attempt_progress finalization_attempt a ev)))
      = archive_finalization_completed (storage_of ev)"
    using finalization.record_accepted [OF reachable_phases_ok [OF ev] g(1), of a] assms(2) g
    by (simp add: finalization_attempt_def Let_def)
  then show "finalizing_at n (Suc k) (snd (record_attempt_progress finalization_attempt a ev))"
    using step(2) assms(1) by (simp add: finalizing_at_def)
qed

definition finishable :: "evidence \<Rightarrow> bool" where
  "finishable ev = (finalization_opened ev \<or> (\<exists>n k. finalizing_at n k ev))"

lemma finishable_finish:
  assumes "finishable ev"
  shows "finish_archive_finalization account ev =
    (None, update_storage (\<lambda>s. s\<lparr>archive_finalization_of := Some (from_parts (finalization_attempts s) account),
        cancellation_observed := cancellation_observed s \<or> account_cancelled account,
        archive_finalization_completed := True\<rparr>) ev)"
proof -
  have "\<not> archive_finalization_completed (storage_of ev)
     \<and> (\<exists>r. last_record (storage_of ev) = Some r \<and> record_of r = ArchiveFinalization \<and> status r = StExecuted)"
    using assms
    by (auto simp: finishable_def finalization_opened_def finalizing_at_def open_at_def is_open_def
        finalization_attempt_def split: option.splits)
  then show ?thesis
    by (auto simp: finish_archive_finalization_def Let_def update_storage_def)
qed

lemma reachable_finish: "reachable ev \<Longrightarrow> reachable (snd (finish_archive_finalization account ev))"
  using reachable.step [of ev "FinishFinalization account"] by simp

end
