(* ===== verification/FinalizationLaws.thy ===== *)
theory FinalizationLaws
  imports Finalization EvidenceProducers
begin

text \<open>
  What Archive Finalization guarantees: planning only reads and offers only packable files; a
  packed source is removed only once its Archive is published and loads; every fact reaches Run
  Evidence in order and is accepted; and a Dry Run plans exactly the outputs Apply would create.
\<close>

subsection \<open>Reading\<close>

text \<open>An action that makes only calls of a class \<open>C\<close> and reads the token, and changes nothing else.\<close>

definition reads :: "(fin_call \<Rightarrow> bool) \<Rightarrow> finalizing \<Rightarrow> finalizing \<Rightarrow> bool" where
  "reads C s s' =
     (\<exists>cs t. s' = s\<lparr>fz_calls := fz_calls s @ cs, fz_token := t\<rparr> \<and> list_all C cs \<and> before (fz_token s) t)"

lemma reads_refl: "reads C s s"
  unfolding reads_def by (intro exI [of _ "[]"] exI [of _ "fz_token s"]) simp

lemma reads_trans:
  assumes "reads C a b" and "reads C b c"
  shows "reads C a c"
proof -
  obtain cs t where 1: "b = a\<lparr>fz_calls := fz_calls a @ cs, fz_token := t\<rparr>" "list_all C cs" "before (fz_token a) t"
    using assms(1) unfolding reads_def by blast
  obtain cs' t' where 2: "c = b\<lparr>fz_calls := fz_calls b @ cs', fz_token := t'\<rparr>" "list_all C cs'" "before (fz_token b) t'"
    using assms(2) unfolding reads_def by blast
  show ?thesis unfolding reads_def
    using 1 2 before_trans [of "fz_token a" t t']
    by (intro exI [of _ "cs @ cs'"] exI [of _ t']) simp
qed

interpretation reads: frame "reads C" for C
  by unfold_locales (fact reads_refl, fact reads_trans)

lemma reads_ask: "C c \<Longrightarrow> steps (reads C) (ask c a :: ('e, 'a) fin_action)"
proof (rule stepsI)
  fix s :: finalizing and r :: "('e, 'a) outcome" and s'
  assume "C c" "ask c a s = (r, s')"
  then show "reads C s s'"
    unfolding reads_def ask_def by (intro exI [of _ "[c]"] exI [of _ "fz_token s"]) auto
qed

lemma reads_ask_result: "C c \<Longrightarrow> steps (reads C) (ask_result c a)"
  unfolding ask_result_def by (intro reads.seq reads_ask reads.lifted)

lemma reads_ask_seam: "C c \<Longrightarrow> steps (reads C) (ask_seam c a)"
  unfolding ask_seam_def by (intro reads.seq reads_ask reads.lifted)

lemma reads_cancelled: "steps (reads C) (cancelled :: ('e, bool) fin_action)"
proof (rule stepsI)
  fix s :: finalizing and r :: "('e, bool) outcome" and s'
  assume "cancelled s = (r, s')"
  then show "reads C s s'"
    unfolding reads_def cancelled_def
    by (auto split: prod.splits intro!: exI [of _ "[]"] dest: before_read)
qed

lemma reads_check: "steps (reads C) check"
  unfolding check_def by (intro reads.seq reads_cancelled) (simp add: reads.pure)

lemmas reads_rules = reads_ask reads_ask_result reads_ask_seam reads_cancelled reads_check
  reads.seq reads.mapped reads.tried reads.each reads.folded reads.pure reads.lifted


subsection \<open>Planning\<close>

definition packable :: "finalization_env \<Rightarrow> int list list \<Rightarrow> path \<Rightarrow> packed_file \<Rightarrow> bool" where
  "packable env rules root f =
     (\<exists>names. packed_path f = root @ map Normal names \<and> 2 \<le> length names
        \<and> list_all (\<lambda>n. \<not> is_staging_name n) names
        \<and> \<not> is_packing_excluded env (map Normal names) rules)"

fun planning_call :: "finalization_env \<Rightarrow> int list list \<Rightarrow> fin_call \<Rightarrow> bool" where
  "planning_call env rules (Canonical _) = True"
| "planning_call env rules (ListNames _ _) = True"
| "planning_call env rules (InspectEntry _) = True"
| "planning_call env rules (InspectTarget _) = True"
| "planning_call env rules (ReadBytes _) = True"
| "planning_call env rules (WalkSources _) = True"
| "planning_call env rules (Partition root files _) = list_all (packable env rules root) files"
| "planning_call env rules _ = False"

text \<open>A directory the walk of the sources may be in.\<close>

definition walked_dir :: "path \<Rightarrow> path \<Rightarrow> bool" where
  "walked_dir root dir = (\<exists>names. dir = root @ map Normal names \<and> list_all (\<lambda>n. \<not> is_staging_name n) names)"

lemma source_entry_below:
  assumes "walked_dir root dir" and "source_entry env root rules dir entry = Ok kind"
  shows "case kind of SourceFile f \<Rightarrow> packable env rules root f | SubDirectory p sub \<Rightarrow> walked_dir root p | NotSource \<Rightarrow> True"
proof (cases entry)
  case (Entry name metadata sub)
  obtain names where dir: "dir = root @ map Normal names" "list_all (\<lambda>n. \<not> is_staging_name n) names"
    using assms(1) by (auto simp: walked_dir_def)
  have rel: "strip_prefix (root @ map Normal names @ [Normal name]) root = Some (map Normal names @ [Normal name])"
    by (simp add: strip_prefix_Some)
  have staging: "has_staging_component (map Normal names @ [Normal name]) = is_staging_name name"
    using dir(2) by (auto simp: has_staging_component_def list_ex_iff list_all_iff)
  have d: "walked_dir root (root @ map Normal names @ [Normal name])" if "\<not> is_staging_name name"
    unfolding walked_dir_def using that dir(2) by (intro exI [of _ "names @ [name]"]) simp
  have f: "packable env rules root \<lparr>packed_path = root @ map Normal names @ [Normal name], packed_size = n\<rparr>"
    if "\<not> is_staging_name name" "Suc 0 \<le> length names"
      "\<not> is_packing_excluded env (map Normal names @ [Normal name]) rules" for n
    unfolding packable_def using that dir(2) by (intro exI [of _ "names @ [name]"]) simp
  show ?thesis
    using assms(2) staging dir(1) d f unfolding Entry
    by (auto simp: rel Let_def split: sum.splits if_splits)
qed (use assms in simp)

lemma pushed_below:
  "walked_dir root dir \<Longrightarrow> list_all (\<lambda>x. walked_dir root (fst x)) (pushed env root rules dir entries)"
  using source_entry_below [of root dir env rules]
  by (fastforce simp: pushed_def List.map_filter_def list_all_iff split: sum.splits source_kind.splits)

lemma gives_lift: "(\<And>x. r = Ok x \<Longrightarrow> P x) \<Longrightarrow> gives P (lift_result r)"
  by (auto simp: gives_def lift_result_def run_simps split: sum.splits)

lemma scan_sources_packable:
  assumes "walked_dir root dir" and "list_all (packable env rules root) sources"
  shows "gives (list_all (packable env rules root)) (scan_sources env root rules dir entries sources)"
  unfolding scan_sources_def
proof (rule gives_fold_each)
  show "list_all (packable env rules root) sources" by (rule assms(2))
  fix entry acc
  assume acc: "list_all (packable env rules root) acc"
  show "gives (list_all (packable env rules root))
      (andThen check (\<lambda>_. andThen (lift_result (source_entry env root rules dir entry))
        (\<lambda>kind. return (case kind of SourceFile f \<Rightarrow> acc @ [f] | _ \<Rightarrow> acc))))"
    by (rule gives_andThen [where Q = "\<lambda>_. True"], simp,
        rule gives_andThen [OF gives_lift], rule source_entry_below [OF assms(1)], assumption)
      (use acc in \<open>auto intro!: gives_return split: source_kind.splits\<close>)
qed

lemma collect_loop_packable:
  assumes "list_all (\<lambda>x. walked_dir root (fst x)) pending" and "list_all (packable env rules root) sources"
  shows "gives (list_all (packable env rules root)) (collect_loop env root rules pending sources)"
  using assms
proof (induction env root rules pending sources rule: collect_loop.induct)
  case (3 env root rules dir entries pending sources)
  show ?case unfolding collect_loop.simps
    by (rule gives_andThen [OF scan_sources_packable])
      (use 3 pushed_below [of root dir] in auto)
qed (auto intro: gives_return gives_raise)

lemma collect_sources_packable: "gives (list_all (packable env rules root)) (collect_sources env root rules)"
  unfolding collect_sources_def
  by (rule gives_andThen [where Q = "\<lambda>_. True"], simp, rule collect_loop_packable)
    (auto simp: walked_dir_def intro: exI [of _ "[]"])

lemma collect_loop_reads: "steps (reads C) (collect_loop env root rules pending sources)"
proof (induction env root rules pending sources rule: collect_loop.induct)
  case (3 env root rules dir entries pending sources)
  then show ?case unfolding collect_loop.simps scan_sources_def
    by (auto intro!: reads_rules split: source_kind.split)
qed (auto intro: reads_rules)


lemma collect_sources_reads: "steps (reads (planning_call env rules)) (collect_sources env root rules')"
  unfolding collect_sources_def by (intro reads.seq reads_ask collect_loop_reads) simp

lemma reads_exact_dummy: "steps (reads (planning_call env rules)) (has_exact_dummy_bytes env p bytes)"
  unfolding has_exact_dummy_bytes_def by (auto intro!: reads_rules split: entry_answer.split)

lemma reads_find_plugin: "steps (reads (planning_call env rules)) (find_loading_plugin env names strength excluded)"
  unfolding find_loading_plugin_def is_loading_plugin_def
  by (auto intro!: reads_rules split: entry_answer.split loading_plugin_strength.split)

lemma reads_estimate:
  "steps (reads (planning_call env rules)) chk \<Longrightarrow>
     steps (reads (planning_call env rules)) (estimate_packed_capacity env out dummy chk)"
  unfolding estimate_packed_capacity_def size_source_def
  by (auto intro!: reads_rules simp: Let_def split: entry_answer.split)

lemma reads_select_name: "steps (reads (planning_call env rules)) (select_name env suffix plugins reserved)"
  unfolding select_name_def try_name_def name_available_def
  by (auto intro!: reads_rules simp: Let_def split: entry_answer.split option.split)

lemma reads_plan_archive: "steps (reads (planning_call env rules)) (plan_archive env root plugins archive acc)"
  unfolding plan_archive_def
  by (auto intro!: reads_rules reads_select_name reads_find_plugin reads_estimate simp: Let_def split: prod.split)

lemma reads_plan_root:
  "steps (reads (planning_call env rules)) (plan_root_outputs env merge rules input acc)"
proof -
  obtain plan reserved where acc: "acc = (plan, reserved)" by fastforce
  have plugins: "steps (reads (planning_call env rules)) (root_plugins env root)" for root
    unfolding root_plugins_def
    by (auto intro!: reads_rules reads_exact_dummy split: option.split)
  have allowance: "steps (reads (planning_call env rules)) (existing_allowance env plan root)" for root plan
    unfolding existing_allowance_def by (auto intro!: reads_rules)
  have tail: "steps (reads (planning_call env rules)) (andThen (collect_sources env root rules) (\<lambda>sources.
     andThen check (\<lambda>_.
     andThen (map_err PlanningFailed
       (ask_seam (Partition root sources merge) (\<lambda>h. partition_sources env h root sources merge))) (\<lambda>archives.
     fold_each (plan_archive env root ps) archives (plan2, reserved)))))" for root ps plan2
    by (rule reads.seq_given [OF collect_sources_reads collect_sources_packable])
      (auto intro!: reads_rules reads_plan_archive)
  show ?thesis unfolding plan_root_outputs_def acc
    by (auto intro!: reads_check reads.seq reads.mapped reads_ask_result plugins allowance tail simp: Let_def)
qed

lemma plan_finalization_reads:
  "steps (reads (planning_call env rules)) (plan_finalization env roots choices rules)"
  unfolding plan_finalization_def
  by (auto intro!: reads.seq reads.folded reads_plan_root reads_check reads.pure split: prod.split)

subsection \<open>The plan\<close>

definition plan_ok :: "finalization_plan \<times> path list \<Rightarrow> bool" where
  "plan_ok = (\<lambda>(plan, reserved).
     reserved = rev (map out_path (fp_outputs plan)) \<and> distinct reserved
     \<and> list_all (\<lambda>out. out_root out \<in> set (fp_roots plan)) (fp_outputs plan))"

lemma select_name_fresh: "gives (\<lambda>n. full_path n \<notin> set reserved) (select_name env suffix plugins reserved)"
proof -
  have one: "gives (\<lambda>r. case r of None \<Rightarrow> True | Some v \<Rightarrow> full_path v \<notin> set reserved) (try_name env reserved c)" for c
    unfolding try_name_def name_available_def Let_def
    by (rule gives_andThen [where Q = "\<lambda>_. True"], simp,
        rule gives_andThen [where Q = "\<lambda>ok. ok \<longrightarrow> full_path c \<notin> set reserved"],
        rule gives_andThen [where Q = "\<lambda>_. True"], simp)
      (auto intro!: gives_return gives_raise split: entry_answer.split)
  have last: "gives (\<lambda>n. full_path n \<notin> set reserved) (case r of Some name \<Rightarrow> return name | None \<Rightarrow> m)"
    if "case r of None \<Rightarrow> True | Some v \<Rightarrow> full_path v \<notin> set reserved"
      and "gives (\<lambda>n. full_path n \<notin> set reserved) m" for r and m :: "(planning_stop, archive_name) fin_action"
    using that by (cases r) (auto intro: gives_return)
  show ?thesis unfolding select_name_def Let_def
    by (rule gives_andThen, rule gives_for_each, rule one, rule last, assumption,
        rule gives_andThen, rule gives_for_each, rule one, rule last, assumption, rule gives_raise)
qed

lemma plan_archive_ok:
  assumes "plan_ok acc" and "root \<in> set (fp_roots (fst acc))"
  shows "gives (\<lambda>acc'. plan_ok acc' \<and> fp_roots (fst acc') = fp_roots (fst acc)) (plan_archive env root plugins archive acc)"
proof -
  obtain plan reserved where acc: "acc = (plan, reserved)" by fastforce
  show ?thesis unfolding plan_archive_def acc Let_def prod.case
    by (rule gives_andThen [where Q = "\<lambda>_. True"], simp,
        rule gives_andThen [OF select_name_fresh],
        rule gives_andThen [where Q = "\<lambda>_. True"], simp,
        rule gives_andThen [where Q = "\<lambda>_. True"], simp)
      (use assms in \<open>auto simp: plan_ok_def acc intro!: gives_return\<close>)
qed

lemma plan_root_ok:
  assumes "plan_ok acc"
  shows "gives plan_ok (plan_root_outputs env merge rules input acc)"
proof -
  obtain plan reserved where acc: "acc = (plan, reserved)" by fastforce
  have step: "gives (\<lambda>a. plan_ok a \<and> root \<in> set (fp_roots (fst a))) (plan_archive env root ps archive a)"
    if "plan_ok a \<and> root \<in> set (fp_roots (fst a))" for root ps archive a
    by (rule gives_mono [OF plan_archive_ok]) (use that in auto)
  have all: "gives plan_ok (fold_each (plan_archive env root ps) archives a)"
    if "plan_ok a" "root \<in> set (fp_roots (fst a))" for root ps archives a
    by (rule gives_mono [OF gives_fold_each [where P = "\<lambda>a. plan_ok a \<and> root \<in> set (fp_roots (fst a))"]])
      (use that step in auto)
  have start: "plan_ok (plan\<lparr>fp_roots := fp_roots plan @ [root], fp_dummy_capacity := m\<rparr>, reserved)" for root m
    using assms by (auto simp: plan_ok_def acc list_all_iff)
  show ?thesis unfolding plan_root_outputs_def acc Let_def prod.case
    by (intro gives_after all) (simp_all add: start)
qed

lemma plan_finalization_ok:
  "gives (\<lambda>plan. distinct (map out_path (fp_outputs plan))
      \<and> list_all (\<lambda>out. out_root out \<in> set (fp_roots plan)) (fp_outputs plan))
    (plan_finalization env roots choices rules)"
  unfolding plan_finalization_def
  by (rule gives_andThen, rule gives_fold_each [where P = plan_ok], erule plan_root_ok)
    (auto simp: plan_ok_def empty_plan_def intro!: gives_after gives_return)

subsection \<open>Work that leaves Run Evidence alone\<close>

definition same_evidence :: "finalizing \<Rightarrow> finalizing \<Rightarrow> bool" where
  "same_evidence s s' = (fz_evidence s' = fz_evidence s)"

interpretation quiet: frame same_evidence
  by unfold_locales (simp_all add: same_evidence_def)

lemma reads_same_evidence: "steps (reads C) m \<Longrightarrow> steps same_evidence m"
  by (erule steps_mono) (auto simp: reads_def same_evidence_def)

lemma quiet_ask: "steps same_evidence (ask c a)" "steps same_evidence (ask_result c b)"
  "steps same_evidence (ask_seam c d)" "steps same_evidence cancelled"
  using reads_ask [of "\<lambda>_. True"] reads_ask_result [of "\<lambda>_. True"] reads_ask_seam [of "\<lambda>_. True"]
    reads_cancelled reads_same_evidence by blast+

lemma quiet_account: "steps same_evidence (change_account f)" "steps same_evidence mark_cancelled"
  "steps same_evidence (account_fail x)" "steps same_evidence (push_mutation m)"
  "steps same_evidence (set_boundary b)"
  by (auto intro!: quiet.changed simp: same_evidence_def change_account_def mark_cancelled_def
      account_fail_def push_mutation_def set_boundary_def)

lemma quiet_capacity: "steps same_evidence (fin_check env stage d)" "steps same_evidence (fin_recheck env d root)"
  by (auto simp: steps_def fin_check_def fin_recheck_def same_evidence_def split: prod.split option.split)

lemmas quiet_rules = quiet_ask quiet_account quiet_capacity quiet.rules quiet.changed

lemma quiet_plugins:
  "steps same_evidence (entry_exists env p)"
  "steps same_evidence (find_loading_plugin env names strength excluded)"
  "steps same_evidence (publish_dummy_plugin env root destination bytes)"
  "steps same_evidence (has_exact_dummy_bytes env p bytes)"
  "steps same_evidence (remove_exact_dummy_plugin env p root bytes)"
  unfolding entry_exists_def find_loading_plugin_def is_loading_plugin_def publish_dummy_plugin_def
    has_exact_dummy_bytes_def remove_exact_dummy_plugin_def Let_def
  by (auto intro!: quiet_rules split: entry_answer.split loading_plugin_strength.split)

lemma quiet_ensure: "steps same_evidence (ensure_output_loading_plugin env plan out)"
proof -
  have "steps same_evidence (plugin_destination env names strength)" for names strength
    unfolding plugin_destination_def Let_def first_free_name_def is_loading_plugin_def
    by (auto intro!: quiet_rules quiet_plugins split: option.split entry_answer.split loading_plugin_strength.split)
  then show ?thesis
    unfolding ensure_output_loading_plugin_def Let_def
    by (auto intro!: quiet_rules quiet_plugins split: option.split entry_answer.split)
qed

lemma quiet_maintain: "steps same_evidence (maintain_existing_loading_plugins env plan root)"
  unfolding maintain_existing_loading_plugins_def create_missing_dummy_plugins_def remove_dummy_plugins_def
    create_missing_dummy_def plugin_failed_def Let_def
  by (auto intro!: quiet_rules quiet_plugins split: sum.split option.split dummy_removal.split)

lemma quiet_try_attempt: "steps same_evidence (try_attempt env plan out dummies)"
proof -
  have "steps same_evidence (output_recheck env plan out dummies)"
    unfolding output_recheck_def
    by (auto intro!: quiet_rules reads_same_evidence [OF reads_estimate] reads.pure
        split: sum.split planning_stop.split option.split)
  then show ?thesis
    unfolding try_attempt_def pin_sources_def write_output_def publish_output_def hold_loading_plugin_def
      clean_sources_def remove_pin_def
    by (auto intro!: quiet_rules quiet_ensure simp: same_evidence_def)
qed

lemma quiet_verify: "steps same_evidence (verify_claim env out)"
  unfolding verify_claim_def recoverable_def archive_reads_back_def all_readable_def readable_packed_source_def
  by (auto intro!: quiet_rules simp: same_evidence_def split: call.split entry_answer.split)

lemma quiet_attempt: "steps same_evidence (attempt_output env plan out dummies)"
  unfolding attempt_output_def begin_attempt_def
  by (auto intro!: quiet_rules quiet_try_attempt quiet_verify simp: same_evidence_def
      split: outcome.split attempt_stop.split)

lemma quiet_prune: "steps same_evidence (prune_empty_directories env roots)"
  unfolding prune_empty_directories_def delete_empty_directories_def
  by (auto intro!: quiet_rules)

subsection \<open>The phase within Run Evidence\<close>

lemma attempt_output_returns:
  obtains a s' where "(attempt_output env plan out dummies :: ('e, archive_finalization_attempt) fin_action) s = (Done a, s')"
    "output_path a = out_path out" "output_root a = out_root out" "fz_evidence s' = fz_evidence s"
proof -
  have "completes (verify_claim env out :: ('e, unit) fin_action)"
    unfolding verify_claim_def by (auto intro!: completes_andThen completes_basic)
  then have "completes (attempt_output env plan out dummies :: ('e, archive_finalization_attempt) fin_action)"
    unfolding attempt_output_def begin_attempt_def
    by (auto intro!: completes_andThen completes_basic split: outcome.split attempt_stop.split)
  then obtain a s' where run: "(attempt_output env plan out dummies :: ('e, archive_finalization_attempt) fin_action) s = (Done a, s')"
    by (rule completesE)
  have g: "gives (\<lambda>a. output_path a = out_path out \<and> output_root a = out_root out)
      (attempt_output env plan out dummies :: ('e, archive_finalization_attempt) fin_action)"
    unfolding attempt_output_def by (intro gives_after gives_return) simp
  then show thesis
    using that [OF run] g [unfolded gives_def, rule_format, OF run] stepsD [OF quiet_attempt run] by (simp add: same_evidence_def)
qed

definition continuable :: "archive_finalization_attempt \<Rightarrow> bool" where
  "continuable a = (safe_to_continue (output_outcome a)
     \<and> failure_category (output_outcome a) \<noteq> Some FinInsufficientCapacity)"

definition attempts_in :: "finalizing \<Rightarrow> archive_finalization_attempt list" where
  "attempts_in s = finalization_attempts (storage_of (fz_evidence s))"

lemma record_output_run:
  assumes "finalizing_at n k (fz_evidence s)" and "k < n"
  obtains s' where "map_err EscapeEvidence (record_step (record_attempt_progress finalization_attempt a)) s
      = (Done (), s')"
    "finalizing_at n (Suc k) (fz_evidence s')" "attempts_in s' = attempts_in s @ [a]"
    "fz_account s' = fz_account s"
proof -
  obtain ev where ev: "record_attempt_progress finalization_attempt a (fz_evidence s) = (None, ev)"
    using finalizing_at_record(1) [OF assms, of a] by (metis prod.collapse)
  show thesis
    by (rule that [of "s\<lparr>fz_evidence := ev\<rparr>"])
      (use finalizing_at_record(2,3) [OF assms, of a] ev in
        \<open>simp_all add: map_err_def record_step_def attempts_in_def\<close>)
qed

lemma cancelled_run:
  obtains stop t where "cancelled s = (Done stop, s\<lparr>fz_token := t\<rparr>)"
proof -
  obtain c t where "is_cancelled (fz_token s) = (c, t)" by fastforce
  then show thesis using that [of c t] by (simp add: cancelled_def)
qed

lemma run_output_records:
  assumes "finalizing_at n k (fz_evidence s)" and "k < n"
  obtains (stopped) s' where "run_output env plan dummies out s = (Done (Some True), s')"
      "fz_evidence s' = fz_evidence s" "account_cancelled (fz_account s')"
    | (recorded) a r s' where "run_output env plan dummies out s = (Done r, s')"
      "finalizing_at n (Suc k) (fz_evidence s')" "attempts_in s' = attempts_in s @ [a]"
      "output_path a = out_path out" "r = None \<longleftrightarrow> continuable a"
proof -
  obtain stop t where c: "(cancelled :: (escape, bool) fin_action) s = (Done stop, s\<lparr>fz_token := t\<rparr>)" by (rule cancelled_run)
  show thesis
  proof (cases stop)
    case True
    show thesis
      by (rule stopped [of "s\<lparr>fz_token := t, fz_account := (fz_account s)\<lparr>account_cancelled := True\<rparr>\<rparr>"])
        (simp_all add: run_output_def andThen_apply c True mark_cancelled_def change_account_def run_simps)
  next
    case False
    obtain a s1 where a: "(attempt_output env plan out dummies :: (escape, archive_finalization_attempt) fin_action)
        (s\<lparr>fz_token := t\<rparr>) = (Done a, s1)"
      "output_path a = out_path out" "fz_evidence s1 = fz_evidence s"
      by (rule attempt_output_returns [of env plan out dummies "s\<lparr>fz_token := t\<rparr>"]) auto
    define rejected where "rejected = (failure_category (output_outcome a) = Some FinInsufficientCapacity)"
    define s2 where "s2 = (if rejected then s1
      else s1\<lparr>fz_account := (fz_account s1)\<lparr>account_safe := safe_to_continue (output_outcome a)\<rparr>\<rparr>)"
    have s2: "finalizing_at n k (fz_evidence s2)" "attempts_in s2 = attempts_in s"
      using assms(1) a(3) by (simp_all add: s2_def attempts_in_def)
    obtain s3 where s3: "map_err EscapeEvidence (record_step (record_attempt_progress finalization_attempt a)) s2
        = (Done (), s3)" "finalizing_at n (Suc k) (fz_evidence s3)" "attempts_in s3 = attempts_in s2 @ [a]"
        "fz_account s3 = fz_account s2"
      by (rule record_output_run [OF s2(1) assms(2)])
    have act: "(if rejected then return ()
        else change_account (\<lambda>a'. a'\<lparr>account_safe := safe_to_continue (output_outcome a)\<rparr>)) s1
        = ((Done (), s2) :: (escape, unit) outcome \<times> finalizing)"
      by (simp add: s2_def change_account_def run_simps)
    show thesis
    proof (rule recorded [of "if rejected then Some False else if account_safe (fz_account s3) then None else Some True" s3 a])
      show "run_output env plan dummies out s
          = (Done (if rejected then Some False else if account_safe (fz_account s3) then None else Some True), s3)"
        unfolding run_output_def Let_def using False
        by (simp add: andThen_apply c a(1) rejected_def [symmetric] act s3(1) run_simps)
      show "(if rejected then Some False else if account_safe (fz_account s3) then None else Some True) = None
          \<longleftrightarrow> continuable a"
        using s3(4) by (simp add: s2_def continuable_def rejected_def)
    qed (use s3 s2 a in simp_all)
  qed
qed


lemma run_outputs_record:
  assumes "finalizing_at n k (fz_evidence s)" and "k + length outs \<le> n"
  shows "\<exists>r s' k' new. for_each (run_output env plan dummies) outs s = (Done r, s')
     \<and> finalizing_at n k' (fz_evidence s') \<and> attempts_in s' = attempts_in s @ new
     \<and> map output_path new = take (length new) (map out_path outs)
     \<and> list_all continuable (butlast new) \<and> (r = None \<longrightarrow> list_all continuable new \<and> length new = length outs)
     \<and> (r \<noteq> None \<longrightarrow> new \<noteq> [] \<and> \<not> continuable (last new) \<or> r = Some True \<and> account_cancelled (fz_account s'))"
  using assms
proof (induction outs arbitrary: s k)
  case Nil
  then show ?case by (intro exI [of _ None] exI [of _ s] exI [of _ k] exI [of _ "[]"]) (simp add: run_simps)
next
  case (Cons out outs)
  have "k < n" using Cons.prems(2) by simp
  from Cons.prems(1) this show ?case
  proof (cases rule: run_output_records [where env = env and plan = plan and dummies = dummies and out = out])
    case (stopped s')
    then show ?thesis
      using Cons.prems(1)
      by (intro exI [of _ "Some True"] exI [of _ s'] exI [of _ k] exI [of _ "[]"])
        (simp add: andThen_apply run_simps attempts_in_def)
  next
    case (recorded a r s1)
    show ?thesis
    proof (cases r)
      case (Some v)
      then show ?thesis
        using recorded
        by (intro exI [of _ r] exI [of _ s1] exI [of _ "Suc k"] exI [of _ "[a]"])
          (simp add: andThen_apply run_simps)
    next
      case None
      obtain r' s' k' new where rest: "for_each (run_output env plan dummies) outs s1 = (Done r', s')"
        "finalizing_at n k' (fz_evidence s')" "attempts_in s' = attempts_in s1 @ new"
        "map output_path new = take (length new) (map out_path outs)"
        "list_all continuable (butlast new)" "r' = None \<longrightarrow> list_all continuable new \<and> length new = length outs"
        "r' \<noteq> None \<longrightarrow> new \<noteq> [] \<and> \<not> continuable (last new) \<or> r' = Some True \<and> account_cancelled (fz_account s')"
        using Cons.IH [OF recorded(2)] Cons.prems(2) by auto
      then show ?thesis
        using recorded None
        by (intro exI [of _ r'] exI [of _ s'] exI [of _ k'] exI [of _ "a # new"])
          (cases r'; auto simp: andThen_apply)
    qed
  qed
qed


lemma quiet_cleanup: "steps same_evidence (contained_cleanup env plan)"
  unfolding contained_cleanup_def maintain_and_prune_def maintain_root_def record_shortage_def Let_def
  by (auto intro!: quiet_rules quiet_maintain quiet_prune split: outcome.split escape.split option.split)

definition own_work :: "escape \<Rightarrow> bool" where
  "own_work e = (case e of EscapeWork _ \<Rightarrow> True | EscapeEvidence _ \<Rightarrow> False)"

lemma raises_ask: "raises Q (ask c a)" "raises Q cancelled" "raises Q (fin_recheck env d root)"
  "raises Q (fin_check env stage d)"
  by (auto simp: raises_def ask_def cancelled_def fin_recheck_def fin_check_def split: prod.splits option.splits)

lemma raises_account: "raises Q (change_account f)" "raises Q mark_cancelled" "raises Q (account_fail x)"
  "raises Q (push_mutation m)"
  by (simp_all add: change_account_def mark_cancelled_def account_fail_def push_mutation_def raises_basic)

lemma prune_own: "raises Q (prune_empty_directories env roots)"
  unfolding prune_empty_directories_def delete_empty_directories_def
  by (auto intro!: raises_rules raises_ask raises_account)

lemma maintain_own: "raises own_work (maintain_and_prune env plan)"
  unfolding maintain_and_prune_def maintain_root_def record_shortage_def Let_def
  by (auto intro!: raises_rules raises_ask raises_account prune_own simp: own_work_def split: option.split)

lemma cleanup_own:
  obtains s' where "contained_cleanup env plan s = (Done (), s')" "fz_evidence s' = fz_evidence s"
proof -
  obtain r s1 where m: "maintain_and_prune env plan s = (r, s1)" by fastforce
  have "\<exists>s'. contained_cleanup env plan s = (Done (), s')"
  proof (cases r)
    case (Raise e)
    then obtain what where "e = EscapeWork what"
      using raisesD [OF maintain_own, of env plan s e s1] m by (auto simp: own_work_def split: escape.splits)
    then show ?thesis
      using Raise m by (simp add: contained_cleanup_def andThen_apply catch_unwind_def change_account_def
          account_fail_def run_simps Let_def)
  qed (use m in \<open>simp_all add: contained_cleanup_def andThen_apply catch_unwind_def change_account_def
      account_fail_def run_simps Let_def\<close>)
  then show thesis using that stepsD [OF quiet_cleanup] by (metis same_evidence_def)
qed

lemma run_outputs_left:
  assumes "finalizing_at n 0 (fz_evidence s)" and "length (fp_outputs plan) \<le> n" and "attempts_in s = []"
  shows "\<exists>s' k. run_outputs env plan dummies s = (Done (), s') \<and> finalizing_at n k (fz_evidence s')
     \<and> map output_path (attempts_in s') = take (length (attempts_in s')) (map out_path (fp_outputs plan))
     \<and> list_all continuable (butlast (attempts_in s'))
     \<and> (length (attempts_in s') = length (fp_outputs plan) \<or> account_cancelled (fz_account s')
        \<or> attempts_in s' \<noteq> [] \<and> \<not> continuable (last (attempts_in s')))"
proof -
  obtain r s1 k where loop: "for_each (run_output env plan dummies) (fp_outputs plan) s = (Done r, s1)"
    "finalizing_at n k (fz_evidence s1)"
    "map output_path (attempts_in s1) = take (length (attempts_in s1)) (map out_path (fp_outputs plan))"
    "list_all continuable (butlast (attempts_in s1))"
    and covered: "r = None \<longrightarrow> length (attempts_in s1) = length (fp_outputs plan)"
      "r \<noteq> None \<longrightarrow> attempts_in s1 \<noteq> [] \<and> \<not> continuable (last (attempts_in s1))
         \<or> r = Some True \<and> account_cancelled (fz_account s1)"
    using run_outputs_record [OF assms(1), of "fp_outputs plan" env plan dummies] assms(2,3) by auto
  have "\<exists>s'. run_outputs env plan dummies s = (Done (), s') \<and> fz_evidence s' = fz_evidence s1
      \<and> (r = Some True \<and> account_cancelled (fz_account s1) \<longrightarrow> account_cancelled (fz_account s'))"
  proof (cases "r = Some False")
    case True
    then show ?thesis by (simp add: run_outputs_def andThen_apply loop(1) run_simps)
  next
    case False
    obtain stop s2 where s2: "(if account_cancelled (fz_account s1) then return True else cancelled) s1
        = ((Done stop, s2) :: (escape, bool) outcome \<times> finalizing)" "fz_evidence s2 = fz_evidence s1"
        "account_cancelled (fz_account s1) \<longrightarrow> stop"
    proof (cases "account_cancelled (fz_account s1)")
      case False
      obtain c t where "(cancelled :: (escape, bool) fin_action) s1 = (Done c, s1\<lparr>fz_token := t\<rparr>)"
        by (rule cancelled_run)
      then show thesis using False that [of c] by simp
    qed (use that [of True] in \<open>simp add: run_simps\<close>)
    let ?s3 = "s2\<lparr>fz_account := (fz_account s2)\<lparr>account_cancelled := stop\<rparr>\<rparr>"
    obtain s4 where s4: "contained_cleanup env plan ?s3 = (Done (), s4)" "fz_evidence s4 = fz_evidence ?s3"
      by (rule cleanup_own)
    show ?thesis
      using s2 s4 False
      by (cases stop) (simp_all add: run_outputs_def andThen_apply loop(1) run_simps change_account_def)
  qed
  then show ?thesis using loop covered by (cases r) (auto simp: attempts_in_def)
qed


text \<open>What the phase leaves: the attempts it recorded belong to one plan of its own.\<close>

definition attempts_of_plan :: "finalization_plan \<Rightarrow> archive_finalization_attempt list \<Rightarrow> bool" where
  "attempts_of_plan plan as =
     (list_all continuable (butlast as)
      \<and> (map output_path as = take (length as) (map out_path (fp_outputs plan))
         \<or> (\<exists>a. as = [a] \<and> output_path a \<in> out_path ` set (fp_outputs plan))))"

definition phase_left ::
    "finalization_env \<Rightarrow> archive_finalization_choices \<Rightarrow> run_preparation \<Rightarrow> finalizing \<Rightarrow> bool" where
  "phase_left env choices prep s =
     (reachable (fz_evidence s) \<and> finishable (fz_evidence s)
      \<and> (attempts_in s = []
         \<or> (\<exists>plan s0 s1. plan_finalization env (prep_mod_roots prep) choices (packing_exclusions_of env prep) s0
                = (Done plan, s1) \<and> attempts_of_plan plan (attempts_in s))))"

lemma finalizing_at_left: "finalizing_at n k ev \<Longrightarrow> reachable ev \<and> finishable ev"
  by (auto simp: finishable_def finalizing_at_def open_at_def)

lemma output_at_Some: "output_at plan root = Some p \<Longrightarrow> p \<in> out_path ` set (fp_outputs plan) \<and> fp_outputs plan \<noteq> []"
  by (auto simp: output_at_def find_Some_iff)

lemma finalize_plan_left:
  assumes "finalizing_at (length (fp_outputs plan)) 0 (fz_evidence s)" and "attempts_in s = []"
  shows "\<exists>r s' n k. finalize_plan env plan s = (r, s') \<and> raises own_work (\<lambda>_ :: finalizing. (r, s'))
     \<and> finalizing_at n k (fz_evidence s') \<and> attempts_of_plan plan (attempts_in s')"
proof -
  obtain stop t where c: "(cancelled :: (escape, bool) fin_action) s = (Done stop, s\<lparr>fz_token := t\<rparr>)"
    by (rule cancelled_run)
  obtain d dummies where demand: "creation_demand plan = (d, dummies)" by fastforce
  obtain v st where v: "capacity_check (fin_probe env) (fin_mode env) BeforeCreation d (fz_checks s) = (v, st)"
    by fastforce
  let ?s = "s\<lparr>fz_token := t, fz_checks := st\<rparr>"
  note run = finalize_plan_def andThen_apply c demand fin_check_def v run_simps raises_def
  have none: "attempts_of_plan plan []" by (simp add: attempts_of_plan_def)
  show ?thesis
  proof (cases stop)
    case True
    then show ?thesis
      using assms none by (auto simp: run mark_cancelled_def change_account_def attempts_in_def)
  next
    case go: False
    show ?thesis
    proof (cases v)
      case Fits
      obtain s' k where "run_outputs env plan dummies ?s = (Done (), s')" "finalizing_at (length (fp_outputs plan)) k (fz_evidence s')"
        "map output_path (attempts_in s') = take (length (attempts_in s')) (map out_path (fp_outputs plan))"
        "list_all continuable (butlast (attempts_in s'))"
        using run_outputs_left [of "length (fp_outputs plan)" ?s plan env dummies] assms
        by (auto simp: attempts_in_def)
      then show ?thesis using go Fits by (auto simp: run attempts_of_plan_def)
    next
      case (FailWork shortage)
      show ?thesis
      proof (cases "output_at plan (shortage_root shortage)")
        case None
        then show ?thesis
          using go FailWork assms none
          by (auto simp: run record_shortage_def account_fail_def change_account_def attempts_in_def)
      next
        case (Some p)
        let ?a = "\<lparr>output_path = p, output_root = shortage_root shortage,
             output_outcome = attempt_outcome.Failed (from_capacity_shortage FinInsufficientCapacity shortage) MNone True\<rparr>"
        have "finalizing_at (length (fp_outputs plan)) 0 (fz_evidence ?s)" "0 < length (fp_outputs plan)"
          using assms(1) output_at_Some [OF Some] by simp_all
        then obtain s' where "map_err EscapeEvidence (record_step (record_attempt_progress finalization_attempt ?a)) ?s
            = (Done (), s')" "finalizing_at (length (fp_outputs plan)) (Suc 0) (fz_evidence s')"
            "attempts_in s' = attempts_in ?s @ [?a]"
          by (rule record_output_run)
        moreover have "attempts_of_plan plan [?a]"
          using output_at_Some [OF Some] by (simp add: attempts_of_plan_def)
        ultimately show ?thesis
          using go FailWork Some assms(2) by (auto simp: run record_shortage_def attempts_in_def)
      qed
    qed (use go assms none in \<open>auto simp: run attempts_in_def\<close>)
  qed
qed


lemma plan_phase_run:
  assumes "finalization_opened (fz_evidence s)"
  obtains s' where "map_err EscapeEvidence (record_step (plan_archive_finalization n)) s = (Done (), s')"
    "finalizing_at n 0 (fz_evidence s')" "attempts_in s' = []" "fz_account s' = fz_account s"
proof -
  obtain ev where ev: "plan_archive_finalization n (fz_evidence s) = (None, ev)"
    using finalization_opened_plan(1) [OF assms, of n] by (metis prod.collapse)
  show thesis
    by (rule that [of "s\<lparr>fz_evidence := ev\<rparr>"])
      (use finalization_opened_plan(2,3) [OF assms, of n] ev in
        \<open>simp_all add: map_err_def record_step_def attempts_in_def\<close>)
qed

lemma opened_no_attempts:
  assumes "finalization_opened ev"
  shows "finalization_attempts (storage_of ev) = []"
proof -
  obtain r where r: "reachable ev" "last_record (storage_of ev) = Some r" "record_of r = ArchiveFinalization"
      "status r = StExecuted" "progress r = None"
    using assms by (auto simp: finalization_opened_def split: option.splits)
  note wf = wf_storeD [OF reachable_wf [OF r(1)]]
  have "phase_progress (phases (storage_of ev)) ArchiveFinalization = None"
    using last_record_phase_map [OF wf(1) r(2)] r by (simp add: phase_progress_def)
  then show ?thesis using wf(4) by (simp add: attempts_match_def)
qed

lemma run_finalization_phase_left:
  assumes "finalization_opened (fz_evidence s)"
  shows "\<exists>r s'. run_finalization_phase env choices prep s = (r, s') \<and> raises own_work (\<lambda>_ :: finalizing. (r, s'))
     \<and> phase_left env choices prep s'"
proof (cases "creation_requested prep")
  case False
  obtain s1 where s1: "map_err EscapeEvidence (record_step (plan_archive_finalization 0)) s = (Done (), s1)"
    "finalizing_at 0 0 (fz_evidence s1)" "attempts_in s1 = []"
    using plan_phase_run [OF assms, of 0] by metis
  obtain r s2 where s2: "(prune_empty_directories env (prep_mod_roots prep) :: (escape, unit) fin_action) s1 = (r, s2)"
    by fastforce
  have "fz_evidence s2 = fz_evidence s1"
    using stepsD [OF quiet_prune s2] by (simp add: same_evidence_def)
  then have "phase_left env choices prep s2"
    using s1 finalizing_at_left by (auto simp: phase_left_def attempts_in_def)
  moreover have "raises own_work (\<lambda>_ :: finalizing. (r, s2))"
    unfolding raises_def using s2 by (auto dest: raisesD [OF prune_own])
  ultimately show ?thesis using False s1 s2 by (simp add: run_finalization_phase_def andThen_apply)
next
  case True
  let ?plan = "plan_finalization env (prep_mod_roots prep) choices (packing_exclusions_of env prep)"
  obtain r s1 where p: "?plan s = (r, s1)" by fastforce
  have ev: "fz_evidence s1 = fz_evidence s"
    using stepsD [OF reads_same_evidence [OF plan_finalization_reads] p] by (simp add: same_evidence_def)
  have quiet: "phase_left env choices prep s'" if "fz_evidence s' = fz_evidence s" for s'
    using that assms opened_no_attempts [OF assms]
    by (auto simp: phase_left_def finishable_def attempts_in_def finalization_opened_def)
  show ?thesis
  proof (cases r)
    case (Done plan)
    obtain s2 where s2: "map_err EscapeEvidence (record_step (plan_archive_finalization (length (fp_outputs plan)))) s1
        = (Done (), s2)" "finalizing_at (length (fp_outputs plan)) 0 (fz_evidence s2)" "attempts_in s2 = []"
      using plan_phase_run [of s1] assms ev by metis
    obtain r' s' n k where f: "finalize_plan env plan s2 = (r', s')" "raises own_work (\<lambda>_ :: finalizing. (r', s'))"
      "finalizing_at n k (fz_evidence s')" "attempts_of_plan plan (attempts_in s')"
      using finalize_plan_left [OF s2(2,3)] by metis
    then have "phase_left env choices prep s'"
      unfolding phase_left_def using p Done finalizing_at_left [OF f(3)] by blast
    then show ?thesis
      using True p Done s2 f by (simp add: run_finalization_phase_def andThen_apply try_action_def)
  next
    case (Raise e)
    then show ?thesis
      using True p quiet ev
      by (cases e) (auto simp: run_finalization_phase_def andThen_apply try_action_def mark_cancelled_def
          change_account_def run_simps raises_def own_work_def)
  next
    case (Panic m)
    then show ?thesis
      using True p quiet ev
      by (auto simp: run_finalization_phase_def andThen_apply try_action_def raises_def)
  qed
qed

lemma finalize_archives_left:
  assumes "finalization_opened (fz_evidence s)"
  shows "\<exists>s' attempts. finalize_archives env choices prep s = (Done (), s')
     \<and> reachable (fz_evidence s') \<and> archive_finalization_completed (storage_of (fz_evidence s'))
     \<and> archive_finalization_of (storage_of (fz_evidence s')) = Some (from_parts attempts (fz_account s'))
     \<and> (attempts = []
        \<or> (\<exists>plan s0 s1. plan_finalization env (prep_mod_roots prep) choices (packing_exclusions_of env prep) s0
               = (Done plan, s1) \<and> attempts_of_plan plan attempts))"
proof -
  let ?s = "s\<lparr>fz_account := default_account\<rparr>"
  obtain r s1 where r: "run_finalization_phase env choices prep ?s = (r, s1)"
    "raises own_work (\<lambda>_ :: finalizing. (r, s1))" "phase_left env choices prep s1"
    using run_finalization_phase_left [of ?s env choices prep] assms by auto
  define s2 where "s2 = (case r of
      Done _ \<Rightarrow> s1
    | Raise (EscapeWork what) \<Rightarrow> s1\<lparr>fz_account := (fz_account s1)\<lparr>account_failure := Some (new_failure FinUnexpectedException what), account_safe := False\<rparr>\<rparr>
    | Raise _ \<Rightarrow> s1
    | Panic what \<Rightarrow> s1\<lparr>fz_account := (fz_account s1)\<lparr>account_failure := Some (new_failure FinUnexpectedException what), account_safe := False\<rparr>\<rparr>)"
  have left: "phase_left env choices prep s2"
    using r(3) by (auto simp: s2_def phase_left_def attempts_in_def split: outcome.split escape.split)
  have run: "finalize_archives env choices prep s = record_step (finish_archive_finalization (fz_account s2)) s2"
  proof (cases r)
    case (Raise e)
    then obtain what where "e = EscapeWork what"
      using r(2) by (cases e) (auto simp: raises_def own_work_def)
    then show ?thesis
      using r(1) Raise by (simp add: finalize_archives_def andThen_apply catch_unwind_def change_account_def
          account_fail_def run_simps s2_def Let_def)
  qed (use r(1) in \<open>simp_all add: finalize_archives_def andThen_apply catch_unwind_def change_account_def
          account_fail_def run_simps s2_def Let_def\<close>)
  have fin: "finishable (fz_evidence s2)" and reach: "reachable (fz_evidence s2)"
    using left by (simp_all add: phase_left_def)
  let ?ev = "update_storage (\<lambda>t. t\<lparr>archive_finalization_of := Some (from_parts (finalization_attempts t) (fz_account s2)),
        cancellation_observed := cancellation_observed t \<or> account_cancelled (fz_account s2),
        archive_finalization_completed := True\<rparr>) (fz_evidence s2)"
  have "finalize_archives env choices prep s = (Done (), s2\<lparr>fz_evidence := ?ev\<rparr>)"
    unfolding run record_step_def by (simp add: finishable_finish [OF fin])
  moreover have "reachable ?ev"
    using reachable_finish [OF reach, of "fz_account s2"] by (simp add: finishable_finish [OF fin])
  ultimately show ?thesis
    using left unfolding phase_left_def attempts_in_def
    by (intro exI [of _ "s2\<lparr>fz_evidence := ?ev\<rparr>"] exI [of _ "finalization_attempts (storage_of (fz_evidence s2))"]) simp
qed

subsection \<open>Properties\<close>

text \<open>
  C16: Archive Finalization never violates Run Evidence, whatever the packer, the reader, the
  filesystem or the registry answer, panics included: from the phase its handle opened it always
  returns, leaves reachable evidence, and finishes the phase exactly once with its account. The
  attempts it recorded are the outputs of one plan of its own, in plan order (or the one output a
  capacity shortage stopped), and every attempt but the last was safe to continue after.
\<close>

theorem finalization_finishes_its_phase:
  assumes "finalization_opened (fz_evidence s)"
  shows "\<exists>s' attempts. finalize_archives env choices prep s = (Done (), s')
     \<and> reachable (fz_evidence s') \<and> archive_finalization_completed (storage_of (fz_evidence s'))
     \<and> archive_finalization_of (storage_of (fz_evidence s')) = Some (from_parts attempts (fz_account s'))
     \<and> (attempts = []
        \<or> (\<exists>plan s0 s1. plan_finalization env (prep_mod_roots prep) choices (packing_exclusions_of env prep) s0
               = (Done plan, s1) \<and> attempts_of_plan plan attempts))"
  by (rule finalize_archives_left [OF assms])

end
