(* ===== verification/FinalizationProperties.thy ===== *)
theory FinalizationProperties
  imports FinalizationLaws EvidencePublication
begin

text \<open>
  The calls Archive Finalization makes and their order: planning only reads, packed sources go only
  after their Archive is published and loads, and a Dry Run plans what Apply would create.
\<close>

subsection \<open>Calls of a class\<close>

definition adds :: "(fin_call \<Rightarrow> bool) \<Rightarrow> finalizing \<Rightarrow> finalizing \<Rightarrow> bool" where
  "adds C s s' = (\<exists>cs. fz_calls s' = fz_calls s @ cs \<and> list_all C cs)"

interpretation adding: frame "adds C" for C
proof
  show "adds C s s" for C s unfolding adds_def by (intro exI [of _ "[]"]) simp
  show "adds C s t \<Longrightarrow> adds C t u \<Longrightarrow> adds C s u" for C s t u
    unfolding adds_def by (metis append.assoc list_all_append)
qed

lemma reads_adds: "steps (reads C) m \<Longrightarrow> steps (adds C) m"
  by (erule steps_mono) (auto simp: reads_def adds_def)

lemma adds_ask: "C c \<Longrightarrow> steps (adds C) (ask c a)" "C c \<Longrightarrow> steps (adds C) (ask_result c b)"
  "C c \<Longrightarrow> steps (adds C) (ask_seam c d)" "steps (adds C) cancelled"
  by (intro reads_adds reads_rules; assumption?)+

lemma adds_quiet: "(\<And>s. fz_calls (f s) = fz_calls s) \<Longrightarrow> steps (adds C) (change_state f)"
  by (rule adding.changed) (auto simp: adds_def intro!: exI [of _ "[]"])

lemma adds_account: "steps (adds C) (change_account f)" "steps (adds C) mark_cancelled"
  "steps (adds C) (account_fail x)" "steps (adds C) (push_mutation m)" "steps (adds C) (set_boundary b)"
  unfolding change_account_def mark_cancelled_def account_fail_def push_mutation_def set_boundary_def
  by (intro adds_quiet; simp)+

lemma adds_capacity: "steps (adds C) (fin_recheck env d root)" "steps (adds C) (fin_check env stage d)"
  by (auto simp: steps_def fin_check_def fin_recheck_def adds_def split: prod.split option.split)

lemmas adds_rules = adds_ask adds_account adds_capacity adding.rules adds_quiet

subsection \<open>The stages of an output attempt\<close>

fun keeps_sources :: "fin_call \<Rightarrow> bool" where
  "keeps_sources (RemovePackedSource _) = False"
| "keeps_sources _ = True"

lemma adds_plugins:
  "steps (adds keeps_sources) (entry_exists env p)"
  "steps (adds keeps_sources) (find_loading_plugin env names strength excluded)"
  "steps (adds keeps_sources) (publish_dummy_plugin env root destination bytes)"
  "steps (adds keeps_sources) (has_exact_dummy_bytes env p bytes)"
  unfolding entry_exists_def find_loading_plugin_def is_loading_plugin_def publish_dummy_plugin_def
    has_exact_dummy_bytes_def Let_def
  by (auto intro!: adds_rules split: entry_answer.split loading_plugin_strength.split)

lemma adds_ensure: "steps (adds keeps_sources) (ensure_output_loading_plugin env plan out)"
proof -
  have "steps (adds keeps_sources) (plugin_destination env names strength)" for names strength
    unfolding plugin_destination_def Let_def first_free_name_def is_loading_plugin_def
    by (auto intro!: adds_rules adds_plugins split: option.split entry_answer.split loading_plugin_strength.split)
  then show ?thesis
    unfolding ensure_output_loading_plugin_def Let_def
    by (auto intro!: adds_rules adds_plugins split: option.split entry_answer.split)
qed

lemma adds_stages:
  "steps (adds keeps_sources) (output_recheck env plan out dummies)"
  "steps (adds keeps_sources) (pin_sources env plan out)"
  "steps (adds keeps_sources) (write_output env plan out)"
  "steps (adds keeps_sources) (publish_output env out receipt)"
  "steps (adds keeps_sources) (hold_loading_plugin env plan out)"
  "steps (adds keeps_sources) (verify_claim env out)"
  unfolding output_recheck_def estimate_packed_capacity_def size_source_def pin_sources_def write_output_def
    publish_output_def hold_loading_plugin_def verify_claim_def recoverable_def archive_reads_back_def
    all_readable_def readable_packed_source_def Let_def
  by (auto intro!: adds_rules adds_ensure split: sum.split planning_stop.split option.split entry_answer.split call.split)

lemma pin_sources_gives:
  "gives (\<lambda>pins. pins = (if fp_delete_sources plan then map packed_path (archive_files (out_archive out)) else []))
     (pin_sources env plan out)"
proof -
  have "gives (\<lambda>pins. pins = acc @ map packed_path files)
     (fold_each (\<lambda>source pins. andThen (m source) (\<lambda>_. return (pins @ [packed_path source]))) files acc)"
    for m :: "packed_file \<Rightarrow> (attempt_stop, 'b) fin_action" and files acc
  proof (induction files arbitrary: acc)
    case (Cons f files)
    show ?case unfolding fold_each.simps
      by (rule gives_andThen [where Q = "\<lambda>pins. pins = acc @ [packed_path f]"],
          intro gives_after gives_return refl)
        (use Cons [of "acc @ [packed_path f]"] in simp)
  qed (simp add: gives_return)
  from this [of "[]"] show ?thesis by (auto simp: pin_sources_def intro: gives_return)
qed

lemma publish_output_done:
  assumes "publish_output env out receipt s = (Done u, s')"
  shows "fz_calls s' = fz_calls s @ [PublishStaged receipt (out_path out)]"
    and "publication_state (publish_staged env (fz_calls s) receipt (out_path out)) = PublishedAndReleased"
  using assms
  by (auto simp: publish_output_def andThen_apply set_boundary_def ask_def run_simps split: if_splits)

lemma hold_loading_plugin_done:
  assumes "hold_loading_plugin env plan out s = (Done u, s')" and "out_loading out \<noteq> []" and "fp_delete_sources plan"
  shows "\<exists>h plugin. fz_calls s' = h @ [PinLoadingPlugin plugin (out_root out)]
     \<and> pin_loading_plugin env h plugin (out_root out) = Ok ()"
  using assms
  by (auto simp: hold_loading_plugin_def andThen_apply set_boundary_def map_err_def ask_result_def ask_def
      lift_result_def run_simps split: prod.splits outcome.splits sum.splits)

lemma clean_sources_calls:
  assumes "clean_sources env pins s = (r, s')"
  shows "\<exists>k. fz_calls s' = fz_calls s @ map RemovePackedSource (take k pins) \<and> (r = Done () \<longrightarrow> length pins \<le> k)"
proof -
  have loop: "\<exists>k. fz_calls s' = fz_calls s @ map RemovePackedSource (take k pins) \<and> (r = Done () \<longrightarrow> length pins \<le> k)"
    if "fold_each (remove_pin env) pins () s = (r, s')" for s
    using that
  proof (induction pins arbitrary: s)
    case (Cons pin pins)
    obtain a s1 where one: "remove_pin env pin () s = (a, s1)" by fastforce
    then have calls: "fz_calls s1 = fz_calls s @ [RemovePackedSource pin]"
      by (auto simp: remove_pin_def andThen_apply map_err_def ask_result_def ask_def lift_result_def run_simps
          split: sum.splits)
    show ?case
    proof (cases a)
      case (Done u)
      then have "fold_each (remove_pin env) pins () s1 = (r, s')"
        using Cons.prems one by (simp add: andThen_apply)
      from Cons.IH [OF this] obtain k where
        "fz_calls s' = fz_calls s1 @ map RemovePackedSource (take k pins)" "r = Done () \<longrightarrow> length pins \<le> k" by blast
      then show ?thesis using calls by (intro exI [of _ "Suc k"]) simp
    qed (use Cons.prems one calls in \<open>auto simp: andThen_apply intro!: exI [of _ "Suc 0"]\<close>)
  qed (auto simp: run_simps)
  have "fold_each (remove_pin env) pins () (s\<lparr>fz_boundary := FinSourceCleanupFailed\<rparr>) = (r, s')"
    using assms by (simp add: clean_sources_def andThen_apply set_boundary_def run_simps)
  from loop [OF this] show ?thesis by simp
qed

lemma staged:
  assumes "andThen m f s = (r, s')" and "steps (adds C) m"
  obtains (stopped) "adds C s s'" "\<And>y. r \<noteq> Done y"
  | (went_on) x s1 where "m s = (Done x, s1)" "f x s1 = (r, s')" "adds C s s1"
proof (cases m s f rule: andThen_cases)
  case (finished x t)
  then show thesis using went_on assms stepsD [OF assms(2) finished(1)] by auto
next
  case (raised e t)
  then show thesis using stopped assms(1) stepsD [OF assms(2) raised(1)] by auto
next
  case (panicked p t)
  then show thesis using stopped assms(1) stepsD [OF assms(2) panicked(1)] by auto
qed

definition pinned_sources :: "finalization_plan \<Rightarrow> finalization_output \<Rightarrow> path list" where
  "pinned_sources plan out =
     (if fp_delete_sources plan then map packed_path (archive_files (out_archive out)) else [])"

text \<open>
  The Archive of \<open>out\<close> is published and released after the calls \<open>cs\<close>, the last of which, when the
  output maintains Loading Plugins, holds the one that loads it.
\<close>

definition loadable_after :: "finalization_env \<Rightarrow> finalization_output \<Rightarrow> fin_call list \<Rightarrow> bool" where
  "loadable_after env out cs =
     ((\<exists>h rest receipt. cs = h @ [PublishStaged receipt (out_path out)] @ rest
         \<and> publication_state (publish_staged env h receipt (out_path out)) = PublishedAndReleased)
      \<and> (out_loading out = []
         \<or> (\<exists>h plugin. cs = h @ [PinLoadingPlugin plugin (out_root out)]
              \<and> pin_loading_plugin env h plugin (out_root out) = Ok ())))"

definition attempt_shape ::
    "finalization_env \<Rightarrow> finalization_plan \<Rightarrow> finalization_output \<Rightarrow> finalizing \<Rightarrow> finalizing
       \<Rightarrow> fin_call list \<Rightarrow> path list \<Rightarrow> bool" where
  "attempt_shape env plan out s s' pre removed =
     (fz_calls s' = fz_calls s @ pre @ map RemovePackedSource removed
      \<and> list_all keeps_sources pre
      \<and> (\<exists>k. removed = take k (pinned_sources plan out))
      \<and> (removed = [] \<or> loadable_after env out (fz_calls s @ pre)))"

lemma nothing_removed: "adds keeps_sources s s' \<Longrightarrow> \<exists>pre. attempt_shape env plan out s s' pre []"
  by (auto simp: adds_def attempt_shape_def intro: exI [of _ 0])

lemma try_attempt_shape:
  assumes "try_attempt env plan out dummies s = (r, s')"
  shows "\<exists>pre removed. attempt_shape env plan out s s' pre removed
     \<and> (r = Done () \<longrightarrow> removed = pinned_sources plan out)"
proof -
  from assms [unfolded try_attempt_def] adds_stages(1) show ?thesis
  proof (cases rule: staged)
  case (went_on u1 s1)
  note a1 = went_on(3)
  from went_on(2) adds_stages(2) show ?thesis
  proof (cases rule: staged)
    case (went_on pins s2)
    have pins: "pins = pinned_sources plan out"
      using givesD [OF pin_sources_gives went_on(1)] by (simp add: pinned_sources_def)
    have a2: "adds keeps_sources s s2" using adding.trans [OF a1 went_on(3)] .
    from went_on(2) adds_stages(3) show ?thesis
    proof (cases rule: staged)
      case (went_on receipt s3)
      have a3: "adds keeps_sources s s3" using adding.trans [OF a2 went_on(3)] .
      from went_on(2) adds_stages(4) show ?thesis
      proof (cases rule: staged)
        case (went_on u4 s4)
        note published = publish_output_done [OF went_on(1)]
        have a4: "adds keeps_sources s s4" using adding.trans [OF a3 went_on(3)] .
        from went_on(2) adds_stages(5) show ?thesis
        proof (cases rule: staged)
          case (went_on u5 s5)
          obtain cs where cs: "fz_calls s5 = fz_calls s4 @ cs" using went_on(3) by (auto simp: adds_def)
          obtain pre where pre: "fz_calls s5 = fz_calls s @ pre" "list_all keeps_sources pre"
            using adding.trans [OF a4 went_on(3)] by (auto simp: adds_def)
          obtain k where k: "fz_calls s' = fz_calls s5 @ map RemovePackedSource (take k pins)"
            "r = Done () \<longrightarrow> length pins \<le> k"
            using clean_sources_calls [OF went_on(2)] by blast
          have "loadable_after env out (fz_calls s5)" if "pinned_sources plan out \<noteq> []"
            using that hold_loading_plugin_done [OF went_on(1)] published cs
            by (auto simp: loadable_after_def pinned_sources_def split: if_splits)
          then have "attempt_shape env plan out s s' pre (take k pins)"
            using pre k(1) pins unfolding attempt_shape_def by (cases "pinned_sources plan out = []") auto
          then show ?thesis using k(2) pins by (intro exI [of _ pre] exI [of _ "take k pins"]) auto
        qed (use nothing_removed adding.trans [OF a4] in blast)
      qed (use nothing_removed adding.trans [OF a3] in blast)
    qed (use nothing_removed adding.trans [OF a2] in blast)
  qed (use nothing_removed adding.trans [OF a1] in blast)
  qed (use nothing_removed in blast)
qed

subsection \<open>Properties\<close>

text \<open>A file of three bytes, and an environment in which every call succeeds.\<close>

definition demo_metadata :: entry_metadata where
  "demo_metadata = \<lparr>meta_dir = False, meta_file = True, meta_symlink = False, meta_reparse = False,
     meta_hidden = False, meta_len = 3\<rparr>"

definition demo_rules :: naming_rules where
  "demo_rules = \<lparr>rule_extension = ''.bsa'', rule_suffix = None, rule_texture_suffix = Some ''Textures'',
     rule_plugin_extensions = [''.esp''], rule_dummy = [84, 69], rule_separate_textures = False\<rparr>"

definition demo_root_dir :: path where
  "demo_root_dir = [RootDir, Normal ''Mod'']"

definition demo_finalization_tree :: ptree where
  "demo_finalization_tree = Listed
     [Entry ''meshes'' (Ok (demo_metadata\<lparr>meta_dir := True, meta_file := False\<rparr>))
        (Listed [Entry ''a.nif'' (Ok demo_metadata) (Listed [])]),
      Entry ''readme'' (Ok demo_metadata) (Listed [])]"

definition demo_fin :: finalization_env where
  "demo_fin = \<lparr>fin_rules = demo_rules, fin_lower = (\<lambda>s. s), fin_probe = demo_probe, fin_mode = Apply,
     fin_absolute = Ok, canonical_root = (\<lambda>_. Ok), list_names = (\<lambda>_ _ _. Returned (Ok [])),
     inspect_entry = (\<lambda>h p. if file_name p = Some ''Mod.bsa'' then NoEntry ''missing'' else EntryFound demo_metadata),
     inspect_target = (\<lambda>_ _. EntryFound demo_metadata),
     read_bytes = (\<lambda>_ _ _. None), source_tree = (\<lambda>_ _. demo_finalization_tree),
     partition_sources = (\<lambda>_ _ files _. Returned (Ok [\<lparr>archive_kind = PackStandard, archive_files = files\<rparr>])),
     pin_packed_source = (\<lambda>_ _ _. Ok ()), stage_archive = (\<lambda>_ _. Ok 0),
     staged_path = (\<lambda>_ _. Ok [RootDir, Normal ''staged'']), write_archive = (\<lambda>_ _ _ _ _. Returned (Ok ())),
     publish_staged = (\<lambda>_ _ _. \<lparr>publication_state = PublishedAndReleased, error_detail = []\<rparr>),
     pin_loading_plugin = (\<lambda>_ _ _. Ok ()), remove_packed_source = (\<lambda>_ _. Ok ()),
     read_back = (\<lambda>_ _. Returned (Ok ())), release_archive = (\<lambda>_. Returned ()),
     read_source = (\<lambda>_ _. Some ([3], EndOfFile)), write_staged = (\<lambda>_ _ _. True),
     pin_plugin_parents = (\<lambda>_ _ _. Ok ()), open_plugin = (\<lambda>_ _. Ok ()),
     inspect_plugin = (\<lambda>_ _. Err ''not a plugin''), read_plugin = (\<lambda>_ _ _. Ok []),
     delete_plugin = (\<lambda>_ _. Ok ()), directory_tree = (\<lambda>_ _. Listed []), remove_directory = (\<lambda>_ _. True)\<rparr>"

definition demo_state :: "evidence \<Rightarrow> token \<Rightarrow> finalizing" where
  "demo_state ev t =
     \<lparr>fz_evidence = ev, fz_token = t, fz_checks = fresh_state, fz_calls = [], fz_account = default_account,
      fz_boundary = FinWriteFailed, fz_removed = 0, fz_mutation = MNone, fz_claim = True\<rparr>"

definition demo_output :: finalization_output where
  "demo_output =
     \<lparr>out_root = demo_root_dir, out_path = demo_root_dir @ [Normal ''Mod.bsa''],
      out_archive = \<lparr>archive_kind = PackStandard, archive_files =
        [\<lparr>packed_path = demo_root_dir @ [Normal ''meshes'', Normal ''a.nif''], packed_size = 3\<rparr>]\<rparr>,
      out_plugin = None, out_bytes = 0, out_loading = [demo_root_dir @ [Normal ''Mod.esp'']]\<rparr>"

definition demo_fin_plan :: finalization_plan where
  "demo_fin_plan =
     \<lparr>fp_outputs = [demo_output], fp_roots = [demo_root_dir], fp_rules = demo_rules, fp_compress = True,
      fp_delete_sources = True, fp_create_dummies = True, fp_dummy_capacity = Map.empty\<rparr>"

text \<open>
  C17: An output attempt removes packed sources only once nothing can be lost: every removal comes
  after all other work of the attempt, when the Archive was published and released and, if the
  output maintains Loading Plugins, with the plugin that loads it pinned by the call before. What
  it removes is an initial part of the pinned sources, nothing when sources are kept, and all of
  them when the attempt succeeded; afterwards it at most verifies.
\<close>

theorem sources_go_after_archive_loads:
  assumes "(attempt_output env plan out dummies :: ('e, archive_finalization_attempt) fin_action) s = (Done a, s')"
  shows "\<exists>pre removed post. fz_calls s' = fz_calls s @ pre @ map RemovePackedSource removed @ post
     \<and> list_all keeps_sources pre \<and> list_all keeps_sources post
     \<and> (\<exists>k. removed = take k (pinned_sources plan out))
     \<and> (removed = [] \<or> loadable_after env out (fz_calls s @ pre))
     \<and> (succeeded (output_outcome a) \<longrightarrow> removed = pinned_sources plan out)"
proof -
  define s1 where "s1 = s\<lparr>fz_boundary := FinWriteFailed, fz_removed := 0, fz_mutation := MNone, fz_claim := True\<rparr>"
  obtain r s2 where t: "try_attempt env plan out dummies s1 = (r, s2)" by fastforce
  obtain pre removed where shape: "attempt_shape env plan out s1 s2 pre removed"
      "r = Done () \<longrightarrow> removed = pinned_sources plan out"
    using try_attempt_shape [OF t] by blast
  have calls: "fz_calls s2 = fz_calls s @ pre @ map RemovePackedSource removed"
    using shape(1) by (simp add: attempt_shape_def s1_def)
  have start: "(begin_attempt :: ('e, unit) fin_action) s = (Done (), s1)"
    by (simp add: begin_attempt_def s1_def run_simps)
  have "\<exists>post. fz_calls s' = fz_calls s2 @ post \<and> list_all keeps_sources post
      \<and> (succeeded (output_outcome a) \<longrightarrow> r = Done ())"
  proof (cases "\<exists>e. r = Raise (StoppedFailed e)")
    case True
    then obtain e where e: "r = Raise (StoppedFailed e)" by blast
    obtain v s3 where v: "(verify_claim env out :: ('e, unit) fin_action) s2 = (v, s3)" by fastforce
    have "completes (verify_claim env out :: ('e, unit) fin_action)"
      unfolding verify_claim_def by (auto intro!: completes_andThen completes_basic)
    then have "v = Done ()" using v by (metis completes_def prod.inject unit.exhaust)
    then have "s' = s3 \<and> \<not> succeeded (output_outcome a)"
      using assms v e by (auto simp: attempt_output_def andThen_apply start catch_unwind_def t run_simps failed_outcome_def)
    then show ?thesis using stepsD [OF adds_stages(6) v] by (auto simp: adds_def)
  next
    case False
    then have "s' = s2 \<and> (succeeded (output_outcome a) \<longrightarrow> r = Done ())"
      using assms
      by (auto simp: attempt_output_def andThen_apply start catch_unwind_def t run_simps failed_outcome_def
          split: outcome.splits attempt_stop.splits)
    then show ?thesis by (intro exI [of _ "[]"]) simp
  qed
  then obtain post where "fz_calls s' = fz_calls s2 @ post" "list_all keeps_sources post"
      "succeeded (output_outcome a) \<longrightarrow> r = Done ()" by blast
  then show ?thesis
    using shape calls unfolding attempt_shape_def s1_def
    by (intro exI [of _ pre] exI [of _ removed] exI [of _ post]) auto
qed

theorem sources_go_after_archive_loads_witness:
  "\<exists>a s'. attempt_output demo_fin demo_fin_plan demo_output empty_demand (demo_state (new_evidence None) None)
       = ((Done a, s') :: (error, archive_finalization_attempt) outcome \<times> finalizing)
     \<and> RemovePackedSource (demo_root_dir @ [Normal ''meshes'', Normal ''a.nif'']) \<in> set (fz_calls s')"
proof -
  let ?run = "attempt_output demo_fin demo_fin_plan demo_output empty_demand (demo_state (new_evidence None) None)
       :: (error, archive_finalization_attempt) outcome \<times> finalizing"
  have ok: "(case ?run of (Done a, _) \<Rightarrow> succeeded (output_outcome a) | _ \<Rightarrow> False)" by code_simp
  then obtain a s' where run: "?run = (Done a, s')" "succeeded (output_outcome a)"
    by (auto split: prod.splits outcome.splits)
  have "pinned_sources demo_fin_plan demo_output = [demo_root_dir @ [Normal ''meshes'', Normal ''a.nif'']]"
    by code_simp
  then show ?thesis using sources_go_after_archive_loads [OF run(1)] run by auto
qed

definition demo_preparation :: run_preparation where
  "demo_preparation =
     \<lparr>prep_mod_roots = [demo_root_dir], prep_profile = new_selected_profile demo_capabilities,
      prep_policy = \<lparr>policy_mode = Apply, policy_work = replicate 20 True, converts_textures = False,
                     archive_extension = ''.bsa''\<rparr>,
      prep_precedence = DeterministicDiscovery\<rparr>"

definition demo_opened :: evidence where
  "demo_opened = run_ops [RecordExecuted Preparing None, OpenFinalization] (new_evidence None)"

lemma demo_finalization_opened: "finalization_opened demo_opened"
proof -
  have "\<not> archive_finalization_completed (storage_of demo_opened)
      \<and> last_record (storage_of demo_opened) = Some (executed ArchiveFinalization None)" by code_simp
  moreover have "reachable demo_opened"
    unfolding demo_opened_def by (rule reachable_run_ops [OF reachable.start])
  ultimately show ?thesis by (simp add: finalization_opened_def)
qed

theorem finalization_finishes_its_phase_witness:
  "\<exists>s' attempts. finalize_archives (demo_fin\<lparr>canonical_root := \<lambda>_ _. Err ''gone''\<rparr>) default_finalization_choices
        demo_preparation (demo_state demo_opened None) = (Done (), s')
     \<and> archive_finalization_of (storage_of (fz_evidence s')) = Some (from_parts attempts (fz_account s'))
     \<and> account_failure (fz_account s') = Some (new_failure FinUnexpectedException ''gone'')"
proof -
  let ?env = "demo_fin\<lparr>canonical_root := \<lambda>_ _. Err ''gone''\<rparr>"
  let ?run = "finalize_archives ?env default_finalization_choices demo_preparation (demo_state demo_opened None)"
  have n: "account_failure (fz_account (snd ?run)) = Some (new_failure FinUnexpectedException ''gone'')"
    by code_simp
  obtain s' attempts where run: "?run = (Done (), s')"
      "archive_finalization_of (storage_of (fz_evidence s')) = Some (from_parts attempts (fz_account s'))"
    using finalization_finishes_its_phase [of "demo_state demo_opened None" ?env default_finalization_choices
        demo_preparation] demo_finalization_opened by (auto simp: demo_state_def)
  then show ?thesis using n by auto
qed

text \<open>
  C19: Planning Archive Finalization mutates nothing and offers nothing it must not: whichever way it
  ends it only read the cancellation token and made reading calls, and every file it offered to
  the packer lies at least two levels below its Mod Root along names outside CAO staging and is
  matched by no Packing Exclusion. A plan it returns has distinct output paths, each in a Mod Root
  of the plan.
\<close>

theorem planning_only_reads:
  "case plan_finalization env roots choices rules s of (r, s') \<Rightarrow>
     reads (planning_call env rules) s s'
     \<and> (case r of
          Done plan \<Rightarrow> distinct (map out_path (fp_outputs plan))
            \<and> list_all (\<lambda>out. out_root out \<in> set (fp_roots plan)) (fp_outputs plan)
        | _ \<Rightarrow> True)"
proof -
  obtain r s' where run: "plan_finalization env roots choices rules s = (r, s')" by fastforce
  have "reads (planning_call env rules) s s'" by (rule stepsD [OF plan_finalization_reads run])
  moreover have "case r of
          Done plan \<Rightarrow> distinct (map out_path (fp_outputs plan))
            \<and> list_all (\<lambda>out. out_root out \<in> set (fp_roots plan)) (fp_outputs plan)
        | _ \<Rightarrow> True"
    using run plan_finalization_ok [of env roots choices rules]
    by (cases r) (auto simp: gives_def)
  ultimately show ?thesis by (simp add: run)
qed

subsection \<open>Dry Run and Apply\<close>

text \<open>Planning does not depend on the mode the Capacity Check was built with.\<close>

lemma mode_fields:
  fixes env :: finalization_env
  shows "fin_rules (env\<lparr>fin_mode := m\<rparr>) = fin_rules env" "fin_lower (env\<lparr>fin_mode := m\<rparr>) = fin_lower env"
    "canonical_root (env\<lparr>fin_mode := m\<rparr>) = canonical_root env"
    "list_names (env\<lparr>fin_mode := m\<rparr>) = list_names env"
    "inspect_entry (env\<lparr>fin_mode := m\<rparr>) = inspect_entry env"
    "inspect_target (env\<lparr>fin_mode := m\<rparr>) = inspect_target env"
    "read_bytes (env\<lparr>fin_mode := m\<rparr>) = read_bytes env"
    "source_tree (env\<lparr>fin_mode := m\<rparr>) = source_tree env"
    "partition_sources (env\<lparr>fin_mode := m\<rparr>) = partition_sources env"
  by simp_all

lemma plan_mode_source: "source_entry (env\<lparr>fin_mode := m\<rparr>) = source_entry env"
proof (intro ext)
  fix root rules dir entry
  have "is_packing_excluded (env\<lparr>fin_mode := m\<rparr>) = is_packing_excluded env"
    unfolding is_packing_excluded_def mode_fields ..
  then show "source_entry (env\<lparr>fin_mode := m\<rparr>) root rules dir entry = source_entry env root rules dir entry"
    by (cases entry) (simp_all only: source_entry.simps)
qed

lemma plan_mode_collect: "collect_loop (env\<lparr>fin_mode := m\<rparr>) = collect_loop env"
proof (intro ext)
  fix root rules pending sources s
  have "collect_loop (env\<lparr>fin_mode := m\<rparr>) root rules pending sources = collect_loop env root rules pending sources"
  proof (induction env root rules pending sources rule: collect_loop.induct)
    case (3 env root rules dir entries pending sources)
    have "collect_loop (env\<lparr>fin_mode := m\<rparr>) root rules (pushed env root rules dir entries @ pending)
        = collect_loop env root rules (pushed env root rules dir entries @ pending)"
      by (rule ext) (rule 3)
    then show ?case by (simp only: collect_loop.simps scan_sources_def pushed_def plan_mode_source)
  qed simp_all
  then show "collect_loop (env\<lparr>fin_mode := m\<rparr>) root rules pending sources s = collect_loop env root rules pending sources s"
    by simp
qed

lemma plan_mode_probes:
  "try_name (env\<lparr>fin_mode := m\<rparr>) = try_name env"
  "find_loading_plugin (env\<lparr>fin_mode := m\<rparr>) = find_loading_plugin env"
  "estimate_packed_capacity (env\<lparr>fin_mode := m\<rparr>) = estimate_packed_capacity env"
  "has_exact_dummy_bytes (env\<lparr>fin_mode := m\<rparr>) = has_exact_dummy_bytes env"
  by (intro ext; simp only: try_name_def name_available_def find_loading_plugin_def is_loading_plugin_def
    estimate_packed_capacity_def size_source_def has_exact_dummy_bytes_def mode_fields cong: if_cong)+

lemma plan_mode_archive: "plan_archive (env\<lparr>fin_mode := m\<rparr>) = plan_archive env"
  unfolding plan_archive_def select_name_def plan_mode_probes mode_fields ..

lemma plan_mode: "plan_finalization (env\<lparr>fin_mode := m\<rparr>) = plan_finalization env"
  unfolding plan_finalization_def plan_root_outputs_def existing_allowance_def collect_sources_def
    root_plugins_def plan_mode_collect plan_mode_archive plan_mode_probes mode_fields ..

subsection \<open>The same plan in both modes\<close>

text \<open>The end of the Apply phase: how its outcome settles the account, and the finished phase.\<close>

definition account_settled :: "(escape, unit) outcome \<Rightarrow> finalizing \<Rightarrow> finalizing" where
  "account_settled r s =
     (let failed = (\<lambda>what. s\<lparr>fz_account := (fz_account s)\<lparr>account_failure := Some (new_failure FinUnexpectedException what),
                                                      account_safe := False\<rparr>\<rparr>) in
      case r of
        Done _ \<Rightarrow> s
      | Raise (EscapeWork what) \<Rightarrow> failed what
      | Raise (EscapeEvidence _) \<Rightarrow> s
      | Panic what \<Rightarrow> failed what)"

lemma settled_fields [simp]:
  "fz_evidence (account_settled r s) = fz_evidence s" "fz_calls (account_settled r s) = fz_calls s"
  "account_cancelled (fz_account (account_settled r s)) = account_cancelled (fz_account s)"
  by (simp_all add: account_settled_def Let_def split: outcome.split escape.split)

lemma finalize_archives_finishes:
  assumes "run_finalization_phase env choices prep s = (r, s1)" and "fz_account s = default_account"
    and "finishable (fz_evidence s1)" and "\<And>e. r \<noteq> Raise (EscapeEvidence e)"
  obtains s' where "finalize_archives env choices prep s = (Done (), s')"
    and "archive_finalization_of (storage_of (fz_evidence s'))
      = Some (from_parts (attempts_in s1) (fz_account s'))"
    and "fz_account s' = fz_account (account_settled r s1)" and "fz_calls s' = fz_calls s1"
    and "phases (storage_of (fz_evidence s')) = phases (storage_of (fz_evidence s1))"
proof -
  let ?s2 = "account_settled r s1"
  have "s\<lparr>fz_account := default_account\<rparr> = s" using assms(2) by simp
  then have run: "finalize_archives env choices prep s = record_step (finish_archive_finalization (fz_account ?s2)) ?s2"
    using assms(1,4)
    by (cases r) (auto simp: finalize_archives_def andThen_apply catch_unwind_def change_account_def
        account_fail_def run_simps account_settled_def Let_def split: escape.split)
  show thesis
    by (rule that [of "?s2\<lparr>fz_evidence := update_storage (\<lambda>t. t\<lparr>archive_finalization_of := Some (from_parts (finalization_attempts t) (fz_account ?s2)),
        cancellation_observed := cancellation_observed t \<or> account_cancelled (fz_account ?s2),
        archive_finalization_completed := True\<rparr>) (fz_evidence ?s2)\<rparr>"])
      (simp_all add: run record_step_def finishable_finish [OF assms(3)] attempts_in_def)
qed

lemma finalizing_at_total:
  assumes "finalizing_at n k ev"
  shows "map_option total (phase_progress (phases (storage_of ev)) ArchiveFinalization) = Some n"
proof -
  obtain g where g: "is_open finalization_attempt (storage_of ev) g" "total g = n" and "reachable ev"
    using assms by (auto simp: finalizing_at_def open_at_def)
  then obtain r where "last_record (storage_of ev) = Some r" "record_of r = ArchiveFinalization" "progress r = Some g"
      "status r = StExecuted"
    by (auto simp: is_open_def finalization_attempt_def split: option.splits)
  then have "phase_map (phases (storage_of ev)) ArchiveFinalization = Some r"
    using last_record_phase_map [OF wf_storeD(1) [OF reachable_wf [OF \<open>reachable ev\<close>]]] by metis
  then show ?thesis using \<open>progress r = Some g\<close> \<open>status r = StExecuted\<close> g(2) by (simp add: phase_progress_def)
qed

text \<open>
  What the Dry Run's answer, given in a state, says of the Apply run that ended in another: it planned
  as many outputs as were told; it attempted them in that order, and stopped early only when it was
  cancelled or an attempt was not one to continue after; a warning is the shortage that stops it before
  the first write; and where planning does not succeed, it attempts nothing for the same reason.
\<close>

definition shortage_attempt :: "planned_output_archive \<Rightarrow> capacity_shortage \<Rightarrow> archive_finalization_attempt" where
  "shortage_attempt out shortage =
     \<lparr>output_path = planned_output_path out, output_root = shortage_root shortage,
      output_outcome = attempt_outcome.Failed (from_capacity_shortage FinInsufficientCapacity shortage) MNone True\<rparr>"

definition applied_as_planned ::
    "creation_planning \<Rightarrow> finalizing \<Rightarrow> archive_finalization_attempt list \<Rightarrow> finalizing \<Rightarrow> bool" where
  "applied_as_planned answer dry attempts s' =
     (let account = fz_account s';
          planned_total = map_option total (phase_progress (phases (storage_of (fz_evidence s'))) ArchiveFinalization)
      in case answer of
           NotRequested \<Rightarrow> attempts = [] \<and> planned_total = Some 0
         | CreationCancelled \<Rightarrow> attempts = [] \<and> account_cancelled account \<and> fz_calls s' = fz_calls dry
         | CreationFailed what \<Rightarrow>
             attempts = [] \<and> account_failure account = Some (new_failure FinUnexpectedException what)
             \<and> \<not> account_safe account \<and> fz_calls s' = fz_calls dry
         | CreationPlanned outs None \<Rightarrow>
             planned_total = Some (length outs)
             \<and> map output_path attempts = take (length attempts) (map planned_output_path outs)
             \<and> (length attempts = length outs \<or> account_cancelled account
                \<or> attempts \<noteq> [] \<and> \<not> continuable (last attempts))
         | CreationPlanned outs (Some told) \<Rightarrow>
             planned_total = Some (length outs) \<and> fz_calls s' = fz_calls dry
             \<and> (attempts = [] \<and> account_cancelled account
                \<or> (\<exists>shortage volume. told = shortage_warning ArchiveFinalization volume shortage
                     \<and> (case find (\<lambda>out. planned_output_root out = shortage_root shortage) outs of
                          None \<Rightarrow>
                            attempts = []
                            \<and> account_failure account = Some (from_capacity_shortage FinInsufficientCapacity shortage)
                        | Some out \<Rightarrow> attempts = [shortage_attempt out shortage]))))"

lemma find_planned_outputs:
  "find (\<lambda>out. planned_output_root out = root) (map (planned_output_of plan) outs)
     = map_option (planned_output_of plan) (find (\<lambda>out. out_root out = root) outs)"
  by (induction outs) (simp_all add: planned_output_of_def)

lemma planned_paths: "map planned_output_path (planned_outputs plan) = map out_path (fp_outputs plan)"
  by (simp add: planned_outputs_def planned_output_of_def comp_def)

text \<open>The phase with its plan, when the Capacity Check finds no shortage, and when it finds one.\<close>

lemma finalize_plan_fits:
  assumes "finalizing_at (length (fp_outputs plan)) 0 (fz_evidence s)" and "attempts_in s = []"
    and "fst (first_shortage (fin_probe env) (fst (creation_demand plan)) (fz_checks s)) = None"
  obtains s' k where "finalize_plan env plan s = (Done (), s')"
    and "finalizing_at (length (fp_outputs plan)) k (fz_evidence s')"
    and "map output_path (attempts_in s') = take (length (attempts_in s')) (map out_path (fp_outputs plan))"
    and "length (attempts_in s') = length (fp_outputs plan) \<or> account_cancelled (fz_account s')
       \<or> attempts_in s' \<noteq> [] \<and> \<not> continuable (last (attempts_in s'))"
proof -
  obtain stop t where c: "(cancelled :: (escape, bool) fin_action) s = (Done stop, s\<lparr>fz_token := t\<rparr>)"
    by (rule cancelled_run)
  obtain d dummies where demand: "creation_demand plan = (d, dummies)" by fastforce
  obtain st where v: "capacity_check (fin_probe env) (fin_mode env) BeforeCreation d (fz_checks s) = (Fits, st)"
    using assms(3)
    by (cases "first_shortage (fin_probe env) d (fz_checks s)") (simp add: demand capacity_check_def verdict_def)
  let ?s = "s\<lparr>fz_token := t, fz_checks := st\<rparr>"
  note run = finalize_plan_def andThen_apply c demand fin_check_def v run_simps
  show thesis
  proof (cases stop)
    case True
    show thesis
      by (rule that [of "s\<lparr>fz_token := t, fz_account := (fz_account s)\<lparr>account_cancelled := True\<rparr>\<rparr>" 0])
        (use assms True in \<open>simp_all add: run mark_cancelled_def change_account_def attempts_in_def\<close>)
  next
    case False
    obtain s' k where "run_outputs env plan dummies ?s = (Done (), s')"
      "finalizing_at (length (fp_outputs plan)) k (fz_evidence s')"
      "map output_path (attempts_in s') = take (length (attempts_in s')) (map out_path (fp_outputs plan))"
      "length (attempts_in s') = length (fp_outputs plan) \<or> account_cancelled (fz_account s')
         \<or> attempts_in s' \<noteq> [] \<and> \<not> continuable (last (attempts_in s'))"
      using run_outputs_left [of "length (fp_outputs plan)" ?s plan env dummies] assms(1,2)
      by (auto simp: attempts_in_def)
    then show thesis using that [of s' k] False by (simp add: run)
  qed
qed

lemma finalize_plan_short:
  assumes "finalizing_at (length (fp_outputs plan)) 0 (fz_evidence s)" and "attempts_in s = []"
    and "fin_mode env = Apply"
    and "fst (first_shortage (fin_probe env) (fst (creation_demand plan)) (fz_checks s)) = Some shortage"
  obtains s' k where "finalize_plan env plan s = (Done (), s')"
    and "finalizing_at (length (fp_outputs plan)) k (fz_evidence s')" and "fz_calls s' = fz_calls s"
    and "attempts_in s' = [] \<and> account_cancelled (fz_account s')
      \<or> (case find (\<lambda>out. planned_output_root out = shortage_root shortage) (planned_outputs plan) of
           None \<Rightarrow> attempts_in s' = []
             \<and> account_failure (fz_account s') = Some (from_capacity_shortage FinInsufficientCapacity shortage)
         | Some out \<Rightarrow> attempts_in s' = [shortage_attempt out shortage])"
proof -
  obtain stop t where c: "(cancelled :: (escape, bool) fin_action) s = (Done stop, s\<lparr>fz_token := t\<rparr>)"
    by (rule cancelled_run)
  obtain d dummies where demand: "creation_demand plan = (d, dummies)" by fastforce
  obtain st where v: "capacity_check (fin_probe env) (fin_mode env) BeforeCreation d (fz_checks s)
      = (FailWork shortage, st)"
    using assms(3,4)
    by (cases "first_shortage (fin_probe env) d (fz_checks s)") (simp add: demand capacity_check_def verdict_def)
  let ?s = "s\<lparr>fz_token := t, fz_checks := st\<rparr>"
  note run = finalize_plan_def andThen_apply c demand fin_check_def v run_simps record_shortage_def
  note found = find_planned_outputs [of "shortage_root shortage" plan "fp_outputs plan", folded planned_outputs_def]
  show thesis
  proof (cases stop)
    case True
    show thesis
      by (rule that [of "s\<lparr>fz_token := t, fz_account := (fz_account s)\<lparr>account_cancelled := True\<rparr>\<rparr>" 0])
        (use assms(1,2) True in \<open>simp_all add: run mark_cancelled_def change_account_def attempts_in_def\<close>)
  next
    case go: False
    show thesis
    proof (cases "find (\<lambda>out. out_root out = shortage_root shortage) (fp_outputs plan)")
      case None
      show thesis
        by (rule that [of "?s\<lparr>fz_account := (fz_account s)\<lparr>account_failure
              := Some (from_capacity_shortage FinInsufficientCapacity shortage)\<rparr>\<rparr>" 0])
          (use assms(1,2) go None found in \<open>simp_all add: run output_at_def account_fail_def change_account_def attempts_in_def\<close>)
    next
      case (Some out)
      let ?a = "shortage_attempt (planned_output_of plan out) shortage"
      have "finalizing_at (length (fp_outputs plan)) 0 (fz_evidence ?s)" "0 < length (fp_outputs plan)"
        using assms(1) Some by (auto simp: find_Some_iff)
      then obtain s' where rec: "map_err EscapeEvidence (record_step (record_attempt_progress finalization_attempt ?a)) ?s
            = (Done (), s')" "finalizing_at (length (fp_outputs plan)) (Suc 0) (fz_evidence s')"
          "attempts_in s' = attempts_in ?s @ [?a]"
        by (rule record_output_run)
      have "fz_calls s' = fz_calls ?s"
        using rec(1) by (auto simp: map_err_def record_step_def split: prod.splits option.splits)
      moreover have "finalize_plan env plan s = (Done (), s')"
        using go rec(1) Some by (simp add: run output_at_def shortage_attempt_def planned_output_of_def)
      ultimately show thesis
        using that [of s' "Suc 0"] rec assms(2) Some found by (simp add: attempts_in_def)
    qed
  qed
qed


text \<open>
  C18: A Dry Run plans exactly what Apply would create. From the same state, with its phase opened, and
  whatever the environment answers, the Apply run of Archive Finalization plans exactly as many
  outputs as the planning-only step told, and attempts them in that order until it is cancelled or an
  attempt is not one to continue after; the capacity warning names the shortage that stops the Apply
  run before its first write, at the output of that Mod Root; and where planning is cancelled, fails or
  panics, the Apply run makes the same calls, attempts nothing, and ends for the same reason. The
  planning-only step itself makes only the reading calls of planning.
\<close>

theorem dry_run_plans_what_apply_creates:
  assumes "finalization_opened (fz_evidence s)" and "fz_account s = default_account"
  shows "\<exists>answer dry attempts s'. plan_archive_creation (env\<lparr>fin_mode := DryRun\<rparr>) choices prep s
         = ((Done answer, dry) :: ('e, creation_planning) outcome \<times> finalizing)
     \<and> reads (planning_call env (packing_exclusions_of env prep)) s (dry\<lparr>fz_checks := fz_checks s\<rparr>)
     \<and> finalize_archives (env\<lparr>fin_mode := Apply\<rparr>) choices prep s = (Done (), s')
     \<and> archive_finalization_of (storage_of (fz_evidence s')) = Some (from_parts attempts (fz_account s'))
     \<and> applied_as_planned answer dry attempts s'"
proof (cases "creation_requested prep")
  case False
  let ?env = "env\<lparr>fin_mode := Apply\<rparr>"
  obtain s1 where s1: "map_err EscapeEvidence (record_step (plan_archive_finalization 0)) s = (Done (), s1)"
    "finalizing_at 0 0 (fz_evidence s1)" "attempts_in s1 = []"
    using plan_phase_run [OF assms(1), of 0] by metis
  obtain r s2 where s2: "(prune_empty_directories ?env (prep_mod_roots prep) :: (escape, unit) fin_action) s1 = (r, s2)"
    by fastforce
  have ev: "fz_evidence s2 = fz_evidence s1"
    using stepsD [OF quiet_prune s2] by (simp add: same_evidence_def)
  have "run_finalization_phase ?env choices prep s = (r, s2)"
    using False s1 s2 by (simp add: run_finalization_phase_def andThen_apply)
  moreover have "r \<noteq> Raise (EscapeEvidence e)" for e
  proof
    assume "r = Raise (EscapeEvidence e)"
    with s2 raisesD [OF prune_own [where Q = "\<lambda>_. False"]] show False by metis
  qed
  moreover have "finishable (fz_evidence s2)" using s1(2) ev by (auto simp: finishable_def)
  ultimately obtain s' where "finalize_archives ?env choices prep s = (Done (), s')"
    "archive_finalization_of (storage_of (fz_evidence s')) = Some (from_parts (attempts_in s2) (fz_account s'))"
    "phases (storage_of (fz_evidence s')) = phases (storage_of (fz_evidence s2))"
    using finalize_archives_finishes assms(2) by metis
  moreover have "attempts_in s2 = []" using s1(3) ev by (simp add: attempts_in_def)
  ultimately show ?thesis
    using False finalizing_at_total [OF s1(2)] ev
    by (intro exI [of _ NotRequested] exI [of _ s] exI [of _ "[]"] exI [of _ s'])
      (simp add: plan_archive_creation_def run_simps reads_refl applied_as_planned_def)
next
  case True
  let ?rules = "packing_exclusions_of env prep" and ?env = "env\<lparr>fin_mode := Apply\<rparr>"
  have rules: "packing_exclusions_of (env\<lparr>fin_mode := m\<rparr>) prep = ?rules" for m
    by (simp add: packing_exclusions_of_def)
  obtain p s1 where p: "plan_finalization env (prep_mod_roots prep) choices ?rules s = (p, s1)" by fastforce
  have reading: "reads (planning_call env ?rules) s s1" by (rule stepsD [OF plan_finalization_reads p])
  have checks: "fz_checks s = fz_checks s1" using reading by (auto simp: reads_def)
  have ev: "fz_evidence s1 = fz_evidence s"
    using stepsD [OF reads_same_evidence [OF plan_finalization_reads] p] by (simp add: same_evidence_def)
  have keep: "reads (planning_call env ?rules) s (s1\<lparr>fz_checks := st', fz_checks := fz_checks s\<rparr>)" for st'
    using reading checks by simp
  have opened: "finishable (fz_evidence s1)" "attempts_in s1 = []"
    using assms(1) ev opened_no_attempts by (simp_all add: finishable_def attempts_in_def)
  note dry = plan_archive_creation_def plan_mode rules p True andThen_apply catch_unwind_def run_simps
  note run = run_finalization_phase_def plan_mode rules p True andThen_apply try_action_def run_simps
  show ?thesis
  proof (cases p)
    case (Done plan)
    let ?n = "length (fp_outputs plan)"
    obtain s2 where s2: "map_err EscapeEvidence (record_step (plan_archive_finalization ?n)) s1 = (Done (), s2)"
      "finalizing_at ?n 0 (fz_evidence s2)" "attempts_in s2 = []"
      using plan_phase_run [of s1] assms(1) ev by metis
    have same: "fz_checks s2 = fz_checks s1" "fz_calls s2 = fz_calls s1"
      using s2(1) by (auto simp: map_err_def record_step_def split: prod.splits option.splits)
    have apply_run: "run_finalization_phase ?env choices prep s = finalize_plan ?env plan s2"
      using Done s2(1) by (simp add: run)
    obtain sh st where short: "first_shortage (fin_probe env) (fst (creation_demand plan)) (fz_checks s1) = (sh, st)"
      by fastforce
    show ?thesis
    proof (cases sh)
      case None
      have "fst (first_shortage (fin_probe ?env) (fst (creation_demand plan)) (fz_checks s2)) = None"
        using short None same by simp
      then obtain s3 k where s3: "finalize_plan ?env plan s2 = (Done (), s3)" "finalizing_at ?n k (fz_evidence s3)"
        "map output_path (attempts_in s3) = take (length (attempts_in s3)) (map out_path (fp_outputs plan))"
        "length (attempts_in s3) = ?n \<or> account_cancelled (fz_account s3)
           \<or> attempts_in s3 \<noteq> [] \<and> \<not> continuable (last (attempts_in s3))"
        by (rule finalize_plan_fits [OF s2(2,3)])
      have "finishable (fz_evidence s3)" using s3(2) by (auto simp: finishable_def)
      then obtain s' where s': "finalize_archives ?env choices prep s = (Done (), s')"
        "archive_finalization_of (storage_of (fz_evidence s')) = Some (from_parts (attempts_in s3) (fz_account s'))"
        "fz_account s' = fz_account (account_settled (Done ()) s3)"
        "phases (storage_of (fz_evidence s')) = phases (storage_of (fz_evidence s3))"
        using finalize_archives_finishes [of ?env choices prep s "Done ()" s3] apply_run s3(1) assms(2) by auto
      have "applied_as_planned (CreationPlanned (planned_outputs plan) None) (s1\<lparr>fz_checks := st\<rparr>) (attempts_in s3) s'"
        using s3 s' finalizing_at_total [OF s3(2)]
        by (simp add: applied_as_planned_def planned_paths Let_def) (simp add: planned_outputs_def)
      then show ?thesis
        using keep [of st] Done short None s'(1,2)
        by (intro exI [of _ "CreationPlanned (planned_outputs plan) None"] exI [of _ "s1\<lparr>fz_checks := st\<rparr>"]
            exI [of _ "attempts_in s3"] exI [of _ s'])
          (simp add: dry fin_check_def capacity_check_def verdict_def)
    next
      case (Some shortage)
      obtain w st' where w: "warning (fin_probe env) ArchiveFinalization shortage st = (w, st')" by fastforce
      then obtain volume where w': "w = shortage_warning ArchiveFinalization volume shortage"
        by (auto simp: warning_def split: prod.splits)
      have "fin_mode ?env = Apply"
        "fst (first_shortage (fin_probe ?env) (fst (creation_demand plan)) (fz_checks s2)) = Some shortage"
        using short Some same by simp_all
      then obtain s3 k where s3: "finalize_plan ?env plan s2 = (Done (), s3)" "finalizing_at ?n k (fz_evidence s3)"
        "fz_calls s3 = fz_calls s2"
        "attempts_in s3 = [] \<and> account_cancelled (fz_account s3)
         \<or> (case find (\<lambda>out. planned_output_root out = shortage_root shortage) (planned_outputs plan) of
             None \<Rightarrow> attempts_in s3 = []
               \<and> account_failure (fz_account s3) = Some (from_capacity_shortage FinInsufficientCapacity shortage)
           | Some out \<Rightarrow> attempts_in s3 = [shortage_attempt out shortage])"
        by (rule finalize_plan_short [OF s2(2,3)])
      have "finishable (fz_evidence s3)" using s3(2) by (auto simp: finishable_def)
      then obtain s' where s': "finalize_archives ?env choices prep s = (Done (), s')"
        "archive_finalization_of (storage_of (fz_evidence s')) = Some (from_parts (attempts_in s3) (fz_account s'))"
        "fz_account s' = fz_account (account_settled (Done ()) s3)" "fz_calls s' = fz_calls s3"
        "phases (storage_of (fz_evidence s')) = phases (storage_of (fz_evidence s3))"
        using finalize_archives_finishes [of ?env choices prep s "Done ()" s3] apply_run s3(1) assms(2) by auto
      have acc: "fz_account s' = fz_account s3" using s'(3) by (simp add: account_settled_def)
      have total: "map_option total (phase_progress (phases (storage_of (fz_evidence s'))) ArchiveFinalization)
          = Some (length (planned_outputs plan))"
        using finalizing_at_total [OF s3(2)] s'(5) by (simp add: planned_outputs_def)
      have calls: "fz_calls s' = fz_calls (s1\<lparr>fz_checks := st'\<rparr>)" using s'(4) s3(3) same by simp
      have "applied_as_planned (CreationPlanned (planned_outputs plan) (Some w)) (s1\<lparr>fz_checks := st'\<rparr>) (attempts_in s3) s'"
        unfolding applied_as_planned_def Let_def creation_planning.case option.case
        using s3(4) [folded acc] total calls w' by blast
      then show ?thesis
        using keep [of st'] Done short Some w s'(1,2)
        by (intro exI [of _ "CreationPlanned (planned_outputs plan) (Some w)"] exI [of _ "s1\<lparr>fz_checks := st'\<rparr>"]
            exI [of _ "attempts_in s3"] exI [of _ s'])
          (simp add: dry fin_check_def capacity_check_def verdict_def)
    qed
  next
    case (Raise e)
    show ?thesis
    proof (cases e)
      case PlanningCancelled
      let ?s2 = "s1\<lparr>fz_account := (fz_account s1)\<lparr>account_cancelled := True\<rparr>\<rparr>"
      have "run_finalization_phase ?env choices prep s = (Done (), ?s2)"
        using Raise PlanningCancelled by (simp add: run mark_cancelled_def change_account_def)
      from finalize_archives_finishes [OF this assms(2)] opened
      obtain s' where "finalize_archives ?env choices prep s = (Done (), s')"
        "archive_finalization_of (storage_of (fz_evidence s')) = Some (from_parts [] (fz_account s'))"
        "fz_account s' = fz_account (account_settled (Done ()) ?s2)" "fz_calls s' = fz_calls s1"
        by (auto simp: attempts_in_def)
      then show ?thesis
        using Raise PlanningCancelled keep [of "fz_checks s1"] checks
        by (intro exI [of _ CreationCancelled] exI [of _ s1] exI [of _ "[]"] exI [of _ s'])
          (simp add: dry applied_as_planned_def account_settled_def)
    next
      case (PlanningFailed what)
      have "run_finalization_phase ?env choices prep s = (Raise (EscapeWork what), s1)"
        using Raise PlanningFailed by (simp add: run)
      from finalize_archives_finishes [OF this assms(2)] opened
      obtain s' where "finalize_archives ?env choices prep s = (Done (), s')"
        "archive_finalization_of (storage_of (fz_evidence s')) = Some (from_parts [] (fz_account s'))"
        "fz_account s' = fz_account (account_settled (Raise (EscapeWork what)) s1)" "fz_calls s' = fz_calls s1"
        by auto
      then show ?thesis
        using Raise PlanningFailed keep [of "fz_checks s1"] checks
        by (intro exI [of _ "CreationFailed what"] exI [of _ s1] exI [of _ "[]"] exI [of _ s'])
          (simp add: dry applied_as_planned_def account_settled_def)
    qed
  next
    case (Panic what)
    have "run_finalization_phase ?env choices prep s = (Panic what, s1)" using Panic by (simp add: run)
    from finalize_archives_finishes [OF this assms(2)] opened
    obtain s' where "finalize_archives ?env choices prep s = (Done (), s')"
      "archive_finalization_of (storage_of (fz_evidence s')) = Some (from_parts [] (fz_account s'))"
      "fz_account s' = fz_account (account_settled (Panic what) s1)" "fz_calls s' = fz_calls s1"
      by auto
    then show ?thesis
      using Panic keep [of "fz_checks s1"] checks
      by (intro exI [of _ "CreationFailed what"] exI [of _ s1] exI [of _ "[]"] exI [of _ s'])
        (simp add: dry applied_as_planned_def account_settled_def)
  qed
qed


theorem dry_run_plans_what_apply_creates_witness:
  "\<exists>attempts s'. finalize_archives (demo_fin\<lparr>fin_mode := Apply\<rparr>) default_finalization_choices demo_preparation
        (demo_state demo_opened None) = (Done (), s')
     \<and> archive_finalization_of (storage_of (fz_evidence s')) = Some (from_parts attempts (fz_account s'))
     \<and> map_option total (phase_progress (phases (storage_of (fz_evidence s'))) ArchiveFinalization) = Some 1
     \<and> length attempts \<le> 1"
proof -
  let ?s = "demo_state demo_opened None"
  let ?dry = "plan_archive_creation (demo_fin\<lparr>fin_mode := DryRun\<rparr>) default_finalization_choices demo_preparation ?s
     :: (error, creation_planning) outcome \<times> finalizing"
  have one: "(case fst ?dry of Done (CreationPlanned outs None) \<Rightarrow> length outs = 1 | _ \<Rightarrow> False)" by code_simp
  have start: "finalization_opened (fz_evidence ?s)" "fz_account ?s = default_account"
    using demo_finalization_opened by (simp_all add: demo_state_def)
  obtain answer dry attempts s' where run: "?dry = (Done answer, dry)"
    "finalize_archives (demo_fin\<lparr>fin_mode := Apply\<rparr>) default_finalization_choices demo_preparation ?s = (Done (), s')"
    "archive_finalization_of (storage_of (fz_evidence s')) = Some (from_parts attempts (fz_account s'))"
    "applied_as_planned answer dry attempts s'"
    using dry_run_plans_what_apply_creates [OF start, of demo_fin default_finalization_choices demo_preparation] by blast
  obtain outs where outs: "answer = CreationPlanned outs None" "length outs = 1"
    using one run(1) by (auto split: creation_planning.splits option.splits)
  have "map output_path attempts = take (length attempts) (map planned_output_path outs)"
    using run(4) outs by (simp add: applied_as_planned_def Let_def)
  from arg_cong [OF this, of length] have "length attempts \<le> 1" using outs(2) by simp
  then show ?thesis using run outs by (auto simp: applied_as_planned_def Let_def)
qed

end
