(* ===== verification/AssetResults.thy ===== *)
theory AssetResults
  imports Lifecycle
begin

text \<open>
  The results of one Asset attempt and of one backend operation (\<open>execution.rs\<close>): the builders, and what
  a reader derives from a result. The failure-only builders trip a debug assertion on a success and
  otherwise leave it alone.
\<close>

datatype execution_failure_category = CatBackend | CatFilesystem | CatContract

record operation_result =
  operation_succeeded :: bool
  would_change :: bool
  operation_message :: string

definition operation_changed :: operation_result where
  "operation_changed = \<lparr>operation_succeeded = True, would_change = True, operation_message = []\<rparr>"

definition operation_unchanged :: operation_result where
  "operation_unchanged = \<lparr>operation_succeeded = True, would_change = False, operation_message = []\<rparr>"

definition operation_failed :: "string \<Rightarrow> operation_result" where
  "operation_failed what = \<lparr>operation_succeeded = False, would_change = False, operation_message = what\<rparr>"

definition asset_success :: "completed_mutation \<Rightarrow> asset_execution_result" where
  "asset_success mutation =
     \<lparr>asset_outcome = Succeeded mutation, affected_path = [], result_operation = [],
      service_detail = [], result_cleanup_failures = []\<rparr>"

definition asset_failed :: "asset_execution_failure \<Rightarrow> string \<Rightarrow> asset_execution_result" where
  "asset_failed failure message =
     \<lparr>asset_outcome = attempt_outcome.Failed (new_failure failure message) MNone True, affected_path = [],
      result_operation = ''execute_asset'', service_detail = [], result_cleanup_failures = []\<rparr>"

fun outcome_with_mutation :: "mutation_state \<Rightarrow> 'f attempt_outcome \<Rightarrow> 'f attempt_outcome" where
  "outcome_with_mutation m (attempt_outcome.Failed f _ claimed) = attempt_outcome.Failed f m claimed"
| "outcome_with_mutation m (Succeeded held) = Succeeded held"

fun outcome_with_claim :: "bool \<Rightarrow> 'f attempt_outcome \<Rightarrow> 'f attempt_outcome" where
  "outcome_with_claim claim (attempt_outcome.Failed f m _) = attempt_outcome.Failed f m claim"
| "outcome_with_claim claim (Succeeded held) = Succeeded held"

definition with_mutation :: "mutation_state \<Rightarrow> asset_execution_result \<Rightarrow> asset_execution_result" where
  "with_mutation m r = r\<lparr>asset_outcome := outcome_with_mutation m (asset_outcome r)\<rparr>"

definition with_safe_to_continue :: "bool \<Rightarrow> asset_execution_result \<Rightarrow> asset_execution_result" where
  "with_safe_to_continue claim r = r\<lparr>asset_outcome := outcome_with_claim claim (asset_outcome r)\<rparr>"

definition with_path :: "path \<Rightarrow> asset_execution_result \<Rightarrow> asset_execution_result" where
  "with_path p r = r\<lparr>affected_path := p\<rparr>"

definition with_operation :: "string \<Rightarrow> asset_execution_result \<Rightarrow> asset_execution_result" where
  "with_operation name r = r\<lparr>result_operation := name\<rparr>"

definition with_service_detail :: "string \<Rightarrow> asset_execution_result \<Rightarrow> asset_execution_result" where
  "with_service_detail what r = r\<lparr>service_detail := what\<rparr>"

definition result_failure :: "asset_execution_result \<Rightarrow> asset_execution_failure option" where
  "result_failure r = failure_category (asset_outcome r)"

definition result_message :: "asset_execution_result \<Rightarrow> string" where
  "result_message r = (case failure_of (asset_outcome r) of None \<Rightarrow> [] | Some f \<Rightarrow> detail f)"

definition result_phase :: "asset_execution_result \<Rightarrow> run_phase" where
  "result_phase r = (if result_failure r = Some CleanupFailed then SafetyCleanup else ProcessingAssets)"

fun category_of_failure :: "asset_execution_failure \<Rightarrow> execution_failure_category" where
  "category_of_failure UnsupportedTarget = CatContract"
| "category_of_failure IdentityMismatch = CatContract"
| "category_of_failure BackendException = CatContract"
| "category_of_failure SaveFailed = CatFilesystem"
| "category_of_failure SourceRemovalFailed = CatFilesystem"
| "category_of_failure StagingFailed = CatFilesystem"
| "category_of_failure CommitFailed = CatFilesystem"
| "category_of_failure CleanupFailed = CatFilesystem"
| "category_of_failure LoadFailed = CatBackend"
| "category_of_failure OperationFailed = CatBackend"

definition result_failure_category :: "asset_execution_result \<Rightarrow> execution_failure_category option" where
  "result_failure_category r = map_option category_of_failure (result_failure r)"

lemma outcome_builders [outcome_simps]:
  "succeeded (outcome_with_mutation m oc) = succeeded oc"
  "succeeded (outcome_with_claim c oc) = succeeded oc"
  "failure_of (outcome_with_mutation m oc) = failure_of oc"
  "failure_of (outcome_with_claim c oc) = failure_of oc"
  "mutation_of (outcome_with_claim c oc) = mutation_of oc"
  by (cases oc; simp)+

lemma asset_builders [simp]:
  "asset_outcome (with_mutation m r) = outcome_with_mutation m (asset_outcome r)"
  "asset_outcome (with_safe_to_continue c r) = outcome_with_claim c (asset_outcome r)"
  "asset_outcome (with_path p r) = asset_outcome r"
  "asset_outcome (with_operation name r) = asset_outcome r"
  "asset_outcome (with_service_detail what r) = asset_outcome r"
  "asset_outcome (asset_success done_mutation) = Succeeded done_mutation"
  "asset_outcome (asset_failed f what) = attempt_outcome.Failed (new_failure f what) MNone True"
  by (simp_all add: with_mutation_def with_safe_to_continue_def with_path_def with_operation_def
      with_service_detail_def asset_success_def asset_failed_def)

end
