(* ===== verification/WorkPhases.thy ===== *)
theory WorkPhases
  imports AssetResults Discovery ArchiveExtraction FinalizationLaws ModSelection
begin

text \<open>
  The Run Executor's work phases (\<open>run/executor/work_phases.rs\<close>) over the Run Toolset
  (\<open>run/toolset.rs\<close>). The Toolset's ports answer from the calls the run made before: every walk of a
  Mod Root sees a tree of its own, every extraction and the finalization run in an environment of
  their own, and an Asset attempt is the answer of its port. The calls of the run, with the calls
  extraction and finalization made in turn, are part of its state.
\<close>

subsection \<open>The Run Toolset\<close>

datatype run_call =
    LoadConfiguration
  | ReadSelection
  | PrepareRoot path
  | WalkRoot run_phase path
  | PreflightArchives
  | ExtractArchive extraction_plan "seam_call list"
  | ResolveAsset path
  | AttemptAsset routed_asset path
  | FinalizeArchives "fin_call list"
  | PlanCreation "fin_call list"
  | CleanArtifacts
  | CleanWithService

text \<open>
  What an Asset attempt answers: its result, \<open>Err ()\<close> for \<open>AssetInitializationCancelled\<close>, or a panic; the
  diagnostics it handed to \<open>retain\<close>; and how often it read the token.
\<close>

record attempt_answer =
  answer_result :: "(unit + asset_execution_result) call"
  answer_retained :: "run_diagnostic list"
  answer_reads :: nat

record toolset =
  ts_mode :: execution_mode
  ts_probe :: volume_probe
  ts_key :: name_key
  ts_lower :: lowercase
  ts_tree :: "run_call list \<Rightarrow> path \<Rightarrow> dir"
  ts_scan :: "run_call list \<Rightarrow> scan_view"
  ts_extraction :: "run_call list \<Rightarrow> extraction_env"
  ts_resolve :: "run_call list \<Rightarrow> path \<Rightarrow> path option"
  ts_attempt :: "run_call list \<Rightarrow> routed_asset \<Rightarrow> path \<Rightarrow> attempt_answer"
  ts_finalization :: "run_call list \<Rightarrow> finalization_env"

text \<open>
  The seams as the Toolset lends them: one Capacity Check, in the Toolset's mode, and one file-name
  comparison serve the whole run.
\<close>

definition scan_seams :: "toolset \<Rightarrow> run_call list \<Rightarrow> scan_view" where
  "scan_seams ts h = (ts_scan ts h)\<lparr>ordinal := ts_key ts\<rparr>"

definition extraction_seams :: "toolset \<Rightarrow> run_call list \<Rightarrow> extraction_env" where
  "extraction_seams ts h =
     (ts_extraction ts h)\<lparr>env_key := ts_key ts, env_probe := ts_probe ts, env_mode := ts_mode ts\<rparr>"

definition finalization_seams :: "toolset \<Rightarrow> run_call list \<Rightarrow> finalization_env" where
  "finalization_seams ts h =
     (ts_finalization ts h)\<lparr>fin_probe := ts_probe ts, fin_mode := ts_mode ts\<rparr>"

subsection \<open>The state of a run\<close>

text \<open>
  \<open>run_diagnosed\<close> is the walker's set of diagnosed links; \<open>run_violation\<close> is the executor's
  \<open>DeferredInvariant\<close>, the first Run Evidence violation it noted.
\<close>

record running =
  run_evidence :: evidence
  run_token :: token
  run_checks :: capacity_state
  run_diagnosed :: "path list"
  run_calls :: "run_call list"
  run_violation :: "error option"

type_synonym ('e, 'a) run_action = "(running, 'e, 'a) action"

datatype stop = Halted | BackendCancelled

datatype 'a flow = Continue 'a | Break stop

definition stop_requested :: "('e, bool) run_action" where
  "stop_requested = (\<lambda>s. case is_cancelled (run_token s) of (c, t) \<Rightarrow> (Done c, s\<lparr>run_token := t\<rparr>))"

definition record_fact :: "(evidence \<Rightarrow> step_result) \<Rightarrow> (error, unit) run_action" where
  "record_fact step = (\<lambda>s. case step (run_evidence s) of
     (None, ev) \<Rightarrow> (Done (), s\<lparr>run_evidence := ev\<rparr>)
   | (Some e, ev) \<Rightarrow> (Raise e, s\<lparr>run_evidence := ev\<rparr>))"

definition on_evidence :: "(evidence \<Rightarrow> evidence) \<Rightarrow> ('e, unit) run_action" where
  "on_evidence f = change_state (\<lambda>s. s\<lparr>run_evidence := f (run_evidence s)\<rparr>)"

definition ask_run :: "run_call \<Rightarrow> (run_call list \<Rightarrow> 'a) \<Rightarrow> ('e, 'a) run_action" where
  "ask_run c answer = (\<lambda>s. (Done (answer (run_calls s)), s\<lparr>run_calls := run_calls s @ [c]\<rparr>))"

text \<open>One walk of the shared walker.\<close>

definition walk_root :: "toolset \<Rightarrow> run_phase \<Rightarrow> path \<Rightarrow> ('e, bool \<times> path list) run_action" where
  "walk_root ts phase root = (\<lambda>s.
     case visit phase root (ts_tree ts (run_calls s) root)
            \<lparr>walk_evidence = run_evidence s, walk_token = run_token s, diagnosed = run_diagnosed s\<rparr> of
       (complete, files, w) \<Rightarrow>
         (Done (complete, files),
          s\<lparr>run_evidence := walk_evidence w, run_token := walk_token w, run_diagnosed := diagnosed w,
            run_calls := run_calls s @ [WalkRoot phase root]\<rparr>))"

definition preflight_archives ::
    "toolset \<Rightarrow> archive_precedence \<Rightarrow> root_archives list \<Rightarrow> ('e, preflight) run_action" where
  "preflight_archives ts precedence roots = (\<lambda>s.
     case preflight (scan_seams ts (run_calls s)) (ts_probe ts) (ts_mode ts) precedence roots
            (run_token s) (run_checks s) of
       (p, t, st) \<Rightarrow>
         (case p of None \<Rightarrow> Panic ''internal error: entered unreachable code'' | Some v \<Rightarrow> Done v,
          s\<lparr>run_token := t, run_checks := st, run_calls := run_calls s @ [PreflightArchives]\<rparr>))"

definition extract_planned ::
    "toolset \<Rightarrow> extraction_plan \<Rightarrow> source_cleanup \<Rightarrow> ('e, archive_extraction_result) run_action" where
  "extract_planned ts plan cleanup = (\<lambda>s.
     case extract_archive (extraction_seams ts (run_calls s)) plan cleanup
            \<lparr>calls = [], merging = False, committed = False, checks = run_checks s\<rparr> of
       (result, x) \<Rightarrow>
         (Done result,
          s\<lparr>run_checks := checks x, run_calls := run_calls s @ [ExtractArchive plan (calls x)]\<rparr>))"

text \<open>
  Archive Finalization runs over a state of its own; its handle lends it the evidence. The account
  and the progress of the attempt in flight are its locals.
\<close>

definition begin_finalizing :: "running \<Rightarrow> finalizing" where
  "begin_finalizing s =
     \<lparr>fz_evidence = run_evidence s, fz_token = run_token s, fz_checks = run_checks s, fz_calls = [],
      fz_account = default_account, fz_boundary = FinWriteFailed, fz_removed = 0, fz_mutation = MNone,
      fz_claim = True\<rparr>"

definition end_finalizing :: "(fin_call list \<Rightarrow> run_call) \<Rightarrow> finalizing \<Rightarrow> running \<Rightarrow> running" where
  "end_finalizing call f s =
     s\<lparr>run_evidence := fz_evidence f, run_token := fz_token f, run_checks := fz_checks f,
       run_calls := run_calls s @ [call (fz_calls f)]\<rparr>"

definition within_finalization ::
    "(fin_call list \<Rightarrow> run_call) \<Rightarrow> (run_call list \<Rightarrow> ('e, 'a) fin_action) \<Rightarrow> ('e, 'a) run_action" where
  "within_finalization call m = (\<lambda>s.
     case m (run_calls s) (begin_finalizing s) of (r, f) \<Rightarrow> (r, end_finalizing call f s))"

subsection \<open>Discovering Archives\<close>

definition names_an_archive :: "routing_policy \<Rightarrow> path \<Rightarrow> bool" where
  "names_an_archive policy p =
     (case route policy p of
        Routed a \<Rightarrow> identity_kind (asset_identity a) = KArchive
      | Skipped a \<Rightarrow> identity_kind (skipped_identity a) = KArchive
      | Unsupported \<Rightarrow> False)"

text \<open>
  The key ordering the Archives of one root; \<open>ts_lower\<close> is \<open>char::to_lowercase\<close>.
\<close>

definition archive_order_key :: "lowercase \<Rightarrow> string \<Rightarrow> int list \<times> string" where
  "archive_order_key lower name =
     (List.maps (\<lambda>c. if c = 223 then [115, 115] else [c]) (List.maps lower (chars name)), name)"

text \<open>
  What the visitor of the Archive pass collects: across the roots, and for the root at hand. The
  loose set holds one spelling per game path.
\<close>

record archive_batch =
  batch_recognized :: "path list"
  batch_counts :: "skip_reason \<rightharpoonup> nat"
  batch_selected :: "path list"
  batch_loose :: "string list"

definition note_path :: "toolset \<Rightarrow> routing_policy \<Rightarrow> path \<Rightarrow> path \<Rightarrow> archive_batch \<Rightarrow> archive_batch" where
  "note_path ts policy root p b =
     (if \<not> names_an_archive policy p then
        let game = relative_game_path root p in
        if list_ex (\<lambda>l. ts_key ts l = ts_key ts game) (batch_loose b) then b
        else b\<lparr>batch_loose := batch_loose b @ [game]\<rparr>
      else if p \<in> set (batch_recognized b) then b
      else
        let seen = b\<lparr>batch_recognized := batch_recognized b @ [p]\<rparr> in
        case route policy p of
          Routed _ \<Rightarrow> seen\<lparr>batch_selected := batch_selected b @ [p]\<rparr>
        | Skipped a \<Rightarrow> seen\<lparr>batch_counts := bump_count (skipped_reason a) (batch_counts b)\<rparr>
        | Unsupported \<Rightarrow> seen)"

definition batch_root :: "toolset \<Rightarrow> path \<Rightarrow> archive_batch \<Rightarrow> root_archives" where
  "batch_root ts root b =
     \<lparr>archives_root = root,
      selected_archives =
        sort_key (\<lambda>p. archive_order_key (ts_lower ts) (relative_game_path root p)) (batch_selected b),
      loose_paths = batch_loose b\<rparr>"

fun archive_pass ::
    "toolset \<Rightarrow> routing_policy \<Rightarrow> path list \<Rightarrow> archive_batch \<Rightarrow> root_archives list
       \<Rightarrow> ('e, bool \<times> archive_batch \<times> root_archives list) run_action" where
  "archive_pass ts policy [] b found = return (True, b, found)"
| "archive_pass ts policy (root # roots) b found =
     andThen (walk_root ts DiscoveringArchives root) (\<lambda>(complete, files).
       let b' = fold (note_path ts policy root) files (b\<lparr>batch_selected := [], batch_loose := []\<rparr>) in
       if \<not> complete then return (False, b', found)
       else archive_pass ts policy roots b' (found @ [batch_root ts root b']))"

definition empty_batch :: archive_batch where
  "empty_batch =
     \<lparr>batch_recognized = [], batch_counts = Map.empty, batch_selected = [], batch_loose = []\<rparr>"

definition record_capacity_warning :: "run_diagnostic \<Rightarrow> ('e, unit) run_action" where
  "record_capacity_warning w = on_evidence (record_diagnostic w)"

definition discover_archives ::
    "toolset \<Rightarrow> run_preparation \<Rightarrow> (error, (path list \<times> extraction_plan list) flow) run_action" where
  "discover_archives ts prep =
     andThen (record_fact (record_phase (executed DiscoveringArchives None))) (\<lambda>_.
     andThen (archive_pass ts (prep_policy prep) (prep_mod_roots prep) empty_batch []) (\<lambda>(complete, b, roots).
     andThen (record_fact (record_skipped_archive_counts (batch_counts b))) (\<lambda>_.
     if \<not> complete then return (Break Halted)
     else
     andThen (preflight_archives ts (prep_precedence prep) roots) (\<lambda>p.
     case p of
       preflight.Failed f \<Rightarrow> andThen (on_evidence (record_failure f)) (\<lambda>_. return (Break Halted))
     | preflight.Cancelled \<Rightarrow> return (Break Halted)
     | preflight.Planned plans collisions w \<Rightarrow>
         andThen (record_fact (record_archive_collisions collisions)) (\<lambda>_.
         andThen (case w of None \<Rightarrow> return () | Some x \<Rightarrow> record_capacity_warning x) (\<lambda>_.
         return (Continue (batch_recognized b, plans))))))))"

subsection \<open>Extracting Archives\<close>

text \<open>What follows a loop that may have been left: otherwise the token is read once more.\<close>

definition continue_unless_stopped :: "stop option \<Rightarrow> ('e, unit flow) run_action" where
  "continue_unless_stopped left =
     (case left of
        Some why \<Rightarrow> return (Break why)
      | None \<Rightarrow> andThen stop_requested (\<lambda>stop. return (if stop then Break Halted else Continue ())))"

definition planned_extraction_of :: "source_cleanup \<Rightarrow> extraction_plan \<Rightarrow> planned_archive_extraction" where
  "planned_extraction_of cleanup plan =
     \<lparr>planned_archive_extraction.planned_archive = ArchivePreflight.plan_archive plan, planned_root = plan_root plan,
      entry_count = length (plan_entries plan), winner_count = length (merge_entries plan),
      planned_capacity = plan_bytes plan, deletes_source_archive = (cleanup = Remove)\<rparr>"

definition plan_archive_extractions ::
    "extraction_plan list \<Rightarrow> source_cleanup \<Rightarrow> (error, unit flow) run_action" where
  "plan_archive_extractions plans cleanup =
     andThen (record_fact (record_phase (planned ExtractingArchives))) (\<lambda>_.
     andThen stop_requested (\<lambda>stop.
     if stop then return (Break Halted)
     else
     andThen (for_each (\<lambda>plan.
        andThen (record_fact (record_planned_extraction (planned_extraction_of cleanup plan)))
          (\<lambda>_. return None)) plans) continue_unless_stopped))"

definition extract_one :: "toolset \<Rightarrow> source_cleanup \<Rightarrow> extraction_plan \<Rightarrow> (error, stop option) run_action" where
  "extract_one ts cleanup plan =
     andThen stop_requested (\<lambda>stop.
     if stop then return (Some Halted)
     else
     andThen (extract_planned ts plan cleanup) (\<lambda>attempt.
     andThen (record_fact (record_attempt_progress extraction_attempt
                (attempt\<lparr>extraction_root := plan_root plan\<rparr>))) (\<lambda>_.
     return (if safe_to_continue (extraction_outcome attempt) then None else Some Halted))))"

definition extract_archives ::
    "toolset \<Rightarrow> execution_mode \<Rightarrow> extraction_plan list \<Rightarrow> source_cleanup \<Rightarrow> (error, unit flow) run_action" where
  "extract_archives ts mode plans cleanup =
     andThen stop_requested (\<lambda>stop.
     if stop then return (Break Halted)
     else if mode = DryRun then plan_archive_extractions plans cleanup
     else
     andThen (record_fact (open_archive_extraction (length plans))) (\<lambda>_.
     andThen stop_requested (\<lambda>stop.
     if stop then return (Break Halted)
     else if plans = [] then return (Continue ())
     else andThen (for_each (extract_one ts cleanup) plans) continue_unless_stopped)))"

subsection \<open>Building the Effective Asset Tree\<close>

text \<open>The visitor of the definitive pass: nested Archives are counted, other paths are routed.\<close>

record effective_tree =
  nested_archives :: "path list"
  effective_paths :: "path list"

definition note_effective :: "routing_policy \<Rightarrow> path list \<Rightarrow> path \<Rightarrow> effective_tree \<Rightarrow> effective_tree" where
  "note_effective policy known p t =
     (if names_an_archive policy p
      then if p \<in> set known \<or> p \<in> set (nested_archives t) then t
           else t\<lparr>nested_archives := nested_archives t @ [p]\<rparr>
      else t\<lparr>effective_paths := effective_paths t @ [p]\<rparr>)"

fun definitive_pass ::
    "toolset \<Rightarrow> routing_policy \<Rightarrow> path list \<Rightarrow> path list \<Rightarrow> effective_tree
       \<Rightarrow> ('e, bool \<times> effective_tree) run_action" where
  "definitive_pass ts policy known [] t = return (True, t)"
| "definitive_pass ts policy known (root # roots) t =
     andThen (walk_root ts BuildingEffectiveAssetTree root) (\<lambda>(complete, files).
       let t' = fold (note_effective policy known) files t in
       if \<not> complete then return (False, t')
       else definitive_pass ts policy known roots t')"

definition build_effective_asset_tree ::
    "toolset \<Rightarrow> run_preparation \<Rightarrow> path list \<Rightarrow> (error, routing_ledger flow) run_action" where
  "build_effective_asset_tree ts prep known =
     andThen (record_fact (record_phase (executed BuildingEffectiveAssetTree None))) (\<lambda>_.
     andThen stop_requested (\<lambda>stop.
     if stop then return (Break Halted)
     else
     andThen (definitive_pass ts (prep_policy prep) known (prep_mod_roots prep)
                \<lparr>nested_archives = [], effective_paths = []\<rparr>) (\<lambda>(complete, t).
     if \<not> complete then return (Break Halted)
     else
     andThen (record_fact (record_nested_archive_count (length (nested_archives t)))) (\<lambda>_.
     return (Continue (route_all (prep_policy prep) (effective_paths t)))))))"

subsection \<open>Processing Assets\<close>

text \<open>
  \<open>max_by_key\<close> keeps the last of the longest roots; the length is that of the root's text.
\<close>

fun longest_root :: "path option \<Rightarrow> path list \<Rightarrow> path option" where
  "longest_root best [] = best"
| "longest_root best (root # roots) =
     longest_root
       (case best of
          Some b \<Rightarrow> if length (path_text root) < length (path_text b) then Some b else Some root
        | None \<Rightarrow> Some root) roots"

definition attributed_mod_root :: "path option \<Rightarrow> path \<Rightarrow> path list \<Rightarrow> path option" where
  "attributed_mod_root answer p roots =
     (let resolved = (case answer of Some r \<Rightarrow> r | None \<Rightarrow> p)
      in longest_root None (filter (starts_with resolved) roots))"

text \<open>The two results the run itself gives: an Asset outside every root, and a contained panic.\<close>

definition unattempted :: "string \<Rightarrow> path \<Rightarrow> asset_execution_result" where
  "unattempted what p =
     with_path p (with_safe_to_continue False (with_mutation MPartialOrUnknown
       (asset_failed BackendException what)))"

text \<open>An attempt through the port, with what it retains and reads; \<open>None\<close> when the backend cancelled.\<close>

definition attempt_through_port ::
    "toolset \<Rightarrow> routed_asset \<Rightarrow> path \<Rightarrow> ('e, asset_execution_result option) run_action" where
  "attempt_through_port ts asset root = (\<lambda>s.
     let a = ts_attempt ts (run_calls s) asset root in
     (Done (case answer_result a of
              Returned (Ok result) \<Rightarrow> Some result
            | Returned (Err _) \<Rightarrow> None
            | Panicked what \<Rightarrow> Some (unattempted what (execution_path asset))),
      s\<lparr>run_evidence := fold retain_diagnostic (answer_retained a) (run_evidence s),
        run_token := map_option (\<lambda>n. n - answer_reads a) (run_token s),
        run_calls := run_calls s @ [AttemptAsset asset root]\<rparr>))"

definition process_asset :: "toolset \<Rightarrow> path list \<Rightarrow> routed_asset \<Rightarrow> (error, stop option) run_action" where
  "process_asset ts roots asset =
     andThen stop_requested (\<lambda>stop.
     if stop then return (Some Halted)
     else
     andThen (ask_run (ResolveAsset (execution_path asset)) (\<lambda>h. ts_resolve ts h (execution_path asset))) (\<lambda>answer.
     andThen (case attributed_mod_root answer (execution_path asset) roots of
                None \<Rightarrow> return (Some ([], unattempted ''Routed Asset is outside prepared Mod Roots''
                                           (execution_path asset)))
              | Some root \<Rightarrow>
                  andThen (attempt_through_port ts asset root) (\<lambda>r. return (map_option (Pair root) r))) (\<lambda>attempt.
     case attempt of
       None \<Rightarrow> return (Some BackendCancelled)
     | Some (root, result) \<Rightarrow>
         andThen (record_fact (record_attempt_progress asset_attempt
                    \<lparr>attempt_root = root, attempt_asset = asset, attempt_result = result\<rparr>)) (\<lambda>_.
         return (if safe_to_continue (asset_outcome result) then None else Some Halted)))))"

definition assets_in_order :: "routing_ledger \<Rightarrow> routed_asset list" where
  "assets_in_order ledger = List.maps (routed_assets_for ledger) [TTexture, TMesh, TAnimation]"

definition process_assets ::
    "toolset \<Rightarrow> run_preparation \<Rightarrow> routing_ledger \<Rightarrow> (error, unit flow) run_action" where
  "process_assets ts prep ledger =
     andThen (record_fact (open_processing_assets ledger)) (\<lambda>_.
     andThen (for_each (process_asset ts (prep_mod_roots prep)) (assets_in_order ledger))
       continue_unless_stopped)"

subsection \<open>Archive Finalization\<close>

definition record_planned_outputs :: "planned_output_archive list \<Rightarrow> (error, unit flow) run_action" where
  "record_planned_outputs outs =
     andThen (record_fact (record_output_plan_basis EstimateFromModRootsAsTheyAre)) (\<lambda>_.
     andThen (for_each (\<lambda>out. andThen (record_fact (record_planned_output out)) (\<lambda>_. return None)) outs)
       (\<lambda>_ :: unit option. return (Continue ())))"

definition plan_archive_finalization_phase ::
    "toolset \<Rightarrow> run_preparation \<Rightarrow> archive_finalization_choices \<Rightarrow> (error, unit flow) run_action" where
  "plan_archive_finalization_phase ts prep choices =
     andThen (record_fact (record_phase (planned ArchiveFinalization))) (\<lambda>_.
     andThen stop_requested (\<lambda>stop.
     if stop then return (Break Halted)
     else
     andThen (within_finalization PlanCreation
                (\<lambda>h. plan_archive_creation (finalization_seams ts h) choices prep)) (\<lambda>planned.
     case planned of
       NotRequested \<Rightarrow> return (Continue ())
     | CreationPlanned outs w \<Rightarrow>
         andThen (case w of None \<Rightarrow> return () | Some x \<Rightarrow> record_capacity_warning x) (\<lambda>_.
         record_planned_outputs outs)
     | CreationCancelled \<Rightarrow> return (Break Halted)
     | CreationFailed what \<Rightarrow>
         andThen (on_evidence (record_failure
                    (new_run_failure ArchiveCreationPlanningFailed ArchiveFinalization what)))
           (\<lambda>_. return (Break Halted)))))"

definition finalize_archives_phase ::
    "toolset \<Rightarrow> run_preparation \<Rightarrow> execution_mode \<Rightarrow> archive_finalization_choices
       \<Rightarrow> (error, unit flow) run_action" where
  "finalize_archives_phase ts prep mode choices =
     andThen (on_evidence publish_diagnostics) (\<lambda>_.
     andThen stop_requested (\<lambda>stop.
     if stop then return (Break Halted)
     else if mode = DryRun then plan_archive_finalization_phase ts prep choices
     else
     andThen (record_fact open_archive_finalization) (\<lambda>_.
     andThen stop_requested (\<lambda>stop.
     if stop then return (Break Halted)
     else
     andThen (within_finalization FinalizeArchives
                (\<lambda>h. finalize_archives (finalization_seams ts h) choices prep)) (\<lambda>_.
     return (Continue ()))))))"

subsection \<open>The chain of the work phases\<close>

definition chain :: "('e, 'a flow) run_action \<Rightarrow> ('a \<Rightarrow> ('e, 'b flow) run_action) \<Rightarrow> ('e, 'b flow) run_action" where
  "chain m f =
     andThen m (\<lambda>r. case r of Continue x \<Rightarrow> f x | Break why \<Rightarrow> return (Break why))"

definition run_work_phases ::
    "run_preparation \<Rightarrow> work_choices \<Rightarrow> toolset \<Rightarrow> (error, unit flow) run_action" where
  "run_work_phases prep choices ts =
     (let mode = policy_mode (prep_policy prep) in
      andThen (change_state (\<lambda>s. s\<lparr>run_diagnosed := []\<rparr>)) (\<lambda>_.
      chain (discover_archives ts prep) (\<lambda>(known, plans).
      chain (extract_archives ts mode plans (archive_extraction choices)) (\<lambda>_.
      chain (build_effective_asset_tree ts prep known) (\<lambda>ledger.
      chain (process_assets ts prep ledger) (\<lambda>_.
      finalize_archives_phase ts prep mode (archive_finalization choices)))))))"

end
