(* ===== verification/Executor.thy ===== *)
theory Executor
  imports WorkPhases
begin

text \<open>
  The Run Executor (\<open>run/executor.rs\<close>): Preparing, the traversal of the phases, Safety Cleanup exactly
  once on every path, and the classification of the sealed evidence. The services it borrows answer
  from the calls the run made before.
\<close>

text \<open>
  \<open>sv_prepare_root\<close> is the registry's \<open>prepare_root\<close>: its answer, and how often it read the token.
  The two cleanups are the registry's and the injected service's.
\<close>

record run_services =
  sv_observations :: "sink option"
  sv_configuration ::
    "(run_call list \<Rightarrow> run_request \<Rightarrow> (error + selected_profile \<times> toolset) call) option"
  sv_selection :: "run_call list \<Rightarrow> selection_view"
  sv_prepare_root :: "run_call list \<Rightarrow> path \<Rightarrow> (string + run_failure option) call \<times> nat"
  sv_clean_artifacts :: "run_call list \<Rightarrow> (error + run_failure list) call"
  sv_safety_cleanup :: "run_call list \<Rightarrow> (error + run_failure list) call"

subsection \<open>Preparing\<close>

definition load_selected_profile ::
    "run_request \<Rightarrow> run_services \<Rightarrow> (run_failure, selected_profile \<times> toolset) run_action" where
  "load_selected_profile request sv =
     (let failure = new_run_failure ConfigurationLoadingFailed Preparing in
      case sv_configuration sv of
        None \<Rightarrow> raise (failure ''No run configuration provider is available'')
      | Some load \<Rightarrow>
          andThen (ask_run LoadConfiguration (\<lambda>h. load h request)) (\<lambda>answer.
          case answer of
            Returned (Ok loaded) \<Rightarrow> return loaded
          | Returned (Err e) \<Rightarrow> raise (failure (error_text e))
          | Panicked what \<Rightarrow> raise (failure (''The configuration provider panicked: '' @ what))))"

definition resolve_selection ::
    "run_services \<Rightarrow> run_request \<Rightarrow> selected_profile \<Rightarrow> (run_failure, path list) run_action" where
  "resolve_selection sv request profile = (\<lambda>s.
     case resolve_mod_roots (sv_selection sv (run_calls s)) (mod_selection request) profile
            (run_evidence s) (run_token s) of
       (r, ev, t) \<Rightarrow>
         (case r of Err f \<Rightarrow> Raise f | Ok roots \<Rightarrow> Done roots,
          s\<lparr>run_evidence := ev, run_token := t, run_calls := run_calls s @ [ReadSelection]\<rparr>))"

definition policy_conflict :: "policy_validation_error list \<Rightarrow> run_failure" where
  "policy_conflict conflicts =
     (new_run_failure PolicyConflict Preparing
        ''The loaded profile conflicts with the requested Routing Policy'')\<lparr>policy_conflicts := conflicts\<rparr>"

definition prepare_run ::
    "run_request \<Rightarrow> run_services \<Rightarrow> (run_failure, (run_preparation \<times> toolset) option) run_action" where
  "prepare_run request sv =
     andThen (load_selected_profile request sv) (\<lambda>(profile, ts).
     andThen stop_requested (\<lambda>stop.
     if stop then return None
     else
       case compile_policy profile (for_work (request_execution_mode request) (requested_work request)) of
         Err conflicts \<Rightarrow> raise (policy_conflict conflicts)
       | Ok policy \<Rightarrow>
           andThen (resolve_selection sv request profile) (\<lambda>roots.
           andThen stop_requested (\<lambda>stop.
           return (if stop then None
                   else Some (\<lparr>prep_mod_roots = roots, prep_profile = profile, prep_policy = policy,
                                prep_precedence = request_precedence request\<rparr>, ts))))))"

text \<open>One root of the Apply Preparing: \<open>Some\<close> leaves the loop, with the failure if there was one.\<close>

definition prepare_root :: "run_services \<Rightarrow> path \<Rightarrow> ('e, run_failure option option) run_action" where
  "prepare_root sv root =
     andThen stop_requested (\<lambda>stop.
     if stop then return (Some None)
     else (\<lambda>s.
       case sv_prepare_root sv (run_calls s) root of
         (answer, polls) \<Rightarrow>
           (case answer of
              Panicked what \<Rightarrow> Panic what
            | Returned (Ok None) \<Rightarrow> Done None
            | Returned (Ok (Some f)) \<Rightarrow> Done (Some (Some f))
            | Returned (Err what) \<Rightarrow>
                Done (Some (Some (new_run_failure StagingOwnershipUnverified Preparing what))),
            s\<lparr>run_token := map_option (\<lambda>n. n - polls) (run_token s),
              run_calls := run_calls s @ [PrepareRoot root]\<rparr>)))"

subsection \<open>Traversal\<close>

text \<open>\<open>note\<close>: a violation is remembered, the first one only, and the traversal goes on.\<close>

definition note_fact :: "(evidence \<Rightarrow> step_result) \<Rightarrow> ('e, unit) run_action" where
  "note_fact step = change_state (\<lambda>s. case step (run_evidence s) of
     (None, ev) \<Rightarrow> s\<lparr>run_evidence := ev\<rparr>
   | (Some e, ev) \<Rightarrow>
       s\<lparr>run_evidence := ev,
         run_violation := (case run_violation s of None \<Rightarrow> Some e | Some first \<Rightarrow> Some first)\<rparr>)"

definition reached_phase :: "evidence \<Rightarrow> run_phase" where
  "reached_phase ev = (case current_phase (storage_of ev) of None \<Rightarrow> Preparing | Some p \<Rightarrow> p)"

definition fail_at_current_phase :: "string \<Rightarrow> ('e, unit) run_action" where
  "fail_at_current_phase what =
     on_evidence (\<lambda>ev. record_failure (new_run_failure RunWorkEscaped (reached_phase ev) what) ev)"

definition escaped_work_detail :: "(error, unit flow) outcome \<Rightarrow> ('e, string option) run_action" where
  "escaped_work_detail outcome =
     (case outcome of
        Done _ \<Rightarrow> return None
      | Raise (EvidenceInvariant what) \<Rightarrow>
          andThen (note_fact (\<lambda>ev. (Some (EvidenceInvariant what), ev))) (\<lambda>_. return None)
      | Raise e \<Rightarrow> return (Some (error_text e))
      | Panic what \<Rightarrow> return (Some (''The run's work escaped with a panic: '' @ what)))"

type_synonym run_work = "run_preparation \<Rightarrow> work_choices \<Rightarrow> toolset \<Rightarrow> (error, unit flow) run_action"

definition run_the_work :: "run_work \<Rightarrow> run_request \<Rightarrow> run_preparation \<Rightarrow> toolset \<Rightarrow> ('e, bool) run_action" where
  "run_the_work work request prep ts =
     andThen (catch_unwind (work prep (request_choices request) ts)) (\<lambda>outcome.
     andThen (escaped_work_detail outcome) (\<lambda>escaped.
     andThen (case escaped of None \<Rightarrow> return () | Some what \<Rightarrow> fail_at_current_phase what) (\<lambda>_.
     return (outcome = Done (Break BackendCancelled)))))"

definition skip_work_phases :: "('e, bool) run_action" where
  "skip_work_phases =
     andThen (for_each (\<lambda>p.
        andThen stop_requested (\<lambda>stop.
        if stop then return (Some ())
        else andThen (note_fact (record_phase (skipped p NoRequestedWork))) (\<lambda>_. return None)))
       work_phase_sequence)
     (\<lambda>_. return False)"

definition prepare_roots ::
    "run_services \<Rightarrow> execution_mode \<Rightarrow> (run_preparation \<times> toolset) option \<Rightarrow> ('e, bool) run_action" where
  "prepare_roots sv mode prepared =
     (case prepared of
        None \<Rightarrow> return False
      | Some (prep, _) \<Rightarrow>
          if mode \<noteq> Apply then return False
          else andThen (for_each (prepare_root sv) (prep_mod_roots prep)) (\<lambda>left.
            case left of
              Some (Some f) \<Rightarrow> andThen (on_evidence (record_failure f)) (\<lambda>_. return True)
            | _ \<Rightarrow> return False))"

definition traverse :: "run_services \<Rightarrow> run_work \<Rightarrow> run_request \<Rightarrow> (unit, bool) run_action" where
  "traverse sv work request =
     andThen (note_fact (record_phase (executed Preparing None))) (\<lambda>_.
     andThen stop_requested (\<lambda>stop.
     andThen (if stop then return (Ok None) else try_action (prepare_run request sv)) (\<lambda>answer.
     andThen (case answer of Err f \<Rightarrow> on_evidence (record_failure f) | Ok _ \<Rightarrow> return ()) (\<lambda>_.
     andThen (case answer of
                Err _ \<Rightarrow> return True
              | Ok prepared \<Rightarrow> prepare_roots sv (request_execution_mode request) prepared) (\<lambda>failed.
     andThen (case answer of
                Ok (Some x) \<Rightarrow>
                  if failed then return None
                  else andThen stop_requested (\<lambda>stop. return (if stop then None else Some x))
              | _ \<Rightarrow> return None) (\<lambda>kept.
     andThen (case kept of
                Some (prep, _) \<Rightarrow> note_fact (record_preparation prep)
              | None \<Rightarrow> return ()) (\<lambda>_.
     if failed then return False
     else andThen stop_requested (\<lambda>stop.
       if stop then return False
       else case kept of
              Some (prep, ts) \<Rightarrow>
                if has_requested_work request then run_the_work work request prep ts else skip_work_phases
            | None \<Rightarrow> skip_work_phases))))))))"

subsection \<open>Safety Cleanup and the terminal result\<close>

definition collect_safety_cleanup_failures :: "(error + run_failure list) call \<Rightarrow> run_failure list" where
  "collect_safety_cleanup_failures answer =
     (let service_failure = (\<lambda>what. [new_run_failure SafetyCleanupServiceFailed SafetyCleanup what]) in
      case answer of
        Returned (Ok failed) \<Rightarrow> failed
      | Returned (Err e) \<Rightarrow> service_failure (error_text e)
      | Panicked what \<Rightarrow> service_failure (''The cleanup service panicked: '' @ what))"

definition classify_terminal_outcome :: "storage \<Rightarrow> run_outcome" where
  "classify_terminal_outcome s =
     (let unsafe_finalization =
            (case archive_finalization_of s of None \<Rightarrow> False | Some r \<Rightarrow> \<not> fin_safe r);
          failed_finalization =
            (case archive_finalization_of s of None \<Rightarrow> False | Some r \<Rightarrow> fin_failure r \<noteq> None);
          unsafe_work =
            (failures s \<noteq> [] \<or> unsafe_finalization
             \<or> list_ex (\<lambda>a. \<not> facts_safe (completed_facts a)) (completed_attempts s));
          contained_failure =
            (failed_finalization
             \<or> list_ex (\<lambda>a. \<not> facts_succeeded (completed_facts a)) (completed_attempts s))
      in if unsafe_work then OutFailed
         else if cancellation_observed s then OutCancelled
         else if list_ex (\<lambda>f. failure_code f = SafetyCleanupServiceFailed) (cleanup_failures s)
         then OutFailed
         else if contained_failure \<or> cleanup_failures s \<noteq> [] then OutCompletedWithFailures
         else OutSucceeded)"

record run_result =
  result_outcome :: run_outcome
  result_final_phase :: run_phase
  result_evidence :: storage

definition seal :: "evidence \<Rightarrow> run_phase \<Rightarrow> string + run_result" where
  "seal ev final =
     (case consume ev of
        Err e \<Rightarrow> Err (error_text e)
      | Ok sealed \<Rightarrow>
          Ok \<lparr>result_outcome = classify_terminal_outcome sealed, result_final_phase = final,
              result_evidence = sealed\<rparr>)"

text \<open>
  How the executor is left: with its result, with the invariant panic that carries the sealed
  result, or with the panic of a failed sealing.
\<close>

datatype executed_run = RunReturned run_result | RunViolated string run_result | RunPanicked string

definition run_worker_panic_detail :: "string \<Rightarrow> string" where
  "run_worker_panic_detail what = ''The run's work escaped with a Run Worker panic: '' @ what"

definition contained_traversal :: "run_services \<Rightarrow> run_work \<Rightarrow> run_request \<Rightarrow> (unit, bool) run_action" where
  "contained_traversal sv work request =
     andThen (catch_unwind (traverse sv work request)) (\<lambda>traversal.
     case traversal of
       Done backend_cancelled \<Rightarrow> return backend_cancelled
     | Raise _ \<Rightarrow> return False
     | Panic what \<Rightarrow>
         andThen (fail_at_current_phase (run_worker_panic_detail what)) (\<lambda>_. return False))"

definition safety_cleanup :: "run_services \<Rightarrow> ('e, unit) run_action" where
  "safety_cleanup sv =
     andThen (note_fact (record_phase (executed SafetyCleanup None))) (\<lambda>_.
     andThen (ask_run CleanArtifacts (sv_clean_artifacts sv)) (\<lambda>artifacts.
     andThen (ask_run CleanWithService (sv_safety_cleanup sv)) (\<lambda>service.
     andThen (for_each (\<lambda>f. andThen (note_fact (record_safety_cleanup_failure f)) (\<lambda>_. return None))
               (collect_safety_cleanup_failures artifacts @ collect_safety_cleanup_failures service))
       (\<lambda>_ :: unit option. return ()))))"

definition run_to_cleanup ::
    "run_services \<Rightarrow> run_work \<Rightarrow> run_request \<Rightarrow> (unit, run_phase) run_action" where
  "run_to_cleanup sv work request =
     andThen (contained_traversal sv work request) (\<lambda>backend_cancelled.
     andThen (on_evidence publish_diagnostics) (\<lambda>_.
     andThen (read_state (\<lambda>s. reached_phase (run_evidence s))) (\<lambda>final.
     andThen (safety_cleanup sv) (\<lambda>_.
     andThen stop_requested (\<lambda>stop.
     andThen (if stop \<or> backend_cancelled then on_evidence record_cancellation_observation else return ()) (\<lambda>_.
     return final))))))"

definition begin_run :: "run_services \<Rightarrow> token \<Rightarrow> running" where
  "begin_run sv t =
     \<lparr>run_evidence = new_evidence (sv_observations sv), run_token = t,
      run_checks = \<lparr>frozen = Map.empty, probe_calls = 0\<rparr>, run_diagnosed = [], run_calls = [],
      run_violation = None\<rparr>"

definition conclude :: "run_phase \<Rightarrow> running \<Rightarrow> executed_run" where
  "conclude final s =
     (case run_violation s of
        None \<Rightarrow>
          (case seal (run_evidence s) final of Ok r \<Rightarrow> RunReturned r | Err what \<Rightarrow> RunPanicked what)
      | Some e \<Rightarrow>
          let violation = error_text e in
          (case seal (retain_failure (new_run_failure RunWorkEscaped final violation) (run_evidence s)) final of
             Ok r \<Rightarrow> RunViolated violation r
           | Err what \<Rightarrow> RunPanicked what))"

definition execute_with_work ::
    "run_services \<Rightarrow> run_work \<Rightarrow> run_request \<Rightarrow> token \<Rightarrow> executed_run \<times> running" where
  "execute_with_work sv work request t =
     (case run_to_cleanup sv work request (begin_run sv t) of
        (Done final, s) \<Rightarrow> (conclude final s, s)
      | (Raise _, s) \<Rightarrow> (RunPanicked [], s)
      | (Panic what, s) \<Rightarrow> (RunPanicked what, s))"

definition execute :: "run_services \<Rightarrow> run_request \<Rightarrow> token \<Rightarrow> executed_run \<times> running" where
  "execute sv request t = execute_with_work sv run_work_phases request t"

subsection \<open>Runs that never got a worker\<close>

text \<open>The evidence of such a run, before it is sealed: \<open>cleanup\<close> answers its Safety Cleanup, if it has one.\<close>

definition terminal_evidence ::
    "run_failure \<Rightarrow> (error + run_failure list) call option \<Rightarrow> sink option \<Rightarrow> token \<Rightarrow> evidence" where
  "terminal_evidence f cleanup sink t =
     (let ev = snd (record_phase (executed SafetyCleanup None) (record_failure f (new_evidence sink)));
          failed = (case cleanup of None \<Rightarrow> [] | Some answer \<Rightarrow> collect_safety_cleanup_failures answer);
          cleaned = fold (\<lambda>f ev. snd (record_safety_cleanup_failure f ev)) failed ev
      in if fst (is_cancelled t) then record_cancellation_observation cleaned else cleaned)"

definition terminal_failure ::
    "run_failure \<Rightarrow> (error + run_failure list) call option \<Rightarrow> sink option \<Rightarrow> run_phase \<Rightarrow> token
       \<Rightarrow> string + run_result" where
  "terminal_failure f cleanup sink final t = seal (terminal_evidence f cleanup sink t) final"

definition scheduling_failure ::
    "string \<Rightarrow> (error + run_failure list) call \<Rightarrow> sink option \<Rightarrow> token \<Rightarrow> string + run_result" where
  "scheduling_failure what cleanup sink t =
     terminal_failure (new_run_failure SchedulingFailed Preparing what) (Some cleanup) sink Preparing t"

end
