(* ===== verification/RunStages.thy ===== *)
theory RunStages
  imports Executor
begin

text \<open>
  The stages of a run as its evidence shows them, and the recording steps the executor is sure to
  have accepted in each. A run triple states what an action does to the evidence: it is never left
  by an error, and whichever way it is left no Run Evidence violation is noted.
\<close>

subsection \<open>What a recording step passes on\<close>

definition passed_on :: "storage \<Rightarrow> storage \<Rightarrow> bool" where
  "passed_on s s' =
     (preparation s' = preparation s \<and> failures s' = failures s
      \<and> archive_extraction_attempts s' = archive_extraction_attempts s
      \<and> stored_ledger s' = stored_ledger s \<and> asset_attempts s' = asset_attempts s)"

lemma passed_on_refl [simp]: "passed_on s s"
  by (simp add: passed_on_def)

lemma passed_on_trans: "passed_on a b \<Longrightarrow> passed_on b c \<Longrightarrow> passed_on a c"
  by (simp add: passed_on_def)

lemma passed_on_finalization [simp]:
  "passed_on s (s\<lparr>archive_finalization_of := r\<rparr>)"
  "passed_on s (s\<lparr>archive_finalization_of := r, cancellation_observed := c, archive_finalization_completed := d\<rparr>)"
  by (simp_all add: passed_on_def)

lemma current_phase_same: "phases s' = phases s \<Longrightarrow> current_phase s' = current_phase s"
  by (simp add: current_phase_def last_record_def)

lemma accept_phase_leaves:
  shows "passed_on (storage_of ev) (storage_of (snd (accept_phase r ev)))"
    and "current_phase (storage_of (snd (accept_phase r ev))) \<in> {Some (record_of r), current_phase (storage_of ev)}"
    and "archive_finalization_of (storage_of (snd (accept_phase r ev))) = archive_finalization_of (storage_of ev)"
    and "archive_finalization_completed (storage_of (snd (accept_phase r ev))) = archive_finalization_completed (storage_of ev)"
proof -
  have "passed_on (storage_of ev) (storage_of (snd (accept_phase r ev)))
     \<and> current_phase (storage_of (snd (accept_phase r ev))) \<in> {Some (record_of r), current_phase (storage_of ev)}
     \<and> archive_finalization_of (storage_of (snd (accept_phase r ev))) = archive_finalization_of (storage_of ev)
     \<and> archive_finalization_completed (storage_of (snd (accept_phase r ev))) = archive_finalization_completed (storage_of ev)"
  proof (cases "acceptable r (storage_of ev)")
    case True
    then show ?thesis
      by (simp add: accept_phase_accepted passed_on_def current_phase_def last_record_def)
  qed (simp add: accept_phase_rejected)
  then show "passed_on (storage_of ev) (storage_of (snd (accept_phase r ev)))"
    and "current_phase (storage_of (snd (accept_phase r ev))) \<in> {Some (record_of r), current_phase (storage_of ev)}"
    and "archive_finalization_of (storage_of (snd (accept_phase r ev))) = archive_finalization_of (storage_of ev)"
    and "archive_finalization_completed (storage_of (snd (accept_phase r ev))) = archive_finalization_completed (storage_of ev)"
    by blast+
qed

subsection \<open>Archive Finalization keeps the other facts\<close>

definition finalizes :: "finalizing \<Rightarrow> finalizing \<Rightarrow> bool" where
  "finalizes s s' =
     (passed_on (storage_of (fz_evidence s)) (storage_of (fz_evidence s'))
      \<and> (current_phase (storage_of (fz_evidence s)) = Some ArchiveFinalization \<longrightarrow>
         current_phase (storage_of (fz_evidence s')) = Some ArchiveFinalization))"

interpretation finalizing: frame finalizes
  by unfold_locales (auto simp: finalizes_def intro: passed_on_trans)

lemma quiet_finalizes: "steps same_evidence m \<Longrightarrow> steps finalizes m"
  by (erule steps_mono) (simp add: same_evidence_def finalizes_def)

lemma record_step_finalizes:
  assumes "\<And>ev. passed_on (storage_of ev) (storage_of (snd (step ev)))
     \<and> (current_phase (storage_of ev) = Some ArchiveFinalization \<longrightarrow>
        current_phase (storage_of (snd (step ev))) = Some ArchiveFinalization)"
  shows "steps finalizes (record_step step)"
proof (rule stepsI)
  fix s r s'
  assume "record_step step s = (r, s')"
  then have "fz_evidence s' = snd (step (fz_evidence s))"
    by (auto simp: record_step_def split: prod.splits option.splits)
  then show "finalizes s s'" using assms [of "fz_evidence s"] by (simp add: finalizes_def)
qed

lemma accepting_finalizes:
  assumes "snd (step ev) = ev \<or> (\<exists>f g. snd (step ev) = snd (accept_phase (executed ArchiveFinalization g) (update_storage f ev))
      \<and> passed_on (storage_of ev) (f (storage_of ev)) \<and> phases (f (storage_of ev)) = phases (storage_of ev))"
  shows "passed_on (storage_of ev) (storage_of (snd (step ev)))
     \<and> (current_phase (storage_of ev) = Some ArchiveFinalization \<longrightarrow>
        current_phase (storage_of (snd (step ev))) = Some ArchiveFinalization)"
  using assms
proof (elim disjE exE conjE)
  fix f g
  assume *: "snd (step ev) = snd (accept_phase (executed ArchiveFinalization g) (update_storage f ev))"
    "passed_on (storage_of ev) (f (storage_of ev))" "phases (f (storage_of ev)) = phases (storage_of ev)"
  show ?thesis
    using accept_phase_leaves(1) [where ev = "update_storage f ev" and r = "executed ArchiveFinalization g"]
      accept_phase_leaves(2) [where ev = "update_storage f ev" and r = "executed ArchiveFinalization g"]
      passed_on_trans [OF *(2)] current_phase_same [OF *(3)] unfolding *(1) by auto
qed simp

lemma plan_finalization_accepts:
  "snd (plan_archive_finalization n ev) = ev
   \<or> snd (plan_archive_finalization n ev)
       = snd (accept_phase (executed ArchiveFinalization (Some (determinate n 0 0)))
           (update_storage (\<lambda>s. s\<lparr>archive_finalization_of := Some default_finalization_result\<rparr>) ev))"
  by (simp add: plan_archive_finalization_def Let_def)

lemma record_output_accepts:
  "snd (record_attempt_progress finalization_attempt a ev) = ev
   \<or> (\<exists>g. snd (record_attempt_progress finalization_attempt a ev)
       = snd (accept_phase (executed ArchiveFinalization g) (update_storage (retain finalization_attempt a) ev)))"
  by (auto simp: record_attempt_progress_def Let_def split: option.split)

lemma retain_passes:
  "passed_on s (retain finalization_attempt a s)" "phases (retain finalization_attempt a s) = phases s"
  by (simp_all add: finalization_attempt_def Let_def)

lemma finalization_steps_keep:
  "steps finalizes (record_step (plan_archive_finalization n))"
  "steps finalizes (record_step (record_attempt_progress finalization_attempt a))"
  "steps finalizes (record_step (finish_archive_finalization account))"
proof -
  show "steps finalizes (record_step (plan_archive_finalization n))"
    by (intro record_step_finalizes accepting_finalizes)
      (rule disj_forward [OF plan_finalization_accepts], assumption,
        intro exI conjI, assumption, simp_all)
  show "steps finalizes (record_step (record_attempt_progress finalization_attempt a))"
    by (intro record_step_finalizes accepting_finalizes)
      (rule disj_forward [OF record_output_accepts], assumption, elim exE,
        intro exI conjI, assumption, simp_all add: retain_passes)
  show "steps finalizes (record_step (finish_archive_finalization account))"
    by (rule record_step_finalizes)
      (auto simp: finish_archive_finalization_def Let_def current_phase_def last_record_def split: option.split)
qed

lemma record_shortage_finalizes: "steps finalizes (record_shortage shortage archive)"
  unfolding record_shortage_def
  by (auto intro!: finalizing.rules finalization_steps_keep quiet_finalizes [OF quiet_account(3)] simp: Let_def
      split: option.split)

lemma maintain_finalizes: "steps finalizes (maintain_and_prune env plan)"
proof -
  have "steps finalizes (maintain_root env plan remaining)" for remaining
    unfolding maintain_root_def Let_def
    by (auto intro!: finalizing.rules record_shortage_finalizes quiet_finalizes [OF quiet_maintain]
        quiet_finalizes [OF quiet_capacity(2)] quiet_finalizes [OF quiet_ask(4)]
        quiet_finalizes [OF quiet_account(2)] split: option.split)
  then show ?thesis
    unfolding maintain_and_prune_def
    by (auto intro!: finalizing.rules quiet_finalizes [OF quiet_prune])
qed

lemma finalize_archives_finalizes: "steps finalizes (finalize_archives env choices prep)"
proof -
  have finish: "steps finalizes (\<lambda>s. record_step (finish_archive_finalization (fz_account s)) s)"
    by (rule stepsI) (rule stepsD [OF finalization_steps_keep(3)])
  note quiet = quiet_finalizes [OF quiet_ask(4)] quiet_finalizes [OF quiet_account(1)]
    quiet_finalizes [OF quiet_account(2)] quiet_finalizes [OF quiet_account(3)]
    quiet_finalizes [OF quiet_capacity(1)] quiet_finalizes [OF quiet_prune] quiet_finalizes [OF quiet_attempt]
    quiet_finalizes [OF reads_same_evidence [OF plan_finalization_reads]]
  have "steps finalizes (run_output env plan dummies out)" for plan dummies out
    unfolding run_output_def Let_def
    by (auto intro!: finalizing.rules finalization_steps_keep quiet)
  moreover have "steps finalizes (contained_cleanup env plan)" for plan
    unfolding contained_cleanup_def Let_def
    by (auto intro!: finalizing.rules maintain_finalizes quiet split: outcome.split escape.split)
  ultimately have "steps finalizes (run_outputs env plan dummies)" for plan dummies
    unfolding run_outputs_def by (auto intro!: finalizing.rules quiet)
  then have "steps finalizes (finalize_plan env plan)" for plan
    unfolding finalize_plan_def Let_def
    by (auto intro!: finalizing.rules record_shortage_finalizes quiet split: prod.split capacity_verdict.split)
  then have "steps finalizes (run_finalization_phase env choices prep)"
    unfolding run_finalization_phase_def Let_def
    by (auto intro!: finalizing.rules finalization_steps_keep quiet split: sum.split planning_stop.split)
  then show ?thesis
    unfolding finalize_archives_def Let_def
    by (auto intro!: finalizing.rules quiet finish split: outcome.split escape.split)
qed

subsection \<open>Attempts in order\<close>

text \<open>
  The order of the attempts: a next attempt follows only a safe one, the Assets are attempted in
  the order of the ledger, and Archive Finalization has a result only after every Asset was
  attempted safely.
\<close>

definition extraction_safe :: "archive_extraction_result \<Rightarrow> bool" where
  "extraction_safe a = safe_to_continue (extraction_outcome a)"

definition asset_safe :: "routed_asset_attempt \<Rightarrow> bool" where
  "asset_safe a = safe_to_continue (asset_outcome (attempt_result a))"

definition assets_attempted :: "storage \<Rightarrow> routed_asset list" where
  "assets_attempted s = map attempt_asset (asset_attempts s)"

definition attempts_in_order :: "storage \<Rightarrow> bool" where
  "attempts_in_order s =
     (list_all extraction_safe (butlast (archive_extraction_attempts s))
      \<and> list_all asset_safe (butlast (asset_attempts s))
      \<and> (case stored_ledger s of
           None \<Rightarrow> asset_attempts s = []
         | Some l \<Rightarrow> list_all extraction_safe (archive_extraction_attempts s)
             \<and> assets_attempted s = take (length (asset_attempts s)) (assets_in_order l))
      \<and> (archive_finalization_of s = None
         \<or> map_option assets_in_order (stored_ledger s) = Some (assets_attempted s)
            \<and> list_all asset_safe (asset_attempts s)))"

lemma attempts_in_order_cong:
  assumes "archive_extraction_attempts s' = archive_extraction_attempts s" "asset_attempts s' = asset_attempts s"
    "stored_ledger s' = stored_ledger s" "archive_finalization_of s' = archive_finalization_of s"
  shows "attempts_in_order s' = attempts_in_order s"
  unfolding attempts_in_order_def assets_attempted_def assms ..

definition in_work :: "evidence \<Rightarrow> bool" where
  "in_work ev =
     (reachable ev \<and> current_phase (storage_of ev) \<notin> {None, Some SafetyCleanup}
      \<and> attempts_in_order (storage_of ev))"

subsection \<open>Run triples\<close>

definition triple ::
    "(evidence \<Rightarrow> bool) \<Rightarrow> ('a \<Rightarrow> evidence \<Rightarrow> bool) \<Rightarrow> ('e \<Rightarrow> evidence \<Rightarrow> bool) \<Rightarrow> ('e, 'a) run_action \<Rightarrow> bool"
  where
  "triple P Q E m =
     (\<forall>s. P (run_evidence s) \<longrightarrow>
        (case m s of (r, s') \<Rightarrow> run_violation s' = run_violation s
           \<and> (case r of Done x \<Rightarrow> Q x (run_evidence s') | Raise e \<Rightarrow> E e (run_evidence s')
              | Panic p \<Rightarrow> in_work (run_evidence s'))))"

abbreviation runs ::
    "(evidence \<Rightarrow> bool) \<Rightarrow> ('a \<Rightarrow> evidence \<Rightarrow> bool) \<Rightarrow> ('e, 'a) run_action \<Rightarrow> bool" where
  "runs P Q m \<equiv> triple P Q (\<lambda>_ _. False) m"

lemma tripleI:
  assumes "\<And>s r s'. P (run_evidence s) \<Longrightarrow> m s = (r, s') \<Longrightarrow> run_violation s' = run_violation s
     \<and> (case r of Done x \<Rightarrow> Q x (run_evidence s') | Raise e \<Rightarrow> E e (run_evidence s')
        | Panic p \<Rightarrow> in_work (run_evidence s'))"
  shows "triple P Q E m"
  unfolding triple_def
proof (intro allI impI)
  fix s :: running
  assume P: "P (run_evidence s)"
  obtain r s' where run: "m s = (r, s')" by fastforce
  show "case m s of (r, s') \<Rightarrow> run_violation s' = run_violation s
     \<and> (case r of Done x \<Rightarrow> Q x (run_evidence s') | Raise e \<Rightarrow> E e (run_evidence s')
        | Panic p \<Rightarrow> in_work (run_evidence s'))"
    unfolding run prod.case by (rule assms [OF P run])
qed

lemma tripleD:
  assumes "triple P Q E m" and "P (run_evidence s)" and "m s = (r, s')"
  shows "run_violation s' = run_violation s
     \<and> (case r of Done x \<Rightarrow> Q x (run_evidence s') | Raise e \<Rightarrow> E e (run_evidence s')
        | Panic p \<Rightarrow> in_work (run_evidence s'))"
  using assms unfolding triple_def by fastforce

lemma triple_return: "(\<And>ev. P ev \<Longrightarrow> Q x ev) \<Longrightarrow> triple P Q E (return x)"
  by (simp add: triple_def run_simps)

lemma triple_change:
  "(\<And>s. P (run_evidence s) \<Longrightarrow> Q () (run_evidence (f s)) \<and> run_violation (f s) = run_violation s)
     \<Longrightarrow> triple P Q E (change_state f)"
  by (simp add: triple_def run_simps)

lemma triple_raise: "(\<And>ev. P ev \<Longrightarrow> E e ev) \<Longrightarrow> triple P Q E (raise e)"
  and triple_read: "(\<And>s. P (run_evidence s) \<Longrightarrow> Q (g s) (run_evidence s)) \<Longrightarrow> triple P Q E (read_state g)"
  by (simp_all add: triple_def run_simps)

lemma triple_seq:
  assumes "triple P R E m" and "\<And>x. triple (R x) Q E (f x)"
  shows "triple P Q E (andThen m f)"
proof (rule tripleI)
  fix s r s'
  assume P: "P (run_evidence s)" and run: "andThen m f s = (r, s')"
  show "run_violation s' = run_violation s
     \<and> (case r of Done x \<Rightarrow> Q x (run_evidence s') | Raise e \<Rightarrow> E e (run_evidence s')
        | Panic p \<Rightarrow> in_work (run_evidence s'))"
  proof (cases m s f rule: andThen_cases)
    case (finished x t)
    then show ?thesis
      using tripleD [OF assms(1) P finished(1)] tripleD [OF assms(2), of x t r s'] run by simp
  next
    case (raised e t)
    then show ?thesis using tripleD [OF assms(1) P raised(1)] run by simp
  next
    case (panicked p t)
    then show ?thesis using tripleD [OF assms(1) P panicked(1)] run by simp
  qed
qed

lemma triple_weaken:
  assumes "triple P' Q' E' m" and "\<And>ev. P ev \<Longrightarrow> P' ev" and "\<And>x ev. Q' x ev \<Longrightarrow> Q x ev"
    and "\<And>e ev. E' e ev \<Longrightarrow> E e ev"
  shows "triple P Q E m"
proof (rule tripleI)
  fix s r s'
  assume "P (run_evidence s)" "m s = (r, s')"
  note left = tripleD [OF assms(1) assms(2) [OF this(1)] this(2)]
  show "run_violation s' = run_violation s
     \<and> (case r of Done x \<Rightarrow> Q x (run_evidence s') | Raise e \<Rightarrow> E e (run_evidence s')
        | Panic p \<Rightarrow> in_work (run_evidence s'))"
    using left assms(3,4) by (cases r) simp_all
qed

lemma triple_pure: "(b \<Longrightarrow> triple P Q E m) \<Longrightarrow> triple (\<lambda>ev. P ev \<and> b) Q E m"
  by (simp add: triple_def)

lemma triple_try:
  "triple P Q E m \<Longrightarrow> triple P (\<lambda>r. case r of Ok x \<Rightarrow> Q x | Err e \<Rightarrow> E e) F (try_action m)"
  unfolding triple_def try_action_def by (auto split: prod.splits outcome.splits)

lemma triple_catch:
  "triple P Q E m \<Longrightarrow>
     triple P (\<lambda>r. case r of Done x \<Rightarrow> Q x | Raise e \<Rightarrow> E e | Panic _ \<Rightarrow> in_work) F (catch_unwind m)"
  unfolding triple_def catch_unwind_def by (auto split: prod.splits outcome.splits)

lemma triple_for_each:
  assumes "\<And>i. i < length xs \<Longrightarrow>
      triple (I i) (\<lambda>r. case r of None \<Rightarrow> I (Suc i) | Some v \<Rightarrow> J v) E (body (xs ! i))"
  shows "triple (I 0) (\<lambda>r. case r of None \<Rightarrow> I (length xs) | Some v \<Rightarrow> J v) E (for_each body xs)"
  using assms
proof (induction xs arbitrary: I)
  case Nil
  show ?case by (simp add: triple_def run_simps)
next
  case (Cons x xs)
  have "triple (I (Suc 0)) (\<lambda>r. case r of None \<Rightarrow> I (Suc (length xs)) | Some v \<Rightarrow> J v) E (for_each body xs)"
  proof (rule Cons.IH)
    fix i
    assume "i < length xs"
    then show "triple (I (Suc i)) (\<lambda>r. case r of None \<Rightarrow> I (Suc (Suc i)) | Some v \<Rightarrow> J v) E (body (xs ! i))"
      using Cons.prems [of "Suc i"] by simp
  qed
  moreover have "triple (I 0) (\<lambda>r. case r of None \<Rightarrow> I (Suc 0) | Some v \<Rightarrow> J v) E (body x)"
    using Cons.prems [of 0] by simp
  moreover have "triple (J v) (\<lambda>r. case r of None \<Rightarrow> K | Some v \<Rightarrow> J v) E (return (Some v))" for v K
    by (simp add: triple_def run_simps)
  ultimately show ?case
    unfolding for_each.simps length_Cons by (intro triple_seq) (assumption, simp split: option.split)
qed

subsection \<open>Primitive steps\<close>

lemma triple_stop: "(\<And>ev c. P ev \<Longrightarrow> Q c ev) \<Longrightarrow> triple P Q E stop_requested"
  by (auto simp: triple_def stop_requested_def split: prod.splits)

lemma triple_ask: "(\<And>ev h. P ev \<Longrightarrow> Q (answer h) ev) \<Longrightarrow> triple P Q E (ask_run c answer)"
  by (auto simp: triple_def ask_run_def)

lemma triple_on: "(\<And>ev. P ev \<Longrightarrow> Q () (f ev)) \<Longrightarrow> triple P Q E (on_evidence f)"
  by (auto simp: on_evidence_def intro!: triple_change)

lemma triple_record:
  assumes "\<And>ev. P ev \<Longrightarrow> fst (step ev) = None \<and> Q () (snd (step ev))"
  shows "triple P Q E (record_fact step)"
proof (rule tripleI)
  fix s r s'
  assume "P (run_evidence s)" "record_fact step s = (r, s')"
  with assms [OF this(1)] show "run_violation s' = run_violation s
     \<and> (case r of Done x \<Rightarrow> Q x (run_evidence s') | Raise e \<Rightarrow> E e (run_evidence s')
        | Panic p \<Rightarrow> in_work (run_evidence s'))"
    by (auto simp: record_fact_def split: prod.splits option.splits)
qed

lemma triple_note:
  assumes "\<And>ev. P ev \<Longrightarrow> fst (step ev) = None \<and> Q () (snd (step ev))"
  shows "triple P Q E (note_fact step)"
  unfolding note_fact_def
  by (rule triple_change) (use assms in \<open>force split: prod.splits option.splits\<close>)

subsection \<open>Stages\<close>

text \<open>
  \<open>carried ev ev'\<close>: the evidence goes on with at most more diagnostics. A stage says which phase is
  current and which facts are recorded; it survives everything that is carried.
\<close>

definition carried :: "evidence \<Rightarrow> evidence \<Rightarrow> bool" where
  "carried ev ev' = ((reachable ev \<longrightarrow> reachable ev') \<and> same_facts (storage_of ev) (storage_of ev'))"

lemma carried_refl [simp]: "carried ev ev"
  by (simp add: carried_def)

lemma carried_trans: "carried a b \<Longrightarrow> carried b c \<Longrightarrow> carried a c"
  by (auto simp: carried_def intro: same_facts_trans)

lemma carried_diagnostics:
  "carried ev (record_diagnostic d ev)" "carried ev (retain_diagnostic d ev)" "carried ev (publish_diagnostics ev)"
  using reachable.step [of ev "RetainDiagnostic d"] reachable.step [of ev PublishDiagnostics]
  by (simp_all add: carried_def record_diagnostic_same reachable_record_diagnostic retain_diagnostic_storage
      publish_diagnostics_storage)

lemma carried_retain_all: "carried ev (fold retain_diagnostic ds ev)"
  by (induction ds arbitrary: ev) (auto intro: carried_trans carried_diagnostics(2))

definition stage :: "run_phase \<Rightarrow> (storage \<Rightarrow> bool) \<Rightarrow> evidence \<Rightarrow> bool" where
  "stage p C ev =
     (reachable ev \<and> current_phase (storage_of ev) = Some p \<and> failures (storage_of ev) = []
      \<and> C (storage_of ev))"

text \<open>What the work before Processing Assets has recorded: collisions, skipped counts, nested count.\<close>

definition before_assets :: "bool \<Rightarrow> bool \<Rightarrow> bool \<Rightarrow> storage \<Rightarrow> bool" where
  "before_assets c k n s =
     (archive_collisions_recorded s = c \<and> skipped_archive_counts_recorded s = k
      \<and> nested_archive_count_recorded s = n \<and> stored_ledger s = None \<and> asset_attempts s = []
      \<and> archive_finalization_of s = None \<and> \<not> archive_finalization_completed s
      \<and> list_all extraction_safe (archive_extraction_attempts s))"

text \<open>The ledger, and the first \<open>k\<close> of its Assets attempted safely.\<close>

definition assets_done :: "routing_ledger \<Rightarrow> nat \<Rightarrow> storage \<Rightarrow> bool" where
  "assets_done l k s =
     (stored_ledger s = Some l \<and> k \<le> length (assets_in_order l)
      \<and> assets_attempted s = take k (assets_in_order l)
      \<and> list_all asset_safe (asset_attempts s) \<and> archive_finalization_of s = None
      \<and> \<not> archive_finalization_completed s \<and> list_all extraction_safe (archive_extraction_attempts s))"

lemma list_all_butlast: "list_all P xs \<Longrightarrow> list_all P (butlast xs)"
  by (auto simp: list_all_iff dest: in_set_butlastD)

lemma assets_done_length: "assets_done l k s \<Longrightarrow> length (asset_attempts s) = k"
  unfolding assets_done_def assets_attempted_def by (metis length_map length_take min.absorb2)

lemma stage_in_work:
  "stage p (before_assets c k n) ev \<Longrightarrow> p \<noteq> SafetyCleanup \<Longrightarrow> in_work ev"
  "stage p (assets_done l i) ev \<Longrightarrow> p \<noteq> SafetyCleanup \<Longrightarrow> in_work ev"
proof -
  show "stage p (before_assets c k n) ev \<Longrightarrow> p \<noteq> SafetyCleanup \<Longrightarrow> in_work ev"
    by (simp add: stage_def in_work_def attempts_in_order_def before_assets_def list_all_butlast)
  assume s: "stage p (assets_done l i) ev" "p \<noteq> SafetyCleanup"
  then have "length (asset_attempts (storage_of ev)) = i" by (auto simp: stage_def dest: assets_done_length)
  with s show "in_work ev"
    by (simp add: stage_def in_work_def attempts_in_order_def assets_done_def list_all_butlast)
qed

lemma stage_carried:
  assumes "carried ev ev'"
  shows "stage p (before_assets c k n) ev \<Longrightarrow> stage p (before_assets c k n) ev'"
    and "stage p (assets_done l i) ev \<Longrightarrow> stage p (assets_done l i) ev'"
    and "in_work ev \<Longrightarrow> in_work ev'"
    and "open_at T m j ev \<Longrightarrow> open_at T m j ev'"
proof -
  have reach: "reachable ev \<Longrightarrow> reachable ev'" and same: "same_facts (storage_of ev) (storage_of ev')"
    using assms by (simp_all add: carried_def)
  note fields = same_facts_fields [OF same] current_phase_same [OF same_facts_fields(2) [OF same]]
    last_record_same [OF same_facts_fields(2) [OF same]]
  show "stage p (before_assets c k n) ev \<Longrightarrow> stage p (before_assets c k n) ev'"
    using reach by (simp add: stage_def before_assets_def fields)
  show "stage p (assets_done l i) ev \<Longrightarrow> stage p (assets_done l i) ev'"
    using reach by (simp add: stage_def assets_done_def assets_attempted_def fields)
  show "in_work ev \<Longrightarrow> in_work ev'"
    using reach attempts_in_order_cong [OF fields(5,8,7,9)] by (simp add: in_work_def fields)
  show "open_at T m j ev \<Longrightarrow> open_at T m j ev'"
    using reach by (simp add: open_at_def is_open_def fields)
qed

subsection \<open>Entering a phase\<close>

lemma accept_next:
  assumes "current_phase (storage_of ev) = Some q" and "q < record_of r"
    and "validate_progress r = None" and "begins_at_zero r"
  shows "fst (accept_phase r ev) = None"
    and "same_facts ((storage_of ev)\<lparr>phases := phases (storage_of ev) @ [r]\<rparr>) (storage_of (snd (accept_phase r ev)))"
proof -
  obtain latest where l: "last_record (storage_of ev) = Some latest" "record_of latest = q"
    using assms(1) by (auto simp: current_phase_def)
  have ne: "q \<noteq> record_of r" using assms(2) by auto
  have acc: "acceptable r (storage_of ev)"
    using assms l ne by (simp add: acceptable_def)
  then show "fst (accept_phase r ev) = None" by (simp add: accept_phase_accepted)
  show "same_facts ((storage_of ev)\<lparr>phases := phases (storage_of ev) @ [r]\<rparr>) (storage_of (snd (accept_phase r ev)))"
    using same_facts_report [of "update_storage (\<lambda>s. s\<lparr>phases := phases (storage_of ev) @ [r]\<rparr>) ev"] ne assms(1)
    by (simp add: accept_phase_accepted [OF acc] phases_after_def)
qed

lemma entered_fields:
  assumes "same_facts (s\<lparr>phases := phases s @ [r]\<rparr>) s'"
  shows "last_record s' = Some r" "current_phase s' = Some (record_of r)" "phases s' = phases s @ [r]"
    "failures s' = failures s" "before_assets c k n s' = before_assets c k n s"
    "assets_done l i s' = assets_done l i s" "attempts_in_order s' = attempts_in_order s"
    "preparation s' = preparation s" "archive_finalization_completed s' = archive_finalization_completed s"
proof -
  note fields = same_facts_fields [OF assms]
  show last: "last_record s' = Some r" by (simp add: last_record_def fields)
  then show "current_phase s' = Some (record_of r)" by (simp add: current_phase_def)
  show "phases s' = phases s @ [r]" "failures s' = failures s" "preparation s' = preparation s"
    "archive_finalization_completed s' = archive_finalization_completed s" by (simp_all add: fields)
  show "before_assets c k n s' = before_assets c k n s" by (simp add: before_assets_def fields)
  show "assets_done l i s' = assets_done l i s" by (simp add: assets_done_def assets_attempted_def fields)
  show "attempts_in_order s' = attempts_in_order s"
    by (rule attempts_in_order_cong) (simp_all add: fields)
qed

lemma unopened_later:
  assumes "reachable ev" and "current_phase (storage_of ev) = Some q" and "q < p"
  shows "storage_phase (storage_of ev) p = None"
  using later_unrecorded [OF reachable_phases_ok [OF assms(1)] assms(2,3)] by (simp add: storage_phase_map)

text \<open>A phase the executor records itself.\<close>

lemma record_next:
  assumes "reachable ev" and "current_phase (storage_of ev) = Some q" and "q < p"
  shows "p \<notin> set attempt_bearing_phases \<Longrightarrow>
      fst (record_phase (executed p None) ev) = None
      \<and> same_facts ((storage_of ev)\<lparr>phases := phases (storage_of ev) @ [executed p None]\<rparr>)
          (storage_of (snd (record_phase (executed p None) ev)))"
    and "fst (record_phase (skipped p reason) ev) = None
      \<and> same_facts ((storage_of ev)\<lparr>phases := phases (storage_of ev) @ [skipped p reason]\<rparr>)
          (storage_of (snd (record_phase (skipped p reason) ev)))"
    and "p \<in> set plannable_phases \<Longrightarrow>
      fst (record_phase (planned p) ev) = None
      \<and> same_facts ((storage_of ev)\<lparr>phases := phases (storage_of ev) @ [planned p]\<rparr>)
          (storage_of (snd (record_phase (planned p) ev)))"
proof -
  have *: "fst (accept_phase r ev) = None
      \<and> same_facts ((storage_of ev)\<lparr>phases := phases (storage_of ev) @ [r]\<rparr>) (storage_of (snd (accept_phase r ev)))"
    if "record_of r = p" "progress r = None" for r
    using accept_next [OF assms(2), of r] assms(3) that
    by (simp add: validate_progress_def begins_at_zero_def)
  show "p \<notin> set attempt_bearing_phases \<Longrightarrow>
      fst (record_phase (executed p None) ev) = None
      \<and> same_facts ((storage_of ev)\<lparr>phases := phases (storage_of ev) @ [executed p None]\<rparr>)
          (storage_of (snd (record_phase (executed p None) ev)))"
    using * [of "executed p None"] by (simp add: record_phase_def)
  show "fst (record_phase (skipped p reason) ev) = None
      \<and> same_facts ((storage_of ev)\<lparr>phases := phases (storage_of ev) @ [skipped p reason]\<rparr>)
          (storage_of (snd (record_phase (skipped p reason) ev)))"
    using * [of "skipped p reason"] by (simp add: record_phase_def)
  show "p \<in> set plannable_phases \<Longrightarrow>
      fst (record_phase (planned p) ev) = None
      \<and> same_facts ((storage_of ev)\<lparr>phases := phases (storage_of ev) @ [planned p]\<rparr>)
          (storage_of (snd (record_phase (planned p) ev)))"
    using * [of "planned p"] by (simp add: record_phase_def)
qed

text \<open>A phase opened with its plan.\<close>

lemma open_next:
  assumes "reachable ev" and "current_phase (storage_of ev) = Some q" and "q < record_of r"
    and "validate_progress r = None" and "begins_at_zero r"
  shows "fst (open_attempt_phase r ev) = None"
    and "same_facts ((storage_of ev)\<lparr>phases := phases (storage_of ev) @ [r]\<rparr>)
          (storage_of (snd (open_attempt_phase r ev)))"
  using accept_next [OF assms(2-5)] unopened_later [OF assms(1-3)] by (simp_all add: open_attempt_phase_def)

end
