(* ===== verification/RunPhases.thy ===== *)
theory RunPhases
  imports RunStages
begin

text \<open>
  One triple per work phase: from the stage it starts in, whatever the seams answer, it records only
  what Run Evidence accepts, and it leaves the run in the next stage or stopped with its attempts in
  order.
\<close>

subsection \<open>Calls that only carry the evidence\<close>

definition run_carried :: "running \<Rightarrow> running \<Rightarrow> bool" where
  "run_carried s s' =
     (run_violation s' = run_violation s \<and> carried (run_evidence s) (run_evidence s'))"

interpretation carrying: frame run_carried
  by unfold_locales (auto simp: run_carried_def intro: carried_trans)

definition never_raises :: "(running, 'e, 'a) action \<Rightarrow> bool" where
  "never_raises m = raises (\<lambda>_. False) m"

lemma never_raises_basic:
  "never_raises (return x)" "never_raises stop_requested" "never_raises (change_state f)"
  "never_raises (on_evidence g)" "never_raises (walk_root ts phase root)"
  "never_raises (preflight_archives ts precedence roots)" "never_raises (extract_planned ts plan cleanup)"
  "never_raises (attempt_through_port ts asset root)" "never_raises (ask_run c answer)"
  "never_raises (record_capacity_warning w)"
  by (auto simp: never_raises_def raises_def run_simps stop_requested_def on_evidence_def walk_root_def
      preflight_archives_def extract_planned_def attempt_through_port_def ask_run_def
      record_capacity_warning_def Let_def split: prod.splits option.splits)

lemma never_raises_seq: "never_raises m \<Longrightarrow> (\<And>x. never_raises (f x)) \<Longrightarrow> never_raises (andThen m f)"
  unfolding never_raises_def by (rule raises_andThen)

lemma triple_carries:
  assumes "steps run_carried m" and "never_raises m"
    and "\<And>ev ev'. P ev \<Longrightarrow> carried ev ev' \<Longrightarrow> P ev'" and "\<And>ev. P ev \<Longrightarrow> in_work ev"
  shows "triple P (\<lambda>_. P) E m"
proof (rule tripleI)
  fix s r s'
  assume P: "P (run_evidence s)" and run: "m s = (r, s')"
  have c: "run_carried s s'" by (rule stepsD [OF assms(1) run])
  have "\<exists>e. r = Raise e \<Longrightarrow> False"
    using assms(2) run by (auto simp: never_raises_def raises_def)
  then show "run_violation s' = run_violation s
     \<and> (case r of Done x \<Rightarrow> P (run_evidence s') | Raise e \<Rightarrow> E e (run_evidence s')
        | Panic p \<Rightarrow> in_work (run_evidence s'))"
    using c assms(3) [OF P, of "run_evidence s'"] assms(4) [of "run_evidence s'"]
    by (cases r) (auto simp: run_carried_def)
qed

lemma visit_carries:
  assumes "visit phase root tree w = (complete, files, w')"
  shows "carried (walk_evidence w) (walk_evidence w')"
  using visit_finds [of root tree w phase] unfolding assms
  by (simp add: finds_def walked_def carried_def)

lemma carried_calls:
  "steps run_carried stop_requested" "steps run_carried (walk_root ts phase root)"
  "steps run_carried (preflight_archives ts precedence roots)" "steps run_carried (extract_planned ts plan cleanup)"
  "steps run_carried (attempt_through_port ts asset root)" "steps run_carried (ask_run c answer)"
  "steps run_carried (record_capacity_warning w)" "steps run_carried (on_evidence publish_diagnostics)"
  by (auto simp: steps_def run_carried_def stop_requested_def walk_root_def preflight_archives_def
      extract_planned_def attempt_through_port_def ask_run_def record_capacity_warning_def on_evidence_def
      run_simps Let_def carried_diagnostics carried_retain_all dest: visit_carries split: prod.splits)

lemma archive_pass_carries:
  fixes found :: "root_archives list"
  shows "steps run_carried (archive_pass ts policy roots b found :: ('e, bool \<times> archive_batch \<times> root_archives list) run_action)
     \<and> never_raises (archive_pass ts policy roots b found :: ('e, bool \<times> archive_batch \<times> root_archives list) run_action)"
proof (induction roots arbitrary: b found)
  case (Cons root roots)
  show ?case unfolding archive_pass.simps Let_def
    by (intro conjI carrying.seq carried_calls never_raises_seq never_raises_basic)
      (simp_all add: case_prod_beta carrying.pure never_raises_basic Cons.IH)
qed (simp add: carrying.pure never_raises_basic)

lemma definitive_pass_carries:
  "steps run_carried (definitive_pass ts policy known roots t :: ('e, bool \<times> effective_tree) run_action)
     \<and> never_raises (definitive_pass ts policy known roots t :: ('e, bool \<times> effective_tree) run_action)"
proof (induction roots arbitrary: t)
  case (Cons root roots)
  show ?case unfolding definitive_pass.simps Let_def
    by (intro conjI carrying.seq carried_calls never_raises_seq never_raises_basic)
      (simp_all add: case_prod_beta carrying.pure never_raises_basic Cons.IH)
qed (simp add: carrying.pure never_raises_basic)

lemma triple_if: "(b \<Longrightarrow> triple P Q E m) \<Longrightarrow> (\<not> b \<Longrightarrow> triple P Q E n) \<Longrightarrow> triple P Q E (if b then m else n)"
  by simp

subsection \<open>Discovering Archives\<close>

lemma reachable_steps:
  assumes "reachable ev"
  shows "reachable (snd (record_phase (executed p g) ev))" "reachable (snd (record_phase (planned p) ev))"
    "reachable (snd (record_phase (skipped p reason) ev))"
    "reachable (snd (record_skipped_archive_counts m ev))" "reachable (snd (record_archive_collisions cs ev))"
    "reachable (snd (record_nested_archive_count n ev))" "reachable (record_failure f ev)"
    "reachable (snd (record_preparation prep ev))" "reachable (snd (open_archive_extraction n ev))"
    "reachable (snd (open_processing_assets l ev))" "reachable (snd (open_archive_finalization ev))"
    "reachable (snd (record_planned_extraction x ev))" "reachable (snd (record_output_plan_basis basis ev))"
    "reachable (snd (record_planned_output out ev))" "reachable (snd (record_safety_cleanup_failure f ev))"
    "reachable (record_cancellation_observation ev)" "reachable (retain_failure f ev)"
  using reachable.step [OF assms, of "RecordExecuted p g"] reachable.step [OF assms, of "RecordPlanned p"]
    reachable.step [OF assms, of "RecordSkipped p reason"]
    reachable.step [OF assms, of "RecordSkippedCounts m"] reachable.step [OF assms, of "RecordCollisions cs"]
    reachable.step [OF assms, of "RecordNestedCount n"] reachable.step [OF assms, of "RecordFailure f"]
    reachable.step [OF assms, of "RecordPreparation prep"] reachable.step [OF assms, of "OpenExtraction n"]
    reachable.step [OF assms, of "OpenProcessing l"] reachable.step [OF assms, of OpenFinalization]
    reachable.step [OF assms, of "RecordPlannedExtraction x"] reachable.step [OF assms, of "RecordOutputBasis basis"]
    reachable.step [OF assms, of "RecordPlannedOutput out"] reachable.step [OF assms, of "RecordCleanupFailure f"]
    reachable.step [OF assms, of RecordCancellation] reachable.step [OF assms, of "RetainFailure f"]
  by simp_all

lemma stage_record:
  assumes "stage q (before_assets c k n) ev" and "q < p" and "p \<notin> set attempt_bearing_phases"
  shows "fst (record_phase (executed p None) ev) = None
    \<and> stage p (before_assets c k n) (snd (record_phase (executed p None) ev))"
  using assms(1) record_next(1) [of ev q p] assms(2,3) reachable_steps(1) [of ev p None]
  by (auto simp: stage_def entered_fields)

lemma in_work_failure: "in_work ev \<Longrightarrow> in_work (record_failure f ev)"
proof -
  assume ev: "in_work ev"
  then have r: "reachable (record_failure f ev)" by (simp add: in_work_def reachable_steps)
  have *: "phases (storage_of (record_failure f ev)) = phases (storage_of ev)"
    "attempts_in_order (storage_of (record_failure f ev)) = attempts_in_order (storage_of ev)"
    unfolding record_failure_def retain_failure_def
    by (simp, rule attempts_in_order_cong, simp_all)
  from *(1) have "current_phase (storage_of (record_failure f ev)) = current_phase (storage_of ev)"
    by (rule current_phase_same)
  with *(2) show ?thesis using ev r by (simp add: in_work_def)
qed

lemma current_phase_updates:
  "current_phase (s\<lparr>skipped_archive_counts_recorded := a, archive_discovery := d\<rparr>) = current_phase s"
  "current_phase (s\<lparr>nested_archive_count_recorded := a, archive_discovery := d\<rparr>) = current_phase s"
  "current_phase (s\<lparr>archive_collisions := cs, archive_collisions_recorded := a\<rparr>) = current_phase s"
  "current_phase (s\<lparr>stored_ledger := l\<rparr>) = current_phase s"
  "current_phase (s\<lparr>preparation := p\<rparr>) = current_phase s"
  "current_phase (s\<lparr>planned_work := w\<rparr>) = current_phase s"
  "current_phase (s\<lparr>failures := f\<rparr>) = current_phase s"
  "current_phase (s\<lparr>safety_cleanup_failures := f\<rparr>) = current_phase s"
  "current_phase (s\<lparr>cancellation_observed := c\<rparr>) = current_phase s"
  by (rule current_phase_same, simp)+

lemma is_planning_updates: "is_planning (s\<lparr>planned_work := w\<rparr>) p = is_planning s p"
  by (simp add: is_planning_def last_record_def)

lemma stage_discovery_facts:
  assumes "stage DiscoveringArchives (before_assets False False False) ev"
  shows "fst (record_skipped_archive_counts m ev) = None
    \<and> stage DiscoveringArchives (before_assets False True False) (snd (record_skipped_archive_counts m ev))"
proof -
  have eq: "record_skipped_archive_counts m ev = (None, update_storage (\<lambda>s. s\<lparr>skipped_archive_counts_recorded := True,
      archive_discovery := Some ((discovery_or_default s)\<lparr>skipped_archive_counts := m\<rparr>)\<rparr>) ev)"
    using assms by (auto simp: stage_def before_assets_def record_skipped_archive_counts_def archive_discovery_current_def)
  show ?thesis
    using assms reachable_steps(4) [of ev m] unfolding eq
    by (simp add: stage_def before_assets_def current_phase_updates)
qed

lemma stage_collisions:
  assumes "stage DiscoveringArchives (before_assets False True False) ev"
  shows "fst (record_archive_collisions cs ev) = None
    \<and> stage DiscoveringArchives (before_assets True True False) (snd (record_archive_collisions cs ev))"
proof -
  have eq: "record_archive_collisions cs ev = (None, update_storage (\<lambda>s. s\<lparr>archive_collisions := cs,
      archive_collisions_recorded := True\<rparr>) ev)"
    using assms by (auto simp: stage_def before_assets_def record_archive_collisions_def)
  show ?thesis
    using assms reachable_steps(5) [of ev cs] unfolding eq
    by (simp add: stage_def before_assets_def current_phase_updates)
qed

text \<open>How a stage goes on when its evidence is only carried, or ends.\<close>

lemma before_assets_carries:
  assumes "steps run_carried m" and "never_raises m" and "p \<noteq> SafetyCleanup"
  shows "triple (stage p (before_assets c k n)) (\<lambda>_. stage p (before_assets c k n)) E m"
  by (rule triple_carries [OF assms(1,2)])
    (erule (1) stage_carried(1) [rotated], erule stage_in_work(1), rule assms(3))

lemma triple_break:
  assumes "\<And>ev. P ev \<Longrightarrow> in_work ev"
  shows "triple P (\<lambda>r. case r of Continue x \<Rightarrow> Q x | Break _ \<Rightarrow> in_work) E (return (Break why))"
  by (rule triple_return) (simp add: assms)

lemma triple_continue:
  "triple (Q x) (\<lambda>r. case r of Continue x \<Rightarrow> Q x | Break _ \<Rightarrow> in_work) E (return (Continue x))"
  by (rule triple_return) simp

lemma record_failure_stops:
  assumes "\<And>ev. P ev \<Longrightarrow> in_work ev"
  shows "triple P (\<lambda>r. case r of Continue x \<Rightarrow> Q x | Break _ \<Rightarrow> in_work) E
     (andThen (on_evidence (record_failure f)) (\<lambda>_. return (Break why)))"
  by (rule triple_seq [where R = "\<lambda>_. in_work"], rule triple_on, rule in_work_failure, erule assms)
    (rule triple_break)

lemma discover_archives_runs:
  "runs (stage Preparing (before_assets False False False))
     (\<lambda>r. case r of Continue _ \<Rightarrow> stage DiscoveringArchives (before_assets True True False) | Break _ \<Rightarrow> in_work)
     (discover_archives ts prep)"
proof -
  let ?D = "\<lambda>c k. stage DiscoveringArchives (before_assets c k False)"
  let ?Q = "\<lambda>r :: (path list \<times> extraction_plan list) flow. case r of Continue _ \<Rightarrow> ?D True True | Break _ \<Rightarrow> in_work"
  have work: "?D c k ev \<Longrightarrow> in_work ev" for c k ev by (erule stage_in_work(1)) simp
  have warned: "runs (?D True True) (\<lambda>_. ?D True True)
      (case w of None \<Rightarrow> return () | Some x \<Rightarrow> record_capacity_warning x)" for w
    by (rule before_assets_carries)
      (auto intro: carrying.pure carried_calls never_raises_basic split: option.split)
  have decided: "runs (?D False True) ?Q (case p of
       preflight.Failed f \<Rightarrow> andThen (on_evidence (record_failure f)) (\<lambda>_. return (Break Halted))
     | preflight.Cancelled \<Rightarrow> return (Break Halted)
     | preflight.Planned plans collisions w \<Rightarrow>
         andThen (record_fact (record_archive_collisions collisions)) (\<lambda>_.
         andThen (case w of None \<Rightarrow> return () | Some x \<Rightarrow> record_capacity_warning x) (\<lambda>_.
         return (Continue (known, plans)))))" for p known
  proof (cases p)
    case (Planned plans collisions w)
    show ?thesis unfolding Planned preflight.case
      by (rule triple_seq [where R = "\<lambda>_. ?D True True"], rule triple_record, erule stage_collisions)
        (rule triple_seq [OF warned], rule triple_continue)
  qed (auto intro: record_failure_stops triple_break work)
  have passed: "runs (?D False False) ?Q
      (andThen (record_fact (record_skipped_archive_counts m)) (\<lambda>_.
       if \<not> complete then return (Break Halted)
       else andThen (preflight_archives ts (prep_precedence prep) roots) (\<lambda>p. case p of
           preflight.Failed f \<Rightarrow> andThen (on_evidence (record_failure f)) (\<lambda>_. return (Break Halted))
         | preflight.Cancelled \<Rightarrow> return (Break Halted)
         | preflight.Planned plans collisions w \<Rightarrow>
             andThen (record_fact (record_archive_collisions collisions)) (\<lambda>_.
             andThen (case w of None \<Rightarrow> return () | Some x \<Rightarrow> record_capacity_warning x) (\<lambda>_.
             return (Continue (known, plans)))))))" for m complete roots known
    by (rule triple_seq [where R = "\<lambda>_. ?D False True"], rule triple_record, erule stage_discovery_facts,
        rule triple_if, rule triple_break, erule work, rule triple_seq [OF _ decided],
        rule before_assets_carries) (simp_all add: carried_calls never_raises_basic)
  show ?thesis
    unfolding discover_archives_def
  proof (rule triple_seq [where R = "\<lambda>_. ?D False False"])
    show "runs (stage Preparing (before_assets False False False)) (\<lambda>_. ?D False False)
        (record_fact (record_phase (executed DiscoveringArchives None)))"
      by (rule triple_record, erule stage_record)
        (simp_all add: attempt_bearing_phases_def extraction_attempt_def asset_attempt_def finalization_attempt_def)
    show "runs (?D False False) ?Q
      (andThen (archive_pass ts (prep_policy prep) (prep_mod_roots prep) empty_batch []) (\<lambda>(complete, b, roots).
       andThen (record_fact (record_skipped_archive_counts (batch_counts b))) (\<lambda>_.
       if \<not> complete then return (Break Halted)
       else andThen (preflight_archives ts (prep_precedence prep) roots) (\<lambda>p. case p of
           preflight.Failed f \<Rightarrow> andThen (on_evidence (record_failure f)) (\<lambda>_. return (Break Halted))
         | preflight.Cancelled \<Rightarrow> return (Break Halted)
         | preflight.Planned plans collisions w \<Rightarrow>
             andThen (record_fact (record_archive_collisions collisions)) (\<lambda>_.
             andThen (case w of None \<Rightarrow> return () | Some x \<Rightarrow> record_capacity_warning x) (\<lambda>_.
             return (Continue (batch_recognized b, plans))))))))" for u :: unit
      by (rule triple_seq [OF before_assets_carries [OF conjunct1 conjunct2]], rule archive_pass_carries,
          rule archive_pass_carries, simp) (simp only: split: prod.split, intro allI impI passed)
  qed
qed

subsection \<open>Extracting Archives\<close>

definition planning :: "run_phase \<Rightarrow> (storage \<Rightarrow> bool) \<Rightarrow> evidence \<Rightarrow> bool" where
  "planning p C ev = (stage p C ev \<and> is_planning (storage_of ev) p)"

lemma planning_record:
  assumes "stage q (before_assets c k n) ev" and "q < p" and "p \<in> set plannable_phases"
  shows "fst (record_phase (planned p) ev) = None
    \<and> planning p (before_assets c k n) (snd (record_phase (planned p) ev))"
  using assms(1) record_next(3) [of ev q p] assms(2,3) reachable_steps(2) [of ev p]
  by (auto simp: planning_def stage_def entered_fields is_planning_def)

lemma planned_extraction_recorded:
  assumes "planning ExtractingArchives (before_assets c k n) ev"
  shows "fst (record_planned_extraction x ev) = None
    \<and> planning ExtractingArchives (before_assets c k n) (snd (record_planned_extraction x ev))"
proof -
  have eq: "record_planned_extraction x ev = (None, update_storage (\<lambda>s. s\<lparr>planned_work :=
      (planned_work s)\<lparr>extractions := extractions (planned_work s) @ [x]\<rparr>\<rparr>) ev)"
    using assms by (simp add: planning_def record_planned_extraction_def)
  show ?thesis
    using assms reachable_steps(12) [of ev x] unfolding eq
    by (simp add: planning_def stage_def before_assets_def current_phase_updates is_planning_updates)
qed

lemma continue_runs:
  assumes "\<And>ev. P ev \<Longrightarrow> in_work ev"
  shows "triple (case left of None \<Rightarrow> P | Some _ \<Rightarrow> in_work)
     (\<lambda>r. case r of Continue _ \<Rightarrow> P | Break _ \<Rightarrow> in_work) E (continue_unless_stopped left)"
proof (cases left)
  case None
  have "triple P (\<lambda>r. case r of Continue _ \<Rightarrow> P | Break _ \<Rightarrow> in_work) E
      (andThen stop_requested (\<lambda>stop. return (if stop then Break Halted else Continue ())))"
    by (rule triple_seq [OF triple_stop [where Q = "\<lambda>_. P"]], assumption, rule triple_return) (simp add: assms)
  with None show ?thesis by (simp add: continue_unless_stopped_def)
next
  case (Some why)
  have "triple in_work (\<lambda>r. case r of Continue _ \<Rightarrow> P | Break _ \<Rightarrow> in_work) E (return (Break why))"
    by (rule triple_break)
  with Some show ?thesis by (simp add: continue_unless_stopped_def)
qed

lemma plan_archive_extractions_runs:
  "runs (stage DiscoveringArchives (before_assets True True False))
     (\<lambda>r. case r of Continue _ \<Rightarrow> stage ExtractingArchives (before_assets True True False) | Break _ \<Rightarrow> in_work)
     (plan_archive_extractions plans cleanup)"
proof -
  let ?P = "planning ExtractingArchives (before_assets True True False)"
  have work: "?P ev \<Longrightarrow> in_work ev" for ev
    unfolding planning_def by (elim conjE, erule stage_in_work(1)) simp
  have each: "runs ?P (\<lambda>r :: stop option. case r of None \<Rightarrow> ?P | Some _ \<Rightarrow> in_work)
      (for_each (\<lambda>plan. andThen (record_fact (record_planned_extraction (planned_extraction_of cleanup plan)))
          (\<lambda>_. return None)) plans)"
  proof (rule triple_for_each [where I = "\<lambda>_. ?P" and J = "\<lambda>_. in_work"])
    fix i
    show "runs ?P (\<lambda>r :: stop option. case r of None \<Rightarrow> ?P | Some _ \<Rightarrow> in_work)
        (andThen (record_fact (record_planned_extraction (planned_extraction_of cleanup (plans ! i)))) (\<lambda>_. return None))"
      by (rule triple_seq [where R = "\<lambda>_. ?P"], rule triple_record, erule planned_extraction_recorded)
        (rule triple_return, simp)
  qed
  have ended: "runs ?P (\<lambda>r. case r of Continue _ \<Rightarrow> ?P | Break _ \<Rightarrow> in_work)
      (andThen (for_each (\<lambda>plan. andThen (record_fact (record_planned_extraction (planned_extraction_of cleanup plan)))
          (\<lambda>_. return None)) plans) continue_unless_stopped)"
    by (rule triple_seq [OF each continue_runs]) (erule work)
  have "runs (stage DiscoveringArchives (before_assets True True False))
      (\<lambda>r. case r of Continue _ \<Rightarrow> ?P | Break _ \<Rightarrow> in_work) (plan_archive_extractions plans cleanup)"
    unfolding plan_archive_extractions_def
    by (rule triple_seq [where R = "\<lambda>_. ?P"], rule triple_record, erule planning_record)
      (simp_all add: plannable_phases_def extraction_attempt_def,
       rule triple_seq [OF triple_stop [where Q = "\<lambda>_. ?P"]], assumption, rule triple_if, rule triple_break,
       erule work, rule ended)
  then show ?thesis
    by (rule triple_weaken) (auto simp: planning_def split: flow.splits)
qed

text \<open>One recorded attempt leaves every other fact alone.\<close>

lemma extraction_recorded:
  fixes a :: archive_extraction_result
  assumes "open_at extraction_attempt n i ev" and "i < n"
    and "stage ExtractingArchives (before_assets c k m) ev"
  defines "ev' \<equiv> snd (record_attempt_progress extraction_attempt a ev)"
  shows "fst (record_attempt_progress extraction_attempt a ev) = None"
    and "extraction_safe a \<Longrightarrow>
      open_at extraction_attempt n (Suc i) ev' \<and> stage ExtractingArchives (before_assets c k m) ev'"
    and "in_work ev'"
proof -
  obtain g where g: "is_open extraction_attempt (storage_of ev) g" "total g = n" "completed g = i" "reachable ev"
    using assms(1) by (auto simp: open_at_def)
  have lt: "completed g < total g" using g assms(2) by simp
  note step = extraction_step [OF reachable_attempts(1) [OF g(4)] assms(1,2), where a = a]
  note frame = extraction.record_frame [OF reachable_phases_ok [OF g(4)] g(1) lt, of a]
  note fields = same_facts_fields [OF frame]
  have attempts: "archive_extraction_attempts (storage_of ev') = archive_extraction_attempts (storage_of ev) @ [a]"
    using step(3) by (simp add: ev'_def)
  have current: "current_phase (storage_of ev') = Some ExtractingArchives"
    using step(2) by (auto simp: ev'_def open_at_def is_open_def current_phase_def extraction_attempt_def
        split: option.splits)
  have reach: "reachable ev'" using step(2) by (simp add: ev'_def open_at_def)
  show "fst (record_attempt_progress extraction_attempt a ev) = None" by (rule step(1))
  have rest: "failures (storage_of ev') = []" "stored_ledger (storage_of ev') = None"
    "asset_attempts (storage_of ev') = []" "archive_finalization_of (storage_of ev') = None"
    "archive_collisions_recorded (storage_of ev') = c" "skipped_archive_counts_recorded (storage_of ev') = k"
    "nested_archive_count_recorded (storage_of ev') = m" "\<not> archive_finalization_completed (storage_of ev')"
    "list_all extraction_safe (archive_extraction_attempts (storage_of ev))"
    using assms(3) unfolding ev'_def fields
    by (simp_all add: stage_def before_assets_def) (simp_all add: extraction_attempt_def)
  show "in_work ev'"
    using reach current rest attempts by (simp add: in_work_def attempts_in_order_def)
  assume "extraction_safe a"
  then show "open_at extraction_attempt n (Suc i) ev' \<and> stage ExtractingArchives (before_assets c k m) ev'"
    using step(2) reach current rest attempts by (simp add: ev'_def stage_def before_assets_def)
qed

lemma extraction_opened:
  assumes "stage DiscoveringArchives (before_assets c k m) ev"
  shows "fst (open_archive_extraction n ev) = None
    \<and> open_at extraction_attempt n 0 (snd (open_archive_extraction n ev))
    \<and> stage ExtractingArchives (before_assets c k m) (snd (open_archive_extraction n ev))"
proof -
  let ?r = "executed ExtractingArchives (Some (determinate n 0 0))"
  have *: "fst (open_archive_extraction n ev) = None"
    "same_facts ((storage_of ev)\<lparr>phases := phases (storage_of ev) @ [?r]\<rparr>) (storage_of (snd (open_archive_extraction n ev)))"
    using open_next [of ev DiscoveringArchives ?r] assms
    by (simp_all add: stage_def open_archive_extraction_def validate_progress_def begins_at_zero_def)
  show ?thesis
    using * assms entered_fields [OF *(2)] reachable_steps(9) [of ev n]
    by (simp add: stage_def open_at_def is_open_def extraction_attempt_def)
qed

lemma extract_one_runs:
  assumes "i < n"
  shows "runs (\<lambda>ev. open_at extraction_attempt n i ev \<and> stage ExtractingArchives (before_assets True True False) ev)
     (\<lambda>r. case r of
        None \<Rightarrow> (\<lambda>ev. open_at extraction_attempt n (Suc i) ev \<and> stage ExtractingArchives (before_assets True True False) ev)
      | Some _ \<Rightarrow> in_work)
     (extract_one ts cleanup plan)"
proof -
  let ?I = "\<lambda>i ev. open_at extraction_attempt n i ev \<and> stage ExtractingArchives (before_assets True True False) ev"
  let ?Q = "\<lambda>r :: stop option. case r of None \<Rightarrow> ?I (Suc i) | Some _ \<Rightarrow> in_work"
  have work: "stage ExtractingArchives (before_assets True True False) ev \<Longrightarrow> in_work ev" for ev
    by (erule stage_in_work(1)) simp
  have tried: "runs (?I i) (\<lambda>_. ?I i) (extract_planned ts plan cleanup)"
    by (rule triple_carries [OF carried_calls(4) never_raises_basic(7)])
      (use stage_carried(1,4) work in blast)+
  have recorded: "runs (?I i) (\<lambda>_ ev. if extraction_safe a then ?I (Suc i) ev else in_work ev)
      (record_fact (record_attempt_progress extraction_attempt a))" for a
    by (rule triple_record) (use extraction_recorded assms in auto)
  have attempted: "runs (?I i) ?Q
      (andThen (record_fact (record_attempt_progress extraction_attempt (a\<lparr>extraction_root := plan_root plan\<rparr>)))
        (\<lambda>_. return (if safe_to_continue (extraction_outcome a) then None else Some Halted)))" for a
    by (rule triple_seq [OF recorded], rule triple_return) (simp add: extraction_safe_def)
  show ?thesis
    unfolding extract_one_def
    by (rule triple_seq [OF triple_stop [where Q = "\<lambda>_. ?I i"]], assumption, rule triple_if, rule triple_return,
        simp add: work, rule triple_seq [OF tried attempted])
qed

lemma extract_archives_runs:
  "runs (stage DiscoveringArchives (before_assets True True False))
     (\<lambda>r. case r of Continue _ \<Rightarrow> stage ExtractingArchives (before_assets True True False) | Break _ \<Rightarrow> in_work)
     (extract_archives ts mode plans cleanup)"
proof -
  let ?D = "stage DiscoveringArchives (before_assets True True False)"
  let ?X = "stage ExtractingArchives (before_assets True True False)"
  let ?Q = "\<lambda>r :: unit flow. case r of Continue _ \<Rightarrow> ?X | Break _ \<Rightarrow> in_work"
  let ?I = "\<lambda>i ev. open_at extraction_attempt (length plans) i ev \<and> ?X ev"
  have work: "?X ev \<Longrightarrow> in_work ev" "?D ev \<Longrightarrow> in_work ev" for ev
    by (erule stage_in_work(1), simp)+
  have each: "runs (?I 0) (\<lambda>r. case r of None \<Rightarrow> ?I (length plans) | Some _ \<Rightarrow> in_work)
      (for_each (extract_one ts cleanup) plans)"
    by (rule triple_for_each) (rule extract_one_runs)
  have loop: "runs (?I 0) ?Q (andThen (for_each (extract_one ts cleanup) plans) continue_unless_stopped)"
    by (rule triple_weaken [OF triple_seq [OF each continue_runs]]) (auto intro: work split: flow.splits)
  have opened: "runs (?I 0) ?Q
      (andThen stop_requested (\<lambda>stop. if stop then return (Break Halted)
        else if plans = [] then return (Continue ())
        else andThen (for_each (extract_one ts cleanup) plans) continue_unless_stopped))"
    by (rule triple_seq [OF triple_stop [where Q = "\<lambda>_. ?I 0"]], assumption, rule triple_if, rule triple_break,
        elim conjE, erule work, rule triple_if, rule triple_return, simp, rule loop)
  show ?thesis
    unfolding extract_archives_def
    by (rule triple_seq [OF triple_stop [where Q = "\<lambda>_. ?D"]], assumption, rule triple_if, rule triple_break,
        erule work, rule triple_if, rule plan_archive_extractions_runs,
        rule triple_seq [OF triple_record [where Q = "\<lambda>_. ?I 0"] opened], use extraction_opened in blast)
qed

subsection \<open>Building the Effective Asset Tree\<close>

lemma nested_recorded:
  assumes "stage BuildingEffectiveAssetTree (before_assets True True False) ev"
  shows "fst (record_nested_archive_count m ev) = None
    \<and> stage BuildingEffectiveAssetTree (before_assets True True True) (snd (record_nested_archive_count m ev))"
proof -
  have eq: "record_nested_archive_count m ev = (None, update_storage (\<lambda>s. s\<lparr>nested_archive_count_recorded := True,
      archive_discovery := Some ((discovery_or_default s)\<lparr>nested_archive_count := m\<rparr>)\<rparr>) ev)"
    using assms by (auto simp: stage_def before_assets_def record_nested_archive_count_def archive_discovery_current_def)
  show ?thesis
    using assms reachable_steps(6) [of ev m] unfolding eq
    by (simp add: stage_def before_assets_def current_phase_updates)
qed

lemma build_effective_asset_tree_runs:
  "runs (stage ExtractingArchives (before_assets True True False))
     (\<lambda>r. case r of Continue _ \<Rightarrow> stage BuildingEffectiveAssetTree (before_assets True True True) | Break _ \<Rightarrow> in_work)
     (build_effective_asset_tree ts prep known)"
proof -
  let ?B = "\<lambda>n. stage BuildingEffectiveAssetTree (before_assets True True n)"
  let ?Q = "\<lambda>r :: routing_ledger flow. case r of Continue _ \<Rightarrow> ?B True | Break _ \<Rightarrow> in_work"
  have work: "?B n ev \<Longrightarrow> in_work ev" for n ev by (erule stage_in_work(1)) simp
  have counted: "runs (?B False) ?Q (if \<not> complete then return (Break Halted)
      else andThen (record_fact (record_nested_archive_count (length (nested_archives t)))) (\<lambda>_.
        return (Continue (route_all (prep_policy prep) (effective_paths t)))))" for complete t
    by (rule triple_if, rule triple_break, erule work, rule triple_seq [where R = "\<lambda>_. ?B True"], rule triple_record,
        erule nested_recorded, rule triple_continue)
  have pass: "runs (?B False) (\<lambda>_. ?B False)
      (definitive_pass ts (prep_policy prep) known (prep_mod_roots prep) \<lparr>nested_archives = [], effective_paths = []\<rparr>)"
    by (rule before_assets_carries) (simp_all add: definitive_pass_carries)
  show ?thesis
    unfolding build_effective_asset_tree_def
  proof (rule triple_seq [where R = "\<lambda>_. ?B False"])
    show "runs (stage ExtractingArchives (before_assets True True False)) (\<lambda>_. ?B False)
        (record_fact (record_phase (executed BuildingEffectiveAssetTree None)))"
      by (rule triple_record, erule stage_record)
        (simp_all add: attempt_bearing_phases_def extraction_attempt_def asset_attempt_def finalization_attempt_def)
    show "runs (?B False) ?Q
      (andThen stop_requested (\<lambda>stop. if stop then return (Break Halted)
       else andThen (definitive_pass ts (prep_policy prep) known (prep_mod_roots prep)
              \<lparr>nested_archives = [], effective_paths = []\<rparr>) (\<lambda>(complete, t).
         if \<not> complete then return (Break Halted)
         else andThen (record_fact (record_nested_archive_count (length (nested_archives t)))) (\<lambda>_.
           return (Continue (route_all (prep_policy prep) (effective_paths t)))))))" for u :: unit
      by (rule triple_seq [OF triple_stop [where Q = "\<lambda>_. ?B False"]], assumption, rule triple_if, rule triple_break,
          erule work, rule triple_seq [OF pass]) (simp only: split: prod.split, intro allI impI counted)
  qed
qed

end
