(* ===== verification/RunOutcomes.thy ===== *)
theory RunOutcomes
  imports RunPhases
begin

text \<open>
  The triples of the last two work phases, Processing Assets and Archive Finalization, of the chain
  of all work phases, and of the traversal up to Safety Cleanup.
\<close>

subsection \<open>Processing Assets\<close>

lemma assets_in_order_bound: "length (assets_in_order l) \<le> length (routed_assets l)"
proof -
  have "length (filter (\<lambda>a. asset_target a = TTexture) xs) + length (filter (\<lambda>a. asset_target a = TMesh) xs)
      + length (filter (\<lambda>a. asset_target a = TAnimation) xs) \<le> length xs" for xs
    by (induction xs) auto
  from this [of "routed_assets l"] show ?thesis
    by (simp add: assets_in_order_def routed_assets_for_def add.assoc)
qed

lemma assets_opened:
  assumes "stage BuildingEffectiveAssetTree (before_assets True True True) ev"
  shows "fst (open_processing_assets l ev) = None
    \<and> open_at asset_attempt (length (routed_assets l)) 0 (snd (open_processing_assets l ev))
    \<and> stage ProcessingAssets (assets_done l 0) (snd (open_processing_assets l ev))"
proof -
  let ?r = "executed ProcessingAssets (Some (determinate (length (routed_assets l)) 0 0))"
  let ?u = "update_storage (\<lambda>s. s\<lparr>stored_ledger := Some l\<rparr>) ev"
  have s: "reachable ev" "current_phase (storage_of ev) = Some BuildingEffectiveAssetTree"
    "failures (storage_of ev) = []" "before_assets True True True (storage_of ev)"
    using assms by (simp_all add: stage_def)
  have "open_processing_assets l ev = open_attempt_phase ?r ?u"
    using s by (simp add: open_processing_assets_def before_assets_def archive_discovery_complete_def)
  also have "\<dots> = accept_phase ?r ?u"
    using unopened_later [OF s(1,2), of ProcessingAssets]
    by (simp add: open_attempt_phase_def storage_phase_def)
  finally have eq: "open_processing_assets l ev = accept_phase ?r ?u" .
  have *: "fst (open_processing_assets l ev) = None"
    "same_facts ((storage_of ?u)\<lparr>phases := phases (storage_of ?u) @ [?r]\<rparr>) (storage_of (snd (open_processing_assets l ev)))"
    using accept_next [of ?u BuildingEffectiveAssetTree ?r] s(2) unfolding eq
    by (simp_all add: validate_progress_def begins_at_zero_def current_phase_updates)
  note fields = same_facts_fields [OF *(2)]
  have current: "last_record (storage_of (snd (open_processing_assets l ev))) = Some ?r"
    "current_phase (storage_of (snd (open_processing_assets l ev))) = Some ProcessingAssets"
    by (simp_all add: current_phase_def last_record_def fields)
  show ?thesis
    using *(1) s(1,3,4) reachable_steps(10) [OF s(1), of l]
    by (simp add: stage_def open_at_def is_open_def asset_attempt_def assets_done_def before_assets_def
        assets_attempted_def fields current)
qed

lemma asset_recorded:
  fixes a :: routed_asset_attempt
  assumes "open_at asset_attempt n i ev" and "i < n" and "i < length (assets_in_order l)"
    and "stage ProcessingAssets (assets_done l i) ev" and "attempt_asset a = assets_in_order l ! i"
  defines "ev' \<equiv> snd (record_attempt_progress asset_attempt a ev)"
  shows "fst (record_attempt_progress asset_attempt a ev) = None"
    and "asset_safe a \<Longrightarrow> open_at asset_attempt n (Suc i) ev' \<and> stage ProcessingAssets (assets_done l (Suc i)) ev'"
    and "in_work ev'"
proof -
  obtain g where g: "is_open asset_attempt (storage_of ev) g" "total g = n" "completed g = i" "reachable ev"
    using assms(1) by (auto simp: open_at_def)
  have lt: "completed g < total g" using g assms(2) by simp
  note step = asset_step [OF reachable_attempts(2) [OF g(4)] assms(1,2), where a = a]
  note frame = asset.record_frame [OF reachable_phases_ok [OF g(4)] g(1) lt, of a]
  note fields = same_facts_fields [OF frame]
  have attempts: "asset_attempts (storage_of ev') = asset_attempts (storage_of ev) @ [a]"
    using step(3) by (simp add: ev'_def)
  have attempted: "assets_attempted (storage_of ev') = take (Suc i) (assets_in_order l)"
    using assms(3-5) by (simp add: assets_attempted_def attempts stage_def assets_done_def take_Suc_conv_app_nth)
  have len: "length (asset_attempts (storage_of ev)) = i"
    using assms(4) by (auto simp: stage_def dest: assets_done_length)
  have current: "current_phase (storage_of ev') = Some ProcessingAssets"
    using step(2) by (auto simp: ev'_def open_at_def is_open_def current_phase_def asset_attempt_def
        split: option.splits)
  have reach: "reachable ev'" using step(2) by (simp add: ev'_def open_at_def)
  show "fst (record_attempt_progress asset_attempt a ev) = None" by (rule step(1))
  have rest: "failures (storage_of ev') = []" "stored_ledger (storage_of ev') = Some l"
    "archive_finalization_of (storage_of ev') = None" "\<not> archive_finalization_completed (storage_of ev')"
    "list_all extraction_safe (archive_extraction_attempts (storage_of ev'))"
    "list_all asset_safe (asset_attempts (storage_of ev))"
    using assms(4) unfolding ev'_def fields
    by (simp_all add: stage_def assets_done_def) (simp_all add: asset_attempt_def)
  show "in_work ev'"
    using reach current rest attempts attempted len
    by (simp add: in_work_def attempts_in_order_def list_all_butlast)
  assume "asset_safe a"
  then show "open_at asset_attempt n (Suc i) ev' \<and> stage ProcessingAssets (assets_done l (Suc i)) ev'"
    using step(2) reach current rest attempts attempted assms(3) by (simp add: ev'_def stage_def assets_done_def)
qed

lemma process_asset_runs:
  assumes "i < n" and "i < length (assets_in_order l)"
  shows "runs (\<lambda>ev. open_at asset_attempt n i ev \<and> stage ProcessingAssets (assets_done l i) ev)
     (\<lambda>r. case r of
        None \<Rightarrow> (\<lambda>ev. open_at asset_attempt n (Suc i) ev \<and> stage ProcessingAssets (assets_done l (Suc i)) ev)
      | Some _ \<Rightarrow> in_work)
     (process_asset ts roots (assets_in_order l ! i))"
proof -
  let ?I = "\<lambda>i ev. open_at asset_attempt n i ev \<and> stage ProcessingAssets (assets_done l i) ev"
  let ?Q = "\<lambda>r :: stop option. case r of None \<Rightarrow> ?I (Suc i) | Some _ \<Rightarrow> in_work"
  let ?asset = "assets_in_order l ! i"
  have work: "stage ProcessingAssets (assets_done l i) ev \<Longrightarrow> in_work ev" for i ev
    by (erule stage_in_work(2)) simp
  have tried: "runs (?I i) (\<lambda>_. ?I i) (attempt_through_port ts ?asset root)" for root
    by (rule triple_carries [OF carried_calls(5) never_raises_basic(8)])
      (use stage_carried(2,4) work in blast)+
  have recorded: "runs (?I i) (\<lambda>_ ev. if asset_safe a then ?I (Suc i) ev else in_work ev)
      (record_fact (record_attempt_progress asset_attempt a))" if "attempt_asset a = ?asset" for a
    by (rule triple_record) (use asset_recorded assms that in auto)
  have attempted: "runs (?I i) ?Q (case attempt of
       None \<Rightarrow> return (Some BackendCancelled)
     | Some (root, result) \<Rightarrow>
         andThen (record_fact (record_attempt_progress asset_attempt
                    \<lparr>attempt_root = root, attempt_asset = ?asset, attempt_result = result\<rparr>)) (\<lambda>_.
         return (if safe_to_continue (asset_outcome result) then None else Some Halted)))" for attempt
  proof (cases attempt)
    case None
    have "runs (?I i) ?Q (return (Some BackendCancelled))"
      by (rule triple_return) (auto intro: work)
    with None show ?thesis by simp
  next
    case (Some rr)
    then obtain root result where rr: "attempt = Some (root, result)" by (cases rr) simp
    show ?thesis unfolding rr option.case prod.case
      by (rule triple_seq [OF recorded], simp, rule triple_return) (simp add: asset_safe_def)
  qed
  have found: "runs (?I i) (\<lambda>_. ?I i) (case found_at of
        None \<Rightarrow> return (Some ([], unattempted what p))
      | Some root \<Rightarrow> andThen (attempt_through_port ts ?asset root) (\<lambda>r. return (map_option (Pair root) r)))"
    for found_at what p
  proof (cases found_at)
    case None
    have "runs (?I i) (\<lambda>_. ?I i) (return (Some ([], unattempted what p)))"
      by (rule triple_return)
    with None show ?thesis by simp
  next
    case (Some root)
    have "runs (?I i) (\<lambda>_. ?I i) (andThen (attempt_through_port ts ?asset root) (\<lambda>r. return (map_option (Pair root) r)))"
      by (rule triple_seq [OF tried], rule triple_return)
    with Some show ?thesis by simp
  qed
  show ?thesis
    unfolding process_asset_def
    by (rule triple_seq [OF triple_stop [where Q = "\<lambda>_. ?I i"]], assumption, rule triple_if, rule triple_return,
        force intro: work, rule triple_seq [OF triple_ask [where Q = "\<lambda>_. ?I i"]], assumption,
        rule triple_seq [OF found attempted])
qed

lemma process_assets_runs:
  "runs (stage BuildingEffectiveAssetTree (before_assets True True True))
     (\<lambda>r. case r of
        Continue _ \<Rightarrow> stage ProcessingAssets (assets_done l (length (assets_in_order l)))
      | Break _ \<Rightarrow> in_work)
     (process_assets ts prep l)"
proof -
  let ?n = "length (assets_in_order l)"
  let ?P = "stage ProcessingAssets (assets_done l ?n)"
  let ?I = "\<lambda>i ev. open_at asset_attempt (length (routed_assets l)) i ev \<and> stage ProcessingAssets (assets_done l i) ev"
  have each: "runs (?I 0) (\<lambda>r. case r of None \<Rightarrow> ?I ?n | Some _ \<Rightarrow> in_work)
      (for_each (process_asset ts (prep_mod_roots prep)) (assets_in_order l))"
  proof (rule triple_for_each)
    fix i
    assume i: "i < ?n"
    then have "i < length (routed_assets l)" using assets_in_order_bound [of l] by simp
    then show "runs (?I i) (\<lambda>r. case r of None \<Rightarrow> ?I (Suc i) | Some _ \<Rightarrow> in_work)
        (process_asset ts (prep_mod_roots prep) (assets_in_order l ! i))"
      using i by (rule process_asset_runs)
  qed
  have loop: "runs (?I 0) (\<lambda>r. case r of Continue _ \<Rightarrow> ?P | Break _ \<Rightarrow> in_work)
      (andThen (for_each (process_asset ts (prep_mod_roots prep)) (assets_in_order l)) continue_unless_stopped)"
    by (rule triple_weaken [OF triple_seq [OF each continue_runs]]) (auto intro: stage_in_work(2) split: flow.splits)
  show ?thesis
    unfolding process_assets_def
    by (rule triple_seq [OF triple_record [where Q = "\<lambda>_. ?I 0"] loop]) (use assets_opened in blast)
qed

subsection \<open>Archive Finalization\<close>

text \<open>
  \<open>worked mode l\<close>: every Asset of the ledger was attempted safely, and Archive Finalization was planned
  or, in Apply, left its phase finished.
\<close>

definition worked :: "execution_mode \<Rightarrow> routing_ledger \<Rightarrow> evidence \<Rightarrow> bool" where
  "worked mode l ev =
     (in_work ev \<and> stored_ledger (storage_of ev) = Some l
      \<and> assets_attempted (storage_of ev) = assets_in_order l \<and> list_all asset_safe (asset_attempts (storage_of ev))
      \<and> (mode = Apply \<longrightarrow> archive_finalization_completed (storage_of ev)))"

definition planning_outputs :: "routing_ledger \<Rightarrow> bool \<Rightarrow> evidence \<Rightarrow> bool" where
  "planning_outputs l b ev =
     (stage ArchiveFinalization (assets_done l (length (assets_in_order l))) ev
      \<and> is_planning (storage_of ev) ArchiveFinalization
      \<and> (output_basis (planned_work (storage_of ev)) \<noteq> None) = b)"

lemma planning_outputs_work: "planning_outputs l b ev \<Longrightarrow> in_work ev"
  unfolding planning_outputs_def by (elim conjE, erule stage_in_work(2)) simp

lemma planning_outputs_worked: "planning_outputs l b ev \<Longrightarrow> worked DryRun l ev"
  using planning_outputs_work [of l b ev] by (simp add: planning_outputs_def worked_def stage_def assets_done_def)

lemma planning_outputs_carried: "planning_outputs l b ev \<Longrightarrow> carried ev ev' \<Longrightarrow> planning_outputs l b ev'"
  using stage_carried(2) [of ev ev']
  by (auto simp: planning_outputs_def carried_def same_facts_fields is_planning_def
      last_record_same [OF same_facts_fields(2)])

lemma finalization_planned:
  assumes "stage ProcessingAssets (assets_done l (length (assets_in_order l))) ev"
  shows "fst (record_phase (planned ArchiveFinalization) ev) = None
    \<and> planning_outputs l False (snd (record_phase (planned ArchiveFinalization) ev))"
proof -
  have s: "reachable ev" "current_phase (storage_of ev) = Some ProcessingAssets"
    using assms by (simp_all add: stage_def)
  have "phase_map (phases (storage_of ev)) ArchiveFinalization = None"
    using later_unrecorded [OF reachable_phases_ok [OF s(1)] s(2)] by simp
  then have "output_basis (planned_work (storage_of ev)) = None"
    using wf_storeD(6) [OF reachable_wf [OF s(1)]] by (auto simp: planned_ok_def planned_at_def)
  moreover have *: "fst (record_phase (planned ArchiveFinalization) ev) = None"
    "same_facts ((storage_of ev)\<lparr>phases := phases (storage_of ev) @ [planned ArchiveFinalization]\<rparr>)
      (storage_of (snd (record_phase (planned ArchiveFinalization) ev)))"
    using record_next(3) [OF s, of ArchiveFinalization] by (simp_all add: plannable_phases_def)
  ultimately show ?thesis
    using assms entered_fields(1,2,4,6) [OF *(2)] same_facts_fields(11) [OF *(2)]
      reachable_steps(2) [OF s(1), of ArchiveFinalization]
    by (simp add: planning_outputs_def stage_def is_planning_def)
qed

lemma outputs_recorded:
  shows "planning_outputs l False ev \<Longrightarrow> fst (record_output_plan_basis basis ev) = None
      \<and> planning_outputs l True (snd (record_output_plan_basis basis ev))"
    and "planning_outputs l True ev \<Longrightarrow> fst (record_planned_output out ev) = None
      \<and> planning_outputs l True (snd (record_planned_output out ev))"
proof -
  assume p: "planning_outputs l False ev"
  then have eq: "record_output_plan_basis basis ev = (None, update_storage (\<lambda>s. s\<lparr>planned_work :=
      (planned_work s)\<lparr>output_basis := Some basis\<rparr>\<rparr>) ev)"
    by (simp add: planning_outputs_def record_output_plan_basis_def)
  show "fst (record_output_plan_basis basis ev) = None
      \<and> planning_outputs l True (snd (record_output_plan_basis basis ev))"
    using p reachable_steps(13) [of ev basis] unfolding eq
    by (simp add: planning_outputs_def stage_def assets_done_def assets_attempted_def current_phase_updates
        is_planning_updates)
next
  assume p: "planning_outputs l True ev"
  then have eq: "record_planned_output out ev = (None, update_storage (\<lambda>s. s\<lparr>planned_work :=
      (planned_work s)\<lparr>outputs := outputs (planned_work s) @ [out]\<rparr>\<rparr>) ev)"
    by (simp add: planning_outputs_def record_planned_output_def)
  show "fst (record_planned_output out ev) = None
      \<and> planning_outputs l True (snd (record_planned_output out ev))"
    using p reachable_steps(14) [of ev out] unfolding eq
    by (simp add: planning_outputs_def stage_def assets_done_def assets_attempted_def current_phase_updates
        is_planning_updates)
qed

lemma record_planned_outputs_runs:
  "runs (planning_outputs l False) (\<lambda>r. case r of Continue _ \<Rightarrow> worked DryRun l | Break _ \<Rightarrow> in_work)
     (record_planned_outputs outs)"
proof -
  have each: "runs (planning_outputs l True) (\<lambda>r :: unit option. case r of
        None \<Rightarrow> planning_outputs l True | Some _ \<Rightarrow> planning_outputs l True)
      (for_each (\<lambda>out. andThen (record_fact (record_planned_output out)) (\<lambda>_. return None)) outs)"
  proof (rule triple_for_each [where I = "\<lambda>_. planning_outputs l True" and J = "\<lambda>_. planning_outputs l True"])
    fix i
    show "runs (planning_outputs l True) (\<lambda>r :: unit option. case r of
        None \<Rightarrow> planning_outputs l True | Some _ \<Rightarrow> planning_outputs l True)
        (andThen (record_fact (record_planned_output (outs ! i))) (\<lambda>_. return None))"
      by (rule triple_seq [where R = "\<lambda>_. planning_outputs l True"], rule triple_record,
          erule outputs_recorded(2)) (rule triple_return, simp)
  qed
  have each_planned: "runs (planning_outputs l True) (\<lambda>_. planning_outputs l True)
      (for_each (\<lambda>out. andThen (record_fact (record_planned_output out)) (\<lambda>_. return None)) outs
        :: (error, unit option) run_action)"
    by (rule triple_weaken [OF each]) (auto split: option.splits)
  show ?thesis
    unfolding record_planned_outputs_def
    by (rule triple_seq [OF triple_record [where Q = "\<lambda>_. planning_outputs l True"]], erule outputs_recorded(1),
        rule triple_seq [OF each_planned], rule triple_return)
      (auto intro: planning_outputs_worked)
qed

text \<open>A call into Archive Finalization that leaves the evidence alone.\<close>

lemma within_quiet:
  fixes m :: "run_call list \<Rightarrow> ('e, 'a) fin_action"
  assumes "\<And>h. steps same_evidence (m h)" and "\<And>h. raises (\<lambda>_. False) (m h)"
    and "\<And>ev. P ev \<Longrightarrow> in_work ev"
  shows "triple P (\<lambda>_. P) E (within_finalization call m)"
proof (rule tripleI)
  fix s r s'
  assume P: "P (run_evidence s)" and run: "within_finalization call m s = (r, s')"
  obtain f where f: "m (run_calls s) (begin_finalizing s) = (r, f)" "s' = end_finalizing call f s"
    using run by (auto simp: within_finalization_def split: prod.splits)
  have "fz_evidence f = run_evidence s"
    using stepsD [OF assms(1) f(1)] by (simp add: same_evidence_def begin_finalizing_def)
  moreover have "\<not> (\<exists>e. r = Raise e)"
    using raisesD [OF assms(2)] f(1) by blast
  ultimately show "run_violation s' = run_violation s
     \<and> (case r of Done x \<Rightarrow> P (run_evidence s') | Raise e \<Rightarrow> E e (run_evidence s')
        | Panic p \<Rightarrow> in_work (run_evidence s'))"
    using P assms(3) by (cases r) (simp_all add: f(2) end_finalizing_def)
qed

lemma plan_creation_quiet:
  "steps same_evidence (plan_archive_creation env choices prep)"
  "raises (\<lambda>_. False) (plan_archive_creation env choices prep)"
  unfolding plan_archive_creation_def
  by (auto intro!: quiet_rules reads_same_evidence [OF plan_finalization_reads] raises_rules
      split: outcome.split capacity_verdict.split planning_stop.split prod.split)

lemma plan_archive_finalization_phase_runs:
  "runs (stage ProcessingAssets (assets_done l (length (assets_in_order l))))
     (\<lambda>r. case r of Continue _ \<Rightarrow> worked DryRun l | Break _ \<Rightarrow> in_work)
     (plan_archive_finalization_phase ts prep choices)"
proof -
  let ?P = "planning_outputs l False"
  let ?Q = "\<lambda>r :: unit flow. case r of Continue _ \<Rightarrow> worked DryRun l | Break _ \<Rightarrow> in_work"
  have warned: "runs ?P (\<lambda>_. ?P) (case w of None \<Rightarrow> return () | Some x \<Rightarrow> record_capacity_warning x)" for w
    by (rule triple_carries)
      (auto intro: carrying.pure carried_calls never_raises_basic planning_outputs_carried planning_outputs_work
        split: option.split)
  have failed: "runs ?P ?Q
      (andThen (on_evidence (record_failure f)) (\<lambda>_. return (Break Halted :: unit flow)))" for f
    by (rule record_failure_stops) (rule planning_outputs_work)
  have decided: "runs ?P ?Q (case p of
       NotRequested \<Rightarrow> return (Continue ())
     | CreationPlanned outs w \<Rightarrow>
         andThen (case w of None \<Rightarrow> return () | Some x \<Rightarrow> record_capacity_warning x) (\<lambda>_. record_planned_outputs outs)
     | CreationCancelled \<Rightarrow> return (Break Halted)
     | CreationFailed what \<Rightarrow>
         andThen (on_evidence (record_failure (new_run_failure ArchiveCreationPlanningFailed ArchiveFinalization what)))
           (\<lambda>_. return (Break Halted)))" for p
  proof (cases p)
    case NotRequested
    show ?thesis unfolding NotRequested creation_planning.case
      by (rule triple_return) (simp add: planning_outputs_worked)
  next
    case CreationCancelled
    show ?thesis unfolding CreationCancelled creation_planning.case
      by (rule triple_break) (rule planning_outputs_work)
  qed (auto intro: failed triple_seq [OF warned record_planned_outputs_runs])
  show ?thesis
    unfolding plan_archive_finalization_phase_def
    by (rule triple_seq [OF triple_record [where Q = "\<lambda>_. ?P"]], erule finalization_planned,
        rule triple_seq [OF triple_stop [where Q = "\<lambda>_. ?P"]], assumption, rule triple_if, rule triple_break,
        erule planning_outputs_work, rule triple_seq [OF within_quiet decided])
      (simp_all add: plan_creation_quiet planning_outputs_work)
qed

lemma finalization_opens:
  assumes "stage ProcessingAssets (assets_done l k) ev"
  shows "fst (open_archive_finalization ev) = None
    \<and> finalization_opened (snd (open_archive_finalization ev))
    \<and> stage ArchiveFinalization (assets_done l k) (snd (open_archive_finalization ev))"
proof -
  let ?r = "executed ArchiveFinalization None"
  have *: "fst (open_archive_finalization ev) = None"
    "same_facts ((storage_of ev)\<lparr>phases := phases (storage_of ev) @ [?r]\<rparr>) (storage_of (snd (open_archive_finalization ev)))"
    using open_next [of ev ProcessingAssets ?r] assms
    by (simp_all add: stage_def open_archive_finalization_def validate_progress_def begins_at_zero_def)
  moreover have "\<not> archive_finalization_completed (storage_of ev)"
    using assms by (simp add: stage_def assets_done_def)
  ultimately show ?thesis
    using assms entered_fields(1,2,4,6,9) [OF *(2)] reachable_steps(11) [of ev]
    by (simp add: stage_def finalization_opened_def)
qed

lemma finalize_archives_runs:
  "runs (\<lambda>ev. finalization_opened ev \<and> stage ArchiveFinalization (assets_done l (length (assets_in_order l))) ev)
     (\<lambda>_. worked Apply l)
     (within_finalization FinalizeArchives (\<lambda>h. finalize_archives (finalization_seams ts h) choices prep))"
proof (rule tripleI)
  fix s s' :: running and r :: "(error, unit) outcome"
  let ?m = "finalize_archives (finalization_seams ts (run_calls s)) choices prep"
  assume P: "finalization_opened (run_evidence s)
     \<and> stage ArchiveFinalization (assets_done l (length (assets_in_order l))) (run_evidence s)"
    and run: "within_finalization FinalizeArchives (\<lambda>h. finalize_archives (finalization_seams ts h) choices prep) s
       = (r, s')"
  obtain f where f: "?m (begin_finalizing s) = (Done (), f)" "reachable (fz_evidence f)"
      "archive_finalization_completed (storage_of (fz_evidence f))"
    using finalize_archives_left [of "begin_finalizing s" "finalization_seams ts (run_calls s)" choices prep] P
    by (auto simp: begin_finalizing_def)
  have out: "r = Done ()" "s' = end_finalizing FinalizeArchives f s"
    using run f(1) by (simp_all add: within_finalization_def)
  have kept: "passed_on (storage_of (run_evidence s)) (storage_of (fz_evidence f))"
    "current_phase (storage_of (fz_evidence f)) = Some ArchiveFinalization"
    using stepsD [OF finalize_archives_finalizes f(1)] P by (simp_all add: finalizes_def begin_finalizing_def stage_def)
  have all: "assets_done l (length (assets_in_order l)) (storage_of (run_evidence s))" using P by (simp add: stage_def)
  then have "attempts_in_order (storage_of (fz_evidence f))"
    using kept(1) assets_done_length [of l "length (assets_in_order l)" "storage_of (run_evidence s)"]
    by (auto simp: attempts_in_order_def assets_done_def assets_attempted_def passed_on_def list_all_butlast)
  then show "run_violation s' = run_violation s
     \<and> (case r of Done x \<Rightarrow> worked Apply l (run_evidence s') | Raise e \<Rightarrow> False
        | Panic p \<Rightarrow> in_work (run_evidence s'))"
    using f(2,3) kept all
    by (simp add: out end_finalizing_def in_work_def worked_def passed_on_def assets_done_def assets_attempted_def)
qed

lemma finalize_archives_phase_runs:
  "runs (stage ProcessingAssets (assets_done l (length (assets_in_order l))))
     (\<lambda>r. case r of Continue _ \<Rightarrow> worked mode l | Break _ \<Rightarrow> in_work)
     (finalize_archives_phase ts prep mode choices)"
proof -
  let ?P = "stage ProcessingAssets (assets_done l (length (assets_in_order l)))"
  let ?F = "\<lambda>ev. finalization_opened ev \<and> stage ArchiveFinalization (assets_done l (length (assets_in_order l))) ev"
  let ?Q = "\<lambda>r :: unit flow. case r of Continue _ \<Rightarrow> worked mode l | Break _ \<Rightarrow> in_work"
  have work: "?P ev \<Longrightarrow> in_work ev" "?F ev \<Longrightarrow> in_work ev" for ev
    by (erule stage_in_work(2), simp) (elim conjE, erule stage_in_work(2), simp)
  have published: "runs ?P (\<lambda>_. ?P) (on_evidence publish_diagnostics)"
    by (rule triple_on) (rule stage_carried(2) [OF carried_diagnostics(3)])
  have opened: "runs ?F ?Q
      (andThen stop_requested (\<lambda>stop. if stop then return (Break Halted)
       else andThen (within_finalization FinalizeArchives (\<lambda>h. finalize_archives (finalization_seams ts h) choices prep))
              (\<lambda>_. return (Continue ()))))" if "mode = Apply"
    by (rule triple_seq [OF triple_stop [where Q = "\<lambda>_. ?F"]], assumption, rule triple_if, rule triple_break,
        erule work(2), rule triple_seq [OF finalize_archives_runs], rule triple_return) (simp add: that)
  have planned: "runs ?P ?Q (plan_archive_finalization_phase ts prep choices)" if "mode = DryRun"
    unfolding that by (rule plan_archive_finalization_phase_runs)
  show ?thesis
    unfolding finalize_archives_phase_def
    by (rule triple_seq [OF published], rule triple_seq [OF triple_stop [where Q = "\<lambda>_. ?P"]], assumption,
        rule triple_if, rule triple_break, erule work(1), rule triple_if, erule planned,
        rule triple_seq [OF triple_record [where Q = "\<lambda>_. ?F"] opened], use finalization_opens in blast,
        use execution_mode.exhaust in blast)
qed

subsection \<open>All work phases\<close>

lemma triple_chain:
  assumes "triple P (\<lambda>r. case r of Continue x \<Rightarrow> R x | Break _ \<Rightarrow> in_work) E m"
    and "\<And>x. triple (R x) (\<lambda>r. case r of Continue y \<Rightarrow> Q y | Break _ \<Rightarrow> in_work) E (f x)"
  shows "triple P (\<lambda>r. case r of Continue y \<Rightarrow> Q y | Break _ \<Rightarrow> in_work) E (chain m f)"
  unfolding chain_def
proof (rule triple_seq [OF assms(1)])
  fix r
  show "triple (case r of Continue x \<Rightarrow> R x | Break _ \<Rightarrow> in_work)
      (\<lambda>r. case r of Continue y \<Rightarrow> Q y | Break _ \<Rightarrow> in_work) E
      (case r of Continue x \<Rightarrow> f x | Break why \<Rightarrow> return (Break why))"
    using assms(2) by (cases r) (auto intro: triple_return)
qed

lemma run_work_phases_runs:
  "runs (stage Preparing (before_assets False False False))
     (\<lambda>r. case r of Continue _ \<Rightarrow> (\<lambda>ev. \<exists>l. worked (policy_mode (prep_policy prep)) l ev) | Break _ \<Rightarrow> in_work)
     (run_work_phases prep choices ts)"
proof -
  let ?P = "stage Preparing (before_assets False False False)"
  let ?D = "stage DiscoveringArchives (before_assets True True False)"
  let ?X = "stage ExtractingArchives (before_assets True True False)"
  let ?B = "stage BuildingEffectiveAssetTree (before_assets True True True)"
  let ?mode = "policy_mode (prep_policy prep)"
  have final: "runs (stage ProcessingAssets (assets_done l (length (assets_in_order l))))
     (\<lambda>r. case r of Continue _ \<Rightarrow> (\<lambda>ev. \<exists>l. worked ?mode l ev) | Break _ \<Rightarrow> in_work)
     (finalize_archives_phase ts prep ?mode (archive_finalization choices))" for l
    by (rule triple_weaken [OF finalize_archives_phase_runs]) (auto split: flow.splits)
  show ?thesis
    unfolding run_work_phases_def Let_def
  proof (rule triple_seq [where R = "\<lambda>_. ?P"])
    show "runs ?P (\<lambda>_. ?P) (change_state (\<lambda>s. s\<lparr>run_diagnosed := []\<rparr>))"
      by (rule triple_change) simp
  qed (intro triple_chain [where R = "\<lambda>_. ?D"] discover_archives_runs, simp only: split: prod.split,
      intro allI impI triple_chain [where R = "\<lambda>_. ?X"] extract_archives_runs
        triple_chain [where R = "\<lambda>_. ?B"] build_effective_asset_tree_runs
        triple_chain [OF process_assets_runs] final)
qed

end
