(* ===== verification/RunTraversal.thy ===== *)
theory RunTraversal
  imports RunOutcomes
begin

text \<open>
  The traversal of a run, from its new evidence to its terminal result: Preparing, the work or its
  skipped phases, Safety Cleanup, and the sealing.
\<close>

subsection \<open>Preparing\<close>

definition preparing :: "bool \<Rightarrow> evidence \<Rightarrow> bool" where
  "preparing b ev =
     (stage Preparing (before_assets False False False) ev \<and> (preparation (storage_of ev) \<noteq> None) = b)"

lemma preparing_work: "preparing b ev \<Longrightarrow> in_work ev"
  unfolding preparing_def by (elim conjE, erule stage_in_work(1)) simp

lemma preparing_carried: "preparing b ev \<Longrightarrow> carried ev ev' \<Longrightarrow> preparing b ev'"
  using stage_carried(1) [of ev ev'] by (auto simp: preparing_def carried_def dest: same_facts_fields(1))

lemma new_evidence_storage [simp]: "storage_of (new_evidence sink) = default_storage"
  by (simp add: new_evidence_def)

lemma default_storage_fields:
  "phases default_storage = []" "preparation default_storage = None" "failures default_storage = []"
  "last_record default_storage = None" "current_phase default_storage = None"
  "before_assets False False False default_storage"
  by (simp_all add: default_storage_def last_record_def current_phase_def before_assets_def)

lemma first_record:
  assumes "acceptable r default_storage"
  shows "accept_phase r (new_evidence sink) = (None, snd (accept_phase r (new_evidence sink)))"
    and "same_facts (default_storage\<lparr>phases := [r]\<rparr>) (storage_of (snd (accept_phase r (new_evidence sink))))"
proof -
  have acc: "acceptable r (storage_of (new_evidence sink))" using assms by simp
  show "accept_phase r (new_evidence sink) = (None, snd (accept_phase r (new_evidence sink)))"
    by (simp add: accept_phase_accepted [OF acc])
  show "same_facts (default_storage\<lparr>phases := [r]\<rparr>) (storage_of (snd (accept_phase r (new_evidence sink))))"
    using same_facts_report [of "update_storage (\<lambda>s. s\<lparr>phases := [r]\<rparr>) (new_evidence sink)"]
    by (simp add: accept_phase_accepted [OF acc] phases_after_def default_storage_fields)
qed

lemma run_started:
  "fst (record_phase (executed Preparing None) (new_evidence sink)) = None
   \<and> preparing False (snd (record_phase (executed Preparing None) (new_evidence sink)))"
proof -
  let ?r = "executed Preparing None" and ?e = "new_evidence sink"
  have acc: "acceptable ?r default_storage"
    by (simp add: acceptable_def default_storage_fields validate_progress_def begins_at_zero_def)
  have rec: "record_phase ?r ?e = accept_phase ?r ?e"
    by (simp add: record_phase_def attempt_bearing_phases_def)
  note first = first_record [OF acc, of sink, folded rec]
  note fields = same_facts_fields [OF first(2)]
  have "last_record (storage_of (snd (record_phase ?r ?e))) = Some ?r"
    by (simp add: last_record_def fields)
  moreover have "before_assets False False False (storage_of (snd (record_phase ?r ?e)))"
    using default_storage_fields(6) by (simp add: before_assets_def fields)
  moreover have "reachable (snd (record_phase ?r ?e))"
    by (rule reachable_steps(1) [OF reachable.start])
  moreover have "fst (record_phase ?r ?e) = None" by (subst first(1)) simp
  ultimately show ?thesis
    by (simp add: preparing_def stage_def current_phase_def fields) (simp add: default_storage_fields)
qed

lemma preparation_recorded:
  assumes "preparing False ev"
  shows "fst (record_preparation prep ev) = None \<and> preparing True (snd (record_preparation prep ev))"
proof -
  have eq: "record_preparation prep ev = (None, update_storage (\<lambda>s. s\<lparr>preparation := Some prep\<rparr>) ev)"
    using assms by (simp add: preparing_def stage_def record_preparation_def)
  show ?thesis
    using assms reachable_steps(8) [of ev prep] unfolding eq
    by (simp add: preparing_def stage_def before_assets_def current_phase_updates)
qed

lemma load_runs:
  "triple P (\<lambda>_. P) (\<lambda>_. P) (load_selected_profile request sv)"
  unfolding load_selected_profile_def Let_def
  by (auto intro!: triple_raise triple_seq [OF triple_ask [where Q = "\<lambda>_. P"]] triple_return
      split: option.split call.split sum.split)

lemma resolve_runs:
  "triple (preparing b) (\<lambda>_. preparing b) (\<lambda>_. preparing b) (resolve_selection sv request profile)"
proof (rule tripleI)
  fix s s' :: running and r :: "(run_failure, path list) outcome"
  assume P: "preparing b (run_evidence s)" and run: "resolve_selection sv request profile s = (r, s')"
  obtain x ev t where x: "resolve_mod_roots (sv_selection sv (run_calls s)) (mod_selection request) profile
      (run_evidence s) (run_token s) = (x, ev, t)"
    using prod_cases3 by blast
  have "preparing b ev"
    using P resolve_mod_roots_keeps [OF x] by (auto intro: preparing_carried simp: carried_def)
  then show "run_violation s' = run_violation s
     \<and> (case r of Done x \<Rightarrow> preparing b (run_evidence s') | Raise e \<Rightarrow> preparing b (run_evidence s')
        | Panic p \<Rightarrow> in_work (run_evidence s'))"
    using run unfolding resolve_selection_def x by (auto split: sum.splits)
qed

lemma prepare_run_runs:
  "triple (preparing b) (\<lambda>_. preparing b) (\<lambda>_. preparing b) (prepare_run request sv)"
proof -
  let ?P = "\<lambda>_. preparing b"
  have resolved: "triple (preparing b) ?P ?P
      (andThen (resolve_selection sv request profile) (\<lambda>roots. andThen stop_requested (\<lambda>stop.
         return (if stop then None else Some (f roots)))))" for profile and f :: "path list \<Rightarrow> run_preparation \<times> toolset"
    by (rule triple_seq [OF resolve_runs], rule triple_seq [OF triple_stop [where Q = ?P]], assumption, rule triple_return)
  have compiled: "triple (preparing b) ?P ?P (case c of Err conflicts \<Rightarrow> raise (policy_conflict conflicts)
     | Ok policy \<Rightarrow> andThen (resolve_selection sv request profile) (\<lambda>roots. andThen stop_requested (\<lambda>stop.
         return (if stop then None else Some (f policy roots)))))"
    for c profile and f :: "routing_policy \<Rightarrow> path list \<Rightarrow> run_preparation \<times> toolset"
    by (cases c) (simp_all add: triple_raise resolved)
  show ?thesis
    unfolding prepare_run_def
    by (rule triple_seq [OF load_runs], simp only: split: prod.split, intro allI impI,
        rule triple_seq [OF triple_stop [where Q = ?P]], assumption, rule triple_if, rule triple_return, assumption,
        rule compiled)
qed

text \<open>The policy of a preparation is compiled for the requested mode.\<close>

definition prepared_in_mode :: "execution_mode \<Rightarrow> (run_preparation \<times> toolset) option \<Rightarrow> bool" where
  "prepared_in_mode mode prepared =
     (case prepared of None \<Rightarrow> True | Some (prep, _) \<Rightarrow> policy_mode (prep_policy prep) = mode)"

lemma compile_policy_mode: "compile_policy profile request = Ok policy \<Longrightarrow> policy_mode policy = request_mode request"
  by (simp add: compile_policy_def compile_Ok)

lemma prepare_run_mode: "gives (prepared_in_mode (request_execution_mode request)) (prepare_run request sv)"
proof -
  have "gives (prepared_in_mode (request_execution_mode request)) (case c of
        Err conflicts \<Rightarrow> raise (policy_conflict conflicts)
      | Ok policy \<Rightarrow> andThen (resolve_selection sv request profile) (\<lambda>roots.
          andThen stop_requested (\<lambda>stop. return (if stop then None
            else Some (\<lparr>prep_mod_roots = roots, prep_profile = profile, prep_policy = policy,
                         prep_precedence = request_precedence request\<rparr>, ts)))))"
    if c: "c = compile_policy profile (for_work (request_execution_mode request) work)" for c profile ts work
  proof (cases c)
    case (Inr policy)
    then have "policy_mode policy = request_execution_mode request"
      using c compile_policy_mode [of profile _ policy] by (simp add: for_work_def)
    then show ?thesis
      unfolding Inr sum.case by (intro gives_after gives_return) (simp add: prepared_in_mode_def)
  qed (simp add: gives_raise)
  then show ?thesis
    unfolding prepare_run_def
    by (intro gives_after, simp only: split: prod.split, intro allI impI gives_after)
      (auto intro: gives_return simp: prepared_in_mode_def)
qed

lemma prepare_root_runs: "runs (preparing b) (\<lambda>_. preparing b) (prepare_root sv root)"
proof -
  have "runs (preparing b) (\<lambda>_. preparing b) (\<lambda>s.
       case sv_prepare_root sv (run_calls s) root of
         (answer, polls) \<Rightarrow>
           (case answer of
              Panicked what \<Rightarrow> Panic what
            | Returned (Ok None) \<Rightarrow> Done None
            | Returned (Ok (Some f)) \<Rightarrow> Done (Some (Some f))
            | Returned (Err what) \<Rightarrow>
                Done (Some (Some (new_run_failure StagingOwnershipUnverified Preparing what))),
            s\<lparr>run_token := map_option (\<lambda>n. n - polls) (run_token s),
              run_calls := run_calls s @ [PrepareRoot root]\<rparr>))"
    by (rule tripleI) (auto intro: preparing_work split: prod.splits call.splits sum.splits option.splits)
  then show ?thesis
    unfolding prepare_root_def
    by (rule triple_seq [OF triple_stop [where Q = "\<lambda>_. preparing b"] triple_if, rotated 2])
      (auto intro: triple_return)
qed

lemma failure_recorded: "runs (preparing b) (\<lambda>_. in_work) (on_evidence (record_failure f))"
  by (rule triple_on, rule in_work_failure, erule preparing_work)

lemma prepare_roots_runs:
  "runs (preparing b) (\<lambda>failed ev. if failed then in_work ev else preparing b ev)
     (prepare_roots sv mode prepared :: (unit, bool) run_action)"
proof -
  let ?Q = "\<lambda>failed ev. if failed then in_work ev else preparing b ev"
  have left: "runs (case left of None \<Rightarrow> preparing b | Some _ \<Rightarrow> preparing b) ?Q (case left of
       Some (Some f) \<Rightarrow> andThen (on_evidence (record_failure f)) (\<lambda>_. return True)
     | _ \<Rightarrow> (return False :: (unit, bool) run_action))" for left
    by (auto intro!: triple_return triple_seq [OF failure_recorded] split: option.split)
  have each: "runs (preparing b) (\<lambda>r. case r of None \<Rightarrow> preparing b | Some _ \<Rightarrow> preparing b)
      (for_each (prepare_root sv) roots :: (unit, run_failure option option) run_action)" for roots
    by (rule triple_for_each [where I = "\<lambda>_. preparing b" and J = "\<lambda>_. preparing b"],
        rule triple_weaken [OF prepare_root_runs]) (auto split: option.split)
  show ?thesis
  proof (cases prepared)
    case None
    show ?thesis unfolding None prepare_roots_def option.case by (rule triple_return) simp
  next
    case (Some x)
    show ?thesis
      unfolding Some prepare_roots_def option.case
      by (cases x, simp only: prod.case, rule triple_if, rule triple_return, simp, rule triple_seq [OF each left])
  qed
qed

subsection \<open>The work, or its skipped phases\<close>

definition skipping :: "nat \<Rightarrow> evidence \<Rightarrow> bool" where
  "skipping i ev =
     (reachable ev \<and> current_phase (storage_of ev) = Some ((Preparing # work_phase_sequence) ! i)
      \<and> attempts_in_order (storage_of ev))"

lemma work_phase_sequence_nth:
  "work_phase_sequence = [DiscoveringArchives, ExtractingArchives, BuildingEffectiveAssetTree, ProcessingAssets,
     ArchiveFinalization]"
  by (simp add: work_phase_sequence_def phase_sequence_def)

lemma skipping_work: "skipping i ev \<Longrightarrow> i \<le> length work_phase_sequence \<Longrightarrow> in_work ev"
  by (auto simp: skipping_def in_work_def work_phase_sequence_nth nth_Cons' split: if_splits)

lemma skip_recorded:
  assumes "skipping i ev" and "i < length work_phase_sequence"
  shows "fst (record_phase (skipped (work_phase_sequence ! i) NoRequestedWork) ev) = None
    \<and> skipping (Suc i) (snd (record_phase (skipped (work_phase_sequence ! i) NoRequestedWork) ev))"
proof -
  have lt: "(Preparing # work_phase_sequence) ! i < work_phase_sequence ! i"
    using assms(2) by (auto simp: work_phase_sequence_nth less_Suc_eq)
  have s: "reachable ev" "current_phase (storage_of ev) = Some ((Preparing # work_phase_sequence) ! i)"
    using assms(1) by (simp_all add: skipping_def)
  note step = record_next(2) [OF s lt, of NoRequestedWork]
  show ?thesis
    using assms(1) step entered_fields(2,7) [OF conjunct2 [OF step]] reachable_steps(3) [OF s(1)]
    by (simp add: skipping_def)
qed

lemma skip_work_phases_runs: "runs (preparing b) (\<lambda>_. in_work) skip_work_phases"
proof -
  have each: "runs (skipping 0) (\<lambda>r :: unit option. case r of None \<Rightarrow> skipping (length work_phase_sequence) | Some _ \<Rightarrow> in_work)
      (for_each (\<lambda>p. andThen stop_requested (\<lambda>stop.
        if stop then return (Some ())
        else andThen (note_fact (record_phase (skipped p NoRequestedWork))) (\<lambda>_. return None))) work_phase_sequence)"
  proof (rule triple_for_each)
    fix i
    assume i: "i < length work_phase_sequence"
    show "runs (skipping i) (\<lambda>r :: unit option. case r of None \<Rightarrow> skipping (Suc i) | Some _ \<Rightarrow> in_work)
        (andThen stop_requested (\<lambda>stop. if stop then return (Some ())
          else andThen (note_fact (record_phase (skipped (work_phase_sequence ! i) NoRequestedWork))) (\<lambda>_. return None)))"
      by (rule triple_seq [OF triple_stop [where Q = "\<lambda>_. skipping i"]], assumption, rule triple_if, rule triple_return,
          simp, erule skipping_work, use i in simp,
          rule triple_seq [OF triple_note [where Q = "\<lambda>_. skipping (Suc i)"]], erule skip_recorded, rule i,
          rule triple_return, simp)
  qed
  have "runs (skipping 0) (\<lambda>_. in_work) skip_work_phases"
    unfolding skip_work_phases_def
    by (rule triple_seq [OF each], rule triple_return) (auto intro: skipping_work split: option.splits)
  then show ?thesis
    by (rule triple_weaken) (use preparing_work in \<open>auto simp: preparing_def stage_def skipping_def in_work_def\<close>)
qed

lemma fail_at_current_runs: "triple in_work (\<lambda>_. in_work) E (fail_at_current_phase what)"
  unfolding fail_at_current_phase_def by (rule triple_on, erule in_work_failure)

lemma run_the_work_runs:
  assumes "\<And>choices. runs (stage Preparing (before_assets False False False)) (\<lambda>_. in_work) (work prep choices ts)"
  shows "runs (preparing True) (\<lambda>_. in_work) (run_the_work work request prep ts)"
proof -
  have caught: "runs (preparing True)
      (\<lambda>r. case r of Done _ \<Rightarrow> in_work | Raise _ \<Rightarrow> (\<lambda>_. False) | Panic _ \<Rightarrow> in_work)
      (catch_unwind (work prep (request_choices request) ts))"
    by (rule triple_catch, rule triple_weaken [OF assms]) (simp_all add: preparing_def)
  have escaped: "runs (case r of Done _ \<Rightarrow> in_work | Raise _ \<Rightarrow> (\<lambda>_. False) | Panic _ \<Rightarrow> in_work)
      (\<lambda>_. in_work) (escaped_work_detail r)" for r
  proof (cases r)
    case (Raise e)
    show ?thesis unfolding Raise by (simp add: triple_def)
  qed (auto simp: escaped_work_detail_def intro: triple_return)
  have failed: "runs in_work (\<lambda>_. in_work) (case x of None \<Rightarrow> return () | Some what \<Rightarrow> fail_at_current_phase what)" for x
    by (auto intro: triple_return fail_at_current_runs split: option.split)
  show ?thesis
    unfolding run_the_work_def
    by (rule triple_seq [OF caught], rule triple_seq [OF escaped], rule triple_seq [OF failed], rule triple_return)
qed

subsection \<open>Traversal\<close>

definition ready :: "bool \<Rightarrow> bool \<Rightarrow> evidence \<Rightarrow> bool" where
  "ready failed b ev = (if failed then in_work ev else preparing b ev)"

lemma ready_False: "ready False b = preparing b"
  by (simp add: ready_def fun_eq_iff)

lemma ready_work: "ready failed b ev \<Longrightarrow> in_work ev"
  by (auto simp: ready_def intro: preparing_work split: if_splits)

lemma traverse_runs:
  assumes "\<And>prep choices ts. runs (stage Preparing (before_assets False False False)) (\<lambda>_. in_work) (work prep choices ts)"
  shows "runs (\<lambda>ev. ev = new_evidence (sv_observations sv)) (\<lambda>_. in_work) (traverse sv work request)"
proof -
  let ?P = "preparing False"
  let ?kept = "\<lambda>answer failed. case answer of
      Ok (Some x) \<Rightarrow> if failed then return None
        else andThen stop_requested (\<lambda>stop. return (if stop then None else Some x))
    | _ \<Rightarrow> (return None :: (unit, (run_preparation \<times> toolset) option) run_action)"
  have first: "runs (\<lambda>ev. ev = new_evidence (sv_observations sv)) (\<lambda>_. ?P)
      (note_fact (record_phase (executed Preparing None)) :: (unit, unit) run_action)"
    by (rule triple_note) (simp add: run_started)
  have asked: "runs ?P (\<lambda>_. ?P)
      (if stop then return (Ok None) else (try_action (prepare_run request sv) :: (unit, run_failure + (run_preparation \<times> toolset) option) run_action))"
    for stop
    by (rule triple_if, rule triple_return, assumption, rule triple_weaken [OF triple_try [OF prepare_run_runs]])
      (auto split: sum.splits)
  have noted: "runs ?P (\<lambda>_. case answer of Err _ \<Rightarrow> in_work | Ok _ \<Rightarrow> ?P)
      (case answer of Err f \<Rightarrow> on_evidence (record_failure f) | Ok _ \<Rightarrow> (return () :: (unit, unit) run_action))"
    for answer :: "run_failure + (run_preparation \<times> toolset) option"
    by (cases answer) (auto intro: failure_recorded triple_return)
  have rooted: "runs (case answer of Err _ \<Rightarrow> in_work | Ok _ \<Rightarrow> ?P) (\<lambda>failed. ready failed False)
      (case answer of Err _ \<Rightarrow> (return True :: (unit, bool) run_action)
       | Ok prepared \<Rightarrow> prepare_roots sv (request_execution_mode request) prepared)"
    for answer :: "run_failure + (run_preparation \<times> toolset) option"
    by (cases answer) (auto intro: triple_return triple_weaken [OF prepare_roots_runs] simp: ready_def)
  have kept: "runs (ready failed False) (\<lambda>kept ev. ready failed False ev \<and> (failed \<longrightarrow> kept = None)) (?kept answer failed)"
    for answer :: "run_failure + (run_preparation \<times> toolset) option" and failed
  proof -
    have "runs (ready False False) (\<lambda>kept ev. ready False False ev \<and> (False \<longrightarrow> kept = None))
        (andThen stop_requested (\<lambda>stop. return (if stop then None else Some x)) :: (unit, (run_preparation \<times> toolset) option) run_action)" for x
      by (rule triple_seq [OF triple_stop [where Q = "\<lambda>_. ready False False"]], assumption, rule triple_return) simp
    then show ?thesis
      by (cases failed) (auto intro: triple_return split: sum.split option.split)
  qed
  have recorded: "runs (\<lambda>ev. ready failed False ev \<and> (failed \<longrightarrow> kept = None))
      (\<lambda>_. ready failed (kept \<noteq> None))
      (case kept of Some (prep, _) \<Rightarrow> note_fact (record_preparation prep) | None \<Rightarrow> (return () :: (unit, unit) run_action))"
    for kept :: "(run_preparation \<times> toolset) option" and failed
  proof (cases kept)
    case None
    show ?thesis unfolding None option.case by (rule triple_return) simp
  next
    case (Some x)
    then obtain prep ts where x: "kept = Some (prep, ts)" by (cases x) simp
    show ?thesis unfolding x option.case prod.case
      by (rule triple_note) (use preparation_recorded in \<open>auto simp: ready_def\<close>)
  qed
  have worked: "runs (ready failed (kept \<noteq> None)) (\<lambda>_. in_work)
      (if failed then return False
       else andThen stop_requested (\<lambda>stop. if stop then return False
         else case kept of
                Some (prep, ts) \<Rightarrow>
                  if has_requested_work request then run_the_work work request prep ts else skip_work_phases
              | None \<Rightarrow> (skip_work_phases :: (unit, bool) run_action)))"
    for kept :: "(run_preparation \<times> toolset) option" and failed
  proof (rule triple_if)
    show "runs (ready failed (kept \<noteq> None)) (\<lambda>_. in_work) (return False :: (unit, bool) run_action)"
      by (rule triple_return, erule ready_work)
    assume "\<not> failed"
    then have "runs (ready failed (kept \<noteq> None)) (\<lambda>_. in_work) (case kept of
          Some (prep, ts) \<Rightarrow>
            if has_requested_work request then run_the_work work request prep ts else skip_work_phases
        | None \<Rightarrow> (skip_work_phases :: (unit, bool) run_action))"
      by (cases kept) (auto simp: ready_False intro: skip_work_phases_runs run_the_work_runs [OF assms])
    then show "runs (ready failed (kept \<noteq> None)) (\<lambda>_. in_work)
        (andThen stop_requested (\<lambda>stop. if stop then return False
         else case kept of
                Some (prep, ts) \<Rightarrow>
                  if has_requested_work request then run_the_work work request prep ts else skip_work_phases
              | None \<Rightarrow> (skip_work_phases :: (unit, bool) run_action)))"
      by (intro triple_seq [OF triple_stop [where Q = "\<lambda>_. ready failed (kept \<noteq> None)"]] triple_if)
        (auto intro: triple_return ready_work)
  qed
  show ?thesis
    unfolding traverse_def
    by (rule triple_seq [OF first], rule triple_seq [OF triple_stop [where Q = "\<lambda>_. ?P"]], assumption,
        rule triple_seq [OF asked], rule triple_seq [OF noted], rule triple_seq [OF rooted],
        rule triple_seq [OF kept], rule triple_seq [OF recorded worked])
qed

subsection \<open>Safety Cleanup and sealing\<close>

lemma contained_traversal_runs:
  assumes "\<And>prep choices ts. runs (stage Preparing (before_assets False False False)) (\<lambda>_. in_work) (work prep choices ts)"
  shows "runs (\<lambda>ev. ev = new_evidence (sv_observations sv)) (\<lambda>_. in_work) (contained_traversal sv work request)"
proof -
  have caught: "runs (\<lambda>ev. ev = new_evidence (sv_observations sv))
      (\<lambda>r. case r of Done _ \<Rightarrow> in_work | Raise _ \<Rightarrow> (\<lambda>_. False) | Panic _ \<Rightarrow> in_work)
      (catch_unwind (traverse sv work request) :: (unit, (unit, bool) outcome) run_action)"
    by (rule triple_catch, rule traverse_runs [OF assms])
  have left: "runs (case r of Done _ \<Rightarrow> in_work | Raise _ \<Rightarrow> (\<lambda>_. False) | Panic _ \<Rightarrow> in_work) (\<lambda>_. in_work)
      (case r of
         Done backend_cancelled \<Rightarrow> return backend_cancelled
       | Raise _ \<Rightarrow> (return False :: (unit, bool) run_action)
       | Panic what \<Rightarrow> andThen (fail_at_current_phase (run_worker_panic_detail what)) (\<lambda>_. return False))" for r :: "(unit, bool) outcome"
  proof (cases r)
    case (Panic what)
    show ?thesis unfolding Panic outcome.case by (rule triple_seq [OF fail_at_current_runs triple_return])
  qed (auto intro: triple_return)
  show ?thesis
    unfolding contained_traversal_def by (rule triple_seq [OF caught left])
qed

text \<open>What the executor relies on: the two cleanups report cleanup failures.\<close>

definition cleanup_failure :: "run_failure \<Rightarrow> bool" where
  "cleanup_failure f =
     (failure_phase f = SafetyCleanup
      \<and> failure_code f \<in> {TemporaryArtifactCleanupFailed, SafetyCleanupServiceFailed})"

definition reports_cleanup :: "run_services \<Rightarrow> bool" where
  "reports_cleanup sv =
     (\<forall>h failed. (sv_clean_artifacts sv h = Returned (Ok failed) \<or> sv_safety_cleanup sv h = Returned (Ok failed))
        \<longrightarrow> list_all cleanup_failure failed)"

definition cleaned :: "evidence \<Rightarrow> bool" where
  "cleaned ev =
     (reachable ev \<and> current_phase (storage_of ev) = Some SafetyCleanup \<and> attempts_in_order (storage_of ev))"

lemma cleanup_entered:
  assumes "in_work ev"
  shows "fst (record_phase (executed SafetyCleanup None) ev) = None
    \<and> cleaned (snd (record_phase (executed SafetyCleanup None) ev))"
proof -
  obtain q where s: "reachable ev" "current_phase (storage_of ev) = Some q" "attempts_in_order (storage_of ev)"
      "q \<noteq> SafetyCleanup"
    using assms by (auto simp: in_work_def)
  then have "q < SafetyCleanup" by (cases q) simp_all
  then show ?thesis
    using record_next(1) [OF s(1,2), of SafetyCleanup] s reachable_steps(1) [OF s(1), of SafetyCleanup None]
    by (auto simp: cleaned_def entered_fields attempt_bearing_phases_def)
qed

lemma cleanup_failure_recorded:
  assumes "cleaned ev" and "cleanup_failure f"
  shows "fst (record_safety_cleanup_failure f ev) = None \<and> cleaned (snd (record_safety_cleanup_failure f ev))"
proof -
  have eq: "record_safety_cleanup_failure f ev = (None, update_storage (\<lambda>s. s\<lparr>safety_cleanup_failures :=
      safety_cleanup_failures s @ [f]\<rparr>) ev)"
    using assms by (simp add: cleaned_def cleanup_failure_def record_safety_cleanup_failure_def)
  have "attempts_in_order ((storage_of ev)\<lparr>safety_cleanup_failures := safety_cleanup_failures (storage_of ev) @ [f]\<rparr>)
      = attempts_in_order (storage_of ev)"
    by (rule attempts_in_order_cong) simp_all
  then show ?thesis
    using assms(1) reachable_steps(15) [of ev f] unfolding eq
    by (simp add: cleaned_def current_phase_updates)
qed

lemma collected_failures:
  assumes "\<And>failed. answer = Returned (Ok failed) \<Longrightarrow> list_all cleanup_failure failed"
  shows "list_all cleanup_failure (collect_safety_cleanup_failures answer)"
  using assms
  by (auto simp: collect_safety_cleanup_failures_def cleanup_failure_def new_run_failure_def
      split: call.split sum.split)

lemma safety_cleanup_runs:
  assumes "reports_cleanup sv"
  shows "runs in_work (\<lambda>_. cleaned) (safety_cleanup sv :: (unit, unit) run_action)"
proof -
  let ?c = "collect_safety_cleanup_failures"
  let ?ok = "\<lambda>x ev. cleaned ev \<and> list_all cleanup_failure (?c x)"
  have first: "runs in_work (\<lambda>_. cleaned) (note_fact (record_phase (executed SafetyCleanup None)) :: (unit, unit) run_action)"
    by (rule triple_note, rule cleanup_entered)
  have asked: "runs cleaned ?ok (ask_run CleanArtifacts (sv_clean_artifacts sv) :: (unit, _) run_action)"
    "runs cleaned ?ok (ask_run CleanWithService (sv_safety_cleanup sv) :: (unit, _) run_action)"
    by (rule triple_ask, use assms collected_failures in \<open>simp add: reports_cleanup_def\<close>)+
  have each: "runs cleaned (\<lambda>r :: unit option. case r of None \<Rightarrow> cleaned | Some _ \<Rightarrow> cleaned)
      (for_each (\<lambda>f. andThen (note_fact (record_safety_cleanup_failure f)) (\<lambda>_. return None)) fs
        :: (unit, unit option) run_action)" if fs: "list_all cleanup_failure fs" for fs
  proof (rule triple_for_each [where I = "\<lambda>_. cleaned" and J = "\<lambda>_. cleaned"])
    fix i
    assume i: "i < length fs"
    show "runs cleaned (\<lambda>r :: unit option. case r of None \<Rightarrow> cleaned | Some _ \<Rightarrow> cleaned)
        (andThen (note_fact (record_safety_cleanup_failure (fs ! i))) (\<lambda>_. return None) :: (unit, unit option) run_action)"
      by (rule triple_seq [OF triple_note [where Q = "\<lambda>_. cleaned"] triple_return])
        (use cleanup_failure_recorded fs i in \<open>auto simp: list_all_length\<close>)
  qed
  have recorded: "runs (?ok service) (\<lambda>_. cleaned)
      (andThen (for_each (\<lambda>f. andThen (note_fact (record_safety_cleanup_failure f)) (\<lambda>_. return None))
          (?c artifacts @ ?c service) :: (unit, unit option) run_action) (\<lambda>_. return ()))"
    if "list_all cleanup_failure (?c artifacts)" for artifacts service
  proof (rule triple_pure)
    assume "list_all cleanup_failure (?c service)"
    then show "runs cleaned (\<lambda>_. cleaned)
      (andThen (for_each (\<lambda>f. andThen (note_fact (record_safety_cleanup_failure f)) (\<lambda>_. return None))
          (?c artifacts @ ?c service) :: (unit, unit option) run_action) (\<lambda>_. return ()))"
      using that by (intro triple_seq [OF each triple_return]) (simp, simp split: option.splits)
  qed
  have "runs (?ok artifacts) (\<lambda>_. cleaned)
      (andThen (ask_run CleanWithService (sv_safety_cleanup sv)) (\<lambda>service.
       andThen (for_each (\<lambda>f. andThen (note_fact (record_safety_cleanup_failure f)) (\<lambda>_. return None))
          (?c artifacts @ ?c service)) (\<lambda>_ :: unit option. return ())) :: (unit, unit) run_action)" for artifacts
    by (rule triple_pure, rule triple_seq [OF asked(2) recorded])
  then show ?thesis
    unfolding safety_cleanup_def by (intro triple_seq [OF first] triple_seq [OF asked(1)])
qed

lemma run_to_cleanup_runs:
  assumes "\<And>prep choices ts. runs (stage Preparing (before_assets False False False)) (\<lambda>_. in_work) (work prep choices ts)"
    and "reports_cleanup sv"
  shows "runs (\<lambda>ev. ev = new_evidence (sv_observations sv)) (\<lambda>final ev. cleaned ev \<and> final \<noteq> SafetyCleanup)
     (run_to_cleanup sv work request)"
proof -
  have observed: "runs cleaned (\<lambda>_. cleaned)
      (if b then on_evidence record_cancellation_observation else return () :: (unit, unit) run_action)" for b
  proof (rule triple_if)
    have "cleaned ev \<Longrightarrow> cleaned (record_cancellation_observation ev)" for ev
      using reachable_steps(16) [of ev] attempts_in_order_cong [of "storage_of (record_cancellation_observation ev)" "storage_of ev"]
      by (simp add: cleaned_def record_cancellation_observation_def current_phase_updates)
    then show "runs cleaned (\<lambda>_. cleaned) (on_evidence record_cancellation_observation :: (unit, unit) run_action)"
      by (rule triple_on)
  qed (rule triple_return)
  have published: "runs in_work (\<lambda>_. in_work) (on_evidence publish_diagnostics :: (unit, unit) run_action)"
    by (rule triple_on) (rule stage_carried(3) [OF carried_diagnostics(3)])
  have reached: "runs in_work (\<lambda>final ev. in_work ev \<and> final \<noteq> SafetyCleanup)
      (read_state (\<lambda>s. reached_phase (run_evidence s)) :: (unit, run_phase) run_action)"
    by (rule triple_read) (auto simp: in_work_def reached_phase_def split: option.splits)
  have ended: "runs (\<lambda>ev. in_work ev \<and> final \<noteq> SafetyCleanup) (\<lambda>final ev. cleaned ev \<and> final \<noteq> SafetyCleanup)
     (andThen (safety_cleanup sv) (\<lambda>_. andThen stop_requested (\<lambda>stop.
      andThen (if stop \<or> b then on_evidence record_cancellation_observation else return ()) (\<lambda>_.
      return final))) :: (unit, run_phase) run_action)" for final b
    by (rule triple_pure, rule triple_seq [OF safety_cleanup_runs [OF assms(2)]],
        rule triple_seq [OF triple_stop [where Q = "\<lambda>_. cleaned"]], assumption, rule triple_seq [OF observed],
        rule triple_return) simp
  show ?thesis
    unfolding run_to_cleanup_def
    by (rule triple_seq [OF contained_traversal_runs [OF assms(1)]], rule triple_seq [OF published],
        rule triple_seq [OF reached ended])
qed

end
