(* ===== verification/RunCompletion.thy ===== *)
theory RunCompletion
  imports RunTraversal
begin

text \<open>
  Why a run's work stops early, and what a run that reports success has done. A state excuses a stop
  when its token is found set, a failure is retained, or an attempt after which nothing may follow is
  recorded; every early stop is excused, or is the cancellation of a backend.
\<close>

subsection \<open>Excuses\<close>

definition excused :: "running \<Rightarrow> bool" where
  "excused s =
     (run_token s = Some 0 \<or> failures (storage_of (run_evidence s)) \<noteq> []
      \<or> \<not> list_all extraction_safe (archive_extraction_attempts (storage_of (run_evidence s)))
      \<or> \<not> list_all asset_safe (asset_attempts (storage_of (run_evidence s))))"

definition ends :: "(running \<Rightarrow> bool) \<Rightarrow> ('a \<Rightarrow> running \<Rightarrow> bool) \<Rightarrow> ('e, 'a) run_action \<Rightarrow> bool" where
  "ends P Q m = (\<forall>s x s'. P s \<longrightarrow> m s = (Done x, s') \<longrightarrow> Q x s')"

lemma endsI: "(\<And>s x s'. P s \<Longrightarrow> m s = (Done x, s') \<Longrightarrow> Q x s') \<Longrightarrow> ends P Q m"
  unfolding ends_def by blast

lemma endsD: "ends P Q m \<Longrightarrow> P s \<Longrightarrow> m s = (Done x, s') \<Longrightarrow> Q x s'"
  unfolding ends_def by blast

lemma ends_seq: "ends P R m \<Longrightarrow> (\<And>x. ends (R x) Q (f x)) \<Longrightarrow> ends P Q (andThen m f)"
  unfolding ends_def by (metis andThen_Done)

lemma ends_return: "(\<And>s. P s \<Longrightarrow> Q x s) \<Longrightarrow> ends P Q (return x)"
  by (simp add: ends_def run_simps)

lemma ends_raise: "ends P Q (raise e)"
  by (simp add: ends_def run_simps)

lemma ends_weaken: "ends P' Q' m \<Longrightarrow> (\<And>s. P s \<Longrightarrow> P' s) \<Longrightarrow> (\<And>x s. Q' x s \<Longrightarrow> Q x s) \<Longrightarrow> ends P Q m"
  unfolding ends_def by blast

lemma ends_any: "ends P (\<lambda>_ _. True) m"
  by (simp add: ends_def)

lemma ends_triple: "runs P Q m \<Longrightarrow> ends (\<lambda>s. P (run_evidence s)) (\<lambda>x s. Q x (run_evidence s)) m"
  by (rule endsI) (drule (2) tripleD, simp)

lemma ends_imp: "ends (\<lambda>_. True) Q m \<Longrightarrow> ends P Q m"
  by (erule ends_weaken) simp_all

lemma ends_if: "(b \<Longrightarrow> ends P Q m) \<Longrightarrow> (\<not> b \<Longrightarrow> ends P Q n) \<Longrightarrow> ends P Q (if b then m else n)"
  by simp

lemma ends_both: "ends P Q m \<Longrightarrow> ends P R m \<Longrightarrow> ends P (\<lambda>x s. Q x s \<and> R x s) m"
  unfolding ends_def by blast

lemma ends_stop: "ends P (\<lambda>stop s. (stop \<longrightarrow> run_token s = Some 0)) stop_requested"
  by (auto simp: ends_def stop_requested_def is_cancelled_def split: prod.splits)

lemma ends_stop_keeps:
  "(\<And>s t. P s \<Longrightarrow> P (s\<lparr>run_token := t\<rparr>)) \<Longrightarrow> ends P (\<lambda>stop s. P s \<and> (stop \<longrightarrow> run_token s = Some 0)) stop_requested"
  by (auto simp: ends_def stop_requested_def is_cancelled_def split: prod.splits)

subsection \<open>The stops of the work phases\<close>

definition halts :: "('e, 'a flow) run_action \<Rightarrow> bool" where
  "halts m = ends (\<lambda>_. True) (\<lambda>r s. case r of Continue _ \<Rightarrow> True | Break why \<Rightarrow> why = BackendCancelled \<or> excused s) m"

definition leaves :: "('e, stop option) run_action \<Rightarrow> bool" where
  "leaves m = ends (\<lambda>_. True) (\<lambda>r s. case r of None \<Rightarrow> True | Some why \<Rightarrow> why = BackendCancelled \<or> excused s) m"

lemma halts_after: "(\<And>x. halts (f x)) \<Longrightarrow> halts (andThen m f)"
  unfolding halts_def by (rule ends_seq [OF ends_any])

lemma leaves_after: "(\<And>x. leaves (f x)) \<Longrightarrow> leaves (andThen m f)"
  unfolding leaves_def by (rule ends_seq [OF ends_any])

lemma halts_continue: "halts (return (Continue x))" and leaves_none: "leaves (return None)"
  and leaves_backend: "leaves (return (Some BackendCancelled))"
  by (simp_all add: halts_def leaves_def ends_return)

lemma halts_stop: "halts m \<Longrightarrow> halts (andThen stop_requested (\<lambda>stop. if stop then return (Break Halted) else m))"
  unfolding halts_def
  by (rule ends_seq [OF ends_stop], rule ends_if, rule ends_return, simp add: excused_def, erule ends_imp)

lemma leaves_stop: "leaves m \<Longrightarrow> leaves (andThen stop_requested (\<lambda>stop. if stop then return (Some Halted) else m))"
  unfolding leaves_def
  by (rule ends_seq [OF ends_stop], rule ends_if, rule ends_return, simp add: excused_def, erule ends_imp)

lemma record_failure_excuses: "failures (storage_of (record_failure f ev)) \<noteq> []"
  by (simp add: record_failure_def retain_failure_def)

lemma halts_failure: "halts (andThen (on_evidence (record_failure f)) (\<lambda>_. return (Break why)))"
  by (auto simp: halts_def ends_def andThen_apply on_evidence_def run_simps excused_def record_failure_excuses)

lemma leaves_each: "(\<And>x. leaves (body x)) \<Longrightarrow> leaves (for_each body xs)"
proof (induction xs)
  case (Cons x xs)
  then have rest: "leaves (for_each body xs)" and one: "leaves (body x)" by simp_all
  show ?case
    unfolding for_each.simps leaves_def
  proof (rule ends_seq [OF one [unfolded leaves_def]])
    fix r :: "stop option"
    show "ends (\<lambda>s. case r of None \<Rightarrow> True | Some why \<Rightarrow> why = BackendCancelled \<or> excused s)
        (\<lambda>r s. case r of None \<Rightarrow> True | Some why \<Rightarrow> why = BackendCancelled \<or> excused s)
        (case r of None \<Rightarrow> for_each body xs | Some v \<Rightarrow> return (Some v))"
      using rest by (cases r) (simp_all add: leaves_def ends_return)
  qed
qed (simp add: leaves_none)

lemma halts_loop: "leaves m \<Longrightarrow> halts (andThen m continue_unless_stopped)"
  unfolding leaves_def halts_def continue_unless_stopped_def
proof (erule ends_seq)
  fix r
  have "ends (\<lambda>_. True) (\<lambda>r s. case r of Continue _ \<Rightarrow> True | Break why \<Rightarrow> why = BackendCancelled \<or> excused s)
      (andThen stop_requested (\<lambda>stop. return (if stop then Break Halted else Continue ())))"
    by (rule ends_seq [OF ends_stop], rule ends_return) (simp add: excused_def)
  then show "ends (\<lambda>s. case r of None \<Rightarrow> True | Some why \<Rightarrow> why = BackendCancelled \<or> excused s)
      (\<lambda>r s. case r of Continue _ \<Rightarrow> True | Break why \<Rightarrow> why = BackendCancelled \<or> excused s)
      (case r of Some why \<Rightarrow> return (Break why)
       | None \<Rightarrow> andThen stop_requested (\<lambda>stop. return (if stop then Break Halted else Continue ())))"
    by (cases r) (simp_all add: ends_return)
qed

lemma halts_if: "(b \<Longrightarrow> halts m) \<Longrightarrow> (\<not> b \<Longrightarrow> halts n) \<Longrightarrow> halts (if b then m else n)"
  by simp

text \<open>A walk is left unfinished, and a preflight cancelled, only by the token.\<close>

lemma unfinished_walk: "visit phase root tree w = (complete, files, w') \<Longrightarrow> complete \<or> walk_token w' = Some 0"
  using visit_finds [of root tree w phase] by (simp add: finds_def)

lemma archive_pass_ends:
  "ends (\<lambda>_. True) (\<lambda>(complete, _) s. complete \<or> run_token s = Some 0)
     (archive_pass ts policy roots b found :: (error, bool \<times> archive_batch \<times> root_archives list) run_action)"
proof (induction roots arbitrary: b found)
  case (Cons root roots)
  have walked: "ends (\<lambda>_. True) (\<lambda>(complete, _) s. complete \<or> run_token s = Some 0)
      (walk_root ts DiscoveringArchives root :: (error, bool \<times> path list) run_action)"
    by (rule endsI) (auto simp: walk_root_def split: prod.splits dest: unfinished_walk)
  show ?case
    unfolding archive_pass.simps Let_def
    by (rule ends_seq [OF walked], simp only: split: prod.split, intro allI impI ends_if, rule ends_return, simp,
        rule ends_imp, rule Cons.IH)
qed (simp add: ends_return)

lemma definitive_pass_ends:
  "ends (\<lambda>_. True) (\<lambda>(complete, _) s. complete \<or> run_token s = Some 0)
     (definitive_pass ts policy known roots t :: (error, bool \<times> effective_tree) run_action)"
proof (induction roots arbitrary: t)
  case (Cons root roots)
  have walked: "ends (\<lambda>_. True) (\<lambda>(complete, _) s. complete \<or> run_token s = Some 0)
      (walk_root ts BuildingEffectiveAssetTree root :: (error, bool \<times> path list) run_action)"
    by (rule endsI) (auto simp: walk_root_def split: prod.splits dest: unfinished_walk)
  show ?case
    unfolding definitive_pass.simps Let_def
    by (rule ends_seq [OF walked], simp only: split: prod.split, intro allI impI ends_if, rule ends_return, simp,
        rule ends_imp, rule Cons.IH)
qed (simp add: ends_return)

lemma scan_entries_cancelled:
  "scan_entries view root archive directory own provided t entries = (Err ScanCancelled, t') \<Longrightarrow> t' = Some 0"
  by (induction entries arbitrary: own provided t t')
    (auto simp: is_cancelled_def split: prod.splits sum.splits if_splits)

lemma scan_archives_cancelled:
  "scan_archives view root provided t archives = (Err ScanCancelled, t') \<Longrightarrow> t' = Some 0"
  by (induction archives arbitrary: provided t t')
    (auto simp: is_cancelled_def dest: scan_entries_cancelled split: prod.splits sum.splits if_splits)

lemma scan_roots_cancelled: "scan_roots view i t roots = (Err ScanCancelled, t') \<Longrightarrow> t' = Some 0"
  by (induction roots arbitrary: i t t')
    (auto dest: scan_archives_cancelled split: prod.splits sum.splits)

lemma preflight_cancelled:
  "ArchivePreflight.preflight view probe mode precedence roots t st = (Some preflight.Cancelled, t', st') \<Longrightarrow> t' = Some 0"
  by (auto simp: preflight_def plan_roots_def Let_def preflight_verdict_def dest: scan_roots_cancelled
      split: sum.splits prod.splits scan_stop.splits if_splits capacity_verdict.splits)

subsection \<open>Every phase excuses its stops\<close>

lemma discover_halts: "halts (discover_archives ts prep)"
proof -
  have planned: "halts (andThen (record_fact (record_archive_collisions collisions)) (\<lambda>_.
         andThen (case w of None \<Rightarrow> return () | Some x \<Rightarrow> record_capacity_warning x) (\<lambda>_.
         return (Continue (known, plans)))))" for collisions w and known :: "path list" and plans :: "extraction_plan list"
    by (intro halts_after halts_continue)
  have preflighted: "halts (andThen (preflight_archives ts precedence roots) (\<lambda>p. case p of
       preflight.Failed f \<Rightarrow> andThen (on_evidence (record_failure f)) (\<lambda>_. return (Break Halted))
     | preflight.Cancelled \<Rightarrow> return (Break Halted)
     | preflight.Planned plans collisions w \<Rightarrow>
         andThen (record_fact (record_archive_collisions collisions)) (\<lambda>_.
         andThen (case w of None \<Rightarrow> return () | Some x \<Rightarrow> record_capacity_warning x) (\<lambda>_.
         return (Continue (known, plans))))))" for precedence roots and known :: "path list"
    unfolding halts_def
  proof (rule ends_seq)
    show "ends (\<lambda>_. True) (\<lambda>p s. p = preflight.Cancelled \<longrightarrow> run_token s = Some 0)
        (preflight_archives ts precedence roots :: (error, preflight) run_action)"
      by (rule endsI) (auto simp: preflight_archives_def dest: preflight_cancelled split: prod.splits option.splits)
    fix p :: preflight
    show "ends (\<lambda>s. p = preflight.Cancelled \<longrightarrow> run_token s = Some 0)
        (\<lambda>r s. case r of Continue _ \<Rightarrow> True | Break why \<Rightarrow> why = BackendCancelled \<or> excused s) (case p of
       preflight.Failed f \<Rightarrow> andThen (on_evidence (record_failure f)) (\<lambda>_. return (Break Halted))
     | preflight.Cancelled \<Rightarrow> return (Break Halted)
     | preflight.Planned plans collisions w \<Rightarrow>
         andThen (record_fact (record_archive_collisions collisions)) (\<lambda>_.
         andThen (case w of None \<Rightarrow> return () | Some x \<Rightarrow> record_capacity_warning x) (\<lambda>_.
         return (Continue (known, plans)))))"
    proof (cases p)
      case (Failed f)
      show ?thesis unfolding Failed preflight.case
        by (rule ends_imp) (rule halts_failure [unfolded halts_def])
    next
      case Cancelled
      then show ?thesis by (simp add: ends_return excused_def)
    next
      case (Planned plans collisions w)
      show ?thesis unfolding Planned preflight.case
        by (rule ends_imp) (rule planned [unfolded halts_def])
    qed
  qed
  have counted: "ends (\<lambda>s. complete \<or> run_token s = Some 0) (\<lambda>_ s. complete \<or> run_token s = Some 0)
      (record_fact step)" for complete step
    by (rule endsI) (auto simp: record_fact_def split: prod.splits option.splits)
  show ?thesis
    unfolding discover_archives_def
    by (rule halts_after, unfold halts_def, rule ends_seq [OF archive_pass_ends], simp only: split: prod.split,
        intro allI impI ends_seq [OF counted] ends_if)
      (simp add: ends_return excused_def, rule ends_imp, rule preflighted [unfolded halts_def])
qed

lemma accept_phase_done: "fst (accept_phase r ev) = None \<Longrightarrow> acceptable r (storage_of ev)"
  by (cases "validate_progress r"; cases "last_record (storage_of ev)")
    (auto simp: accept_phase_def acceptable_def Let_def phase_index_inj split: if_splits option.splits)

lemma record_attempt_retains:
  assumes "record_attempt_progress T a ev = (None, ev')"
  shows "same_facts ((retain T a (storage_of ev))\<lparr>phases := phases (storage_of ev')\<rparr>) (storage_of ev')"
proof -
  obtain r where r: "snd (record_attempt_progress T a ev) = snd (accept_phase r (update_storage (retain T a) ev))"
      "fst (accept_phase r (update_storage (retain T a) ev)) = None"
    using assms
    by (auto simp: record_attempt_progress_def Let_def split: option.splits if_splits) (metis fst_conv snd_conv)
  then have acc: "acceptable r (retain T a (storage_of ev))"
    using accept_phase_done [of r "update_storage (retain T a) ev"] by simp
  let ?u = "update_storage (\<lambda>s. s\<lparr>phases := phases_after r (retain T a (storage_of ev))\<rparr>) (update_storage (retain T a) ev)"
  have "ev' = report_safely (record_of r) (PubPhase r) ?u"
    using assms r(1) accept_phase_accepted [of r "update_storage (retain T a) ev"] acc by simp
  then show ?thesis
    using same_facts_report [of ?u] by simp
qed

lemma extract_halts: "halts (extract_archives ts mode plans cleanup)"
proof -
  have recorded: "ends (\<lambda>_. True) (\<lambda>_ s. extraction_safe a \<or> excused s)
      (record_fact (record_attempt_progress extraction_attempt a) :: (error, unit) run_action)" for a
  proof (rule endsI)
    fix s x s'
    assume "(record_fact (record_attempt_progress extraction_attempt a) :: (error, unit) run_action) s = (Done x, s')"
    then obtain ev' where ev': "record_attempt_progress extraction_attempt a (run_evidence s) = (None, ev')"
        "s' = s\<lparr>run_evidence := ev'\<rparr>"
      by (auto simp: record_fact_def split: prod.splits option.splits)
    have "archive_extraction_attempts (storage_of ev') = archive_extraction_attempts (storage_of (run_evidence s)) @ [a]"
      using same_facts_fields(5) [OF record_attempt_retains [OF ev'(1)]] by (simp add: extraction_attempt_def)
    then show "extraction_safe a \<or> excused s'" by (auto simp: excused_def ev'(2))
  qed
  have attempted: "leaves (andThen (record_fact (record_attempt_progress extraction_attempt (a\<lparr>extraction_root := root\<rparr>)))
      (\<lambda>_. return (if safe_to_continue (extraction_outcome a) then None else Some Halted)))" for a root
    unfolding leaves_def by (rule ends_seq [OF recorded], rule ends_return) (auto simp: extraction_safe_def)
  have "leaves (extract_one ts cleanup plan)" for plan
    unfolding extract_one_def by (intro leaves_stop leaves_after attempted)
  moreover have "leaves (andThen (record_fact step) (\<lambda>_. return None))" for step
    by (intro leaves_after leaves_none)
  ultimately show ?thesis
    unfolding extract_archives_def plan_archive_extractions_def
    by (intro halts_stop halts_if halts_after halts_loop leaves_each halts_continue)
qed

lemma build_halts: "halts (build_effective_asset_tree ts prep known)"
proof -
  have counted: "halts (andThen (record_fact (record_nested_archive_count n)) (\<lambda>_. return (Continue l)))"
    for n and l :: routing_ledger
    by (rule halts_after, rule halts_continue)
  have "halts (andThen (definitive_pass ts (prep_policy prep) known (prep_mod_roots prep)
                \<lparr>nested_archives = [], effective_paths = []\<rparr>) (\<lambda>(complete, t).
     if \<not> complete then return (Break Halted)
     else andThen (record_fact (record_nested_archive_count (length (nested_archives t)))) (\<lambda>_.
     return (Continue (route_all (prep_policy prep) (effective_paths t))))))"
    unfolding halts_def
    by (rule ends_seq [OF definitive_pass_ends], simp only: split: prod.split, intro allI impI ends_if)
      (simp add: ends_return excused_def, rule ends_imp, rule counted [unfolded halts_def])
  then show ?thesis
    unfolding build_effective_asset_tree_def by (intro halts_after [OF halts_stop])
qed

lemma process_halts: "halts (process_assets ts prep l)"
proof -
  have recorded: "ends (\<lambda>_. True) (\<lambda>_ s. asset_safe a \<or> excused s)
      (record_fact (record_attempt_progress asset_attempt a) :: (error, unit) run_action)" for a
  proof (rule endsI)
    fix s x s'
    assume "(record_fact (record_attempt_progress asset_attempt a) :: (error, unit) run_action) s = (Done x, s')"
    then obtain ev' where ev': "record_attempt_progress asset_attempt a (run_evidence s) = (None, ev')"
        "s' = s\<lparr>run_evidence := ev'\<rparr>"
      by (auto simp: record_fact_def split: prod.splits option.splits)
    have "asset_attempts (storage_of ev') = asset_attempts (storage_of (run_evidence s)) @ [a]"
      using same_facts_fields(8) [OF record_attempt_retains [OF ev'(1)]] by (simp add: asset_attempt_def)
    then show "asset_safe a \<or> excused s'" by (auto simp: excused_def ev'(2))
  qed
  have attempted: "leaves (case attempt of
       None \<Rightarrow> return (Some BackendCancelled)
     | Some (root, result) \<Rightarrow>
         andThen (record_fact (record_attempt_progress asset_attempt
                    \<lparr>attempt_root = root, attempt_asset = asset, attempt_result = result\<rparr>)) (\<lambda>_.
         return (if safe_to_continue (asset_outcome result) then None else Some Halted)))" for attempt asset
  proof (cases attempt)
    case None
    show ?thesis unfolding None option.case by (rule leaves_backend)
  next
    case (Some x)
    then obtain root result where x: "attempt = Some (root, result)" by (cases x) simp
    show ?thesis unfolding x option.case prod.case leaves_def
      by (rule ends_seq [OF recorded], rule ends_return) (auto simp: asset_safe_def)
  qed
  have "leaves (process_asset ts roots asset)" for roots asset
    unfolding process_asset_def by (intro leaves_stop leaves_after attempted)
  then show ?thesis
    unfolding process_assets_def by (intro halts_after halts_loop leaves_each)
qed

subsection \<open>Planning is cancelled only by the token\<close>

definition cancels :: "(planning_stop, 'a) fin_action \<Rightarrow> bool" where
  "cancels m = (\<forall>s s'. m s = (Raise PlanningCancelled, s') \<longrightarrow> fz_token s' = Some 0)"

lemma cancels_seq:
  assumes "cancels m" and "\<And>x. cancels (f x)"
  shows "cancels (andThen m f)"
  unfolding cancels_def
proof (intro allI impI)
  fix s s'
  assume run: "andThen m f s = (Raise PlanningCancelled, s')"
  show "fz_token s' = Some 0"
  proof (cases m s f rule: andThen_cases)
    case (finished x t)
    then show ?thesis using run assms(2) [of x] by (simp add: cancels_def)
  next
    case (raised e t)
    then show ?thesis using run assms(1) by (simp add: cancels_def)
  qed (use run in simp)
qed

lemma cancels_leaf:
  "cancels (return x)" "cancels (raise (PlanningFailed what))" "cancels (panic p)" "cancels (ask c a)"
  "cancels (map_err PlanningFailed n)" "cancels (fin_check env at d)" "cancels check"
  by (auto simp: cancels_def run_simps map_err_def ask_def fin_check_def check_def cancelled_def andThen_apply
      is_cancelled_def split: prod.splits outcome.splits)

lemma cancels_each: "(\<And>x. cancels (body x)) \<Longrightarrow> cancels (for_each body xs)"
  by (induction xs) (auto intro!: cancels_seq cancels_leaf split: option.split)

lemma cancels_fold: "(\<And>x acc. cancels (body x acc)) \<Longrightarrow> cancels (fold_each body xs acc)"
  by (induction xs arbitrary: acc) (auto intro!: cancels_seq cancels_leaf)

lemmas cancels_rules = cancels_seq cancels_leaf cancels_each cancels_fold

lemma collect_sources_cancels: "cancels (collect_sources env root rules)"
proof -
  have entry: "source_entry env root rules dir entry \<noteq> Err PlanningCancelled" for dir entry
    by (cases entry) (auto simp: cannot_inspect_input_def Let_def split: sum.splits)
  have lifted: "cancels (lift_result (source_entry env root rules dir entry))" for dir entry
    using entry [of dir entry] by (auto simp: cancels_def lift_result_def run_simps split: sum.splits)
  then have "cancels (scan_sources env root rules dir entries sources)" for dir entries sources
    unfolding scan_sources_def by (intro cancels_rules)
  then have "cancels (collect_loop env root rules pending sources)" for pending sources
    by (induction env root rules pending sources rule: collect_loop.induct)
      (auto intro!: cancels_rules simp: cannot_inspect_input_def)
  then show ?thesis unfolding collect_sources_def by (intro cancels_rules)
qed

lemma exact_dummy_cancels: "cancels (has_exact_dummy_bytes env p bytes)"
  unfolding has_exact_dummy_bytes_def by (auto intro!: cancels_rules split: entry_answer.split)

lemma plan_archive_cancels: "cancels (plan_archive env root plugins archive acc)"
proof -
  have sized: "cancels (size_source env p)" for p
    unfolding size_source_def Let_def by (auto intro!: cancels_rules split: entry_answer.split)
  then have estimated: "cancels (estimate_packed_capacity env out dummy check)" for out dummy
    unfolding estimate_packed_capacity_def by (auto intro!: cancels_rules)
  have "cancels (name_available env reserved candidate)" for reserved candidate
    unfolding name_available_def Let_def by (auto intro!: cancels_rules split: entry_answer.split)
  then have "cancels (try_name env reserved candidate)" for reserved candidate
    unfolding try_name_def by (auto intro!: cancels_rules)
  then have "cancels (select_name env suffix plugins reserved)" for suffix reserved
    unfolding select_name_def Let_def by (auto intro!: cancels_rules split: option.split)
  then show ?thesis
    unfolding plan_archive_def Let_def using estimated
    by (auto intro!: cancels_rules split: prod.split)
qed

lemma plan_finalization_cancels: "cancels (plan_finalization env roots choices rules)"
proof -
  have "cancels (root_plugins env root)" for root
    unfolding root_plugins_def by (auto intro!: cancels_rules exact_dummy_cancels split: option.split)
  moreover have "cancels (existing_allowance env plan root)" for plan root
    unfolding existing_allowance_def by (auto intro!: cancels_rules)
  ultimately have "cancels (plan_root_outputs env merge rules input acc)" for merge input acc
    unfolding plan_root_outputs_def Let_def
    by (auto intro!: cancels_rules collect_sources_cancels plan_archive_cancels split: prod.split)
  then show ?thesis
    unfolding plan_finalization_def by (auto intro!: cancels_rules split: prod.split)
qed

lemma plan_creation_cancelled:
  assumes "(plan_archive_creation env choices prep :: ('e, creation_planning) fin_action) s = (Done CreationCancelled, s')"
  shows "fz_token s' = Some 0"
proof -
  let ?m = "andThen (plan_finalization env (prep_mod_roots prep) choices (packing_exclusions_of env prep)) (\<lambda>plan.
         andThen (fin_check env BeforeCreation (fst (creation_demand plan))) (\<lambda>v. return (planned_outputs plan, v)))"
  have m: "cancels ?m" by (intro cancels_rules plan_finalization_cancels)
  have "creation_requested prep"
    using assms by (rule contrapos_pp) (simp add: plan_archive_creation_def run_simps)
  with assms obtain x t where x: "(catch_unwind ?m :: ('e, (planning_stop, planned_output_archive list \<times> capacity_verdict) outcome) fin_action) s = (Done x, t)"
    "(case x of
        Done (outs, Fits) \<Rightarrow> (return (CreationPlanned outs None) :: ('e, creation_planning) fin_action)
      | Done (outs, Warn w) \<Rightarrow> return (CreationPlanned outs (Some w))
      | Done (outs, _) \<Rightarrow> panic ''Archive creation is planned only in a Dry Run''
      | Raise PlanningCancelled \<Rightarrow> return CreationCancelled
      | Raise (PlanningFailed what) \<Rightarrow> return (CreationFailed what)
      | Panic message \<Rightarrow> return (CreationFailed message)) t = (Done CreationCancelled, s')"
    unfolding plan_archive_creation_def by (simp only: if_True not_True_eq_False if_False) (erule andThen_Done, blast)
  from x(2) have "x = Raise PlanningCancelled \<and> t = s'"
    by (auto simp: run_simps split: outcome.splits prod.splits capacity_verdict.splits planning_stop.splits)
  moreover have "?m s = (x, t)"
    using x(1) by (auto simp: catch_unwind_def split: prod.splits)
  ultimately show ?thesis using m by (simp add: cancels_def)
qed

lemma finalize_halts: "halts (finalize_archives_phase ts prep mode choices)"
proof -
  have planned: "halts (andThen (within_finalization PlanCreation
       (\<lambda>h. plan_archive_creation (finalization_seams ts h) choices prep)) (\<lambda>planned. case planned of
       NotRequested \<Rightarrow> return (Continue ())
     | CreationPlanned outs w \<Rightarrow>
         andThen (case w of None \<Rightarrow> return () | Some x \<Rightarrow> record_capacity_warning x) (\<lambda>_.
         record_planned_outputs outs)
     | CreationCancelled \<Rightarrow> return (Break Halted)
     | CreationFailed what \<Rightarrow>
         andThen (on_evidence (record_failure
                    (new_run_failure ArchiveCreationPlanningFailed ArchiveFinalization what)))
           (\<lambda>_. return (Break Halted))))"
    unfolding halts_def
  proof (rule ends_seq)
    show "ends (\<lambda>_. True) (\<lambda>p s. p = CreationCancelled \<longrightarrow> run_token s = Some 0)
        (within_finalization PlanCreation (\<lambda>h. plan_archive_creation (finalization_seams ts h) choices prep)
          :: (error, creation_planning) run_action)"
      by (rule endsI) (auto simp: within_finalization_def end_finalizing_def dest: plan_creation_cancelled
          split: prod.splits)
    fix p :: creation_planning
    have recorded: "halts (andThen (case w of None \<Rightarrow> return () | Some x \<Rightarrow> record_capacity_warning x) (\<lambda>_.
         record_planned_outputs outs))" for w outs
      unfolding record_planned_outputs_def by (intro halts_after halts_continue)
    show "ends (\<lambda>s. p = CreationCancelled \<longrightarrow> run_token s = Some 0)
        (\<lambda>r s. case r of Continue _ \<Rightarrow> True | Break why \<Rightarrow> why = BackendCancelled \<or> excused s) (case p of
       NotRequested \<Rightarrow> return (Continue ())
     | CreationPlanned outs w \<Rightarrow>
         andThen (case w of None \<Rightarrow> return () | Some x \<Rightarrow> record_capacity_warning x) (\<lambda>_.
         record_planned_outputs outs)
     | CreationCancelled \<Rightarrow> return (Break Halted)
     | CreationFailed what \<Rightarrow>
         andThen (on_evidence (record_failure
                    (new_run_failure ArchiveCreationPlanningFailed ArchiveFinalization what)))
           (\<lambda>_. return (Break Halted)))"
      using recorded halts_failure halts_continue
      by (cases p) (simp_all add: ends_return excused_def halts_def)
  qed
  show ?thesis
    unfolding finalize_archives_phase_def plan_archive_finalization_phase_def
    by (rule halts_after, rule halts_stop, rule halts_if, rule halts_after, rule halts_stop, rule planned,
        rule halts_after, rule halts_stop, rule halts_after, rule halts_continue)
qed

lemma halts_chain:
  assumes "halts m" and "\<And>x. halts (f x)"
  shows "halts (chain m f)"
  unfolding chain_def halts_def
proof (rule ends_seq [OF assms(1) [unfolded halts_def]])
  fix r
  show "ends (\<lambda>s. case r of Continue _ \<Rightarrow> True | Break why \<Rightarrow> why = BackendCancelled \<or> excused s)
      (\<lambda>r s. case r of Continue _ \<Rightarrow> True | Break why \<Rightarrow> why = BackendCancelled \<or> excused s)
      (case r of Continue x \<Rightarrow> f x | Break why \<Rightarrow> return (Break why))"
    using assms(2) by (cases r) (simp_all add: ends_return halts_def)
qed

lemma work_halts: "halts (run_work_phases prep choices ts)"
  unfolding run_work_phases_def Let_def
  by (rule halts_after, rule halts_chain [OF discover_halts], simp only: split: prod.split, intro allI impI halts_chain
      extract_halts build_halts process_halts finalize_halts)

subsection \<open>What the traversal leaves\<close>

definition settled :: "run_request \<Rightarrow> bool \<Rightarrow> running \<Rightarrow> bool" where
  "settled request backend_cancelled s =
     (backend_cancelled \<or> excused s \<or> \<not> has_requested_work request
      \<or> (\<exists>l. worked (request_execution_mode request) l (run_evidence s)))"

lemma excused_failure: "failures (storage_of (run_evidence s)) \<noteq> [] \<Longrightarrow> excused s"
  and excused_token: "run_token s = Some 0 \<Longrightarrow> excused s"
  by (simp_all add: excused_def)

lemma run_the_work_settles:
  assumes "policy_mode (prep_policy prep) = request_execution_mode request"
  shows "ends (\<lambda>s. preparing True (run_evidence s)) (settled request)
     (run_the_work run_work_phases request prep ts :: (unit, bool) run_action)"
proof (rule endsI)
  fix s b s'
  let ?w = "run_work_phases prep (request_choices request) ts"
  assume P: "preparing True (run_evidence s)"
    and run: "(run_the_work run_work_phases request prep ts :: (unit, bool) run_action) s = (Done b, s')"
  obtain r t where r: "?w s = (r, t)" by fastforce
  have left: "case r of
        Done x \<Rightarrow> (case x of Continue _ \<Rightarrow> (\<lambda>ev. \<exists>l. worked (policy_mode (prep_policy prep)) l ev) | Break _ \<Rightarrow> in_work)
          (run_evidence t)
      | Raise _ \<Rightarrow> False | Panic _ \<Rightarrow> in_work (run_evidence t)"
    using tripleD [OF run_work_phases_runs _ r] P by (simp add: preparing_def split: outcome.splits)
  show "settled request b s'"
  proof (cases r)
    case (Done x)
    then have s': "s' = t" "b = (x = Break BackendCancelled)"
      using run r by (auto simp: run_the_work_def catch_unwind_def andThen_apply escaped_work_detail_def run_simps)
    show ?thesis
    proof (cases x)
      case (Continue u)
      then show ?thesis using left Done assms by (auto simp: settled_def s')
    next
      case (Break why)
      then have "why = BackendCancelled \<or> excused t"
        using endsD [OF work_halts [unfolded halts_def] _ r [unfolded Done]] by simp
      then show ?thesis using Break by (auto simp: settled_def s')
    qed
  next
    case (Panic p)
    then have "failures (storage_of (run_evidence s')) \<noteq> []"
      using run r by (auto simp: run_the_work_def catch_unwind_def andThen_apply escaped_work_detail_def run_simps
          fail_at_current_phase_def on_evidence_def record_failure_excuses)
    then show ?thesis using excused_failure by (auto simp: settled_def)
  qed (use left in simp)
qed

lemma prepare_run_cancelled:
  "ends (\<lambda>_. True) (\<lambda>prepared s. prepared = None \<longrightarrow> run_token s = Some 0) (prepare_run request sv)"
proof -
  let ?Q = "\<lambda>prepared s. prepared = None \<longrightarrow> run_token s = Some 0"
  have last: "ends (\<lambda>_. True) ?Q (andThen stop_requested (\<lambda>stop. return (if stop then None else Some x)) ::
      (run_failure, (run_preparation \<times> toolset) option) run_action)" for x
    by (rule ends_seq [OF ends_stop], rule ends_return) simp
  have compiled: "ends (\<lambda>_. True) ?Q (case c of
        Err conflicts \<Rightarrow> raise (policy_conflict conflicts)
      | Ok policy \<Rightarrow> andThen (resolve_selection sv request profile) (\<lambda>roots.
          andThen stop_requested (\<lambda>stop. return (if stop then None else Some (f policy roots)))))"
    for c :: "policy_validation_error list + routing_policy" and profile
      and f :: "routing_policy \<Rightarrow> path list \<Rightarrow> run_preparation \<times> toolset"
    by (cases c) (simp_all add: ends_raise ends_seq [OF ends_any last])
  show ?thesis
    unfolding prepare_run_def
    by (rule ends_seq [OF ends_any], simp only: split: prod.split, intro allI impI,
        rule ends_seq [OF ends_stop], rule ends_if, rule ends_return, simp, rule ends_imp, rule compiled)
qed

lemma prepare_roots_failed:
  "ends P (\<lambda>failed s. failed \<longrightarrow> excused s) (prepare_roots sv mode prepared :: (unit, bool) run_action)"
proof -
  have left: "ends Q (\<lambda>failed s. failed \<longrightarrow> excused s) (case left of
       Some (Some f) \<Rightarrow> andThen (on_evidence (record_failure f)) (\<lambda>_. return True)
     | _ \<Rightarrow> (return False :: (unit, bool) run_action))" for left Q
    by (auto simp: ends_def run_simps andThen_apply on_evidence_def excused_def record_failure_excuses
        split: option.splits)
  show ?thesis
  proof (cases prepared)
    case None
    show ?thesis unfolding None prepare_roots_def option.case by (rule ends_return) simp
  next
    case (Some x)
    show ?thesis
      unfolding Some prepare_roots_def option.case
      by (cases x, simp only: prod.case, rule ends_if, rule ends_return, simp, rule ends_seq [OF ends_any left])
  qed
qed

text \<open>The answer of Preparing with what the state says of it.\<close>

definition answered ::
    "run_request \<Rightarrow> run_failure + (run_preparation \<times> toolset) option \<Rightarrow> running \<Rightarrow> bool" where
  "answered request answer s =
     (case answer of
        Err _ \<Rightarrow> failures (storage_of (run_evidence s)) \<noteq> []
      | Ok prepared \<Rightarrow> preparing False (run_evidence s) \<and> prepared_in_mode (request_execution_mode request) prepared
          \<and> (prepared = None \<longrightarrow> run_token s = Some 0))"

definition chosen :: "run_request \<Rightarrow> bool \<Rightarrow> bool \<Rightarrow> (run_preparation \<times> toolset) option \<Rightarrow> running \<Rightarrow> bool" where
  "chosen request b failed kept s =
     (if failed then excused s
      else run_token s = Some 0
        \<or> (\<exists>x. kept = Some x \<and> preparing b (run_evidence s)
             \<and> prepared_in_mode (request_execution_mode request) kept))"

lemma traverse_settles:
  "ends (\<lambda>s. run_evidence s = new_evidence (sv_observations sv)) (settled request) (traverse sv run_work_phases request)"
proof -
  let ?mode = "request_execution_mode request"
  have first: "ends (\<lambda>s. run_evidence s = new_evidence (sv_observations sv)) (\<lambda>_ s. preparing False (run_evidence s))
      (note_fact (record_phase (executed Preparing None)) :: (unit, unit) run_action)"
    by (rule ends_triple, rule triple_note) (simp add: run_started)
  have stopped: "ends (\<lambda>s. preparing b (run_evidence s))
      (\<lambda>stop s. preparing b (run_evidence s) \<and> (stop \<longrightarrow> run_token s = Some 0)) (stop_requested :: (unit, bool) run_action)" for b
    by (rule ends_stop_keeps) simp
  have asked: "ends (\<lambda>s. preparing False (run_evidence s) \<and> (stop \<longrightarrow> run_token s = Some 0))
      (\<lambda>answer s. case answer of Err _ \<Rightarrow> True | Ok _ \<Rightarrow> answered request answer s)
      (if stop then return (Ok None) else try_action (prepare_run request sv)
         :: (unit, run_failure + (run_preparation \<times> toolset) option) run_action)" for stop
  proof (rule ends_if)
    show "ends (\<lambda>s. preparing False (run_evidence s) \<and> (stop \<longrightarrow> run_token s = Some 0))
      (\<lambda>answer s. case answer of Err _ \<Rightarrow> True | Ok _ \<Rightarrow> answered request answer s)
      (return (Ok None) :: (unit, run_failure + (run_preparation \<times> toolset) option) run_action)" if stop
      using that by (intro ends_return) (simp add: answered_def prepared_in_mode_def)
    show "ends (\<lambda>s. preparing False (run_evidence s) \<and> (stop \<longrightarrow> run_token s = Some 0))
      (\<lambda>answer s. case answer of Err _ \<Rightarrow> True | Ok _ \<Rightarrow> answered request answer s)
      (try_action (prepare_run request sv) :: (unit, run_failure + (run_preparation \<times> toolset) option) run_action)"
    proof (rule endsI)
      fix s answer s'
      assume P: "preparing False (run_evidence s) \<and> (stop \<longrightarrow> run_token s = Some 0)"
        and run: "(try_action (prepare_run request sv) :: (unit, run_failure + (run_preparation \<times> toolset) option) run_action) s
          = (Done answer, s')"
      show "case answer of Err _ \<Rightarrow> True | Ok _ \<Rightarrow> answered request answer s'"
      proof (cases answer)
        case (Inr prepared)
        then have m: "prepare_run request sv s = (Done prepared, s')"
          using run by (auto simp: try_action_def split: prod.splits outcome.splits)
        show ?thesis
          using tripleD [OF prepare_run_runs _ m] P givesD [OF prepare_run_mode m]
            endsD [OF prepare_run_cancelled _ m] by (simp add: Inr answered_def)
      qed simp
    qed
  qed
  have noted: "ends (\<lambda>s. case answer of Err _ \<Rightarrow> True | Ok _ \<Rightarrow> answered request answer s) (\<lambda>_. answered request answer)
      (case answer of Err f \<Rightarrow> on_evidence (record_failure f) | Ok _ \<Rightarrow> (return () :: (unit, unit) run_action))" for answer
    by (cases answer) (auto simp: ends_def run_simps on_evidence_def answered_def record_failure_excuses)
  have rooted: "ends (answered request answer) (\<lambda>failed s. if failed then excused s else answered request answer s \<and> (\<exists>p. answer = Ok p))
      (case answer of Err _ \<Rightarrow> (return True :: (unit, bool) run_action)
       | Ok prepared \<Rightarrow> prepare_roots sv ?mode prepared)" for answer
  proof (cases answer)
    case (Inl f)
    then show ?thesis by (auto simp: ends_def run_simps answered_def excused_def)
  next
    case (Inr prepared)
    show ?thesis
    proof (cases prepared)
      case None
      then show ?thesis by (simp add: Inr prepare_roots_def ends_return)
    next
      case (Some x)
      have "ends (\<lambda>s. preparing False (run_evidence s)) (\<lambda>failed s. (if failed then in_work (run_evidence s) else preparing False (run_evidence s))
          \<and> (failed \<longrightarrow> excused s)) (prepare_roots sv ?mode prepared :: (unit, bool) run_action)"
        by (rule ends_both [OF ends_triple [OF prepare_roots_runs] prepare_roots_failed])
      then have "ends (answered request answer) (\<lambda>failed s. (if failed then in_work (run_evidence s) else preparing False (run_evidence s))
          \<and> (failed \<longrightarrow> excused s)) (prepare_roots sv ?mode prepared :: (unit, bool) run_action)"
        by (rule ends_weaken) (simp_all add: answered_def Inr)
      then show ?thesis
        unfolding Inr sum.case by (auto simp: ends_def answered_def Some prepared_in_mode_def split: if_splits)
    qed
  qed
  have kept: "ends (\<lambda>s. if failed then excused s else answered request answer s \<and> (\<exists>p. answer = Ok p)) (chosen request False failed)
      (case answer of
         Ok (Some x) \<Rightarrow> if failed then return None
           else andThen stop_requested (\<lambda>stop. return (if stop then None else Some x))
       | _ \<Rightarrow> (return None :: (unit, (run_preparation \<times> toolset) option) run_action))" for answer failed
    by (auto simp: ends_def run_simps andThen_apply stop_requested_def answered_def chosen_def excused_def is_cancelled_def
        split: sum.splits option.splits if_splits prod.splits)
  have recorded: "ends (chosen request False failed kept) (\<lambda>_. chosen request True failed kept)
      (case kept of Some (prep, _) \<Rightarrow> note_fact (record_preparation prep) | None \<Rightarrow> (return () :: (unit, unit) run_action))"
    for kept failed
  proof (cases kept)
    case None
    show ?thesis unfolding None option.case by (rule ends_return) (simp add: chosen_def split: if_splits)
  next
    case (Some x)
    have "excused s \<Longrightarrow> (note_fact (record_preparation prep) :: (unit, unit) run_action) s = (Done (), s') \<Longrightarrow> excused s'"
      and "run_token s = Some 0 \<Longrightarrow> (note_fact (record_preparation prep) :: (unit, unit) run_action) s = (Done (), s')
        \<Longrightarrow> run_token s' = Some 0" for s s' prep
      by (auto simp: note_fact_def run_simps record_preparation_def excused_def split: prod.splits option.splits if_splits)
    moreover have "preparing False (run_evidence s) \<Longrightarrow>
        (note_fact (record_preparation prep) :: (unit, unit) run_action) s = (Done (), s') \<Longrightarrow> preparing True (run_evidence s')" for s s' prep
      using preparation_recorded [of "run_evidence s" prep]
      by (auto simp: note_fact_def run_simps split: prod.splits option.splits)
    ultimately show ?thesis
      unfolding Some by (cases x) (auto simp: ends_def chosen_def split: if_splits)
  qed
  have worked: "ends (chosen request True failed kept) (settled request)
      (if failed then return False
       else andThen stop_requested (\<lambda>stop. if stop then return False
         else case kept of
                Some (prep, ts) \<Rightarrow>
                  if has_requested_work request then run_the_work run_work_phases request prep ts else skip_work_phases
              | None \<Rightarrow> (skip_work_phases :: (unit, bool) run_action)))"
    for kept failed
  proof (rule ends_if)
    show "ends (chosen request True failed kept) (settled request) (return False :: (unit, bool) run_action)" if failed
      using that by (intro ends_return) (simp add: chosen_def settled_def)
    assume nf: "\<not> failed"
    have stop: "ends (chosen request True failed kept) (\<lambda>stop s. if stop then run_token s = Some 0 else
          \<exists>prep ts. kept = Some (prep, ts) \<and> preparing True (run_evidence s)
            \<and> policy_mode (prep_policy prep) = ?mode) (stop_requested :: (unit, bool) run_action)"
      using nf by (auto simp: ends_def stop_requested_def chosen_def prepared_in_mode_def is_cancelled_def split: prod.splits)
    show "ends (chosen request True failed kept) (settled request)
        (andThen stop_requested (\<lambda>stop. if stop then return False
         else case kept of
                Some (prep, ts) \<Rightarrow>
                  if has_requested_work request then run_the_work run_work_phases request prep ts else skip_work_phases
              | None \<Rightarrow> (skip_work_phases :: (unit, bool) run_action)))"
    proof (rule ends_seq [OF stop], rule ends_if)
      show "ends (\<lambda>s. if stop then run_token s = Some 0 else
          \<exists>prep ts. kept = Some (prep, ts) \<and> preparing True (run_evidence s)
            \<and> policy_mode (prep_policy prep) = ?mode) (settled request) (return False :: (unit, bool) run_action)"
        if stop for stop
        using that by (intro ends_return) (simp add: settled_def excused_def)
      show "ends (\<lambda>s. if stop then run_token s = Some 0 else
          \<exists>prep ts. kept = Some (prep, ts) \<and> preparing True (run_evidence s)
            \<and> policy_mode (prep_policy prep) = ?mode) (settled request)
        (case kept of
           Some (prep, ts) \<Rightarrow>
             if has_requested_work request then run_the_work run_work_phases request prep ts else skip_work_phases
         | None \<Rightarrow> (skip_work_phases :: (unit, bool) run_action))" if "\<not> stop" for stop
      proof (cases kept)
        case None
        then show ?thesis using that by (simp add: ends_def)
      next
        case (Some x)
        then obtain prep ts where x: "kept = Some (prep, ts)" by (cases x) simp
        show ?thesis
        proof (cases "policy_mode (prep_policy prep) = ?mode")
          case True
          have "ends (\<lambda>s. preparing True (run_evidence s)) (settled request)
              (if has_requested_work request then run_the_work run_work_phases request prep ts
               else (skip_work_phases :: (unit, bool) run_action))"
            by (rule ends_if, rule run_the_work_settles [OF True]) (simp add: ends_def settled_def)
          then show ?thesis using that by (auto simp: x ends_def)
        next
          case False
          then show ?thesis using that by (simp add: x ends_def)
        qed
      qed
    qed
  qed
  show ?thesis
    unfolding traverse_def
    by (rule ends_seq [OF first], rule ends_seq [OF stopped], rule ends_seq [OF asked], rule ends_seq [OF noted],
        rule ends_seq [OF rooted], rule ends_seq [OF kept], rule ends_seq [OF recorded worked])
qed

subsection \<open>What Safety Cleanup leaves alone\<close>

definition concluding :: "running \<Rightarrow> running \<Rightarrow> bool" where
  "concluding s s' =
     (passed_on (storage_of (run_evidence s)) (storage_of (run_evidence s'))
      \<and> archive_finalization_completed (storage_of (run_evidence s'))
          = archive_finalization_completed (storage_of (run_evidence s))
      \<and> (run_token s = Some 0 \<longrightarrow> run_token s' = Some 0))"

interpretation concluding: frame concluding
  by unfold_locales (auto simp: concluding_def intro: passed_on_trans)

lemma passed_facts: "same_facts s s' \<Longrightarrow> passed_on s s'"
  by (simp add: passed_on_def same_facts_fields)

lemma cleanup_concludes:
  "steps concluding (safety_cleanup sv :: (unit, unit) run_action)"
  "steps concluding (on_evidence publish_diagnostics :: (unit, unit) run_action)"
  "steps concluding (on_evidence record_cancellation_observation :: (unit, unit) run_action)"
  "steps concluding (stop_requested :: (unit, bool) run_action)"
proof -
  have noted: "steps concluding (note_fact step :: (unit, unit) run_action)"
    if "\<And>ev. passed_on (storage_of ev) (storage_of (snd (step ev)))
          \<and> archive_finalization_completed (storage_of (snd (step ev))) = archive_finalization_completed (storage_of ev)" for step
  proof (rule stepsI)
    fix s r s'
    assume "(note_fact step :: (unit, unit) run_action) s = (r, s')"
    then show "concluding s s'"
      using that [of "run_evidence s"]
      by (auto simp: note_fact_def run_simps concluding_def split: prod.splits option.splits)
  qed
  have phase: "steps concluding (note_fact (record_phase r) :: (unit, unit) run_action)" for r
    by (rule noted) (auto simp: record_phase_def accept_phase_leaves)
  have failure: "steps concluding (note_fact (record_safety_cleanup_failure f) :: (unit, unit) run_action)" for f
    by (rule noted) (auto simp: record_safety_cleanup_failure_def passed_on_def)
  have asked: "steps concluding (ask_run c a :: (unit, 'b) run_action)" for c and a :: "run_call list \<Rightarrow> 'b"
    by (simp add: steps_def ask_run_def concluding_def)
  show "steps concluding (safety_cleanup sv :: (unit, unit) run_action)"
    unfolding safety_cleanup_def by (intro concluding.seq concluding.each concluding.pure phase failure)
      (simp_all add: steps_def ask_run_def concluding_def)
  show "steps concluding (on_evidence publish_diagnostics :: (unit, unit) run_action)"
    "steps concluding (on_evidence record_cancellation_observation :: (unit, unit) run_action)"
    by (auto simp: steps_def on_evidence_def run_simps concluding_def record_cancellation_observation_def passed_on_def)
  show "steps concluding (stop_requested :: (unit, bool) run_action)"
    by (auto simp: steps_def stop_requested_def concluding_def is_cancelled_def split: prod.splits)
qed

end
