(* ===== verification/RunCalls.thy ===== *)
theory RunCalls
  imports RunTraversal FinalizationProperties
begin

text \<open>
  The calls of a run: which calls a mode allows, and their order. Every call has the rank of its
  phase; \<open>makes mode lo hi\<close> says that a step of the run adds only calls the mode allows, in the order
  of their ranks and between the two given ones.
\<close>

fun call_rank :: "run_call \<Rightarrow> nat" where
  "call_rank LoadConfiguration = 10"
| "call_rank ReadSelection = 11"
| "call_rank (PrepareRoot _) = 12"
| "call_rank (WalkRoot p _) = (if p = DiscoveringArchives then 13 else 16)"
| "call_rank PreflightArchives = 14"
| "call_rank (ExtractArchive _ _) = 15"
| "call_rank (ResolveAsset _) = 17"
| "call_rank (AttemptAsset _ _) = 17"
| "call_rank (FinalizeArchives _) = 18"
| "call_rank (PlanCreation _) = 18"
| "call_rank CleanArtifacts = 19"
| "call_rank CleanWithService = 20"

text \<open>The calls that only look at the Mod Roots, and the Asset attempts in the mode of the run.\<close>

fun fin_reading :: "fin_call \<Rightarrow> bool" where
  "fin_reading (Canonical _) = True"
| "fin_reading (ListNames _ _) = True"
| "fin_reading (InspectEntry _) = True"
| "fin_reading (InspectTarget _) = True"
| "fin_reading (ReadBytes _) = True"
| "fin_reading (WalkSources _) = True"
| "fin_reading (Partition _ _ _) = True"
| "fin_reading _ = False"

fun work_call :: "execution_mode \<Rightarrow> run_call \<Rightarrow> bool" where
  "work_call mode (PrepareRoot _) = (mode = Apply)"
| "work_call mode (ExtractArchive _ _) = (mode = Apply)"
| "work_call mode (FinalizeArchives _) = (mode = Apply)"
| "work_call mode (PlanCreation cs) = (mode = DryRun \<and> list_all fin_reading cs)"
| "work_call mode (AttemptAsset a _) = (asset_mode a = mode)"
| "work_call mode CleanArtifacts = False"
| "work_call mode CleanWithService = False"
| "work_call mode _ = True"

definition makes :: "execution_mode \<Rightarrow> nat \<Rightarrow> nat \<Rightarrow> running \<Rightarrow> running \<Rightarrow> bool" where
  "makes mode lo hi s s' =
     (\<exists>cs. run_calls s' = run_calls s @ cs \<and> sorted (map call_rank cs)
       \<and> list_all (\<lambda>c. lo \<le> call_rank c \<and> call_rank c \<le> hi \<and> work_call mode c) cs)"

lemma makes_same: "run_calls s' = run_calls s \<Longrightarrow> makes mode lo hi s s'"
  unfolding makes_def by (intro exI [of _ "[]"]) simp

lemma makes_token: "makes mode lo hi s (s\<lparr>run_token := t\<rparr>)"
  by (rule makes_same) simp

lemma makes_one:
  "run_calls s' = run_calls s @ [c] \<Longrightarrow> lo \<le> call_rank c \<Longrightarrow> call_rank c \<le> hi \<Longrightarrow> work_call mode c
     \<Longrightarrow> makes mode lo hi s s'"
  unfolding makes_def by (intro exI [of _ "[c]"]) simp

lemma makes_trans:
  assumes "makes mode lo mid s t" and "makes mode mid hi t u" and "lo \<le> mid" and "mid \<le> hi"
  shows "makes mode lo hi s u"
proof -
  obtain as where as: "run_calls t = run_calls s @ as" "sorted (map call_rank as)"
      "list_all (\<lambda>c. lo \<le> call_rank c \<and> call_rank c \<le> mid \<and> work_call mode c) as"
    using assms(1) unfolding makes_def by blast
  obtain bs where bs: "run_calls u = run_calls t @ bs" "sorted (map call_rank bs)"
      "list_all (\<lambda>c. mid \<le> call_rank c \<and> call_rank c \<le> hi \<and> work_call mode c) bs"
    using assms(2) unfolding makes_def by blast
  show ?thesis
    unfolding makes_def
    using as bs assms(3,4)
    by (intro exI [of _ "as @ bs"]) (auto simp: sorted_append list_all_iff intro: le_trans)
qed

lemma makes_weaken: "makes mode lo hi s s' \<Longrightarrow> lo' \<le> lo \<Longrightarrow> hi \<le> hi' \<Longrightarrow> makes mode lo' hi' s s'"
  unfolding makes_def by (force simp: list_all_iff)

interpretation making: frame "makes mode r r" for mode r
  by unfold_locales (auto intro: makes_same makes_trans)

lemma widened: "steps (makes mode lo hi) m \<Longrightarrow> lo' \<le> lo \<Longrightarrow> hi \<le> hi' \<Longrightarrow> steps (makes mode lo' hi') m"
  by (erule steps_mono) (rule makes_weaken)

lemma making_branch:
  "(b \<Longrightarrow> steps (makes mode lo hi) m) \<Longrightarrow> (\<not> b \<Longrightarrow> steps (makes mode lo hi) n)
     \<Longrightarrow> steps (makes mode lo hi) (if b then m else n)"
  by simp

text \<open>Two steps, the second knowing what the first returned.\<close>

lemma made_then:
  assumes "steps (makes mode lo mid) m" and "gives P m" and "\<And>x. P x \<Longrightarrow> steps (makes mode mid hi) (f x)"
    and "lo \<le> mid" and "mid \<le> hi"
  shows "steps (makes mode lo hi) (andThen m f)"
proof (rule stepsI)
  fix s r s'
  assume run: "andThen m f s = (r, s')"
  show "makes mode lo hi s s'"
  proof (cases m s f rule: andThen_cases)
    case (finished x t)
    then show ?thesis
      using run stepsD [OF assms(1)] stepsD [OF assms(3)] givesD [OF assms(2)] makes_trans [OF _ _ assms(4,5)]
      by metis
  next
    case (raised e t)
    then show ?thesis using run stepsD [OF assms(1)] makes_weaken [OF _ order_refl assms(5)] by simp
  next
    case (panicked p t)
    then show ?thesis using run stepsD [OF assms(1)] makes_weaken [OF _ order_refl assms(5)] by simp
  qed
qed

lemma made_seq:
  assumes "steps (makes mode lo mid) m" and "\<And>x. steps (makes mode mid hi) (f x)" and "lo \<le> mid" and "mid \<le> hi"
  shows "steps (makes mode lo hi) (andThen m f)"
  by (rule made_then [OF assms(1) _ _ assms(3,4), where P = "\<lambda>_. True"]) (simp_all add: assms(2))

lemma silent:
  "steps (makes mode lo hi) (return x)" "steps (makes mode lo hi) (raise e)" "steps (makes mode lo hi) stop_requested"
  "steps (makes mode lo hi) (record_fact f)" "steps (makes mode lo hi) (note_fact f)"
  "steps (makes mode lo hi) (on_evidence g)" "steps (makes mode lo hi) (record_capacity_warning w)"
  "steps (makes mode lo hi) (continue_unless_stopped left)" "steps (makes mode lo hi) (read_state h)"
  by (auto simp: steps_def run_simps stop_requested_def record_fact_def note_fact_def on_evidence_def
      record_capacity_warning_def continue_unless_stopped_def andThen_apply intro!: makes_same
      split: prod.split option.split)

lemma made_ask: "lo \<le> call_rank c \<Longrightarrow> call_rank c \<le> hi \<Longrightarrow> work_call mode c \<Longrightarrow> steps (makes mode lo hi) (ask_run c a)"
  by (auto simp: steps_def ask_run_def intro: makes_one)

subsection \<open>The work phases\<close>

lemma walk_makes: "phase = DiscoveringArchives \<Longrightarrow> steps (makes mode 13 13) (walk_root ts phase root)"
  "phase = BuildingEffectiveAssetTree \<Longrightarrow> steps (makes mode 16 16) (walk_root ts phase root)"
  by (auto simp: steps_def walk_root_def intro!: makes_one split: prod.split)

lemma archive_pass_makes: "steps (makes mode 13 13) (archive_pass ts policy roots b found)"
proof (induction roots arbitrary: b found)
  case (Cons root roots)
  show ?case unfolding archive_pass.simps Let_def
    by (auto intro!: making.seq walk_makes silent Cons.IH split: prod.split)
qed (simp add: silent)

lemma discover_makes: "steps (makes mode 13 14) (discover_archives ts prep)"
proof -
  have "steps (makes mode 13 14) (preflight_archives ts precedence roots :: (error, preflight) run_action)" for precedence roots
    by (auto simp: steps_def preflight_archives_def intro!: makes_one split: prod.split)
  then have preflighted: "steps (makes mode 13 14) (andThen (preflight_archives ts precedence roots) f)"
    if "\<And>p. steps (makes mode 14 14) (f p)" for precedence roots and f :: "preflight \<Rightarrow> (error, (path list \<times> extraction_plan list) flow) run_action"
    by (rule made_seq [OF _ that]) simp_all
  have rest: "steps (makes mode 13 14) (if \<not> complete then return (Break Halted) else
      andThen (preflight_archives ts (prep_precedence prep) roots) (\<lambda>p. case p of
       preflight.Failed f \<Rightarrow> andThen (on_evidence (record_failure f)) (\<lambda>_. return (Break Halted))
     | preflight.Cancelled \<Rightarrow> return (Break Halted)
     | preflight.Planned plans collisions w \<Rightarrow>
         andThen (record_fact (record_archive_collisions collisions)) (\<lambda>_.
         andThen (case w of None \<Rightarrow> return () | Some x \<Rightarrow> record_capacity_warning x) (\<lambda>_.
         return (Continue (batch_recognized b, plans))))) :: (error, (path list \<times> extraction_plan list) flow) run_action)"
    for complete roots b
    by (cases complete) (simp_all only: if_True if_False not_True_eq_False not_False_eq_True,
        rule preflighted, auto intro!: silent making.seq split: preflight.split option.split)
  show ?thesis
    unfolding discover_archives_def
    by (rule made_seq [where mid = 13], rule silent, rule made_seq [where mid = 13], rule archive_pass_makes)
      (auto simp only: split: prod.split intro!: made_seq [where mid = 13] silent rest)
qed

lemma extract_makes: "steps (makes mode 15 15) (extract_archives ts mode plans cleanup)"
proof -
  have planned: "steps (makes mode 15 15) (plan_archive_extractions plans cleanup)"
    unfolding plan_archive_extractions_def by (auto intro!: making.rules silent)
  have tried: "steps (makes mode 15 15) (extract_planned ts plan cleanup)" if "mode = Apply" for plan
    using that by (auto simp: steps_def extract_planned_def intro!: makes_one split: prod.split)
  then have "steps (makes mode 15 15) (extract_one ts cleanup plan)" if "mode = Apply" for plan
    unfolding extract_one_def using that by (auto intro!: making.rules silent)
  then show ?thesis
    unfolding extract_archives_def using planned
    by (cases mode) (auto intro!: making.rules silent)
qed

lemma definitive_pass_makes: "steps (makes mode 16 16) (definitive_pass ts policy known roots t)"
proof (induction roots arbitrary: t)
  case (Cons root roots)
  show ?case unfolding definitive_pass.simps Let_def
    by (auto intro!: making.seq walk_makes silent Cons.IH split: prod.split)
qed (simp add: silent)

lemma build_makes: "steps (makes mode 16 16) (build_effective_asset_tree ts prep known)"
  unfolding build_effective_asset_tree_def
  by (auto intro!: making.rules silent definitive_pass_makes split: prod.split)

definition ledger_in_mode :: "execution_mode \<Rightarrow> routing_ledger flow \<Rightarrow> bool" where
  "ledger_in_mode mode r =
     (case r of Continue l \<Rightarrow> list_all (\<lambda>a. asset_mode a = mode) (routed_assets l) | Break _ \<Rightarrow> True)"

lemma routed_in_mode: "list_all (\<lambda>a. asset_mode a = policy_mode policy) (routed_assets (route_all policy paths))"
  unfolding route_all_routed
  by (induction paths) (auto simp: map_filter_simps dest: route_Routed elim: decision_asset.elims split: option.splits)

lemma build_in_mode: "gives (ledger_in_mode (policy_mode (prep_policy prep))) (build_effective_asset_tree ts prep known)"
  unfolding build_effective_asset_tree_def
  by (auto intro!: gives_after gives_return simp: ledger_in_mode_def routed_in_mode split: prod.split)

lemma assets_in_order_set: "set (assets_in_order l) \<subseteq> set (routed_assets l)"
  by (auto simp: assets_in_order_def routed_assets_for_def)

lemma attempt_makes:
  assumes "asset_mode asset = mode"
  shows "steps (makes mode 17 17) (process_asset ts roots asset)"
proof -
  have "steps (makes mode 17 17) (attempt_through_port ts asset root :: (error, asset_execution_result option) run_action)" for root
    using assms by (auto simp: steps_def attempt_through_port_def Let_def intro!: makes_one)
  then show ?thesis
    unfolding process_asset_def
    by (auto intro!: making.rules silent made_ask split: option.split prod.split)
qed

lemma made_each:
  assumes "\<And>x. x \<in> set xs \<Longrightarrow> steps (makes mode r r) (body x)"
  shows "steps (makes mode r r) (for_each body xs)"
  using assms by (induction xs) (auto intro!: making.seq silent split: option.split)

lemma process_makes:
  assumes "list_all (\<lambda>a. asset_mode a = mode) (routed_assets l)"
  shows "steps (makes mode 17 17) (process_assets ts prep l)"
proof -
  have "steps (makes mode 17 17) (for_each (process_asset ts (prep_mod_roots prep)) (assets_in_order l))"
    by (rule made_each, rule attempt_makes) (use assms assets_in_order_set in \<open>auto simp: list_all_iff\<close>)
  then show ?thesis unfolding process_assets_def by (auto intro!: making.rules silent)
qed

lemma plan_creation_adds: "steps (adds fin_reading) (plan_archive_creation env choices prep)"
proof -
  have weaker: "planning_call env rules c \<Longrightarrow> fin_reading c" for rules c
    by (cases c) simp_all
  have "steps (adds fin_reading) (plan_finalization env roots choices rules)" for roots rules
    by (rule steps_mono [OF reads_adds [OF plan_finalization_reads]])
      (auto simp: adds_def list_all_iff dest: weaker)
  then show ?thesis
    unfolding plan_archive_creation_def
    by (auto intro!: adds_rules split: outcome.split capacity_verdict.split planning_stop.split prod.split)
qed

lemma finalize_makes: "steps (makes mode 18 18) (finalize_archives_phase ts prep mode choices)"
proof -
  have planned: "steps (makes mode 18 18) (within_finalization PlanCreation
      (\<lambda>h. plan_archive_creation (finalization_seams ts h) choices prep))" if "mode = DryRun"
  proof (rule stepsI)
    fix s r s'
    assume "within_finalization PlanCreation (\<lambda>h. plan_archive_creation (finalization_seams ts h) choices prep) s = (r, s')"
    then obtain f where f: "plan_archive_creation (finalization_seams ts (run_calls s)) choices prep (begin_finalizing s) = (r, f)"
        "s' = end_finalizing PlanCreation f s"
      by (auto simp: within_finalization_def split: prod.splits)
    then have "list_all fin_reading (fz_calls f)"
      using stepsD [OF plan_creation_adds f(1)] by (auto simp: adds_def begin_finalizing_def)
    then show "makes mode 18 18 s s'"
      using that by (intro makes_one [where c = "PlanCreation (fz_calls f)"]) (simp_all add: f(2) end_finalizing_def)
  qed
  have finalized: "steps (makes mode 18 18) (within_finalization FinalizeArchives
      (\<lambda>h. finalize_archives (finalization_seams ts h) choices prep))" if "mode = Apply"
    using that by (auto simp: steps_def within_finalization_def end_finalizing_def intro!: makes_one split: prod.split)
  have recorded: "steps (makes mode 18 18) (record_planned_outputs outs)" for outs
    unfolding record_planned_outputs_def by (auto intro!: making.rules silent)
  have "steps (makes mode 18 18) (plan_archive_finalization_phase ts prep choices)" if "mode = DryRun"
    unfolding plan_archive_finalization_phase_def
    by (auto intro!: making.rules silent planned that recorded split: creation_planning.split option.split)
  then show ?thesis
    unfolding finalize_archives_phase_def using finalized
    by (cases mode) (auto intro!: making.rules silent)
qed

lemma chain_makes:
  assumes "steps (makes mode lo mid) m" and "gives (\<lambda>r. case r of Continue x \<Rightarrow> P x | Break _ \<Rightarrow> True) m"
    and "\<And>x. P x \<Longrightarrow> steps (makes mode mid hi) (f x)" and "lo \<le> mid" "mid \<le> hi"
  shows "steps (makes mode lo hi) (chain m f)"
  unfolding chain_def
  by (rule made_then [OF assms(1,2) _ assms(4,5)]) (auto intro: assms(3) silent split: flow.splits)

lemma work_makes:
  assumes "policy_mode (prep_policy prep) = mode"
  shows "steps (makes mode 13 18) (run_work_phases prep choices ts)"
proof -
  have l: "gives (\<lambda>r. case r of Continue l \<Rightarrow> list_all (\<lambda>a. asset_mode a = mode) (routed_assets l) | Break _ \<Rightarrow> True)
      (build_effective_asset_tree ts prep known)" for known
    using build_in_mode [of prep ts known] unfolding ledger_in_mode_def assms .
  have any: "gives (\<lambda>r. case r of Continue x \<Rightarrow> True | Break _ \<Rightarrow> True) m" for m :: "('e, 'a flow) run_action"
    by (simp add: gives_def split: flow.split)
  have assets: "steps (makes mode 17 18) (chain (process_assets ts prep ledger) (\<lambda>_.
      finalize_archives_phase ts prep mode (archive_finalization choices)))"
    if "list_all (\<lambda>a. asset_mode a = mode) (routed_assets ledger)" for ledger
    by (rule chain_makes [OF process_makes [OF that], where P = "\<lambda>_. True"])
      (auto intro: widened [OF finalize_makes] simp: gives_def split: flow.split)
  have tree: "steps (makes mode 16 18) (chain (build_effective_asset_tree ts prep known) (\<lambda>ledger.
      chain (process_assets ts prep ledger) (\<lambda>_. finalize_archives_phase ts prep mode (archive_finalization choices))))"
    for known
    by (rule chain_makes [OF build_makes l widened [OF assets]]) simp_all
  have extracted: "steps (makes mode 15 18) (chain (extract_archives ts mode plans (archive_extraction choices)) (\<lambda>_.
      chain (build_effective_asset_tree ts prep known) (\<lambda>ledger.
      chain (process_assets ts prep ledger) (\<lambda>_. finalize_archives_phase ts prep mode (archive_finalization choices)))))"
    for plans known
    by (rule chain_makes [OF extract_makes, where P = "\<lambda>_. True"])
      (auto intro: widened [OF tree] simp: gives_def split: flow.split)
  show ?thesis
    unfolding run_work_phases_def Let_def assms
  proof (rule made_seq [where mid = 13])
    show "steps (makes mode 13 13) (change_state (\<lambda>s. s\<lparr>run_diagnosed := []\<rparr>))"
      by (auto simp: steps_def run_simps intro: makes_same)
    show "steps (makes mode 13 18) (chain (discover_archives ts prep) (\<lambda>(known, plans).
      chain (extract_archives ts mode plans (archive_extraction choices)) (\<lambda>_.
      chain (build_effective_asset_tree ts prep known) (\<lambda>ledger.
      chain (process_assets ts prep ledger) (\<lambda>_. finalize_archives_phase ts prep mode (archive_finalization choices))))))" for u :: unit
      by (rule chain_makes [OF discover_makes, where P = "\<lambda>_. True"])
        (auto intro: widened [OF extracted] simp: gives_def split: flow.split prod.split)
  qed simp_all
qed

subsection \<open>The traversal\<close>

lemma load_makes: "steps (makes mode 10 10) (load_selected_profile request sv)"
proof -
  have "steps (makes mode 10 10) (andThen (ask_run LoadConfiguration (\<lambda>h. load h request)) (\<lambda>answer.
      case answer of
        Returned (Ok loaded) \<Rightarrow> return loaded
      | Returned (Err e) \<Rightarrow> raise (failure (error_text e))
      | Panicked what \<Rightarrow> raise (failure (prefix @ what))) :: (run_failure, selected_profile \<times> toolset) run_action)"
    for load :: "run_call list \<Rightarrow> run_request \<Rightarrow> (error + selected_profile \<times> toolset) call" and failure prefix
    by (rule making.seq, rule made_ask) (auto intro: silent split: call.split sum.split)
  then show ?thesis
    unfolding load_selected_profile_def Let_def
    by (cases "sv_configuration sv") (simp_all only: option.case silent)
qed

lemma prepare_run_makes: "steps (makes mode 10 11) (prepare_run request sv)"
proof -
  have resolved: "steps (makes mode 10 11) (resolve_selection sv request profile)" for profile
    by (auto simp: steps_def resolve_selection_def intro!: makes_one split: prod.split)
  have kept: "steps (makes mode 11 11) (andThen stop_requested (\<lambda>stop. return (if stop then None else Some x)) ::
      (run_failure, (run_preparation \<times> toolset) option) run_action)" for x
    by (rule making.seq) (rule silent)+
  have compiled: "steps (makes mode 10 11) (case c of
        Err conflicts \<Rightarrow> raise (policy_conflict conflicts)
      | Ok policy \<Rightarrow> andThen (resolve_selection sv request profile) (\<lambda>roots.
          andThen stop_requested (\<lambda>stop. return (if stop then None else Some (f policy roots)))))"
    for c :: "policy_validation_error list + routing_policy" and profile
      and f :: "routing_policy \<Rightarrow> path list \<Rightarrow> run_preparation \<times> toolset"
    by (cases c) (auto intro: silent made_seq [OF resolved kept, simplified])
  show ?thesis
    unfolding prepare_run_def
    by (rule made_seq [OF load_makes], simp only: split: prod.split, intro allI impI,
        rule made_seq [where mid = 10], rule silent) (auto simp: silent intro: compiled)
qed

lemma prepare_roots_makes:
  "steps (makes mode 11 12) (prepare_roots sv mode prepared :: (unit, bool) run_action)"
proof -
  have one: "steps (makes mode 12 12) (prepare_root sv root :: (unit, run_failure option option) run_action)"
    if "mode = Apply" for root
    using that
    by (intro stepsI) (auto simp: prepare_root_def andThen_apply stop_requested_def run_simps
        split: prod.splits if_splits, rule makes_token, rule makes_one [where c = "PrepareRoot root"], simp_all)
  then have each: "steps (makes mode 12 12) (for_each (prepare_root sv) roots :: (unit, run_failure option option) run_action)"
    if "mode = Apply" for roots
    using that by (intro making.each)
  have "steps (makes mode 12 12) (andThen (for_each (prepare_root sv) roots) (\<lambda>left. case left of
       Some (Some f) \<Rightarrow> andThen (on_evidence (record_failure f)) (\<lambda>_. return True)
     | _ \<Rightarrow> return False) :: (unit, bool) run_action)" if "mode = Apply" for roots
    using each [OF that] by (rule making.seq) (auto intro!: making.seq silent split: option.split)
  then have looped: "steps (makes mode 11 12) (andThen (for_each (prepare_root sv) roots) (\<lambda>left. case left of
       Some (Some f) \<Rightarrow> andThen (on_evidence (record_failure f)) (\<lambda>_. return True)
     | _ \<Rightarrow> return False) :: (unit, bool) run_action)" if "mode = Apply" for roots
    by (rule widened) (use that in simp_all)
  show ?thesis
    unfolding prepare_roots_def
    by (cases prepared) (simp_all only: option.case prod.case silent split: prod.split,
        intro allI impI making_branch silent looped, simp)
qed

lemma run_the_work_makes:
  assumes "policy_mode (prep_policy prep) = mode"
  shows "steps (makes mode 13 18) (run_the_work run_work_phases request prep ts :: (unit, bool) run_action)"
proof -
  have "steps (makes mode 13 18) (catch_unwind (run_work_phases prep choices ts) :: (unit, (error, unit flow) outcome) run_action)" for choices
    using stepsD [OF work_makes [OF assms]]
    by (intro stepsI) (auto simp: catch_unwind_def split: prod.splits)
  moreover have "steps (makes mode 18 18) (escaped_work_detail r :: (unit, string option) run_action)" for r
    unfolding escaped_work_detail_def by (auto intro!: making.seq silent split: outcome.split error.split)
  moreover have "steps (makes mode 18 18) (fail_at_current_phase what :: (unit, unit) run_action)" for what
    unfolding fail_at_current_phase_def by (rule silent)
  ultimately show ?thesis
    unfolding run_the_work_def
    by (intro made_seq [where mid = 18] making.seq) (auto intro: silent split: option.split)
qed

lemma skip_makes: "steps (makes mode r r) (skip_work_phases :: (unit, bool) run_action)"
  unfolding skip_work_phases_def by (auto intro!: making.rules silent)

lemma traverse_makes:
  assumes "request_execution_mode request = mode"
  shows "steps (makes mode 10 18) (traverse sv run_work_phases request)"
proof -
  let ?ok = "\<lambda>answer :: run_failure + (run_preparation \<times> toolset) option.
     case answer of Err _ \<Rightarrow> True | Ok prepared \<Rightarrow> prepared_in_mode mode prepared"
  have worked: "steps (makes mode 12 18) (if failed then return False
       else andThen stop_requested (\<lambda>stop. if stop then return False
         else case kept of
                Some (prep, ts) \<Rightarrow>
                  if has_requested_work request then run_the_work run_work_phases request prep ts else skip_work_phases
              | None \<Rightarrow> (skip_work_phases :: (unit, bool) run_action)))"
    if "prepared_in_mode mode kept" for kept failed
    using that
    by (auto intro!: made_seq [where mid = 12] silent widened [OF run_the_work_makes] widened [OF skip_makes, of _ 12]
        simp: prepared_in_mode_def split: option.split)
  have recorded: "steps (makes mode 12 18) (andThen (case kept of
                Some (prep, _) \<Rightarrow> note_fact (record_preparation prep)
              | None \<Rightarrow> return ()) (\<lambda>_. if failed then return False
       else andThen stop_requested (\<lambda>stop. if stop then return False
         else case kept of
                Some (prep, ts) \<Rightarrow>
                  if has_requested_work request then run_the_work run_work_phases request prep ts else skip_work_phases
              | None \<Rightarrow> (skip_work_phases :: (unit, bool) run_action))))"
    if "prepared_in_mode mode kept" for kept failed
    by (rule made_seq [where mid = 12, OF _ worked [OF that]]) (auto intro: silent split: option.split)
  have kept: "gives (prepared_in_mode mode) (case answer of
                Ok (Some x) \<Rightarrow>
                  if failed then return None
                  else andThen stop_requested (\<lambda>stop. return (if stop then None else Some x))
              | _ \<Rightarrow> (return None :: (unit, (run_preparation \<times> toolset) option) run_action))"
    "steps (makes mode 12 12) (case answer of
                Ok (Some x) \<Rightarrow>
                  if failed then return None
                  else andThen stop_requested (\<lambda>stop. return (if stop then None else Some x))
              | _ \<Rightarrow> (return None :: (unit, (run_preparation \<times> toolset) option) run_action))"
    if "?ok answer" for answer failed
    using that by (auto intro!: gives_after gives_return making.seq silent simp: prepared_in_mode_def
        split: sum.splits option.splits prod.splits)
  have rooted: "steps (makes mode 11 12) (case answer of
                Err _ \<Rightarrow> (return True :: (unit, bool) run_action)
              | Ok prepared \<Rightarrow> prepare_roots sv (request_execution_mode request) prepared)"
    for answer :: "run_failure + (run_preparation \<times> toolset) option"
    by (cases answer) (auto intro: silent simp: assms prepare_roots_makes)
  have asked: "steps (makes mode 10 11) (if stop then return (Ok None) else try_action (prepare_run request sv)
      :: (unit, run_failure + (run_preparation \<times> toolset) option) run_action)"
    "gives ?ok (if stop then return (Ok None) else try_action (prepare_run request sv)
      :: (unit, run_failure + (run_preparation \<times> toolset) option) run_action)" for stop
    using stepsD [OF prepare_run_makes] givesD [OF prepare_run_mode]
    by (auto simp: silent makes_same assms [symmetric] steps_def gives_def try_action_def run_simps prepared_in_mode_def
        split: prod.splits outcome.splits)
  have noted: "steps (makes mode 11 11) (case answer of
        Err f \<Rightarrow> on_evidence (record_failure f) | Ok _ \<Rightarrow> (return () :: (unit, unit) run_action))"
    for answer :: "run_failure + (run_preparation \<times> toolset) option"
    by (cases answer) (auto intro: silent)
  note rules = made_seq [OF silent(5)] made_seq [OF silent(3)] made_then [OF asked] made_seq [OF noted]
    made_seq [OF rooted] made_then [OF kept(2,1)]
  show ?thesis
    unfolding traverse_def
    by (rule rules(1) [where mid = 10], rule rules(2) [where mid = 10], rule rules(3), rule rules(4), rule rules(5),
        rule rules(6), assumption, assumption, rule recorded, assumption) simp_all
qed

subsection \<open>The whole run\<close>

lemma contained_makes:
  assumes "request_execution_mode request = mode"
  shows "steps (makes mode 10 18) (contained_traversal sv run_work_phases request)"
proof -
  have "steps (makes mode 10 18) (catch_unwind (traverse sv run_work_phases request) :: (unit, (unit, bool) outcome) run_action)"
    using stepsD [OF traverse_makes [OF assms]]
    by (intro stepsI) (auto simp: catch_unwind_def split: prod.splits)
  then show ?thesis
    unfolding contained_traversal_def
    by (rule made_seq) (auto intro!: making.seq silent simp: fail_at_current_phase_def split: outcome.split)
qed

lemma contained_completes: "completes (contained_traversal sv work request)"
  unfolding contained_traversal_def
  by (rule completes_andThen [OF completes_basic(4)])
    (auto intro!: completes_andThen completes_basic simp: fail_at_current_phase_def on_evidence_def split: outcome.split)

lemma note_run:
  obtains s' where "(note_fact step :: (unit, unit) run_action) s = (Done (), s')" "run_calls s' = run_calls s"
proof -
  have "run_calls (snd ((note_fact step :: (unit, unit) run_action) s)) = run_calls s"
    "fst ((note_fact step :: (unit, unit) run_action) s) = Done ()"
    by (auto simp: note_fact_def run_simps split: prod.splits option.splits)
  then show thesis by (intro that [of "snd ((note_fact step :: (unit, unit) run_action) s)"]) (simp_all add: prod_eq_iff)
qed

lemma note_each_run:
  "\<exists>s'. (for_each (\<lambda>f. andThen (note_fact (record_safety_cleanup_failure f)) (\<lambda>_. return None)) fs
        :: (unit, unit option) run_action) s = (Done None, s') \<and> run_calls s' = run_calls s"
proof (induction fs arbitrary: s)
  case (Cons f fs)
  obtain t where t: "(note_fact (record_safety_cleanup_failure f) :: (unit, unit) run_action) s = (Done (), t)"
      "run_calls t = run_calls s"
    by (rule note_run)
  then have "andThen (note_fact (record_safety_cleanup_failure f)) (\<lambda>_. return None) s
      = (Done None :: (unit, unit option) outcome, t)"
    by (simp add: andThen_simps run_simps)
  then show ?case using Cons.IH [of t] t(2) by (simp add: andThen_simps)
qed (simp add: run_simps)

lemma safety_cleanup_run:
  "\<exists>s'. (safety_cleanup sv :: (unit, unit) run_action) s = (Done (), s')
     \<and> run_calls s' = run_calls s @ [CleanArtifacts, CleanWithService]"
proof -
  obtain t where t: "(note_fact (record_phase (executed SafetyCleanup None)) :: (unit, unit) run_action) s = (Done (), t)"
      "run_calls t = run_calls s"
    by (rule note_run)
  let ?u = "t\<lparr>run_calls := run_calls s @ [CleanArtifacts]\<rparr>"
  let ?v = "t\<lparr>run_calls := run_calls s @ [CleanArtifacts, CleanWithService]\<rparr>"
  let ?fs = "collect_safety_cleanup_failures (sv_clean_artifacts sv (run_calls s))
      @ collect_safety_cleanup_failures (sv_safety_cleanup sv (run_calls ?u))"
  obtain w where w: "(for_each (\<lambda>f. andThen (note_fact (record_safety_cleanup_failure f)) (\<lambda>_. return None)) ?fs
        :: (unit, unit option) run_action) ?v = (Done None, w)" "run_calls w = run_calls ?v"
    using note_each_run by blast
  have asked: "ask_run CleanArtifacts (sv_clean_artifacts sv) t = (Done (sv_clean_artifacts sv (run_calls s)), ?u)"
    "ask_run CleanWithService (sv_safety_cleanup sv) ?u = (Done (sv_safety_cleanup sv (run_calls ?u)), ?v)"
    by (simp_all add: ask_run_def t)
  have "(safety_cleanup sv :: (unit, unit) run_action) s = (Done (), w)"
    unfolding safety_cleanup_def
    by (simp only: andThen_simps(1) [where m = "note_fact step" for step, OF t(1)]
        andThen_simps(1) [where m = "ask_run CleanArtifacts a" for a, OF asked(1)]
        andThen_simps(1) [where m = "ask_run CleanWithService a" for a, OF asked(2)]
        andThen_simps(1) [where m = "for_each f xs" for f xs, OF w(1)] run_simps)
  then show ?thesis using w(2) by simp
qed

lemma run_to_cleanup_run:
  obtains final b s1 s' where "run_to_cleanup sv work request s = (Done final, s')"
    and "contained_traversal sv work request s = (Done b, s1)"
    and "run_calls s' = run_calls s1 @ [CleanArtifacts, CleanWithService]"
proof -
  obtain b s1 where s1: "contained_traversal sv work request s = (Done b, s1)"
    using contained_completes by (rule completesE)
  let ?s2 = "s1\<lparr>run_evidence := publish_diagnostics (run_evidence s1)\<rparr>"
  obtain s3 where s3: "(safety_cleanup sv :: (unit, unit) run_action) ?s2 = (Done (), s3)"
      "run_calls s3 = run_calls s1 @ [CleanArtifacts, CleanWithService]"
    using safety_cleanup_run [of sv ?s2] by auto
  have "\<exists>final s'. run_to_cleanup sv work request s = (Done final, s') \<and> run_calls s' = run_calls s3"
    by (cases "is_cancelled (run_token s3)")
      (simp add: run_to_cleanup_def andThen_apply s1 on_evidence_def run_simps s3 stop_requested_def)
  then show thesis using s1 s3(2) that by metis
qed

text \<open>
  C24: Whatever its services answer, a run makes the two Safety Cleanup calls exactly once, last, and
  in their order. The calls before them come in the order of the Run Phases: no Mod Root is walked
  before every root was prepared, no Archive extracted before the preflight, no Asset attempted before
  the Effective Asset Tree was walked, and Archive Finalization follows the last attempt. None of them
  is one the mode of the run forbids.
\<close>

theorem safety_cleanup_once_and_last:
  "\<exists>cs. run_calls (snd (execute sv request t)) = cs @ [CleanArtifacts, CleanWithService]
     \<and> sorted (map call_rank cs) \<and> list_all (work_call (request_execution_mode request)) cs"
proof -
  obtain final b s1 s' where run: "run_to_cleanup sv run_work_phases request (begin_run sv t) = (Done final, s')"
      "contained_traversal sv run_work_phases request (begin_run sv t) = (Done b, s1)"
      "run_calls s' = run_calls s1 @ [CleanArtifacts, CleanWithService]"
    by (rule run_to_cleanup_run)
  have "makes (request_execution_mode request) 10 18 (begin_run sv t) s1"
    by (rule stepsD [OF contained_makes [OF refl] run(2)])
  then show ?thesis
    using run(1,3) by (auto simp: makes_def begin_run_def execute_def execute_with_work_def list_all_iff)
qed

end
