(* ===== verification/RunResults.thy ===== *)
theory RunResults
  imports RunCompletion RunCalls
begin

text \<open>
  What a production run gives back: its sealed result, and what the result's outcome says about the
  work that was done.
\<close>

lemma work_stays_in_work:
  "runs (stage Preparing (before_assets False False False)) (\<lambda>_. in_work) (run_work_phases prep choices ts)"
  by (rule triple_weaken [OF run_work_phases_runs]) (auto simp: worked_def split: flow.splits)

lemma consumed_fields:
  assumes "consume ev = Ok sealed"
  shows "current_phase (storage_of ev) = Some SafetyCleanup" "passed_on (storage_of ev) sealed"
    "attempts_in_order sealed = attempts_in_order (storage_of ev)"
    "archive_finalization_completed sealed = archive_finalization_completed (storage_of ev)"
    "cancellation_observed sealed = cancellation_observed (storage_of ev)"
proof -
  have *: "current_phase (storage_of ev) = Some SafetyCleanup \<and> (\<exists>a b c. sealed = (storage_of ev)\<lparr>mutation_summaries := a,
      cleanup_failures := b, skipped_counts := c\<rparr>)"
    using assms by (auto simp: consume_def Let_def split: if_splits)
  then show "current_phase (storage_of ev) = Some SafetyCleanup" "passed_on (storage_of ev) sealed"
    "archive_finalization_completed sealed = archive_finalization_completed (storage_of ev)"
    "cancellation_observed sealed = cancellation_observed (storage_of ev)"
    by (auto simp: passed_on_def)
  show "attempts_in_order sealed = attempts_in_order (storage_of ev)"
    using * by (intro attempts_in_order_cong) auto
qed

lemma run_concludes:
  assumes "reports_cleanup sv"
  obtains final s' r where "run_to_cleanup sv run_work_phases request (begin_run sv t) = (Done final, s')"
    and "execute sv request t = (RunReturned r, s')" and "run_violation s' = None"
    and "cleaned (run_evidence s')" and "final \<noteq> SafetyCleanup" and "result_final_phase r = final"
    and "consume (run_evidence s') = Ok (result_evidence r)"
    and "result_outcome r = classify_terminal_outcome (result_evidence r)"
proof -
  obtain final b s1 s' where run: "run_to_cleanup sv run_work_phases request (begin_run sv t) = (Done final, s')"
    by (rule run_to_cleanup_run)
  have left: "run_violation s' = None" "cleaned (run_evidence s')" "final \<noteq> SafetyCleanup"
    using tripleD [OF run_to_cleanup_runs [OF work_stays_in_work assms] _ run] by (simp_all add: begin_run_def)
  then obtain sealed where sealed: "consume (run_evidence s') = Ok sealed"
    by (simp add: consume_def cleaned_def Let_def)
  let ?r = "\<lparr>result_outcome = classify_terminal_outcome sealed, result_final_phase = final, result_evidence = sealed\<rparr>"
  have "execute sv request t = (RunReturned ?r, s')"
    using run left sealed by (simp add: execute_def execute_with_work_def conclude_def seal_def)
  then show thesis using that [of final s' ?r] run left sealed by simp
qed

text \<open>
  C22: Whatever its seams answer, panics included, a run whose cleanup services report cleanup
  failures returns a terminal result. It records nothing Run Evidence rejects; its evidence is
  consumed in Safety Cleanup, whatever phase it failed in; and its attempts are in order: only a safe
  attempt is followed by another, the Assets are attempted in the order of the Routing Ledger after
  every Archive was extracted safely, and Archive Finalization has a result only after every Asset of
  the ledger was attempted safely.
\<close>

theorem run_returns_ordered_evidence:
  assumes "reports_cleanup sv"
  shows "\<exists>r s'. execute sv request t = (RunReturned r, s') \<and> run_violation s' = None
     \<and> reachable (run_evidence s') \<and> consume (run_evidence s') = Ok (result_evidence r)
     \<and> current_phase (storage_of (run_evidence s')) = Some SafetyCleanup \<and> result_final_phase r \<noteq> SafetyCleanup
     \<and> result_outcome r = classify_terminal_outcome (result_evidence r) \<and> attempts_in_order (result_evidence r)"
proof -
  obtain final s' r where r: "execute sv request t = (RunReturned r, s')" "run_violation s' = None"
    "cleaned (run_evidence s')" "final \<noteq> SafetyCleanup" "result_final_phase r = final"
    "consume (run_evidence s') = Ok (result_evidence r)" "result_outcome r = classify_terminal_outcome (result_evidence r)"
    using run_concludes [OF assms] by metis
  then show ?thesis using consumed_fields(3) [OF r(6)] by (auto simp: cleaned_def)
qed

text \<open>Nothing of a clean outcome without its conditions.\<close>

lemma clean_outcome:
  assumes "classify_terminal_outcome s \<in> {OutSucceeded, OutCompletedWithFailures}"
  shows "failures s = [] \<and> \<not> cancellation_observed s \<and> list_all extraction_safe (archive_extraction_attempts s)
    \<and> list_all asset_safe (asset_attempts s)"
proof -
  have ok: "failures s = []" "\<not> cancellation_observed s"
    "list_all (\<lambda>a. facts_safe (completed_facts a)) (completed_attempts s)"
    using assms by (auto simp: classify_terminal_outcome_def Let_def list_ex_iff list_all_iff split: if_splits)
  moreover have "list_all (\<lambda>a. safe_to_continue (extraction_outcome a)) (archive_extraction_attempts s)"
    "list_all (\<lambda>a. safe_to_continue (asset_outcome (attempt_result a))) (asset_attempts s)"
    using ok(3) by (simp_all add: completed_attempts_def list.pred_map comp_def facts_def)
  ultimately show ?thesis by (simp add: list_all_iff extraction_safe_def asset_safe_def)
qed

lemma contained_settles:
  assumes "contained_traversal sv run_work_phases request (begin_run sv t) = (Done b, s1)"
  shows "settled request b s1"
proof -
  obtain r u where r: "traverse sv run_work_phases request (begin_run sv t) = (r, u)" by fastforce
  show ?thesis
  proof (cases r)
    case (Done c)
    then have "b = c" "s1 = u"
      using assms r by (simp_all add: contained_traversal_def andThen_apply catch_unwind_def run_simps)
    then show ?thesis
      using endsD [OF traverse_settles _ r [unfolded Done]] by (simp add: begin_run_def)
  next
    case (Raise e)
    then show ?thesis
      using tripleD [OF traverse_runs [OF work_stays_in_work] _ r] by (simp add: begin_run_def)
  next
    case (Panic p)
    then have "failures (storage_of (run_evidence s1)) \<noteq> []"
      using assms r by (auto simp: contained_traversal_def andThen_apply catch_unwind_def run_simps
          fail_at_current_phase_def on_evidence_def record_failure_excuses)
    then show ?thesis by (simp add: settled_def excused_def)
  qed
qed

lemma run_to_cleanup_concludes:
  assumes "run_to_cleanup sv work request s = (Done final, s')"
  obtains b s1 where "contained_traversal sv work request s = (Done b, s1)" "concluding s1 s'"
    "b \<or> run_token s1 = Some 0 \<Longrightarrow> cancellation_observed (storage_of (run_evidence s'))"
proof -
  obtain b s1 where s1: "contained_traversal sv work request s = (Done b, s1)"
    using contained_completes by (rule completesE)
  let ?publish = "on_evidence publish_diagnostics :: (unit, unit) run_action"
  let ?s2 = "s1\<lparr>run_evidence := publish_diagnostics (run_evidence s1)\<rparr>"
  have s2: "?publish s1 = (Done (), ?s2)" by (simp add: on_evidence_def run_simps)
  obtain s3 where s3: "(safety_cleanup sv :: (unit, unit) run_action) ?s2 = (Done (), s3)"
    using safety_cleanup_run by blast
  obtain stop s4 where s4: "(stop_requested :: (unit, bool) run_action) s3 = (Done stop, s4)"
    by (cases "is_cancelled (run_token s3)") (simp add: stop_requested_def)
  have until: "concluding s1 s4"
    using stepsD [OF cleanup_concludes(2) s2] stepsD [OF cleanup_concludes(1) s3] stepsD [OF cleanup_concludes(4) s4]
      concluding.trans by blast
  have "run_token s1 = Some 0 \<Longrightarrow> stop"
  proof -
    assume "run_token s1 = Some 0"
    then have "run_token s3 = Some 0"
      using stepsD [OF cleanup_concludes(2) s2] stepsD [OF cleanup_concludes(1) s3] by (simp add: concluding_def)
    then show stop using s4 by (auto simp: stop_requested_def split: prod.splits)
  qed
  moreover have "s' = (if stop \<or> b then s4\<lparr>run_evidence := record_cancellation_observation (run_evidence s4)\<rparr> else s4)"
    using assms unfolding run_to_cleanup_def
    by (auto simp: andThen_apply s1 s2 s3 s4 run_simps on_evidence_def split: if_splits)
  ultimately show thesis
    using that [OF s1] until
    by (auto simp: concluding_def record_cancellation_observation_def passed_on_def split: if_splits)
qed

text \<open>
  C23: A run that reports success, with or without contained failures, has done its work: it routed the
  Effective Asset Tree, attempted every routed Asset in the ledger's order, each attempt safe to continue
  from, after extracting every attempted Archive safely; and an Apply run has finished Archive
  Finalization. So no early stop, be it a cancellation, a failure, an unsafe attempt or a contained
  panic, is ever reported as success.
\<close>

theorem success_means_work_done:
  assumes "reports_cleanup sv" and "has_requested_work request"
    and "execute sv request t = (RunReturned r, s')"
    and "result_outcome r \<in> {OutSucceeded, OutCompletedWithFailures}"
  shows "(\<exists>l. stored_ledger (result_evidence r) = Some l
       \<and> map attempt_asset (asset_attempts (result_evidence r)) = assets_in_order l)
     \<and> list_all asset_safe (asset_attempts (result_evidence r))
     \<and> list_all extraction_safe (archive_extraction_attempts (result_evidence r))
     \<and> (request_execution_mode request = Apply \<longrightarrow> archive_finalization_completed (result_evidence r))"
proof -
  obtain final u where run: "run_to_cleanup sv run_work_phases request (begin_run sv t) = (Done final, s')"
    "consume (run_evidence s') = Ok (result_evidence r)" "result_outcome r = classify_terminal_outcome (result_evidence r)"
    using run_concludes [OF assms(1), of request t] assms(3) by (metis prod.inject executed_run.inject(1))
  obtain b s1 where s1: "contained_traversal sv run_work_phases request (begin_run sv t) = (Done b, s1)" "concluding s1 s'"
    "b \<or> run_token s1 = Some 0 \<Longrightarrow> cancellation_observed (storage_of (run_evidence s'))"
    using run_to_cleanup_concludes [OF run(1)] by blast
  note clean = clean_outcome [OF assms(4) [unfolded run(3)]] and fields = consumed_fields [OF run(2)]
  have kept: "passed_on (storage_of (run_evidence s1)) (result_evidence r)"
    using s1(2) fields(2) passed_on_trans by (auto simp: concluding_def)
  then have "\<not> b" "\<not> excused s1"
    using s1(3) clean fields(5) by (auto simp: excused_def passed_on_def)
  then obtain l where l: "worked (request_execution_mode request) l (run_evidence s1)"
    using contained_settles [OF s1(1)] assms(2) by (auto simp: settled_def)
  have "archive_finalization_completed (result_evidence r) = archive_finalization_completed (storage_of (run_evidence s1))"
    using s1(2) fields(4) by (simp add: concluding_def)
  then show ?thesis
    using l kept clean by (auto simp: worked_def passed_on_def assets_attempted_def)
qed

subsection \<open>A concrete run\<close>

definition demo_run_tree :: dir where
  "demo_run_tree = Listing
     [Dirent ''b.dds'' \<lparr>linked = Some False, leads_to_dir = False, leads_to_file = True, resolves_to = None\<rparr> Unreadable]"

definition demo_toolset :: toolset where
  "demo_toolset =
     \<lparr>ts_mode = Apply, ts_probe = silent_probe, ts_key = ascii_key, ts_lower = (\<lambda>c. [c]),
      ts_tree = (\<lambda>_ _. demo_run_tree), ts_scan = (\<lambda>_. demo_view), ts_extraction = (\<lambda>_. demo_env),
      ts_resolve = (\<lambda>_. Some),
      ts_attempt = (\<lambda>_ _ _. \<lparr>answer_result = Returned (Ok (asset_success CCommitted)), answer_retained = [],
                             answer_reads = 1\<rparr>),
      ts_finalization = (\<lambda>_. demo_fin)\<rparr>"

text \<open>The artifact registry reports a leftover file, and the cleanup service panics.\<close>

definition demo_services :: "(error + run_failure list) call \<Rightarrow> run_services" where
  "demo_services cleanup =
     \<lparr>sv_observations = None,
      sv_configuration = Some (\<lambda>_ _. Returned (Ok (new_selected_profile demo_capabilities, demo_toolset))),
      sv_selection = (\<lambda>_. demo_selection), sv_prepare_root = (\<lambda>_ _. (Returned (Ok None), 1)),
      sv_clean_artifacts = (\<lambda>_. Returned (Ok [new_run_failure TemporaryArtifactCleanupFailed SafetyCleanup ''left''])),
      sv_safety_cleanup = (\<lambda>_. cleanup)\<rparr>"

definition demo_run :: run_request where
  "demo_run = run_request_new ''SSE'' Apply (SingleModRoot demo_mod) [NativeTextureOptimization]"

lemma demo_reports: "reports_cleanup (demo_services (Returned (Ok [])))" "reports_cleanup (demo_services (Panicked ''gone''))"
  by (simp_all add: reports_cleanup_def demo_services_def cleanup_failure_def new_run_failure_def)

theorem run_returns_ordered_evidence_witness:
  "\<exists>r s'. execute (demo_services (Panicked ''gone'')) demo_run (Some 2) = (RunReturned r, s')
     \<and> result_final_phase r \<noteq> SafetyCleanup \<and> attempts_in_order (result_evidence r)"
  using run_returns_ordered_evidence [OF demo_reports(2), of demo_run "Some 2"] by blast

theorem success_means_work_done_witness:
  "\<exists>r s' l. execute (demo_services (Returned (Ok []))) demo_run None = (RunReturned r, s')
     \<and> result_outcome r = OutCompletedWithFailures
     \<and> stored_ledger (result_evidence r) = Some l
     \<and> map attempt_asset (asset_attempts (result_evidence r)) = assets_in_order l
     \<and> archive_finalization_completed (result_evidence r)"
proof -
  let ?x = "execute (demo_services (Returned (Ok []))) demo_run None"
  obtain r s' where r: "?x = (RunReturned r, s')"
    using run_concludes [OF demo_reports(1)] by metis
  have "(case fst ?x of RunReturned r \<Rightarrow> result_outcome r = OutCompletedWithFailures
      | _ \<Rightarrow> False)"
    by code_simp
  then have outcome: "result_outcome r = OutCompletedWithFailures" by (simp add: r)
  have work: "has_requested_work demo_run" "request_execution_mode demo_run = Apply"
    by (simp_all add: demo_run_def run_request_new_def has_requested_work_def)
  show ?thesis
    using success_means_work_done [OF demo_reports(1) work(1) r] outcome work(2) r by auto
qed

end
