(* ===== verification/StagingManifest.thy ===== *)
theory StagingManifest
  imports Attempts Observation Unicode
begin

text \<open>
  The ownership manifest of a staging area: the text \<open>publish_manifest\<close> writes (\<open>run/staging.rs\<close>) and the
  parser of a recovering run (\<open>run/staging/recovery.rs\<close>). Bytes are characters; the cursor of the parser is
  the rest of the input, and a field that is not read leaves the parser, so where its cursor stands then
  is not looked at again.
\<close>

subsection \<open>Records\<close>

record staged_artifact =
  relative :: string
  directory :: bool
  root_relative :: bool

definition staging_directory :: string where "staging_directory = ''.cao-staging''"
definition owner_lock :: string where "owner_lock = ''owner.lock''"
definition manifest_name :: string where "manifest_name = ''ownership.manifest''"
definition manifest_scratch :: string where "manifest_scratch = ''ownership.manifest.next''"
definition conflict_control :: string where "conflict_control = ''ownership.conflict''"
definition manifest_byte_limit :: nat where "manifest_byte_limit = 8 * 1024 * 1024"
definition registration_limit :: nat where "registration_limit = 100000"

definition staging_prefix :: "string \<Rightarrow> string option" where
  "staging_prefix ext =
     (if ext = ''.dds'' then Some ''.cao-staging-texture-''
      else if ext = ''.hkx'' then Some ''.cao-staging-animation-''
      else if ext = ''.nif'' \<or> ext = ''.btr'' \<or> ext = ''.bto'' then Some ''.cao-staging-mesh-''
      else None)"

text \<open>\<open>root.join\<close> of the record's text, whose separators are the ones of its \<open>/\<close>-separated names.\<close>

definition text_path :: "string \<Rightarrow> path" where
  "text_path s = (if s = [] then [] else map Normal (split_on CHR ''/'' s))"

definition artifact_path :: "path \<Rightarrow> staged_artifact \<Rightarrow> path" where
  "artifact_path root a =
     (if root_relative a then root else root @ [Normal staging_directory]) @ text_path (relative a)"

subsection \<open>The text of a manifest\<close>

definition quoted :: "string \<Rightarrow> string" where
  "quoted s =
     CHR 0x22 # concat (map (\<lambda>c. if c = CHR 0x22 \<or> c = CHR 0x5C then [CHR 0x5C, c] else [c]) s) @ [CHR 0x22]"

definition record_kind :: "staged_artifact \<Rightarrow> char" where
  "record_kind a = (if root_relative a then CHR ''S'' else if directory a then CHR ''D'' else CHR ''F'')"

definition record_text :: "staged_artifact \<Rightarrow> string" where
  "record_text a = record_kind a # CHR '' '' # quoted (relative a) @ [CHR 0x0A]"

definition manifest_text :: "string \<Rightarrow> string \<Rightarrow> string \<Rightarrow> staged_artifact list \<Rightarrow> string" where
  "manifest_text root run_id child artifacts =
     ''CAO-STAGING 3'' @ CHR 0x0A # quoted root @ CHR 0x0A # quoted run_id @ CHR '' '' # quoted child
     @ CHR 0x0A # show_nat (length artifacts) @ CHR 0x0A # concat (map record_text artifacts)"

subsection \<open>The fields of the input\<close>

definition is_c_space :: "char \<Rightarrow> bool" where
  "is_c_space c = (byte c \<in> {32, 9, 10, 11, 12, 13})"

definition skip_whitespace :: "string \<Rightarrow> string" where
  "skip_whitespace = dropWhile is_c_space"

definition token_field :: "string \<Rightarrow> string option \<times> string" where
  "token_field input =
     (let at = skip_whitespace input; text = takeWhile (\<lambda>c. \<not> is_c_space c) at
      in (if text = [] then None else Some text, dropWhile (\<lambda>c. \<not> is_c_space c) at))"

definition is_ascii_digit :: "char \<Rightarrow> bool" where
  "is_ascii_digit c = (48 \<le> byte c \<and> byte c \<le> 57)"

definition checked_mul :: "u64 \<Rightarrow> u64 \<Rightarrow> u64 option" where
  "checked_mul a b = (if uint a * uint b < 18446744073709551616 then Some (a * b) else None)"

definition checked_add :: "u64 \<Rightarrow> u64 \<Rightarrow> u64 option" where
  "checked_add a b = (if uint a + uint b < 18446744073709551616 then Some (a + b) else None)"

fun number_loop :: "u64 \<Rightarrow> string \<Rightarrow> u64 option \<times> string" where
  "number_loop v [] = (Some v, [])"
| "number_loop v (c # cs) =
     (if is_ascii_digit c
      then case Option.bind (checked_mul v 10) (\<lambda>w. checked_add w (of_int (byte c - 48))) of
             None \<Rightarrow> (None, c # cs)
           | Some w \<Rightarrow> number_loop w cs
      else (Some v, c # cs))"

definition number_field :: "string \<Rightarrow> u64 option \<times> string" where
  "number_field input =
     (let at = skip_whitespace input;
          start = (if at \<noteq> [] \<and> hd at = CHR ''+'' then tl at else at)
      in case number_loop 0 start of
           (v, rest) \<Rightarrow> (if length rest < length start then v else None, rest))"

definition byte_field :: "string \<Rightarrow> char option \<times> string" where
  "byte_field input = (case skip_whitespace input of [] \<Rightarrow> (None, []) | c # rest \<Rightarrow> (Some c, rest))"

fun quoted_loop :: "string \<Rightarrow> string \<Rightarrow> string option \<times> string" where
  "quoted_loop value [] = (None, [])"
| "quoted_loop value (c # rest) =
     (if c = CHR 0x22 then (Some value, rest)
      else if c = CHR 0x5C
      then (case rest of [] \<Rightarrow> (None, []) | d # rest' \<Rightarrow> quoted_loop (value @ [d]) rest')
      else quoted_loop (value @ [c]) rest)"

definition quoted_field :: "string \<Rightarrow> string option \<times> string" where
  "quoted_field input =
     (case skip_whitespace input of
        [] \<Rightarrow> (None, [])
      | c # rest \<Rightarrow> if c = CHR 0x22 then quoted_loop [] rest else (None, c # rest))"

definition at_end :: "string \<Rightarrow> bool" where
  "at_end input = (skip_whitespace input = [])"

subsection \<open>Names\<close>

text \<open>\<open>String::from_utf8\<close> of the standard library: which byte strings are UTF-8.\<close>

definition utf8_tail :: "char \<Rightarrow> bool" where
  "utf8_tail c = (128 \<le> byte c \<and> byte c \<le> 191)"

definition utf8_second :: "char \<Rightarrow> char \<Rightarrow> bool" where
  "utf8_second a b =
     (utf8_tail b \<and> (byte a = 224 \<longrightarrow> 160 \<le> byte b) \<and> (byte a = 237 \<longrightarrow> byte b \<le> 159)
      \<and> (byte a = 240 \<longrightarrow> 144 \<le> byte b) \<and> (byte a = 244 \<longrightarrow> byte b \<le> 143))"

fun is_utf8 :: "string \<Rightarrow> bool" where
  "is_utf8 [] = True"
| "is_utf8 (a # s) =
     (if byte a < 128 then is_utf8 s
      else if 194 \<le> byte a \<and> byte a \<le> 223
      then (case s of b # s1 \<Rightarrow> utf8_tail b \<and> is_utf8 s1 | _ \<Rightarrow> False)
      else if 224 \<le> byte a \<and> byte a \<le> 239
      then (case s of b # c # s1 \<Rightarrow> utf8_second a b \<and> utf8_tail c \<and> is_utf8 s1 | _ \<Rightarrow> False)
      else if 240 \<le> byte a \<and> byte a \<le> 244
      then (case s of b # c # d # s1 \<Rightarrow> utf8_second a b \<and> utf8_tail c \<and> utf8_tail d \<and> is_utf8 s1
            | _ \<Rightarrow> False)
      else False)"

definition valid_run_id :: "string \<Rightarrow> bool" where
  "valid_run_id s =
     (1 \<le> length s \<and> length s \<le> 128 \<and> list_all (\<lambda>c. is_ascii_alphanumeric c \<or> c = CHR ''-'') s)"

definition is_lowercase_nonce :: "string \<Rightarrow> bool" where
  "is_lowercase_nonce s =
     (length s = 32 \<and> list_all (\<lambda>c. is_ascii_digit c \<or> 97 \<le> byte c \<and> byte c \<le> 102) s)"

definition strip_text :: "string \<Rightarrow> string \<Rightarrow> string option" where
  "strip_text s p = (if take (length p) s = p then Some (drop (length p) s) else None)"

definition strip_end :: "string \<Rightarrow> string \<Rightarrow> string option" where
  "strip_end s e = map_option rev (strip_text (rev s) (rev e))"

definition rsplit_once :: "char \<Rightarrow> string \<Rightarrow> (string \<times> string) option" where
  "rsplit_once x s =
     (if x \<in> set s
      then Some (rev (tl (dropWhile (\<lambda>c. c \<noteq> x) (rev s))), rev (takeWhile (\<lambda>c. c \<noteq> x) (rev s)))
      else None)"

fun contains_twice :: "char \<Rightarrow> string \<Rightarrow> bool" where
  "contains_twice x (a # b # s) = (a = x \<and> b = x \<or> contains_twice x (b # s))"
| "contains_twice x _ = False"

definition safe_name_part :: "string \<Rightarrow> bool" where
  "safe_name_part part =
     (part \<noteq> [] \<and> part \<noteq> ''.'' \<and> part \<noteq> ''..'' \<and> \<not> ends_with_char (\<lambda>c. c = CHR ''.'' \<or> c = CHR '' '') part
      \<and> \<not> list_ex (\<lambda>c. c \<in> {CHR ''<'', CHR ''>'', CHR '':'', CHR 0x22, CHR 0x5C, CHR ''|'', CHR ''?'', CHR ''*''}) part
      \<and> \<not> list_ex (\<lambda>c. byte c < 32) part)"

definition safe_relative_name :: "string \<Rightarrow> bool" where
  "safe_relative_name name =
     (\<not> (name = [] \<or> hd name = CHR ''/'' \<or> last name = CHR ''/'' \<or> contains_twice CHR ''/'' name)
      \<and> list_all safe_name_part (split_on CHR ''/'' name))"

definition sibling_file :: "string \<Rightarrow> string" where
  "sibling_file name = (case rsplit_once CHR ''/'' name of None \<Rightarrow> name | Some (_, file) \<Rightarrow> file)"

definition sibling_parent :: "string \<Rightarrow> string" where
  "sibling_parent name = (case rsplit_once CHR ''/'' name of None \<Rightarrow> [] | Some (dir, _) \<Rightarrow> dir)"

definition dotted_extension :: "string \<Rightarrow> string" where
  "dotted_extension file =
     (case rsplit_once CHR ''.'' file of
        None \<Rightarrow> []
      | Some (stem, ext) \<Rightarrow> if stem = [] then [] else CHR ''.'' # ext)"

definition safe_sibling_asset_name :: "string \<Rightarrow> string \<Rightarrow> bool" where
  "safe_sibling_asset_name name run_id =
     (let file = sibling_file name; ext = dotted_extension file in
      case staging_prefix ext of
        None \<Rightarrow> False
      | Some asset_prefix \<Rightarrow>
          (case Option.bind (strip_text file (asset_prefix @ run_id @ ''-'')) (\<lambda>rest. strip_end rest ext) of
             None \<Rightarrow> False
           | Some nonce \<Rightarrow> is_lowercase_nonce nonce))"

subsection \<open>Parsing\<close>

record manifest =
  man_version :: "32 word"
  man_artifacts :: "staged_artifact list"

datatype rejection = RejCancelled | RejInvalid string

definition bad_signature :: rejection where
  "bad_signature = RejInvalid ''The CAO ownership manifest signature or version is invalid.''"
definition invalid_quoted :: rejection where
  "invalid_quoted = RejInvalid ''The ownership manifest contains an invalid quoted field.''"
definition mismatched_child :: rejection where
  "mismatched_child = RejInvalid ''The staging child does not match its Run ID and nonce.''"
definition unsafe_record :: rejection where
  "unsafe_record = RejInvalid ''The ownership manifest contains an unsafe artifact record.''"

text \<open>One record, given the control records and siblings before it.\<close>

definition admit_record ::
    "32 word \<Rightarrow> string \<Rightarrow> string \<Rightarrow> nat \<Rightarrow> (string \<rightharpoonup> bool) \<Rightarrow> string set \<Rightarrow> char option \<Rightarrow> string
       \<Rightarrow> rejection + staged_artifact" where
  "admit_record version run_id child index owned siblings kind name =
     (let root_relative = (kind = Some CHR ''S'');
          known = (kind = Some CHR ''D'' \<or> kind = Some CHR ''F'' \<or> (version = 3 \<and> root_relative));
          directory = (kind = Some CHR ''D'')
      in if \<not> known \<or> \<not> safe_relative_name name then Err unsafe_record
         else if root_relative
         then (if index = 0 \<or> \<not> safe_sibling_asset_name name run_id
                 \<or> has_staging_component (text_path (sibling_parent name)) \<or> name \<in> siblings
               then Err (RejInvalid ''A sibling Asset record is unsafe or duplicates owned output.'')
               else Ok \<lparr>relative = name, directory = directory, root_relative = True\<rparr>)
         else if \<not> (if index = 0 then name = child \<and> directory
                   else strip_text name (child @ ''/'') \<noteq> None
                        \<and> (case rsplit_once CHR ''/'' name of
                             None \<Rightarrow> False | Some (dir, _) \<Rightarrow> owned dir = Some True))
         then Err (RejInvalid ''Artifact ownership is not contained beneath the recorded run child.'')
         else if owned name \<noteq> None
         then Err (RejInvalid ''The ownership manifest contains duplicate artifact paths.'')
         else Ok \<lparr>relative = name, directory = directory, root_relative = False\<rparr>)"

fun parse_records ::
    "nat \<Rightarrow> 32 word \<Rightarrow> string \<Rightarrow> string \<Rightarrow> nat \<Rightarrow> (string \<rightharpoonup> bool) \<Rightarrow> string set \<Rightarrow> string \<Rightarrow> token
       \<Rightarrow> (rejection + staged_artifact list \<times> string) \<times> token" where
  "parse_records 0 version run_id child index owned siblings input t = (Ok ([], input), t)"
| "parse_records (Suc n) version run_id child index owned siblings input t =
     (case is_cancelled t of
        (True, t') \<Rightarrow> (Err RejCancelled, t')
      | (False, t') \<Rightarrow>
          (case byte_field input of (kind, input) \<Rightarrow>
           (case quoted_field input of
              (None, _) \<Rightarrow> (Err invalid_quoted, t')
            | (Some name, input) \<Rightarrow>
                if \<not> is_utf8 name then (Err unsafe_record, t')
                else
                  (case admit_record version run_id child index owned siblings kind name of
                     Err r \<Rightarrow> (Err r, t')
                   | Ok a \<Rightarrow>
                       (case parse_records n version run_id child (Suc index)
                               (if root_relative a then owned else owned(name \<mapsto> directory a))
                               (if root_relative a then insert name siblings else siblings) input t' of
                          (Err r, t'') \<Rightarrow> (Err r, t'')
                        | (Ok (rest, input), t'') \<Rightarrow> (Ok (a # rest, input), t''))))))"

definition child_matches :: "string \<Rightarrow> string \<Rightarrow> bool" where
  "child_matches run_id child =
     (case strip_text child (''run-'' @ run_id @ ''-'') of None \<Rightarrow> False | Some nonce \<Rightarrow> is_lowercase_nonce nonce)"

definition parse_manifest :: "string \<Rightarrow> string \<Rightarrow> token \<Rightarrow> (rejection + manifest) \<times> token" where
  "parse_manifest input root t =
     (case token_field input of (signature, input) \<Rightarrow>
      if signature \<noteq> Some ''CAO-STAGING'' then (Err bad_signature, t)
      else case number_field input of
        (None, _) \<Rightarrow> (Err bad_signature, t)
      | (Some version, input) \<Rightarrow>
          if \<not> (1 \<le> version \<and> version \<le> 3) then (Err bad_signature, t)
          else case quoted_field input of
            (None, _) \<Rightarrow> (Err invalid_quoted, t)
          | (Some recorded_root, input) \<Rightarrow>
              if recorded_root \<noteq> root
              then (Err (RejInvalid ''The ownership manifest belongs to a different Mod Root.''), t)
              else case quoted_field input of
                (None, _) \<Rightarrow> (Err invalid_quoted, t)
              | (Some run_id, input) \<Rightarrow>
                  (case quoted_field input of
                    (None, _) \<Rightarrow> (Err invalid_quoted, t)
                  | (Some child, input) \<Rightarrow>
                      if \<not> valid_run_id run_id \<or> \<not> is_utf8 child \<or> \<not> child_matches run_id child
                      then (Err mismatched_child, t)
                      else case number_field input of
                        (None, _) \<Rightarrow> (Err (RejInvalid ''The ownership manifest has an invalid artifact count.''), t)
                      | (Some count, input) \<Rightarrow>
                          if \<not> (1 \<le> count \<and> count \<le> of_nat registration_limit)
                          then (Err (RejInvalid ''The ownership manifest has an invalid artifact count.''), t)
                          else case parse_records (unat count) (ucast version) run_id child 0 Map.empty {} input t of
                            (Err r, t') \<Rightarrow> (Err r, t')
                          | (Ok (artifacts, input), t') \<Rightarrow>
                              if \<not> at_end input
                              then (Err (RejInvalid ''The ownership manifest has trailing or unreadable data.''), t')
                              else (Ok \<lparr>man_version = ucast version, man_artifacts = artifacts\<rparr>, t')))"


subsection \<open>Fields of a written manifest\<close>

lemma space_bytes [simp]:
  "is_c_space CHR '' ''" "is_c_space CHR 0x0A" "\<not> is_c_space CHR 0x22" "\<not> is_c_space CHR ''C''"
  by (simp_all add: is_c_space_def byte_def)

lemma skip_whitespace_simps [simp]:
  "skip_whitespace [] = []"
  "skip_whitespace (c # cs) = (if is_c_space c then skip_whitespace cs else c # cs)"
  by (simp_all add: skip_whitespace_def)

lemma token_field_written:
  assumes "t \<noteq> []" and "list_all (\<lambda>c. \<not> is_c_space c) t" and "is_c_space s"
  shows "token_field (t @ s # rest) = (Some t, s # rest)"
proof -
  have "skip_whitespace (t @ s # rest) = t @ s # rest"
    using assms(1,2) by (cases t) auto
  moreover have "takeWhile (\<lambda>c. \<not> is_c_space c) (t @ s # rest) = t"
      "dropWhile (\<lambda>c. \<not> is_c_space c) (t @ s # rest) = s # rest"
    using assms(2,3) by (simp_all add: list_all_iff takeWhile_append dropWhile_append)
  ultimately show ?thesis using assms(1) by (simp add: token_field_def)
qed

lemma quoted_loop_written:
  "quoted_loop v (concat (map (\<lambda>c. if c = CHR 0x22 \<or> c = CHR 0x5C then [CHR 0x5C, c] else [c]) s)
     @ CHR 0x22 # rest) = (Some (v @ s), rest)"
  by (induction s arbitrary: v) auto

lemma quoted_field_written [simp]: "quoted_field (quoted s @ rest) = (Some s, rest)"
  using quoted_loop_written [of "[]" s rest] by (simp add: quoted_field_def quoted_def)

lemma quoted_field_space [simp]: "is_c_space c \<Longrightarrow> quoted_field (c # input) = quoted_field input"
  by (simp add: quoted_field_def)

lemma number_field_space [simp]: "is_c_space c \<Longrightarrow> number_field (c # input) = number_field input"
  by (simp add: number_field_def)

text \<open>The decimal numerals of \<open>Display\<close>, read back.\<close>

lemma digits_rev_nonempty [simp]: "digits_rev n \<noteq> []"
  by (simp add: digits_rev.simps [of n])

lemma byte_char_of_nat [simp]: "n < 256 \<Longrightarrow> byte (char_of (n :: nat)) = int n"
  using of_nat_of_char [of "char_of n :: char", where ?'a = int] by (simp add: byte_def)

lemma is_ascii_digit_numeral [simp]: "d < 10 \<Longrightarrow> is_ascii_digit (char_of (48 + d :: nat))"
  by (simp add: is_ascii_digit_def)

lemma space_not_digit: "is_c_space s \<Longrightarrow> \<not> is_ascii_digit s"
  by (auto simp: is_c_space_def is_ascii_digit_def)

lemma digits_rev_digits: "list_all is_ascii_digit (digits_rev n)"
proof (induction n rule: digits_rev.induct)
  case (1 n)
  then show ?case by (subst digits_rev.simps) simp
qed

lemma checked_nat:
  assumes "10 * k + d < 2 ^ 64"
  shows "Option.bind (checked_mul (of_nat k) 10) (\<lambda>w. checked_add w (of_int (int d))) = Some (of_nat (10 * k + d))"
proof -
  have small: "uint (of_nat m :: u64) = int m" if "m < 2 ^ 64" for m
    using that by (simp add: unsigned_of_nat take_bit_nat_eq_self)
  have "uint (of_nat k :: u64) * uint (10 :: u64) < 18446744073709551616" "uint (of_nat k * 10 :: u64) = int (k * 10)"
    using assms small [of k] small [of "k * 10"] by simp_all
  moreover have "uint (of_nat d :: u64) = int d" using assms small [of d] by simp
  ultimately show ?thesis using assms by (simp add: checked_mul_def checked_add_def algebra_simps)
qed

lemma number_loop_numeral:
  "n < 2 ^ 64 \<Longrightarrow> number_loop 0 (rev (digits_rev n) @ rest) = number_loop (of_nat n) rest"
proof (induction n arbitrary: rest rule: digits_rev.induct)
  case (1 n)
  have step: "number_loop (of_nat k) (char_of (48 + d) # rest) = number_loop (of_nat (10 * k + d)) rest"
    if "d < 10" "10 * k + d < 2 ^ 64" for k d
    using that checked_nat [of k d] by (simp add: is_ascii_digit_def)
  show ?case
  proof (cases "n < 10")
    case True
    then show ?thesis using step [of n 0] 1(2) by (simp add: digits_rev.simps [of n])
  next
    case False
    then show ?thesis
      using 1(1) [OF False, of "char_of (48 + n mod 10) # rest"] step [of "n mod 10" "n div 10"] 1(2)
      by (subst digits_rev.simps) simp
  qed
qed

lemma number_field_written:
  assumes "n < 2 ^ 64" and "is_c_space s"
  shows "number_field (show_nat n @ s # rest) = (Some (of_nat n), s # rest)"
proof -
  obtain d ds where d: "show_nat n = d # ds"
    by (cases "show_nat n") (auto simp: show_nat_def)
  have "list_all is_ascii_digit (show_nat n)" using digits_rev_digits [of n] by (simp add: show_nat_def)
  then have "\<not> is_c_space d" "d \<noteq> CHR ''+''"
    by (auto simp: d is_ascii_digit_def is_c_space_def byte_def)
  moreover have "number_loop 0 (d # ds @ s # rest) = (Some (of_nat n), s # rest)"
    using number_loop_numeral [OF assms(1), of "s # rest"] d space_not_digit [OF assms(2)]
    by (simp add: show_nat_def)
  ultimately show ?thesis by (simp add: number_field_def d)
qed


subsection \<open>The records of a run\<close>

text \<open>
  What a run writes: its child first, then its files, each an Archive file beneath the child or a
  sibling of an Asset destination, without repetition.
\<close>

definition run_child :: "string \<Rightarrow> staged_artifact" where
  "run_child child = \<lparr>relative = child, directory = True, root_relative = False\<rparr>"

definition sibling_record :: "string \<Rightarrow> string \<Rightarrow> bool" where
  "sibling_record run_id name =
     (is_utf8 name \<and> safe_relative_name name \<and> safe_sibling_asset_name name run_id
      \<and> \<not> has_staging_component (text_path (sibling_parent name)))"

definition archive_file_record :: "string \<Rightarrow> string \<Rightarrow> bool" where
  "archive_file_record child name =
     (case strip_text name (child @ ''/archive-entry-'') of None \<Rightarrow> False | Some nonce \<Rightarrow> is_lowercase_nonce nonce)"

definition file_record :: "string \<Rightarrow> string \<Rightarrow> staged_artifact \<Rightarrow> bool" where
  "file_record run_id child a =
     (\<not> directory a
      \<and> (if root_relative a then sibling_record run_id (relative a) else archive_file_record child (relative a)))"

definition run_records :: "string \<Rightarrow> string \<Rightarrow> staged_artifact list \<Rightarrow> bool" where
  "run_records run_id child artifacts =
     (artifacts \<noteq> [] \<and> hd artifacts = run_child child \<and> list_all (file_record run_id child) (tl artifacts)
      \<and> distinct (tl artifacts))"

lemma strip_text_Some: "strip_text s p = Some rest \<longleftrightarrow> s = p @ rest"
  by (auto simp: strip_text_def) (metis append_take_drop_id)

lemma rsplit_once_append:
  assumes "x \<notin> set b"
  shows "rsplit_once x (a @ x # b) = Some (a, b)"
proof -
  have "takeWhile (\<lambda>c. c \<noteq> x) (rev b @ x # rev a) = rev b" "dropWhile (\<lambda>c. c \<noteq> x) (rev b @ x # rev a) = x # rev a"
    using assms by (auto simp: takeWhile_append dropWhile_append)
  then show ?thesis by (simp add: rsplit_once_def)
qed

lemma contains_twice_twice: "contains_twice x s \<Longrightarrow> 2 \<le> count_list s x"
  by (induction x s rule: contains_twice.induct) auto

text \<open>Names of letters, digits and hyphens.\<close>

definition plain :: "char \<Rightarrow> bool" where
  "plain c = (is_ascii_alphanumeric c \<or> c = CHR ''-'')"

lemma plain_chars:
  assumes "plain c"
  shows "byte c < 128" "32 \<le> byte c" "c \<noteq> CHR ''/''" "c \<noteq> CHR ''.''" "c \<noteq> CHR '' ''"
    "c \<notin> {CHR ''<'', CHR ''>'', CHR '':'', CHR 0x22, CHR 0x5C, CHR ''|'', CHR ''?'', CHR ''*''}"
proof -
  have *: "48 \<le> byte c \<and> byte c \<le> 57 \<or> 65 \<le> byte c \<and> byte c \<le> 90 \<or> 97 \<le> byte c \<and> byte c \<le> 122 \<or> byte c = 45"
    using assms by (auto simp: plain_def is_ascii_alphanumeric_def Let_def byte_def)
  then show "byte c < 128" "32 \<le> byte c" by auto
  show "c \<noteq> CHR ''/''" "c \<noteq> CHR ''.''" "c \<noteq> CHR '' ''"
    "c \<notin> {CHR ''<'', CHR ''>'', CHR '':'', CHR 0x22, CHR 0x5C, CHR ''|'', CHR ''?'', CHR ''*''}"
    using * by (auto simp: byte_def)
qed

lemma nonce_plain: "is_lowercase_nonce s \<Longrightarrow> list_all plain s"
  by (auto simp: is_lowercase_nonce_def list_all_iff plain_def is_ascii_digit_def is_ascii_alphanumeric_def Let_def)

lemma run_id_plain: "valid_run_id s \<Longrightarrow> list_all plain s"
  by (auto simp: valid_run_id_def list_all_iff plain_def)

lemma literal_plain [simp]: "list_all plain ''run-''" "list_all plain ''-''" "list_all plain ''archive-entry-''"
  by (simp_all add: plain_def is_ascii_alphanumeric_def byte_def)

lemma child_plain:
  assumes "valid_run_id run_id" and "child_matches run_id child"
  shows "list_all plain child" "child \<noteq> []"
proof -
  obtain nonce where "child = ''run-'' @ run_id @ ''-'' @ nonce" "is_lowercase_nonce nonce"
    using assms(2) by (auto simp: child_matches_def strip_text_Some split: option.splits)
  then show "list_all plain child" "child \<noteq> []"
    using nonce_plain run_id_plain [OF assms(1)] literal_plain by (simp_all add: list_all_append)
qed

lemma ascii_is_utf8: "list_all (\<lambda>c. byte c < 128) s \<Longrightarrow> is_utf8 s"
  by (induction s) auto

lemma plain_utf8: "list_all plain s \<Longrightarrow> is_utf8 s"
  by (rule ascii_is_utf8) (auto simp: list_all_iff plain_chars)

lemma plain_part: 
  assumes "list_all plain part" "part \<noteq> []"
  shows "safe_name_part part"
proof -
  have *: "plain c" if "c \<in> set part" for c using assms(1) that by (simp add: list_all_iff)
  have "last part \<in> set part" using assms(2) by simp
  then have "\<not> ends_with_char (\<lambda>c. c = CHR ''.'' \<or> c = CHR '' '') part"
    using plain_chars [OF *] assms(2) by (auto simp: ends_with_char_def)
  moreover have "CHR ''.'' \<notin> set part" using * plain_chars(4) by blast
  ultimately show ?thesis
    using plain_chars(2,6) [OF *] assms(2) unfolding safe_name_part_def list_ex_iff by (fastforce simp del: insert_iff)
qed


lemma archive_record_facts:
  assumes "valid_run_id run_id" and "child_matches run_id child" and "archive_file_record child name"
  obtains leaf where "name = child @ CHR ''/'' # leaf" and "list_all plain leaf" and "leaf \<noteq> []"
proof -
  obtain nonce where n: "name = (child @ ''/archive-entry-'') @ nonce" "is_lowercase_nonce nonce"
    using assms(3) by (auto simp: archive_file_record_def strip_text_Some split: option.splits)
  show thesis
    by (rule that [of "''archive-entry-'' @ nonce"]) (use n nonce_plain [OF n(2)] literal_plain(3) in \<open>simp_all add: list_all_append\<close>)
qed

lemma plain_no_slash: "list_all plain s \<Longrightarrow> CHR ''/'' \<notin> set s"
  by (auto simp: list_all_iff dest: plain_chars)

lemma plain_path_safe:
  assumes "list_all plain a" "a \<noteq> []" "list_all plain b" "b \<noteq> []"
  shows "safe_relative_name (a @ CHR ''/'' # b)"
proof -
  note no = plain_no_slash [OF assms(1)] plain_no_slash [OF assms(3)]
  have "\<not> contains_twice CHR ''/'' (a @ CHR ''/'' # b)"
    using contains_twice_twice [of "CHR ''/''" "a @ CHR ''/'' # b"] no by auto
  moreover have "hd a \<noteq> CHR ''/''" "last b \<noteq> CHR ''/''" using no assms(2,4) by (metis hd_in_set last_in_set)+
  ultimately show ?thesis
    using no assms by (auto simp: safe_relative_name_def split_on_append split_on_no_sep plain_part)
qed

lemma plain_name_safe:
  assumes "list_all plain a" "a \<noteq> []"
  shows "safe_relative_name a"
proof -
  note no = plain_no_slash [OF assms(1)]
  have "hd a \<noteq> CHR ''/''" "last a \<noteq> CHR ''/''" using no assms(2) by (metis hd_in_set last_in_set)+
  then show ?thesis
    using no assms contains_twice_twice [of "CHR ''/''" a]
    by (auto simp: safe_relative_name_def split_on_no_sep plain_part)
qed

lemma file_record_admitted:
  assumes "valid_run_id run_id" "child_matches run_id child" "file_record run_id child a" "0 < index"
    and "owned child = Some True" "\<not> root_relative a \<Longrightarrow> owned (relative a) = None"
    and "root_relative a \<Longrightarrow> relative a \<notin> siblings"
  shows "is_utf8 (relative a)"
    and "admit_record 3 run_id child index owned siblings (Some (record_kind a)) (relative a) = Ok a"
proof -
  have "is_utf8 (relative a) \<and> admit_record 3 run_id child index owned siblings (Some (record_kind a)) (relative a) = Ok a"
  proof (cases "root_relative a")
    case True
    then show ?thesis
      using assms by (simp add: file_record_def sibling_record_def admit_record_def record_kind_def)
  next
    case False
    obtain leaf where f: "relative a = child @ CHR ''/'' # leaf" "list_all plain leaf" "leaf \<noteq> []"
      using archive_record_facts [OF assms(1,2)] assms(3) False by (auto simp: file_record_def)
    note plain = child_plain [OF assms(1,2)] f(2,3)
    have "byte CHR ''/'' < 128" by (simp add: byte_def)
    then have "list_all (\<lambda>c. byte c < 128) (relative a)"
      using plain(1,3) by (auto simp: list_all_iff f(1) plain_chars(1))
    then have "safe_relative_name (relative a)" "is_utf8 (relative a)"
      using plain_path_safe [OF plain] ascii_is_utf8 by (simp_all add: f(1))
    moreover have "rsplit_once CHR ''/'' (relative a) = Some (child, leaf)"
      using rsplit_once_append [OF plain_no_slash [OF f(2)]] by (simp add: f(1))
    moreover have "strip_text (relative a) (child @ ''/'') \<noteq> None" by (simp add: f(1) strip_text_Some)
    moreover have "\<not> directory a" using assms(3) by (simp add: file_record_def)
    ultimately show ?thesis
      using False assms(4-6) by (simp add: admit_record_def record_kind_def)
  qed
  then show "is_utf8 (relative a)"
    "admit_record 3 run_id child index owned siblings (Some (record_kind a)) (relative a) = Ok a" by simp_all
qed

lemma kind_not_space [simp]: "\<not> is_c_space (record_kind a)"
  by (simp add: record_kind_def is_c_space_def byte_def)

lemma record_fields [simp]:
  "byte_field (CHR 0x0A # record_text a @ next_records) = (Some (record_kind a), CHR '' '' # quoted (relative a) @ CHR 0x0A # next_records)"
  by (simp add: byte_field_def record_text_def)


lemma parse_records_written:
  assumes "valid_run_id run_id" "child_matches run_id child"
  shows "list_all (file_record run_id child) rest \<Longrightarrow> distinct rest \<Longrightarrow> 0 < index \<Longrightarrow> owned child = Some True
    \<Longrightarrow> (\<forall>a \<in> set rest. if root_relative a then relative a \<notin> siblings else owned (relative a) = None)
    \<Longrightarrow> parse_records (length rest) 3 run_id child index owned siblings
          (CHR 0x0A # concat (map record_text rest)) None = (Ok (rest, [CHR 0x0A]), None)"
proof (induction rest arbitrary: index owned siblings)
  case (Cons a rest)
  have a: "file_record run_id child a" and new: "a \<notin> set rest" using Cons.prems by simp_all
  have "owned child = Some True" "\<not> root_relative a \<longrightarrow> owned (relative a) = None"
    "root_relative a \<longrightarrow> relative a \<notin> siblings"
    using Cons.prems by auto
  note admitted = file_record_admitted [OF assms a, of index owned siblings]
  have ok: "is_utf8 (relative a)"
    "admit_record 3 run_id child index owned siblings (Some (record_kind a)) (relative a) = Ok a"
    using admitted Cons.prems by auto
  let ?owned = "if root_relative a then owned else owned(relative a \<mapsto> directory a)"
  let ?siblings = "if root_relative a then insert (relative a) siblings else siblings"
  have other: "relative b \<noteq> relative a" if "b \<in> set rest" "root_relative b = root_relative a" for b
  proof
    assume "relative b = relative a"
    moreover have "\<not> directory a" "\<not> directory b"
      using Cons.prems(1) that(1) by (auto simp: file_record_def list_all_iff)
    ultimately have "a = b" using that(2) by simp
    then show False using new that(1) by simp
  qed
  have "?owned child = Some True"
    using Cons.prems(4,5) by (auto simp: ok)
  moreover have "\<forall>b \<in> set rest. if root_relative b then relative b \<notin> ?siblings else ?owned (relative b) = None"
    using Cons.prems(5) other by (auto split: if_splits)
  ultimately have "parse_records (length rest) 3 run_id child (Suc index) ?owned ?siblings
      (CHR 0x0A # concat (map record_text rest)) None = (Ok (rest, [CHR 0x0A]), None)"
    using Cons.IH [of "Suc index" ?owned ?siblings] Cons.prems(1,2) by simp
  then show ?case by (simp add: ok)
qed simp

lemma run_records_parse:
  assumes "valid_run_id run_id" "child_matches run_id child" "run_records run_id child artifacts"
  shows "parse_records (length artifacts) 3 run_id child 0 Map.empty {}
          (CHR 0x0A # concat (map record_text artifacts)) None = (Ok (artifacts, [CHR 0x0A]), None)"
proof -
  obtain rest where r: "artifacts = run_child child # rest" "list_all (file_record run_id child) rest" "distinct rest"
    using assms(3) by (cases artifacts) (auto simp: run_records_def)
  note plain = child_plain [OF assms(1,2)]
  have "admit_record 3 run_id child 0 Map.empty {} (Some (record_kind (run_child child))) child = Ok (run_child child)"
    using plain_name_safe [OF plain] by (simp add: admit_record_def run_child_def record_kind_def)
  moreover have "\<forall>a \<in> set rest. \<not> root_relative a \<longrightarrow> relative a \<noteq> child"
  proof (intro ballI impI)
    fix a assume "a \<in> set rest" "\<not> root_relative a"
    then have "archive_file_record child (relative a)"
      using r(2) by (auto simp: list_all_iff file_record_def)
    then show "relative a \<noteq> child" using archive_record_facts [OF assms(1,2)] by (metis append_self_conv list.distinct(1))
  qed
  ultimately show ?thesis
    using parse_records_written [OF assms(1,2) r(2,3), of 1 "[child \<mapsto> True]" "{}"] plain_utf8 [OF plain(1)]
    by (simp add: r(1) run_child_def)
qed

text \<open>Cancellation apart, the token plays no part in parsing.\<close>

lemma parse_records_token:
  "parse_records n version run_id child index owned siblings input t = (r, t') \<Longrightarrow>
     r = Err RejCancelled \<or> r = fst (parse_records n version run_id child index owned siblings input None)"
proof (induction n arbitrary: index owned siblings input t r t')
  case (Suc n)
  show ?case
  proof (cases t rule: is_cancelled_cases)
    case stop
    then show ?thesis using Suc.prems by simp
  next
    case (go t1)
    obtain kind input1 where k: "byte_field input = (kind, input1)" by fastforce
    obtain name input2 where q: "quoted_field input1 = (name, input2)" by fastforce
    show ?thesis
    proof (cases "\<exists>nm a. name = Some nm \<and> is_utf8 nm
        \<and> admit_record version run_id child index owned siblings kind nm = Ok a")
      case True
      then obtain nm a where a: "name = Some nm" "is_utf8 nm"
        "admit_record version run_id child index owned siblings kind nm = Ok a" by blast
      let ?owned = "if root_relative a then owned else owned(nm \<mapsto> directory a)"
      let ?siblings = "if root_relative a then insert nm siblings else siblings"
      obtain r1 t2 where rec: "parse_records n version run_id child (Suc index) ?owned ?siblings input2 t1 = (r1, t2)"
        by fastforce
      obtain r2 t3 where free: "parse_records n version run_id child (Suc index) ?owned ?siblings input2 None = (r2, t3)"
        by fastforce
      have "r1 = Err RejCancelled \<or> r1 = r2" using Suc.IH [OF rec] free by simp
      then show ?thesis
        using Suc.prems by (cases r1) (auto simp: go k q a rec free split: sum.splits)
    next
      case False
      then show ?thesis
        using Suc.prems by (auto simp: go k q split: option.splits sum.splits)
    qed
  qed
qed simp

lemma written_manifest_parses:
  assumes "valid_run_id run_id" and "child_matches run_id child"
    and "run_records run_id child artifacts" and "length artifacts \<le> registration_limit"
  shows "parse_manifest (manifest_text root run_id child artifacts) root None
           = (Ok \<lparr>man_version = 3, man_artifacts = artifacts\<rparr>, None)
     \<and> fst (parse_manifest (manifest_text root run_id child artifacts) root t)
           \<in> {Err RejCancelled, Ok \<lparr>man_version = 3, man_artifacts = artifacts\<rparr>}"
proof -
  let ?records = "concat (map record_text artifacts)"
  let ?n = "length artifacts"
  have n: "?n < 2 ^ 64" "1 \<le> ?n" "?n \<le> 100000"
    using assms(3,4) by (auto simp: run_records_def registration_limit_def Suc_le_eq)
  have signature: "token_field (manifest_text root run_id child artifacts)
      = (Some ''CAO-STAGING'', '' 3'' @ CHR 0x0A # quoted root @ CHR 0x0A # quoted run_id @ CHR '' '' # quoted child
          @ CHR 0x0A # show_nat ?n @ CHR 0x0A # ?records)"
    using token_field_written [of "''CAO-STAGING''" "CHR '' ''"]
    by (simp add: manifest_text_def is_c_space_def byte_def)
  have three: "show_nat 3 = ''3''" by code_simp
  have version: "number_field (CHR ''3'' # CHR 0x0A # more_input) = (Some 3, CHR 0x0A # more_input)" for more_input
    using number_field_written [of 3 "CHR 0x0A" more_input] by (simp add: three)
  have count: "number_field (show_nat ?n @ CHR 0x0A # ?records) = (Some (of_nat ?n), CHR 0x0A # ?records)"
    using number_field_written [OF n(1), of "CHR 0x0A" ?records] by simp
  have unat: "unat (of_nat ?n :: u64) = ?n" using n(1) by (simp add: unsigned_of_nat take_bit_nat_eq_self)
  then have limits: "(1 :: u64) \<le> of_nat ?n" "(of_nat ?n :: u64) \<le> of_nat registration_limit"
    using n(2,3) by (simp_all add: word_le_nat_alt registration_limit_def)
  have child: "is_utf8 child" using plain_utf8 [OF child_plain(1) [OF assms(1,2)]] .
  have parse: "parse_manifest (manifest_text root run_id child artifacts) root t =
      (case parse_records ?n 3 run_id child 0 Map.empty {} (CHR 0x0A # ?records) t of
         (Err r, t') \<Rightarrow> (Err r, t')
       | (Ok (found, input), t') \<Rightarrow>
           if \<not> at_end input
           then (Err (RejInvalid ''The ownership manifest has trailing or unreadable data.''), t')
           else (Ok \<lparr>man_version = 3, man_artifacts = found\<rparr>, t'))" for t
    using assms(1,2) child limits by (simp add: parse_manifest_def signature version count unat split: sum.split prod.split)
  note whole = run_records_parse [OF assms(1-3)]
  obtain r t' where r: "parse_records ?n 3 run_id child 0 Map.empty {} (CHR 0x0A # ?records) t = (r, t')" by fastforce
  have "r = Err RejCancelled \<or> r = Ok (artifacts, [CHR 0x0A])"
    using parse_records_token [OF r] whole by simp
  then show ?thesis
    by (auto simp: parse whole r at_end_def)
qed

text \<open>
  C30: A recovering run reads back what a run wrote. The manifest a run publishes for its Mod Root parses
  as version 3 with exactly its records, in their order, whatever characters the root's text holds; a
  recovery that is cancelled meanwhile decides nothing.
\<close>

theorem manifest_round_trip:
  assumes "valid_run_id run_id" and "child_matches run_id child"
    and "run_records run_id child artifacts" and "length artifacts \<le> registration_limit"
  shows "parse_manifest (manifest_text root run_id child artifacts) root None
           = (Ok \<lparr>man_version = 3, man_artifacts = artifacts\<rparr>, None)
     \<and> fst (parse_manifest (manifest_text root run_id child artifacts) root t)
           \<in> {Err RejCancelled, Ok \<lparr>man_version = 3, man_artifacts = artifacts\<rparr>}"
  using assms by (rule written_manifest_parses)

subsection \<open>What an accepted manifest can name\<close>

text \<open>A record the parser admitted, and the sequences of them it can accept.\<close>

definition contained_record :: "string \<Rightarrow> string \<Rightarrow> staged_artifact \<Rightarrow> bool" where
  "contained_record run_id child a =
     (safe_relative_name (relative a)
      \<and> (if root_relative a
         then \<not> directory a \<and> safe_sibling_asset_name (relative a) run_id
              \<and> \<not> has_staging_component (text_path (sibling_parent (relative a)))
         else relative a = child \<or> strip_text (relative a) (child @ ''/'') \<noteq> None))"

fun admitted ::
    "32 word \<Rightarrow> string \<Rightarrow> string \<Rightarrow> nat \<Rightarrow> (string \<rightharpoonup> bool) \<Rightarrow> string set \<Rightarrow> staged_artifact list \<Rightarrow> bool" where
  "admitted version run_id child index owned siblings [] = True"
| "admitted version run_id child index owned siblings (a # as) =
     ((\<exists>kind. admit_record version run_id child index owned siblings kind (relative a) = Ok a)
      \<and> admitted version run_id child (Suc index) (if root_relative a then owned else owned(relative a \<mapsto> directory a))
          (if root_relative a then insert (relative a) siblings else siblings) as)"

lemma admit_recordD:
  assumes "admit_record version run_id child index owned siblings kind name = Ok a"
  shows "relative a = name" "contained_record run_id child a"
    and "root_relative a \<Longrightarrow> index \<noteq> 0 \<and> name \<notin> siblings"
    and "\<not> root_relative a \<Longrightarrow> owned name = None"
    and "\<not> root_relative a \<Longrightarrow> index = 0 \<Longrightarrow> name = child \<and> directory a"
    and "\<not> root_relative a \<Longrightarrow> index \<noteq> 0 \<Longrightarrow> \<exists>dir leaf. rsplit_once CHR ''/'' name = Some (dir, leaf) \<and> owned dir = Some True"
  using assms
  by (auto simp: admit_record_def Let_def contained_record_def split: if_splits option.splits)

lemma parse_records_admitted:
  "parse_records n version run_id child index owned siblings input t = (Ok (as, rest), t') \<Longrightarrow>
     length as = n \<and> admitted version run_id child index owned siblings as"
proof (induction n arbitrary: index owned siblings input t as rest t')
  case (Suc n)
  obtain t1 kind input1 name input2 where read: "is_cancelled t = (False, t1)" "byte_field input = (kind, input1)"
    "quoted_field input1 = (Some name, input2)" "is_utf8 name"
    using Suc.prems by (auto split: prod.splits bool.splits option.splits if_splits)
  obtain a where a: "admit_record version run_id child index owned siblings kind name = Ok a"
    using Suc.prems by (auto simp: read split: sum.splits)
  obtain as' rest' where rec: "as = a # as'"
    "parse_records n version run_id child (Suc index) (if root_relative a then owned else owned(name \<mapsto> directory a))
       (if root_relative a then insert name siblings else siblings) input2 t1 = (Ok (as', rest'), t')"
    using Suc.prems by (auto simp: read a split: prod.splits sum.splits)
  show ?case using Suc.IH [OF rec(2)] rec(1) a admit_recordD(1) [OF a] by (auto simp: fun_upd_def)
qed simp

lemma admitted_contained: "admitted version run_id child index owned siblings as \<Longrightarrow> list_all (contained_record run_id child) as"
  by (induction as arbitrary: index owned siblings) (auto dest: admit_recordD)

definition record_key :: "staged_artifact \<Rightarrow> bool \<times> string" where
  "record_key a = (root_relative a, relative a)"

lemma admitted_distinct:
  "admitted version run_id child index owned siblings as \<Longrightarrow>
     distinct (map record_key as)
     \<and> (\<forall>a \<in> set as. if root_relative a then relative a \<notin> siblings else owned (relative a) = None)"
proof (induction as arbitrary: index owned siblings)
  case (Cons a as)
  then obtain kind where a: "admit_record version run_id child index owned siblings kind (relative a) = Ok a" by auto
  have rest: "distinct (map record_key as)"
    "\<forall>b \<in> set as. if root_relative b then relative b \<notin> (if root_relative a then insert (relative a) siblings else siblings)
       else (if root_relative a then owned else owned(relative a \<mapsto> directory a)) (relative b) = None"
    using Cons.IH [of "Suc index" "if root_relative a then owned else owned(relative a \<mapsto> directory a)"
        "if root_relative a then insert (relative a) siblings else siblings"] Cons.prems
    by (simp_all only: admitted.simps) blast+
  have "record_key a \<notin> record_key ` set as"
    using rest(2) by (force simp: record_key_def split: if_splits)
  moreover have "\<forall>b \<in> set as. if root_relative b then relative b \<notin> siblings else owned (relative b) = None"
    using rest(2) by (auto split: if_splits)
  ultimately show ?case using rest(1) admit_recordD(3,4) [OF a] by auto
qed simp

lemma admitted_parents:
  "admitted version run_id child index owned siblings (before_it @ a # after_it) \<Longrightarrow> \<not> root_relative a
     \<Longrightarrow> index + length before_it \<noteq> 0
     \<Longrightarrow> \<exists>dir leaf. rsplit_once CHR ''/'' (relative a) = Some (dir, leaf)
           \<and> (owned dir = Some True \<or> (\<exists>d \<in> set before_it. \<not> root_relative d \<and> directory d \<and> relative d = dir))"
proof (induction before_it arbitrary: index owned siblings)
  case Nil
  then show ?case using admit_recordD(6) by fastforce
next
  case (Cons d ds)
  then show ?case
    using Cons.IH [of "Suc index" "if root_relative d then owned else owned(relative d \<mapsto> directory d)"
        "if root_relative d then insert (relative d) siblings else siblings"]
    by (auto split: if_splits)
qed


lemma ends_single: "ends_with_char P [c] = P c"
  by (simp add: ends_with_char_def)

lemma safe_parts:
  assumes "safe_relative_name name"
  shows "name \<noteq> []" "text_path name = map Normal (split_on CHR ''/'' name)"
    "list_all safe_name_part (split_on CHR ''/'' name)"
  using assms by (simp_all add: safe_relative_name_def text_path_def)

lemma text_path_inj:
  assumes "text_path a = text_path b" "a \<noteq> []" "b \<noteq> []"
  shows "a = b"
proof -
  have "split_on CHR ''/'' a = split_on CHR ''/'' b"
    using assms by (simp add: text_path_def inj_map_eq_map inj_def)
  then show ?thesis by (metis join_split)
qed

text \<open>The file of a sibling record is in the reserved namespace.\<close>

lemma staging_prefix_staging: "staging_prefix ext = Some p \<Longrightarrow> is_staging_name (p @ s) \<and> p @ s \<noteq> staging_directory"
  by (auto simp: staging_prefix_def is_staging_name_def staging_directory_def to_ascii_lowercase_def
      char_to_ascii_lowercase_def byte_def split: if_splits)

lemma rsplit_once_SomeD:
  assumes "rsplit_once x s = Some (a, b)"
  shows "s = a @ x # b" "x \<notin> set b"
proof -
  have "x \<in> set s" using assms by (simp add: rsplit_once_def split: if_splits)
  then obtain a' b' where s: "s = a' @ x # b'" "x \<notin> set b'" by (meson split_list_last)
  then have "a' = a" "b' = b" using assms rsplit_once_append [OF s(2)] by simp_all
  then show "s = a @ x # b" "x \<notin> set b" using s by simp_all
qed

lemma split_on_snoc: "c \<notin> set t \<Longrightarrow> split_on c (s @ c # t) = split_on c s @ [t]"
  by (induction s) (auto simp: split_on_no_sep split: list.split)

lemma sibling_split:
  assumes "safe_relative_name name"
  obtains dirs where "split_on CHR ''/'' name = dirs @ [sibling_file name]"
    and "text_path (sibling_parent name) = map Normal dirs"
proof (cases "rsplit_once CHR ''/'' name")
  case None
  then have "CHR ''/'' \<notin> set name" by (simp add: rsplit_once_def split: if_splits)
  with None show thesis
    using that [of "[]"] by (simp add: sibling_file_def sibling_parent_def split_on_no_sep text_path_def)
next
  case (Some p)
  then obtain d f where df: "rsplit_once CHR ''/'' name = Some (d, f)" by (cases p) simp
  note name = rsplit_once_SomeD [OF df]
  have "d \<noteq> []" using assms name(1) by (auto simp: safe_relative_name_def)
  with df show thesis
    using that [of "split_on CHR ''/'' d"] name split_on_snoc [OF name(2)]
    by (simp add: sibling_file_def sibling_parent_def text_path_def)
qed

text \<open>Where the records of an accepted manifest lie.\<close>

definition reserved_below :: "string \<Rightarrow> string list \<Rightarrow> bool" where
  "reserved_below child names =
     (list_all safe_name_part names
      \<and> ((\<exists>deeper. names = staging_directory # child # deeper)
         \<or> names \<noteq> [] \<and> is_staging_name (last names) \<and> last names \<noteq> staging_directory
             \<and> \<not> list_ex is_staging_name (butlast names)))"

lemma contained_reserved:
  assumes "valid_run_id run_id" "child_matches run_id child" "contained_record run_id child a"
  obtains names where "artifact_path root a = root @ map Normal names" and "reserved_below child names"
    and "root_relative a \<Longrightarrow> names = split_on CHR ''/'' (relative a) \<and> hd names \<noteq> staging_directory"
    and "\<not> root_relative a \<Longrightarrow> names = staging_directory # split_on CHR ''/'' (relative a)"
proof (cases "root_relative a")
  case True
  let ?names = "split_on CHR ''/'' (relative a)"
  have a: "safe_relative_name (relative a)" "safe_sibling_asset_name (relative a) run_id"
    "\<not> has_staging_component (text_path (sibling_parent (relative a)))"
    using assms(3) True by (simp_all add: contained_record_def)
  obtain dirs where dirs: "?names = dirs @ [sibling_file (relative a)]"
    "text_path (sibling_parent (relative a)) = map Normal dirs"
    by (rule sibling_split [OF a(1)])
  obtain ext p rest where "staging_prefix ext = Some p" "sibling_file (relative a) = p @ rest"
    using a(2) by (auto simp: safe_sibling_asset_name_def Let_def bind_eq_Some_conv strip_text_Some split: option.splits)
  then have "is_staging_name (sibling_file (relative a)) \<and> sibling_file (relative a) \<noteq> staging_directory"
    using staging_prefix_staging by simp
  moreover have none: "\<not> list_ex is_staging_name dirs"
    using a(3) dirs(2) by (simp add: has_staging_component_def list_ex_iff)
  moreover have "is_staging_name staging_directory" by code_simp
  ultimately show thesis
    using that [of ?names] True safe_parts [OF a(1)] dirs
    by (cases dirs) (auto simp: artifact_path_def reserved_below_def)
next
  case False
  let ?names = "staging_directory # split_on CHR ''/'' (relative a)"
  have a: "safe_relative_name (relative a)" "relative a = child \<or> (\<exists>s. relative a = child @ CHR ''/'' # s)"
    using assms(3) False by (auto simp: contained_record_def strip_text_Some)
  have "CHR ''/'' \<notin> set child" by (rule plain_no_slash [OF child_plain(1) [OF assms(1,2)]])
  then obtain deeper where "split_on CHR ''/'' (relative a) = child # deeper"
    using a(2) by (auto simp: split_on_no_sep split_on_append)
  moreover have "safe_name_part staging_directory" by code_simp
  ultimately show thesis
    using that [of ?names] False safe_parts [OF a(1)] by (simp add: artifact_path_def reserved_below_def)
qed


lemma record_paths_distinct:
  assumes "valid_run_id run_id" "child_matches run_id child"
    and "contained_record run_id child a" "contained_record run_id child b"
    and "artifact_path root a = artifact_path root b"
  shows "record_key a = record_key b"
proof -
  obtain as where as: "artifact_path root a = root @ map Normal as"
      "root_relative a \<Longrightarrow> as = split_on CHR ''/'' (relative a) \<and> hd as \<noteq> staging_directory"
      "\<not> root_relative a \<Longrightarrow> as = staging_directory # split_on CHR ''/'' (relative a)"
    using contained_reserved [OF assms(1-3)] by metis
  obtain bs where bs: "artifact_path root b = root @ map Normal bs"
      "root_relative b \<Longrightarrow> bs = split_on CHR ''/'' (relative b) \<and> hd bs \<noteq> staging_directory"
      "\<not> root_relative b \<Longrightarrow> bs = staging_directory # split_on CHR ''/'' (relative b)"
    using contained_reserved [OF assms(1,2,4)] by metis
  have same: "as = bs" using assms(5) as(1) bs(1) by (simp add: inj_map_eq_map inj_def)
  then have "root_relative a = root_relative b"
    using as(2,3) bs(2,3) by (cases "root_relative a"; cases "root_relative b") auto
  moreover then have "split_on CHR ''/'' (relative a) = split_on CHR ''/'' (relative b)"
    using same as(2,3) bs(2,3) by (cases "root_relative a") auto
  ultimately show ?thesis by (metis join_split record_key_def)
qed

lemma parse_manifest_admitted:
  assumes "parse_manifest input root t = (Ok m, t')"
  obtains run_id child where "valid_run_id run_id" "child_matches run_id child" "man_artifacts m \<noteq> []"
    "admitted (man_version m) run_id child 0 Map.empty {} (man_artifacts m)"
proof -
  obtain input1 version input2 input3 run_id input4 child input5 count input6 where f:
    "token_field input = (Some ''CAO-STAGING'', input1)" "number_field input1 = (Some version, input2)"
    "1 \<le> version" "version \<le> 3" "quoted_field input2 = (Some root, input3)" "quoted_field input3 = (Some run_id, input4)"
    "quoted_field input4 = (Some child, input5)" "valid_run_id run_id" "child_matches run_id child"
    "number_field input5 = (Some count, input6)" "1 \<le> count"
    "(case parse_records (unat count) (ucast version) run_id child 0 Map.empty {} input6 t of
        (Err r, t') \<Rightarrow> (Err r, t')
      | (Ok (artifacts, input), t') \<Rightarrow>
          if \<not> at_end input
          then (Err (RejInvalid ''The ownership manifest has trailing or unreadable data.''), t')
          else (Ok \<lparr>man_version = ucast version, man_artifacts = artifacts\<rparr>, t')) = (Ok m, t')"
    using assms unfolding parse_manifest_def by (auto split: prod.splits option.splits if_splits)
  obtain artifacts rest t2 where r: "parse_records (unat count) (ucast version) run_id child 0 Map.empty {} input6 t
      = (Ok (artifacts, rest), t2)" "m = \<lparr>man_version = ucast version, man_artifacts = artifacts\<rparr>"
    using f(12) by (auto split: prod.splits sum.splits if_splits)
  have "0 < unat count" using f(11) by (simp add: word_le_nat_alt)
  then show thesis
    using that [OF f(8,9)] parse_records_admitted [OF r(1)] r(2) by (metis length_greater_0_conv manifest.select_convs)
qed

text \<open>
  C31: A manifest proves ownership of nothing outside the reserved namespace. Whatever bytes it holds,
  every record a recovery accepts, for any Mod Root, lies below that root and names its entry by safe
  parts, without traversal; the entry is in the run child of the reserved directory, or is a file whose
  own name is reserved, in a folder that is not. No two records name one entry, the first names the run
  child itself, and the folder of every later entry of the run child is a recorded directory before it,
  so reverse order removes children first.
\<close>

theorem accepted_records_are_reserved:
  assumes "parse_manifest input root t = (Ok m, t')"
  shows "\<exists>child. hd (man_artifacts m) = run_child child \<and> distinct (map (artifact_path mod_root) (man_artifacts m))
     \<and> (\<forall>a \<in> set (man_artifacts m). \<exists>names. artifact_path mod_root a = mod_root @ map Normal names
          \<and> reserved_below child names \<and> (root_relative a \<longrightarrow> \<not> directory a))
     \<and> (\<forall>earlier a later. man_artifacts m = earlier @ a # later \<and> \<not> root_relative a \<and> earlier \<noteq> []
          \<longrightarrow> (\<exists>d \<in> set earlier. directory d \<and> \<not> root_relative d
                 \<and> artifact_path mod_root d = butlast (artifact_path mod_root a)))"
proof -
  obtain run_id child where m: "valid_run_id run_id" "child_matches run_id child" "man_artifacts m \<noteq> []"
    "admitted (man_version m) run_id child 0 Map.empty {} (man_artifacts m)"
    by (rule parse_manifest_admitted [OF assms])
  note contained = admitted_contained [OF m(4)]
  have inside: "contained_record run_id child a" if "a \<in> set (man_artifacts m)" for a
    using contained that by (simp add: list_all_iff)
  have "distinct (map (artifact_path mod_root) (man_artifacts m))"
  proof -
    have "distinct (map record_key (man_artifacts m))" using admitted_distinct [OF m(4)] by (rule conjunct1)
    then have "distinct (man_artifacts m)" "inj_on record_key (set (man_artifacts m))" by (simp_all only: distinct_map)
    moreover have "inj_on (artifact_path mod_root) (set (man_artifacts m))"
    proof (rule inj_onI)
      fix a b
      assume *: "a \<in> set (man_artifacts m)" "b \<in> set (man_artifacts m)"
        and same: "artifact_path mod_root a = artifact_path mod_root b"
      have "record_key a = record_key b"
        by (rule record_paths_distinct [OF m(1,2) inside [OF *(1)] inside [OF *(2)] same])
      then show "a = b" using inj_onD [OF calculation(2)] * by blast
    qed
    ultimately show ?thesis by (simp add: distinct_map)
  qed
  moreover have "hd (man_artifacts m) = run_child child"
  proof -
    obtain a rest where a: "man_artifacts m = a # rest" using m(3) by (cases "man_artifacts m") auto
    then obtain kind where "admit_record (man_version m) run_id child 0 Map.empty {} kind (relative a) = Ok a"
      using m(4) by auto
    from admit_recordD(3,5) [OF this] have "\<not> root_relative a" "relative a = child" "directory a" by auto
    then show ?thesis using a by (simp add: run_child_def)
  qed
  moreover have "\<exists>names. artifact_path mod_root a = mod_root @ map Normal names
      \<and> reserved_below child names \<and> (root_relative a \<longrightarrow> \<not> directory a)" if "a \<in> set (man_artifacts m)" for a
    using contained_reserved [OF m(1,2) inside [OF that], of mod_root] inside [OF that]
    by (metis contained_record_def)
  moreover have "\<exists>d \<in> set earlier. directory d \<and> \<not> root_relative d \<and> artifact_path mod_root d = butlast (artifact_path mod_root a)"
    if at: "man_artifacts m = earlier @ a # later" "\<not> root_relative a" "earlier \<noteq> []" for earlier a later
  proof -
    obtain dir leaf d where d: "rsplit_once CHR ''/'' (relative a) = Some (dir, leaf)"
      "d \<in> set earlier" "\<not> root_relative d" "directory d" "relative d = dir"
      using admitted_parents [OF m(4) [unfolded at(1)] at(2)] at(3) by auto
    note name = rsplit_once_SomeD [OF d(1)]
    have "safe_relative_name dir" using inside [of d] d(2,5) at(1) by (simp add: contained_record_def)
    then have "artifact_path mod_root d = butlast (artifact_path mod_root a)"
      using d(3,5) at(2) name safe_parts(1)
      by (simp add: artifact_path_def text_path_def split_on_snoc butlast_append)
    then show ?thesis using d(2-4) by blast
  qed
  ultimately show ?thesis by blast
qed


subsection \<open>The names a run gives\<close>

lemma is_utf8_append: "is_utf8 a \<Longrightarrow> is_utf8 b \<Longrightarrow> is_utf8 (a @ b)"
  by (induction a rule: is_utf8.induct) (auto split: if_splits list.splits)

lemma contains_twice_snoc:
  "\<not> contains_twice x a \<Longrightarrow> x \<notin> set b \<Longrightarrow> a = [] \<or> last a \<noteq> x \<Longrightarrow> \<not> contains_twice x (a @ x # b)"
proof (induction a rule: induct_list012)
  case 1
  then show ?case by (cases b) (auto dest: contains_twice_twice)
next
  case (2 c)
  then show ?case by (cases b) (auto dest: contains_twice_twice)
qed auto

lemma safe_name_child:
  assumes "safe_relative_name dir" "CHR ''/'' \<notin> set leaf" "safe_name_part leaf"
  shows "safe_relative_name (dir @ CHR ''/'' # leaf)"
proof -
  have "last leaf \<noteq> CHR ''/''" "leaf \<noteq> []" using assms(2,3) by (auto simp: safe_name_part_def dest: last_in_set)
  then show ?thesis
    using assms contains_twice_snoc [of "CHR ''/''" dir leaf]
    by (auto simp: safe_relative_name_def split_on_snoc)
qed

lemma safe_name_single:
  assumes "CHR ''/'' \<notin> set leaf" "safe_name_part leaf"
  shows "safe_relative_name leaf"
proof -
  have "leaf \<noteq> []" using assms(2) by (simp add: safe_name_part_def)
  then have "hd leaf \<noteq> CHR ''/''" "last leaf \<noteq> CHR ''/''" using assms(1) by (metis hd_in_set last_in_set)+
  then show ?thesis
    using assms contains_twice_twice [of "CHR ''/''" leaf] \<open>leaf \<noteq> []\<close>
    by (auto simp: safe_relative_name_def split_on_no_sep)
qed

lemma literal_prefixes:
  "list_all plain ''cao-staging-texture-''" "list_all plain ''cao-staging-animation-''" "list_all plain ''cao-staging-mesh-''"
  "list_all plain ''dds''" "list_all plain ''hkx''" "list_all plain ''nif''" "list_all plain ''btr''" "list_all plain ''bto''"
  by (simp_all add: plain_def is_ascii_alphanumeric_def Let_def byte_def)

lemma staging_prefix_cases:
  assumes "staging_prefix ext = Some p"
  obtains kind e where "p = CHR ''.'' # kind" "ext = CHR ''.'' # e" "list_all plain kind" "list_all plain e"
    "kind \<noteq> []" "e \<noteq> []"
proof -
  consider "ext = ''.dds''" "p = ''.cao-staging-texture-''" | "ext = ''.hkx''" "p = ''.cao-staging-animation-''"
    | "ext = ''.nif''" "p = ''.cao-staging-mesh-''" | "ext = ''.btr''" "p = ''.cao-staging-mesh-''"
    | "ext = ''.bto''" "p = ''.cao-staging-mesh-''"
    using assms unfolding staging_prefix_def by (metis option.inject option.distinct(1))
  then show thesis
    by cases (use that literal_prefixes in blast)+
qed

definition sibling_name :: "string \<Rightarrow> string \<Rightarrow> string \<Rightarrow> string \<Rightarrow> string" where
  "sibling_name prefix run_id nonce ext = prefix @ run_id @ CHR ''-'' # nonce @ ext"

definition below :: "string \<Rightarrow> string \<Rightarrow> string" where
  "below dir leaf = (if dir = [] then leaf else dir @ CHR ''/'' # leaf)"

lemma staged_sibling_record:
  assumes "valid_run_id run_id" "is_lowercase_nonce nonce" "staging_prefix ext = Some p"
    and "dir = [] \<or> safe_relative_name dir \<and> is_utf8 dir \<and> \<not> has_staging_component (text_path dir)"
  shows "sibling_record run_id (below dir (sibling_name p run_id nonce ext))"
proof -
  let ?leaf = "sibling_name p run_id nonce ext"
  obtain kind e where pe: "p = CHR ''.'' # kind" "ext = CHR ''.'' # e" "list_all plain kind" "list_all plain e"
    "kind \<noteq> []" "e \<noteq> []"
    by (rule staging_prefix_cases [OF assms(3)])
  have chars: "plain c \<or> c = CHR ''.''" if "c \<in> set ?leaf" for c
    using that pe run_id_plain [OF assms(1)] nonce_plain [OF assms(2)] literal_plain(2)
    by (auto simp: sibling_name_def list_all_iff)
  have no_dot: "CHR ''.'' \<notin> set e" using pe(4) by (auto simp: list_all_iff dest: plain_chars)
  have slash: "CHR ''/'' \<notin> set ?leaf" using chars plain_chars(3) by fastforce
  have "plain (last ?leaf)" using pe(2,4,6) by (simp add: sibling_name_def list_all_iff)
  then have "\<not> ends_with_char (\<lambda>c. c = CHR ''.'' \<or> c = CHR '' '') ?leaf"
    using plain_chars(4,5) by (auto simp: ends_with_char_def)
  moreover have "byte CHR ''.'' = 46" by (simp add: byte_def)
  then have "\<not> list_ex (\<lambda>c. byte c < 32) ?leaf" "list_all (\<lambda>c. byte c < 128) ?leaf"
    using chars plain_chars(1,2) by (fastforce simp: list_ex_iff list_all_iff)+
  moreover have "\<not> list_ex (\<lambda>c. c \<in> {CHR ''<'', CHR ''>'', CHR '':'', CHR 0x22, CHR 0x5C, CHR ''|'', CHR ''?'', CHR ''*''}) ?leaf"
    using chars plain_chars(6) by (fastforce simp: list_ex_iff simp del: insert_iff)
  moreover have "2 < length ?leaf" using pe(5,6) by (auto simp: sibling_name_def pe(1,2) neq_Nil_conv)
  ultimately have part: "safe_name_part ?leaf" and utf8: "is_utf8 ?leaf"
    by (auto simp: safe_name_part_def ascii_is_utf8)
  have leaf: "sibling_file (below dir ?leaf) = ?leaf" "sibling_parent (below dir ?leaf) = dir"
    using slash rsplit_once_append [OF slash, of dir]
    by (auto simp: sibling_file_def sibling_parent_def below_def rsplit_once_def)
  have safe: "safe_relative_name (below dir ?leaf)" "is_utf8 (below dir ?leaf)"
    using assms(4) safe_name_child [OF _ slash part] safe_name_single [OF slash part] utf8
      is_utf8_append [of dir "CHR ''/'' # ?leaf"]
    by (auto simp: below_def byte_def)
  have "dotted_extension ?leaf = ext"
    using rsplit_once_append [OF no_dot, of "p @ run_id @ CHR ''-'' # nonce"] pe(1,2)
    by (simp add: dotted_extension_def sibling_name_def)
  moreover have "strip_text ?leaf (p @ run_id @ ''-'') = Some (nonce @ ext)"
    by (simp add: strip_text_Some sibling_name_def)
  moreover have "strip_end (nonce @ ext) ext = Some nonce"
    using strip_text_Some [of "rev ext @ rev nonce" "rev ext" "rev nonce"] by (simp add: strip_end_def)
  ultimately have "safe_sibling_asset_name (below dir ?leaf) run_id"
    using assms(2,3) by (simp add: safe_sibling_asset_name_def leaf)
  then show ?thesis
    using safe assms(4) by (auto simp: sibling_record_def leaf has_staging_component_def text_path_def)
qed

subsection \<open>A concrete manifest\<close>

definition demo_nonce :: string where "demo_nonce = ''0123456789abcdef0123456789abcdef''"

definition demo_child :: string where "demo_child = ''run-r-'' @ demo_nonce"

definition demo_records :: "staged_artifact list" where
  "demo_records =
     [run_child demo_child,
      \<lparr>relative = below ''textures'' (sibling_name ''.cao-staging-texture-'' ''r'' demo_nonce ''.dds''),
       directory = False, root_relative = True\<rparr>,
      \<lparr>relative = demo_child @ ''/archive-entry-'' @ demo_nonce, directory = False, root_relative = False\<rparr>]"

definition demo_root_text :: string where "demo_root_text = ''C:/Mods/A '' @ [CHR 0x22, CHR 0x5C]"

lemma demo_run_valid: "valid_run_id ''r''" "is_lowercase_nonce demo_nonce"
  by (simp_all add: valid_run_id_def is_lowercase_nonce_def demo_nonce_def is_ascii_alphanumeric_def
      is_ascii_digit_def Let_def byte_def)

lemma demo_child_matches: "child_matches ''r'' demo_child"
  by (simp add: child_matches_def demo_child_def strip_text_def demo_run_valid)

lemma demo_records_written: "run_records ''r'' demo_child demo_records" "length demo_records \<le> registration_limit"
proof -
  have archive: "archive_file_record demo_child (demo_child @ ''/archive-entry-'' @ demo_nonce)"
    using strip_text_Some [of "demo_child @ ''/archive-entry-'' @ demo_nonce" "demo_child @ ''/archive-entry-''" demo_nonce]
    by (simp add: archive_file_record_def demo_run_valid)
  have dir: "safe_relative_name ''textures''" "is_utf8 ''textures''"
    by (rule plain_name_safe plain_utf8; simp add: plain_def is_ascii_alphanumeric_def Let_def byte_def)+
  have "\<not> has_staging_component (text_path ''textures'')"
    by (simp add: has_staging_component_def text_path_def is_staging_name_def to_ascii_lowercase_def
        char_to_ascii_lowercase_def byte_def)
  then have "sibling_record ''r'' (below ''textures'' (sibling_name ''.cao-staging-texture-'' ''r'' demo_nonce ''.dds''))"
    using staged_sibling_record [OF demo_run_valid, of "''.dds''" "''.cao-staging-texture-''" "''textures''"] dir
    by (simp add: staging_prefix_def)
  then show "run_records ''r'' demo_child demo_records"
    using archive by (simp add: run_records_def demo_records_def file_record_def)
  show "length demo_records \<le> registration_limit" by (simp add: demo_records_def registration_limit_def)
qed

theorem manifest_round_trip_witness:
  "parse_manifest (manifest_text demo_root_text ''r'' demo_child demo_records) demo_root_text None
     = (Ok \<lparr>man_version = 3, man_artifacts = demo_records\<rparr>, None)"
  using manifest_round_trip [OF demo_run_valid(1) demo_child_matches demo_records_written] by blast

theorem accepted_records_are_reserved_witness:
  "\<exists>m. parse_manifest (manifest_text demo_root_text ''r'' demo_child demo_records) demo_root_text None = (Ok m, None)
     \<and> distinct (map (artifact_path []) (man_artifacts m)) \<and> length (man_artifacts m) = 3"
proof -
  note m = written_manifest_parses [OF demo_run_valid(1) demo_child_matches demo_records_written,
    of demo_root_text, THEN conjunct1]
  have "length demo_records = 3" by (simp add: demo_records_def)
  then show ?thesis using accepted_records_are_reserved [OF m, of "[]"] m by auto
qed

end
