(* ===== verification/Disk.thy ===== *)
theory Disk
  imports AssetResults Effects StagingManifest Routing
begin

text \<open>
  The filesystem as the staging protocol, the artifact registry and the Asset executor use it: what
  \<open>cao-winfs\<close> and \<open>std::fs\<close> answer (\<open>crates/cao-winfs/src/\<close>), and the errors of \<open>run/staging.rs\<close>. An
  environment answers each call from all calls made before, the ones to an Asset backend included. A
  handle is the path it was opened at and the number of calls made before. Handles close when their
  value goes; the closings the program relies on are calls of their own.
\<close>

unbundle bit_operations_syntax

subsection \<open>Facts, identities and handles\<close>

datatype io_kind = KindNotFound | KindAlreadyExists | KindInterrupted | KindOther

record io_error =
  io_kind :: io_kind
  raw_os_error :: "int option"
  io_text :: string

record file_facts =
  facts_attributes :: "32 word"
  facts_volume :: "32 word"
  facts_index :: u64
  facts_links :: "32 word"
  facts_size :: u64
  facts_created :: u64
  facts_written :: u64
  facts_changed :: "64 word"

definition is_directory :: "file_facts \<Rightarrow> bool" where
  "is_directory f = (facts_attributes f AND 16 \<noteq> 0)"

definition is_reparse_point :: "file_facts \<Rightarrow> bool" where
  "is_reparse_point f = (facts_attributes f AND 1024 \<noteq> 0)"

definition is_ordinary_file :: "file_facts \<Rightarrow> bool" where
  "is_ordinary_file f = (\<not> is_directory f \<and> \<not> is_reparse_point f)"

definition unchanged_since :: "file_facts \<Rightarrow> file_facts \<Rightarrow> bool" where
  "unchanged_since f earlier =
     (facts_volume f = facts_volume earlier \<and> facts_index f = facts_index earlier
      \<and> facts_created f = facts_created earlier \<and> facts_written f = facts_written earlier
      \<and> facts_size f = facts_size earlier \<and> facts_changed f = facts_changed earlier)"

record file_identity =
  identity_volume :: u64
  identity_file :: "128 word"
  full_file_id :: bool

definition same_volume :: "file_identity \<Rightarrow> file_identity \<Rightarrow> bool" where
  "same_volume a b = (identity_volume a = identity_volume b)"

text \<open>
  \<open>std::fs::Metadata\<close>: a link is neither a directory nor a file, and has a target kind of its own.
\<close>

record metadata =
  meta_attributes :: "32 word"
  meta_symlink :: bool

definition meta_is_dir :: "metadata \<Rightarrow> bool" where
  "meta_is_dir m = (\<not> meta_symlink m \<and> meta_attributes m AND 16 \<noteq> 0)"

definition meta_is_file :: "metadata \<Rightarrow> bool" where
  "meta_is_file m = (\<not> meta_symlink m \<and> meta_attributes m AND 16 = 0)"

definition meta_is_symlink_dir :: "metadata \<Rightarrow> bool" where
  "meta_is_symlink_dir m = (meta_symlink m \<and> meta_attributes m AND 16 \<noteq> 0)"

definition meta_is_reparse_point :: "metadata \<Rightarrow> bool" where
  "meta_is_reparse_point m = (meta_attributes m AND 1024 \<noteq> 0)"

datatype access_right = ReadAttributes | ListDirectory | ReadData | GenericRead | GenericWrite | DeleteAccess

datatype share_mode = ShareRead | ShareWrite | ShareDelete

text \<open>\<open>Open\<close>: the rights and shares are joined with \<open>|\<close>; a missing share denies other opens.\<close>

record open_request =
  open_access :: "access_right list"
  open_share :: "share_mode list"
  open_directory :: bool
  open_write_through :: bool
  open_create_new :: bool

definition open_new :: "access_right list \<Rightarrow> share_mode list \<Rightarrow> open_request" where
  "open_new access share =
     \<lparr>open_access = access, open_share = share, open_directory = False, open_write_through = False,
      open_create_new = False\<rparr>"

definition for_directory :: "open_request \<Rightarrow> open_request" where
  "for_directory r = r\<lparr>open_directory := True\<rparr>"

definition write_through :: "open_request \<Rightarrow> open_request" where
  "write_through r = r\<lparr>open_write_through := True\<rparr>"

definition create_new :: "open_request \<Rightarrow> open_request" where
  "create_new r = r\<lparr>open_create_new := True\<rparr>"

record handle =
  handle_path :: path
  handle_serial :: nat

datatype rename_mode = RenameReplace | RenameNoReplace

text \<open>What one \<open>Read::read\<close> gives; a reader that runs out of them is at its end.\<close>

datatype read_answer = ReadBytes string | ReadError io_error

subsection \<open>Calls and answers\<close>

datatype disk_call =
    Metadata path
  | OpenFile path open_request
  | FactsOf handle
  | IdentityOf handle
  | ReadFile handle
  | WriteFile handle string
  | SyncFile handle
  | CloseFile handle
  | DeleteFile handle
  | RenameFile handle path rename_mode
  | MoveFile path path
  | ListDir path
  | CreateDir path
  | RemoveDir path
  | RemoveFile path
  | Canonical path
  | WeaklyCanonical path
  | VolumeOf path
  | RandomNonce
  | CreateBackend
  | LoadTexture path texture_variant
  | OptimizeTexture asset_operations execution_mode
  | SaveTexture path
  | RemoveTexture path nat
  | TextureFailureDetail
  | LoadMesh path mesh_variant
  | OptimizeMesh path path execution_mode
  | MaintainMeshReferences execution_mode
  | SaveMesh path
  | OptimizeAnimation path "path option" execution_mode
  | AttemptFinished routed_asset asset_execution_result

type_synonym world = "disk_call list"

text \<open>\<open>d_same\<close> is \<open>compare_ordinal_ignore_case(..).is_eq()\<close>, Windows' comparison of two paths.\<close>

record disk =
  d_metadata :: "world \<Rightarrow> path \<Rightarrow> io_error + metadata"
  d_open :: "world \<Rightarrow> path \<Rightarrow> open_request \<Rightarrow> io_error + unit"
  d_facts :: "world \<Rightarrow> handle \<Rightarrow> io_error + file_facts"
  d_identity :: "world \<Rightarrow> handle \<Rightarrow> io_error + file_identity"
  d_reads :: "world \<Rightarrow> handle \<Rightarrow> read_answer list"
  d_write :: "world \<Rightarrow> handle \<Rightarrow> string \<Rightarrow> io_error + unit"
  d_sync :: "world \<Rightarrow> handle \<Rightarrow> io_error + unit"
  d_delete :: "world \<Rightarrow> handle \<Rightarrow> io_error + unit"
  d_rename :: "world \<Rightarrow> handle \<Rightarrow> path \<Rightarrow> rename_mode \<Rightarrow> io_error + unit"
  d_move :: "world \<Rightarrow> path \<Rightarrow> path \<Rightarrow> io_error + unit"
  d_list :: "world \<Rightarrow> path \<Rightarrow> io_error + (io_error + string) list"
  d_create_dir :: "world \<Rightarrow> path \<Rightarrow> io_error + unit"
  d_remove_dir :: "world \<Rightarrow> path \<Rightarrow> io_error + unit"
  d_remove_file :: "world \<Rightarrow> path \<Rightarrow> io_error + unit"
  d_canonical :: "world \<Rightarrow> path \<Rightarrow> io_error + path"
  d_weakly_canonical :: "world \<Rightarrow> path \<Rightarrow> io_error + path"
  d_volume :: "world \<Rightarrow> path \<Rightarrow> io_error + path"
  d_nonce :: "world \<Rightarrow> io_error + 128 word"
  d_same :: "path \<Rightarrow> path \<Rightarrow> bool"

subsection \<open>Staging errors\<close>

datatype staging_error =
    Ownership run_failure_code path string
  | LookupFailed string path io_error
  | IoFailed string path io_error
  | Collision path
  | Invalid string

definition path_display :: "path \<Rightarrow> string" where
  "path_display p = to_string_lossy (path_text p)"

definition error_at :: "string \<Rightarrow> path \<Rightarrow> io_error \<Rightarrow> string" where
  "error_at context p e = context @ '' '' @ [CHR 0x60] @ path_display p @ [CHR 0x60] @ '': '' @ io_text e"

fun staging_error_text :: "staging_error \<Rightarrow> string" where
  "staging_error_text (Ownership _ _ what) = what"
| "staging_error_text (LookupFailed context p e) = error_at context p e"
| "staging_error_text (IoFailed context p e) = error_at context p e"
| "staging_error_text (Collision p) = ''An unowned entry already occupies a new staging path: '' @ path_display p"
| "staging_error_text (Invalid what) = what"

fun is_lookup :: "staging_error \<Rightarrow> bool" where
  "is_lookup (LookupFailed _ _ _) = True"
| "is_lookup _ = False"

definition unverified :: "path \<Rightarrow> string \<Rightarrow> staging_error" where
  "unverified p what = Ownership StagingOwnershipUnverified p what"

subsection \<open>Temporary Ownership\<close>

text \<open>
  The state of one run's Temporary Ownership: the calls made, the areas of the staging scope, the
  handles it holds, and the artifacts of the registry. \<open>owner_run\<close> and \<open>registry_id\<close> never change.
\<close>

record staging_area =
  area_child :: string
  area_artifacts :: "staged_artifact list"
  child_pin :: "handle option"
  parent_pins :: "path \<rightharpoonup> handle"
  area_ready :: bool

definition default_area :: staging_area where
  "default_area =
     \<lparr>area_child = [], area_artifacts = [], child_pin = None, parent_pins = Map.empty, area_ready = False\<rparr>"

record registered =
  registered_path :: path
  registered_committed :: bool
  registered_durable :: bool

record custody =
  owner_run :: string
  registry_id :: nat
  made_calls :: world
  scope_areas :: "(path \<times> staging_area) list"
  scope_pins :: "handle list"
  scope_locks :: "handle list"
  reg_artifacts :: "registered list"
  reg_cleaned :: bool
  stop_token :: token

type_synonym ('e, 'a) custody_action = "(custody, 'e, 'a) action"

definition new_custody :: "string \<Rightarrow> nat \<Rightarrow> token \<Rightarrow> custody" where
  "new_custody run_id registry t =
     \<lparr>owner_run = run_id, registry_id = registry, made_calls = [], scope_areas = [], scope_pins = [],
      scope_locks = [], reg_artifacts = [], reg_cleaned = False, stop_token = t\<rparr>"

text \<open>Areas are kept by path: \<open>BTreeMap::insert\<close> and \<open>get_mut\<close>.\<close>

definition area_at :: "path \<Rightarrow> custody \<Rightarrow> staging_area option" where
  "area_at root s = map_of (scope_areas s) root"

definition set_area :: "path \<Rightarrow> staging_area \<Rightarrow> ('e, unit) custody_action" where
  "set_area root a = change_state (\<lambda>s. s\<lparr>scope_areas := entry_modify root a (\<lambda>_. a) (scope_areas s)\<rparr>)"

text \<open>\<open>expect("prepare_area claimed the area")\<close>\<close>

definition the_area :: "path \<Rightarrow> ('e, staging_area) custody_action" where
  "the_area root =
     andThen (read_state (area_at root)) (\<lambda>found.
     case found of None \<Rightarrow> panic ''prepare_area claimed the area'' | Some a \<Rightarrow> return a)"

subsection \<open>Calls\<close>

definition ask_disk :: "disk_call \<Rightarrow> (world \<Rightarrow> 'a) \<Rightarrow> ('e, 'a) custody_action" where
  "ask_disk c answer = (\<lambda>s. (Done (answer (made_calls s)), s\<lparr>made_calls := made_calls s @ [c]\<rparr>))"

definition or_raise :: "('x \<Rightarrow> 'e) \<Rightarrow> ('s, 'e, 'x + 'a) action \<Rightarrow> ('s, 'e, 'a) action" where
  "or_raise f m = andThen m (\<lambda>r. case r of Err e \<Rightarrow> raise (f e) | Ok x \<Rightarrow> return x)"

definition open_file :: "disk \<Rightarrow> open_request \<Rightarrow> path \<Rightarrow> ('e, io_error + handle) custody_action" where
  "open_file d r p = ask_disk (OpenFile p r)
     (\<lambda>w. case d_open d w p r of Err e \<Rightarrow> Err e | Ok _ \<Rightarrow> Ok \<lparr>handle_path = p, handle_serial = length w\<rparr>)"

definition facts_of :: "disk \<Rightarrow> handle \<Rightarrow> ('e, io_error + file_facts) custody_action" where
  "facts_of d h = ask_disk (FactsOf h) (\<lambda>w. d_facts d w h)"

definition identity_of :: "disk \<Rightarrow> handle \<Rightarrow> ('e, io_error + file_identity) custody_action" where
  "identity_of d h = ask_disk (IdentityOf h) (\<lambda>w. d_identity d w h)"

definition symlink_metadata :: "disk \<Rightarrow> path \<Rightarrow> ('e, io_error + metadata) custody_action" where
  "symlink_metadata d p = ask_disk (Metadata p) (\<lambda>w. d_metadata d w p)"

definition canonical :: "disk \<Rightarrow> path \<Rightarrow> ('e, io_error + path) custody_action" where
  "canonical d p = ask_disk (Canonical p) (\<lambda>w. d_canonical d w p)"

definition weakly_canonical :: "disk \<Rightarrow> path \<Rightarrow> ('e, io_error + path) custody_action" where
  "weakly_canonical d p = ask_disk (WeaklyCanonical p) (\<lambda>w. d_weakly_canonical d w p)"

text \<open>
  \<open>std::fs::read_dir\<close> skips the entries for the directory itself and its parent, and the name of an entry is
  one component of a path.
\<close>

definition listed :: "io_error + string \<Rightarrow> bool" where
  "listed entry = (case entry of Err _ \<Rightarrow> True | Ok name \<Rightarrow>
     name \<notin> {[], ''.'', ''..''} \<and> CHR ''/'' \<notin> set name \<and> CHR 0x5C \<notin> set name)"

definition read_dir :: "disk \<Rightarrow> path \<Rightarrow> ('e, io_error + (io_error + string) list) custody_action" where
  "read_dir d p = ask_disk (ListDir p) (\<lambda>w. map_sum id (filter listed) (d_list d w p))"

definition create_dir :: "disk \<Rightarrow> path \<Rightarrow> ('e, io_error + unit) custody_action" where
  "create_dir d p = ask_disk (CreateDir p) (\<lambda>w. d_create_dir d w p)"

definition remove_dir :: "disk \<Rightarrow> path \<Rightarrow> ('e, io_error + unit) custody_action" where
  "remove_dir d p = ask_disk (RemoveDir p) (\<lambda>w. d_remove_dir d w p)"

definition delete_by_handle :: "disk \<Rightarrow> handle \<Rightarrow> ('e, io_error + unit) custody_action" where
  "delete_by_handle d h = ask_disk (DeleteFile h) (\<lambda>w. d_delete d w h)"

definition rename_by_handle :: "disk \<Rightarrow> handle \<Rightarrow> path \<Rightarrow> rename_mode \<Rightarrow> ('e, io_error + unit) custody_action" where
  "rename_by_handle d h p mode = ask_disk (RenameFile h p mode) (\<lambda>w. d_rename d w h p mode)"

definition close_file :: "handle \<Rightarrow> ('e, unit) custody_action" where
  "close_file h = ask_disk (CloseFile h) (\<lambda>_. ())"

definition observe_stop :: "('e, bool) custody_action" where
  "observe_stop = (\<lambda>s. case is_cancelled (stop_token s) of (c, t) \<Rightarrow> (Done c, s\<lparr>stop_token := t\<rparr>))"

text \<open>\<open>OwnerLock::create\<close> and \<open>open_existing\<close>: an open that shares with nobody.\<close>

datatype owner_lock_error = LockActive io_error | LockOpen io_error | LockNotOrdinary

definition is_sharing_violation :: "io_error \<Rightarrow> bool" where
  "is_sharing_violation e = (raw_os_error e = Some 32 \<or> raw_os_error e = Some 33)"

definition claim_owner_lock :: "disk \<Rightarrow> open_request \<Rightarrow> path \<Rightarrow> (owner_lock_error, handle) custody_action" where
  "claim_owner_lock d r p =
     andThen (or_raise (\<lambda>e. if is_sharing_violation e then LockActive e else LockOpen e) (open_file d r p)) (\<lambda>h.
     andThen (or_raise LockOpen (facts_of d h)) (\<lambda>facts.
     if \<not> is_ordinary_file facts \<or> facts_links facts \<noteq> 1 then raise LockNotOrdinary else return h))"

definition open_lock :: open_request where "open_lock = open_new [GenericRead] []"

fun owner_lock_error_text :: "owner_lock_error \<Rightarrow> string" where
  "owner_lock_error_text (LockActive e) = ''another process holds the staging owner lock: '' @ io_text e @ ''.''"
| "owner_lock_error_text (LockOpen e) = ''the staging owner lock could not be opened: '' @ io_text e @ ''.''"
| "owner_lock_error_text LockNotOrdinary = ''the staging owner lock is not an ordinary single-link file.''"

end
