(* ===== verification/StagingScope.thy ===== *)
theory StagingScope
  imports Disk "HOL-Library.Multiset"
begin

text \<open>
  The producer side of the staging-ownership protocol (\<open>run/staging.rs\<close>): a scope claims a Mod Root's
  reserved directory, publishes a complete manifest before it creates anything, stages files, releases
  published ones and cleans up.
\<close>

subsection \<open>Entries\<close>

definition pin_directory :: "disk \<Rightarrow> path \<Rightarrow> (staging_error, handle) custody_action" where
  "pin_directory d p =
     andThen (or_raise (IoFailed ''Pin'' p)
       (open_file d (for_directory (open_new [ListDirectory, ReadAttributes] [ShareRead, ShareWrite])) p)) (\<lambda>pin.
     andThen (or_raise (IoFailed ''Inspect'' p) (facts_of d pin)) (\<lambda>facts.
     if \<not> is_directory facts \<or> is_reparse_point facts
     then raise (unverified p ''The opened staging entry does not match its expected identity type.'')
     else return pin))"

definition open_temporary_file :: "disk \<Rightarrow> path \<Rightarrow> (staging_error, handle) custody_action" where
  "open_temporary_file d p =
     andThen (or_raise (IoFailed ''Open'' p) (open_file d (open_new [DeleteAccess, ReadAttributes] [ShareRead]) p)) (\<lambda>h.
     andThen (or_raise (IoFailed ''Inspect'' p) (facts_of d h)) (\<lambda>facts.
     if \<not> is_ordinary_file facts \<or> facts_links facts \<noteq> 1
     then raise (unverified p ''The opened staging entry does not match its expected identity type.'')
     else return h))"

definition inspect_file :: "disk \<Rightarrow> path \<Rightarrow> (staging_error, unit) custody_action" where
  "inspect_file d p =
     andThen (or_raise (IoFailed ''Inspect'' p)
       (open_file d (open_new [ReadAttributes] [ShareRead, ShareWrite, ShareDelete]) p)) (\<lambda>h.
     andThen (or_raise (IoFailed ''Inspect'' p) (facts_of d h)) (\<lambda>facts.
     if facts_links facts \<noteq> 1 then raise (unverified p ''Staging contains a hard-linked file.'') else return ()))"

definition inspect :: "disk \<Rightarrow> path \<Rightarrow> (staging_error, metadata option) custody_action" where
  "inspect d p =
     andThen (symlink_metadata d p) (\<lambda>answer.
     case answer of
       Err e \<Rightarrow> if io_kind e = KindNotFound then return None else raise (IoFailed ''Inspect'' p e)
     | Ok m \<Rightarrow>
         if meta_symlink m \<or> meta_is_reparse_point m
         then raise (unverified p ''Staging contains a linked entry or reparse point.'')
         else if \<not> meta_is_dir m \<and> \<not> meta_is_file m
         then raise (unverified p ''Staging contains an unsupported entry type.'')
         else if meta_is_file m then andThen (inspect_file d p) (\<lambda>_. return (Some m))
         else return (Some m))"

text \<open>
  Pins the ordinary directories from a root down to \<open>parent\<close>, into a map the caller lends: \<open>False\<close> when one
  is absent. What was pinned before an error stays in the map.
\<close>

type_synonym pin_map = "path \<rightharpoonup> handle"

fun pin_each :: "disk \<Rightarrow> path \<Rightarrow> path \<Rightarrow> path \<Rightarrow> pin_map \<Rightarrow> ('e, (staging_error + bool) \<times> pin_map) custody_action" where
  "pin_each d parent_dir here [] pins = return (Ok True, pins)"
| "pin_each d parent_dir here (c # rest) pins =
     (case c of
        Normal name \<Rightarrow>
          (let next_dir = here @ [Normal name] in
           if pins next_dir \<noteq> None then pin_each d parent_dir next_dir rest pins
           else andThen (try_action (inspect d next_dir)) (\<lambda>found.
             case found of
               Err e \<Rightarrow> return (Err e, pins)
             | Ok None \<Rightarrow> return (Ok False, pins)
             | Ok (Some m) \<Rightarrow>
                 if \<not> meta_is_dir m
                 then return (Err (unverified next_dir ''A staging artifact parent is not an ordinary directory.''), pins)
                 else andThen (try_action (pin_directory d next_dir)) (\<lambda>pin.
                   case pin of
                     Err e \<Rightarrow> return (Err e, pins)
                   | Ok h \<Rightarrow> pin_each d parent_dir next_dir rest (pins(next_dir \<mapsto> h)))))
      | _ \<Rightarrow> return (Err (unverified parent_dir ''A staging artifact parent contains traversal.''), pins))"

definition pin_parent_directories ::
    "disk \<Rightarrow> path \<Rightarrow> path \<Rightarrow> pin_map \<Rightarrow> ('e, (staging_error + bool) \<times> pin_map) custody_action" where
  "pin_parent_directories d root parent_dir pins =
     (case strip_prefix parent_dir root of
        None \<Rightarrow> return (Err (unverified parent_dir ''A staging artifact parent left its Mod Root.''), pins)
      | Some rest \<Rightarrow> pin_each d parent_dir root rest pins)"

definition claim_lock :: "disk \<Rightarrow> open_request \<Rightarrow> path \<Rightarrow> (staging_error, handle) custody_action" where
  "claim_lock d r p = map_err (\<lambda>e.
     Ownership (case e of LockActive _ \<Rightarrow> StagingActive | _ \<Rightarrow> StagingOwnershipUnverified) p (owner_lock_error_text e))
     (claim_owner_lock d r p)"

subsection \<open>Names and text\<close>

definition hex_digit :: "nat \<Rightarrow> char" where
  "hex_digit n = (if n < 10 then char_of (48 + n) else char_of (87 + n))"

text \<open>The sixteen bytes, two digits each, from the first byte on.\<close>

definition nonce_text :: "128 word \<Rightarrow> string" where
  "nonce_text w = map (\<lambda>i. hex_digit (unat w div 16 ^ (31 - i) mod 16)) [0..<32]"

definition nonce :: "disk \<Rightarrow> (staging_error, string) custody_action" where
  "nonce d = andThen (or_raise (IoFailed ''Generate a staging nonce for'' []) (ask_disk RandomNonce (d_nonce d)))
     (\<lambda>w. return (nonce_text w))"

definition not_unicode :: io_error where
  "not_unicode = \<lparr>io_kind = KindOther, raw_os_error = None,
     io_text = ''the path is not valid Unicode, so it has no UTF-8 form''\<rparr>"

definition generic_utf8 :: "path \<Rightarrow> io_error + string" where
  "generic_utf8 p = (let text = path_text p in if is_utf8 text then Ok (slashes text) else Err not_unicode)"

definition generic :: "path \<Rightarrow> (staging_error, string) custody_action" where
  "generic p = or_raise (IoFailed ''Encode'' p) (return (generic_utf8 p))"

subsection \<open>The manifest on disk\<close>

definition write_new_file :: "disk \<Rightarrow> path \<Rightarrow> string \<Rightarrow> (staging_error, unit) custody_action" where
  "write_new_file d p bytes =
     andThen (or_raise (\<lambda>e. if raw_os_error e = Some 80 \<or> raw_os_error e = Some 183 then Collision p
                            else IoFailed ''Create'' p e)
       (open_file d (create_new (open_new [GenericWrite] [])) p)) (\<lambda>h.
     andThen (or_raise (IoFailed ''Write'' p) (ask_disk (WriteFile h bytes) (\<lambda>w. d_write d w h bytes))) (\<lambda>_.
     or_raise (IoFailed ''Write'' p) (ask_disk (SyncFile h) (\<lambda>w. d_sync d w h))))"

definition staging_path :: "path \<Rightarrow> path" where
  "staging_path root = root @ [Normal staging_directory]"

definition publish_manifest ::
    "disk \<Rightarrow> path \<Rightarrow> string \<Rightarrow> string \<Rightarrow> staged_artifact list \<Rightarrow> (staging_error, unit) custody_action" where
  "publish_manifest d root run_id child artifacts =
     andThen (generic root) (\<lambda>root_text.
     let text = manifest_text root_text run_id child artifacts;
         scratch = staging_path root @ [Normal manifest_scratch];
         target = staging_path root @ [Normal manifest_name]
     in if manifest_byte_limit < length text \<or> registration_limit < length artifacts
        then raise (Invalid ''The staging ownership manifest exceeds its format limit.'')
        else andThen (write_new_file d scratch text) (\<lambda>_.
          or_raise (IoFailed ''Publish'' target) (ask_disk (MoveFile scratch target) (\<lambda>w. d_move d w scratch target))))"

end
