(* ===== verification/StagingRecovery.thy ===== *)
theory StagingRecovery
  imports StagingScope
begin

text \<open>
  Recovery of a crashed run's staging (\<open>run/staging/recovery.rs\<close>) and \<open>prepare_root\<close> of \<open>run/staging.rs\<close>:
  ownership of the whole area is proven before anything is deleted, and then only recorded entries are.
\<close>

datatype halt = HaltCancelled | HaltFailed staging_error | HaltRecovery path staging_error

datatype pin_key = ControlPin string | SiblingPin string

type_synonym pins = "pin_key \<rightharpoonup> handle"

definition pin_key_of :: "staged_artifact \<Rightarrow> pin_key" where
  "pin_key_of a = (if root_relative a then SiblingPin (relative a) else ControlPin (relative a))"

text \<open>\<open>?\<close> on a staging error inside recovery, and \<open>observe\<close>.\<close>

definition halting :: "('s, staging_error, 'a) action \<Rightarrow> ('s, halt, 'a) action" where
  "halting m = map_err HaltFailed m"

definition observe :: "(halt, unit) custody_action" where
  "observe = andThen observe_stop (\<lambda>stop. if stop then raise HaltCancelled else return ())"

definition opened :: "('s, staging_error, 'a) action \<Rightarrow> ('s, staging_error, 'a) action" where
  "opened m = map_err (\<lambda>e. case e of
       IoFailed _ p source \<Rightarrow> unverified p (''The staging entry could not be opened: '' @ io_text source @ ''.'')
     | other \<Rightarrow> other) m"

definition unknown_name :: "path \<Rightarrow> halt" where
  "unknown_name p =
     HaltFailed (unverified p ''An unknown staging-like name collides with the reserved namespace.'')"

definition unregistered :: "path \<Rightarrow> halt" where
  "unregistered p = HaltFailed (unverified p ''Staging contains an unregistered entry.'')"

subsection \<open>The manifest\<close>

definition pin_manifest :: "disk \<Rightarrow> path \<Rightarrow> (staging_error, handle) custody_action" where
  "pin_manifest d p =
     andThen (or_raise (\<lambda>e. unverified p (''The ownership manifest could not be opened: '' @ io_text e @ ''.''))
       (open_file d (open_new [GenericRead] [ShareRead]) p)) (\<lambda>h.
     andThen (or_raise (IoFailed ''Inspect'' p) (facts_of d h)) (\<lambda>facts.
     if \<not> is_ordinary_file facts \<or> facts_links facts \<noteq> 1
     then raise (unverified p ''The opened staging entry does not match its expected identity type.'')
     else return h))"

text \<open>\<open>take(limit + 1).read_to_end\<close>: reads until the end, the limit or an error.\<close>

fun read_to_limit :: "nat \<Rightarrow> string \<Rightarrow> read_answer list \<Rightarrow> io_error + string" where
  "read_to_limit limit got [] = Ok got"
| "read_to_limit limit got (r # rs) =
     (if limit \<le> length got then Ok got
      else case r of
        ReadBytes [] \<Rightarrow> Ok got
      | ReadBytes bytes \<Rightarrow> read_to_limit limit (got @ take (limit - length got) bytes) rs
      | ReadError e \<Rightarrow> if io_kind e = KindInterrupted then read_to_limit limit got rs else Err e)"

definition read_manifest :: "disk \<Rightarrow> handle \<Rightarrow> path \<Rightarrow> string \<Rightarrow> (halt, manifest) custody_action" where
  "read_manifest d pin p root =
     andThen (halting (or_raise (IoFailed ''Read'' p) (ask_disk (ReadFile pin)
       (\<lambda>w. read_to_limit (manifest_byte_limit + 1) [] (d_reads d w pin))))) (\<lambda>bytes.
     if manifest_byte_limit < length bytes
     then raise (HaltFailed (unverified p ''The ownership manifest is missing or exceeds the format limit.''))
     else (\<lambda>s. case parse_manifest bytes root (stop_token s) of
         (Ok m, t) \<Rightarrow> (Done m, s\<lparr>stop_token := t\<rparr>)
       | (Err RejCancelled, t) \<Rightarrow> (Raise HaltCancelled, s\<lparr>stop_token := t\<rparr>)
       | (Err (RejInvalid what), t) \<Rightarrow> (Raise (HaltFailed (unverified p what)), s\<lparr>stop_token := t\<rparr>)))"

subsection \<open>Proving the tree\<close>

definition expected_entries :: "manifest \<Rightarrow> string \<rightharpoonup> bool" where
  "expected_entries m =
     map_of (rev (map (\<lambda>a. (relative a, directory a)) (filter (\<lambda>a. \<not> root_relative a) (man_artifacts m))))"

definition validate_entry ::
    "disk \<Rightarrow> manifest \<Rightarrow> path \<Rightarrow> string \<Rightarrow> io_error + string \<Rightarrow> pins \<times> (path \<times> string) list
       \<Rightarrow> (halt, pins \<times> (path \<times> string) list) custody_action" where
  "validate_entry d m dir prefix entry found = (case found of (pins, pending) \<Rightarrow>
     andThen observe (\<lambda>_.
     case entry of
       Err e \<Rightarrow> raise (HaltFailed (IoFailed ''Read'' dir e))
     | Ok name \<Rightarrow>
         (let here = dir @ [Normal name]; rel = below prefix name in
          if \<not> is_utf8 name then raise (unregistered here)
          else if rel = owner_lock \<or> rel = manifest_name then return (pins, pending)
          else if 2 \<le> man_version m \<and> rel = manifest_scratch
          then andThen (halting (inspect d here)) (\<lambda>seen.
            if \<not> (case seen of Some meta \<Rightarrow> meta_is_file meta | None \<Rightarrow> False)
            then raise (HaltFailed (unverified here ''The manifest scratch control is not a regular file.''))
            else andThen (halting (opened (open_temporary_file d here))) (\<lambda>h.
              return (pins(ControlPin rel \<mapsto> h), pending)))
          else case expected_entries m rel of
            None \<Rightarrow> raise (unregistered here)
          | Some recorded_directory \<Rightarrow>
              andThen (halting (inspect d here)) (\<lambda>seen.
              if (case seen of None \<Rightarrow> True | Some meta \<Rightarrow> meta_is_dir meta \<noteq> recorded_directory)
              then raise (HaltFailed (unverified here ''A staging artifact does not match its recorded type.''))
              else if recorded_directory
              then andThen (halting (opened (pin_directory d here))) (\<lambda>h.
                return (pins(ControlPin rel \<mapsto> h), (here, rel) # pending))
              else andThen (halting (opened (open_temporary_file d here))) (\<lambda>h.
                return (pins(ControlPin rel \<mapsto> h), pending))))))"

definition validate_directory ::
    "disk \<Rightarrow> manifest \<Rightarrow> path \<Rightarrow> string \<Rightarrow> pins \<Rightarrow> (halt, pins \<times> (path \<times> string) list) custody_action" where
  "validate_directory d m dir prefix pins =
     andThen (halting (or_raise (IoFailed ''Read'' dir) (read_dir d dir))) (\<lambda>entries.
     fold_each (validate_entry d m dir prefix) entries (pins, []))"

text \<open>
  The walk ends: a directory it enters is recorded, and its name is longer than the one it was found in.
\<close>

definition deeper :: "manifest \<Rightarrow> string \<Rightarrow> (path \<times> string) list \<Rightarrow> bool" where
  "deeper m prefix found =
     list_all (\<lambda>(_, rel). length prefix < length rel \<and> expected_entries m rel = Some True) found"

lemma below_longer: "name \<noteq> [] \<Longrightarrow> length prefix < length (below prefix name)"
  by (cases "prefix = []") (simp_all add: below_def)

lemma validate_entry_deeper:
  assumes "deeper m prefix pending" and "\<forall>name. entry = Ok name \<longrightarrow> name \<noteq> []"
  shows "gives (\<lambda>(_, found). deeper m prefix found) (validate_entry d m dir prefix entry (pins, pending))"
proof -
  have longer: "length prefix < length (below prefix name)" if "entry = Ok name" for name
    using below_longer assms(2) that by blast
  show ?thesis
    unfolding validate_entry_def Let_def prod.case
    by (rule gives_after, cases entry)
      (auto intro!: gives_after gives_return gives_raise split: option.split
        simp: assms(1) deeper_def [of m prefix "(_, _) # _"] longer, auto simp: assms(1) [unfolded deeper_def] deeper_def)
qed

lemma gives_halting: "gives P m \<Longrightarrow> gives P (halting m)"
  by (auto simp: gives_def halting_def map_err_def split: prod.splits outcome.splits)

lemma gives_ask: "(\<And>w. P (f w)) \<Longrightarrow> gives P (ask_disk c f)"
  by (simp add: gives_def ask_disk_def)

lemma gives_or_raise: "gives (\<lambda>r. case r of Err _ \<Rightarrow> True | Ok x \<Rightarrow> P x) m \<Longrightarrow> gives P (or_raise f m)"
  unfolding or_raise_def by (erule gives_andThen) (auto intro: gives_return gives_raise split: sum.splits)

lemma read_dir_names:
  "gives (\<lambda>r. case r of Err _ \<Rightarrow> True | Ok entries \<Rightarrow> \<forall>name. Ok name \<in> set entries \<longrightarrow> name \<noteq> []) (read_dir d p)"
  unfolding read_dir_def by (rule gives_ask) (auto simp: listed_def map_sum_def split: sum.splits)

lemma validate_directory_deeper:
  "gives (\<lambda>(_, found). deeper m prefix found) (validate_directory d m dir prefix pins)"
proof -
  have step: "gives (\<lambda>(_, found). deeper m prefix found) (validate_entry d m dir prefix entry acc)"
    if "entry \<in> set entries" "\<forall>name. Ok name \<in> set entries \<longrightarrow> name \<noteq> []" "case acc of (_, found) \<Rightarrow> deeper m prefix found"
    for entry entries acc
    using that by (cases acc) (auto intro!: validate_entry_deeper)
  show ?thesis
    unfolding validate_directory_def
    by (rule gives_andThen [OF gives_halting [OF gives_or_raise [OF read_dir_names]]])
      (rule gives_fold_each, rule step, assumption+, simp add: deeper_def)
qed

text \<open>\<open>while let Some(..) = pending.pop()\<close>: the top of the stack is the head of the list.\<close>

function validate_loop ::
    "disk \<Rightarrow> manifest \<Rightarrow> (path \<times> string) list \<Rightarrow> pins \<Rightarrow> custody \<Rightarrow> (halt, pins) outcome \<times> custody" where
  "validate_loop d m [] pins s = (Done pins, s)"
| "validate_loop d m ((dir, prefix) # rest) pins s =
     (case validate_directory d m dir prefix pins s of
        (Done (pins', found), s') \<Rightarrow> validate_loop d m (found @ rest) pins' s'
      | (Raise e, s') \<Rightarrow> (Raise e, s')
      | (Panic p, s') \<Rightarrow> (Panic p, s'))"
  by pat_completeness auto

definition longest_record :: "manifest \<Rightarrow> nat" where
  "longest_record m = Max (insert 0 (length ` relative ` set (man_artifacts m)))"

lemma expected_length: "expected_entries m rel = Some b \<Longrightarrow> length rel \<le> longest_record m"
proof -
  assume "expected_entries m rel = Some b"
  then have "(rel, b) \<in> set (map (\<lambda>a. (relative a, directory a)) (filter (\<lambda>a. \<not> root_relative a) (man_artifacts m)))"
    unfolding expected_entries_def by (auto dest: map_of_SomeD)
  then show ?thesis by (auto simp: longest_record_def)
qed

definition depths :: "manifest \<Rightarrow> (path \<times> string) list \<Rightarrow> nat multiset" where
  "depths m pending = mset (map (\<lambda>(_, rel). longest_record m - length rel) pending)"

lemma depths_decrease:
  assumes "deeper m prefix found"
  shows "(depths m (found @ rest), depths m ((dir, prefix) # rest)) \<in> mult less_than"
proof -
  have "longest_record m - length rel < longest_record m - length prefix" if "(p, rel) \<in> set found" for p rel
  proof -
    have "length prefix < length rel" "length rel \<le> longest_record m"
      using that assms expected_length by (auto simp: deeper_def list_all_iff)
    then show ?thesis by simp
  qed
  then have "(depths m found + depths m rest, add_mset (longest_record m - length prefix) (depths m rest)) \<in> mult1 less_than"
    unfolding mult1_def by (fastforce simp: depths_def)
  then show ?thesis unfolding mult_def by (auto simp: depths_def)
qed

termination validate_loop
proof (relation "inv_image (mult less_than) (\<lambda>(d, m, pending, pins, s). depths m pending)")
  show "wf (inv_image (mult less_than) (\<lambda>(d, m, pending, pins, s). depths m pending))"
    by (intro wf_inv_image wf_mult wf_less_than)
next
  fix d m dir prefix rest pins s a s' b pins' found
  assume run: "(a, s') = validate_directory d m dir prefix pins s" "a = Done b" "(pins', found) = b"
  then have "deeper m prefix found"
    using givesD [OF validate_directory_deeper, of d m dir prefix pins s "(pins', found)" s'] by auto
  then show "((d, m, found @ rest, pins', s'), (d, m, (dir, prefix) # rest, pins, s))
      \<in> inv_image (mult less_than) (\<lambda>(d, m, pending, pins, s). depths m pending)"
    using depths_decrease by simp
qed

text \<open>One sibling, once the control area is proven.\<close>

definition validate_sibling ::
    "disk \<Rightarrow> path \<Rightarrow> staged_artifact \<Rightarrow> pins \<times> pin_map \<Rightarrow> (halt, pins \<times> pin_map) custody_action" where
  "validate_sibling d root a acc = (case acc of (pins, parents) \<Rightarrow>
     andThen observe (\<lambda>_.
     let here = artifact_path root a;
         parent_dir = (case parent here of None \<Rightarrow> here | Some up \<Rightarrow> up)
     in andThen (pin_parent_directories d root parent_dir parents) (\<lambda>(answer, parents).
       case answer of
         Err e \<Rightarrow> raise (HaltFailed e)
       | Ok False \<Rightarrow> return (pins, parents)
       | Ok True \<Rightarrow>
           andThen (halting (or_raise (IoFailed ''Resolve'' parent_dir) (weakly_canonical d parent_dir))) (\<lambda>resolved.
           if resolved \<noteq> parent_dir
           then raise (HaltFailed (unverified here ''A sibling Asset staging parent changed during recovery.''))
           else andThen (halting (inspect d here)) (\<lambda>seen.
             case seen of
               None \<Rightarrow> return (pins, parents)
             | Some meta \<Rightarrow>
                 if \<not> meta_is_file meta
                 then raise (HaltFailed (unverified here ''A sibling Asset staging artifact is not a regular file.''))
                 else andThen (halting (opened (open_temporary_file d here))) (\<lambda>h.
                   return (pins(pin_key_of a \<mapsto> h), parents)))))))"

definition validate_tree :: "disk \<Rightarrow> path \<Rightarrow> manifest \<Rightarrow> (halt, pins) custody_action" where
  "validate_tree d root m =
     andThen (for_each (\<lambda>_. andThen observe (\<lambda>_. return None)) (man_artifacts m)) (\<lambda>_ :: unit option.
     andThen (validate_loop d m [(staging_path root, [])] Map.empty) (\<lambda>pins.
     andThen (fold_each (validate_sibling d root) (filter root_relative (man_artifacts m)) (pins, Map.empty)) (\<lambda>(pins, _).
     return pins)))"

subsection \<open>Recovery\<close>

definition remove_recovered :: "disk \<Rightarrow> path \<Rightarrow> bool \<Rightarrow> handle \<Rightarrow> (halt, unit) custody_action" where
  "remove_recovered d affected is_dir pin =
     (let failed = (\<lambda>context e. HaltRecovery affected (IoFailed context affected e));
          parent_dir = (case parent affected of None \<Rightarrow> affected | Some up \<Rightarrow> up)
      in andThen (or_raise (failed ''Resolve the parent of'') (canonical d parent_dir)) (\<lambda>resolved.
         if resolved \<noteq> parent_dir
         then raise (HaltFailed (unverified affected ''A staging artifact parent changed during recovery.''))
         else if is_dir
         then andThen (close_file pin) (\<lambda>_. or_raise (failed ''Remove'') (remove_dir d affected))
         else or_raise (failed ''Remove'') (delete_by_handle d pin)))"

definition note_unknown :: "path \<Rightarrow> io_error + string \<Rightarrow> path list \<Rightarrow> (halt, path list) custody_action" where
  "note_unknown root entry unknown =
     andThen observe (\<lambda>_.
     case entry of
       Err e \<Rightarrow> raise (HaltFailed (IoFailed ''Read'' root e))
     | Ok name \<Rightarrow>
         return (if is_staging_name name \<and> name \<noteq> staging_directory then unknown @ [root @ [Normal name]]
                 else unknown))"

definition remove_artifacts_loop :: "disk \<Rightarrow> path \<Rightarrow> staged_artifact \<Rightarrow> pins \<Rightarrow> (halt, pins) custody_action" where
  "remove_artifacts_loop d root a pins =
     andThen observe (\<lambda>_.
     case pins (pin_key_of a) of
       None \<Rightarrow> return pins
     | Some pin \<Rightarrow>
         andThen (remove_recovered d (artifact_path root a) (directory a) pin) (\<lambda>_.
         return (pins(pin_key_of a := None))))"

definition remove_scratch :: "disk \<Rightarrow> path \<Rightarrow> pins \<Rightarrow> (halt, pins) custody_action" where
  "remove_scratch d staging pins =
     (case pins (ControlPin manifest_scratch) of
        None \<Rightarrow> return pins
      | Some scratch \<Rightarrow>
          andThen (or_raise (\<lambda>e. HaltRecovery staging (IoFailed ''Remove'' (staging @ [Normal manifest_scratch]) e))
            (delete_by_handle d scratch)) (\<lambda>_.
          return (pins(ControlPin manifest_scratch := None))))"

definition hold :: "handle list \<Rightarrow> handle list \<Rightarrow> ('e, unit) custody_action" where
  "hold pins locks = change_state (\<lambda>s. s\<lparr>scope_pins := scope_pins s @ pins, scope_locks := scope_locks s @ locks\<rparr>)"

definition prove_area ::
    "disk \<Rightarrow> path \<Rightarrow> path list \<Rightarrow> (halt, handle \<times> handle \<times> manifest \<times> pins) custody_action" where
  "prove_area d root unknown =
     (let staging = staging_path root;
          lock_path = staging @ [Normal owner_lock];
          manifest_path = staging @ [Normal manifest_name]
      in andThen (halting (opened (pin_directory d staging))) (\<lambda>staging_pin.
         andThen (halting (inspect d lock_path)) (\<lambda>seen.
         if \<not> (case seen of Some meta \<Rightarrow> meta_is_file meta | None \<Rightarrow> False)
         then raise (HaltFailed (unverified staging ''The staging ownership lock is missing.''))
         else
           andThen (halting (claim_lock d open_lock lock_path)) (\<lambda>lock.
           andThen (halting (pin_manifest d manifest_path)) (\<lambda>manifest_pin.
           andThen (halting (generic root)) (\<lambda>root_text.
           andThen (read_manifest d manifest_pin manifest_path root_text) (\<lambda>m.
           case find (\<lambda>p. \<not> list_ex (\<lambda>a. root_relative a \<and> artifact_path root a = p) (man_artifacts m)) unknown of
             Some p \<Rightarrow> raise (unknown_name p)
           | None \<Rightarrow>
               andThen (validate_tree d root m) (\<lambda>pins. return (staging_pin, lock, m, pins)))))))))"

definition remove_area :: "disk \<Rightarrow> path \<Rightarrow> manifest \<Rightarrow> pins \<Rightarrow> (halt, unit) custody_action" where
  "remove_area d root m pins =
     andThen (remove_scratch d (staging_path root) pins) (\<lambda>pins.
     andThen (fold_each (remove_artifacts_loop d root) (rev (man_artifacts m)) pins) (\<lambda>_.
     set_area root default_area))"

definition recover :: "disk \<Rightarrow> path \<Rightarrow> (halt, unit) custody_action" where
  "recover d root =
     andThen observe (\<lambda>_.
     andThen (read_state (area_at root)) (\<lambda>known.
     if known \<noteq> None then return ()
     else
       andThen (halting (opened (pin_directory d root))) (\<lambda>root_pin.
       andThen (halting (or_raise (IoFailed ''Read'' root) (read_dir d root))) (\<lambda>entries.
       andThen (fold_each (note_unknown root) entries []) (\<lambda>unknown.
       andThen (halting (inspect d (staging_path root))) (\<lambda>seen.
       case seen of
         None \<Rightarrow>
           (case unknown of p # _ \<Rightarrow> raise (unknown_name p) | [] \<Rightarrow> hold [root_pin] [])
       | Some meta \<Rightarrow>
           if \<not> meta_is_dir meta
           then raise (HaltFailed (unverified (staging_path root) ''The reserved staging name is not a directory.''))
           else andThen (prove_area d root unknown) (\<lambda>(staging_pin, lock, m, pins).
             andThen (hold [root_pin, staging_pin] [lock]) (\<lambda>_. remove_area d root m pins))))))))"

subsection \<open>Preparing a Mod Root\<close>

definition remaining_staging :: string where
  "remaining_staging =
     '' Leave remaining staging in place; check permissions and ownership before retrying recovery.''"

definition staging_guidance :: "run_failure_code \<Rightarrow> string" where
  "staging_guidance c =
     (if c = StagingActive then '' Wait for the owning CAO run to finish, then retry.''
      else '' Leave the contents in place. Inspect ownership.manifest and move ''
           @ ''unrecognized material outside .cao-staging before retrying.'')"

definition with_failure_path :: "path \<Rightarrow> run_failure \<Rightarrow> run_failure" where
  "with_failure_path p f = f\<lparr>failure_path := p\<rparr>"

definition preparation_failure :: "path \<Rightarrow> halt \<Rightarrow> run_failure option" where
  "preparation_failure root h = (case h of
       HaltCancelled \<Rightarrow> None
     | HaltFailed (Ownership c p what) \<Rightarrow>
         Some (with_failure_path p (new_run_failure c Preparing (what @ staging_guidance c)))
     | HaltFailed e \<Rightarrow>
         Some (with_failure_path (staging_path root) (new_run_failure StagingOwnershipUnverified Preparing
           (staging_error_text e @ remaining_staging)))
     | HaltRecovery p e \<Rightarrow>
         Some (with_failure_path p (new_run_failure StagingRecoveryFailed Preparing
           (staging_error_text e @ remaining_staging))))"

definition prepare_staging_root :: "disk \<Rightarrow> path \<Rightarrow> ('e, run_failure option) custody_action" where
  "prepare_staging_root d root =
     andThen (try_action (recover d root)) (\<lambda>answer.
     return (case answer of Ok _ \<Rightarrow> None | Err h \<Rightarrow> preparation_failure root h))"

end
