(* ===== verification/StagingOwnership.thy ===== *)
theory StagingOwnership
  imports StagingRecovery
begin

text \<open>
  What a run does with a prepared Mod Root (\<open>run/staging.rs\<close>): it claims the reserved directory, stages
  files under registrations it publishes first, releases the published ones and removes the rest.
\<close>

definition is_absolute :: "path \<Rightarrow> bool" where
  "is_absolute p = (case p of Prefix _ # RootDir # _ \<Rightarrow> True | _ \<Rightarrow> False)"

definition parent_or_self :: "path \<Rightarrow> path" where
  "parent_or_self p = (case parent p of None \<Rightarrow> p | Some up \<Rightarrow> up)"

subsection \<open>Claiming an area\<close>

text \<open>A call with a token of its own, \<open>CancellationToken::new()\<close>.\<close>

definition with_fresh_token :: "('e, 'a) custody_action \<Rightarrow> ('e, 'a) custody_action" where
  "with_fresh_token m = (\<lambda>s. case m (s\<lparr>stop_token := None\<rparr>) of (r, s') \<Rightarrow> (r, s'\<lparr>stop_token := stop_token s\<rparr>))"

definition claim_area :: "disk \<Rightarrow> path \<Rightarrow> (staging_error, unit) custody_action" where
  "claim_area d root =
     (let staging = staging_path root in
      andThen (pin_directory d root) (\<lambda>root_pin.
      andThen (or_raise (\<lambda>e. if io_kind e = KindAlreadyExists
                then Invalid ''The reserved staging area appeared during initialization.''
                else IoFailed ''Create'' staging e) (create_dir d staging)) (\<lambda>_.
      andThen (pin_directory d staging) (\<lambda>staging_pin.
      andThen (claim_lock d (create_new open_lock) (staging @ [Normal owner_lock])) (\<lambda>lock.
      andThen (hold [root_pin, staging_pin] [lock]) (\<lambda>_.
      set_area root default_area))))))"

definition publish_child :: "disk \<Rightarrow> path \<Rightarrow> staging_area \<Rightarrow> (staging_error, unit) custody_action" where
  "publish_child d root a =
     andThen (nonce d) (\<lambda>n.
     andThen (read_state owner_run) (\<lambda>run_id.
     let child = ''run-'' @ run_id @ ''-'' @ n;
         artifacts = [\<lparr>relative = child, directory = True, root_relative = False\<rparr>];
         child_path = staging_path root @ [Normal child];
         claimed = a\<lparr>area_child := child, area_artifacts := artifacts\<rparr>
     in andThen (set_area root claimed) (\<lambda>_.
        andThen (publish_manifest d root run_id child artifacts) (\<lambda>_.
        andThen (or_raise (IoFailed ''Create'' child_path) (create_dir d child_path)) (\<lambda>_.
        andThen (pin_directory d child_path) (\<lambda>pin.
        set_area root (claimed\<lparr>child_pin := Some pin, area_ready := True\<rparr>)))))))"

definition prepare_area :: "disk \<Rightarrow> path \<Rightarrow> (staging_error, unit) custody_action" where
  "prepare_area d root =
     andThen (read_state owner_run) (\<lambda>run_id.
     if \<not> valid_run_id run_id
     then raise (Invalid (''The Run ID '' @ [CHR 0x60] @ run_id @ [CHR 0x60] @ '' cannot name staging.''))
     else
       andThen (with_fresh_token (prepare_staging_root d root)) (\<lambda>failed.
       case failed of
         Some f \<Rightarrow> raise (Ownership (failure_code f) (failure_path f) (failure_detail f))
       | None \<Rightarrow>
           andThen (read_state (area_at root)) (\<lambda>known.
           andThen (if known = None then claim_area d root else return ()) (\<lambda>_.
           andThen (the_area root) (\<lambda>a.
           if area_child a \<noteq> [] \<and> \<not> area_ready a
           then raise (Invalid ''The staging area initialization did not complete.'')
           else if area_child a = [] then publish_child d root a
           else return ())))))"

subsection \<open>Staging files\<close>

definition create_registered_file ::
    "disk \<Rightarrow> path \<Rightarrow> string \<Rightarrow> bool \<Rightarrow> (staging_error, path) custody_action" where
  "create_registered_file d root rel sibling =
     andThen (the_area root) (\<lambda>a.
     andThen (read_state owner_run) (\<lambda>run_id.
     let added = \<lparr>relative = rel, directory = False, root_relative = sibling\<rparr>;
         registered = area_artifacts a @ [added];
         staged = artifact_path root added
     in andThen (publish_manifest d root run_id (area_child a) registered) (\<lambda>_.
        andThen (set_area root (a\<lparr>area_artifacts := registered\<rparr>)) (\<lambda>_.
        andThen (try_action (write_new_file d staged [])) (\<lambda>written.
        case written of
          Ok _ \<Rightarrow> return staged
        | Err (Collision p) \<Rightarrow>
            andThen (set_area root a) (\<lambda>_.
            andThen (try_action (publish_manifest d root run_id (area_child a) (area_artifacts a))) (\<lambda>withdrawn.
            case withdrawn of
              Ok _ \<Rightarrow> raise (Collision p)
            | Err e \<Rightarrow>
                andThen (try_action (write_new_file d (staging_path root @ [Normal conflict_control])
                  (''A staged name collided before creation.'' @ [CHR 0x0A]))) (\<lambda>_.
                raise e)))
        | Err e \<Rightarrow> raise e)))))"

definition staged_extension :: "path \<Rightarrow> string" where
  "staged_extension destination =
     (case extension destination of
        None \<Rightarrow> []
      | Some ext \<Rightarrow> CHR ''.'' # to_ascii_lowercase (to_string_lossy ext))"

definition outside_root :: staging_error where
  "outside_root = Invalid ''A staged output must belong to its canonical Mod Root.''"

text \<open>Where a sibling goes: the root, the parent as it resolves, the parent's text, and the name's parts.\<close>

definition staging_place ::
    "disk \<Rightarrow> path \<Rightarrow> path \<Rightarrow> (staging_error, path \<times> path \<times> string \<times> string \<times> string) custody_action" where
  "staging_place d mod_root destination =
     (if \<not> is_absolute mod_root \<or> \<not> is_absolute destination then raise outside_root
      else
        andThen (or_raise (LookupFailed ''Resolve'' mod_root) (canonical d mod_root)) (\<lambda>root.
        andThen (or_raise (LookupFailed ''Resolve'' (parent_or_self destination))
          (canonical d (parent_or_self destination))) (\<lambda>dir.
        case strip_prefix dir root of
          None \<Rightarrow> raise outside_root
        | Some destination_parent \<Rightarrow>
            if has_staging_component destination_parent \<or> file_name destination = None then raise outside_root
            else
              andThen (or_raise (IoFailed ''Resolve'' root) (ask_disk (VolumeOf root) (\<lambda>w. d_volume d w root))) (\<lambda>root_volume.
              andThen (or_raise (IoFailed ''Resolve'' dir) (ask_disk (VolumeOf dir) (\<lambda>w. d_volume d w dir))) (\<lambda>dir_volume.
              if \<not> d_same d root_volume dir_volume
              then raise (Invalid ''The staged output and Mod Root must be on the same volume.'')
              else
                (let ext = staged_extension destination in
                 case staging_prefix ext of
                   None \<Rightarrow> raise (Invalid ''Asset staging requires a DDS, NIF, BTR, BTO, or HKX destination.'')
                 | Some prefix \<Rightarrow>
                     andThen (generic destination_parent) (\<lambda>text.
                     return (root, dir, text, prefix, ext))))))))"

definition pin_staged_parent :: "disk \<Rightarrow> path \<Rightarrow> path \<Rightarrow> (staging_error, unit) custody_action" where
  "pin_staged_parent d root dir =
     andThen (the_area root) (\<lambda>a.
     andThen (pin_parent_directories d root dir (parent_pins a)) (\<lambda>(answer, pins).
     andThen (set_area root (a\<lparr>parent_pins := pins\<rparr>)) (\<lambda>_.
     case answer of
       Err e \<Rightarrow> raise e
     | Ok False \<Rightarrow> raise (unverified dir ''A staged Asset parent disappeared before creation.'')
     | Ok True \<Rightarrow> return ())))"

definition stage_file :: "disk \<Rightarrow> path \<Rightarrow> path \<Rightarrow> (staging_error, path) custody_action" where
  "stage_file d mod_root destination =
     andThen (staging_place d mod_root destination) (\<lambda>(root, dir, text, prefix, ext).
     andThen (prepare_area d root) (\<lambda>_.
     andThen (pin_staged_parent d root dir) (\<lambda>_.
     andThen (nonce d) (\<lambda>n.
     andThen (read_state owner_run) (\<lambda>run_id.
     create_registered_file d root (below text (sibling_name prefix run_id n ext)) True)))))"

definition stage_archive_file :: "disk \<Rightarrow> path \<Rightarrow> (staging_error, path) custody_action" where
  "stage_archive_file d mod_root =
     (if \<not> is_absolute mod_root then raise (Invalid ''Archive staging requires an absolute Mod Root.'')
      else
        andThen (or_raise (LookupFailed ''Resolve'' mod_root) (canonical d mod_root)) (\<lambda>root.
        andThen (prepare_area d root) (\<lambda>_.
        andThen (the_area root) (\<lambda>a.
        andThen (nonce d) (\<lambda>n.
        create_registered_file d root (area_child a @ ''/archive-entry-'' @ n) False)))))"

subsection \<open>Releasing and cleaning up\<close>

definition releases :: "path \<Rightarrow> path \<Rightarrow> staged_artifact \<Rightarrow> bool" where
  "releases temporary root a = (\<not> directory a \<and> artifact_path root a = temporary)"

text \<open>\<open>Vec::remove\<close> at the first position.\<close>

fun remove_first :: "('a \<Rightarrow> bool) \<Rightarrow> 'a list \<Rightarrow> 'a list" where
  "remove_first P [] = []"
| "remove_first P (x # xs) = (if P x then xs else x # remove_first P xs)"

definition release_file :: "disk \<Rightarrow> path \<Rightarrow> (staging_error, unit) custody_action" where
  "release_file d temporary =
     andThen (read_state scope_areas) (\<lambda>areas.
     case find (\<lambda>(root, a). list_ex (releases temporary root) (area_artifacts a)) areas of
       None \<Rightarrow> raise (Invalid ''The durable temporary file is not registered.'')
     | Some (root, a) \<Rightarrow>
         andThen (inspect d temporary) (\<lambda>seen.
         if seen \<noteq> None
         then raise (Invalid ''A durable temporary file must be moved before releasing ownership.'')
         else
           (let retained = remove_first (releases temporary root) (area_artifacts a) in
            andThen (read_state owner_run) (\<lambda>run_id.
            andThen (publish_manifest d root run_id (area_child a) retained) (\<lambda>_.
            set_area root (a\<lparr>area_artifacts := retained\<rparr>))))))"

text \<open>
  \<open>before_directory\<close> runs just before a directory is removed; for the run child it closes the pin.
\<close>

definition close_child_pin :: "path \<Rightarrow> staged_artifact \<Rightarrow> ('e, unit) custody_action" where
  "close_child_pin root artifact =
     andThen (the_area root) (\<lambda>a.
     if \<not> root_relative artifact \<and> relative artifact = area_child a
     then andThen (case child_pin a of None \<Rightarrow> return () | Some h \<Rightarrow> close_file h) (\<lambda>_.
       set_area root (a\<lparr>child_pin := None\<rparr>))
     else return ())"

definition remove_artifact :: "disk \<Rightarrow> path \<Rightarrow> staged_artifact \<Rightarrow> (staging_error, unit) custody_action" where
  "remove_artifact d root artifact =
     (let affected = artifact_path root artifact;
          dir = parent_or_self affected
      in andThen (or_raise (LookupFailed ''Resolve'' dir) (weakly_canonical d dir)) (\<lambda>resolved.
         if resolved \<noteq> dir
         then raise (unverified affected ''A staging artifact parent changed during cleanup.'')
         else andThen (inspect d affected) (\<lambda>seen.
           case seen of
             None \<Rightarrow> return ()
           | Some meta \<Rightarrow>
               if meta_is_dir meta \<noteq> directory artifact
               then raise (unverified affected ''A staging artifact changed its recorded type.'')
               else if directory artifact
               then andThen (close_child_pin root artifact) (\<lambda>_.
                 or_raise (IoFailed ''Remove'' affected) (remove_dir d affected))
               else andThen (open_temporary_file d affected) (\<lambda>h.
                 or_raise (IoFailed ''Remove'' affected) (delete_by_handle d h)))))"

definition clean_artifact ::
    "disk \<Rightarrow> path \<Rightarrow> staged_artifact \<Rightarrow> run_failure list \<Rightarrow> ('e, run_failure list) custody_action" where
  "clean_artifact d root artifact failed =
     andThen (try_action (remove_artifact d root artifact)) (\<lambda>removed.
     return (case removed of
         Ok _ \<Rightarrow> failed
       | Err e \<Rightarrow> failed @ [with_failure_path (artifact_path root artifact)
           (new_run_failure TemporaryArtifactCleanupFailed SafetyCleanup (staging_error_text e))]))"

definition cleanup_artifacts :: "disk \<Rightarrow> ('e, run_failure list) custody_action" where
  "cleanup_artifacts d =
     andThen (read_state scope_areas) (\<lambda>areas.
     fold_each (\<lambda>(root, a) failed.
         if area_child a = [] then return failed
         else fold_each (clean_artifact d root) (rev (area_artifacts a)) failed)
       areas [])"

end
