(* ===== verification/StagingSafety.thy ===== *)
theory StagingSafety
  imports StagingOwnership
begin

text \<open>
  What recovery touches: proving an area only reads, and what is removed then are entries of the reserved
  namespace that the manifest records. The walk over the area ends.
\<close>

subsection \<open>Calls an action adds\<close>

text \<open>A loop whose rounds rely on the value handed over.\<close>

context frame
begin

lemma folded_gives:
  assumes "\<And>x acc. x \<in> set xs \<Longrightarrow> Q acc \<Longrightarrow> steps R (body x acc) \<and> gives Q (body x acc)" and "Q acc"
  shows "steps R (fold_each body xs acc)"
  using assms
proof (induction xs arbitrary: acc)
  case (Cons x xs)
  show ?case unfolding fold_each.simps
    by (rule seq_given [of _ Q]) (use Cons in auto)
qed (simp add: pure)

end

definition calls_in :: "(disk_call \<Rightarrow> bool) \<Rightarrow> custody \<Rightarrow> custody \<Rightarrow> bool" where
  "calls_in C s s' = (\<exists>cs. made_calls s' = made_calls s @ cs \<and> list_all C cs)"

interpretation calling: frame "calls_in C" for C
proof
  fix s t u :: custody
  show "calls_in C s s" by (simp add: calls_in_def)
  show "calls_in C s t \<Longrightarrow> calls_in C t u \<Longrightarrow> calls_in C s u" by (auto simp: calls_in_def)
qed

lemma calls_ask: "C c \<Longrightarrow> steps (calls_in C) (ask_disk c f)"
  by (simp add: steps_def ask_disk_def calls_in_def)

lemma calls_change: "(\<And>s. made_calls (f s) = made_calls s) \<Longrightarrow> steps (calls_in C) (change_state f)"
  by (rule calling.changed) (simp add: calls_in_def)

lemma calls_stop: "steps (calls_in C) observe_stop"
  by (auto intro!: stepsI simp: observe_stop_def calls_in_def split: prod.splits)

lemma calls_or_raise: "steps (calls_in C) m \<Longrightarrow> steps (calls_in C) (or_raise f m)"
  unfolding or_raise_def by (rule calling.seq) (auto intro: calling.pure split: sum.split)

lemmas calls_rules = calling.rules calls_ask calls_stop calls_or_raise

text \<open>The calls that change nothing on disk.\<close>

fun reading :: "disk_call \<Rightarrow> bool" where
  "reading (Metadata _) = True"
| "reading (OpenFile _ r) = (\<not> open_create_new r)"
| "reading (FactsOf _) = True"
| "reading (IdentityOf _) = True"
| "reading (ReadFile _) = True"
| "reading (CloseFile _) = True"
| "reading (ListDir _) = True"
| "reading (Canonical _) = True"
| "reading (WeaklyCanonical _) = True"
| "reading (VolumeOf _) = True"
| "reading RandomNonce = True"
| "reading _ = False"

lemma reading_opens [simp]:
  "open_create_new (open_new a b) = False" "open_create_new (for_directory r) = open_create_new r"
  "open_create_new open_lock = False"
  by (simp_all add: open_new_def for_directory_def open_lock_def)

lemma reading_entries:
  "steps (calls_in reading) (pin_directory d p)" "steps (calls_in reading) (open_temporary_file d p)"
  "steps (calls_in reading) (inspect d p)" "steps (calls_in reading) (pin_manifest d p)"
  "steps (calls_in reading) (claim_lock d open_lock p)"
  unfolding pin_directory_def open_temporary_file_def inspect_def inspect_file_def pin_manifest_def claim_lock_def
    claim_owner_lock_def open_file_def facts_of_def symlink_metadata_def
  by (auto intro!: calls_rules split: sum.split)

lemma reading_halting: "steps (calls_in C) m \<Longrightarrow> steps (calls_in C) (halting m)"
  "steps (calls_in C) m \<Longrightarrow> steps (calls_in C) (opened m)"
  by (simp_all add: halting_def opened_def calling.mapped)

lemma reading_observe: "steps (calls_in C) observe"
  unfolding observe_def by (auto intro!: calls_rules)

lemma reading_pins: "steps (calls_in reading) (pin_each d parent_dir here rest pins)"
proof (induction rest arbitrary: here pins)
  case (Cons c rest)
  show ?case
    by (cases c)
      (auto simp: Let_def intro!: calls_rules reading_entries Cons split: sum.split option.split)
qed (auto intro: calls_rules)

lemma reading_parents: "steps (calls_in reading) (pin_parent_directories d root parent_dir pins)"
  unfolding pin_parent_directories_def by (auto intro: calls_rules reading_pins split: option.split)

lemma reading_validate_entry: "steps (calls_in reading) (validate_entry d m dir prefix entry acc)"
  unfolding validate_entry_def
  by (cases acc; cases entry)
    (auto simp: Let_def intro!: calls_rules reading_observe reading_halting reading_entries split: option.split)

lemma reading_validate_directory: "steps (calls_in reading) (validate_directory d m dir prefix pins)"
  unfolding validate_directory_def read_dir_def
  by (auto intro!: calls_rules reading_halting reading_validate_entry)

lemma reading_validate_loop: "steps (calls_in reading) (validate_loop d m pending pins)"
proof (rule stepsI)
  fix s r s'
  assume "validate_loop d m pending pins s = (r, s')"
  then show "calls_in reading s s'"
  proof (induction d m pending pins s arbitrary: r s' rule: validate_loop.induct)
    case (2 d m dir prefix rest pins s)
    obtain x t where x: "validate_directory d m dir prefix pins s = (x, t)" by fastforce
    have "calls_in reading s t" by (rule stepsD [OF reading_validate_directory x])
    then show ?case
      using 2 x by (cases x) (auto intro: calling.trans)
  qed (simp add: calling.same)
qed

lemma reading_validate_sibling: "steps (calls_in reading) (validate_sibling d root a acc)"
  unfolding validate_sibling_def weakly_canonical_def
  by (cases acc)
    (auto simp: Let_def intro!: calls_rules reading_observe reading_halting reading_entries reading_parents
      split: option.split sum.split bool.split)

lemma reading_validate_tree: "steps (calls_in reading) (validate_tree d root m)"
  unfolding validate_tree_def
  by (auto intro!: calls_rules reading_observe reading_validate_loop reading_validate_sibling)

lemma reading_generic: "steps (calls_in reading) (generic p)"
  unfolding generic_def by (auto intro!: calls_rules)

lemma reading_manifest: "steps (calls_in reading) (read_manifest d pin p root)"
proof -
  have parse: "steps (calls_in reading) (\<lambda>s. case parse_manifest bytes root (stop_token s) of
         (Ok m, t) \<Rightarrow> (Done m, s\<lparr>stop_token := t\<rparr>)
       | (Err RejCancelled, t) \<Rightarrow> (Raise HaltCancelled, s\<lparr>stop_token := t\<rparr>)
       | (Err (RejInvalid what), t) \<Rightarrow> (Raise (HaltFailed (unverified p what)), s\<lparr>stop_token := t\<rparr>))" for bytes
    by (auto intro!: stepsI simp: calls_in_def split: prod.splits sum.splits rejection.splits)
  show ?thesis unfolding read_manifest_def by (auto intro!: calls_rules reading_halting parse)
qed

lemma reading_prove_area: "steps (calls_in reading) (prove_area d root unknown)"
  unfolding prove_area_def Let_def
  by (auto intro!: calls_rules reading_halting reading_entries reading_generic reading_manifest reading_validate_tree
      split: option.split)

subsection \<open>What the pins name\<close>

lemma gives_open: "gives (\<lambda>r. case r of Err _ \<Rightarrow> True | Ok h \<Rightarrow> handle_path h = p) (open_file d r p)"
  unfolding open_file_def by (rule gives_ask) (simp split: sum.split)

lemma gives_pin: "gives (\<lambda>h. handle_path h = p) (pin_directory d p)"
  "gives (\<lambda>h. handle_path h = p) (open_temporary_file d p)"
  unfolding pin_directory_def open_temporary_file_def
  by (rule gives_andThen [OF gives_or_raise [OF gives_open]], rule gives_after, simp add: gives_return gives_raise)+

lemma gives_opened: "gives P m \<Longrightarrow> gives P (opened m)"
  by (auto simp: gives_def opened_def map_err_def split: prod.splits outcome.splits)

lemmas gives_pinned = gives_pin [THEN gives_opened, THEN gives_halting]

definition pins_named :: "path \<Rightarrow> manifest \<Rightarrow> pins \<Rightarrow> bool" where
  "pins_named root m pins =
     (\<forall>k h. pins k = Some h \<longrightarrow>
        (k = ControlPin manifest_scratch \<and> handle_path h = staging_path root @ [Normal manifest_scratch])
        \<or> (\<exists>a \<in> set (man_artifacts m). k = pin_key_of a \<and> handle_path h = artifact_path root a))"

definition walk_named :: "path \<Rightarrow> (path \<times> string) list \<Rightarrow> bool" where
  "walk_named root pending = list_all (\<lambda>(p, rel). p = staging_path root @ text_path rel) pending"

lemma text_path_below:
  assumes "name \<noteq> []" "CHR ''/'' \<notin> set name"
  shows "text_path (below prefix name) = text_path prefix @ [Normal name]"
  using assms by (simp add: text_path_def below_def split_on_no_sep split_on_snoc)

lemma expected_recorded:
  assumes "expected_entries m rel = Some b"
  obtains a where "a \<in> set (man_artifacts m)" "pin_key_of a = ControlPin rel" "directory a = b"
    "artifact_path root a = staging_path root @ text_path rel"
proof -
  have "(rel, b) \<in> set (map (\<lambda>a. (relative a, directory a)) (filter (\<lambda>a. \<not> root_relative a) (man_artifacts m)))"
    using assms unfolding expected_entries_def by (auto dest: map_of_SomeD)
  then obtain a where "a \<in> set (man_artifacts m)" "\<not> root_relative a" "relative a = rel" "directory a = b" by auto
  then show thesis using that by (auto simp: pin_key_of_def artifact_path_def staging_path_def)
qed


definition walk_ok :: "path \<Rightarrow> manifest \<Rightarrow> pins \<times> (path \<times> string) list \<Rightarrow> bool" where
  "walk_ok root m acc = (pins_named root m (fst acc) \<and> walk_named root (snd acc))"

lemma pins_named_update:
  assumes "pins_named root m pins" "handle_path h = artifact_path root a" "a \<in> set (man_artifacts m)" "k = pin_key_of a"
  shows "pins_named root m (pins(k \<mapsto> h))"
  using assms by (auto simp: pins_named_def)

lemma validate_entry_named:
  assumes "walk_ok root m acc" "dir = staging_path root @ text_path prefix"
    and "\<forall>name. entry = Ok name \<longrightarrow> name \<noteq> [] \<and> CHR ''/'' \<notin> set name"
  shows "gives (walk_ok root m) (validate_entry d m dir prefix entry acc)"
proof (cases entry)
  case (Inl e)
  then show ?thesis
    by (cases acc) (auto simp: validate_entry_def intro!: gives_after gives_raise)
next
  case (Inr name)
  obtain pins pending where acc: "acc = (pins, pending)" by fastforce
  let ?here = "dir @ [Normal name]" and ?rel = "below prefix name"
  have here: "?here = staging_path root @ text_path ?rel"
    using text_path_below assms(2,3) Inr by simp
  have recorded: "gives (walk_ok root m) (andThen m' (\<lambda>h. return (pins(ControlPin ?rel \<mapsto> h), found)))"
    if pin: "gives (\<lambda>h. handle_path h = ?here) m'" "expected_entries m ?rel = Some b"
      "found = pending \<or> found = (?here, ?rel) # pending" for m' b found
  proof (rule gives_andThen [OF pin(1)], rule gives_return)
    fix h :: handle
    assume h: "handle_path h = ?here"
    obtain a where a: "a \<in> set (man_artifacts m)" "pin_key_of a = ControlPin ?rel"
      "artifact_path root a = staging_path root @ text_path ?rel"
      using expected_recorded [OF pin(2)] by metis
    show "walk_ok root m (pins(ControlPin ?rel \<mapsto> h), found)"
      using pin(3) assms(1) here h a pins_named_update [of root m pins h a "ControlPin ?rel"]
      by (auto simp: walk_ok_def acc walk_named_def)
  qed
  have scratch: "gives (walk_ok root m) (andThen m' (\<lambda>h. return (pins(ControlPin manifest_scratch \<mapsto> h), pending)))"
    if "gives (\<lambda>h. handle_path h = ?here) m'" "?rel = manifest_scratch" for m'
  proof (rule gives_andThen [OF that(1)], rule gives_return)
    fix h :: handle
    assume "handle_path h = ?here"
    moreover have "text_path manifest_scratch = [Normal manifest_scratch]" by code_simp
    ultimately show "walk_ok root m (pins(ControlPin manifest_scratch \<mapsto> h), pending)"
      using assms(1) that(2) here by (auto simp: walk_ok_def acc pins_named_def)
  qed
  have inspected: "gives (walk_ok root m) (andThen (halting (inspect d ?here)) k)"
    if "\<And>x. gives (walk_ok root m) (k x)" for k
    by (rule gives_after) (rule that)
  show ?thesis
    unfolding validate_entry_def Inr acc prod.case sum.case Let_def
    by (rule gives_after)
      (use assms(1) acc in \<open>auto intro!: inspected gives_raise gives_return recorded scratch gives_pinned split: option.split\<close>)
qed

lemma read_dir_plain:
  "gives (\<lambda>r. case r of Err _ \<Rightarrow> True
     | Ok entries \<Rightarrow> \<forall>name. Ok name \<in> set entries \<longrightarrow> name \<noteq> [] \<and> CHR ''/'' \<notin> set name) (read_dir d p)"
  unfolding read_dir_def by (rule gives_ask) (auto simp: listed_def map_sum_def split: sum.splits)

lemma validate_directory_named:
  assumes "pins_named root m pins" "dir = staging_path root @ text_path prefix"
  shows "gives (walk_ok root m) (validate_directory d m dir prefix pins)"
  unfolding validate_directory_def
proof (rule gives_andThen [OF gives_halting [OF gives_or_raise [OF read_dir_plain]]])
  fix entries :: "(io_error + string) list"
  assume "\<forall>name. Ok name \<in> set entries \<longrightarrow> name \<noteq> [] \<and> CHR ''/'' \<notin> set name"
  then show "gives (walk_ok root m) (fold_each (validate_entry d m dir prefix) entries (pins, []))"
    by (intro gives_fold_each validate_entry_named)
      (use assms in \<open>auto simp: walk_ok_def walk_named_def\<close>)
qed

lemma validate_loop_named:
  "validate_loop d m pending pins s = (Done pins', s') \<Longrightarrow> pins_named root m pins \<Longrightarrow> walk_named root pending
     \<Longrightarrow> pins_named root m pins'"
proof (induction d m pending pins s rule: validate_loop.induct)
  case (2 d m dir prefix rest pins s)
  obtain acc t where acc: "validate_directory d m dir prefix pins s = (Done acc, t)"
    using 2(2) by (auto split: prod.splits outcome.splits)
  obtain pins1 found where x: "acc = (pins1, found)" by fastforce
  have "walk_ok root m acc"
    by (rule givesD [OF validate_directory_named acc]) (use 2(3,4) in \<open>simp_all add: walk_named_def\<close>)
  then show ?case
    using 2(1) [OF acc [symmetric] refl] 2(2,4) acc x by (auto simp: walk_ok_def walk_named_def)
qed simp

lemma validate_sibling_named:
  assumes "a \<in> set (man_artifacts m)" "pins_named root m (fst acc)"
  shows "gives (\<lambda>acc. pins_named root m (fst acc)) (validate_sibling d root a acc)"
proof -
  obtain pins parents where acc: "acc = (pins, parents)" by fastforce
  have pinned: "gives (\<lambda>acc. pins_named root m (fst acc)) (andThen m' (\<lambda>h. return (pins(pin_key_of a \<mapsto> h), ps)))"
    if "gives (\<lambda>h. handle_path h = artifact_path root a) m'" for m' and ps :: pin_map
    by (rule gives_andThen [OF that], rule gives_return)
      (use assms acc in \<open>auto intro: pins_named_update\<close>)
  have resolved: "gives (\<lambda>acc. pins_named root m (fst acc)) (andThen (halting (or_raise f (weakly_canonical d q))) k)"
    if "\<And>x. gives (\<lambda>acc. pins_named root m (fst acc)) (k x)" for f q k
    by (rule gives_after) (rule that)
  have inspected: "gives (\<lambda>acc. pins_named root m (fst acc)) (andThen (halting (inspect d q)) k)"
    if "\<And>x. gives (\<lambda>acc. pins_named root m (fst acc)) (k x)" for q k
    by (rule gives_after) (rule that)
  show ?thesis
    unfolding validate_sibling_def acc prod.case Let_def
    by (rule gives_after, rule gives_after)
      (use assms(2) acc in \<open>auto intro!: resolved inspected gives_raise gives_return pinned gives_pinned
         split: option.split sum.split bool.split\<close>)
qed

lemma validate_tree_named: "gives (pins_named root m) (validate_tree d root m)"
proof -
  have loop: "gives (pins_named root m) (validate_loop d m [(staging_path root, [])] Map.empty)"
    unfolding gives_def
    using validate_loop_named [where pins = Map.empty and pending = "[(staging_path root, [])]" and root = root]
    by (auto simp: pins_named_def walk_named_def text_path_def)
  have siblings: "gives (\<lambda>acc. pins_named root m (fst acc))
      (fold_each (validate_sibling d root) (filter root_relative (man_artifacts m)) (pins, Map.empty))"
    if "pins_named root m pins" for pins
    by (rule gives_fold_each, rule validate_sibling_named) (use that in auto)
  show ?thesis
    unfolding validate_tree_def
    by (rule gives_after, rule gives_andThen [OF loop], rule gives_andThen [OF siblings])
      (auto intro: gives_return)
qed


subsection \<open>Removal\<close>

fun recovery_removal :: "path \<Rightarrow> manifest \<Rightarrow> disk_call \<Rightarrow> bool" where
  "recovery_removal root m (RemoveDir p) = (\<exists>a \<in> set (man_artifacts m). directory a \<and> p = artifact_path root a)"
| "recovery_removal root m (DeleteFile h) =
     (handle_path h = staging_path root @ [Normal manifest_scratch]
      \<or> (\<exists>a \<in> set (man_artifacts m). \<not> directory a \<and> handle_path h = artifact_path root a))"
| "recovery_removal root m (Canonical _) = True"
| "recovery_removal root m (CloseFile _) = True"
| "recovery_removal root m _ = False"

lemma pins_named_key:
  assumes "pins_named root m pins" "pins (pin_key_of a) = Some h"
  shows "handle_path h = artifact_path root a"
proof -
  have scratch: "text_path manifest_scratch = [Normal manifest_scratch]" by code_simp
  have same: "artifact_path root a = artifact_path root b" if "pin_key_of a = pin_key_of b" for b
    using that by (auto simp: pin_key_of_def artifact_path_def split: if_splits)
  consider (first) "pin_key_of a = ControlPin manifest_scratch" "handle_path h = staging_path root @ [Normal manifest_scratch]"
    | (recorded) b where "pin_key_of a = pin_key_of b" "handle_path h = artifact_path root b"
    using assms unfolding pins_named_def by blast
  then show ?thesis
  proof cases
    case first
    then show ?thesis
      using scratch by (simp add: pin_key_of_def artifact_path_def staging_path_def split: if_splits)
  next
    case recorded
    then show ?thesis using same by simp
  qed
qed

lemma remove_recovered_calls:
  assumes "a \<in> set (man_artifacts m)" "handle_path pin = artifact_path root a"
  shows "steps (calls_in (recovery_removal root m)) (remove_recovered d (artifact_path root a) (directory a) pin)"
  unfolding remove_recovered_def Let_def canonical_def close_file_def remove_dir_def delete_by_handle_def
  by (intro calls_rules) (use assms in auto)

lemma pins_named_removed: "pins_named root m pins \<Longrightarrow> pins_named root m (pins(k := None))"
  by (simp add: pins_named_def)

lemma remove_artifacts_calls:
  assumes "pins_named root m pins"
  shows "steps (calls_in (recovery_removal root m))
    (fold_each (remove_artifacts_loop d root) (rev (man_artifacts m)) pins)"
proof (rule calling.folded_gives [of _ "pins_named root m"])
  fix a pins
  assume a: "a \<in> set (rev (man_artifacts m))" and pins: "pins_named root m pins"
  have "gives (pins_named root m) (remove_artifacts_loop d root a pins)"
    unfolding remove_artifacts_loop_def
    using pins by (cases "pins (pin_key_of a)")
      (auto intro!: gives_after gives_return pins_named_removed)
  moreover have "steps (calls_in (recovery_removal root m)) (remove_artifacts_loop d root a pins)"
  proof (cases "pins (pin_key_of a)")
    case None
    then show ?thesis by (simp add: remove_artifacts_loop_def calling.seq reading_observe calling.pure)
  next
    case (Some pin)
    then have "steps (calls_in (recovery_removal root m)) (remove_recovered d (artifact_path root a) (directory a) pin)"
      using a pins by (intro remove_recovered_calls) (simp_all add: pins_named_key)
    then show ?thesis by (simp add: remove_artifacts_loop_def Some calling.seq reading_observe calling.pure)
  qed
  ultimately show "steps (calls_in (recovery_removal root m)) (remove_artifacts_loop d root a pins)
      \<and> gives (pins_named root m) (remove_artifacts_loop d root a pins)" by blast
qed (rule assms)

lemma remove_area_calls:
  assumes "pins_named root m pins"
  shows "steps (calls_in (recovery_removal root m)) (remove_area d root m pins)"
proof -
  have "steps (calls_in (recovery_removal root m)) (remove_scratch d (staging_path root) pins)
      \<and> gives (pins_named root m) (remove_scratch d (staging_path root) pins)"
  proof (cases "pins (ControlPin manifest_scratch)")
    case None
    then show ?thesis using assms by (simp add: remove_scratch_def calling.pure gives_return)
  next
    case (Some h)
    let ?scratch = "\<lparr>relative = manifest_scratch, directory = False, root_relative = False\<rparr>"
    have "text_path manifest_scratch = [Normal manifest_scratch]" by code_simp
    then have "handle_path h = staging_path root @ [Normal manifest_scratch]"
      using pins_named_key [OF assms, of ?scratch h] Some
      by (simp add: pin_key_of_def artifact_path_def staging_path_def)
    then show ?thesis
      using assms pins_named_removed
      by (auto simp: remove_scratch_def Some delete_by_handle_def intro!: calls_rules gives_after gives_return)
  qed
  then show ?thesis
    unfolding remove_area_def set_area_def
    by (intro calling.seq_given [of _ _ "pins_named root m"] calling.seq remove_artifacts_calls calls_change) auto
qed

subsection \<open>What a recovery may remove\<close>

fun removed_path :: "disk_call \<Rightarrow> path option" where
  "removed_path (RemoveDir p) = Some p"
| "removed_path (RemoveFile p) = Some p"
| "removed_path (DeleteFile h) = Some (handle_path h)"
| "removed_path _ = None"

subsection \<open>The walk\<close>

text \<open>
  C33: The walk that proves a control area ends whatever the disk answers: its stack of pending
  directories descends in a well-founded relation, since a directory is entered only when the manifest
  records it and each level lengthens the recorded name.
\<close>

theorem recovery_walk_terminates:
  "wf {(pending', pending). \<exists>dir prefix rest pins s pins' found s'.
         pending = (dir, prefix) # rest
         \<and> validate_directory d m dir prefix pins s = (Done (pins', found), s')
         \<and> pending' = found @ rest}"
proof (rule wf_subset)
  show "wf (inv_image (mult less_than) (depths m))" by (intro wf_inv_image wf_mult wf_less_than)
  have "deeper m prefix found" if "validate_directory d m dir prefix pins s = (Done (pins', found), s')"
    for dir prefix pins pins' found and s s' :: custody
    using givesD [OF validate_directory_deeper that] by simp
  then show "{(pending', pending). \<exists>dir prefix rest pins s pins' found s'.
         pending = (dir, prefix) # rest
         \<and> validate_directory d m dir prefix pins s = (Done (pins', found), s')
         \<and> pending' = found @ rest} \<subseteq> inv_image (mult less_than) (depths m)"
    using depths_decrease by fastforce
qed

end
