(* ===== verification/StagingProof.thy ===== *)
theory StagingProof
  imports StagingSafety
begin

text \<open>
  What recovery knows before it deletes: every fact is an answer the disk gave to a call recovery made.
\<close>

subsection \<open>Answers on record\<close>

text \<open>The calls \<open>cs\<close>, each with the calls made before it, starting after \<open>w\<close>.\<close>

fun log_of :: "world \<Rightarrow> disk_call list \<Rightarrow> (world \<times> disk_call) set" where
  "log_of w [] = {}"
| "log_of w (c # cs) = insert (w, c) (log_of (w @ [c]) cs)"

lemma log_of_append: "log_of w (as @ bs) = log_of w as \<union> log_of (w @ as) bs"
  by (induction as arbitrary: w) auto

text \<open>
  \<open>attests L Q m\<close>: when \<open>m\<close> returns \<open>x\<close> and its calls are all in the log \<open>L\<close>, then \<open>Q x\<close>; so \<open>Q\<close> may speak of the
  answers in \<open>L\<close>.
\<close>

definition attests :: "(world \<times> disk_call) set \<Rightarrow> ('a \<Rightarrow> bool) \<Rightarrow> ('e, 'a) custody_action \<Rightarrow> bool" where
  "attests L Q m = (\<forall>s x t. m s = (Done x, t) \<longrightarrow>
     (\<exists>cs. made_calls t = made_calls s @ cs \<and> (log_of (made_calls s) cs \<subseteq> L \<longrightarrow> Q x)))"

lemma attests_seq:
  assumes "attests L P m" and "\<And>x. attests L (\<lambda>y. P x \<longrightarrow> Q y) (f x)"
  shows "attests L Q (andThen m f)"
  unfolding attests_def
proof (intro allI impI)
  fix s y u
  assume "andThen m f s = (Done y, u)"
  then obtain x t where m: "m s = (Done x, t)" and f: "f x t = (Done y, u)" by (rule andThen_Done)
  obtain as where as: "made_calls t = made_calls s @ as" "log_of (made_calls s) as \<subseteq> L \<longrightarrow> P x"
    using assms(1) m unfolding attests_def by blast
  obtain bs where bs: "made_calls u = made_calls t @ bs" "log_of (made_calls t) bs \<subseteq> L \<longrightarrow> P x \<longrightarrow> Q y"
    using assms(2) f unfolding attests_def by blast
  have "made_calls u = made_calls s @ as @ bs" using as(1) bs(1) by simp
  moreover have "log_of (made_calls s) (as @ bs) \<subseteq> L \<longrightarrow> Q y"
    using as bs by (simp add: log_of_append)
  ultimately show "\<exists>cs. made_calls u = made_calls s @ cs \<and> (log_of (made_calls s) cs \<subseteq> L \<longrightarrow> Q y)" by blast
qed

lemma attests_mono: "attests L P m \<Longrightarrow> (\<And>x. P x \<Longrightarrow> Q x) \<Longrightarrow> attests L Q m"
  unfolding attests_def by blast

lemma attests_any: "steps (calls_in C) m \<Longrightarrow> (\<And>x. Q x) \<Longrightarrow> attests L Q m"
  unfolding attests_def calls_in_def by (auto dest: stepsD)

lemma attests_gives: "steps (calls_in C) m \<Longrightarrow> gives Q m \<Longrightarrow> attests L Q m"
  unfolding attests_def calls_in_def by (blast dest: stepsD givesD)

lemma attests_after: "steps (calls_in C) m \<Longrightarrow> (\<And>x. attests L Q (f x)) \<Longrightarrow> attests L Q (andThen m f)"
  by (rule attests_seq [OF attests_any [where Q = "\<lambda>_. True"]]) auto

lemma attests_return: "Q x \<Longrightarrow> attests L Q (return x)" and attests_raise: "attests L Q (raise e)"
  by (simp_all add: attests_def run_simps)

lemma attests_ask: "(\<And>w. (w, c) \<in> L \<Longrightarrow> Q (f w)) \<Longrightarrow> attests L Q (ask_disk c f)"
  by (auto simp: attests_def ask_disk_def intro!: exI [of _ "[c]"])

lemma attests_or_raise:
  "attests L (\<lambda>r. case r of Err _ \<Rightarrow> True | Ok x \<Rightarrow> Q x) m \<Longrightarrow> attests L Q (or_raise f m)"
  unfolding or_raise_def by (erule attests_seq) (auto intro: attests_return attests_raise split: sum.split)

lemma attests_mapped: "attests L Q m \<Longrightarrow> attests L Q (map_err g m)"
  "attests L Q n \<Longrightarrow> attests L Q (halting n)" "attests L Q k \<Longrightarrow> attests L Q (opened k)"
  by (auto simp: attests_def halting_def opened_def map_err_def split: prod.splits outcome.splits)

lemma attests_branch: "(b \<Longrightarrow> attests L Q m) \<Longrightarrow> (\<not> b \<Longrightarrow> attests L Q n) \<Longrightarrow> attests L Q (if b then m else n)"
  by simp

text \<open>A loop whose rounds each settle one element and keep what was settled.\<close>

lemma attests_fold:
  assumes "\<And>x acc. x \<in> set xs \<Longrightarrow> attests L (\<lambda>acc'. K x acc' \<and> (\<forall>y. K y acc \<longrightarrow> K y acc')) (body x acc)"
  shows "attests L (\<lambda>acc'. (\<forall>x \<in> set xs. K x acc') \<and> (\<forall>y. K y acc \<longrightarrow> K y acc')) (fold_each body xs acc)"
  using assms
proof (induction xs arbitrary: acc)
  case (Cons x xs)
  show ?case
    unfolding fold_each.simps
    by (rule attests_seq [OF Cons.prems]) (auto intro: attests_mono [OF Cons.IH [OF Cons.prems]])
qed (simp add: attests_return)

subsection \<open>What was found at a path\<close>

definition absent_at :: "disk \<Rightarrow> (world \<times> disk_call) set \<Rightarrow> path \<Rightarrow> bool" where
  "absent_at d L p = (\<exists>w e. (w, Metadata p) \<in> L \<and> d_metadata d w p = Err e \<and> io_kind e = KindNotFound)"

definition found_at :: "disk \<Rightarrow> (world \<times> disk_call) set \<Rightarrow> path \<Rightarrow> metadata \<Rightarrow> bool" where
  "found_at d L p m = (\<exists>w. (w, Metadata p) \<in> L \<and> d_metadata d w p = Ok m \<and> \<not> meta_symlink m \<and> \<not> meta_is_reparse_point m)"

text \<open>An open handle of \<open>p\<close> that is a directory and no reparse point, or an ordinary file with no second link.\<close>

definition pinned_at :: "disk \<Rightarrow> (world \<times> disk_call) set \<Rightarrow> path \<Rightarrow> bool \<Rightarrow> bool" where
  "pinned_at d L p is_dir =
     (\<exists>w h facts. (w, FactsOf h) \<in> L \<and> handle_path h = p \<and> d_facts d w h = Ok facts
        \<and> (if is_dir then is_directory facts \<and> \<not> is_reparse_point facts
           else is_ordinary_file facts \<and> facts_links facts = 1))"

definition proven_entry :: "disk \<Rightarrow> (world \<times> disk_call) set \<Rightarrow> path \<Rightarrow> bool \<Rightarrow> bool" where
  "proven_entry d L p is_dir =
     ((\<exists>m. found_at d L p m \<and> (if is_dir then meta_is_dir m else meta_is_file m)) \<and> pinned_at d L p is_dir)"

lemma attests_inspect:
  "attests L (\<lambda>r. case r of None \<Rightarrow> absent_at d L p
     | Some m \<Rightarrow> found_at d L p m \<and> (meta_is_dir m \<or> meta_is_file m)) (inspect d p)"
  unfolding inspect_def symlink_metadata_def
proof (rule attests_seq [OF attests_ask [where Q = "\<lambda>answer. \<exists>w. (w, Metadata p) \<in> L \<and> d_metadata d w p = answer"]])
  fix answer
  have looks: "steps (calls_in reading) (inspect_file d p)"
    unfolding inspect_file_def open_file_def facts_of_def by (auto intro!: calls_rules)
  show "attests L (\<lambda>y. (\<exists>w. (w, Metadata p) \<in> L \<and> d_metadata d w p = answer) \<longrightarrow>
      (case y of None \<Rightarrow> absent_at d L p | Some m \<Rightarrow> found_at d L p m \<and> (meta_is_dir m \<or> meta_is_file m)))
    (case answer of
       Err e \<Rightarrow> if io_kind e = KindNotFound then return None else raise (IoFailed ''Inspect'' p e)
     | Ok m \<Rightarrow>
         if meta_symlink m \<or> meta_is_reparse_point m
         then raise (unverified p ''Staging contains a linked entry or reparse point.'')
         else if \<not> meta_is_dir m \<and> \<not> meta_is_file m
         then raise (unverified p ''Staging contains an unsupported entry type.'')
         else if meta_is_file m then andThen (inspect_file d p) (\<lambda>_. return (Some m))
         else return (Some m))"
  proof (cases answer)
    case (Inl e)
    then show ?thesis by (auto simp: absent_at_def attests_def run_simps)
  next
    case (Inr m)
    then show ?thesis
      by (auto intro!: attests_return attests_raise attests_after [OF looks] simp: found_at_def)
  qed
qed auto

lemma attests_open: "attests L (\<lambda>r. case r of Err _ \<Rightarrow> True | Ok h \<Rightarrow> handle_path h = p) (open_file d r p)"
  unfolding open_file_def by (rule attests_ask) (simp split: sum.split)

lemma attests_facts: "attests L (\<lambda>r. \<exists>w. (w, FactsOf h) \<in> L \<and> d_facts d w h = r) (facts_of d h)"
  unfolding facts_of_def by (rule attests_ask) auto

lemma attests_pin:
  "attests L (\<lambda>h. handle_path h = p \<and> pinned_at d L p True) (pin_directory d p)"
  "attests L (\<lambda>h. handle_path h = p \<and> pinned_at d L p False) (open_temporary_file d p)"
  "attests L (\<lambda>h. handle_path h = p \<and> pinned_at d L p False) (pin_manifest d p)"
proof -
  have facts: "attests L (\<lambda>facts. \<exists>w. (w, FactsOf h) \<in> L \<and> d_facts d w h = Ok facts) (or_raise f (facts_of d h))" for h f
    by (rule attests_or_raise, rule attests_mono [OF attests_facts]) (auto split: sum.split)
  have handed: "attests L (\<lambda>h. handle_path h = p) (or_raise f (open_file d r p))" for f r
    by (rule attests_or_raise [OF attests_open])
  show "attests L (\<lambda>h. handle_path h = p \<and> pinned_at d L p True) (pin_directory d p)"
    "attests L (\<lambda>h. handle_path h = p \<and> pinned_at d L p False) (open_temporary_file d p)"
    "attests L (\<lambda>h. handle_path h = p \<and> pinned_at d L p False) (pin_manifest d p)"
    unfolding pin_directory_def open_temporary_file_def pin_manifest_def
    by (rule attests_seq [OF handed], rule attests_seq [OF facts],
        rule attests_branch, rule attests_raise, rule attests_return, auto simp: pinned_at_def)+
qed


subsection \<open>The control area\<close>

text \<open>
  A directory of the control area is accounted for when it was listed and every name in it is one of the two
  controls, the scratch file of a manifest that has one, or a record of the manifest with the recorded type, a
  recorded directory being accounted for in turn.
\<close>

inductive accounted :: "disk \<Rightarrow> (world \<times> disk_call) set \<Rightarrow> manifest \<Rightarrow> path \<Rightarrow> string \<Rightarrow> bool" for d L m where
  accounted_dir: "accounted d L m dir prefix" if
    "(w, ListDir dir) \<in> L" "d_list d w dir = Ok entries"
    "\<forall>entry \<in> set entries. listed entry \<longrightarrow> (\<exists>name. entry = Ok name \<and> is_utf8 name
       \<and> (below prefix name = owner_lock \<or> below prefix name = manifest_name
           \<or> (2 \<le> man_version m \<and> below prefix name = manifest_scratch \<and> proven_entry d L (dir @ [Normal name]) False)
           \<or> (expected_entries m (below prefix name) = Some False \<and> proven_entry d L (dir @ [Normal name]) False)
           \<or> (expected_entries m (below prefix name) = Some True \<and> proven_entry d L (dir @ [Normal name]) True
               \<and> accounted d L m (dir @ [Normal name]) (below prefix name))))"

text \<open>The same of one entry, with the directories still to be walked.\<close>

definition entry_accounted ::
    "disk \<Rightarrow> (world \<times> disk_call) set \<Rightarrow> manifest \<Rightarrow> path \<Rightarrow> string \<Rightarrow> io_error + string \<Rightarrow> pins \<times> (path \<times> string) list \<Rightarrow> bool" where
  "entry_accounted d L m dir prefix entry acc = (\<exists>name. entry = Ok name \<and> is_utf8 name
       \<and> (below prefix name = owner_lock \<or> below prefix name = manifest_name
           \<or> (2 \<le> man_version m \<and> below prefix name = manifest_scratch \<and> proven_entry d L (dir @ [Normal name]) False)
           \<or> (expected_entries m (below prefix name) = Some False \<and> proven_entry d L (dir @ [Normal name]) False)
           \<or> (expected_entries m (below prefix name) = Some True \<and> proven_entry d L (dir @ [Normal name]) True
               \<and> (dir @ [Normal name], below prefix name) \<in> set (snd acc))))"

text \<open>An entry is inspected and opened: unless it is refused, it is what it was expected to be.\<close>

lemma attests_proven:
  assumes "attests L (\<lambda>h. handle_path h = p \<and> pinned_at d L p is_dir) n"
    and "\<And>seen. \<not> refused seen \<Longrightarrow> \<exists>meta. seen = Some meta
      \<and> (meta_is_dir meta \<or> meta_is_file meta \<longrightarrow> (if is_dir then meta_is_dir meta else meta_is_file meta))"
    and "\<And>h. proven_entry d L p is_dir \<Longrightarrow> Q (g h)"
  shows "attests L Q (andThen (halting (inspect d p)) (\<lambda>seen.
     if refused seen then raise (e seen) else andThen (halting (opened n)) (\<lambda>h. return (g h))))"
proof (rule attests_seq [OF attests_mapped(2) [OF attests_inspect]])
  fix seen
  let ?seen = "case seen of None \<Rightarrow> absent_at d L p | Some m \<Rightarrow> found_at d L p m \<and> (meta_is_dir m \<or> meta_is_file m)"
  show "attests L (\<lambda>y. ?seen \<longrightarrow> Q y)
    (if refused seen then raise (e seen) else andThen (halting (opened n)) (\<lambda>h. return (g h)))"
  proof (rule attests_branch)
    assume "\<not> refused seen"
    then have kind: "?seen \<Longrightarrow> \<exists>m. found_at d L p m \<and> (if is_dir then meta_is_dir m else meta_is_file m)"
      using assms(2) by fastforce
    show "attests L (\<lambda>y. ?seen \<longrightarrow> Q y) (andThen (halting (opened n)) (\<lambda>h. return (g h)))"
      by (rule attests_seq [OF attests_mapped(2) [OF attests_mapped(3) [OF assms(1)]]], rule attests_return)
        (use kind assms(3) in \<open>auto simp: proven_entry_def\<close>)
  qed (rule attests_raise)
qed

lemma validate_entry_attests:
  "attests L (\<lambda>acc'. entry_accounted d L m dir prefix entry acc' \<and> set (snd acc) \<subseteq> set (snd acc'))
    (validate_entry d m dir prefix entry acc)"
proof (cases entry)
  case (Inl e)
  then show ?thesis
    by (cases acc) (auto simp: validate_entry_def intro!: attests_after [OF reading_observe] attests_raise)
next
  case (Inr name)
  obtain pins pending where acc: "acc = (pins, pending)" by fastforce
  let ?here = "dir @ [Normal name]" and ?rel = "below prefix name"
  let ?Q = "\<lambda>acc'. entry_accounted d L m dir prefix entry acc' \<and> set (snd acc) \<subseteq> set (snd acc')"
  note body = validate_entry_def Inr acc prod.case sum.case Let_def
  consider (unreadable) "\<not> is_utf8 name" | (control) "is_utf8 name" "?rel = owner_lock \<or> ?rel = manifest_name"
    | (scratch) "is_utf8 name" "\<not> (?rel = owner_lock \<or> ?rel = manifest_name)" "2 \<le> man_version m \<and> ?rel = manifest_scratch"
    | (other) "is_utf8 name" "\<not> (?rel = owner_lock \<or> ?rel = manifest_name)" "\<not> (2 \<le> man_version m \<and> ?rel = manifest_scratch)"
    by blast
  then show ?thesis
  proof cases
    case unreadable
    then show ?thesis by (simp add: body attests_after [OF reading_observe] attests_raise)
  next
    case control
    show ?thesis
      unfolding body
      by (rule attests_after [OF reading_observe]) (use control in \<open>auto intro!: attests_return simp: entry_accounted_def\<close>)
  next
    case scratch
    then have taken: "(\<not> is_utf8 name) = False" "(?rel = owner_lock \<or> ?rel = manifest_name) = False"
      "(2 \<le> man_version m \<and> ?rel = manifest_scratch) = True" by blast+
    show ?thesis
      unfolding body taken if_True if_False
      by (rule attests_after [OF reading_observe], rule attests_proven [OF attests_pin(2)])
        (use scratch in \<open>auto simp: entry_accounted_def split: option.splits\<close>)
  next
    case other
    then have taken: "(\<not> is_utf8 name) = False" "(?rel = owner_lock \<or> ?rel = manifest_name) = False"
      "(2 \<le> man_version m \<and> ?rel = manifest_scratch) = False" by blast+
    show ?thesis
    proof (cases "expected_entries m ?rel")
      case None
      show ?thesis
        unfolding body taken None if_True if_False option.case
        by (rule attests_after [OF reading_observe], rule attests_raise)
    next
      case (Some b)
      show ?thesis
      proof (cases b)
        case True
        then have some: "expected_entries m ?rel = Some True" using Some by simp
        show ?thesis
          unfolding body taken some if_True if_False option.case
          by (rule attests_after [OF reading_observe], rule attests_proven [OF attests_pin(1)])
            (use other Some True in \<open>auto simp: entry_accounted_def split: option.splits\<close>)
      next
        case False
        then have some: "expected_entries m ?rel = Some False" using Some by simp
        show ?thesis
          unfolding body taken some if_True if_False option.case
          by (rule attests_after [OF reading_observe], rule attests_proven [OF attests_pin(2)])
            (use other Some False in \<open>auto simp: entry_accounted_def split: option.splits\<close>)
      qed
    qed
  qed
qed

lemma attests_listing:
  "attests L (\<lambda>entries. \<exists>w all. (w, ListDir p) \<in> L \<and> d_list d w p = Ok all \<and> entries = filter listed all)
    (or_raise f (read_dir d p))"
  unfolding read_dir_def
  by (rule attests_or_raise, rule attests_ask) (auto simp: map_sum_def split: sum.splits)

text \<open>A directory that was gone through: what is found in it, with the directories it leaves to walk.\<close>

definition gone_through ::
    "disk \<Rightarrow> (world \<times> disk_call) set \<Rightarrow> manifest \<Rightarrow> path \<Rightarrow> string \<Rightarrow> pins \<times> (path \<times> string) list \<Rightarrow> bool" where
  "gone_through d L m dir prefix acc =
     (\<exists>w all. (w, ListDir dir) \<in> L \<and> d_list d w dir = Ok all
        \<and> (\<forall>entry \<in> set all. listed entry \<longrightarrow> entry_accounted d L m dir prefix entry acc))"

lemma entry_accounted_later:
  "entry_accounted d L m dir prefix entry acc \<Longrightarrow> set (snd acc) \<subseteq> set (snd acc')
     \<Longrightarrow> entry_accounted d L m dir prefix entry acc'"
  unfolding entry_accounted_def by auto

lemma validate_directory_attests:
  "attests L (gone_through d L m dir prefix) (validate_directory d m dir prefix pins)"
  unfolding validate_directory_def
proof (rule attests_seq [OF attests_mapped(2) [OF attests_listing]])
  fix entries
  have "attests L (\<lambda>acc. (\<forall>x \<in> set entries. entry_accounted d L m dir prefix x acc)
        \<and> (\<forall>y. entry_accounted d L m dir prefix y (pins, []) \<longrightarrow> entry_accounted d L m dir prefix y acc))
      (fold_each (validate_entry d m dir prefix) entries (pins, []))"
    by (rule attests_fold, rule attests_mono [OF validate_entry_attests]) (auto intro: entry_accounted_later)
  then show "attests L (\<lambda>acc. (\<exists>w all. (w, ListDir dir) \<in> L \<and> d_list d w dir = Ok all \<and> entries = filter listed all)
        \<longrightarrow> gone_through d L m dir prefix acc)
      (fold_each (validate_entry d m dir prefix) entries (pins, []))"
    by (rule attests_mono) (auto simp: gone_through_def)
qed

lemma gone_through_accounted:
  assumes "gone_through d L m dir prefix (pins, found)" "\<forall>(p, rel) \<in> set found. accounted d L m p rel"
  shows "accounted d L m dir prefix"
proof -
  obtain w all where seen: "(w, ListDir dir) \<in> L" "d_list d w dir = Ok all"
    "\<forall>entry \<in> set all. listed entry \<longrightarrow> entry_accounted d L m dir prefix entry (pins, found)"
    using assms(1) unfolding gone_through_def by blast
  show ?thesis
  proof (rule accounted_dir [OF seen(1,2)], intro ballI impI)
    fix entry
    assume "entry \<in> set all" "listed entry"
    then have "entry_accounted d L m dir prefix entry (pins, found)" using seen(3) by blast
    then show "\<exists>name. entry = Ok name \<and> is_utf8 name
       \<and> (below prefix name = owner_lock \<or> below prefix name = manifest_name
           \<or> (2 \<le> man_version m \<and> below prefix name = manifest_scratch \<and> proven_entry d L (dir @ [Normal name]) False)
           \<or> (expected_entries m (below prefix name) = Some False \<and> proven_entry d L (dir @ [Normal name]) False)
           \<or> (expected_entries m (below prefix name) = Some True \<and> proven_entry d L (dir @ [Normal name]) True
               \<and> accounted d L m (dir @ [Normal name]) (below prefix name)))"
      using assms(2) unfolding entry_accounted_def by auto
  qed
qed

lemma validate_loop_attests:
  "attests L (\<lambda>_. \<forall>(dir, prefix) \<in> set pending. accounted d L m dir prefix) (validate_loop d m pending pins)"
proof -
  have "\<exists>cs. made_calls t = made_calls s @ cs
      \<and> (log_of (made_calls s) cs \<subseteq> L \<longrightarrow> (\<forall>(dir, prefix) \<in> set pending. accounted d L m dir prefix))"
    if "validate_loop d m pending pins s = (Done pins', t)" for s t pins'
    using that
  proof (induction d m pending pins s rule: validate_loop.induct)
    case (2 d m dir prefix rest pins s)
    obtain acc u where acc: "validate_directory d m dir prefix pins s = (Done acc, u)"
      using 2(2) by (auto split: prod.splits outcome.splits)
    obtain pins1 found where x: "acc = (pins1, found)" by fastforce
    obtain cs where cs: "made_calls u = made_calls s @ cs"
      "log_of (made_calls s) cs \<subseteq> L \<longrightarrow> gone_through d L m dir prefix (pins1, found)"
      using validate_directory_attests [of L d m dir prefix pins] acc x unfolding attests_def by blast
    have "validate_loop d m (found @ rest) pins1 u = (Done pins', t)" using 2(2) acc x by simp
    then obtain ds where ds: "made_calls t = made_calls u @ ds"
      "log_of (made_calls u) ds \<subseteq> L \<longrightarrow> (\<forall>(dir, prefix) \<in> set (found @ rest). accounted d L m dir prefix)"
      using 2(1) [OF acc [symmetric] refl x [symmetric]] by blast
    have "made_calls t = made_calls s @ cs @ ds" using cs(1) ds(1) by simp
    moreover have "\<forall>(dir', prefix') \<in> set ((dir, prefix) # rest). accounted d L m dir' prefix'"
      if "log_of (made_calls s) (cs @ ds) \<subseteq> L"
      using that cs ds gone_through_accounted [of d L m dir prefix pins1 found] by (auto simp: log_of_append)
    ultimately show ?case by blast
  qed simp
  then show ?thesis unfolding attests_def by blast
qed

subsection \<open>Siblings\<close>

text \<open>
  A sibling is proven when a directory on its way is absent, or when its parent still resolves to itself and it is
  absent or a regular file with a single link.
\<close>

definition sibling_proven :: "disk \<Rightarrow> (world \<times> disk_call) set \<Rightarrow> path \<Rightarrow> staged_artifact \<Rightarrow> bool" where
  "sibling_proven d L root a =
     (let here = artifact_path root a; parent_dir = (case parent here of None \<Rightarrow> here | Some up \<Rightarrow> up)
      in (\<exists>rest n. parent_dir = root @ rest \<and> absent_at d L (root @ take n rest))
         \<or> (\<exists>w. (w, WeaklyCanonical parent_dir) \<in> L \<and> d_weakly_canonical d w parent_dir = Ok parent_dir)
            \<and> (absent_at d L here \<or> proven_entry d L here False))"

lemma attests_tried:
  assumes "steps (calls_in C) m" "attests L (\<lambda>x. Q (Ok x)) m" "\<And>e. Q (Err e)"
  shows "attests L Q (try_action m)"
  unfolding attests_def
proof (intro allI impI)
  fix s x t
  assume run: "try_action m s = (Done x, t)"
  obtain r u where m: "m s = (r, u)" by fastforce
  have u: "u = t" using run m by (auto simp: try_action_def split: outcome.splits)
  show "\<exists>cs. made_calls t = made_calls s @ cs \<and> (log_of (made_calls s) cs \<subseteq> L \<longrightarrow> Q x)"
  proof (cases r)
    case (Done y)
    then have "x = Ok y" "m s = (Done y, t)" using run m u by (simp_all add: try_action_def)
    then show ?thesis using assms(2) unfolding attests_def by blast
  next
    case (Raise e)
    then have "Q x" using run m assms(3) by (auto simp: try_action_def)
    moreover have "calls_in C s t" using stepsD [OF assms(1) m] u by simp
    ultimately show ?thesis by (auto simp: calls_in_def)
  next
    case (Panic p)
    then show ?thesis using run m by (simp add: try_action_def)
  qed
qed

lemma pin_each_attests:
  "attests L (\<lambda>(answer, _). answer = Ok False \<longrightarrow> (\<exists>n. absent_at d L (here @ take n rest)))
    (pin_each d parent_dir here rest pins :: ('e, (staging_error + bool) \<times> pin_map) custody_action)"
proof (induction rest arbitrary: here pins)
  case (Cons c rest)
  show ?case
  proof (cases c)
    case (Normal name)
    let ?next = "here @ [Normal name]"
    let ?Q = "\<lambda>(answer, _). answer = Ok False \<longrightarrow> (\<exists>n. absent_at d L (here @ take n (c # rest)))"
    let ?pin = "pin_each d parent_dir ?next rest :: pin_map \<Rightarrow> ('e, (staging_error + bool) \<times> pin_map) custody_action"
    have further: "attests L ?Q (?pin pins)" for pins
      by (rule attests_mono [OF Cons [of ?next pins]]) (auto simp: Normal intro: exI [of _ "Suc _"])
    have seen: "attests L (\<lambda>found. found = Ok None \<longrightarrow> absent_at d L ?next) (try_action (inspect d ?next))"
      by (rule attests_tried [OF reading_entries(3)], rule attests_mono [OF attests_inspect]) auto
    have absent: "?Q (Ok False, pins)" if "absent_at d L ?next" for pins
      using that by (auto simp: Normal intro!: exI [of _ "Suc 0"])
    have pinned: "attests L ?Q (andThen (try_action (pin_directory d ?next)) (\<lambda>pin. case pin of
         Err e \<Rightarrow> return (Err e, pins) | Ok h \<Rightarrow> ?pin (pins(?next \<mapsto> h))))"
      by (rule attests_after [OF calling.tried [OF reading_entries(1)]])
        (auto intro!: further attests_return split: sum.split)
    show ?thesis
      unfolding Normal pin_each.simps component.case Let_def
    proof (rule attests_branch)
      show "attests L (\<lambda>(answer, _). answer = Ok False \<longrightarrow> (\<exists>n. absent_at d L (here @ take n (Normal name # rest))))
        (?pin pins)"
        using further by (simp add: Normal)
    next
      show "attests L (\<lambda>(answer, _). answer = Ok False \<longrightarrow> (\<exists>n. absent_at d L (here @ take n (Normal name # rest))))
        (andThen (try_action (inspect d ?next)) (\<lambda>found. case found of
             Err e \<Rightarrow> return (Err e, pins)
           | Ok None \<Rightarrow> return (Ok False, pins)
           | Ok (Some m) \<Rightarrow>
               if \<not> meta_is_dir m
               then return (Err (unverified ?next ''A staging artifact parent is not an ordinary directory.''), pins)
               else andThen (try_action (pin_directory d ?next)) (\<lambda>pin. case pin of
                   Err e \<Rightarrow> return (Err e, pins)
                 | Ok h \<Rightarrow> ?pin (pins(?next \<mapsto> h)))))"
        by (rule attests_seq [OF seen])
          (use pinned absent in \<open>auto simp: Normal intro!: attests_return elim!: attests_mono split: sum.split option.split\<close>)
    qed
  qed (auto intro: attests_return)
qed (auto intro: attests_return)

lemma validate_sibling_attests:
  "attests L (\<lambda>_. sibling_proven d L root a) (validate_sibling d root a acc)"
proof -
  obtain pins parents where acc: "acc = (pins, parents)" by fastforce
  let ?here = "artifact_path root a"
  let ?up = "case parent ?here of None \<Rightarrow> ?here | Some up \<Rightarrow> up"
  have parents: "attests L (\<lambda>(answer, _). answer = Ok False \<longrightarrow> (\<exists>rest n. ?up = root @ rest \<and> absent_at d L (root @ take n rest)))
      (pin_parent_directories d root ?up parents :: (halt, (staging_error + bool) \<times> pin_map) custody_action)"
  proof (cases "strip_prefix ?up root")
    case (Some rest)
    show ?thesis
      unfolding pin_parent_directories_def Some option.case
      by (rule attests_mono [OF pin_each_attests]) (use Some in \<open>auto simp: strip_prefix_Some\<close>)
  qed (simp add: pin_parent_directories_def attests_return)
  have resolved: "attests L (\<lambda>p. \<exists>w. (w, WeaklyCanonical ?up) \<in> L \<and> d_weakly_canonical d w ?up = Ok p)
      (or_raise (IoFailed ''Resolve'' ?up) (weakly_canonical d ?up))"
    unfolding weakly_canonical_def by (rule attests_or_raise, rule attests_ask) (auto split: sum.split)
  have file_ok: "attests L (\<lambda>_. (\<exists>w. (w, WeaklyCanonical ?up) \<in> L \<and> d_weakly_canonical d w ?up = Ok ?up) \<longrightarrow> sibling_proven d L root a)
     (andThen (halting (inspect d ?here)) (\<lambda>seen.
             case seen of
               None \<Rightarrow> return (pins, parents)
             | Some meta \<Rightarrow>
                 if \<not> meta_is_file meta
                 then raise (HaltFailed (unverified ?here ''A sibling Asset staging artifact is not a regular file.''))
                 else andThen (halting (opened (open_temporary_file d ?here))) (\<lambda>h.
                   return (pins(pin_key_of a \<mapsto> h), parents))))" for parents
  proof (rule attests_seq [OF attests_mapped(2) [OF attests_inspect]])
    fix seen
    let ?seen = "case seen of None \<Rightarrow> absent_at d L ?here | Some m \<Rightarrow> found_at d L ?here m \<and> (meta_is_dir m \<or> meta_is_file m)"
    show "attests L (\<lambda>_. ?seen \<longrightarrow> (\<exists>w. (w, WeaklyCanonical ?up) \<in> L \<and> d_weakly_canonical d w ?up = Ok ?up) \<longrightarrow> sibling_proven d L root a)
      (case seen of None \<Rightarrow> return (pins, parents)
             | Some meta \<Rightarrow>
                 if \<not> meta_is_file meta
                 then raise (HaltFailed (unverified ?here ''A sibling Asset staging artifact is not a regular file.''))
                 else andThen (halting (opened (open_temporary_file d ?here))) (\<lambda>h.
                   return (pins(pin_key_of a \<mapsto> h), parents)))"
      by (cases seen)
        (auto intro!: attests_return attests_raise attests_seq [OF attests_mapped(2) [OF attests_mapped(3) [OF attests_pin(2)]]]
          simp: sibling_proven_def Let_def proven_entry_def)
  qed
  show ?thesis
    unfolding validate_sibling_def acc prod.case Let_def
  proof (rule attests_after [OF reading_observe], rule attests_seq [OF parents])
    fix answered :: "(staging_error + bool) \<times> pin_map"
    obtain answer parents where answered: "answered = (answer, parents)" by fastforce
    consider (failed) e where "answer = Err e" | (gone) "answer = Ok False" | (there) "answer = Ok True"
      by (metis sum.exhaust)
    then show "attests L (\<lambda>y. (case answered of (answer, _) \<Rightarrow> answer = Ok False \<longrightarrow> (\<exists>rest n. ?up = root @ rest \<and> absent_at d L (root @ take n rest)))
         \<longrightarrow> sibling_proven d L root a)
       (case answered of (answer, parents) \<Rightarrow> case answer of
         Err e \<Rightarrow> raise (HaltFailed e)
       | Ok False \<Rightarrow> return (pins, parents)
       | Ok True \<Rightarrow>
           andThen (halting (or_raise (IoFailed ''Resolve'' ?up) (weakly_canonical d ?up))) (\<lambda>resolved.
           if resolved \<noteq> ?up
           then raise (HaltFailed (unverified ?here ''A sibling Asset staging parent changed during recovery.''))
           else andThen (halting (inspect d ?here)) (\<lambda>seen.
             case seen of
               None \<Rightarrow> return (pins, parents)
             | Some meta \<Rightarrow>
                 if \<not> meta_is_file meta
                 then raise (HaltFailed (unverified ?here ''A sibling Asset staging artifact is not a regular file.''))
                 else andThen (halting (opened (open_temporary_file d ?here))) (\<lambda>h.
                   return (pins(pin_key_of a \<mapsto> h), parents)))))"
    proof cases
      case there
      show ?thesis
        unfolding answered there prod.case sum.case bool.case
        by (rule attests_seq [OF attests_mapped(2) [OF resolved]])
          (auto intro!: attests_raise attests_mono [OF file_ok])
    qed (auto simp: answered sibling_proven_def Let_def intro: attests_raise attests_return)
  qed
qed

lemma validate_tree_attests:
  "attests L (\<lambda>_. accounted d L m (staging_path root) []
      \<and> (\<forall>a \<in> set (man_artifacts m). root_relative a \<longrightarrow> sibling_proven d L root a)) (validate_tree d root m)"
  unfolding validate_tree_def
proof (rule attests_after)
  show "steps (calls_in reading) (for_each (\<lambda>_. andThen observe (\<lambda>_. return None)) (man_artifacts m)
      :: (halt, unit option) custody_action)"
    by (auto intro!: calls_rules reading_observe)
next
  fix none :: "unit option"
  have siblings: "attests L (\<lambda>acc. (\<forall>a \<in> set (filter root_relative (man_artifacts m)). sibling_proven d L root a)
        \<and> (\<forall>a. sibling_proven d L root a \<longrightarrow> sibling_proven d L root a))
      (fold_each (validate_sibling d root) (filter root_relative (man_artifacts m)) (pins, Map.empty))" for pins
    by (rule attests_fold, rule attests_mono [OF validate_sibling_attests]) auto
  show "attests L (\<lambda>_. accounted d L m (staging_path root) []
      \<and> (\<forall>a \<in> set (man_artifacts m). root_relative a \<longrightarrow> sibling_proven d L root a))
     (andThen (validate_loop d m [(staging_path root, [])] Map.empty) (\<lambda>pins.
     andThen (fold_each (validate_sibling d root) (filter root_relative (man_artifacts m)) (pins, Map.empty)) (\<lambda>(pins, _).
     return pins)))"
    by (rule attests_seq [OF validate_loop_attests], rule attests_seq [OF siblings])
      (auto intro!: attests_return split: prod.split)
qed

subsection \<open>The area as a whole\<close>

text \<open>The lock was opened sharing with nobody, and is an ordinary file.\<close>

definition lock_claimed :: "disk \<Rightarrow> (world \<times> disk_call) set \<Rightarrow> path \<Rightarrow> bool" where
  "lock_claimed d L p =
     ((\<exists>w. (w, OpenFile p open_lock) \<in> L \<and> d_open d w p open_lock = Ok ()) \<and> pinned_at d L p False)"

text \<open>The manifest was read from a pinned file, within its limit, and accepted for this very root.\<close>

definition manifest_accepted :: "disk \<Rightarrow> (world \<times> disk_call) set \<Rightarrow> path \<Rightarrow> manifest \<Rightarrow> bool" where
  "manifest_accepted d L root m =
     (\<exists>w h bytes shown t t'. (w, ReadFile h) \<in> L \<and> handle_path h = staging_path root @ [Normal manifest_name]
        \<and> pinned_at d L (handle_path h) False
        \<and> read_to_limit (manifest_byte_limit + 1) [] (d_reads d w h) = Ok bytes \<and> length bytes \<le> manifest_byte_limit
        \<and> generic_utf8 root = Ok shown \<and> parse_manifest bytes shown t = (Ok m, t'))"

text \<open>The root was listed, and each staging-like name in it is the reserved directory or a recorded sibling.\<close>

definition names_recorded :: "disk \<Rightarrow> (world \<times> disk_call) set \<Rightarrow> path \<Rightarrow> manifest \<Rightarrow> bool" where
  "names_recorded d L root m =
     (\<exists>w entries. (w, ListDir root) \<in> L \<and> d_list d w root = Ok entries
        \<and> (\<forall>entry \<in> set entries. listed entry \<longrightarrow> (\<exists>name. entry = Ok name
             \<and> (is_staging_name name \<and> name \<noteq> staging_directory \<longrightarrow>
                  (\<exists>a \<in> set (man_artifacts m). root_relative a \<and> artifact_path root a = root @ [Normal name])))))"

definition area_proven :: "disk \<Rightarrow> (world \<times> disk_call) set \<Rightarrow> path \<Rightarrow> manifest \<Rightarrow> bool" where
  "area_proven d L root m =
     (lock_claimed d L (staging_path root @ [Normal owner_lock]) \<and> manifest_accepted d L root m
      \<and> names_recorded d L root m \<and> accounted d L m (staging_path root) []
      \<and> (\<forall>a \<in> set (man_artifacts m). root_relative a \<longrightarrow> sibling_proven d L root a))"

lemma attests_lock: "attests L (\<lambda>_. lock_claimed d L p) (claim_lock d open_lock p)"
proof -
  have handed: "attests L (\<lambda>h. handle_path h = p \<and> (\<exists>w. (w, OpenFile p open_lock) \<in> L \<and> d_open d w p open_lock = Ok ()))
      (or_raise f (open_file d open_lock p))" for f
    unfolding open_file_def by (rule attests_or_raise, rule attests_ask) (auto split: sum.split)
  have seen: "attests L (\<lambda>facts. \<exists>w. (w, FactsOf h) \<in> L \<and> d_facts d w h = Ok facts) (or_raise f (facts_of d h))" for h f
    by (rule attests_or_raise, rule attests_mono [OF attests_facts]) (auto split: sum.split)
  show ?thesis
    unfolding claim_lock_def claim_owner_lock_def
    by (rule attests_mapped, rule attests_seq [OF handed], rule attests_seq [OF seen],
        rule attests_branch, rule attests_raise, rule attests_return) (auto simp: lock_claimed_def pinned_at_def)
qed

lemma attests_manifest:
  assumes "generic_utf8 root = Ok shown" "handle_path pin = staging_path root @ [Normal manifest_name]" "pinned_at d L (handle_path pin) False"
  shows "attests L (manifest_accepted d L root) (read_manifest d pin p shown)"
proof -
  have got: "attests L (\<lambda>bytes. \<exists>w. (w, ReadFile pin) \<in> L \<and> read_to_limit (manifest_byte_limit + 1) [] (d_reads d w pin) = Ok bytes)
      (or_raise f (ask_disk (ReadFile pin) (\<lambda>w. read_to_limit (manifest_byte_limit + 1) [] (d_reads d w pin))))" for f
    by (rule attests_or_raise, rule attests_ask) (auto split: sum.split)
  have parsed: "attests L (\<lambda>m. \<exists>t t'. parse_manifest bytes shown t = (Ok m, t'))
     (\<lambda>s. case parse_manifest bytes shown (stop_token s) of
         (Ok m, t) \<Rightarrow> (Done m, s\<lparr>stop_token := t\<rparr>)
       | (Err RejCancelled, t) \<Rightarrow> (Raise HaltCancelled, s\<lparr>stop_token := t\<rparr>)
       | (Err (RejInvalid what), t) \<Rightarrow> (Raise (HaltFailed (unverified p what)), s\<lparr>stop_token := t\<rparr>))" for bytes
    unfolding attests_def by (auto split: prod.splits sum.splits rejection.splits)
  show ?thesis
    unfolding read_manifest_def
  proof (rule attests_seq [OF attests_mapped(2) [OF got]], rule attests_branch, rule attests_raise)
    fix bytes :: string
    assume "\<not> manifest_byte_limit < length bytes"
    then show "attests L (\<lambda>m. (\<exists>w. (w, ReadFile pin) \<in> L \<and> read_to_limit (manifest_byte_limit + 1) [] (d_reads d w pin) = Ok bytes)
        \<longrightarrow> manifest_accepted d L root m)
     (\<lambda>s. case parse_manifest bytes shown (stop_token s) of
         (Ok m, t) \<Rightarrow> (Done m, s\<lparr>stop_token := t\<rparr>)
       | (Err RejCancelled, t) \<Rightarrow> (Raise HaltCancelled, s\<lparr>stop_token := t\<rparr>)
       | (Err (RejInvalid what), t) \<Rightarrow> (Raise (HaltFailed (unverified p what)), s\<lparr>stop_token := t\<rparr>))"
      by (intro attests_mono [OF parsed]) (use assms in \<open>fastforce simp: manifest_accepted_def not_less\<close>)
  qed
qed

lemma generic_gives: "gives (\<lambda>text. generic_utf8 root = Ok text) (generic root)"
  unfolding generic_def by (rule gives_or_raise) (auto intro: gives_return split: sum.split)

definition area_known :: "disk \<Rightarrow> (world \<times> disk_call) set \<Rightarrow> path \<Rightarrow> path list \<Rightarrow> manifest \<Rightarrow> bool" where
  "area_known d L root unknown m =
     (lock_claimed d L (staging_path root @ [Normal owner_lock]) \<and> manifest_accepted d L root m
      \<and> (\<forall>p \<in> set unknown. \<exists>a \<in> set (man_artifacts m). root_relative a \<and> artifact_path root a = p)
      \<and> accounted d L m (staging_path root) []
      \<and> (\<forall>a \<in> set (man_artifacts m). root_relative a \<longrightarrow> sibling_proven d L root a))"

lemma prove_area_attests:
  "attests L (\<lambda>(staging_pin, lock, m, pins). area_known d L root unknown m) (prove_area d root unknown)"
proof -
  let ?Q = "\<lambda>(staging_pin :: handle, lock :: handle, m, pins :: pins). area_known d L root unknown m"
  let ?lock = "lock_claimed d L (staging_path root @ [Normal owner_lock])"
  let ?searched = "\<lambda>sp lock m. case find (\<lambda>p. \<not> list_ex (\<lambda>a. root_relative a \<and> artifact_path root a = p) (man_artifacts m)) unknown of
        Some p \<Rightarrow> raise (unknown_name p)
      | None \<Rightarrow> andThen (validate_tree d root m) (\<lambda>pins. return (sp, lock, m, pins))"
  have searched: "attests L (\<lambda>y. ?lock \<longrightarrow> manifest_accepted d L root m \<longrightarrow> ?Q y) (?searched sp lock m)" for sp lock m
  proof (cases "find (\<lambda>p. \<not> list_ex (\<lambda>a. root_relative a \<and> artifact_path root a = p) (man_artifacts m)) unknown")
    case None
    then have "\<forall>p \<in> set unknown. \<exists>a \<in> set (man_artifacts m). root_relative a \<and> artifact_path root a = p"
      by (auto simp: find_None_iff list_ex_iff)
    then show ?thesis
      unfolding None option.case
      by (intro attests_seq [OF validate_tree_attests] attests_return) (auto simp: area_known_def)
  qed (simp add: attests_raise)
  have manifest: "attests L (\<lambda>y. ?lock \<longrightarrow> handle_path pin = staging_path root @ [Normal manifest_name] \<and> pinned_at d L (staging_path root @ [Normal manifest_name]) False \<longrightarrow> ?Q y)
     (andThen (halting (generic root)) (\<lambda>shown. andThen (read_manifest d pin p shown) (\<lambda>m. ?searched sp lock m)))" for pin p sp lock
  proof (rule attests_seq [OF attests_gives [OF reading_halting(1) [OF reading_generic] gives_halting [OF generic_gives]]])
    fix shown
    show "attests L (\<lambda>y. generic_utf8 root = Ok shown \<longrightarrow> ?lock \<longrightarrow> handle_path pin = staging_path root @ [Normal manifest_name] \<and> pinned_at d L (staging_path root @ [Normal manifest_name]) False \<longrightarrow> ?Q y)
      (andThen (read_manifest d pin p shown) (\<lambda>m. ?searched sp lock m))"
    proof (cases "generic_utf8 root = Ok shown \<and> handle_path pin = staging_path root @ [Normal manifest_name] \<and> pinned_at d L (handle_path pin) False")
      case True
      then show ?thesis
        by (intro attests_seq [OF attests_manifest] attests_mono [OF searched]) auto
    next
      case False
      then show ?thesis
        by (intro attests_after [OF reading_manifest] attests_mono [OF searched]) auto
    qed
  qed
  show ?thesis
    unfolding prove_area_def Let_def
    by (rule attests_after [OF reading_halting(1) [OF reading_halting(2) [OF reading_entries(1)]]],
        rule attests_after [OF reading_halting(1) [OF reading_entries(3)]], rule attests_branch, rule attests_raise,
        rule attests_seq [OF attests_mapped(2) [OF attests_lock]], rule attests_seq [OF attests_mapped(2) [OF attests_pin(3)]])
      (rule attests_mono [OF manifest], auto)
qed

subsection \<open>Looking, then removing\<close>

text \<open>What recovery does before it removes anything, with what it is to hold and to remove.\<close>

definition recovery_look :: "disk \<Rightarrow> path \<Rightarrow> (halt, (handle list \<times> handle list \<times> manifest \<times> pins) option) custody_action" where
  "recovery_look d root =
     andThen observe (\<lambda>_.
     andThen (read_state (area_at root)) (\<lambda>known.
     if known \<noteq> None then return None
     else
       andThen (halting (opened (pin_directory d root))) (\<lambda>root_pin.
       andThen (halting (or_raise (IoFailed ''Read'' root) (read_dir d root))) (\<lambda>entries.
       andThen (fold_each (note_unknown root) entries []) (\<lambda>unknown.
       andThen (halting (inspect d (staging_path root))) (\<lambda>seen.
       case seen of
         None \<Rightarrow>
           (case unknown of p # _ \<Rightarrow> raise (unknown_name p) | [] \<Rightarrow> andThen (hold [root_pin] []) (\<lambda>_. return None))
       | Some meta \<Rightarrow>
           if \<not> meta_is_dir meta
           then raise (HaltFailed (unverified (staging_path root) ''The reserved staging name is not a directory.''))
           else andThen (prove_area d root unknown) (\<lambda>(staging_pin, lock, m, pins).
             return (Some ([root_pin, staging_pin], [lock], m, pins)))))))))"

lemma andThen_assoc: "andThen (andThen m f) g = andThen m (\<lambda>x. andThen (f x) g)"
  by (auto simp: andThen_def split: prod.split outcome.split)

lemma andThen_unit: "andThen m return = m" and andThen_branch: "andThen (if b then m else n) f = (if b then andThen m f else andThen n f)"
  by (auto simp: andThen_def run_simps split: prod.split outcome.split)

lemma recover_looks:
  "recover d root = andThen (recovery_look d root) (\<lambda>found. case found of None \<Rightarrow> return ()
     | Some (held, locks, m, pins) \<Rightarrow> andThen (hold held locks) (\<lambda>_. remove_area d root m pins))"
  (is "_ = andThen _ ?finish")
proof -
  have proving: "andThen (prove_area d root unknown) (\<lambda>x. andThen (case x of (staging_pin, lock, m, pins) \<Rightarrow>
        return (Some ([root_pin, staging_pin], [lock], m, pins))) ?finish)
      = andThen (prove_area d root unknown) (\<lambda>(staging_pin, lock, m, pins).
          andThen (hold [root_pin, staging_pin] [lock]) (\<lambda>_. remove_area d root m pins))" for unknown root_pin
    by (rule arg_cong [where f = "andThen _"]) (auto split: prod.split)
  have unknown_case: "andThen (case unknown of [] \<Rightarrow> andThen (hold [root_pin] []) (\<lambda>_. return None) | p # _ \<Rightarrow> raise (unknown_name p)) ?finish
      = (case unknown of [] \<Rightarrow> hold [root_pin] [] | p # _ \<Rightarrow> raise (unknown_name p))" for unknown root_pin
    by (cases unknown) (simp_all add: andThen_assoc andThen_unit)
  have seen_case: "andThen (case seen of None \<Rightarrow> n | Some meta \<Rightarrow> f meta) ?finish
      = (case seen of None \<Rightarrow> andThen n ?finish | Some meta \<Rightarrow> andThen (f meta) ?finish)"
    for seen :: "metadata option" and n f
    by (cases seen) simp_all
  show ?thesis
    unfolding recover_def recovery_look_def andThen_assoc andThen_branch seen_case unknown_case proving andThen_basic option.case ..
qed

lemma reading_look: "steps (calls_in reading) (recovery_look d root)"
proof -
  have noted: "steps (calls_in reading) (fold_each (note_unknown root) entries [])" for entries
    by (rule calling.folded) (auto simp: note_unknown_def intro!: calls_rules reading_observe split: sum.split)
  have held: "steps (calls_in reading) (hold hs ls)" for hs ls
    unfolding hold_def by (rule calls_change) simp
  have entries: "steps (calls_in reading) (or_raise (IoFailed ''Read'' root) (read_dir d root))"
    unfolding read_dir_def by (intro calls_rules) simp
  show ?thesis
    unfolding recovery_look_def
    by (auto intro!: calling.rules reading_observe reading_halting reading_entries noted held entries reading_prove_area
        split: option.split list.split)
qed

lemma note_unknown_attests:
  "attests L (\<lambda>unknown. (\<exists>name. entry = Ok name \<and> (is_staging_name name \<and> name \<noteq> staging_directory \<longrightarrow> root @ [Normal name] \<in> set unknown))
      \<and> set acc \<subseteq> set unknown) (note_unknown root entry acc)"
  unfolding note_unknown_def
  by (rule attests_after [OF reading_observe]) (auto intro!: attests_raise attests_return split: sum.split)

lemma prove_area_named: "gives (\<lambda>(staging_pin, lock, m, pins). pins_named root m pins) (prove_area d root unknown)"
proof -
  have tree: "gives (\<lambda>(staging_pin, lock, m, pins). pins_named root m pins)
      (andThen (validate_tree d root m) (\<lambda>pins. return (sp, lock, m, pins)))" for m and sp lock :: handle
    by (rule gives_andThen [OF validate_tree_named], rule gives_return) simp
  show ?thesis
    unfolding prove_area_def Let_def
    by (rule gives_after, rule gives_after, simp, intro conjI impI gives_raise gives_after)
      (auto intro: gives_raise tree split: option.split)
qed

lemma recovery_look_attests:
  "attests L (\<lambda>found. case found of None \<Rightarrow> True
     | Some (held, locks, m, pins) \<Rightarrow> area_proven d L root m \<and> pins_named root m pins) (recovery_look d root)"
proof -
  let ?Q = "\<lambda>found. case found of None \<Rightarrow> True
     | Some (held :: handle list, locks :: handle list, m, pins) \<Rightarrow> area_proven d L root m \<and> pins_named root m pins"
  let ?noted = "\<lambda>unknown entry. \<exists>name. entry = Ok name
      \<and> (is_staging_name name \<and> name \<noteq> staging_directory \<longrightarrow> root @ [Normal name] \<in> set unknown)"
  let ?names = "\<lambda>unknown. \<exists>w all. (w, ListDir root) \<in> L \<and> d_list d w root = Ok all
      \<and> (\<forall>entry \<in> set all. listed entry \<longrightarrow> ?noted unknown entry)"
  have area: "attests L (\<lambda>y. ?names unknown \<longrightarrow> ?Q y) (andThen (prove_area d root unknown) (\<lambda>(staging_pin, lock, m, pins).
       return (Some ([root_pin, staging_pin], [lock], m, pins))))" for unknown root_pin
  proof -
    have both: "attests L (\<lambda>(staging_pin, lock, m, pins). area_known d L root unknown m \<and> pins_named root m pins) (prove_area d root unknown)"
      using prove_area_attests [of L d root unknown] givesD [OF prove_area_named [of root d unknown]]
      unfolding attests_def by fastforce
    have known: "area_proven d L root m" if names: "?names unknown" and area: "area_known d L root unknown m" for m
    proof -
      obtain w all where all: "(w, ListDir root) \<in> L" "d_list d w root = Ok all"
        "\<forall>entry \<in> set all. listed entry \<longrightarrow> ?noted unknown entry"
        using names by blast
      have recorded: "\<forall>p \<in> set unknown. \<exists>a \<in> set (man_artifacts m). root_relative a \<and> artifact_path root a = p"
        using area by (simp add: area_known_def)
      have "names_recorded d L root m"
        unfolding names_recorded_def
      proof (rule exI [of _ w], rule exI [of _ all], intro conjI ballI impI)
        fix entry
        assume "entry \<in> set all" "listed entry"
        then obtain name where "entry = Ok name" "is_staging_name name \<and> name \<noteq> staging_directory \<longrightarrow> root @ [Normal name] \<in> set unknown"
          using all(3) by blast
        then show "\<exists>name. entry = Ok name \<and> (is_staging_name name \<and> name \<noteq> staging_directory \<longrightarrow>
            (\<exists>a \<in> set (man_artifacts m). root_relative a \<and> artifact_path root a = root @ [Normal name]))"
          using recorded by blast
      qed (rule all)+
      then show ?thesis using area by (simp add: area_proven_def area_known_def)
    qed
    show ?thesis
    proof (rule attests_seq [OF both])
      fix x :: "handle \<times> handle \<times> manifest \<times> pins"
      obtain sp lock m pins where x: "x = (sp, lock, m, pins)" by (metis prod.exhaust)
      show "attests L (\<lambda>y. (case x of (staging_pin, lock, m, pins) \<Rightarrow> area_known d L root unknown m \<and> pins_named root m pins)
          \<longrightarrow> ?names unknown \<longrightarrow> ?Q y)
        (case x of (staging_pin, lock, m, pins) \<Rightarrow> return (Some ([root_pin, staging_pin], [lock], m, pins)))"
        unfolding x prod.case by (rule attests_return) (use known in \<open>simp del: not_all ex_simps\<close>)
    qed
  qed
  have noted: "attests L (\<lambda>unknown. \<forall>entry \<in> set entries. ?noted unknown entry) (fold_each (note_unknown root) entries [])" for entries
    by (rule attests_mono [OF attests_fold [where K = "\<lambda>entry unknown. ?noted unknown entry"]],
        rule attests_mono [OF note_unknown_attests]) auto
  have entries: "attests L (\<lambda>entries. \<exists>w all. (w, ListDir root) \<in> L \<and> d_list d w root = Ok all \<and> entries = filter listed all)
      (halting (or_raise (IoFailed ''Read'' root) (read_dir d root)))"
    by (rule attests_mapped(2) [OF attests_listing])
  have held: "attests L Q (andThen (hold hs ls) (\<lambda>_. return x))" if "Q x" for Q hs ls
    and x :: "(handle list \<times> handle list \<times> manifest \<times> pins) option"
    using that by (simp add: attests_def hold_def andThen_def run_simps)
  have last: "attests L (\<lambda>y. ?names unknown \<longrightarrow> ?Q y) (case seen of
         None \<Rightarrow>
           (case unknown of p # _ \<Rightarrow> raise (unknown_name p) | [] \<Rightarrow> andThen (hold [root_pin] []) (\<lambda>_. return None))
       | Some meta \<Rightarrow>
           if \<not> meta_is_dir meta
           then raise (HaltFailed (unverified (staging_path root) ''The reserved staging name is not a directory.''))
           else andThen (prove_area d root unknown) (\<lambda>(staging_pin, lock, m, pins).
             return (Some ([root_pin, staging_pin], [lock], m, pins))))" for seen unknown root_pin
    using area by (auto intro!: held attests_raise split: option.split list.split)
  have searched: "attests L ?Q (andThen (halting (or_raise (IoFailed ''Read'' root) (read_dir d root))) (\<lambda>entries.
       andThen (fold_each (note_unknown root) entries []) (\<lambda>unknown.
       andThen (halting (inspect d (staging_path root))) (\<lambda>seen. case seen of
         None \<Rightarrow>
           (case unknown of p # _ \<Rightarrow> raise (unknown_name p) | [] \<Rightarrow> andThen (hold [root_pin] []) (\<lambda>_. return None))
       | Some meta \<Rightarrow>
           if \<not> meta_is_dir meta
           then raise (HaltFailed (unverified (staging_path root) ''The reserved staging name is not a directory.''))
           else andThen (prove_area d root unknown) (\<lambda>(staging_pin, lock, m, pins).
             return (Some ([root_pin, staging_pin], [lock], m, pins)))))))" for root_pin
    by (rule attests_seq [OF entries], rule attests_seq [OF noted],
        rule attests_after [OF reading_halting(1) [OF reading_entries(3)]], rule attests_mono [OF last]) auto
  show ?thesis
    unfolding recovery_look_def
    by (rule attests_after [OF reading_observe], rule attests_after [OF calling.pure(4)], rule attests_branch,
        rule attests_return, simp, rule attests_after [OF reading_halting(1) [OF reading_halting(2) [OF reading_entries(1)]]])
      (rule searched)
qed

text \<open>Looking first, then removals of what the manifest of a proven area records.\<close>

definition proven_removal :: "disk \<Rightarrow> path \<Rightarrow> custody \<Rightarrow> custody \<Rightarrow> bool" where
  "proven_removal d root s s' =
     (\<exists>looked removed. made_calls s' = made_calls s @ looked @ removed \<and> list_all reading looked
        \<and> (removed = [] \<or> (\<exists>m. area_proven d (log_of (made_calls s) looked) root m
             \<and> list_all (recovery_removal root m) removed)))"

lemma proven_removal_looked: "calls_in reading s s' \<Longrightarrow> proven_removal d root s s'"
  unfolding calls_in_def proven_removal_def by (elim exE conjE) (rule exI, rule exI [of _ "[]"], auto)

lemma recover_proven: "steps (proven_removal d root) (recover d root)"
proof (rule stepsI)
  fix s o' u
  assume run: "recover d root s = (o', u)"
  obtain r t where look: "recovery_look d root s = (r, t)" by fastforce
  have looked: "calls_in reading s t" by (rule stepsD [OF reading_look look])
  let ?finish = "\<lambda>found. case found of None \<Rightarrow> return ()
     | Some (held, locks, m, pins) \<Rightarrow> andThen (hold held locks) (\<lambda>_. remove_area d root m pins)"
  have finish: "andThen (recovery_look d root) ?finish s = (o', u)" using run recover_looks [of d root] by simp
  show "proven_removal d root s u"
  proof (cases "\<exists>held locks m pins. r = Done (Some (held, locks, m, pins))")
    case False
    then have "u = t"
      using look finish by (cases r) (auto simp: andThen_apply run_simps split: option.splits)
    then show ?thesis using proven_removal_looked [OF looked] by simp
  next
    case True
    then obtain held locks m pins where r: "r = Done (Some (held, locks, m, pins))" by blast
    obtain cs where cs: "made_calls t = made_calls s @ cs" "list_all reading cs" using looked unfolding calls_in_def by blast
    let ?L = "log_of (made_calls s) cs"
    have "area_proven d ?L root m \<and> pins_named root m pins"
      using recovery_look_attests [of ?L d root] look r cs(1) unfolding attests_def by force
    then have proven: "area_proven d ?L root m" and named: "pins_named root m pins" by blast+
    have "andThen (recovery_look d root) ?finish s = ?finish (Some (held, locks, m, pins)) t"
      by (rule andThen_simps(1)) (use look r in simp)
    then have "andThen (hold held locks) (\<lambda>_. remove_area d root m pins) t = (o', u)"
      using finish by simp
    moreover have "steps (calls_in (recovery_removal root m)) (andThen (hold held locks) (\<lambda>_. remove_area d root m pins))"
      by (rule calling.seq) (auto simp: hold_def intro!: calls_change remove_area_calls named)
    ultimately have "calls_in (recovery_removal root m) t u" by (rule stepsD [rotated])
    then obtain ds where ds: "made_calls u = made_calls t @ ds" "list_all (recovery_removal root m) ds"
      unfolding calls_in_def by blast
    show ?thesis
      unfolding proven_removal_def using cs ds proven by (intro exI [of _ cs] exI [of _ ds]) auto
  qed
qed

lemma artifact_reserved:
  assumes "parse_manifest input text t = (Ok m, t')"
  obtains child where "\<And>a. a \<in> set (man_artifacts m) \<Longrightarrow>
      \<exists>names. artifact_path root a = root @ map Normal names \<and> reserved_below child names"
proof -
  obtain run_id child where m: "valid_run_id run_id" "child_matches run_id child"
    "admitted (man_version m) run_id child 0 Map.empty {} (man_artifacts m)"
    by (rule parse_manifest_admitted [OF assms])
  have "\<exists>names. artifact_path root a = root @ map Normal names \<and> reserved_below child names"
    if "a \<in> set (man_artifacts m)" for a
    using contained_reserved [OF m(1,2), of a root] admitted_contained [OF m(3)] that
    unfolding list_all_iff by metis
  then show thesis by (rule that)
qed

definition in_reserved_name :: "path \<Rightarrow> string \<Rightarrow> path \<Rightarrow> bool" where
  "in_reserved_name root child p =
     (p = staging_path root @ [Normal manifest_scratch]
      \<or> (\<exists>names. p = root @ map Normal names \<and> reserved_below child names))"

lemma proven_reserved:
  assumes "area_proven d L root m"
  obtains child where "\<And>c. recovery_removal root m c \<Longrightarrow>
      case removed_path c of None \<Rightarrow> True | Some p \<Rightarrow> in_reserved_name root child p"
proof -
  obtain bytes shown t t' where "parse_manifest bytes shown t = (Ok m, t')"
    using assms unfolding area_proven_def manifest_accepted_def by blast
  then obtain child where child: "\<And>a. a \<in> set (man_artifacts m) \<Longrightarrow>
      \<exists>names. artifact_path root a = root @ map Normal names \<and> reserved_below child names"
    by (rule artifact_reserved) blast
  have "case removed_path c of None \<Rightarrow> True | Some p \<Rightarrow> in_reserved_name root child p" if "recovery_removal root m c" for c
    using that by (cases c) (auto simp: in_reserved_name_def dest!: child)
  then show thesis by (rule that)
qed

text \<open>
  C32: Recovery of a Mod Root first only looks (metadata, listings, opened handles, reads), and it deletes only once the
  whole area is proven by the answers it got: the owner lock was claimed, the manifest was read through a pinned handle
  and accepted for this very root, every staging-like name of the root and every entry of the control area, all the
  way down, is a control or a record of the manifest and was found and opened as the type recorded, and every recorded
  sibling is a regular file in its unchanged parent or absent. Then it deletes only entries that manifest records, a
  record's kind deciding how; every path it removes is the manifest's scratch file or a name reserved for staging.
\<close>

theorem recovery_removes_only_proven_entries:
  "\<exists>looked removed child.
     made_calls (snd (recover d root s)) = made_calls s @ looked @ removed
     \<and> list_all reading looked
     \<and> (removed = [] \<or> (\<exists>m. area_proven d (log_of (made_calls s) looked) root m \<and> list_all (recovery_removal root m) removed))
     \<and> list_all (\<lambda>c. case removed_path c of None \<Rightarrow> True | Some p \<Rightarrow> in_reserved_name root child p) removed"
proof -
  obtain looked removed where calls: "made_calls (snd (recover d root s)) = made_calls s @ looked @ removed"
    "list_all reading looked"
    "removed = [] \<or> (\<exists>m. area_proven d (log_of (made_calls s) looked) root m \<and> list_all (recovery_removal root m) removed)"
    using recover_proven [of d root] unfolding steps_def proven_removal_def by blast
  have "\<exists>child. list_all (\<lambda>c. case removed_path c of None \<Rightarrow> True | Some p \<Rightarrow> in_reserved_name root child p) removed"
  proof (cases "removed = []")
    case False
    then obtain m where m: "area_proven d (log_of (made_calls s) looked) root m" "list_all (recovery_removal root m) removed"
      using calls(3) by blast
    obtain child where "\<And>c. recovery_removal root m c \<Longrightarrow>
        case removed_path c of None \<Rightarrow> True | Some p \<Rightarrow> in_reserved_name root child p"
      using proven_reserved [OF m(1)] by blast
    then show ?thesis using m(2) unfolding list_all_iff by blast
  qed simp
  then show ?thesis using calls by blast
qed

end
