(* ===== verification/Artifacts.thy ===== *)
theory Artifacts
  imports StagingProof
begin

text \<open>
  Temporary Ownership (\<open>run/artifacts.rs\<close>): the registry of temporary artifacts, what a destination looked
  like before its producer loaded it, and publication through one-use receipts. A receipt is used once,
  so it is an argument; whether its registry still lives, the source's \<open>Weak::upgrade\<close>, is an argument too.
\<close>

unbundle bit_operations_syntax

datatype publication_policy = PolicyReplace | PolicyNoReplace

record registration =
  registration_registry :: nat
  registration_index :: nat

record staged_file =
  staged_path :: path
  staged_registration :: registration

subsection \<open>Destinations\<close>

record snapshot =
  snap_identity :: file_identity
  snap_facts :: file_facts
  snap_fingerprint :: "64 word"

definition same_snapshot :: "snapshot \<Rightarrow> snapshot \<Rightarrow> bool" where
  "same_snapshot a b =
     (snap_identity a = snap_identity b \<and> unchanged_since (snap_facts a) (snap_facts b)
      \<and> snap_fingerprint a = snap_fingerprint b)"

fun same_leaf :: "snapshot option \<Rightarrow> snapshot option \<Rightarrow> bool" where
  "same_leaf None None = True"
| "same_leaf (Some a) (Some b) = same_snapshot a b"
| "same_leaf _ _ = False"

definition ambiguous_windows_name :: "string \<Rightarrow> bool" where
  "ambiguous_windows_name name =
     (name = [] \<or> ends_with_char (\<lambda>c. c = CHR ''.'') name \<or> ends_with_char (\<lambda>c. c = CHR '' '') name
      \<or> list_ex forbidden_char name \<or> reserved_device_name name)"

text \<open>FNV-1a over the bytes a reader yields; \<open>Ok(0)\<close> ends it, an interrupted read is repeated.\<close>

definition fnv_byte :: "64 word \<Rightarrow> char \<Rightarrow> 64 word" where
  "fnv_byte hash c = (hash XOR word_of_int (byte c)) * 1099511628211"

definition fnv_basis :: "64 word" where
  "fnv_basis = 14695981039346656037"

fun fingerprint_loop :: "read_answer list \<Rightarrow> 64 word \<Rightarrow> 64 word \<Rightarrow> io_error + 64 word \<times> 64 word" where
  "fingerprint_loop [] bytes_read hash = Ok (bytes_read, hash)"
| "fingerprint_loop (ReadBytes bytes # rest) bytes_read hash =
     (if bytes = [] then Ok (bytes_read, hash)
      else fingerprint_loop rest (bytes_read + of_nat (length bytes)) (foldl fnv_byte hash bytes))"
| "fingerprint_loop (ReadError e # rest) bytes_read hash =
     (if io_kind e = KindInterrupted then fingerprint_loop rest bytes_read hash else Err e)"

definition fingerprint :: "disk \<Rightarrow> handle \<Rightarrow> ('e, io_error + 64 word \<times> 64 word) custody_action" where
  "fingerprint d h = ask_disk (ReadFile h) (\<lambda>w. fingerprint_loop (d_reads d w h) 0 fnv_basis)"

definition destination_snapshot :: "disk \<Rightarrow> path \<Rightarrow> (staging_error, snapshot option) custody_action" where
  "destination_snapshot d p =
     andThen (open_file d (for_directory (open_new [ReadData, ReadAttributes] [ShareRead])) p) (\<lambda>opened.
     case opened of
       Err e \<Rightarrow> if raw_os_error e = Some 2 then return None
                else raise (IoFailed ''Snapshot publication destination'' p e)
     | Ok leaf \<Rightarrow>
         andThen (or_raise (IoFailed ''Inspect'' p) (facts_of d leaf)) (\<lambda>facts.
         if is_reparse_point facts then raise (Invalid ''Publication destination is linked.'')
         else if is_directory facts then return None
         else if facts_links facts \<noteq> 1
         then raise (Invalid ''Publication requires an ordinary staged file and parent.'')
         else
           andThen (or_raise (IoFailed ''Identify'' p) (identity_of d leaf)) (\<lambda>identity.
           andThen (or_raise (IoFailed ''Read publication destination'' p) (fingerprint d leaf)) (\<lambda>(size, hash).
           if size \<noteq> facts_size facts
           then raise (Invalid ''Publication destination changed during snapshot.'')
           else return (Some \<lparr>snap_identity = identity, snap_facts = facts, snap_fingerprint = hash\<rparr>)))))"

text \<open>\<open>canonical(path).is_ok_and(|resolved| resolved == path)\<close>\<close>

definition unchanged_path :: "disk \<Rightarrow> path \<Rightarrow> ('e, bool) custody_action" where
  "unchanged_path d p = andThen (canonical d p) (\<lambda>r. return (r = Ok p))"

fun pin_chain :: "disk \<Rightarrow> path \<Rightarrow> path \<Rightarrow> handle \<Rightarrow> (staging_error, path \<times> handle) custody_action" where
  "pin_chain d here [] pin = return (here, pin)"
| "pin_chain d here (c # rest) pin = andThen (pin_directory d (here @ [c])) (pin_chain d (here @ [c]) rest)"

definition outside_or_reserved :: staging_error where
  "outside_or_reserved = Invalid ''Publication destination is outside its Mod Root or reserved.''"

text \<open>What the destination's own text says: its components below the root, or the refusal.\<close>

definition destination_relative :: "path \<Rightarrow> path \<Rightarrow> staging_error + path" where
  "destination_relative root destination =
     (if \<not> is_absolute root \<or> \<not> is_absolute destination
         \<or> list_ex (\<lambda>c. c = CurDir \<or> c = ParentDir) destination
         \<or> \<not> (case file_name destination of None \<Rightarrow> False | Some name \<Rightarrow> name \<noteq> ''.'' \<and> name \<noteq> ''..'')
      then Err (Invalid ''Publication requires an absolute ordinary destination.'')
      else case strip_prefix destination root of
        None \<Rightarrow> Err outside_or_reserved
      | Some rest \<Rightarrow>
          if rest = [] \<or> has_staging_component rest then Err outside_or_reserved
          else case find (\<lambda>c. case c of Normal name \<Rightarrow> ambiguous_windows_name (to_string_lossy name) | _ \<Rightarrow> True) rest of
            Some (Normal _) \<Rightarrow> Err (Invalid ''Publication destination has an ambiguous Windows name.'')
          | Some _ \<Rightarrow> Err outside_or_reserved
          | None \<Rightarrow> Ok rest)"

definition pin_destination ::
    "disk \<Rightarrow> path \<Rightarrow> path \<Rightarrow> file_identity option \<Rightarrow> (staging_error, file_identity) custody_action" where
  "pin_destination d root destination staged_parent =
     andThen (lift_result (destination_relative root destination)) (\<lambda>rest.
     andThen (unchanged_path d root) (\<lambda>root_same.
     andThen (if root_same then unchanged_path d (parent_or_self destination) else return False) (\<lambda>same.
     if \<not> same then raise (Invalid ''Publication destination parent changed or is linked.'')
     else
       andThen (pin_directory d root) (\<lambda>root_pin.
       andThen (pin_chain d root (butlast rest) root_pin) (\<lambda>(here, pin).
       andThen (or_raise (IoFailed ''Identify'' here) (identity_of d pin)) (\<lambda>identity.
       case staged_parent of
         None \<Rightarrow> return identity
       | Some staged \<Rightarrow>
           if staged \<noteq> identity
           then raise (Invalid ''Publication destination parent changed after staging.'')
           else return identity))))))"

definition flush_staged_file :: "disk \<Rightarrow> path \<Rightarrow> file_identity \<Rightarrow> (staging_error, handle) custody_action" where
  "flush_staged_file d temporary parent_identity =
     andThen (or_raise (IoFailed ''Open staged file'' temporary)
       (open_file d (write_through (open_new [GenericWrite, DeleteAccess, ReadAttributes] [])) temporary)) (\<lambda>staged.
     andThen (or_raise (IoFailed ''Inspect'' temporary) (facts_of d staged)) (\<lambda>facts.
     if \<not> is_ordinary_file facts \<or> facts_links facts \<noteq> 1
     then raise (Invalid ''Publication requires an ordinary staged file and parent.'')
     else
       andThen (or_raise (IoFailed ''Identify'' temporary) (identity_of d staged)) (\<lambda>identity.
       if \<not> same_volume identity parent_identity
       then raise (Invalid ''Staged bytes and destination are on different volumes.'')
       else
         andThen (or_raise (IoFailed ''Flush'' temporary) (ask_disk (SyncFile staged) (\<lambda>w. d_sync d w staged))) (\<lambda>_.
         return staged))))"


subsection \<open>Receipts\<close>

record publication_target =
  target_root :: path
  target_destination :: path
  target_parent :: file_identity
  target_leaf :: "snapshot option"

record publication_receipt =
  receipt_index :: nat
  receipt_root :: path
  receipt_temporary :: path
  receipt_intended :: "path option"
  receipt_parent :: "file_identity option"
  receipt_leaf :: "snapshot option option"

definition rename_mode_of :: "publication_policy \<Rightarrow> rename_mode" where
  "rename_mode_of policy = (case policy of PolicyReplace \<Rightarrow> RenameReplace | PolicyNoReplace \<Rightarrow> RenameNoReplace)"

definition receipt_owned :: "disk \<Rightarrow> publication_receipt \<Rightarrow> custody \<Rightarrow> bool" where
  "receipt_owned d r s =
     (\<not> reg_cleaned s \<and> receipt_index r < length (reg_artifacts s)
      \<and> \<not> registered_committed (reg_artifacts s ! receipt_index r)
      \<and> d_same d (registered_path (reg_artifacts s ! receipt_index r)) (receipt_temporary r))"

definition commit_registered :: "nat \<Rightarrow> ('e, unit) custody_action" where
  "commit_registered i = change_state (\<lambda>s. s\<lparr>reg_artifacts :=
     (reg_artifacts s)[i := (reg_artifacts s ! i)\<lparr>registered_committed := True\<rparr>]\<rparr>)"

text \<open>What precedes the rename: ownership, the destination, the flushed bytes, and the leaf once more.\<close>

definition ready_to_publish ::
    "disk \<Rightarrow> publication_receipt \<Rightarrow> path \<Rightarrow> (staging_error, handle) custody_action" where
  "ready_to_publish d r destination =
     andThen (read_state (receipt_owned d r)) (\<lambda>owned.
     if \<not> owned then raise (Invalid ''The publication receipt is no longer owned.'')
     else if (case receipt_intended r of None \<Rightarrow> False | Some intended \<Rightarrow> \<not> d_same d destination intended)
     then raise (Invalid ''Asset publication changed its staged destination.'')
     else
       andThen (pin_destination d (receipt_root r) destination (receipt_parent r)) (\<lambda>parent_identity.
       andThen (flush_staged_file d (receipt_temporary r) parent_identity) (\<lambda>staged.
       case receipt_leaf r of
         None \<Rightarrow> return staged
       | Some leaf \<Rightarrow>
           andThen (destination_snapshot d destination) (\<lambda>now.
           if \<not> same_leaf now leaf
           then raise (Invalid ''Publication destination changed after input capture.'')
           else return staged))))"

text \<open>An error carries the state reached before it; the staged handle closes before the release.\<close>

definition publish ::
    "disk \<Rightarrow> publication_receipt \<Rightarrow> path \<Rightarrow> publication_policy
       \<Rightarrow> (publication_state \<times> staging_error, unit) custody_action" where
  "publish d r destination policy =
     andThen (map_err (Pair NotPublished) (ready_to_publish d r destination)) (\<lambda>staged.
     andThen (or_raise (\<lambda>e. (NotPublished, IoFailed ''Publish staged file to'' destination e))
       (rename_by_handle d staged destination (rename_mode_of policy))) (\<lambda>_.
     andThen (close_file staged) (\<lambda>_.
     andThen (map_err (Pair PublishedStillOwned) (release_file d (receipt_temporary r))) (\<lambda>_.
     commit_registered (receipt_index r)))))"

definition publish_receipt ::
    "disk \<Rightarrow> bool \<Rightarrow> publication_receipt \<Rightarrow> path \<Rightarrow> publication_policy \<Rightarrow> ('e, publication_result) custody_action" where
  "publish_receipt d owner_lives r destination policy =
     (if \<not> owner_lives
      then return \<lparr>publication_state = NotPublished, error_detail = ''The Temporary Ownership scope ended.''\<rparr>
      else andThen (try_action (publish d r destination policy)) (\<lambda>answer.
        return (case answer of
            Ok _ \<Rightarrow> \<lparr>publication_state = PublishedAndReleased, error_detail = []\<rparr>
          | Err (reached, e) \<Rightarrow> \<lparr>publication_state = reached, error_detail = staging_error_text e\<rparr>)))"

definition receipt_path :: "bool \<Rightarrow> publication_receipt \<Rightarrow> staging_error + path" where
  "receipt_path owner_lives r =
     (if owner_lives then Ok (receipt_temporary r) else Err (Invalid ''The publication receipt is no longer owned.''))"

subsection \<open>The registry\<close>

text \<open>\<open>TemporaryArtifactRegistry::open\<close>: nothing is registered once Safety Cleanup started.\<close>

definition registry_open :: "(staging_error, unit) custody_action" where
  "registry_open = andThen (read_state reg_cleaned) (\<lambda>closed.
     if closed then raise (Invalid ''Temporary artifact registration is closed.'') else return ())"

definition push_artifact :: "path \<Rightarrow> bool \<Rightarrow> ('e, registration) custody_action" where
  "push_artifact p durable =
     andThen (read_state (\<lambda>s. \<lparr>registration_registry = registry_id s, registration_index = length (reg_artifacts s)\<rparr>)) (\<lambda>reg.
     andThen (change_state (\<lambda>s. s\<lparr>reg_artifacts := reg_artifacts s @
       [\<lparr>registered_path = p, registered_committed = False, registered_durable = durable\<rparr>]\<rparr>)) (\<lambda>_.
     return reg))"

definition push_durable :: "path \<Rightarrow> ('e, staged_file) custody_action" where
  "push_durable p = andThen (push_artifact p True) (\<lambda>reg. return \<lparr>staged_path = p, staged_registration = reg\<rparr>)"

definition registry_prepare_root :: "disk \<Rightarrow> path \<Rightarrow> (staging_error, run_failure option) custody_action" where
  "registry_prepare_root d mod_root = andThen registry_open (\<lambda>_. prepare_staging_root d mod_root)"

definition registry_stage_file :: "disk \<Rightarrow> path \<Rightarrow> path \<Rightarrow> (staging_error, staged_file) custody_action" where
  "registry_stage_file d mod_root destination =
     andThen registry_open (\<lambda>_. andThen (stage_file d mod_root destination) push_durable)"

definition registry_stage_archive_file :: "disk \<Rightarrow> path \<Rightarrow> (staging_error, staged_file) custody_action" where
  "registry_stage_archive_file d mod_root =
     andThen registry_open (\<lambda>_. andThen (stage_archive_file d mod_root) push_durable)"

definition absolute_root :: "disk \<Rightarrow> path \<Rightarrow> (staging_error, path) custody_action" where
  "absolute_root d mod_root =
     (if \<not> is_absolute mod_root then raise (Invalid ''A Mod Root must be absolute.'')
      else or_raise (LookupFailed ''Resolve'' mod_root) (canonical d mod_root))"

definition capture_publication_target ::
    "disk \<Rightarrow> path \<Rightarrow> path \<Rightarrow> (staging_error, publication_target) custody_action" where
  "capture_publication_target d mod_root destination =
     andThen registry_open (\<lambda>_.
     andThen (absolute_root d mod_root) (\<lambda>root.
     andThen (pin_destination d root destination None) (\<lambda>identity.
     andThen (destination_snapshot d destination) (\<lambda>leaf.
     return \<lparr>target_root = root, target_destination = destination, target_parent = identity, target_leaf = leaf\<rparr>))))"

definition stage_file_for_publication ::
    "disk \<Rightarrow> publication_target \<Rightarrow> (staging_error, publication_receipt) custody_action" where
  "stage_file_for_publication d t =
     andThen registry_open (\<lambda>_.
     andThen (pin_destination d (target_root t) (target_destination t) (Some (target_parent t))) (\<lambda>_.
     andThen (destination_snapshot d (target_destination t)) (\<lambda>now.
     if \<not> same_leaf now (target_leaf t)
     then raise (Invalid ''Publication destination changed after input capture.'')
     else
       andThen (stage_file d (target_root t) (target_destination t)) (\<lambda>p.
       andThen (push_durable p) (\<lambda>staged.
       return \<lparr>receipt_index = registration_index (staged_registration staged), receipt_root = target_root t,
         receipt_temporary = p, receipt_intended = Some (target_destination t),
         receipt_parent = Some (target_parent t), receipt_leaf = Some (target_leaf t)\<rparr>)))))"

definition capture_and_stage_file ::
    "disk \<Rightarrow> path \<Rightarrow> path \<Rightarrow> (staging_error, publication_receipt) custody_action" where
  "capture_and_stage_file d mod_root destination =
     andThen (capture_publication_target d mod_root destination) (stage_file_for_publication d)"

definition stage_archive_file_for_publication ::
    "disk \<Rightarrow> path \<Rightarrow> (staging_error, publication_receipt) custody_action" where
  "stage_archive_file_for_publication d mod_root =
     andThen registry_open (\<lambda>_.
     andThen (absolute_root d mod_root) (\<lambda>root.
     andThen (stage_archive_file d root) (\<lambda>p.
     andThen (push_durable p) (\<lambda>staged.
     return \<lparr>receipt_index = registration_index (staged_registration staged), receipt_root = root,
       receipt_temporary = p, receipt_intended = None, receipt_parent = None, receipt_leaf = None\<rparr>))))"

definition ambiguous_component :: "component \<Rightarrow> bool" where
  "ambiguous_component c = (case c of
       Normal raw \<Rightarrow>
         (let name = to_string_lossy raw in
          ends_with_char (\<lambda>c. c = CHR ''.'') name \<or> ends_with_char (\<lambda>c. c = CHR '' '') name \<or> CHR '':'' \<in> set name)
     | _ \<Rightarrow> False)"

definition register_artifact :: "disk \<Rightarrow> path \<Rightarrow> (staging_error, registration) custody_action" where
  "register_artifact d p =
     andThen registry_open (\<lambda>_.
     case (parent p, file_name p) of
       (Some dir, Some name) \<Rightarrow>
         if \<not> is_absolute p \<or> name = ''.'' \<or> name = ''..''
         then raise (Invalid ''A temporary artifact needs an absolute entry path.'')
         else
           andThen (or_raise (LookupFailed ''Resolve'' dir) (weakly_canonical d dir)) (\<lambda>resolved.
           let normalized = resolved @ [Normal name] in
           if list_ex ambiguous_component normalized
           then raise (Invalid ''A temporary artifact needs an unambiguous Windows path.'')
           else
             andThen (symlink_metadata d normalized) (\<lambda>seen.
             case seen of
               Ok _ \<Rightarrow> raise (Invalid ''An existing entry cannot become a temporary artifact.'')
             | Err e \<Rightarrow>
                 if io_kind e \<noteq> KindNotFound then raise (IoFailed ''Inspect temporary artifact'' normalized e)
                 else
                   andThen (read_state reg_artifacts) (\<lambda>known.
                   if list_ex (\<lambda>a. d_same d (registered_path a) normalized) known
                   then raise (Invalid ''The temporary artifact is already registered.'')
                   else push_artifact normalized False)))
     | _ \<Rightarrow> raise (Invalid ''A temporary artifact needs an absolute entry path.''))"

definition commit :: "registration \<Rightarrow> (staging_error, unit) custody_action" where
  "commit reg =
     andThen registry_open (\<lambda>_.
     andThen (read_state (\<lambda>s.
       if registration_index reg < length (reg_artifacts s)
          \<and> registration_registry reg = registry_id s
          \<and> \<not> registered_committed (reg_artifacts s ! registration_index reg)
       then Some (reg_artifacts s ! registration_index reg) else None)) (\<lambda>found.
     case found of
       None \<Rightarrow> raise (Invalid ''The temporary artifact registration is no longer owned.'')
     | Some a \<Rightarrow>
         if registered_durable a
         then raise (Invalid ''Durable staged files require a publication receipt.'')
         else commit_registered (registration_index reg)))"

subsection \<open>Safety Cleanup\<close>

definition remove_file :: "disk \<Rightarrow> path \<Rightarrow> ('e, io_error + unit) custody_action" where
  "remove_file d p = ask_disk (RemoveFile p) (\<lambda>w. d_remove_file d w p)"

definition remove_registered :: "disk \<Rightarrow> path \<Rightarrow> (string, unit) custody_action" where
  "remove_registered d p =
     (let dir = parent_or_self p in
      andThen (or_raise io_text (weakly_canonical d dir)) (\<lambda>resolved.
      if \<not> d_same d resolved dir then raise ''The temporary artifact parent changed.''
      else
        andThen (symlink_metadata d p) (\<lambda>seen.
        case seen of
          Err e \<Rightarrow> if io_kind e = KindNotFound then return () else raise (io_text e)
        | Ok meta \<Rightarrow>
            if meta_is_dir meta \<or> meta_is_symlink_dir meta then or_raise io_text (remove_dir d p)
            else or_raise io_text (remove_file d p))))"

definition clean_registered ::
    "disk \<Rightarrow> registered \<Rightarrow> run_failure list \<Rightarrow> ('e, run_failure list) custody_action" where
  "clean_registered d a failed =
     (if registered_committed a \<or> registered_durable a then return failed
      else andThen (try_action (remove_registered d (registered_path a))) (\<lambda>removed.
        return (case removed of
            Ok _ \<Rightarrow> failed
          | Err what \<Rightarrow> failed @ [with_failure_path (registered_path a)
              (new_run_failure TemporaryArtifactCleanupFailed SafetyCleanup what)])))"

definition cleanup :: "disk \<Rightarrow> ('e, run_failure list) custody_action" where
  "cleanup d =
     andThen (read_state reg_cleaned) (\<lambda>closed.
     if closed then return []
     else
       andThen (change_state (\<lambda>s. s\<lparr>reg_cleaned := True\<rparr>)) (\<lambda>_.
       andThen (read_state reg_artifacts) (\<lambda>known.
       andThen (fold_each (clean_registered d) (rev known) []) (\<lambda>failed.
       andThen (cleanup_artifacts d) (\<lambda>staged.
       return (failed @ staged))))))"

end
