(* ===== verification/ArtifactLaws.thy ===== *)
theory ArtifactLaws
  imports Artifacts
begin

text \<open>
  Laws of the artifact registry: the fingerprint of a destination, what a publication does and reports,
  and what Safety Cleanup removes and closes.
\<close>

subsection \<open>Actions that do not panic\<close>

definition panic_free :: "('s, 'e, 'a) action \<Rightarrow> bool" where
  "panic_free m = (\<forall>s. case fst (m s) of Panic _ \<Rightarrow> False | _ \<Rightarrow> True)"

lemma panic_freeD: "panic_free m \<Longrightarrow> m s \<noteq> (Panic p, s')"
  unfolding panic_free_def by (metis fst_conv outcome.simps(12))

lemma panic_free_basic: "panic_free (return x)" "panic_free (raise e)" "panic_free (read_state f)"
  "panic_free (change_state g)" "panic_free (ask_disk c answer)"
  by (simp_all add: panic_free_def run_simps ask_disk_def)

lemma panic_free_andThen: "panic_free m \<Longrightarrow> (\<And>x. panic_free (f x)) \<Longrightarrow> panic_free (andThen m f)"
  by (auto simp: panic_free_def andThen_def split: prod.splits outcome.splits) (metis fst_conv outcome.simps(12))+

lemma panic_free_mapped: "panic_free m \<Longrightarrow> panic_free (map_err g m)" "panic_free n \<Longrightarrow> panic_free (try_action n)"
  "panic_free k \<Longrightarrow> panic_free (or_raise h k)"
  by (auto simp: panic_free_def map_err_def try_action_def or_raise_def andThen_def run_simps split: prod.splits outcome.splits sum.splits)
    (metis fst_conv outcome.simps(12))+

lemma panic_free_fold: "(\<And>x acc. panic_free (body x acc)) \<Longrightarrow> panic_free (fold_each body xs acc)"
  by (induction xs arbitrary: acc) (auto intro: panic_free_basic panic_free_andThen)

lemma panic_free_lift: "panic_free (lift_result r)"
  by (simp add: lift_result_def panic_free_basic split: sum.split)

lemmas panic_free_rules = panic_free_basic panic_free_andThen panic_free_mapped panic_free_fold panic_free_lift

subsection \<open>The fingerprint\<close>

text \<open>What a reader yields as a whole, interruptions apart.\<close>

fun gathered :: "read_answer list \<Rightarrow> io_error + string" where
  "gathered [] = Ok []"
| "gathered (ReadBytes bytes # rest) =
     (if bytes = [] then Ok [] else map_sum id (\<lambda>more_bytes. bytes @ more_bytes) (gathered rest))"
| "gathered (ReadError e # rest) = (if io_kind e = KindInterrupted then gathered rest else Err e)"

lemma fingerprint_loop_gathered:
  "fingerprint_loop answers n hash =
     map_sum id (\<lambda>bytes. (n + of_nat (length bytes), foldl fnv_byte hash bytes)) (gathered answers)"
  by (induction answers n hash rule: fingerprint_loop.induct)
    (auto simp: sum.map_comp o_def add.assoc)

text \<open>
  C40: The fingerprint of a destination depends only on the bytes its reader yields, not on how the
  reads split them or on interruptions: it is FNV-1a of the whole content, with its length, and fails
  exactly when reading fails.
\<close>

theorem fingerprint_is_fnv_of_content:
  "fingerprint_loop answers 0 fnv_basis =
     map_sum id (\<lambda>bytes. (of_nat (length bytes), foldl fnv_byte fnv_basis bytes)) (gathered answers)"
  by (simp add: fingerprint_loop_gathered)

subsection \<open>The calls of the checks\<close>

definition harmless :: "disk_call \<Rightarrow> bool" where
  "harmless c = (reading c \<or> (case c of SyncFile _ \<Rightarrow> True | _ \<Rightarrow> False))"

lemma harmless_reading: "steps (calls_in reading) m \<Longrightarrow> steps (calls_in harmless) m"
  by (erule steps_mono) (auto simp: calls_in_def harmless_def list_all_iff)

lemma reading_chain: "steps (calls_in reading) (pin_chain d here rest pin)"
  by (induction rest arbitrary: here pin) (auto intro!: calls_rules reading_entries)

lemma reading_pin_destination: "steps (calls_in reading) (pin_destination d root destination staged_parent)"
  unfolding pin_destination_def unchanged_path_def canonical_def identity_of_def
  by (auto intro!: calls_rules reading_entries reading_chain split: option.split)

lemma reading_snapshot: "steps (calls_in reading) (destination_snapshot d p)"
  unfolding destination_snapshot_def open_file_def facts_of_def identity_of_def fingerprint_def
  by (auto intro!: calls_rules split: sum.split)

lemma harmless_flush: "steps (calls_in harmless) (flush_staged_file d temporary parent_identity)"
  unfolding flush_staged_file_def open_file_def facts_of_def identity_of_def
  by (auto intro!: calls_rules simp: harmless_def write_through_def)

lemma panic_free_entries:
  "panic_free (pin_directory d p)" "panic_free (inspect d p)" "panic_free (open_temporary_file d p)"
  "panic_free (write_new_file d p bytes)" "panic_free (publish_manifest d root run_id child artifacts)"
  unfolding pin_directory_def inspect_def inspect_file_def open_temporary_file_def write_new_file_def publish_manifest_def
    open_file_def facts_of_def symlink_metadata_def generic_def
  by (auto intro!: panic_free_rules simp: Let_def split: sum.split)

lemma panic_free_chain: "panic_free (pin_chain d here rest pin)"
  by (induction rest arbitrary: here pin) (auto intro!: panic_free_rules panic_free_entries)

lemma panic_free_checks: "panic_free (pin_destination d root destination staged_parent)"
  "panic_free (destination_snapshot d p)" "panic_free (flush_staged_file d temporary parent_identity)"
  unfolding pin_destination_def destination_snapshot_def flush_staged_file_def unchanged_path_def canonical_def
    identity_of_def open_file_def facts_of_def fingerprint_def
  by (auto intro!: panic_free_rules panic_free_entries panic_free_chain split: option.split sum.split)

lemma panic_free_ready: "panic_free (ready_to_publish d r destination)"
  unfolding ready_to_publish_def by (auto intro!: panic_free_rules panic_free_checks split: option.split)

lemma panic_free_release: "panic_free (release_file d temporary)"
  unfolding release_file_def set_area_def
  by (auto intro!: panic_free_rules panic_free_entries simp: Let_def split: option.split)

lemma panic_free_publish: "panic_free (publish d r destination policy)"
  unfolding publish_def rename_by_handle_def close_file_def commit_registered_def
  by (auto intro!: panic_free_rules panic_free_ready panic_free_release)


subsection \<open>Publication\<close>

lemma andThen_iff: "andThen m f s = (Done y, u) \<longleftrightarrow> (\<exists>x t. m s = (Done x, t) \<and> f x t = (Done y, u))"
  by (auto simp: andThen_apply split: prod.splits outcome.splits)

lemma or_raise_Done: "or_raise g m s = (Done x, s') \<longleftrightarrow> m s = (Done (Ok x), s')"
  by (auto simp: or_raise_def andThen_iff run_simps split: sum.splits) (metis sum.exhaust)

lemma ask_Done: "ask_disk c f s = (Done x, s') \<longleftrightarrow> x = f (made_calls s) \<and> s' = s\<lparr>made_calls := made_calls s @ [c]\<rparr>"
  by (auto simp: ask_disk_def)

lemma ask_then: "andThen (ask_disk c f) g s = g (f (made_calls s)) (s\<lparr>made_calls := made_calls s @ [c]\<rparr>)"
  by (simp add: andThen_apply ask_disk_def)

lemma map_err_Done: "map_err g m s = (Done x, s') \<longleftrightarrow> m s = (Done x, s')"
  by (auto simp: map_err_def split: prod.splits outcome.splits)

lemma try_Done: "try_action m s = (Done x, s') \<longleftrightarrow>
    (case x of Ok y \<Rightarrow> m s = (Done y, s') | Err e \<Rightarrow> m s = (Raise e, s'))"
  by (auto simp: try_action_def split: prod.splits outcome.splits sum.splits)

lemmas done_simps = andThen_iff or_raise_Done ask_Done map_err_Done try_Done run_simps

lemma flush_Done:
  assumes "flush_staged_file d temporary parent_identity s = (Done h, s')"
  shows "handle_path h = temporary" and "\<exists>cs. made_calls s' = made_calls s @ cs @ [SyncFile h] \<and> list_all reading cs"
  using assms unfolding flush_staged_file_def open_file_def facts_of_def identity_of_def
  by (auto simp: done_simps write_through_def split: if_splits sum.splits)


text \<open>The captured leaf is compared last, so the snapshot taken is the last thing seen before the rename.\<close>

definition leaf_confirmed :: "disk \<Rightarrow> publication_receipt \<Rightarrow> path \<Rightarrow> world \<Rightarrow> bool" where
  "leaf_confirmed d r destination w =
     (case receipt_leaf r of
        None \<Rightarrow> True
      | Some leaf \<Rightarrow>
          (\<exists>t u now. destination_snapshot d destination t = (Done now, u) \<and> made_calls u = w \<and> same_leaf now leaf))"

lemma harmless_ready: "steps (calls_in harmless) (ready_to_publish d r destination)"
  unfolding ready_to_publish_def
  by (auto intro!: calling.rules harmless_flush harmless_reading [OF reading_pin_destination]
      harmless_reading [OF reading_snapshot] split: option.split)

lemma ready_Done:
  assumes "ready_to_publish d r destination s = (Done h, s')"
  shows "handle_path h = receipt_temporary r \<and> SyncFile h \<in> set (drop (length (made_calls s)) (made_calls s'))
    \<and> leaf_confirmed d r destination (made_calls s') \<and> receipt_owned d r s"
proof -
  obtain identity t u where pinned: "pin_destination d (receipt_root r) destination (receipt_parent r) s = (Done identity, t)"
    and flushed: "flush_staged_file d (receipt_temporary r) identity t = (Done h, u)"
    and leaf: "(case receipt_leaf r of
         None \<Rightarrow> return h
       | Some leaf \<Rightarrow>
           andThen (destination_snapshot d destination) (\<lambda>now.
           if \<not> same_leaf now leaf
           then raise (Invalid ''Publication destination changed after input capture.'')
           else return h)) u = (Done h, s')" and owned: "receipt_owned d r s"
    using assms unfolding ready_to_publish_def
    by (auto simp: done_simps split: if_splits option.splits)
  obtain checks synced where calls: "made_calls t = made_calls s @ checks" "made_calls u = made_calls t @ synced @ [SyncFile h]"
    using stepsD [OF reading_pin_destination pinned] flush_Done(2) [OF flushed] unfolding calls_in_def by blast
  let ?confirm = "case receipt_leaf r of
       None \<Rightarrow> return h
     | Some leaf \<Rightarrow>
         andThen (destination_snapshot d destination) (\<lambda>now.
         if \<not> same_leaf now leaf
         then raise (Invalid ''Publication destination changed after input capture.'')
         else return h)"
  have "steps (calls_in reading) ?confirm"
    by (auto intro!: calling.rules reading_snapshot split: option.split)
  then have "calls_in reading u s'" using leaf by (rule stepsD [where m = ?confirm])
  then obtain seen where "made_calls s' = made_calls u @ seen" by (auto simp: calls_in_def)
  then have "SyncFile h \<in> set (drop (length (made_calls s)) (made_calls s'))" using calls by simp
  moreover have "leaf_confirmed d r destination (made_calls s')"
    using leaf unfolding leaf_confirmed_def
    by (auto simp: done_simps split: option.splits if_splits)
  ultimately show ?thesis using flush_Done(1) [OF flushed] owned by blast
qed

text \<open>A release rewrites the manifest, and nothing outside the reserved directory.\<close>

fun manifest_call :: "disk_call \<Rightarrow> bool" where
  "manifest_call (OpenFile p r) = (open_create_new r \<longrightarrow> has_staging_component p)"
| "manifest_call (WriteFile h _) = has_staging_component (handle_path h)"
| "manifest_call (SyncFile h) = has_staging_component (handle_path h)"
| "manifest_call (MoveFile p q) = (has_staging_component p \<and> has_staging_component q)"
| "manifest_call c = reading c"

lemma manifest_reading: "reading c \<Longrightarrow> manifest_call c"
  by (cases c) auto

lemma staging_path_reserved: "has_staging_component (staging_path root @ p)"
proof -
  have "is_staging_name staging_directory" by code_simp
  then show ?thesis by (simp add: staging_path_def has_staging_component_def)
qed

lemma manifest_write: "has_staging_component p \<Longrightarrow> steps (calls_in manifest_call) (write_new_file d p bytes)"
  unfolding write_new_file_def
  by (rule calling.seq_given [OF _ gives_or_raise [OF gives_open]])
    (auto intro!: calls_rules simp: open_file_def split: sum.split)

lemma manifest_publish: "steps (calls_in manifest_call) (publish_manifest d root run_id child artifacts)"
  unfolding publish_manifest_def Let_def generic_def
  by (auto intro!: calls_rules manifest_write staging_path_reserved)

lemma reading_manifest_call: "steps (calls_in reading) m \<Longrightarrow> steps (calls_in manifest_call) m"
  by (erule steps_mono) (auto simp: calls_in_def list_all_iff manifest_reading)

lemma manifest_release: "steps (calls_in manifest_call) (release_file d temporary)"
  unfolding release_file_def Let_def set_area_def
  by (auto intro!: calling.rules calls_change manifest_publish reading_manifest_call [OF reading_entries(3)] split: option.split)

lemma panic_free_cases:
  assumes "panic_free m"
  obtains (finished) x t where "m s = (Done x, t)" | (raised) e t where "m s = (Raise e, t)"
proof (cases "m s")
  case (Pair r t)
  then show thesis using that panic_freeD [OF assms, of s] by (cases r) auto
qed


lemma renamed_result:
  assumes ready: "ready_to_publish d r destination s = (Done h, t)"
  shows "\<exists>reached e u. publish d r destination policy s = (Raise (reached, e), u) \<and> reached = NotPublished
        \<and> made_calls u = made_calls t @ [RenameFile h destination (rename_mode_of policy)]
        \<and> d_rename d (made_calls t) h destination (rename_mode_of policy) \<noteq> Ok ()
    \<or> d_rename d (made_calls t) h destination (rename_mode_of policy) = Ok ()
        \<and> (\<exists>release u. made_calls u = made_calls t @ [RenameFile h destination (rename_mode_of policy), CloseFile h] @ release
            \<and> list_all manifest_call release
            \<and> (publish d r destination policy s = (Done (), u)
               \<or> (\<exists>e. publish d r destination policy s = (Raise (PublishedStillOwned, e), u))))"
proof (cases "d_rename d (made_calls t) h destination (rename_mode_of policy)")
  case (Inl e)
  then show ?thesis
    using ready by (simp add: publish_def map_err_def andThen_apply rename_by_handle_def or_raise_def ask_disk_def run_simps)
next
  case (Inr x)
  let ?t = "t\<lparr>made_calls := made_calls t @ [RenameFile h destination (rename_mode_of policy), CloseFile h]\<rparr>"
  have run: "publish d r destination policy s =
      andThen (map_err (Pair PublishedStillOwned) (release_file d (receipt_temporary r))) (\<lambda>_. commit_registered (receipt_index r)) ?t"
  proof -
    let ?u = "t\<lparr>made_calls := made_calls t @ [RenameFile h destination (rename_mode_of policy)]\<rparr>"
    have "map_err (Pair NotPublished) (ready_to_publish d r destination) s = (Done h, t)"
      using ready by (simp add: map_err_def)
    moreover have "or_raise (\<lambda>e. (NotPublished, IoFailed ''Publish staged file to'' destination e))
        (rename_by_handle d h destination (rename_mode_of policy)) t = (Done (), ?u)"
      using Inr by (simp add: or_raise_Done rename_by_handle_def ask_disk_def)
    ultimately show ?thesis by (simp add: publish_def andThen_simps close_file_def ask_then)
  qed
  have calls: "calls_in manifest_call ?t u" if "release_file d (receipt_temporary r) ?t = (o', u)" for o' u
    by (rule stepsD [OF manifest_release that])
  show ?thesis
    using panic_free_release [of d "receipt_temporary r"]
  proof (cases rule: panic_free_cases [where s = ?t])
    case (finished x' u)
    then have "publish d r destination policy s = commit_registered (receipt_index r) u"
      using run by (simp add: andThen_apply map_err_def)
    then show ?thesis
      using calls [OF finished] Inr by (auto simp: commit_registered_def run_simps calls_in_def)
  next
    case (raised e u)
    then show ?thesis using calls [OF raised] run Inr by (auto simp: andThen_apply map_err_def calls_in_def)
  qed
qed


lemma publication_outcome:
  "\<exists>res s' checks renames release.
     publish_receipt d lives r destination policy s = (Done res, s')
     \<and> made_calls s' = made_calls s @ checks @ renames @ release
     \<and> list_all harmless checks \<and> list_all manifest_call release
     \<and> (renames = [] \<and> release = [] \<and> publication_state res = NotPublished
        \<or> (\<exists>h. handle_path h = receipt_temporary r \<and> SyncFile h \<in> set checks
             \<and> leaf_confirmed d r destination (made_calls s @ checks)
             \<and> (if publication_state res = NotPublished
                then renames = [RenameFile h destination (rename_mode_of policy)] \<and> release = []
                  \<and> d_rename d (made_calls s @ checks) h destination (rename_mode_of policy) \<noteq> Ok ()
                else renames = [RenameFile h destination (rename_mode_of policy), CloseFile h]
                  \<and> d_rename d (made_calls s @ checks) h destination (rename_mode_of policy) = Ok ())))"
proof (cases lives)
  case True
  let ?result = "\<lambda>answer. case answer of
      Ok _ \<Rightarrow> \<lparr>publication_state = PublishedAndReleased, error_detail = []\<rparr>
    | Err (reached, e) \<Rightarrow> \<lparr>publication_state = reached, error_detail = staging_error_text e\<rparr>"
  have run: "publish_receipt d lives r destination policy s =
      (case publish d r destination policy s of
         (Done x, u) \<Rightarrow> (Done (?result (Ok x)), u) | (Raise e, u) \<Rightarrow> (Done (?result (Err e)), u)
       | (Panic p, u) \<Rightarrow> (Panic p, u))"
    using True by (simp add: publish_receipt_def andThen_apply try_action_def run_simps split: prod.split outcome.split)
  show ?thesis
    using panic_free_ready [of d r destination]
  proof (cases rule: panic_free_cases [where s = s])
    case (raised e t)
    then have "publish_receipt d lives r destination policy s = (Done (?result (Err (NotPublished, e))), t)"
      using run by (simp add: publish_def andThen_apply map_err_def)
    moreover obtain checks where "made_calls t = made_calls s @ checks" "list_all harmless checks"
      using stepsD [OF harmless_ready raised] by (auto simp: calls_in_def)
    ultimately show ?thesis by (intro exI [of _ t] exI [of _ checks] exI [of _ "[]"] exI) auto
  next
    case (finished h t)
    obtain checks where checks: "made_calls t = made_calls s @ checks" "list_all harmless checks"
      using stepsD [OF harmless_ready finished] by (auto simp: calls_in_def)
    have h: "handle_path h = receipt_temporary r" "SyncFile h \<in> set checks" "leaf_confirmed d r destination (made_calls s @ checks)"
      using ready_Done [OF finished] checks(1) by auto
    show ?thesis
      using renamed_result [OF finished, of policy]
    proof (elim disjE exE conjE)
      fix reached e u
      assume "publish d r destination policy s = (Raise (reached, e), u)" "reached = NotPublished"
        "made_calls u = made_calls t @ [RenameFile h destination (rename_mode_of policy)]"
        "d_rename d (made_calls t) h destination (rename_mode_of policy) \<noteq> Ok ()"
      then show ?thesis
        using run checks h
        by (intro exI [of _ "?result (Err (reached, e))"] exI [of _ u] exI [of _ checks]
            exI [of _ "[RenameFile h destination (rename_mode_of policy)]"] exI [of _ "[]"]) auto
    next
      fix release u
      assume renamed: "d_rename d (made_calls t) h destination (rename_mode_of policy) = Ok ()"
        "made_calls u = made_calls t @ [RenameFile h destination (rename_mode_of policy), CloseFile h] @ release"
        "list_all manifest_call release" and "publish d r destination policy s = (Done (), u)"
      then have "publish_receipt d lives r destination policy s = (Done (?result (Ok ())), u)" using run by simp
      then show ?thesis
        using renamed checks h
        by (intro exI [of _ "?result (Ok ())"] exI [of _ u] exI [of _ checks]
            exI [of _ "[RenameFile h destination (rename_mode_of policy), CloseFile h]"] exI [of _ release]) auto
    next
      fix release u e
      assume renamed: "d_rename d (made_calls t) h destination (rename_mode_of policy) = Ok ()"
        "made_calls u = made_calls t @ [RenameFile h destination (rename_mode_of policy), CloseFile h] @ release"
        "list_all manifest_call release" and "publish d r destination policy s = (Raise (PublishedStillOwned, e), u)"
      then have "publish_receipt d lives r destination policy s = (Done (?result (Err (PublishedStillOwned, e))), u)"
        using run by simp
      then show ?thesis
        using renamed checks h
        by (intro exI [of _ "?result (Err (PublishedStillOwned, e))"] exI [of _ u] exI [of _ checks]
            exI [of _ "[RenameFile h destination (rename_mode_of policy), CloseFile h]"] exI [of _ release]) auto
    qed
  qed
next
  case False
  then show ?thesis
    by (intro exI [of _ "\<lparr>publication_state = NotPublished, error_detail = ''The Temporary Ownership scope ended.''\<rparr>"]
        exI [of _ s] exI [of _ "[]"]) (simp add: publish_receipt_def run_simps)
qed

text \<open>
  C34: Publishing a receipt always returns a result, whatever the disk does. Before the rename it changes
  nothing but flushes the staged bytes, confirms a captured leaf last, and it renames at most once: the
  exclusively opened staged file, to the destination, under the policy. The result says \<open>NotPublished\<close>
  exactly when no rename took place, and after one it only closes the handle and rewrites the manifest
  in the reserved directory.
\<close>

theorem publication_renames_once:
  "\<exists>res s' checks renames release.
     publish_receipt d lives r destination policy s = (Done res, s')
     \<and> made_calls s' = made_calls s @ checks @ renames @ release
     \<and> list_all harmless checks \<and> list_all manifest_call release
     \<and> (renames = [] \<and> release = [] \<and> publication_state res = NotPublished
        \<or> (\<exists>h. handle_path h = receipt_temporary r \<and> SyncFile h \<in> set checks
             \<and> leaf_confirmed d r destination (made_calls s @ checks)
             \<and> (if publication_state res = NotPublished
                then renames = [RenameFile h destination (rename_mode_of policy)] \<and> release = []
                  \<and> d_rename d (made_calls s @ checks) h destination (rename_mode_of policy) \<noteq> Ok ()
                else renames = [RenameFile h destination (rename_mode_of policy), CloseFile h]
                  \<and> d_rename d (made_calls s @ checks) h destination (rename_mode_of policy) = Ok ())))"
  by (rule publication_outcome)

subsection \<open>Safety Cleanup\<close>

definition owned_path :: "custody \<Rightarrow> path \<Rightarrow> bool" where
  "owned_path s p =
     ((\<exists>a. a \<in> set (reg_artifacts s) \<and> p = registered_path a \<and> \<not> registered_committed a \<and> \<not> registered_durable a)
      \<or> (\<exists>root area a. (root, area) \<in> set (scope_areas s) \<and> a \<in> set (area_artifacts area) \<and> p = artifact_path root a))"

definition cleaning_call :: "(path \<Rightarrow> bool) \<Rightarrow> disk_call \<Rightarrow> bool" where
  "cleaning_call P c = (case removed_path c of Some p \<Rightarrow> P p | None \<Rightarrow> reading c)"

lemma cleaning_reading: "steps (calls_in reading) m \<Longrightarrow> steps (calls_in (cleaning_call P)) m"
proof (erule steps_mono)
  have "cleaning_call P c" if "reading c" for c
    using that by (cases c) (auto simp: cleaning_call_def)
  then show "calls_in reading s s' \<Longrightarrow> calls_in (cleaning_call P) s s'" for s s'
    by (auto simp: calls_in_def list_all_iff)
qed

lemma cleaning_removals:
  "P p \<Longrightarrow> steps (calls_in (cleaning_call P)) (remove_dir d p)"
  "P p \<Longrightarrow> steps (calls_in (cleaning_call P)) (remove_file d p)"
  "P (handle_path h) \<Longrightarrow> steps (calls_in (cleaning_call P)) (delete_by_handle d h)"
  unfolding remove_dir_def remove_file_def delete_by_handle_def
  by (auto intro!: calls_ask simp: cleaning_call_def)

lemma cleaning_registered:
  assumes "P p"
  shows "steps (calls_in (cleaning_call P)) (remove_registered d p)"
  unfolding remove_registered_def Let_def weakly_canonical_def symlink_metadata_def
  by (auto intro!: calls_rules cleaning_removals [where P = P] assms simp: cleaning_call_def split: sum.split)

lemma cleaning_artifact:
  assumes "P (artifact_path root a)"
  shows "steps (calls_in (cleaning_call P)) (remove_artifact d root a)"
proof -
  have deleted: "steps (calls_in (cleaning_call P)) (andThen (open_temporary_file d (artifact_path root a))
      (\<lambda>h. or_raise f (delete_by_handle d h)))" for f
    by (rule calling.seq_given [OF cleaning_reading [OF reading_entries(2)] gives_pin(2)])
      (use assms in \<open>auto intro!: calls_or_raise cleaning_removals(3)\<close>)
  have closed: "steps (calls_in (cleaning_call P)) (close_child_pin root a)"
    unfolding close_child_pin_def the_area_def set_area_def close_file_def
    by (auto intro!: calls_rules calls_change simp: cleaning_call_def split: option.split)
  show ?thesis
    unfolding remove_artifact_def Let_def weakly_canonical_def
    by (auto intro!: calling.rules deleted closed calls_or_raise calls_ask cleaning_removals(1) assms
        cleaning_reading [OF reading_entries(3)] simp: cleaning_call_def split: option.split)
qed

definition keeps :: "('s \<Rightarrow> 'f) \<Rightarrow> 's \<Rightarrow> 's \<Rightarrow> bool" where
  "keeps f s t = (f t = f s)"

interpretation keeping: frame "keeps f" for f
  by unfold_locales (simp_all add: keeps_def)

lemma keeps_ask: "(\<And>s calls. f (s\<lparr>made_calls := calls\<rparr>) = f s) \<Longrightarrow> steps (keeps f) (ask_disk c answer)"
  by (simp add: steps_def keeps_def ask_disk_def)

lemma keeps_or_raise: "steps (keeps f) m \<Longrightarrow> steps (keeps f) (or_raise g m)"
  unfolding or_raise_def by (auto intro!: keeping.rules split: sum.split)

lemma fold_members:
  assumes "\<And>x acc. x \<in> set xs \<Longrightarrow> steps (calls_in C) (body x acc)"
  shows "steps (calls_in C) (fold_each body xs acc)"
  using assms by (intro calling.folded_gives [of xs "\<lambda>_. True"]) auto

lemma cleaning_each_registered:
  "steps (calls_in (cleaning_call (owned_path s))) (fold_each (clean_registered d) (rev (reg_artifacts s)) [])"
  by (rule fold_members) (auto simp: clean_registered_def owned_path_def intro!: calling.rules cleaning_registered)

lemma areas_kept_registered: "steps (keeps scope_areas) (fold_each (clean_registered d) xs acc)"
  unfolding clean_registered_def remove_registered_def Let_def weakly_canonical_def symlink_metadata_def remove_dir_def
    remove_file_def
  by (auto intro!: keeping.rules keeps_ask keeps_or_raise split: sum.split)

lemma cleaning_staged:
  assumes "scope_areas t = scope_areas s" and "cleanup_artifacts d t = (r, u)"
  shows "calls_in (cleaning_call (owned_path s)) t u"
proof -
  let ?clean = "fold_each (\<lambda>(root, a) failed.
         if area_child a = [] then return failed
         else fold_each (clean_artifact d root) (rev (area_artifacts a)) failed) (scope_areas s) []"
  have "steps (calls_in (cleaning_call (owned_path s))) (clean_artifact d root a failed)"
    if "(root, area) \<in> set (scope_areas s)" "a \<in> set (area_artifacts area)" for root area a failed
    unfolding clean_artifact_def
    by (intro calling.rules cleaning_artifact) (use that in \<open>auto simp: owned_path_def\<close>)
  then have "steps (calls_in (cleaning_call (owned_path s))) ?clean"
    by (intro fold_members) (auto intro!: calling.rules fold_members)
  moreover have "?clean t = (r, u)"
    using assms by (simp add: cleanup_artifacts_def andThen_apply run_simps)
  ultimately show ?thesis by (rule stepsD)
qed

text \<open>
  C39: Safety Cleanup of a run's temporary artifacts removes only what the run still owns: registered paths
  that were neither committed nor handed to a receipt, and recorded staging entries. Every other call of it only looks.
\<close>

theorem cleanup_removes_only_owned:
  "\<exists>cs. made_calls (snd ((cleanup d :: ('e, run_failure list) custody_action) s)) = made_calls s @ cs
     \<and> list_all (\<lambda>c. case removed_path c of None \<Rightarrow> reading c | Some p \<Rightarrow> owned_path s p) cs"
proof (cases "reg_cleaned s")
  case False
  let ?s = "s\<lparr>reg_cleaned := True\<rparr>"
  let ?cleanup = "cleanup d :: ('e, run_failure list) custody_action"
  let ?each = "fold_each (clean_registered d) (rev (reg_artifacts s)) [] :: ('e, run_failure list) custody_action"
  have run: "?cleanup s = andThen ?each (\<lambda>failed. andThen (cleanup_artifacts d) (\<lambda>staged. return (failed @ staged))) ?s"
    using False by (simp add: cleanup_def andThen_apply [of "read_state _"] andThen_apply [of "change_state _"] run_simps)
  obtain r t where each: "?each ?s = (r, t)" by fastforce
  have first: "calls_in (cleaning_call (owned_path s)) ?s t" by (rule stepsD [OF cleaning_each_registered each])
  obtain r' u where rest: "cleanup_artifacts d t = (r' :: ('e, run_failure list) outcome, u)" by fastforce
  have "scope_areas t = scope_areas s" using stepsD [OF areas_kept_registered each] by (simp add: keeps_def)
  then have "calls_in (cleaning_call (owned_path s)) t u" by (rule cleaning_staged [OF _ rest])
  then have "calls_in (cleaning_call (owned_path s)) ?s u" using first by (rule calling.trans [rotated])
  moreover have "snd (?cleanup s) = t \<or> snd (?cleanup s) = u"
    using run each rest by (cases r; cases r') (simp_all add: andThen_apply run_simps)
  ultimately have "calls_in (cleaning_call (owned_path s)) ?s (snd (?cleanup s))" using first by auto
  then show ?thesis by (simp add: calls_in_def cleaning_call_def [abs_def])
qed (simp add: cleanup_def andThen_apply run_simps)


lemma keeps_change: "(\<And>s. f (g s) = f s) \<Longrightarrow> steps (keeps f) (change_state g)"
  by (simp add: steps_def keeps_def run_simps)

lemma keeps_closed:
  "steps (keeps reg_cleaned) (fold_each (clean_registered d) xs acc)" "steps (keeps reg_cleaned) (cleanup_artifacts d)"
  unfolding clean_registered_def remove_registered_def Let_def weakly_canonical_def symlink_metadata_def remove_dir_def
    remove_file_def cleanup_artifacts_def clean_artifact_def remove_artifact_def inspect_def inspect_file_def open_file_def
    facts_of_def open_temporary_file_def delete_by_handle_def close_child_pin_def the_area_def set_area_def close_file_def
  by (auto intro!: keeping.rules keeps_ask keeps_or_raise keeps_change split: sum.split option.split prod.split)

lemma cleanup_closes: "reg_cleaned (snd ((cleanup d :: ('e, run_failure list) custody_action) s))"
proof (cases "reg_cleaned s")
  case False
  let ?rest = "andThen (fold_each (clean_registered d) (rev (reg_artifacts s)) [])
      (\<lambda>failed. andThen (cleanup_artifacts d) (\<lambda>staged. return (failed @ staged))) :: ('e, run_failure list) custody_action"
  have "steps (keeps reg_cleaned) ?rest"
    by (intro keeping.rules keeps_closed)
  moreover have "cleanup d s = ?rest (s\<lparr>reg_cleaned := True\<rparr>)"
    using False by (simp add: cleanup_def andThen_apply [of "read_state _"] andThen_apply [of "change_state _"] run_simps)
  ultimately show ?thesis by (simp add: steps_def keeps_def)
qed (simp add: cleanup_def andThen_apply run_simps)

lemma closed_refuses: "reg_cleaned s \<Longrightarrow> andThen registry_open f s = (Raise (Invalid ''Temporary artifact registration is closed.''), s)"
  by (simp add: registry_open_def andThen_apply run_simps)

lemma closed_registry:
  assumes "reg_cleaned s'"
  defines "closed \<equiv> Invalid ''Temporary artifact registration is closed.''"
  shows "cleanup d s' = (Done [], s')
     \<and> registry_prepare_root d root s' = (Raise closed, s')
     \<and> registry_stage_file d root p s' = (Raise closed, s') \<and> registry_stage_archive_file d root s' = (Raise closed, s')
     \<and> capture_publication_target d root p s' = (Raise closed, s') \<and> stage_file_for_publication d target s' = (Raise closed, s')
     \<and> capture_and_stage_file d root p s' = (Raise closed, s') \<and> stage_archive_file_for_publication d root s' = (Raise closed, s')
     \<and> register_artifact d p s' = (Raise closed, s') \<and> commit reg s' = (Raise closed, s')
     \<and> (\<exists>res. publish_receipt d lives r p policy s' = (Done res, s') \<and> publication_state res = NotPublished)"
proof -
  have "\<exists>res. publish_receipt d lives r p policy s' = (Done res, s') \<and> publication_state res = NotPublished"
    using assms(1)
    by (simp add: publish_receipt_def publish_def ready_to_publish_def receipt_owned_def andThen_apply try_action_def
        map_err_def run_simps)
  moreover have "cleanup d s' = (Done [], s')" using assms(1) by (simp add: cleanup_def andThen_apply run_simps)
  ultimately show ?thesis
    using assms(1)
    by (simp add: closed_def closed_refuses registry_prepare_root_def registry_stage_file_def
        registry_stage_archive_file_def capture_publication_target_def stage_file_for_publication_def
        capture_and_stage_file_def stage_archive_file_for_publication_def register_artifact_def commit_def andThen_simps)
qed

text \<open>
  Safety Cleanup closes the registry for good: a second cleanup does nothing and reports nothing, every
  later registration, capture, staging or commitment is refused without touching the disk, and a
  receipt that was still out publishes nothing.
\<close>

theorem cleanup_closes_registration:
  "let s' = snd (cleanup d s); closed = Invalid ''Temporary artifact registration is closed.'' in
     cleanup d s' = (Done [], s')
     \<and> registry_prepare_root d root s' = (Raise closed, s')
     \<and> registry_stage_file d root p s' = (Raise closed, s') \<and> registry_stage_archive_file d root s' = (Raise closed, s')
     \<and> capture_publication_target d root p s' = (Raise closed, s') \<and> stage_file_for_publication d target s' = (Raise closed, s')
     \<and> capture_and_stage_file d root p s' = (Raise closed, s') \<and> stage_archive_file_for_publication d root s' = (Raise closed, s')
     \<and> register_artifact d p s' = (Raise closed, s') \<and> commit reg s' = (Raise closed, s')
     \<and> (\<exists>res. publish_receipt d lives r p policy s' = (Done res, s') \<and> publication_state res = NotPublished)"
  unfolding Let_def by (rule closed_registry [OF cleanup_closes])

end
