(* ===== verification/AssetExecution.thy ===== *)
theory AssetExecution
  imports ArtifactLaws
begin

text \<open>
  The Asset Executor and the attempt adapter (\<open>execution.rs\<close>, \<open>run/asset_attempt.rs\<close>): one Routed Asset is
  loaded and optimized through a backend and, in Apply, its output is staged and published; a converted
  Texture's pinned source is removed afterwards, and a Texture or Mesh that failed to load is quarantined.
  A method of the executor that returns early raises its result. Application Log lines are left out.
\<close>

subsection \<open>The backend\<close>

text \<open>
  A backend answers from all calls made before, and any call may panic. \<open>remove_texture\<close> gets a closure: it
  either reports without running it, or runs it and reports with its answer at hand; running it again
  gives False and does nothing. \<open>to_absolute\<close> is \<open>std::path::absolute\<close>, the path itself where that fails.
\<close>

record backend =
  load_texture :: "world \<Rightarrow> path \<Rightarrow> texture_variant \<Rightarrow> bool call"
  optimize_texture :: "world \<Rightarrow> asset_operations \<Rightarrow> execution_mode \<Rightarrow> operation_result call"
  save_texture :: "world \<Rightarrow> path \<Rightarrow> bool call"
  remove_texture :: "world \<Rightarrow> path \<Rightarrow> bool option call"
  report_removal :: "world \<Rightarrow> path \<Rightarrow> bool \<Rightarrow> bool call"
  texture_failure_detail :: "world \<Rightarrow> string call"
  load_mesh :: "world \<Rightarrow> path \<Rightarrow> mesh_variant \<Rightarrow> bool call"
  optimize_mesh :: "world \<Rightarrow> path \<Rightarrow> path \<Rightarrow> execution_mode \<Rightarrow> operation_result call"
  maintain_mesh_references :: "world \<Rightarrow> execution_mode \<Rightarrow> operation_result call"
  save_mesh :: "world \<Rightarrow> path \<Rightarrow> bool call"
  optimize_animation :: "world \<Rightarrow> path \<Rightarrow> path option \<Rightarrow> execution_mode \<Rightarrow> operation_result call"
  attempt_finished :: "world \<Rightarrow> routed_asset \<Rightarrow> asset_execution_result \<Rightarrow> unit call"
  to_absolute :: "path \<Rightarrow> path"

definition ask_backend :: "disk_call \<Rightarrow> (world \<Rightarrow> 'a call) \<Rightarrow> ('e, 'a) custody_action" where
  "ask_backend c answer =
     andThen (ask_disk c answer) (\<lambda>a. case a of Returned x \<Rightarrow> return x | Panicked p \<Rightarrow> panic p)"

type_synonym 'a attempt_step = "(asset_execution_result, 'a) custody_action"

subsection \<open>Results\<close>

definition staging_failed ::
    "string \<Rightarrow> string \<Rightarrow> path \<Rightarrow> mutation_state \<Rightarrow> staging_error \<Rightarrow> asset_execution_result" where
  "staging_failed kind boundary p mutation e =
     with_service_detail (staging_error_text e) (with_operation boundary (with_path p
       (with_safe_to_continue (is_lookup e) (with_mutation mutation
         (asset_failed StagingFailed (''Failed to prepare '' @ kind @ '' staging.''))))))"

definition publication_failure ::
    "publication_result \<Rightarrow> string \<Rightarrow> path \<Rightarrow> string \<Rightarrow> asset_execution_result option" where
  "publication_failure p message affected boundary =
     (if publication_state p = PublishedAndReleased then None
      else Some (with_service_detail (error_detail p) (with_operation boundary (with_path affected
        (with_safe_to_continue (publication_safe p) (with_mutation (publication_mutation p)
          (asset_failed CommitFailed message)))))))"

definition publication_root :: "backend \<Rightarrow> path \<Rightarrow> path \<Rightarrow> path" where
  "publication_root b mod_root destination =
     (if mod_root = [] then parent_or_self destination else to_absolute b mod_root)"

text \<open>\<open>file_stem\<close> and \<open>with_extension\<close>: a name whose only dot comes first has no extension.\<close>

definition file_stem :: "string \<Rightarrow> string" where
  "file_stem name = (case rsplit_dot name of None \<Rightarrow> name | Some (before_dot, _) \<Rightarrow> if before_dot = [] then name else before_dot)"

definition with_extension :: "path \<Rightarrow> string \<Rightarrow> path" where
  "with_extension p ext =
     (case file_name p of None \<Rightarrow> p | Some name \<Rightarrow> butlast p @ [Normal (file_stem name @ CHR ''.'' # ext)])"

text \<open>\<open>fingerprint(..).ok()?\<close>, then \<open>(size != 0).then_some(..)\<close>: the file is read from its start.\<close>

definition usable_bytes :: "io_error + 64 word \<times> 64 word \<Rightarrow> (64 word \<times> 64 word) option" where
  "usable_bytes r = (case r of Err _ \<Rightarrow> None | Ok (n, hash) \<Rightarrow> if n = 0 then None else Some (n, hash))"

definition asset_fingerprint :: "disk \<Rightarrow> path \<Rightarrow> ('e, (64 word \<times> 64 word) option) custody_action" where
  "asset_fingerprint d p =
     andThen (symlink_metadata d p) (\<lambda>seen.
     if \<not> (case seen of Ok m \<Rightarrow> meta_is_file m | Err _ \<Rightarrow> False) then return None
     else
       andThen (open_file d (open_new [GenericRead] [ShareRead, ShareWrite, ShareDelete]) p) (\<lambda>opened.
       case opened of
         Err _ \<Rightarrow> return None
       | Ok h \<Rightarrow> andThen (fingerprint d h) (\<lambda>r. return (usable_bytes r))))"

subsection \<open>The pinned source of a conversion\<close>

record pinned_source =
  pin_path :: path
  pin_file :: "handle option"
  pin_identity :: file_identity
  pin_bytes :: "64 word \<times> 64 word"

definition hash_pinned :: "disk \<Rightarrow> handle \<Rightarrow> ('e, (64 word \<times> 64 word) option) custody_action" where
  "hash_pinned d h = andThen (fingerprint d h) (\<lambda>r. return (usable_bytes r))"

definition open_pinned :: "disk \<Rightarrow> path \<Rightarrow> (staging_error, pinned_source) custody_action" where
  "open_pinned d p =
     andThen (or_raise (IoFailed ''Pin Texture source'' p)
       (open_file d (open_new [ReadData, ReadAttributes] [ShareRead, ShareDelete]) p)) (\<lambda>h.
     andThen (or_raise (IoFailed ''Inspect'' p) (facts_of d h)) (\<lambda>facts.
     andThen (or_raise (IoFailed ''Identify'' p) (identity_of d h)) (\<lambda>identity.
     andThen (hash_pinned d h) (\<lambda>bytes.
     case bytes of
       Some content \<Rightarrow>
         if is_ordinary_file facts \<and> facts_links facts = 1
         then return \<lparr>pin_path = p, pin_file = Some h, pin_identity = identity, pin_bytes = content\<rparr>
         else raise (Invalid ''Convertible Texture source is not an ordinary readable file.'')
     | None \<Rightarrow> raise (Invalid ''Convertible Texture source is not an ordinary readable file.'')))))"

definition identity_at :: "disk \<Rightarrow> path \<Rightarrow> open_request \<Rightarrow> ('e, (handle \<times> file_identity) option) custody_action" where
  "identity_at d p request =
     andThen (open_file d request p) (\<lambda>opened.
     case opened of
       Err _ \<Rightarrow> return None
     | Ok h \<Rightarrow>
         andThen (facts_of d h) (\<lambda>seen.
         if \<not> (case seen of Ok found \<Rightarrow> is_ordinary_file found \<and> facts_links found = 1 | Err _ \<Rightarrow> False)
         then return None
         else andThen (identity_of d h) (\<lambda>identity.
           return (case identity of Err _ \<Rightarrow> None | Ok i \<Rightarrow> Some (h, i)))))"

definition unchanged_at_path :: "disk \<Rightarrow> pinned_source \<Rightarrow> ('e, bool) custody_action" where
  "unchanged_at_path d pin =
     (case pin_file pin of
        None \<Rightarrow> return False
      | Some h \<Rightarrow>
          andThen (identity_at d (pin_path pin) (open_new [ReadAttributes] [ShareRead, ShareWrite, ShareDelete])) (\<lambda>now.
          if \<not> (case now of None \<Rightarrow> False | Some (_, i) \<Rightarrow> i = pin_identity pin) then return False
          else andThen (hash_pinned d h) (\<lambda>bytes. return (bytes = Some (pin_bytes pin)))))"

text \<open>The answer, and the pin without its file once the deletion is set and both handles are closed.\<close>

definition remove_verified :: "disk \<Rightarrow> pinned_source \<Rightarrow> ('e, bool \<times> pinned_source) custody_action" where
  "remove_verified d pin =
     andThen (unchanged_at_path d pin) (\<lambda>same.
     if \<not> same then return (False, pin)
     else
       andThen (identity_at d (pin_path pin) (open_new [DeleteAccess, ReadAttributes] [ShareRead, ShareDelete])) (\<lambda>now.
       case now of
         None \<Rightarrow> return (False, pin)
       | Some (deletion, identity) \<Rightarrow>
           if identity \<noteq> pin_identity pin then return (False, pin)
           else
             andThen (unchanged_at_path d pin) (\<lambda>still.
             if \<not> still then return (False, pin)
             else
               andThen (delete_by_handle d deletion) (\<lambda>deleted.
               case deleted of
                 Err _ \<Rightarrow> return (False, pin)
               | Ok _ \<Rightarrow>
                   andThen (close_file deletion) (\<lambda>_.
                   andThen (case pin_file pin of None \<Rightarrow> return () | Some h \<Rightarrow> close_file h) (\<lambda>_.
                   return (True, pin\<lparr>pin_file := None\<rparr>)))))))"


subsection \<open>The executor\<close>

text \<open>A result raised by an early return is the method's result all the same.\<close>

definition settle :: "asset_execution_result attempt_step \<Rightarrow> ('e, asset_execution_result) custody_action" where
  "settle m = andThen (try_action m) (\<lambda>r. return (case r of Err early \<Rightarrow> early | Ok late \<Rightarrow> late))"

text \<open>\<open>staging_failed(kind, boundary, path, MutationState::None, &error)\<close> for a staging step.\<close>

definition or_staging_failed :: "string \<Rightarrow> string \<Rightarrow> path \<Rightarrow> (staging_error, 'a) custody_action \<Rightarrow> 'a attempt_step" where
  "or_staging_failed kind boundary p m = map_err (staging_failed kind boundary p MNone) m"

definition publish_asset_output ::
    "disk \<Rightarrow> publication_receipt \<Rightarrow> path \<Rightarrow> string \<Rightarrow> path \<Rightarrow> string \<Rightarrow> publication_result attempt_step" where
  "publish_asset_output d receipt destination message affected boundary =
     andThen (publish_receipt d True receipt destination PolicyReplace) (\<lambda>publication.
     case publication_failure publication message affected boundary of
       Some failure \<Rightarrow> raise failure
     | None \<Rightarrow> return publication)"

definition texture_failed :: "backend \<Rightarrow> asset_execution_result \<Rightarrow> 'a attempt_step" where
  "texture_failed b r = andThen (ask_backend TextureFailureDetail (texture_failure_detail b)) (\<lambda>what.
     raise (with_service_detail what r))"

definition retained_usable ::
    "disk \<Rightarrow> path \<Rightarrow> 64 word \<times> 64 word \<Rightarrow> pinned_source option \<Rightarrow> ('e, bool) custody_action" where
  "retained_usable d out output_before source_pin =
     andThen (asset_fingerprint d out) (\<lambda>now.
     if now \<noteq> Some output_before then return False
     else case source_pin of None \<Rightarrow> return False | Some pin \<Rightarrow> unchanged_at_path d pin)"

definition removal_failed :: "path \<Rightarrow> string \<Rightarrow> mutation_state \<Rightarrow> bool \<Rightarrow> asset_execution_result" where
  "removal_failed p message mutation safe =
     with_operation ''remove_texture_source'' (with_path p (with_safe_to_continue safe (with_mutation mutation
       (asset_failed SourceRemovalFailed message))))"

text \<open>\<open>remove_texture\<close> with its closure: what it reported, whether the deletion was set, and the pin.\<close>

definition request_removal ::
    "disk \<Rightarrow> backend \<Rightarrow> path \<Rightarrow> pinned_source option \<Rightarrow> (bool \<times> bool \<times> pinned_source option) attempt_step" where
  "request_removal d b p source_pin =
     andThen (ask_backend (RemoveTexture p 0) (\<lambda>w. remove_texture b w p)) (\<lambda>answer.
     case answer of
       Some reported \<Rightarrow> return (reported, False, source_pin)
     | None \<Rightarrow>
         andThen (case source_pin of
             None \<Rightarrow> return (False, None)
           | Some pin \<Rightarrow> andThen (remove_verified d pin) (\<lambda>(removed, pin). return (removed, Some pin))) (\<lambda>(removed, source_pin).
         andThen (ask_backend (RemoveTexture p 1) (\<lambda>w. report_removal b w p removed)) (\<lambda>reported.
         return (reported, removed, source_pin))))"

definition remove_source ::
    "disk \<Rightarrow> backend \<Rightarrow> path \<Rightarrow> path \<Rightarrow> 64 word \<times> 64 word \<Rightarrow> pinned_source option \<Rightarrow> mutation_state
       \<Rightarrow> asset_execution_result attempt_step" where
  "remove_source d b p out output_before source_pin mutation =
     andThen (retained_usable d out output_before source_pin) (\<lambda>usable.
     if \<not> usable then raise (removal_failed p ''Cannot verify conversion files before removal.'' mutation False)
     else
       andThen (request_removal d b p source_pin) (\<lambda>(reported, removed, source_pin).
       if \<not> reported \<or> \<not> removed
       then
         andThen (retained_usable d out output_before source_pin) (\<lambda>usable.
         texture_failed b (removal_failed p ''Failed to remove converted Texture source.''
           (if usable then mutation else MPartialOrUnknown) usable))
       else return (asset_success CCommitted)))"

definition save_and_publish_texture ::
    "disk \<Rightarrow> backend \<Rightarrow> path \<Rightarrow> path \<Rightarrow> publication_target \<Rightarrow> bool \<Rightarrow> pinned_source option
       \<Rightarrow> asset_execution_result attempt_step" where
  "save_and_publish_texture d b p out target converting source_pin =
     andThen (or_staging_failed ''Texture'' ''stage_texture'' out (stage_file_for_publication d target)) (\<lambda>receipt.
     let staged = receipt_temporary receipt;
         save_failed = (\<lambda>message. with_operation ''save_texture'' (with_path out (asset_failed SaveFailed message)))
     in andThen (ask_backend (SaveTexture staged) (\<lambda>w. save_texture b w staged)) (\<lambda>saved.
        if \<not> saved then texture_failed b (save_failed ''Failed to save Texture.'')
        else
          andThen (asset_fingerprint d staged) (\<lambda>output_before.
          case output_before of
            None \<Rightarrow> raise (save_failed ''Saved Texture is not a usable regular file.'')
          | Some output_bytes \<Rightarrow>
              andThen (publish_asset_output d receipt out ''Failed to publish Texture output.'' out ''commit_texture'') (\<lambda>publication.
              if \<not> converting then return (asset_success CCommitted)
              else remove_source d b p out output_bytes source_pin (publication_mutation publication)))))"

definition prepare_texture ::
    "disk \<Rightarrow> backend \<Rightarrow> path \<Rightarrow> path \<Rightarrow> path \<Rightarrow> bool
       \<Rightarrow> (pinned_source option \<times> publication_target) attempt_step" where
  "prepare_texture d b mod_root p out converting =
     andThen (if converting
         then andThen (or_staging_failed ''Texture'' ''pin_texture_source'' p (open_pinned d p)) (\<lambda>pin. return (Some pin))
         else return None) (\<lambda>source_pin.
     andThen (or_staging_failed ''Texture'' ''capture_texture_destination'' p
       (capture_publication_target d (publication_root b mod_root out) out)) (\<lambda>target.
     return (source_pin, target)))"

definition execute_texture :: "disk \<Rightarrow> backend \<Rightarrow> routed_asset \<Rightarrow> path \<Rightarrow> asset_execution_result attempt_step" where
  "execute_texture d b asset mod_root =
     (let p = execution_path asset in
      case asset_identity asset of
        IdTexture variant \<Rightarrow>
          (let converting = (variant = Convertible \<and> contains (asset_ops asset) Conversion);
               out = to_absolute b (if variant = Convertible then with_extension p ''dds'' else p)
           in andThen (if asset_mode asset = Apply
                then andThen (prepare_texture d b mod_root p out converting) (\<lambda>prepared. return (Some prepared))
                else return None) (\<lambda>prepared.
              andThen (ask_backend (LoadTexture p variant) (\<lambda>w. load_texture b w p variant)) (\<lambda>loaded.
              if \<not> loaded
              then texture_failed b (with_operation ''load_texture'' (with_path p (asset_failed LoadFailed ''Failed to load Texture.'')))
              else
                andThen (ask_backend (OptimizeTexture (asset_ops asset) (asset_mode asset))
                  (\<lambda>w. optimize_texture b w (asset_ops asset) (asset_mode asset))) (\<lambda>operation.
                if \<not> operation_succeeded operation
                then raise (with_service_detail (operation_message operation) (with_operation ''optimize_texture''
                  (with_path p (asset_failed OperationFailed ''Failed to optimize Texture.''))))
                else
                  case prepared of
                    None \<Rightarrow> return (asset_success CNone)
                  | Some (source_pin, target) \<Rightarrow>
                      if \<not> would_change operation then return (asset_success CNone)
                      else save_and_publish_texture d b p out target converting source_pin))))
      | _ \<Rightarrow> raise (with_path p (with_safe_to_continue False
          (asset_failed IdentityMismatch ''Texture target does not carry a Texture identity.''))))"


text \<open>What one operation on the loaded Mesh adds: an early failure, or whether it would change it.\<close>

definition mesh_operation ::
    "(asset_execution_result, operation_result) custody_action \<Rightarrow> path \<Rightarrow> string \<Rightarrow> string \<Rightarrow> bool attempt_step" where
  "mesh_operation m p message boundary =
     andThen m (\<lambda>operation.
     if \<not> operation_succeeded operation
     then raise (with_service_detail (operation_message operation) (with_operation boundary
       (with_path p (asset_failed OperationFailed message))))
     else return (would_change operation))"

definition run_mesh_operations :: "backend \<Rightarrow> routed_asset \<Rightarrow> path \<Rightarrow> bool attempt_step" where
  "run_mesh_operations b asset mod_root =
     (let p = execution_path asset; mode = asset_mode asset in
      andThen (if contains (asset_ops asset) Optimization
        then mesh_operation (ask_backend (OptimizeMesh p mod_root mode) (\<lambda>w. optimize_mesh b w p mod_root mode))
          p ''Failed to optimize Mesh.'' ''optimize_mesh''
        else return False) (\<lambda>optimized.
      andThen (if contains (asset_ops asset) asset_operation.MeshReferenceMaintenance
        then mesh_operation (ask_backend (MaintainMeshReferences mode) (\<lambda>w. maintain_mesh_references b w mode))
          p ''Failed to maintain Mesh references.'' ''maintain_mesh_references''
        else return False) (\<lambda>maintained.
      return (optimized \<or> maintained))))"

definition save_and_publish_mesh ::
    "disk \<Rightarrow> backend \<Rightarrow> path \<Rightarrow> path \<Rightarrow> publication_target \<Rightarrow> asset_execution_result attempt_step" where
  "save_and_publish_mesh d b p destination target =
     andThen (or_staging_failed ''Mesh'' ''stage_mesh'' p (stage_file_for_publication d target)) (\<lambda>receipt.
     let staged = receipt_temporary receipt in
     andThen (ask_backend (SaveMesh staged) (\<lambda>w. save_mesh b w staged)) (\<lambda>saved.
     andThen (if \<not> saved then return None else asset_fingerprint d staged) (\<lambda>content.
     if content = None
     then raise (with_operation ''save_mesh'' (with_path p (asset_failed SaveFailed ''Failed to save a usable Mesh staging file.'')))
     else
       andThen (publish_asset_output d receipt destination ''Failed to publish Mesh output.'' p ''commit_mesh'') (\<lambda>_.
       return (asset_success CCommitted)))))"

definition capture_mesh :: "disk \<Rightarrow> backend \<Rightarrow> routed_asset \<Rightarrow> path \<Rightarrow> path \<Rightarrow> publication_target option attempt_step" where
  "capture_mesh d b asset mod_root destination =
     (if asset_mode asset \<noteq> Apply then return None
      else andThen (or_staging_failed ''Mesh'' ''capture_mesh_destination'' (execution_path asset)
          (capture_publication_target d (publication_root b mod_root destination) destination)) (\<lambda>t. return (Some t)))"

definition execute_mesh :: "disk \<Rightarrow> backend \<Rightarrow> routed_asset \<Rightarrow> path \<Rightarrow> asset_execution_result attempt_step" where
  "execute_mesh d b asset mod_root =
     (let p = execution_path asset; destination = to_absolute b p in
      case asset_identity asset of
        IdMesh variant \<Rightarrow>
          andThen (capture_mesh d b asset mod_root destination) (\<lambda>target.
          andThen (ask_backend (LoadMesh p variant) (\<lambda>w. load_mesh b w p variant)) (\<lambda>loaded.
          if \<not> loaded
          then raise (with_operation ''load_mesh'' (with_path p (asset_failed LoadFailed ''Failed to load Mesh.'')))
          else
            andThen (run_mesh_operations b asset mod_root) (\<lambda>changed.
            case target of
              None \<Rightarrow> return (asset_success CNone)
            | Some t \<Rightarrow>
                if \<not> changed then return (asset_success CNone)
                else save_and_publish_mesh d b p destination t)))
      | _ \<Rightarrow> raise (with_path p (with_safe_to_continue False
          (asset_failed IdentityMismatch ''Mesh target does not carry a Mesh identity.''))))"

definition stage_animation ::
    "disk \<Rightarrow> backend \<Rightarrow> routed_asset \<Rightarrow> path \<Rightarrow> path \<Rightarrow> publication_receipt option attempt_step" where
  "stage_animation d b asset mod_root destination =
     (if asset_mode asset \<noteq> Apply then return None
      else andThen (or_staging_failed ''Animation'' ''stage_animation'' (execution_path asset)
          (capture_and_stage_file d (publication_root b mod_root destination) destination)) (\<lambda>r. return (Some r)))"

definition execute_animation :: "disk \<Rightarrow> backend \<Rightarrow> routed_asset \<Rightarrow> path \<Rightarrow> asset_execution_result attempt_step" where
  "execute_animation d b asset mod_root =
     (let p = execution_path asset; destination = to_absolute b p; mode = asset_mode asset;
          unsafe = (\<lambda>failure message. with_operation ''execute_animation'' (with_path p
            (with_safe_to_continue False (asset_failed failure message))))
      in if asset_identity asset \<noteq> IdAnimation
         then raise (unsafe IdentityMismatch ''Animation target does not carry an Animation identity.'')
         else if \<not> contains (asset_ops asset) Optimization
         then raise (unsafe OperationFailed ''Animation does not carry optimization work.'')
         else
           andThen (stage_animation d b asset mod_root destination) (\<lambda>receipt.
           let staged = map_option receipt_temporary receipt in
           andThen (ask_backend (OptimizeAnimation p staged mode) (\<lambda>w. optimize_animation b w p staged mode)) (\<lambda>operation.
           if \<not> operation_succeeded operation
           then raise (with_service_detail (operation_message operation) (with_operation ''optimize_animation''
             (with_path p (asset_failed OperationFailed ''Failed to optimize Animation.''))))
           else
             case receipt of
               None \<Rightarrow> return (asset_success CNone)
             | Some r \<Rightarrow>
                 if \<not> would_change operation then return (asset_success CNone)
                 else
                   andThen (asset_fingerprint d (receipt_temporary r)) (\<lambda>content.
                   if content = None
                   then raise (with_operation ''save_animation'' (with_path p
                     (asset_failed SaveFailed ''Animation output is not a usable regular file.'')))
                   else
                     andThen (publish_asset_output d r destination ''Failed to publish Animation output.'' p ''commit_animation'') (\<lambda>_.
                     return (asset_success CCommitted))))))"

definition execute_asset :: "disk \<Rightarrow> backend \<Rightarrow> routed_asset \<Rightarrow> path \<Rightarrow> ('e, asset_execution_result) custody_action" where
  "execute_asset d b asset mod_root =
     (case asset_target asset of
        TTexture \<Rightarrow> settle (execute_texture d b asset mod_root)
      | TMesh \<Rightarrow> settle (execute_mesh d b asset mod_root)
      | TAnimation \<Rightarrow> settle (execute_animation d b asset mod_root)
      | TArchive \<Rightarrow> return (asset_failed UnsupportedTarget ''Archive extraction and packing are owned by run orchestration.''))"

subsection \<open>Quarantine\<close>

text \<open>Text pushed onto the path as a string lands in its last component.\<close>

definition push_text :: "path \<Rightarrow> string \<Rightarrow> path" where
  "push_text p suffix =
     (case file_name p of None \<Rightarrow> p @ [Normal suffix] | Some name \<Rightarrow> butlast p @ [Normal (name @ suffix)])"

definition name_taken :: "io_error \<Rightarrow> bool" where
  "name_taken e = (raw_os_error e = Some 80 \<or> raw_os_error e = Some 183)"

text \<open>
  \<open>for suffix in 1u64..\<close>: an unbounded range counts on before it yields, and with overflow checks the count past
  the last \<open>u64\<close> panics. Without them it wraps to 0 and the loop goes on; until the panic the two builds agree.
\<close>

function quarantine_loop :: "disk \<Rightarrow> path \<Rightarrow> handle \<Rightarrow> path \<Rightarrow> nat \<Rightarrow> ('e, path option) custody_action" where
  "quarantine_loop d p h candidate suffix =
     (if 2 ^ 64 - 1 \<le> suffix then panic ''attempt to add with overflow''
      else
        andThen (rename_by_handle d h candidate RenameNoReplace) (\<lambda>renamed.
        case renamed of
          Ok _ \<Rightarrow> return (Some candidate)
        | Err e \<Rightarrow>
            if name_taken e then quarantine_loop d p h (push_text p (''.caobad.'' @ show_nat suffix)) (Suc suffix)
            else return None))"
  by pat_completeness auto
termination by (relation "measure (\<lambda>(d, p, h, candidate, suffix). 2 ^ 64 - 1 - suffix)") auto

declare quarantine_loop.simps [simp del]

definition quarantine :: "disk \<Rightarrow> backend \<Rightarrow> path \<Rightarrow> ('e, path option) custody_action" where
  "quarantine d b raw_path =
     (let p = to_absolute b raw_path in
      andThen (open_file d (open_new [DeleteAccess, ReadAttributes] [ShareRead, ShareWrite, ShareDelete]) p) (\<lambda>opened.
      case opened of
        Err _ \<Rightarrow> return None
      | Ok h \<Rightarrow> quarantine_loop d p h (push_text p ''.caobad'') 1))"

definition quarantine_failed_load ::
    "disk \<Rightarrow> backend \<Rightarrow> routed_asset \<Rightarrow> asset_execution_result \<Rightarrow> ('e, asset_execution_result) custody_action" where
  "quarantine_failed_load d b asset r =
     (if succeeded (asset_outcome r) then return r
      else if asset_mode asset \<noteq> Apply \<or> asset_target asset \<notin> {TTexture, TMesh} \<or> result_failure r \<noteq> Some LoadFailed
      then return r
      else
        andThen (quarantine d b (execution_path asset)) (\<lambda>quarantined.
        return (case quarantined of
            Some _ \<Rightarrow> with_mutation MCommitted r
          | None \<Rightarrow> with_safe_to_continue False r)))"

subsection \<open>The attempt adapter\<close>

text \<open>
  The factory observes the token on its own; \<open>BackendStopped\<close> is its answer when it saw the cancellation. The
  adapter remembers whether its backend exists, and hands on the diagnostics of its creation.
\<close>

datatype backend_creation =
    BackendCreated "run_diagnostic list"
  | BackendStopped
  | BackendFailed string "run_diagnostic list"

datatype initialization_cancelled = InitializationCancelled

record adapter_answer =
  answered_result :: asset_execution_result
  answered_diagnostics :: "run_diagnostic list"
  backend_exists :: bool

definition attempt_with_backend ::
    "disk \<Rightarrow> backend \<Rightarrow> routed_asset \<Rightarrow> path \<Rightarrow> ('e, asset_execution_result) custody_action" where
  "attempt_with_backend d b asset mod_root =
     andThen (execute_asset d b asset mod_root) (\<lambda>r.
     andThen (ask_backend (AttemptFinished asset r) (\<lambda>w. attempt_finished b w asset r)) (\<lambda>_.
     quarantine_failed_load d b asset r))"

definition adapter_attempt ::
    "disk \<Rightarrow> backend \<Rightarrow> (world \<Rightarrow> backend_creation call) \<Rightarrow> bool \<Rightarrow> routed_asset \<Rightarrow> path
       \<Rightarrow> (initialization_cancelled, adapter_answer) custody_action" where
  "adapter_attempt d b create exists asset mod_root =
     andThen (if exists then return (BackendCreated []) else ask_backend CreateBackend create) (\<lambda>created.
     case created of
       BackendStopped \<Rightarrow> raise InitializationCancelled
     | BackendFailed what observed \<Rightarrow>
         return \<lparr>answered_result = with_path (execution_path asset) (with_safe_to_continue False
             (with_mutation MPartialOrUnknown (asset_failed BackendException what))),
           answered_diagnostics = observed, backend_exists = False\<rparr>
     | BackendCreated observed \<Rightarrow>
         andThen (attempt_with_backend d b asset mod_root) (\<lambda>r.
         return \<lparr>answered_result = r, answered_diagnostics = observed, backend_exists = True\<rparr>))"

end
