(* ===== verification/AssetSafety.thy ===== *)
theory AssetSafety
  imports AssetExecution
begin

text \<open>
  What an Asset attempt does: a Dry Run only asks its backend, a result's mutation is what the attempt
  renamed, and the source of a conversion goes only once its replacement is published.
\<close>

subsection \<open>Dry Run\<close>

fun dry_call :: "disk_call \<Rightarrow> bool" where
  "dry_call CreateBackend = True"
| "dry_call (LoadTexture _ _) = True"
| "dry_call (OptimizeTexture _ mode) = (mode = DryRun)"
| "dry_call TextureFailureDetail = True"
| "dry_call (LoadMesh _ _) = True"
| "dry_call (OptimizeMesh _ _ mode) = (mode = DryRun)"
| "dry_call (MaintainMeshReferences mode) = (mode = DryRun)"
| "dry_call (OptimizeAnimation _ out mode) = (out = None \<and> mode = DryRun)"
| "dry_call (AttemptFinished _ _) = True"
| "dry_call _ = False"

text \<open>Nothing but the calls changes.\<close>

definition only_calls :: "(disk_call \<Rightarrow> bool) \<Rightarrow> custody \<Rightarrow> custody \<Rightarrow> bool" where
  "only_calls C s s' = (\<exists>cs. s' = s\<lparr>made_calls := made_calls s @ cs\<rparr> \<and> list_all C cs)"

interpretation asking: frame "only_calls C" for C
proof
  fix s t u :: custody
  show "only_calls C s s" unfolding only_calls_def by (rule exI [of _ "[]"]) simp
  show "only_calls C s t \<Longrightarrow> only_calls C t u \<Longrightarrow> only_calls C s u" by (force simp: only_calls_def)
qed

lemma asks_backend: "C c \<Longrightarrow> steps (only_calls C) (ask_backend c f)"
  unfolding ask_backend_def
proof (rule asking.seq)
  show "C c \<Longrightarrow> steps (only_calls C) (ask_disk c f)" by (auto simp: steps_def ask_disk_def only_calls_def intro!: exI [of _ "[c]"])
qed (auto intro: asking.pure split: call.split)

lemmas asking_rules = asking.rules asks_backend

lemma asks_settled: "steps (only_calls C) m \<Longrightarrow> steps (only_calls C) (settle m)"
  unfolding settle_def by (intro asking.rules)

lemma asks_failed: "steps (only_calls dry_call) (texture_failed b r)"
  unfolding texture_failed_def by (auto intro!: asking_rules)

lemma dry_executes:
  assumes "asset_mode asset = DryRun"
  shows "steps (only_calls dry_call) (execute_texture d b asset mod_root)"
    and "steps (only_calls dry_call) (execute_mesh d b asset mod_root)"
    and "steps (only_calls dry_call) (execute_animation d b asset mod_root)"
proof -
  show "steps (only_calls dry_call) (execute_texture d b asset mod_root)"
    unfolding execute_texture_def Let_def using assms
    by (auto intro!: asking_rules asks_failed split: asset_identity.split)
  show "steps (only_calls dry_call) (execute_mesh d b asset mod_root)"
    unfolding execute_mesh_def capture_mesh_def run_mesh_operations_def mesh_operation_def Let_def using assms
    by (auto intro!: asking_rules split: asset_identity.split)
  show "steps (only_calls dry_call) (execute_animation d b asset mod_root)"
    unfolding execute_animation_def stage_animation_def Let_def using assms
    by (auto intro!: asking_rules)
qed

text \<open>
  C36: A Dry Run attempt changes nothing: it makes no filesystem call at all, asks its backend only to load
  and to evaluate in Dry Run mode, gives an Animation no output path, and registers nothing.
\<close>

theorem dry_run_attempt_only_evaluates:
  assumes "asset_mode asset = DryRun"
  shows "only_calls dry_call s (snd (adapter_attempt d b create exists asset mod_root s))"
proof -
  have executed: "steps (only_calls dry_call) (execute_asset d b asset mod_root)"
    unfolding execute_asset_def
    by (auto intro!: asks_settled dry_executes assms asking.pure split: optimizer_target.split)
  have "steps (only_calls dry_call) (adapter_attempt d b create exists asset mod_root)"
    unfolding adapter_attempt_def attempt_with_backend_def quarantine_failed_load_def
    by (auto intro!: asking_rules executed simp: assms split: backend_creation.split)
  then show ?thesis by (simp add: steps_def)
qed


lemma dry_run_attempt_only_evaluates_witness:
  "\<forall>d b create s. only_calls dry_call s (snd (adapter_attempt d b create False
     \<lparr>execution_path = [Prefix ''C:'', RootDir, Normal ''a.dds''], asset_identity = IdTexture Native,
      asset_phase = LooseAssetProcessing, asset_target = TTexture, asset_mode = DryRun, asset_ops = no_operations\<rparr>
     [Prefix ''C:'', RootDir] s))"
  using dry_run_attempt_only_evaluates [of "\<lparr>execution_path = [Prefix ''C:'', RootDir, Normal ''a.dds''],
      asset_identity = IdTexture Native, asset_phase = LooseAssetProcessing, asset_target = TTexture,
      asset_mode = DryRun, asset_ops = no_operations\<rparr>"] by simp

subsection \<open>Renames\<close>

fun no_rename :: "disk_call \<Rightarrow> bool" where
  "no_rename (RenameFile _ _ _) = False"
| "no_rename _ = True"

text \<open>Whether a rename among the calls \<open>cs\<close>, made after \<open>w\<close>, was answered with success.\<close>

fun renamed_ok :: "disk \<Rightarrow> world \<Rightarrow> disk_call list \<Rightarrow> bool" where
  "renamed_ok d w [] = False"
| "renamed_ok d w (c # cs) =
     ((case c of RenameFile h p mode \<Rightarrow> d_rename d w h p mode = Ok () | _ \<Rightarrow> False) \<or> renamed_ok d (w @ [c]) cs)"

lemma renamed_ok_append: "renamed_ok d w (xs @ ys) = (renamed_ok d w xs \<or> renamed_ok d (w @ xs) ys)"
  by (induction xs arbitrary: w) auto

lemma renamed_ok_none: "list_all no_rename cs \<Longrightarrow> \<not> renamed_ok d w cs"
proof (induction cs arbitrary: w)
  case (Cons c cs)
  then show ?case by (cases c) auto
qed simp

definition tells :: "disk \<Rightarrow> custody \<Rightarrow> custody \<Rightarrow> asset_execution_result \<Rightarrow> bool" where
  "tells d s t r = (\<exists>cs. made_calls t = made_calls s @ cs
     \<and> (mutation_of (asset_outcome r) = MNone \<longleftrightarrow> \<not> renamed_ok d (made_calls s) cs))"

definition honest :: "disk \<Rightarrow> asset_execution_result attempt_step \<Rightarrow> bool" where
  "honest d m = (\<forall>s. case m s of (Done r, t) \<Rightarrow> tells d s t r | (Raise r, t) \<Rightarrow> tells d s t r | _ \<Rightarrow> True)"

definition quiet_step :: "'a attempt_step \<Rightarrow> bool" where
  "quiet_step m = (steps (calls_in no_rename) m \<and> raises (\<lambda>r. mutation_of (asset_outcome r) = MNone) m)"

definition changing :: "asset_execution_result attempt_step \<Rightarrow> bool" where
  "changing m = (steps (calls_in (\<lambda>_. True)) m \<and> raises (\<lambda>r. mutation_of (asset_outcome r) \<noteq> MNone) m
     \<and> gives (\<lambda>r. mutation_of (asset_outcome r) \<noteq> MNone) m)"

lemma tells_before: "calls_in no_rename s t \<Longrightarrow> tells d t u r \<Longrightarrow> tells d s u r"
  by (auto simp: calls_in_def tells_def renamed_ok_append renamed_ok_none)

lemma honest_after:
  assumes "quiet_step m" and "\<And>x. honest d (f x)"
  shows "honest d (andThen m f)"
  unfolding honest_def
proof
  fix s
  show "case andThen m f s of (Done r, t) \<Rightarrow> tells d s t r | (Raise r, t) \<Rightarrow> tells d s t r | _ \<Rightarrow> True"
  proof (cases m s f rule: andThen_cases)
    case (finished x t)
    have "calls_in no_rename s t" using assms(1) finished(1) by (auto simp: quiet_step_def intro: stepsD)
    then show ?thesis
      using assms(2) [of x] finished(2) tells_before [of s t d]
      unfolding honest_def by (auto split: prod.split outcome.split elim!: allE [of _ t])
  next
    case (raised e t)
    have "calls_in no_rename s t" "mutation_of (asset_outcome e) = MNone"
      using assms(1) raised(1) by (auto simp: quiet_step_def intro: stepsD raisesD)
    then show ?thesis using raised(2) by (auto simp: tells_def calls_in_def renamed_ok_none)
  qed simp
qed

lemma honest_final:
  "mutation_of (asset_outcome r) = MNone \<Longrightarrow> honest d (return r)"
  "mutation_of (asset_outcome r) = MNone \<Longrightarrow> honest d (raise r)"
  by (auto simp: honest_def run_simps tells_def)

lemma reading_no_rename: "reading c \<Longrightarrow> no_rename c" and manifest_no_rename: "manifest_call c \<Longrightarrow> no_rename c"
  by (cases c; simp)+

lemma calls_in_mono: "steps (calls_in C) m \<Longrightarrow> (\<And>c. C c \<Longrightarrow> D c) \<Longrightarrow> steps (calls_in D) m"
  by (erule steps_mono) (auto simp: calls_in_def list_all_iff)

lemmas still_reading = calls_in_mono [OF _ reading_no_rename]


text \<open>Staging renames nothing by handle, and removes only what has a reserved name.\<close>

definition staging_only :: "disk_call \<Rightarrow> bool" where
  "staging_only c = (case removed_path c of None \<Rightarrow> True | Some p \<Rightarrow> has_staging_component p)"

definition careful :: "disk_call \<Rightarrow> bool" where
  "careful c = (no_rename c \<and> staging_only c)"

lemma reading_staging_only: "reading c \<Longrightarrow> staging_only c" and manifest_staging_only: "manifest_call c \<Longrightarrow> staging_only c"
  by (cases c; simp add: staging_only_def)+

lemma reading_careful: "reading c \<Longrightarrow> careful c"
  by (simp add: careful_def reading_no_rename reading_staging_only)

lemmas careful_reading = calls_in_mono [OF _ reading_careful]

lemma reserved_component: "in_reserved_name root child p \<Longrightarrow> has_staging_component p"
proof -
  assume p: "in_reserved_name root child p"
  have "is_staging_name staging_directory" by code_simp
  then have "has_staging_component (root @ map Normal names)" if "reserved_below child names" for names
  proof -
    have "\<exists>name \<in> set names. is_staging_name name"
      using that \<open>is_staging_name staging_directory\<close> last_in_set [of names] by (auto simp: reserved_below_def)
    then show ?thesis by (force simp: has_staging_component_def list_ex_iff)
  qed
  then show ?thesis using p staging_path_reserved unfolding in_reserved_name_def by blast
qed

lemma proven_careful: "proven_removal d root s s' \<Longrightarrow> calls_in careful s s'"
proof -
  assume "proven_removal d root s s'"
  then obtain looked removed where cs: "made_calls s' = made_calls s @ looked @ removed" "list_all reading looked"
    "removed = [] \<or> (\<exists>m. area_proven d (log_of (made_calls s) looked) root m \<and> list_all (recovery_removal root m) removed)"
    unfolding proven_removal_def by blast
  have "careful c" if m: "area_proven d L root m" "recovery_removal root m c" for L m c
  proof -
    have "no_rename c" using m(2) by (cases c) auto
    moreover
    obtain child where "case removed_path c of None \<Rightarrow> True | Some p \<Rightarrow> in_reserved_name root child p"
      using proven_reserved [OF m(1)] m(2) by metis
    ultimately show ?thesis using reserved_component by (auto simp: careful_def staging_only_def split: option.splits)
  qed
  then have "list_all careful (looked @ removed)"
    using cs(2,3) reading_careful by (auto simp: list_all_iff)
  then show ?thesis using cs(1) unfolding calls_in_def by blast
qed


lemma fresh_token:
  assumes "steps (calls_in C) m"
  shows "steps (calls_in C) (with_fresh_token m)"
proof (rule stepsI)
  fix s r s'
  assume run: "with_fresh_token m s = (r, s')"
  obtain r' t where t: "m (s\<lparr>stop_token := None\<rparr>) = (r', t)" by fastforce
  then show "calls_in C s s'"
    using run stepsD [OF assms t] by (auto simp: with_fresh_token_def calls_in_def)
qed

lemma prepared_careful:
  "steps (calls_in careful) (prepare_staging_root d root)"
  unfolding prepare_staging_root_def
  by (auto intro!: calling.rules steps_mono [OF recover_proven] proven_careful)

lemma writes_careful: "steps (calls_in careful) (write_new_file d p bytes)"
  "steps (calls_in careful) (publish_manifest d root run_id child artifacts)"
  unfolding write_new_file_def publish_manifest_def open_file_def generic_def
  by (auto intro!: calls_rules simp: Let_def careful_def staging_only_def)

lemma staging_careful:
  "steps (calls_in careful) (claim_area d root)" "steps (calls_in careful) (publish_child d root a)"
  "steps (calls_in careful) (create_registered_file d root rel sibling)"
  "steps (calls_in careful) (pin_staged_parent d root dir)" "steps (calls_in careful) (nonce d)"
  "steps (calls_in careful) (staging_place d root p)"
  unfolding claim_area_def publish_child_def create_registered_file_def pin_staged_parent_def nonce_def staging_place_def
    create_dir_def set_area_def the_area_def hold_def canonical_def claim_lock_def claim_owner_lock_def open_file_def facts_of_def
    generic_def Let_def
  by (auto intro!: calls_rules calls_change writes_careful careful_reading [OF reading_entries(1)]
      careful_reading [OF reading_parents] simp: careful_def staging_only_def split: sum.split option.split staging_error.split bool.split)

lemma captured_careful:
  "steps (calls_in careful) (capture_publication_target d root p)"
  "steps (calls_in careful) (stage_file_for_publication d target)"
  "steps (calls_in careful) (capture_and_stage_file d root p)"
proof -
  have area: "steps (calls_in careful) (prepare_area d root)" for root
    unfolding prepare_area_def the_area_def
    by (auto intro!: calling.rules fresh_token prepared_careful staging_careful split: option.split)
  have staged: "steps (calls_in careful) (stage_file d root p)" for root p
    unfolding stage_file_def by (auto intro!: calling.rules staging_careful area)
  show "steps (calls_in careful) (capture_publication_target d root p)"
    "steps (calls_in careful) (stage_file_for_publication d target)"
    "steps (calls_in careful) (capture_and_stage_file d root p)"
    unfolding capture_publication_target_def stage_file_for_publication_def capture_and_stage_file_def registry_open_def
      absolute_root_def push_durable_def push_artifact_def canonical_def
    by (auto intro!: calls_rules calls_change staged careful_reading [OF reading_pin_destination]
        careful_reading [OF reading_snapshot] simp: careful_def staging_only_def)
qed

lemma captured_no_rename:
  "steps (calls_in no_rename) (capture_publication_target d root p)"
  "steps (calls_in no_rename) (stage_file_for_publication d target)"
  "steps (calls_in no_rename) (capture_and_stage_file d root p)"
  by (rule calls_in_mono [OF captured_careful(1)] calls_in_mono [OF captured_careful(2)]
      calls_in_mono [OF captured_careful(3)], simp add: careful_def)+

lemma quiet_final: "quiet_step (return x)" "mutation_of (asset_outcome r) = MNone \<Longrightarrow> quiet_step (raise r)"
  by (auto simp: quiet_step_def intro: calling.rules raises_rules)

lemma quiet_seq: "quiet_step m \<Longrightarrow> (\<And>x. quiet_step (f x)) \<Longrightarrow> quiet_step (andThen m f)"
  by (auto simp: quiet_step_def intro: calling.rules raises_rules)

lemma quiet_staging: "steps (calls_in no_rename) m \<Longrightarrow> quiet_step (or_staging_failed kind boundary p m)"
  unfolding quiet_step_def or_staging_failed_def
  by (auto intro!: calling.mapped raises_map_err simp: staging_failed_def)

lemma raises_disk: "raises Q (ask_disk c f)"
  by (simp add: raises_def ask_disk_def)

lemma raises_backend: "raises Q (ask_backend c f)"
  unfolding ask_backend_def
  by (auto intro!: raises_andThen raises_basic raises_disk split: call.split)

lemma calls_backend: "C c \<Longrightarrow> steps (calls_in C) (ask_backend c f)"
  unfolding ask_backend_def by (auto intro!: calls_rules split: call.split)

lemma quiet_backend: "no_rename c \<Longrightarrow> quiet_step (ask_backend c f)"
  by (simp add: quiet_step_def raises_backend calls_backend)

lemma quiet_reading: "steps (calls_in reading) m \<Longrightarrow> raises (\<lambda>_. False) m \<Longrightarrow> quiet_step m"
  by (auto simp: quiet_step_def raises_def intro: still_reading)

lemma reading_fingerprint: "steps (calls_in reading) (asset_fingerprint d p)" "raises (\<lambda>_. False) (asset_fingerprint d p)"
  unfolding asset_fingerprint_def symlink_metadata_def open_file_def fingerprint_def
  by (auto intro!: calls_rules raises_rules raises_disk split: sum.split)

lemma quiet_failed: "mutation_of (asset_outcome r) = MNone \<Longrightarrow> quiet_step (texture_failed b r)"
  unfolding texture_failed_def by (auto intro!: quiet_seq quiet_backend quiet_final)

lemma honest_quiet: "quiet_step m \<Longrightarrow> gives (\<lambda>r. mutation_of (asset_outcome r) = MNone) m \<Longrightarrow> honest d m"
  unfolding honest_def
proof
  fix s
  assume m: "quiet_step m" "gives (\<lambda>r. mutation_of (asset_outcome r) = MNone) m"
  obtain o' t where run: "m s = (o', t)" by fastforce
  then have "calls_in no_rename s t" using m(1) by (auto simp: quiet_step_def intro: stepsD)
  moreover have "mutation_of (asset_outcome r) = MNone" if "o' = Done r \<or> o' = Raise r" for r
    using m run that by (auto simp: quiet_step_def dest: givesD raisesD)
  ultimately show "case m s of (Done r, t) \<Rightarrow> tells d s t r | (Raise r, t) \<Rightarrow> tells d s t r | _ \<Rightarrow> True"
    using run by (auto simp: tells_def calls_in_def renamed_ok_none split: outcome.split)
qed

lemma honest_failed: "mutation_of (asset_outcome r) = MNone \<Longrightarrow> honest d (texture_failed b r)"
  by (rule honest_quiet [OF quiet_failed]) (auto simp: texture_failed_def intro: gives_after gives_raise)

lemma quiet_fingerprint: "quiet_step (asset_fingerprint d p)"
  by (intro quiet_reading reading_fingerprint)

text \<open>A publication tells of its rename, and what follows it can no longer say that nothing changed.\<close>

lemma publication_tells:
  obtains res t cs where "(publish_receipt d True r destination policy :: ('e, publication_result) custody_action) s = (Done res, t)"
    and "made_calls t = made_calls s @ cs" and "list_all staging_only cs"
    and "publication_state res = NotPublished \<longleftrightarrow> \<not> renamed_ok d (made_calls s) cs"
    and "publication_state res \<noteq> NotPublished \<Longrightarrow>
      \<exists>checks h release. cs = checks @ RenameFile h destination (rename_mode_of policy) # release
        \<and> handle_path h = receipt_temporary r
        \<and> d_rename d (made_calls s @ checks) h destination (rename_mode_of policy) = Ok ()"
proof -
  obtain res t checks renames release where run: "(publish_receipt d True r destination policy :: ('e, publication_result) custody_action) s = (Done res, t)"
    and calls: "made_calls t = made_calls s @ checks @ renames @ release"
    and quiet_step: "list_all harmless checks" "list_all manifest_call release"
    and outcome: "renames = [] \<and> release = [] \<and> publication_state res = NotPublished
        \<or> (\<exists>h. handle_path h = receipt_temporary r \<and> SyncFile h \<in> set checks
             \<and> leaf_confirmed d r destination (made_calls s @ checks)
             \<and> (if publication_state res = NotPublished
                then renames = [RenameFile h destination (rename_mode_of policy)] \<and> release = []
                  \<and> d_rename d (made_calls s @ checks) h destination (rename_mode_of policy) \<noteq> Ok ()
                else renames = [RenameFile h destination (rename_mode_of policy), CloseFile h]
                  \<and> d_rename d (made_calls s @ checks) h destination (rename_mode_of policy) = Ok ()))"
    using publication_outcome [of d True r destination policy s] by blast
  have harmless_rename: "harmless c \<Longrightarrow> no_rename c" for c
    by (cases c) (auto simp: harmless_def)
  have "list_all no_rename checks" "list_all no_rename release"
    using quiet_step harmless_rename manifest_no_rename by (auto simp: list_all_iff)
  then have "publication_state res = NotPublished \<longleftrightarrow> \<not> renamed_ok d (made_calls s) (checks @ renames @ release)"
    using outcome by (auto simp: renamed_ok_append renamed_ok_none split: if_splits)
  moreover have "harmless c \<Longrightarrow> staging_only c" for c by (cases c) (auto simp: harmless_def staging_only_def)
  then have "list_all staging_only checks" "list_all staging_only release" "list_all staging_only renames"
    using quiet_step outcome manifest_staging_only by (auto simp: list_all_iff staging_only_def [of "RenameFile _ _ _"]
        staging_only_def [of "CloseFile _"] split: if_splits)
  then have "list_all staging_only (checks @ renames @ release)" by simp
  moreover have "\<exists>before_it h after_it. checks @ renames @ release = before_it @ RenameFile h destination (rename_mode_of policy) # after_it
        \<and> handle_path h = receipt_temporary r
        \<and> d_rename d (made_calls s @ before_it) h destination (rename_mode_of policy) = Ok ()"
    if "publication_state res \<noteq> NotPublished"
    using outcome that by fastforce
  ultimately show thesis by (intro that [OF run calls])
qed


lemma honest_publish:
  assumes "\<And>x. publication_mutation x = MCommitted \<Longrightarrow> changing (f x)"
  shows "honest d (andThen (publish_asset_output d receipt destination message affected boundary) f)"
  unfolding honest_def
proof
  fix s
  obtain res t cs where run: "(publish_receipt d True receipt destination PolicyReplace
        :: (asset_execution_result, publication_result) custody_action) s = (Done res, t)"
    and calls: "made_calls t = made_calls s @ cs"
    and told: "publication_state res = NotPublished \<longleftrightarrow> \<not> renamed_ok d (made_calls s) cs"
    by (rule publication_tells)
  show "case andThen (publish_asset_output d receipt destination message affected boundary) f s of
      (Done r, t) \<Rightarrow> tells d s t r | (Raise r, t) \<Rightarrow> tells d s t r | _ \<Rightarrow> True"
  proof (cases "publication_state res = PublishedAndReleased")
    case True
    obtain o' u where rest: "f res t = (o', u)" by fastforce
    have "changing (f res)" using assms [of res] True by (simp add: publication_mutation_def)
    then have after: "calls_in (\<lambda>_. True) t u" "o' = Done r \<or> o' = Raise r \<Longrightarrow> mutation_of (asset_outcome r) \<noteq> MNone" for r
      using rest by (auto simp: changing_def intro: stepsD dest: givesD raisesD)
    have "andThen (publish_asset_output d receipt destination message affected boundary) f s = (o', u)"
      using run rest True by (simp add: publish_asset_output_def publication_failure_def andThen_apply run_simps)
    then show ?thesis
      using after calls told True by (auto simp: tells_def calls_in_def renamed_ok_append split: outcome.split)
  next
    case False
    then obtain failure where failure: "publication_failure res message affected boundary = Some failure"
      "mutation_of (asset_outcome failure) = publication_mutation res"
      by (auto simp: publication_failure_def)
    have "andThen (publish_asset_output d receipt destination message affected boundary) f s = (Raise failure, t)"
      using run failure(1) by (simp add: publish_asset_output_def andThen_apply run_simps)
    then show ?thesis
      using failure(2) calls told False
      by (auto simp: tells_def publication_mutation_def split: publication_state.splits)
  qed
qed

lemma changing_final:
  "mutation_of (asset_outcome r) \<noteq> MNone \<Longrightarrow> changing (return r)"
  "mutation_of (asset_outcome r) \<noteq> MNone \<Longrightarrow> changing (raise r)"
  by (auto simp: changing_def intro: calling.rules raises_rules gives_return gives_raise)

lemma raises_never: "raises (\<lambda>_. False) m \<Longrightarrow> raises Q m"
  by (simp add: raises_def)

lemma changing_after:
  assumes "steps (calls_in (\<lambda>_. True)) m" "raises (\<lambda>_. False) m" "\<And>x. changing (f x)"
  shows "changing (andThen m f)"
  using assms unfolding changing_def
  by (auto intro!: calling.seq gives_after raises_andThen [OF raises_never])

lemma silent_ask: "raises (\<lambda>_. False) (ask_backend c f)"
  by (rule raises_backend)

lemma removal_parts:
  "raises (\<lambda>_. False) (identity_at d p request)" "raises (\<lambda>_. False) (unchanged_at_path d pin)"
  "raises (\<lambda>_. False) (remove_verified d pin)" "raises (\<lambda>_. False) (retained_usable d out content source_pin)"
  "raises (\<lambda>_. False) (request_removal d b p source_pin)"
  unfolding identity_at_def unchanged_at_path_def remove_verified_def retained_usable_def request_removal_def hash_pinned_def
    open_file_def facts_of_def identity_of_def fingerprint_def delete_by_handle_def close_file_def
  by (auto intro!: raises_rules raises_disk raises_backend reading_fingerprint(2) split: option.split sum.split prod.split)

lemma all_calls: "steps (calls_in C) m \<Longrightarrow> steps (calls_in (\<lambda>_. True)) m"
  by (erule calls_in_mono) simp

lemma removal_calls:
  "steps (calls_in (\<lambda>_. True)) (retained_usable d out content source_pin)"
  "steps (calls_in (\<lambda>_. True)) (request_removal d b p source_pin)"
  unfolding identity_at_def unchanged_at_path_def remove_verified_def retained_usable_def request_removal_def hash_pinned_def
    open_file_def facts_of_def identity_of_def fingerprint_def delete_by_handle_def close_file_def
  by (auto intro!: calls_rules calls_backend all_calls [OF reading_fingerprint(1)] split: option.split sum.split prod.split)

lemma changing_removal:
  assumes "mutation \<noteq> MNone"
  shows "changing (remove_source d b p out content source_pin mutation)"
  unfolding remove_source_def texture_failed_def
  by (auto intro!: changing_after changing_final removal_calls removal_parts silent_ask calls_backend
      simp: assms removal_failed_def asset_success_def split: prod.split if_splits)

lemma honest_texture: "honest d (execute_texture d b asset mod_root)"
proof -
  have published: "honest d (save_and_publish_texture d b p out target converting source_pin)" for p out target converting source_pin
    unfolding save_and_publish_texture_def Let_def
    by (auto intro!: honest_after honest_publish honest_final changing_final changing_removal quiet_staging quiet_backend
        captured_no_rename honest_failed quiet_fingerprint
        split: option.split simp: asset_success_def)
  have opened: "steps (calls_in no_rename) (open_pinned d p)" for p
    unfolding open_pinned_def open_file_def facts_of_def identity_of_def hash_pinned_def fingerprint_def
    by (auto intro!: calls_rules split: option.split)
  have prepared: "quiet_step (prepare_texture d b mod_root p out converting)" for p out converting
    unfolding prepare_texture_def
    by (auto intro!: quiet_seq quiet_staging quiet_final captured_no_rename opened)
  show ?thesis
    unfolding execute_texture_def Let_def
    by (auto intro!: honest_after honest_final prepared quiet_seq quiet_final quiet_backend published honest_failed split: asset_identity.split option.split simp: asset_success_def)
qed

lemma honest_mesh: "honest d (execute_mesh d b asset mod_root)"
proof -
  have captured: "quiet_step (capture_mesh d b asset mod_root destination)" for destination
    unfolding capture_mesh_def by (auto intro!: quiet_seq quiet_staging quiet_final captured_no_rename)
  have operations: "quiet_step (run_mesh_operations b asset mod_root)"
    unfolding run_mesh_operations_def mesh_operation_def Let_def by (auto intro!: quiet_seq quiet_backend quiet_final)
  have published: "honest d (save_and_publish_mesh d b p destination target)" for p destination target
    unfolding save_and_publish_mesh_def Let_def
    by (auto intro!: honest_after honest_publish honest_final changing_final quiet_staging quiet_backend quiet_final
        captured_no_rename quiet_fingerprint simp: asset_success_def)
  show ?thesis
    unfolding execute_mesh_def Let_def
    by (auto intro!: honest_after honest_final captured operations quiet_backend published
        split: asset_identity.split option.split simp: asset_success_def)
qed

lemma honest_animation: "honest d (execute_animation d b asset mod_root)"
proof -
  have staged: "quiet_step (stage_animation d b asset mod_root destination)" for destination
    unfolding stage_animation_def by (auto intro!: quiet_seq quiet_staging quiet_final captured_no_rename)
  show ?thesis
    unfolding execute_animation_def Let_def
    by (auto intro!: honest_after honest_publish honest_final changing_final staged quiet_backend quiet_fingerprint
        split: option.split simp: asset_success_def)
qed


subsection \<open>Quarantine and the whole attempt\<close>

text \<open>What a quarantine does, whichever way it ends: it tries renames, and answers a name exactly when one succeeded.\<close>

definition tried :: "disk \<Rightarrow> custody \<Rightarrow> ('e, path option) outcome \<times> custody \<Rightarrow> bool" where
  "tried d s r = (\<exists>cs. made_calls (snd r) = made_calls s @ cs \<and> list_all (\<lambda>c. removed_path c = None) cs
     \<and> (case fst r of Done answer \<Rightarrow> answer \<noteq> None \<longleftrightarrow> renamed_ok d (made_calls s) cs | Raise _ \<Rightarrow> False | Panic _ \<Rightarrow> True))"

lemma tried_after:
  assumes "tried d t r" "made_calls t = made_calls s @ [c]" "\<not> renamed_ok d (made_calls s) [c]" "removed_path c = None"
  shows "tried d s r"
proof -
  obtain cs where cs: "made_calls (snd r) = made_calls t @ cs" "list_all (\<lambda>c. removed_path c = None) cs"
    "case fst r of Done answer \<Rightarrow> answer \<noteq> None \<longleftrightarrow> renamed_ok d (made_calls t) cs | Raise _ \<Rightarrow> False | Panic _ \<Rightarrow> True"
    using assms(1) unfolding tried_def by blast
  have "renamed_ok d (made_calls s) (c # cs) = renamed_ok d (made_calls t) cs" using assms(2,3) by simp
  then show ?thesis
    unfolding tried_def using cs assms(2,4) by (intro exI [of _ "c # cs"]) (simp split: outcome.splits)
qed

lemma quarantine_loop_tried:
  "tried d s ((quarantine_loop d p h candidate suffix :: ('e, path option) custody_action) s)"
proof (induction d p h candidate suffix arbitrary: s rule: quarantine_loop.induct)
  case (1 d p h candidate suffix)
  let ?c = "RenameFile h candidate RenameNoReplace"
  let ?s = "s\<lparr>made_calls := made_calls s @ [?c]\<rparr>"
  note loop = quarantine_loop.simps [of d p h candidate suffix] rename_by_handle_def ask_then
  consider (exhausted) "2 ^ 64 - 1 \<le> suffix"
    | (moved) "\<not> 2 ^ 64 - 1 \<le> suffix" "d_rename d (made_calls s) h candidate RenameNoReplace = Ok ()"
    | (refused) e where "\<not> 2 ^ 64 - 1 \<le> suffix" "d_rename d (made_calls s) h candidate RenameNoReplace = Err e"
    by (cases "d_rename d (made_calls s) h candidate RenameNoReplace") auto
  then show ?case
  proof cases
    case exhausted
    then show ?thesis by (simp add: loop run_simps tried_def)
  next
    case moved
    then show ?thesis by (simp add: loop run_simps tried_def)
  next
    case refused
    have again: "tried d ?s ((quarantine_loop d p h (push_text p (''.caobad.'' @ show_nat suffix)) (Suc suffix)
        :: ('e, path option) custody_action) ?s)"
      if "name_taken e" by (rule 1 [OF refused(1) that])
    show ?thesis
    proof (cases "name_taken e")
      case True
      show ?thesis
        by (rule tried_after [of d ?s _ s ?c]) (use refused True again in \<open>simp_all add: loop\<close>)
    next
      case False
      then show ?thesis using refused by (simp add: loop run_simps tried_def)
    qed
  qed
qed

lemma quarantine_tried: "tried d s ((quarantine d b p :: ('e, path option) custody_action) s)"
proof -
  let ?p = "to_absolute b p"
  let ?request = "open_new [DeleteAccess, ReadAttributes] [ShareRead, ShareWrite, ShareDelete]"
  let ?c = "OpenFile ?p ?request"
  let ?s = "s\<lparr>made_calls := made_calls s @ [?c]\<rparr>"
  show ?thesis
  proof (cases "d_open d (made_calls s) ?p ?request")
    case (Inl e)
    then show ?thesis
      by (simp add: quarantine_def Let_def open_file_def ask_then run_simps tried_def)
  next
    case (Inr x)
    then have run: "(quarantine d b p :: ('e, path option) custody_action) s = quarantine_loop d ?p
        \<lparr>handle_path = ?p, handle_serial = length (made_calls s)\<rparr> (push_text ?p ''.caobad'') 1 ?s"
      by (simp add: quarantine_def Let_def open_file_def ask_then)
    show ?thesis
      unfolding run by (rule tried_after [OF quarantine_loop_tried, of _ s ?c]) simp_all
  qed
qed

lemma quarantine_runs:
  assumes "(quarantine d b p :: ('e, path option) custody_action) s = (o', t)"
  obtains (answered) answer cs where "o' = Done answer" "made_calls t = made_calls s @ cs"
      "answer \<noteq> None \<longleftrightarrow> renamed_ok d (made_calls s) cs"
    | (overflowed) what where "o' = Panic what"
  using quarantine_tried [of d s b p, where 'e = 'e] unfolding assms tried_def by (cases o') auto


lemma settled_tells:
  assumes "honest d m" and "settle m s = (Done r, t)"
  shows "tells d s t r"
proof -
  obtain o' u where run: "m s = (o', u)" by fastforce
  then have "case o' of Done r \<Rightarrow> tells d s u r | Raise r \<Rightarrow> tells d s u r | _ \<Rightarrow> True"
    using assms(1) by (auto simp: honest_def dest: spec [of _ s])
  then show ?thesis
    using run assms(2) by (cases o') (auto simp: settle_def andThen_apply try_action_def run_simps)
qed

lemma executed_tells: "execute_asset d b asset mod_root s = (Done r, t) \<Longrightarrow> tells d s t r"
  unfolding execute_asset_def
  by (auto dest!: settled_tells [OF honest_texture] settled_tells [OF honest_mesh] settled_tells [OF honest_animation]
      simp: run_simps tells_def split: optimizer_target.splits)

lemma tells_with:
  assumes "tells d s t r" "\<not> succeeded (asset_outcome r)" "made_calls u = made_calls t @ cs" "renamed_ok d (made_calls t) cs"
  shows "tells d s u (with_mutation MCommitted r)"
  using assms by (cases "asset_outcome r") (auto simp: tells_def renamed_ok_append)

lemma tells_without:
  assumes "tells d s t r" "made_calls u = made_calls t @ cs" "\<not> renamed_ok d (made_calls t) cs"
    and "mutation_of (asset_outcome r') = mutation_of (asset_outcome r)"
  shows "tells d s u r'"
  using assms by (auto simp: tells_def renamed_ok_append)

lemma quarantined_tells:
  assumes "tells d s t r" and "(quarantine_failed_load d b asset r :: ('e, asset_execution_result) custody_action) t = (Done r', u)"
  shows "tells d s u r'"
proof (cases "succeeded (asset_outcome r) \<or> asset_mode asset \<noteq> Apply \<or> asset_target asset \<notin> {TTexture, TMesh}
    \<or> result_failure r \<noteq> Some LoadFailed")
  case True
  then show ?thesis
    using assms by (auto simp: quarantine_failed_load_def run_simps split: if_splits)
next
  case False
  obtain o' v where run: "(quarantine d b (execution_path asset) :: ('e, path option) custody_action) t = (o', v)" by fastforce
  obtain answer cs where o': "o' = Done answer" "made_calls v = made_calls t @ cs" "answer \<noteq> None \<longleftrightarrow> renamed_ok d (made_calls t) cs"
    by (cases rule: quarantine_runs [OF run])
      (use run assms(2) False in \<open>auto simp: quarantine_failed_load_def andThen_apply run_simps\<close>)
  have "(quarantine_failed_load d b asset r :: ('e, asset_execution_result) custody_action) t =
      (Done (case answer of Some _ \<Rightarrow> with_mutation MCommitted r | None \<Rightarrow> with_safe_to_continue False r), v)"
    using run o'(1) False unfolding quarantine_failed_load_def by (auto simp: andThen_apply run_simps)
  then have "u = v" "r' = (case answer of Some _ \<Rightarrow> with_mutation MCommitted r | None \<Rightarrow> with_safe_to_continue False r)"
    using assms(2) by auto
  moreover have "\<not> succeeded (asset_outcome r)" using False by simp
  ultimately show ?thesis
    using tells_with [OF assms(1) _ o'(2)] tells_without [OF assms(1) o'(2)] o'(3)
    by (cases answer) (auto simp: outcome_simps)
qed

text \<open>
  C37: The mutation an Asset attempt reports is what it did: it says that nothing changed exactly when no
  rename onto a destination, or into quarantine, took place during the attempt.
\<close>

theorem attempt_reports_its_renames:
  "case (attempt_with_backend d b asset mod_root :: ('e, asset_execution_result) custody_action) s of
     (Done r, s') \<Rightarrow> \<exists>cs. made_calls s' = made_calls s @ cs
        \<and> (mutation_of (asset_outcome r) = MNone \<longleftrightarrow> \<not> renamed_ok d (made_calls s) cs)
   | (Raise _, _) \<Rightarrow> True | (Panic _, _) \<Rightarrow> True"
proof -
  let ?finish = "\<lambda>r. (ask_backend (AttemptFinished asset r) (\<lambda>w. attempt_finished b w asset r) :: ('e, unit) custody_action)"
  have "tells d s s' r'" if attempted: "(attempt_with_backend d b asset mod_root :: ('e, asset_execution_result) custody_action) s = (Done r', s')" for r' s'
  proof -
    obtain r t v where run: "(execute_asset d b asset mod_root :: ('e, asset_execution_result) custody_action) s = (Done r, t)" "?finish r t = (Done (), v)"
      "(quarantine_failed_load d b asset r :: ('e, asset_execution_result) custody_action) v = (Done r', s')"
      using attempted unfolding attempt_with_backend_def andThen_iff by auto
    have "made_calls v = made_calls t @ [AttemptFinished asset r]"
      using run(2) by (auto simp: ask_backend_def ask_then run_simps split: call.splits)
    then have "tells d s v r"
      using tells_without [OF executed_tells [OF run(1)], of v "[AttemptFinished asset r]" r] by simp
    then show ?thesis using run(3) by (rule quarantined_tells)
  qed
  then show ?thesis unfolding tells_def by (auto split: prod.split outcome.split)
qed


subsection \<open>Removing the source of a conversion\<close>

text \<open>The removal of an Asset's own source; everything else that goes is staging.\<close>

definition source_call :: "path \<Rightarrow> disk_call \<Rightarrow> bool" where
  "source_call p c = (case removed_path c of None \<Rightarrow> True | Some q \<Rightarrow> q = p)"

text \<open>Among the calls \<open>cs\<close>, made after \<open>w\<close>, \<open>p\<close> was found a regular file and read as \<open>content\<close>, which is not empty.\<close>

definition read_usable :: "disk \<Rightarrow> world \<Rightarrow> disk_call list \<Rightarrow> path \<Rightarrow> 64 word \<times> 64 word \<Rightarrow> bool" where
  "read_usable d w cs p content =
     (\<exists>earlier m request h later. cs = earlier @ [Metadata p, OpenFile p request, ReadFile h] @ later
        \<and> d_metadata d (w @ earlier) p = Ok m \<and> meta_is_file m
        \<and> handle_path h = p \<and> d_open d (w @ earlier @ [Metadata p]) p request = Ok ()
        \<and> fingerprint_loop (d_reads d (w @ earlier @ [Metadata p, OpenFile p request]) h) 0 fnv_basis = Ok content
        \<and> fst content \<noteq> 0)"

text \<open>
  A staged file was read, renamed onto \<open>out\<close> by its handle, and \<open>out\<close> was then read back with the same content.
\<close>

definition replaced :: "disk \<Rightarrow> path \<Rightarrow> world \<Rightarrow> disk_call list \<Rightarrow> bool" where
  "replaced d out w cs =
     (\<exists>earlier h later content. cs = earlier @ RenameFile h out RenameReplace # later
        \<and> d_rename d (w @ earlier) h out RenameReplace = Ok ()
        \<and> read_usable d w earlier (handle_path h) content
        \<and> read_usable d (w @ earlier @ [RenameFile h out RenameReplace]) later out content)"

definition conversion_output :: "backend \<Rightarrow> routed_asset \<Rightarrow> path" where
  "conversion_output b asset = to_absolute b (with_extension (execution_path asset) ''dds'')"

definition converts :: "routed_asset \<Rightarrow> bool" where
  "converts asset = (asset_mode asset = Apply \<and> asset_target asset = TTexture
     \<and> asset_identity asset = IdTexture Convertible \<and> contains (asset_ops asset) Conversion)"

definition sourced :: "disk \<Rightarrow> backend \<Rightarrow> routed_asset \<Rightarrow> custody \<Rightarrow> custody \<Rightarrow> bool" where
  "sourced d b asset s s' =
     (\<exists>work removal. made_calls s' = made_calls s @ work @ removal \<and> list_all staging_only work
        \<and> (removal = [] \<or> converts asset \<and> replaced d (conversion_output b asset) (made_calls s) work
            \<and> list_all (source_call (execution_path asset)) removal))"

lemma read_usable_wider:
  "read_usable d (w @ cs) ds p content \<Longrightarrow> read_usable d w (cs @ ds) p content"
  "read_usable d w cs p content \<Longrightarrow> read_usable d w (cs @ ds) p content"
proof -
  assume "read_usable d (w @ cs) ds p content"
  then obtain earlier m request h later where "ds = earlier @ [Metadata p, OpenFile p request, ReadFile h] @ later"
    "d_metadata d (w @ cs @ earlier) p = Ok m" "meta_is_file m" "handle_path h = p" "fst content \<noteq> 0"
    "d_open d (w @ cs @ earlier @ [Metadata p]) p request = Ok ()"
    "fingerprint_loop (d_reads d (w @ cs @ earlier @ [Metadata p, OpenFile p request]) h) 0 fnv_basis = Ok content"
    unfolding read_usable_def by auto
  then show "read_usable d w (cs @ ds) p content"
    unfolding read_usable_def
    by (intro exI [of _ "cs @ earlier"] exI [of _ m] exI [of _ request] exI [of _ h] exI [of _ later]) simp
next
  assume "read_usable d w cs p content"
  then obtain earlier m request h later where "cs = earlier @ [Metadata p, OpenFile p request, ReadFile h] @ later"
    "d_metadata d (w @ earlier) p = Ok m" "meta_is_file m" "handle_path h = p" "fst content \<noteq> 0"
    "d_open d (w @ earlier @ [Metadata p]) p request = Ok ()"
    "fingerprint_loop (d_reads d (w @ earlier @ [Metadata p, OpenFile p request]) h) 0 fnv_basis = Ok content"
    unfolding read_usable_def by auto
  then show "read_usable d w (cs @ ds) p content"
    unfolding read_usable_def
    by (intro exI [of _ earlier] exI [of _ m] exI [of _ request] exI [of _ h] exI [of _ "later @ ds"]) simp
qed

lemma replaced_after: "replaced d out (w @ cs) ds \<Longrightarrow> replaced d out w (cs @ ds)"
proof -
  assume "replaced d out (w @ cs) ds"
  then obtain earlier h later content where "ds = earlier @ RenameFile h out RenameReplace # later"
    "d_rename d (w @ cs @ earlier) h out RenameReplace = Ok ()"
    "read_usable d (w @ cs) earlier (handle_path h) content"
    "read_usable d (w @ cs @ earlier @ [RenameFile h out RenameReplace]) later out content"
    unfolding replaced_def by auto
  then show ?thesis
    unfolding replaced_def
    by (intro exI [of _ "cs @ earlier"] exI [of _ h] exI [of _ later] exI [of _ content])
      (simp add: read_usable_wider)
qed

lemma fingerprint_read:
  assumes "(asset_fingerprint d p :: ('e, (64 word \<times> 64 word) option) custody_action) s = (Done (Some content), t)"
  obtains cs where "made_calls t = made_calls s @ cs" "read_usable d (made_calls s) cs p content" "list_all staging_only cs"
proof -
  let ?r = "open_new [GenericRead] [ShareRead, ShareWrite, ShareDelete]"
  let ?h = "\<lparr>handle_path = p, handle_serial = Suc (length (made_calls s))\<rparr>"
  have "made_calls t = made_calls s @ [Metadata p, OpenFile p ?r, ReadFile ?h]"
    "read_usable d (made_calls s) [Metadata p, OpenFile p ?r, ReadFile ?h] p content"
    using assms unfolding read_usable_def
    by (auto intro!: exI [of _ "[]"] simp: asset_fingerprint_def symlink_metadata_def open_file_def fingerprint_def ask_then run_simps usable_bytes_def
        split: sum.splits if_splits prod.splits)
  then show thesis by (rule that) (simp add: staging_only_def)
qed

lemma sourced_work: "calls_in staging_only s t \<Longrightarrow> sourced d b asset s t"
  unfolding calls_in_def sourced_def by (elim exE conjE) (rule exI, rule exI [of _ "[]"], auto)

lemma sourced_after:
  assumes "calls_in staging_only s t" "sourced d b asset t u"
  shows "sourced d b asset s u"
proof -
  obtain cs work removal where "made_calls t = made_calls s @ cs" "list_all staging_only cs"
    "made_calls u = made_calls t @ work @ removal" "list_all staging_only work"
    "removal = [] \<or> converts asset \<and> replaced d (conversion_output b asset) (made_calls t) work
       \<and> list_all (source_call (execution_path asset)) removal"
    using assms unfolding calls_in_def sourced_def by blast
  then have "made_calls u = made_calls s @ (cs @ work) @ removal \<and> list_all staging_only (cs @ work)
      \<and> (removal = [] \<or> converts asset \<and> replaced d (conversion_output b asset) (made_calls s) (cs @ work)
          \<and> list_all (source_call (execution_path asset)) removal)"
    by (auto intro: replaced_after)
  then show ?thesis unfolding sourced_def by blast
qed

lemma sourced_seq:
  assumes "steps (calls_in staging_only) m" "gives Q m" "\<And>x. Q x \<Longrightarrow> steps (sourced d b asset) (f x)"
  shows "steps (sourced d b asset) (andThen m f)"
proof (rule stepsI)
  fix s r s'
  assume run: "andThen m f s = (r, s')"
  show "sourced d b asset s s'"
  proof (cases m s f rule: andThen_cases)
    case (finished x t)
    have "f x t = (r, s')" using run finished by simp
    then have "sourced d b asset t s'" by (rule stepsD [OF assms(3) [OF givesD [OF assms(2) finished(1)]]])
    then show ?thesis by (rule sourced_after [OF stepsD [OF assms(1) finished(1)]])
  next
    case (raised e t)
    then show ?thesis using run sourced_work [OF stepsD [OF assms(1)]] by simp
  next
    case (panicked q t)
    then show ?thesis using run sourced_work [OF stepsD [OF assms(1)]] by simp
  qed
qed

lemmas sourced_then = sourced_seq [where Q = "\<lambda>_. True", OF _ gives_True]

lemma sourced_end: "steps (calls_in staging_only) m \<Longrightarrow> steps (sourced d b asset) m"
  by (auto simp: steps_def intro: sourced_work)

lemma published_staging_only:
  "steps (calls_in staging_only) (publish_receipt d True r destination policy :: ('e, publication_result) custody_action)"
proof (rule stepsI)
  let ?publish = "publish_receipt d True r destination policy :: ('e, publication_result) custody_action"
  fix s o' t
  assume run: "?publish s = (o', t)"
  obtain res s' cs where "?publish s = (Done res, s')" "made_calls s' = made_calls s @ cs" "list_all staging_only cs"
    by (rule publication_tells)
  then show "calls_in staging_only s t" using run by (auto simp: calls_in_def)
qed


lemma reading_source: "reading c \<Longrightarrow> source_call p c"
  by (cases c) (auto simp: source_call_def)

lemma gives_identity_at: "gives (\<lambda>r. case r of None \<Rightarrow> True | Some (h, _) \<Rightarrow> handle_path h = p) (identity_at d p request)"
  unfolding identity_at_def
  by (rule gives_andThen [OF gives_open])
    (auto intro!: gives_after gives_return split: sum.split)

lemma reading_source_pins: "steps (calls_in reading) (identity_at d p (open_new a sh))" "steps (calls_in reading) (unchanged_at_path d pin)"
  "steps (calls_in reading) (retained_usable d out content source_pin)"
  unfolding retained_usable_def unchanged_at_path_def identity_at_def hash_pinned_def open_file_def facts_of_def identity_of_def
    fingerprint_def
  by (auto intro!: calls_rules reading_fingerprint split: option.split sum.split)

lemma source_reading: "steps (calls_in reading) m \<Longrightarrow> steps (calls_in (source_call p)) m"
  by (erule calls_in_mono) (rule reading_source)

lemma verified_removal: "steps (calls_in (source_call (pin_path pin))) (remove_verified d pin)"
proof -
  have deleted: "steps (calls_in (source_call (pin_path pin))) (delete_by_handle d h)" if "handle_path h = pin_path pin" for h
    unfolding delete_by_handle_def by (rule calls_ask) (simp add: source_call_def that)
  have closed: "steps (calls_in (source_call (pin_path pin))) (close_file h)" for h
    unfolding close_file_def by (rule calls_ask) (simp add: source_call_def)
  show ?thesis
    unfolding remove_verified_def
    by (rule calling.seq [OF source_reading [OF reading_source_pins(2)]], rule calling.branch, rule calling.pure,
        rule calling.seq_given [OF source_reading [OF reading_source_pins(1)] gives_identity_at])
      (auto intro!: calling.rules deleted closed source_reading [OF reading_source_pins(2)] split: option.split sum.split prod.split)
qed

lemma retained_read:
  assumes "(retained_usable d out content source_pin :: ('e, bool) custody_action) s = (Done True, t)"
  obtains cs where "made_calls t = made_calls s @ cs" "read_usable d (made_calls s) cs out content" "list_all staging_only cs"
proof -
  obtain now u where now: "(asset_fingerprint d out :: ('e, (64 word \<times> 64 word) option) custody_action) s = (Done now, u)"
    "((if now \<noteq> Some content then return False
       else case source_pin of None \<Rightarrow> return False | Some pin \<Rightarrow> unchanged_at_path d pin) :: ('e, bool) custody_action) u = (Done True, t)"
    using assms unfolding retained_usable_def andThen_iff by blast
  then have same: "now = Some content" by (auto simp: run_simps split: if_splits)
  then obtain pin where "(unchanged_at_path d pin :: ('e, bool) custody_action) u = (Done True, t)"
    using now(2) by (auto simp: run_simps split: option.splits)
  then have "calls_in reading u t" by (rule stepsD [OF reading_source_pins(2)])
  then obtain cs' where cs': "made_calls t = made_calls u @ cs'" "list_all reading cs'" unfolding calls_in_def by blast
  obtain cs where "made_calls u = made_calls s @ cs" "read_usable d (made_calls s) cs out content" "list_all staging_only cs"
    by (rule fingerprint_read) (use now(1) same in simp)
  then show thesis
    using cs' reading_staging_only by (intro that [of "cs @ cs'"]) (auto simp: read_usable_wider list_all_iff)
qed

lemma source_removal:
  assumes "\<forall>pin. source_pin = Some pin \<longrightarrow> pin_path pin = p"
    and "remove_source d b p out content source_pin mutation s = (o', t)"
  obtains work removal where "made_calls t = made_calls s @ work @ removal" "list_all staging_only work"
    "removal = [] \<or> read_usable d (made_calls s) work out content \<and> list_all (source_call p) removal"
proof -
  have verified: "steps (calls_in (source_call p)) (remove_verified d pin)" if "source_pin = Some pin" for pin
    using verified_removal [of pin d] assms(1) that by simp
  have requested: "steps (calls_in (source_call p)) (request_removal d b p source_pin)"
    unfolding request_removal_def
    by (cases source_pin) (auto intro!: calling.rules calls_backend verified simp: source_call_def split: option.split prod.split)
  let ?look = "retained_usable d out content source_pin :: bool attempt_step"
  let ?rest = "\<lambda>usable. if \<not> usable then raise (removal_failed p ''Cannot verify conversion files before removal.'' mutation False)
     else
       andThen (request_removal d b p source_pin) (\<lambda>(reported, removed, source_pin).
       if \<not> reported \<or> \<not> removed
       then
         andThen (retained_usable d out content source_pin) (\<lambda>usable.
         texture_failed b (removal_failed p ''Failed to remove converted Texture source.''
           (if usable then mutation else MPartialOrUnknown) usable))
       else return (asset_success CCommitted))"
  have rest: "steps (calls_in (source_call p)) (?rest True)"
    unfolding texture_failed_def
    by (auto intro!: calling.rules requested calls_backend source_reading [OF reading_source_pins(3)] simp: source_call_def
        split: prod.split)
  have run: "andThen ?look ?rest s = (o', t)"
    using assms(2) unfolding remove_source_def .
  show thesis
  proof (cases "?look s" rule: prod.exhaust)
    case (Pair r u)
    have looked: "calls_in staging_only s u"
      by (rule stepsD [OF calls_in_mono [OF reading_source_pins(3) reading_staging_only] Pair])
    show thesis
    proof (cases "r = Done True")
      case True
      then obtain work where work: "made_calls u = made_calls s @ work" "read_usable d (made_calls s) work out content" "list_all staging_only work"
        using Pair by (auto elim: retained_read)
      have "andThen ?look ?rest s = ?rest True u"
        by (rule andThen_simps(1)) (use Pair True in simp)
      then have "?rest True u = (o', t)" using run by (simp only:)
      then obtain removal where "made_calls t = made_calls u @ removal" "list_all (source_call p) removal"
        using stepsD [OF rest] unfolding calls_in_def by blast
      then show thesis using work by (intro that [of work removal]) auto
    next
      case False
      then have "t = u" using run Pair by (cases r) (auto simp: andThen_apply run_simps)
      then show thesis using looked by (auto simp: calls_in_def intro!: that [of _ "[]"])
    qed
  qed
qed


text \<open>Once the staged file was read as \<open>content\<close>.\<close>

lemma sourced_publication:
  assumes pins: "\<forall>pin. source_pin = Some pin \<longrightarrow> pin_path pin = execution_path asset"
    and conversion: "converting \<Longrightarrow> converts asset \<and> out = conversion_output b asset"
  shows "steps (sourced d b asset) (andThen (asset_fingerprint d (receipt_temporary receipt)) (\<lambda>output_before.
     case output_before of
       None \<Rightarrow> raise failure
     | Some content \<Rightarrow>
         andThen (publish_asset_output d receipt out message affected boundary) (\<lambda>publication.
         if \<not> converting then return (asset_success CCommitted)
         else remove_source d b (execution_path asset) out content source_pin (publication_mutation publication))))"
    (is "steps _ (andThen ?read ?rest)")
proof (rule stepsI)
  fix s o' v
  assume attempted: "andThen ?read ?rest s = (o', v)"
  obtain r t where read: "?read s = (r, t)" by fastforce
  have first: "calls_in staging_only s t"
    by (rule stepsD [OF calls_in_mono [OF reading_fingerprint(1) reading_staging_only] read])
  show "sourced d b asset s v"
  proof (cases "\<exists>content. r = Done (Some content)")
    case False
    then have "v = t" using attempted read by (cases r) (auto simp: andThen_apply run_simps split: option.splits)
    then show ?thesis using sourced_work [OF first] by simp
  next
    case True
    then obtain content where content: "r = Done (Some content)" by blast
    obtain cs where cs: "made_calls t = made_calls s @ cs" "read_usable d (made_calls s) cs (receipt_temporary receipt) content"
      "list_all staging_only cs"
      using read content by (auto elim: fingerprint_read)
    obtain res u ps where run: "(publish_receipt d True receipt out PolicyReplace
          :: (asset_execution_result, publication_result) custody_action) t = (Done res, u)"
      and ps: "made_calls u = made_calls t @ ps" "list_all staging_only ps"
      and moved: "publication_state res \<noteq> NotPublished \<Longrightarrow>
        \<exists>checks h release. ps = checks @ RenameFile h out (rename_mode_of PolicyReplace) # release
          \<and> handle_path h = receipt_temporary receipt
          \<and> d_rename d (made_calls t @ checks) h out (rename_mode_of PolicyReplace) = Ok ()"
      by (rule publication_tells [of d receipt out PolicyReplace t]) (rule that)
    let ?after = "\<lambda>publication. if \<not> converting then return (asset_success CCommitted)
         else remove_source d b (execution_path asset) out content source_pin (publication_mutation publication)"
    have published: "andThen (publish_asset_output d receipt out message affected boundary) ?after t = (o', v)"
      using attempted read content by (simp add: andThen_apply)
    show ?thesis
    proof (cases "publication_state res = PublishedAndReleased \<and> converting")
      case False
      then have "v = u"
        using run published
        by (auto simp: publish_asset_output_def publication_failure_def andThen_apply run_simps split: if_splits)
      then show ?thesis
        using sourced_work [of s u d b asset] cs ps by (auto simp: calls_in_def)
    next
      case True
      then have "remove_source d b (execution_path asset) out content source_pin (publication_mutation res) u = (o', v)"
        using run published by (simp add: publish_asset_output_def publication_failure_def andThen_apply run_simps)
      then obtain look removal where rest: "made_calls v = made_calls u @ look @ removal" "list_all staging_only look"
        "removal = [] \<or> read_usable d (made_calls u) look out content \<and> list_all (source_call (execution_path asset)) removal"
        using source_removal [OF pins] by metis
      obtain checks h release where moves: "ps = checks @ RenameFile h out RenameReplace # release"
        "handle_path h = receipt_temporary receipt" "d_rename d (made_calls t @ checks) h out RenameReplace = Ok ()"
        using moved True by (auto simp: rename_mode_of_def)
      have "replaced d out (made_calls s) (cs @ ps @ look)" if "read_usable d (made_calls u) look out content"
      proof -
        have "read_usable d (made_calls s @ (cs @ checks) @ [RenameFile h out RenameReplace]) (release @ look) out content"
          using that cs(1) ps(1) moves(1) by (intro read_usable_wider) simp
        then show ?thesis
          unfolding replaced_def using cs moves
          by (intro exI [of _ "cs @ checks"] exI [of _ h] exI [of _ "release @ look"] exI [of _ content])
            (simp add: read_usable_wider)
      qed
      then have "made_calls v = made_calls s @ (cs @ ps @ look) @ removal \<and> list_all staging_only (cs @ ps @ look)
          \<and> (removal = [] \<or> converts asset \<and> replaced d (conversion_output b asset) (made_calls s) (cs @ ps @ look)
              \<and> list_all (source_call (execution_path asset)) removal)"
        using cs ps rest conversion True by auto
      then show ?thesis unfolding sourced_def by blast
    qed
  qed
qed

lemma staging_backend: "removed_path c = None \<Longrightarrow> steps (calls_in staging_only) (ask_backend c f)"
  by (rule calls_backend) (simp add: staging_only_def)

lemma staging_reading: "steps (calls_in reading) m \<Longrightarrow> steps (calls_in staging_only) m"
  by (erule calls_in_mono) (rule reading_staging_only)

lemma staging_careful_calls: "steps (calls_in careful) m \<Longrightarrow> steps (calls_in staging_only) (or_staging_failed kind boundary p m)"
  unfolding or_staging_failed_def by (intro calling.mapped) (auto elim: calls_in_mono simp: careful_def)

lemma staging_failure: "steps (calls_in staging_only) (texture_failed b r)"
  unfolding texture_failed_def by (auto intro!: calling.rules staging_backend)

lemma texture_sourced:
  assumes "asset_target asset = TTexture"
  shows "steps (sourced d b asset) (execute_texture d b asset mod_root)"
proof -
  let ?p = "execution_path asset"
  let ?pinned = "\<lambda>prepared. \<forall>source_pin target. prepared = Some (source_pin, target) \<longrightarrow>
      asset_mode asset = Apply \<and> (\<forall>pin. source_pin = Some pin \<longrightarrow> pin_path pin = ?p)"
  have opened: "steps (calls_in reading) (open_pinned d ?p)"
    unfolding open_pinned_def open_file_def facts_of_def identity_of_def hash_pinned_def fingerprint_def
    by (auto intro!: calls_rules split: option.split)
  have pinned: "gives (\<lambda>pin. pin_path pin = ?p) (open_pinned d ?p)"
    unfolding open_pinned_def by (auto intro!: gives_after gives_return gives_raise split: option.split)
  have prepared: "steps (calls_in staging_only) (prepare_texture d b mod_root ?p out converting)" for out converting
    unfolding prepare_texture_def
    by (auto intro!: calling.rules staging_careful_calls captured_careful careful_reading [OF opened])
  have prepared_pin: "gives (\<lambda>(source_pin, _). \<forall>pin. source_pin = Some pin \<longrightarrow> pin_path pin = ?p) (prepare_texture d b mod_root ?p out converting)" for out converting
  proof -
    have "gives (\<lambda>source_pin. \<forall>pin. source_pin = Some pin \<longrightarrow> pin_path pin = ?p)
        (if converting
         then andThen (or_staging_failed ''Texture'' ''pin_texture_source'' ?p (open_pinned d ?p)) (\<lambda>pin. return (Some pin))
         else return None)"
    proof (cases converting)
      case True
      have "gives (\<lambda>pin. pin_path pin = ?p) (or_staging_failed ''Texture'' ''pin_texture_source'' ?p (open_pinned d ?p))"
        unfolding or_staging_failed_def using pinned by (auto simp: gives_def map_err_Done)
      then show ?thesis using True by (auto intro: gives_andThen gives_return)
    qed (simp add: gives_return)
    then show ?thesis
      unfolding prepare_texture_def by (rule gives_andThen) (auto intro!: gives_after gives_return)
  qed
  have quiet_end: "steps (sourced d b asset) (texture_failed b r)" "steps (sourced d b asset) (raise r)"
    "steps (sourced d b asset) (return x)" for r x :: asset_execution_result
    by (auto intro: sourced_end staging_failure calling.pure)
  have saved: "steps (sourced d b asset) (andThen (ask_backend (SaveTexture staged) g) f)"
    if "\<And>x. steps (sourced d b asset) (f x)" for staged g f
    by (rule sourced_then [OF staging_backend that]) simp
  have published: "steps (sourced d b asset) (save_and_publish_texture d b ?p out target converting source_pin)"
    if "\<forall>pin. source_pin = Some pin \<longrightarrow> pin_path pin = ?p" "converting \<Longrightarrow> converts asset \<and> out = conversion_output b asset"
    for out target converting source_pin
    unfolding save_and_publish_texture_def Let_def
    by (rule sourced_then [OF staging_careful_calls [OF captured_careful(2)]])
      (auto intro!: saved quiet_end sourced_publication that)
  have ready: "steps (calls_in staging_only) (if asset_mode asset = Apply
        then andThen (prepare_texture d b mod_root ?p out converting) (\<lambda>prepared. return (Some prepared)) else return None)"
    and ready_pin: "gives ?pinned (if asset_mode asset = Apply
        then andThen (prepare_texture d b mod_root ?p out converting) (\<lambda>prepared. return (Some prepared)) else return None)"
    for out converting
    by (auto intro!: calling.rules prepared gives_andThen [OF prepared_pin] gives_return)
  have loaded: "steps (sourced d b asset) (andThen (ask_backend (LoadTexture ?p variant) f) g)"
    if "\<And>x. steps (sourced d b asset) (g x)" for variant f g
    by (rule sourced_then [OF staging_backend that]) simp
  have optimized: "steps (sourced d b asset) (andThen (ask_backend (OptimizeTexture ops mode) f) g)"
    if "\<And>x. steps (sourced d b asset) (g x)" for ops mode f g
    by (rule sourced_then [OF staging_backend that]) simp
  show ?thesis
  proof (cases "asset_identity asset")
    case (IdTexture variant)
    show ?thesis
      unfolding execute_texture_def Let_def IdTexture asset_identity.case
      by (rule sourced_seq [OF ready ready_pin])
        (auto intro!: loaded optimized quiet_end published split: option.split
          simp: assms IdTexture converts_def conversion_output_def)
  qed (simp_all add: execute_texture_def Let_def quiet_end)
qed


lemma published_output_only: "steps (calls_in staging_only) (publish_asset_output d receipt destination message affected boundary)"
  unfolding publish_asset_output_def by (auto intro!: calling.rules published_staging_only split: option.split)

lemma mesh_staging_only: "steps (calls_in staging_only) (execute_mesh d b asset mod_root)"
  unfolding execute_mesh_def capture_mesh_def run_mesh_operations_def mesh_operation_def save_and_publish_mesh_def Let_def
  by (auto intro!: calling.rules staging_backend staging_careful_calls captured_careful published_output_only
      staging_reading [OF reading_fingerprint(1)] split: asset_identity.split option.split)

lemma animation_staging_only: "steps (calls_in staging_only) (execute_animation d b asset mod_root)"
proof -
  have staged: "steps (calls_in staging_only) (stage_animation d b asset mod_root destination)" for destination
    unfolding stage_animation_def by (auto intro!: calling.rules staging_careful_calls captured_careful)
  have asked: "steps (calls_in staging_only) (ask_backend (OptimizeAnimation p out mode) f)" for p out mode f
    by (rule staging_backend) simp
  show ?thesis
    unfolding execute_animation_def Let_def
    by (rule calling.branch, rule calling.pure, rule calling.branch, rule calling.pure, rule calling.seq [OF staged],
        rule calling.seq [OF asked], rule calling.branch, rule calling.pure, simp split: option.split)
      (auto intro!: calling.rules published_output_only staging_reading [OF reading_fingerprint(1)])
qed

lemma executed_sourced: "steps (sourced d b asset) (execute_asset d b asset mod_root)"
proof -
  have settled: "steps R (settle m)" if "steps R m" for R and m :: "asset_execution_result attempt_step"
    using that by (auto simp: steps_def settle_def andThen_apply try_action_def run_simps split: prod.splits outcome.splits)
      (metis snd_conv)+
  show ?thesis
    unfolding execute_asset_def
    by (cases "asset_target asset") (auto intro!: settled texture_sourced
        settled [OF sourced_end [OF mesh_staging_only]] settled [OF sourced_end [OF animation_staging_only]]
        sourced_end [OF calling.pure(1)])
qed

lemma sourced_then_neutral:
  assumes "sourced d b asset s t" "calls_in (\<lambda>c. removed_path c = None) t u"
  shows "sourced d b asset s u"
proof -
  obtain work removal cs where w: "made_calls t = made_calls s @ work @ removal" "list_all staging_only work"
    "removal = [] \<or> converts asset \<and> replaced d (conversion_output b asset) (made_calls s) work
      \<and> list_all (source_call (execution_path asset)) removal"
    "made_calls u = made_calls t @ cs" "list_all (\<lambda>c. removed_path c = None) cs"
    using assms unfolding sourced_def calls_in_def by blast
  have cs: "list_all staging_only cs" "list_all (source_call (execution_path asset)) cs"
    using w(5) by (auto simp: list_all_iff staging_only_def source_call_def)
  show ?thesis
  proof (cases "removal = []")
    case True
    then have "made_calls u = made_calls s @ (work @ cs) @ []" "list_all staging_only (work @ cs)" using w cs by auto
    then show ?thesis unfolding sourced_def by blast
  next
    case False
    then have "made_calls u = made_calls s @ work @ removal @ cs" "list_all (source_call (execution_path asset)) (removal @ cs)" using w cs by auto
    then show ?thesis using w False unfolding sourced_def by blast
  qed
qed

lemma quarantine_neutral: "steps (calls_in (\<lambda>c. removed_path c = None)) (quarantine_failed_load d b asset r)"
proof -
  have "steps (calls_in (\<lambda>c. removed_path c = None)) (quarantine d b p)" for p
    using quarantine_tried [of d _ b p] by (auto simp: steps_def calls_in_def tried_def)
  then show ?thesis
    unfolding quarantine_failed_load_def by (auto intro!: calling.rules split: option.split)
qed

text \<open>
  C35: An attempt removes nothing but entries with a reserved staging name, until it removes the source of a
  conversion. It does so only in an Apply of a Convertible Texture, and only after the staged result, read as a
  usable file, was renamed onto the converted output path, and that path was then read back with the same
  content; and from then on it removes nothing but the Asset's own path.
\<close>

theorem source_goes_after_its_replacement:
  "\<exists>work removal. made_calls (snd ((attempt_with_backend d b asset mod_root :: ('e, asset_execution_result) custody_action) s)) = made_calls s @ work @ removal
     \<and> list_all (\<lambda>c. case removed_path c of None \<Rightarrow> True | Some p \<Rightarrow> has_staging_component p) work
     \<and> (removal = [] \<or>
          converts asset
          \<and> replaced d (to_absolute b (with_extension (execution_path asset) ''dds'')) (made_calls s) work
          \<and> list_all (\<lambda>c. case removed_path c of None \<Rightarrow> True | Some p \<Rightarrow> p = execution_path asset) removal)"
proof -
  let ?attempt = "attempt_with_backend d b asset mod_root :: ('e, asset_execution_result) custody_action"
  let ?C = "\<lambda>c. removed_path c = None"
  obtain o' t where run: "(execute_asset d b asset mod_root :: ('e, asset_execution_result) custody_action) s = (o', t)" by fastforce
  have rest: "steps (calls_in ?C) (andThen (ask_backend (AttemptFinished asset r) f) (\<lambda>_. quarantine_failed_load d b asset r :: ('e, asset_execution_result) custody_action))"
    for f :: "world \<Rightarrow> unit call" and r
    by (intro calling.seq calls_backend quarantine_neutral) simp
  have "sourced d b asset s t" by (rule stepsD [OF executed_sourced run])
  moreover have "calls_in ?C t (snd (?attempt s))"
    using run rest by (cases o') (auto simp: attempt_with_backend_def andThen_apply [of "execute_asset _ _ _ _"] calling.same steps_def)
  ultimately have "sourced d b asset s (snd (?attempt s))"
    by (rule sourced_then_neutral)
  then show ?thesis unfolding sourced_def conversion_output_def staging_only_def [abs_def] source_call_def [abs_def] .
qed

end
