(* ===== verification/AssetCompletion.thy ===== *)
theory AssetCompletion
  imports AssetSafety
begin

text \<open>
  An Asset attempt always ends in a result when its backend does: the expectations of the staging scope are
  never disappointed, and every loop of the attempt ends.
\<close>

subsection \<open>Actions that need a state\<close>

text \<open>\<open>fulfils P m Q\<close>: from a state with \<open>P\<close>, \<open>m\<close> does not panic and returns only to a state with \<open>Q\<close>.\<close>

definition fulfils :: "('s \<Rightarrow> bool) \<Rightarrow> ('s, 'e, 'a) action \<Rightarrow> ('s \<Rightarrow> bool) \<Rightarrow> bool" where
  "fulfils P m Q = (\<forall>s. P s \<longrightarrow> (case m s of (Done x, t) \<Rightarrow> Q t | (Raise e, t) \<Rightarrow> True | (Panic p, t) \<Rightarrow> False))"

lemma fulfils_seq:
  assumes "fulfils P m Q" "\<And>x. fulfils Q (f x) R"
  shows "fulfils P (andThen m f) R"
  unfolding fulfils_def
proof (intro allI impI)
  fix s
  assume "P s"
  then have m: "case m s of (Done x, t) \<Rightarrow> Q t | (Raise e, t) \<Rightarrow> True | (Panic p, t) \<Rightarrow> False"
    using assms(1) by (simp add: fulfils_def)
  show "case andThen m f s of (Done x, t) \<Rightarrow> R t | (Raise e, t) \<Rightarrow> True | (Panic p, t) \<Rightarrow> False"
  proof (cases m s f rule: andThen_cases)
    case (finished x t)
    then show ?thesis using m assms(2) [of x] by (simp add: fulfils_def)
  qed (use m in simp_all)
qed

lemma fulfils_free: "panic_free m \<Longrightarrow> steps R m \<Longrightarrow> (\<And>s t. P s \<Longrightarrow> R s t \<Longrightarrow> Q t) \<Longrightarrow> fulfils P m Q"
  unfolding fulfils_def
  by (auto split: prod.splits outcome.splits dest: panic_freeD stepsD)

lemma fulfils_raise: "fulfils P (raise e) Q"
  by (simp add: fulfils_def run_simps)

lemma panic_free_fulfils:
  assumes "fulfils (\<lambda>_. True) m Q"
  shows "panic_free m"
  unfolding panic_free_def
proof
  fix s
  obtain o' t where "m s = (o', t)" by fastforce
  then show "case fst (m s) of Panic _ \<Rightarrow> False | _ \<Rightarrow> True"
    using assms by (cases o') (auto simp: fulfils_def dest: spec [of _ s])
qed

definition known :: "path \<Rightarrow> custody \<Rightarrow> bool" where
  "known root s = (area_at root s \<noteq> None)"

definition keeps_known :: "path \<Rightarrow> custody \<Rightarrow> custody \<Rightarrow> bool" where
  "keeps_known root s t = (known root s \<longrightarrow> known root t)"

interpretation knowing: frame "keeps_known root" for root
  by unfold_locales (auto simp: keeps_known_def)

lemma known_areas: "known root s \<longleftrightarrow> root \<in> fst ` set (scope_areas s)"
  by (simp add: known_def area_at_def map_of_eq_None_iff)

lemma knowing_ask: "steps (keeps_known root) (ask_disk c f)"
  by (simp add: steps_def keeps_known_def known_areas ask_disk_def)

lemma knowing_change: "(\<And>s. scope_areas (g s) = scope_areas s) \<Longrightarrow> steps (keeps_known root) (change_state g)"
  by (simp add: steps_def keeps_known_def known_areas run_simps)

lemma knowing_set: "steps (keeps_known root) (set_area root' a)"
  by (simp add: steps_def keeps_known_def known_areas set_area_def run_simps)

lemma knowing_or_raise: "steps (keeps_known root) m \<Longrightarrow> steps (keeps_known root) (or_raise g m)"
  unfolding or_raise_def by (auto intro!: knowing.rules split: sum.split)

lemmas knowing_rules = knowing.rules knowing_ask knowing_set knowing_or_raise

lemma set_known: "set_area root a s = (Done x, t) \<Longrightarrow> known root t"
  by (auto simp: set_area_def run_simps known_areas)

lemma fulfils_set: "fulfils P (set_area root a) (known root)"
  by (auto simp: fulfils_def known_areas set_area_def run_simps)

lemma fulfils_area: "fulfils (known root) (the_area root) (known root)"
  by (auto simp: fulfils_def the_area_def known_def andThen_apply run_simps)


subsection \<open>Staging\<close>

lemma knowing_pins: "steps (keeps_known root) (pin_each d parent_dir here rest pins)"
proof (induction rest arbitrary: here pins)
  case (Cons c rest)
  show ?case
    by (cases c)
      (auto simp: Let_def inspect_def inspect_file_def pin_directory_def open_file_def facts_of_def symlink_metadata_def
        intro!: knowing_rules Cons split: sum.split option.split)
qed (auto intro: knowing_rules)

lemma panic_free_pins: "panic_free (pin_each d parent_dir here rest pins)"
proof (induction rest arbitrary: here pins)
  case (Cons c rest)
  show ?case
    by (cases c) (auto simp: Let_def intro!: panic_free_rules panic_free_entries Cons split: sum.split option.split)
qed (auto intro: panic_free_rules)

lemma knowing_writes: "steps (keeps_known root) (write_new_file d p bytes)"
  "steps (keeps_known root) (publish_manifest d root' run_id child artifacts)" "steps (keeps_known root) (nonce d)"
  "steps (keeps_known root) (pin_directory d p)"
  unfolding write_new_file_def publish_manifest_def open_file_def generic_def nonce_def pin_directory_def facts_of_def
  by (auto intro!: knowing_rules simp: Let_def)

lemma panic_free_nonce: "panic_free (nonce d)"
  unfolding nonce_def by (auto intro!: panic_free_rules)

lemma fulfils_step: "panic_free m \<Longrightarrow> (\<And>x. fulfils (\<lambda>_. True) (f x) Q) \<Longrightarrow> fulfils P (andThen m f) Q"
  by (rule fulfils_seq [of _ _ "\<lambda>_. True"]) (auto intro: fulfils_free [of m "\<lambda>_ _. True"] simp: steps_def)

lemma fulfils_keep:
  "panic_free m \<Longrightarrow> steps (keeps_known root) m \<Longrightarrow> (\<And>x. fulfils (known root) (f x) Q)
     \<Longrightarrow> fulfils (known root) (andThen m f) Q"
  by (rule fulfils_seq [of _ _ "known root"]) (auto intro: fulfils_free simp: keeps_known_def)

lemma fulfils_final: "fulfils (known root) (return x) (known root)"
  by (simp add: fulfils_def run_simps)

lemma panic_free_set: "panic_free (set_area root a)"
  by (simp add: set_area_def panic_free_basic)

lemma panic_free_disk: "panic_free (create_dir d p)" "panic_free (canonical d p)" "panic_free (generic p)"
  unfolding create_dir_def canonical_def generic_def by (auto intro!: panic_free_rules)

lemma fulfils_publish_child: "fulfils P (publish_child d root a) (known root)"
  unfolding publish_child_def Let_def
  by (intro fulfils_step fulfils_set panic_free_rules panic_free_nonce panic_free_set panic_free_entries panic_free_disk)

lemma panic_free_lock: "panic_free (claim_lock d request p)"
  unfolding claim_lock_def claim_owner_lock_def open_file_def facts_of_def by (auto intro!: panic_free_rules)

lemma fulfils_claim: "fulfils P (claim_area d root) (known root)"
  unfolding claim_area_def Let_def hold_def
  by (intro fulfils_step fulfils_set panic_free_rules panic_free_entries panic_free_disk panic_free_lock)

lemma panic_free_wrapped: "panic_free m \<Longrightarrow> panic_free (halting m)" "panic_free m \<Longrightarrow> panic_free (opened m)"
  by (simp_all add: halting_def opened_def panic_free_mapped)

lemma panic_free_observe: "panic_free observe"
  unfolding observe_def
  by (rule panic_free_andThen) (auto simp: panic_free_def observe_stop_def run_simps split: prod.split)

lemma panic_free_each: "(\<And>x. panic_free (body x)) \<Longrightarrow> panic_free (for_each body xs)"
  by (induction xs) (auto intro!: panic_free_basic panic_free_andThen split: option.split)

lemmas recovery_free = panic_free_rules panic_free_each panic_free_wrapped panic_free_observe panic_free_entries panic_free_disk
  panic_free_lock panic_free_set

lemma panic_free_validate: "panic_free (validate_directory d m dir prefix pins)"
  unfolding validate_directory_def validate_entry_def read_dir_def
  by (intro recovery_free) (auto intro!: recovery_free simp: Let_def split: prod.split sum.split option.split)

lemma panic_free_loop: "panic_free (validate_loop d m pending pins)"
proof -
  have "case fst (validate_loop d m pending pins s) of Panic _ \<Rightarrow> False | _ \<Rightarrow> True" for s
  proof (induction d m pending pins s rule: validate_loop.induct)
    case (2 d m dir prefix rest pins s)
    obtain o' t where run: "validate_directory d m dir prefix pins s = (o', t)" by fastforce
    then show ?case
      using 2 panic_freeD [OF panic_free_validate] by (cases o') (auto split: prod.split)
  qed simp
  then show ?thesis by (simp add: panic_free_def)
qed

lemma panic_free_parents: "panic_free (pin_parent_directories d root dir pins)"
  unfolding pin_parent_directories_def by (auto intro!: panic_free_rules panic_free_pins split: option.split)

lemma panic_free_tree: "panic_free (validate_tree d root m)"
  unfolding validate_tree_def validate_sibling_def weakly_canonical_def
  by (intro recovery_free panic_free_loop)
    (auto intro!: recovery_free panic_free_parents simp: Let_def split: prod.split sum.split option.split bool.split)

lemma panic_free_read: "panic_free (read_manifest d pin p root)"
proof -
  have "panic_free (\<lambda>s. case parse_manifest bytes root (stop_token s) of
         (Ok m, t) \<Rightarrow> (Done m, s\<lparr>stop_token := t\<rparr>)
       | (Err RejCancelled, t) \<Rightarrow> (Raise HaltCancelled, s\<lparr>stop_token := t\<rparr>)
       | (Err (RejInvalid what), t) \<Rightarrow> (Raise (HaltFailed (unverified p what)), s\<lparr>stop_token := t\<rparr>))" for bytes
    by (auto simp: panic_free_def split: prod.split sum.split rejection.split)
  then show ?thesis unfolding read_manifest_def by (auto intro!: recovery_free)
qed

lemma panic_free_prove: "panic_free (prove_area d root unknown)"
  unfolding prove_area_def Let_def pin_manifest_def open_file_def facts_of_def
  by (auto intro!: recovery_free panic_free_read panic_free_tree split: option.split)

lemma panic_free_removal: "panic_free (remove_area d root m pins)"
  unfolding remove_area_def remove_scratch_def remove_artifacts_loop_def remove_recovered_def Let_def delete_by_handle_def
    close_file_def remove_dir_def
  by (auto intro!: recovery_free split: option.split)

lemma panic_free_recovery: "panic_free (prepare_staging_root d root)"
  unfolding prepare_staging_root_def recover_def note_unknown_def hold_def read_dir_def
  by (auto intro!: recovery_free panic_free_prove panic_free_removal simp: Let_def split: option.split list.split sum.split)

lemma fulfils_found:
  assumes "\<And>x. fulfils (known root) (f x) (known root)"
  shows "fulfils (\<lambda>_. True) (andThen (read_state (area_at root)) (\<lambda>found.
      andThen (if found = None then claim_area d root else return ()) f)) (known root)"
proof -
  have "fulfils (\<lambda>s. area_at root s = found) (if found = None then claim_area d root else return ()) (known root)" for found
    by (auto intro: fulfils_claim simp: fulfils_def [of _ "return ()"] run_simps known_def)
  then have "fulfils (\<lambda>s. area_at root s = found)
      (andThen (if found = None then claim_area d root else return ()) f) (known root)" for found
    by (rule fulfils_seq) (rule assms)
  then show ?thesis by (simp add: fulfils_def andThen_apply [of "read_state _"] run_simps)
qed

lemma fulfils_prepare: "fulfils (\<lambda>_. True) (prepare_area d root) (known root)"
proof -
  have fresh: "panic_free (with_fresh_token (prepare_staging_root d root))"
  proof -
    have "case r of Panic _ \<Rightarrow> False | _ \<Rightarrow> True" if "prepare_staging_root d root s = (r, t)" for r s t
      using panic_freeD [OF panic_free_recovery, of d root s] that by (cases r) auto
    then show ?thesis unfolding panic_free_def with_fresh_token_def by (auto split: prod.split)
  qed
  have refused: "fulfils (\<lambda>_. True) (raise e) (known root)" for e :: staging_error by (rule fulfils_raise)
  have area: "fulfils (known root) (andThen (the_area root) (\<lambda>a.
      if area_child a \<noteq> [] \<and> \<not> area_ready a
      then raise (Invalid ''The staging area initialization did not complete.'')
      else if area_child a = [] then publish_child d root a
      else return ())) (known root)"
    by (rule fulfils_seq [OF fulfils_area]) (auto intro: fulfils_raise fulfils_publish_child fulfils_final)
  show ?thesis
    unfolding prepare_area_def
    by (rule fulfils_step [OF panic_free_basic(3)])
      (auto intro!: refused fulfils_step [OF fresh] fulfils_found area split: option.split)
qed

lemma panic_free_place: "panic_free (staging_place d root p)"
  unfolding staging_place_def
  by (auto intro!: recovery_free simp: Let_def split: option.split)

lemma panic_free_create:
  "fulfils (known root) (create_registered_file d root rel sibling) (\<lambda>_. True)"
  "fulfils (known root) (pin_staged_parent d root dir) (known root)"
proof -
  show "fulfils (known root) (create_registered_file d root rel sibling) (\<lambda>_. True)"
    unfolding create_registered_file_def
    by (rule fulfils_seq [OF fulfils_area], rule fulfils_free [where R = "\<lambda>_ _. True"])
      (auto intro!: recovery_free simp: Let_def steps_def split: sum.split staging_error.split)
  have pinned: "steps (keeps_known root) (pin_parent_directories d root dir pins)" for pins
    unfolding pin_parent_directories_def by (auto intro!: knowing.rules knowing_pins split: option.split)
  have rest: "panic_free (andThen (pin_parent_directories d root dir (parent_pins a)) (\<lambda>(answer, pins).
     andThen (set_area root (a\<lparr>parent_pins := pins\<rparr>)) (\<lambda>_.
     case answer of
       Err e \<Rightarrow> raise e
     | Ok False \<Rightarrow> raise (unverified dir ''A staged Asset parent disappeared before creation.'')
     | Ok True \<Rightarrow> return ())))" for a
    by (intro recovery_free panic_free_parents) (auto intro!: recovery_free split: prod.split sum.split bool.split)
  have kept: "steps (keeps_known root) (andThen (pin_parent_directories d root dir (parent_pins a)) (\<lambda>(answer, pins).
     andThen (set_area root (a\<lparr>parent_pins := pins\<rparr>)) (\<lambda>_.
     case answer of
       Err e \<Rightarrow> raise e
     | Ok False \<Rightarrow> raise (unverified dir ''A staged Asset parent disappeared before creation.'')
     | Ok True \<Rightarrow> return ())))" for a
    by (intro knowing.rules pinned) (auto intro!: knowing_rules split: prod.split sum.split bool.split)
  show "fulfils (known root) (pin_staged_parent d root dir) (known root)"
    unfolding pin_staged_parent_def
    by (rule fulfils_seq [OF fulfils_area], rule fulfils_free [OF rest kept]) (simp add: keeps_known_def)
qed

lemma panic_free_stage: "panic_free (stage_file d root p)"
proof (rule panic_free_fulfils)
  have "fulfils (known dir) (andThen (pin_staged_parent d dir q) (\<lambda>_. andThen (nonce d) (\<lambda>n. andThen (read_state owner_run) (\<lambda>run_id.
      create_registered_file d dir (rel n run_id) True)))) (\<lambda>_. True)" for dir q rel
    by (rule fulfils_seq [OF panic_free_create(2)], rule fulfils_keep [OF panic_free_nonce knowing_writes(3)],
        rule fulfils_keep [OF panic_free_basic(3) knowing.pure(4)], rule panic_free_create(1))
  then show "fulfils (\<lambda>_. True) (stage_file d root p) (\<lambda>_. True)"
    unfolding stage_file_def
    by (intro fulfils_step [OF panic_free_place]) (auto intro!: fulfils_seq [OF fulfils_prepare] split: prod.split)
qed


subsection \<open>Attempts\<close>

text \<open>A backend none of whose calls panics.\<close>

definition backend_returns :: "backend \<Rightarrow> bool" where
  "backend_returns b =
     ((\<forall>w p v. \<exists>x. load_texture b w p v = Returned x) \<and> (\<forall>w ops mode. \<exists>x. optimize_texture b w ops mode = Returned x)
      \<and> (\<forall>w p. \<exists>x. save_texture b w p = Returned x) \<and> (\<forall>w p. \<exists>x. remove_texture b w p = Returned x)
      \<and> (\<forall>w p r. \<exists>x. report_removal b w p r = Returned x) \<and> (\<forall>w. \<exists>x. texture_failure_detail b w = Returned x)
      \<and> (\<forall>w p v. \<exists>x. load_mesh b w p v = Returned x) \<and> (\<forall>w p root mode. \<exists>x. optimize_mesh b w p root mode = Returned x)
      \<and> (\<forall>w mode. \<exists>x. maintain_mesh_references b w mode = Returned x) \<and> (\<forall>w p. \<exists>x. save_mesh b w p = Returned x)
      \<and> (\<forall>w p out mode. \<exists>x. optimize_animation b w p out mode = Returned x)
      \<and> (\<forall>w asset r. \<exists>x. attempt_finished b w asset r = Returned x))"

lemma panic_free_ask: "(\<And>w. \<exists>x. f w = Returned x) \<Longrightarrow> panic_free (ask_backend c f)"
  unfolding ask_backend_def panic_free_def
  by (auto simp: ask_then run_simps split: call.split) (metis call.distinct(1))

lemma panic_free_capture: "panic_free (capture_publication_target d root p)" "panic_free (stage_file_for_publication d target)"
  "panic_free (capture_and_stage_file d root p)"
  unfolding capture_publication_target_def stage_file_for_publication_def capture_and_stage_file_def registry_open_def
    absolute_root_def push_durable_def push_artifact_def
  by (auto intro!: recovery_free panic_free_checks panic_free_stage)

lemma panic_free_staging: "panic_free m \<Longrightarrow> panic_free (or_staging_failed kind boundary p m)"
  by (simp add: or_staging_failed_def panic_free_mapped)

lemma panic_free_output: "panic_free (publish_asset_output d receipt destination message affected boundary)"
  unfolding publish_asset_output_def publish_receipt_def
  by (auto intro!: recovery_free panic_free_publish split: option.split)

lemma panic_free_files: "panic_free (asset_fingerprint d p)" "panic_free (open_pinned d p)"
  "panic_free (remove_verified d pin)" "panic_free (retained_usable d out content source_pin)"
proof -
  have identity: "panic_free (identity_at d p request)" for p request
    unfolding identity_at_def open_file_def facts_of_def identity_of_def
    by (auto intro!: recovery_free split: sum.split)
  have unchanged: "panic_free (unchanged_at_path d pin)" for pin
    unfolding unchanged_at_path_def hash_pinned_def fingerprint_def
    by (auto intro!: recovery_free identity split: option.split)
  show "panic_free (asset_fingerprint d p)" "panic_free (open_pinned d p)" for p
    unfolding asset_fingerprint_def open_pinned_def symlink_metadata_def open_file_def facts_of_def identity_of_def
      hash_pinned_def fingerprint_def
    by (auto intro!: recovery_free split: sum.split option.split)
  then show "panic_free (remove_verified d pin)" "panic_free (retained_usable d out content source_pin)"
    unfolding remove_verified_def retained_usable_def delete_by_handle_def close_file_def
    by (auto intro!: recovery_free identity unchanged split: sum.split option.split prod.split)
qed

lemmas attempt_free = recovery_free panic_free_ask panic_free_capture panic_free_staging panic_free_output panic_free_files

lemma panic_free_textures:
  assumes "backend_returns b"
  shows "panic_free (execute_texture d b asset mod_root)"
proof -
  have failed: "panic_free (texture_failed b r)" for r
    unfolding texture_failed_def using assms by (auto intro!: attempt_free simp: backend_returns_def)
  have removal: "panic_free (remove_source d b p out content source_pin mutation)" for p out content source_pin mutation
    unfolding remove_source_def request_removal_def using assms
    by (auto intro!: attempt_free failed simp: backend_returns_def split: option.split prod.split)
  have published: "panic_free (save_and_publish_texture d b p out target converting source_pin)"
    for p out target converting source_pin
    unfolding save_and_publish_texture_def Let_def using assms
    by (auto intro!: attempt_free failed removal simp: backend_returns_def split: option.split)
  show ?thesis
    unfolding execute_texture_def prepare_texture_def Let_def using assms
    by (auto intro!: attempt_free failed published simp: backend_returns_def split: asset_identity.split option.split prod.split)
qed

lemma panic_free_meshes:
  assumes "backend_returns b"
  shows "panic_free (execute_mesh d b asset mod_root)"
  unfolding execute_mesh_def capture_mesh_def run_mesh_operations_def mesh_operation_def save_and_publish_mesh_def Let_def
  using assms by (auto intro!: attempt_free simp: backend_returns_def split: asset_identity.split option.split)

lemma panic_free_animations:
  assumes "backend_returns b"
  shows "panic_free (execute_animation d b asset mod_root)"
  unfolding execute_animation_def stage_animation_def Let_def
  using assms by (auto intro!: attempt_free simp: backend_returns_def split: option.split)


lemma settled_completes: "panic_free m \<Longrightarrow> completes (settle m)"
  unfolding completes_def
proof
  fix s
  assume "panic_free m"
  then show "\<exists>x s'. settle m s = (Done x, s')"
    by (cases rule: panic_free_cases [where s = s]) (auto simp: settle_def andThen_apply try_action_def run_simps)
qed

lemma executed_completes: "backend_returns b \<Longrightarrow> completes (execute_asset d b asset mod_root)"
  unfolding execute_asset_def
  by (auto intro: settled_completes panic_free_textures panic_free_meshes panic_free_animations completes_basic
      split: optimizer_target.split)

lemma asked_completes: "(\<And>w. \<exists>x. f w = Returned x) \<Longrightarrow> completes (ask_backend c f)"
  unfolding completes_def ask_backend_def
proof
  fix s :: custody
  assume "\<And>w. \<exists>x. f w = Returned x"
  then obtain x where "f (made_calls s) = Returned x" by blast
  then show "\<exists>x s'. andThen (ask_disk c f) (\<lambda>a. case a of Returned x \<Rightarrow> return x | Panicked p \<Rightarrow> panic p) s = (Done x, s')"
    by (simp add: ask_then run_simps)
qed

text \<open>
  The names a quarantine tries, in order, and a disk on which it always finds one that is not taken before the
  count runs out: no directory holds as many entries as there are names.
\<close>

definition quarantine_name :: "path \<Rightarrow> nat \<Rightarrow> path" where
  "quarantine_name p i = push_text p (if i = 0 then ''.caobad'' else ''.caobad.'' @ show_nat i)"

definition quarantine_tries :: "handle \<Rightarrow> nat \<Rightarrow> disk_call list" where
  "quarantine_tries h n = map (\<lambda>i. RenameFile h (quarantine_name (handle_path h) i) RenameNoReplace) [0..<n]"

definition name_free :: "disk \<Rightarrow> world \<Rightarrow> handle \<Rightarrow> nat \<Rightarrow> bool" where
  "name_free d w h i =
     (case d_rename d (w @ quarantine_tries h i) h (quarantine_name (handle_path h) i) RenameNoReplace of
        Ok _ \<Rightarrow> True | Err e \<Rightarrow> \<not> name_taken e)"

definition names_left :: "disk \<Rightarrow> bool" where
  "names_left d = (\<forall>w h. \<exists>i. i + 2 < 2 ^ 64 \<and> name_free d w h i)"

lemma quarantine_loop_run:
  assumes "i + 2 < 2 ^ 64"
  shows "(quarantine_loop d (handle_path h) h (quarantine_name (handle_path h) i) (Suc i)
      :: ('e, path option) custody_action) s =
        (case d_rename d (made_calls s) h (quarantine_name (handle_path h) i) RenameNoReplace of
           Ok _ \<Rightarrow> return (Some (quarantine_name (handle_path h) i))
         | Err e \<Rightarrow> if name_taken e
             then quarantine_loop d (handle_path h) h (quarantine_name (handle_path h) (Suc i)) (Suc (Suc i))
             else return None)
          (s\<lparr>made_calls := made_calls s @ [RenameFile h (quarantine_name (handle_path h) i) RenameNoReplace]\<rparr>)"
proof -
  have "\<not> 2 ^ 64 - 1 \<le> Suc i" using assms by simp
  moreover have "push_text (handle_path h) (''.caobad.'' @ show_nat (Suc i)) = quarantine_name (handle_path h) (Suc i)"
    by (simp only: quarantine_name_def nat.distinct if_False)
  ultimately show ?thesis
    unfolding quarantine_loop.simps [of d _ _ _ "Suc i"] by (simp only: rename_by_handle_def ask_then if_False)
qed

lemma quarantine_loop_ends:
  assumes "name_free d w h k" "k + 2 < 2 ^ 64" "i \<le> k" "made_calls s = w @ quarantine_tries h i"
  shows "\<exists>answer t. (quarantine_loop d (handle_path h) h (quarantine_name (handle_path h) i) (Suc i)
      :: ('e, path option) custody_action) s = (Done answer, t)"
  using assms(3,4)
proof (induction "k - i" arbitrary: i s)
  case 0
  then have "i = k" by simp
  then show ?case
    using assms(1) 0(3) by (simp add: quarantine_loop_run [OF assms(2)] name_free_def run_simps split: sum.splits)
next
  case (Suc n)
  let ?s = "s\<lparr>made_calls := made_calls s @ [RenameFile h (quarantine_name (handle_path h) i) RenameNoReplace]\<rparr>"
  have "\<exists>answer t. (quarantine_loop d (handle_path h) h (quarantine_name (handle_path h) (Suc i)) (Suc (Suc i))
      :: ('e, path option) custody_action) ?s = (Done answer, t)"
    using Suc by (intro Suc(1)) (auto simp: quarantine_tries_def)
  moreover have "i + 2 < 2 ^ 64" using Suc assms(2) by simp
  ultimately show ?case
    by (simp add: quarantine_loop_run [of i] run_simps split: sum.split)
qed

lemma quarantine_ends: "names_left d \<Longrightarrow> completes (quarantine d b p :: ('e, path option) custody_action)"
  unfolding completes_def
proof
  fix s :: custody
  assume left: "names_left d"
  let ?p = "to_absolute b p"
  let ?c = "OpenFile ?p (open_new [DeleteAccess, ReadAttributes] [ShareRead, ShareWrite, ShareDelete])"
  let ?s = "s\<lparr>made_calls := made_calls s @ [?c]\<rparr>"
  let ?h = "\<lparr>handle_path = ?p, handle_serial = length (made_calls s)\<rparr>"
  obtain k where "k + 2 < 2 ^ 64" "name_free d (made_calls ?s) ?h k" using left unfolding names_left_def by blast
  then have "\<exists>answer t. (quarantine_loop d ?p ?h (push_text ?p ''.caobad'') 1 :: ('e, path option) custody_action) ?s = (Done answer, t)"
    using quarantine_loop_ends [of d "made_calls ?s" ?h k 0 ?s]
    by (simp add: quarantine_tries_def quarantine_name_def)
  then show "\<exists>answer t. (quarantine d b p :: ('e, path option) custody_action) s = (Done answer, t)"
    by (auto simp: quarantine_def Let_def open_file_def ask_then run_simps split: sum.splits)
qed

lemma quarantined_completes:
  "names_left d \<Longrightarrow> completes (quarantine_failed_load d b asset r :: ('e, asset_execution_result) custody_action)"
  unfolding quarantine_failed_load_def
  by (auto intro!: completes_andThen completes_basic quarantine_ends split: option.split)

lemma attempted_completes:
  assumes "backend_returns b" "names_left d"
  shows "completes (attempt_with_backend d b asset mod_root)"
proof -
  have "completes (ask_backend (AttemptFinished asset r) (\<lambda>w. attempt_finished b w asset r))" for r
    using assms by (intro asked_completes) (auto simp: backend_returns_def)
  then show ?thesis
    unfolding attempt_with_backend_def
    by (intro completes_andThen executed_completes quarantined_completes assms)
qed

text \<open>
  C38: When neither the backend nor its factory panics, and some quarantine name is always left before the count of
  names overflows, every attempt ends: with a result, or, only if the backend does not exist yet and its factory saw
  the cancellation, with the word that initialization was cancelled. No expectation of the staging scope can panic,
  and every loop ends.
\<close>

theorem attempt_always_answers:
  assumes "backend_returns b" and "\<And>w. \<exists>x. create w = Returned x" and "names_left d"
  shows "case fst (adapter_attempt d b create exists asset mod_root s) of
      Done _ \<Rightarrow> True
    | Raise InitializationCancelled \<Rightarrow> \<not> exists \<and> create (made_calls s) = Returned BackendStopped
    | Panic _ \<Rightarrow> False"
proof -
  have finished: "case fst (andThen (attempt_with_backend d b asset mod_root) (\<lambda>r. return (f r)) t) of
      Done _ \<Rightarrow> True | Raise InitializationCancelled \<Rightarrow> P | Panic _ \<Rightarrow> False" for f t P
  proof -
    have "completes (andThen (attempt_with_backend d b asset mod_root) (\<lambda>r. return (f r)))"
      by (intro completes_andThen attempted_completes assms(1,3) completes_basic)
    then show ?thesis by (metis completesE fst_conv outcome.simps(10))
  qed
  obtain made where made: "create (made_calls s) = Returned made" using assms(2) by blast
  show ?thesis
  proof (cases exists)
    case True
    then show ?thesis by (simp add: adapter_attempt_def finished)
  next
    case False
    then have run: "adapter_attempt d b create exists asset mod_root s =
        andThen (return made) (\<lambda>created. case created of
           BackendStopped \<Rightarrow> raise InitializationCancelled
         | BackendFailed what observed \<Rightarrow>
             return \<lparr>answered_result = with_path (execution_path asset) (with_safe_to_continue False
                 (with_mutation MPartialOrUnknown (asset_failed BackendException what))),
               answered_diagnostics = observed, backend_exists = False\<rparr>
         | BackendCreated observed \<Rightarrow>
             andThen (attempt_with_backend d b asset mod_root) (\<lambda>r.
             return \<lparr>answered_result = r, answered_diagnostics = observed, backend_exists = True\<rparr>))
          (s\<lparr>made_calls := made_calls s @ [CreateBackend]\<rparr>)"
      using made by (simp add: adapter_attempt_def ask_backend_def andThen_apply [of "andThen _ _"] ask_then run_simps)
    show ?thesis
      unfolding run using False made
      by (cases made) (simp_all add: finished run_simps)
  qed
qed


definition demo_backend :: backend where
  "demo_backend =
     \<lparr>load_texture = \<lambda>_ _ _. Returned True, optimize_texture = \<lambda>_ _ _. Returned operation_changed,
      save_texture = \<lambda>_ _. Returned True, remove_texture = \<lambda>_ _. Returned None, report_removal = \<lambda>_ _ r. Returned r,
      texture_failure_detail = \<lambda>_. Returned [], load_mesh = \<lambda>_ _ _. Returned True,
      optimize_mesh = \<lambda>_ _ _ _. Returned operation_unchanged, maintain_mesh_references = \<lambda>_ _. Returned operation_changed,
      save_mesh = \<lambda>_ _. Returned True, optimize_animation = \<lambda>_ _ _ _. Returned operation_changed,
      attempt_finished = \<lambda>_ _ _. Returned (), to_absolute = id\<rparr>"

definition crowded_disk :: disk where
  "crowded_disk =
     (let refused = \<lparr>io_kind = KindNotFound, raw_os_error = Some 2, io_text = []\<rparr>;
          taken = \<lparr>io_kind = KindAlreadyExists, raw_os_error = Some 183, io_text = []\<rparr>
      in \<lparr>d_metadata = \<lambda>_ _. Err refused, d_open = \<lambda>_ _ _. Ok (), d_facts = \<lambda>_ _. Err refused,
          d_identity = \<lambda>_ _. Err refused, d_reads = \<lambda>_ _. [], d_write = \<lambda>_ _ _. Err refused, d_sync = \<lambda>_ _. Err refused,
          d_delete = \<lambda>_ _. Err refused,
          d_rename = \<lambda>_ h p _. if p = push_text (handle_path h) ''.caobad'' then Err taken else Ok (),
          d_move = \<lambda>_ _ _. Err refused, d_list = \<lambda>_ _. Err refused, d_create_dir = \<lambda>_ _. Err refused,
          d_remove_dir = \<lambda>_ _. Err refused, d_remove_file = \<lambda>_ _. Err refused, d_canonical = \<lambda>_ _. Err refused,
          d_weakly_canonical = \<lambda>_ _. Err refused, d_volume = \<lambda>_ _. Err refused, d_nonce = \<lambda>_. Err refused,
          d_same = (=)\<rparr>)"

lemma crowded_disk_names: "names_left crowded_disk"
proof -
  have "name_free crowded_disk w h 1" for w h
    by (auto simp: name_free_def crowded_disk_def Let_def quarantine_name_def push_text_def split: option.split)
  then show ?thesis unfolding names_left_def by (intro allI exI [of _ 1]) simp
qed

lemma attempt_always_answers_witness:
  "\<forall>asset mod_root s. case fst (adapter_attempt crowded_disk demo_backend (\<lambda>_. Returned (BackendCreated [])) False asset mod_root s) of
      Done _ \<Rightarrow> True
    | Raise InitializationCancelled \<Rightarrow> False
    | Panic _ \<Rightarrow> False"
proof (intro allI)
  fix asset mod_root s
  have returns: "backend_returns demo_backend" by (auto simp: backend_returns_def demo_backend_def)
  show "case fst (adapter_attempt crowded_disk demo_backend (\<lambda>_. Returned (BackendCreated [])) False asset mod_root s) of
      Done _ \<Rightarrow> True
    | Raise InitializationCancelled \<Rightarrow> False
    | Panic _ \<Rightarrow> False"
    using attempt_always_answers [OF returns _ crowded_disk_names, where create = "\<lambda>_. Returned (BackendCreated [])"
        and exists = False and asset = asset and mod_root = mod_root and s = s]
    by (auto split: outcome.splits initialization_cancelled.splits)
qed

end
