(* ===== verification/RunService.thy ===== *)
theory RunService
  imports RunResults
begin

text \<open>
  The Optimization Run Service (\<open>run/service.rs\<close>) and its schedulers (\<open>run/scheduler.rs\<close>): the state
  a run publishes, its numbered events and their one dispatcher, the worker that commits the one
  result, and the process with its one active run. What a Run Worker does, between two points at
  which another thread may observe it, is one of its acts; the acts of a run are computed from the
  executor's model, and the process interleaves them with every other thread.
\<close>

subsection \<open>Run Events and snapshots\<close>

datatype run_event_payload =
    EventPhase run_phase_record
  | EventDiagnostic run_diagnostic
  | EventFailure run_failure
  | EventTerminal run_result

record run_event =
  event_run :: string
  event_sequence :: nat
  event_payload :: run_event_payload

record run_snapshot =
  snap_run :: string
  snap_phase :: run_phase
  snap_progress :: "run_progress option"
  snap_cancellation_requested :: bool
  snap_diagnostics :: nat
  snap_failures :: nat
  snap_outcome :: "run_outcome option"

text \<open>
  A dispatcher answers from what it was given before; it is handed the event and may read the
  snapshot of that moment. \<open>Some\<close> is its panic. The sequence is a \<open>u64\<close>; it would take \<open>2 ^ 64\<close> events
  to wrap, so it is a natural number here.
\<close>

type_synonym event_dispatcher =
  "(run_event \<times> run_snapshot) list \<Rightarrow> run_event \<Rightarrow> run_snapshot \<Rightarrow> string option"

record run_shared =
  shared_run :: string
  shared_request :: run_request
  shared_cancelled :: bool
  live_phase :: run_phase
  live_work_phase :: run_phase
  live_progress :: "run_progress option"
  live_diagnostics :: "run_diagnostic list"
  live_failures :: nat
  live_result :: "run_result option"
  terminal_dispatched :: bool
  live_dispatcher :: "event_dispatcher option"
  live_sequence :: nat
  event_history :: "(run_event \<times> run_snapshot) list"

definition new_shared :: "string \<Rightarrow> run_request \<Rightarrow> event_dispatcher option \<Rightarrow> run_shared" where
  "new_shared run request dispatcher =
     \<lparr>shared_run = run, shared_request = request, shared_cancelled = False, live_phase = Preparing,
      live_work_phase = Preparing, live_progress = None, live_diagnostics = [], live_failures = 0,
      live_result = None, terminal_dispatched = False, live_dispatcher = dispatcher,
      live_sequence = 0, event_history = []\<rparr>"

definition shared_snapshot :: "run_shared \<Rightarrow> run_snapshot" where
  "shared_snapshot sh =
     \<lparr>snap_run = shared_run sh, snap_phase = live_phase sh, snap_progress = live_progress sh,
      snap_cancellation_requested = shared_cancelled sh,
      snap_diagnostics = length (live_diagnostics sh), snap_failures = live_failures sh,
      snap_outcome = map_option result_outcome (live_result sh)\<rparr>"

definition dispatch_event :: "run_event_payload \<Rightarrow> run_shared \<Rightarrow> run_shared" where
  "dispatch_event payload sh =
     (let numbered = sh\<lparr>live_sequence := live_sequence sh + 1\<rparr>;
          event = \<lparr>event_run = shared_run sh, event_sequence = live_sequence numbered, event_payload = payload\<rparr>;
          seen = shared_snapshot numbered in
      case live_dispatcher numbered of
        None \<Rightarrow> numbered
      | Some dispatcher \<Rightarrow>
          let given = numbered\<lparr>event_history := event_history numbered @ [(event, seen)]\<rparr> in
          case dispatcher (event_history numbered) event seen of
            None \<Rightarrow> given
          | Some what \<Rightarrow>
              given\<lparr>live_dispatcher := None,
                live_diagnostics := live_diagnostics given
                  @ [new_diagnostic DispatcherFailed (live_phase given) what]\<rparr>)"

text \<open>\<open>RunShared\<close> as the executor's observation sink: publish first, then dispatch.\<close>

fun publish_live :: "publication \<Rightarrow> run_shared \<Rightarrow> run_shared" where
  "publish_live (PubPhase r) sh =
     (let sh' = sh\<lparr>live_phase := record_of r, live_progress := progress r\<rparr> in
      dispatch_event (EventPhase r)
        (if record_of r \<noteq> SafetyCleanup then sh'\<lparr>live_work_phase := record_of r\<rparr> else sh'))"
| "publish_live (PubFailure f) sh =
     dispatch_event (EventFailure f) (sh\<lparr>live_failures := live_failures sh + 1\<rparr>)"
| "publish_live (PubDiagnostic d) sh =
     dispatch_event (EventDiagnostic d) (sh\<lparr>live_diagnostics := live_diagnostics sh @ [d]\<rparr>)"

text \<open>A dispatcher's panic is contained, so the sink itself never panics.\<close>

definition shared_sink :: sink where
  "shared_sink = (\<lambda>_ _. None)"

subsection \<open>The acts of a Run Worker\<close>

datatype worker_act =
    Publish publication
  | CommitResult run_result
  | DispatchTerminal run_result
  | DropDispatcher
  | ReleaseWaiters

definition commit_acts :: "run_result \<Rightarrow> worker_act list" where
  "commit_acts result = [CommitResult result, DispatchTerminal result, DropDispatcher, ReleaseWaiters]"

definition no_temporary_artifacts :: "(error + run_failure list) call" where
  "no_temporary_artifacts = Returned (Ok [])"

definition shared_services :: "run_services \<Rightarrow> run_services" where
  "shared_services sv =
     sv\<lparr>sv_observations := Some shared_sink, sv_safety_cleanup := (\<lambda>_. no_temporary_artifacts)\<rparr>"

definition published_by :: "evidence \<Rightarrow> worker_act list" where
  "published_by ev = map Publish (trace ev)"

text \<open>
  \<open>TrackedCleanup.performed\<close>: the executor reached the service. \<open>Err\<close> is a worker that ends in a
  panic of its own, without a result.
\<close>

definition cleanup_performed :: "running \<Rightarrow> bool" where
  "cleanup_performed s = (CleanWithService \<in> set (run_calls s))"

definition terminal_acts ::
    "run_failure \<Rightarrow> (error + run_failure list) call option \<Rightarrow> sink option \<Rightarrow> run_phase \<Rightarrow> token
       \<Rightarrow> string + worker_act list" where
  "terminal_acts f cleanup sink final t =
     (case terminal_failure f cleanup sink final t of
        Err what \<Rightarrow> Err what
      | Ok result \<Rightarrow> Ok (published_by (terminal_evidence f cleanup sink t) @ commit_acts result))"

definition escaped_acts :: "string \<Rightarrow> running \<Rightarrow> run_shared \<Rightarrow> string + worker_act list" where
  "escaped_acts what s sh =
     (let work_phase = live_work_phase (fold publish_live (trace (run_evidence s)) sh);
          pending = \<not> cleanup_performed s in
      terminal_acts (new_run_failure RunWorkEscaped work_phase (run_worker_panic_detail what))
        (if pending then Some no_temporary_artifacts else None)
        (if pending then Some shared_sink else None) work_phase (run_token s))"

definition worker_acts :: "run_services \<Rightarrow> token \<Rightarrow> run_shared \<Rightarrow> string + worker_act list" where
  "worker_acts sv t sh =
     (case execute (shared_services sv) (shared_request sh) t of
        (left, s) \<Rightarrow>
          let so_far = published_by (run_evidence s) in
          case left of
            RunReturned result \<Rightarrow> Ok (so_far @ commit_acts result)
          | RunViolated _ result \<Rightarrow> Ok (so_far @ commit_acts result)
          | RunPanicked what \<Rightarrow>
              (case escaped_acts what s sh of Err e \<Rightarrow> Err e | Ok rest \<Rightarrow> Ok (so_far @ rest)))"

definition scheduling_failure_acts :: "string \<Rightarrow> token \<Rightarrow> string + worker_act list" where
  "scheduling_failure_acts what t =
     terminal_acts (new_run_failure SchedulingFailed Preparing what) (Some no_temporary_artifacts)
       (Some shared_sink) Preparing t"

definition perform_act :: "worker_act \<Rightarrow> run_shared \<Rightarrow> run_shared" where
  "perform_act act sh =
     (case act of
        Publish item \<Rightarrow> publish_live item sh
      | CommitResult result \<Rightarrow> sh\<lparr>live_result := Some result\<rparr>
      | DispatchTerminal result \<Rightarrow> dispatch_event (EventTerminal result) sh
      | DropDispatcher \<Rightarrow> sh\<lparr>live_dispatcher := None\<rparr>
      | ReleaseWaiters \<Rightarrow> sh\<lparr>terminal_dispatched := True\<rparr>)"

subsection \<open>Threads, workers and their scopes\<close>

text \<open>The runs a thread is executing, innermost last: \<open>ExecutionScope\<close>.\<close>

definition enter_scope :: "nat \<Rightarrow> nat list \<Rightarrow> nat list" where
  "enter_scope run scopes = scopes @ [run]"

definition leave_scope :: "nat \<Rightarrow> nat list \<Rightarrow> nat list" where
  "leave_scope run scopes = rev (remove1 run (rev scopes))"

definition in_scope :: "nat \<Rightarrow> nat list \<Rightarrow> bool" where
  "in_scope run scopes = (run \<in> set scopes)"

text \<open>
  A production worker has its thread's id and a flag its work sets when it ends, even by unwinding;
  an inline worker has already run. What scheduling a run does: it can fail before the work is
  invoked, start a thread, or run the work before it returns.
\<close>

datatype run_worker = StandardWorker nat | CompletedWorker

datatype scheduled = NotScheduled string | OnThread nat | RanInline

fun is_current_thread :: "run_worker \<Rightarrow> bool \<Rightarrow> nat \<Rightarrow> bool" where
  "is_current_thread (StandardWorker thread) finished caller = (\<not> finished \<and> thread = caller)"
| "is_current_thread CompletedWorker finished caller = False"

datatype handle_state = NoHandleYet | HandleHeld | HandleDropped

record run_lifetime =
  life_shared :: run_shared
  life_scheduled :: scheduled
  life_acts :: "worker_act list"
  life_worker :: "run_worker option"
  life_joined :: bool
  life_joins :: nat
  life_handle :: handle_state

abbreviation work_finished :: "run_lifetime \<Rightarrow> bool" where
  "work_finished life \<equiv> life_acts life = []"

record caller =
  caller_thread :: nat
  caller_scopes :: "nat list"

definition called_from_worker :: "caller \<Rightarrow> nat \<Rightarrow> run_lifetime \<Rightarrow> bool" where
  "called_from_worker who run life =
     (in_scope run (caller_scopes who)
      \<or> (case life_worker life of
           None \<Rightarrow> False
         | Some w \<Rightarrow> is_current_thread w (work_finished life) (caller_thread who)))"

subsection \<open>Waiting, cancelling and joining\<close>

definition cancel_shared :: "run_lifetime \<Rightarrow> run_lifetime" where
  "cancel_shared life = life\<lparr>life_shared := (life_shared life)\<lparr>shared_cancelled := True\<rparr>\<rparr>"

datatype wait_answer = WaitPanics | WaitBlocks | WaitReturns run_result

definition wait_for :: "caller \<Rightarrow> nat \<Rightarrow> run_lifetime \<Rightarrow> wait_answer" where
  "wait_for who run life =
     (if called_from_worker who run life then WaitPanics
      else if \<not> terminal_dispatched (life_shared life) then WaitBlocks
      else case live_result (life_shared life) of
             None \<Rightarrow> WaitPanics
           | Some result \<Rightarrow> WaitReturns result)"

datatype join_answer = AbortsProcess | JoinBlocks run_lifetime | JoinReturns run_lifetime

definition cancel_and_join :: "caller \<Rightarrow> nat \<Rightarrow> run_lifetime \<Rightarrow> join_answer" where
  "cancel_and_join who run life =
     (if called_from_worker who run life then AbortsProcess
      else
        let cancelled = cancel_shared life in
        if life_joined cancelled then JoinReturns cancelled
        else case life_worker cancelled of
               None \<Rightarrow> JoinReturns (cancelled\<lparr>life_joined := True\<rparr>)
             | Some _ \<Rightarrow>
                 if work_finished cancelled
                 then JoinReturns (cancelled\<lparr>life_joined := True, life_joins := life_joins cancelled + 1\<rparr>)
                 else JoinBlocks cancelled)"

subsection \<open>The process and its one active run\<close>

text \<open>
  A run is named by its place in the list of the runs of the process, as its \<open>Arc\<close> is by its address.
  The active slot is weak, but a run that has no result is kept alive by its worker, or by the
  \<open>start\<close> that commits its failure, so only a commit empties the slot.
\<close>

record app_process =
  started_runs :: "run_lifetime list"
  active_run :: "nat option"
  retained_runs :: "nat list"

definition new_process :: app_process where
  "new_process = \<lparr>started_runs = [], active_run = None, retained_runs = []\<rparr>"

datatype start_error = MissingProfileIdentity | MissingModSelectionDirectory | ActiveRun

definition start_refusal :: "run_request \<Rightarrow> app_process \<Rightarrow> start_error option" where
  "start_refusal request p =
     (if profile_identity request = [] then Some MissingProfileIdentity
      else if selection_directory (mod_selection request) = [] then Some MissingModSelectionDirectory
      else if active_run p \<noteq> None then Some ActiveRun
      else None)"

definition lifetime_alive :: "app_process \<Rightarrow> nat \<Rightarrow> bool" where
  "lifetime_alive p run = (life_handle (started_runs p ! run) \<noteq> HandleDropped)"

text \<open>\<open>start\<close> up to the point where the scheduler was asked; the acts are what follows from its answer.\<close>

definition scheduled_acts ::
    "scheduled \<Rightarrow> run_services \<Rightarrow> token \<Rightarrow> run_shared \<Rightarrow> string + worker_act list" where
  "scheduled_acts how sv t sh =
     (case how of
        NotScheduled what \<Rightarrow> scheduling_failure_acts what t
      | _ \<Rightarrow> worker_acts sv t sh)"

definition start_run ::
    "scheduled \<Rightarrow> run_services \<Rightarrow> token \<Rightarrow> string \<Rightarrow> run_request \<Rightarrow> event_dispatcher option \<Rightarrow> app_process
       \<Rightarrow> start_error + app_process" where
  "start_run how sv t run request dispatcher p =
     (case start_refusal request p of
        Some e \<Rightarrow> Err e
      | None \<Rightarrow>
          let sh = new_shared run request dispatcher;
              life = \<lparr>life_shared = sh, life_scheduled = how,
                      life_acts = (case scheduled_acts how sv t sh of Err _ \<Rightarrow> [] | Ok acts \<Rightarrow> acts),
                      life_worker = None, life_joined = False, life_joins = 0, life_handle = NoHandleYet\<rparr> in
          Ok \<lparr>started_runs = started_runs p @ [life],
              active_run = Some (length (started_runs p)),
              retained_runs = filter (lifetime_alive p) (retained_runs p) @ [length (started_runs p)]\<rparr>)"

definition update_run :: "nat \<Rightarrow> (run_lifetime \<Rightarrow> run_lifetime) \<Rightarrow> app_process \<Rightarrow> app_process" where
  "update_run run f p = p\<lparr>started_runs := (started_runs p)[run := f (started_runs p ! run)]\<rparr>"

text \<open>One act of a run: the result is committed and the active slot released under both locks.\<close>

definition act_once :: "run_lifetime \<Rightarrow> run_lifetime" where
  "act_once life =
     (case life_acts life of
        [] \<Rightarrow> life
      | act # rest \<Rightarrow> life\<lparr>life_shared := perform_act act (life_shared life), life_acts := rest\<rparr>)"

fun releases_slot :: "worker_act list \<Rightarrow> bool" where
  "releases_slot (CommitResult _ # _) = True"
| "releases_slot _ = False"

definition work_step :: "nat \<Rightarrow> app_process \<Rightarrow> app_process" where
  "work_step run p =
     (let p' = update_run run act_once p in
      if releases_slot (life_acts (started_runs p ! run)) \<and> active_run p = Some run
      then p'\<lparr>active_run := None\<rparr> else p')"

text \<open>
  The end of \<open>start\<close>: a thread was started, or the work, or the commit of the scheduling failure, ran
  before the scheduler returned; only then is the worker set and the handle given out.
\<close>

definition start_returns :: "run_lifetime \<Rightarrow> run_lifetime option" where
  "start_returns life =
     (if life_handle life \<noteq> NoHandleYet then None
      else case life_scheduled life of
        OnThread thread \<Rightarrow> Some (life\<lparr>life_worker := Some (StandardWorker thread), life_handle := HandleHeld\<rparr>)
      | RanInline \<Rightarrow>
          if work_finished life
          then Some (life\<lparr>life_worker := Some CompletedWorker, life_handle := HandleHeld\<rparr>) else None
      | NotScheduled _ \<Rightarrow>
          if work_finished life then Some (life\<lparr>life_handle := HandleHeld\<rparr>) else None)"

inductive process_step :: "app_process \<Rightarrow> app_process \<Rightarrow> bool" where
  run_starts:
    "start_run how sv t run request dispatcher p = Ok p' \<Longrightarrow> process_step p p'"
| worker_goes_on:
    "run < length (started_runs p) \<Longrightarrow> life_acts (started_runs p ! run) \<noteq> [] \<Longrightarrow> process_step p (work_step run p)"
| start_ends:
    "run < length (started_runs p) \<Longrightarrow> start_returns (started_runs p ! run) = Some life
       \<Longrightarrow> process_step p (update_run run (\<lambda>_. life) p)"
| cancellation_requested:
    "run < length (started_runs p) \<Longrightarrow> life_handle (started_runs p ! run) = HandleHeld
       \<Longrightarrow> process_step p (update_run run cancel_shared p)"
| join_waits:
    "run < length (started_runs p) \<Longrightarrow> life_handle (started_runs p ! run) = HandleHeld
       \<Longrightarrow> cancel_and_join who run (started_runs p ! run) = JoinBlocks life
       \<Longrightarrow> process_step p (update_run run (\<lambda>_. life) p)"
| service_joins:
    "run \<in> set (retained_runs p) \<Longrightarrow> life_handle (started_runs p ! run) = HandleHeld
       \<Longrightarrow> cancel_and_join who run (started_runs p ! run) = JoinReturns life
       \<Longrightarrow> process_step p (update_run run (\<lambda>_. life) p)"
| handle_dropped:
    "run < length (started_runs p) \<Longrightarrow> life_handle (started_runs p ! run) = HandleHeld
       \<Longrightarrow> cancel_and_join who run (started_runs p ! run) = JoinReturns life
       \<Longrightarrow> process_step p (update_run run (\<lambda>_. life\<lparr>life_handle := HandleDropped\<rparr>) p)"

inductive process_reachable :: "app_process \<Rightarrow> bool" where
  at_launch: "process_reachable new_process"
| after_step: "process_reachable p \<Longrightarrow> process_step p p' \<Longrightarrow> process_reachable p'"

inductive_cases process_stepE: "process_step p p'"

end
