(* ===== verification/RunServiceLaws.thy ===== *)
theory RunServiceLaws
  imports RunService "HOL-Library.Sublist"
begin

text \<open>
  What the Optimization Run Service promises: one active run, one committed result per run, events
  numbered from one that end with the terminal one, snapshots that say what the events said, and
  waits and joins that end.
\<close>

subsection \<open>Every run has a script that commits one result\<close>

lemma fold_cleanup_failures_phase:
  "current_phase (storage_of (fold (\<lambda>f ev. snd (record_safety_cleanup_failure f ev)) fs ev))
     = current_phase (storage_of ev)"
proof (induction fs arbitrary: ev)
  case (Cons f fs)
  have "current_phase (storage_of (snd (record_safety_cleanup_failure f ev))) = current_phase (storage_of ev)"
    by (auto simp: record_safety_cleanup_failure_def current_phase_def last_record_def)
  then show ?case using Cons by simp
qed simp

lemma terminal_evidence_in_cleanup:
  "current_phase (storage_of (terminal_evidence f cleanup sink t)) = Some SafetyCleanup"
proof -
  let ?ev = "record_failure f (new_evidence sink)"
  have empty: "phases (storage_of ?ev) = []"
    by (simp add: record_failure_def retain_failure_def new_evidence_def default_storage_def)
  then have "acceptable (executed SafetyCleanup None) (storage_of ?ev)"
    by (simp add: acceptable_def last_record_def executed_def validate_progress_def begins_at_zero_def)
  from accept_phase_accepted [OF this] empty
  have "current_phase (storage_of (snd (record_phase (executed SafetyCleanup None) ?ev))) = Some SafetyCleanup"
    by (simp add: record_phase_def phases_after_def current_phase_def last_record_def executed_def
        attempt_bearing_phases_def plannable_phases_def)
  moreover have "current_phase (storage_of (record_cancellation_observation ev)) = current_phase (storage_of ev)" for ev
    by (simp add: record_cancellation_observation_def current_phase_def last_record_def)
  ultimately show ?thesis
    by (simp add: terminal_evidence_def Let_def fold_cleanup_failures_phase)
qed

lemma terminal_failure_seals: "\<exists>result. terminal_failure f cleanup sink final t = Ok result"
  by (simp add: terminal_failure_def seal_def consume_def Let_def terminal_evidence_in_cleanup)

definition committing :: "worker_act list \<Rightarrow> bool" where
  "committing acts = (\<exists>items result. acts = map Publish items @ commit_acts result)"

lemma committingI: "committing (map Publish items @ commit_acts result)"
  by (auto simp: committing_def)

lemma committing_after: "committing acts \<Longrightarrow> committing (map Publish items @ acts)"
  unfolding committing_def by (metis append.assoc map_append)

lemma terminal_acts_commit: "\<exists>acts. terminal_acts f cleanup sink final t = Ok acts \<and> committing acts"
  using terminal_failure_seals [of f cleanup sink final t]
  by (auto simp: terminal_acts_def published_by_def intro: committingI)

lemma worker_acts_commit: "\<exists>acts. worker_acts sv t sh = Ok acts \<and> committing acts"
proof -
  obtain left s where run: "execute (shared_services sv) (shared_request sh) t = (left, s)" by fastforce
  show ?thesis
  proof (cases left)
    case (RunPanicked what)
    obtain rest where "escaped_acts what s sh = Ok rest" "committing rest"
      using terminal_acts_commit unfolding escaped_acts_def Let_def by blast
    then show ?thesis
      using run RunPanicked by (simp add: worker_acts_def published_by_def committing_after)
  qed (use run in \<open>auto simp: worker_acts_def published_by_def intro: committingI\<close>)
qed

lemma scheduled_acts_commit: "\<exists>acts. scheduled_acts how sv t sh = Ok acts \<and> committing acts"
  by (cases how) (simp_all add: scheduled_acts_def scheduling_failure_acts_def terminal_acts_commit worker_acts_commit)

subsection \<open>What the events say\<close>

fun is_terminal_event :: "run_event_payload \<Rightarrow> bool" where
  "is_terminal_event (EventTerminal _) = True"
| "is_terminal_event _ = False"

text \<open>The snapshot a listener could keep for itself from the events alone.\<close>

definition new_snapshot :: "string \<Rightarrow> run_snapshot" where
  "new_snapshot run =
     \<lparr>snap_run = run, snap_phase = Preparing, snap_progress = None, snap_cancellation_requested = False,
      snap_diagnostics = 0, snap_failures = 0, snap_outcome = None\<rparr>"

fun told :: "run_event_payload \<Rightarrow> run_snapshot \<Rightarrow> run_snapshot" where
  "told (EventPhase r) s = s\<lparr>snap_phase := record_of r, snap_progress := progress r\<rparr>"
| "told (EventDiagnostic d) s = s\<lparr>snap_diagnostics := snap_diagnostics s + 1\<rparr>"
| "told (EventFailure f) s = s\<lparr>snap_failures := snap_failures s + 1\<rparr>"
| "told (EventTerminal result) s = s\<lparr>snap_outcome := Some (result_outcome result)\<rparr>"

definition told_by :: "string \<Rightarrow> run_event list \<Rightarrow> run_snapshot" where
  "told_by run events = fold told (map event_payload events) (new_snapshot run)"

text \<open>One delivery: the run, the number, the snapshot of the moment, and nothing terminal before it.\<close>

definition delivery_ok :: "string \<Rightarrow> (run_event \<times> run_snapshot) list \<Rightarrow> run_event \<times> run_snapshot \<Rightarrow> bool" where
  "delivery_ok run earlier given =
     (case given of (event, seen) \<Rightarrow>
        event_run event = run \<and> event_sequence event = length earlier + 1
        \<and> seen\<lparr>snap_cancellation_requested := False\<rparr> = told_by run (map fst earlier @ [event])
        \<and> list_all (\<lambda>(e, _). \<not> is_terminal_event (event_payload e)) earlier)"

definition history_ok :: "string \<Rightarrow> (run_event \<times> run_snapshot) list \<Rightarrow> bool" where
  "history_ok run history = list_all (\<lambda>k. delivery_ok run (take k history) (history ! k)) [0..<length history]"

definition nothing_terminal :: "run_shared \<Rightarrow> bool" where
  "nothing_terminal sh = list_all (\<lambda>(e, _). \<not> is_terminal_event (event_payload e)) (event_history sh)"

lemma history_ok_empty [simp]: "history_ok run []"
  by (simp add: history_ok_def)

lemma history_ok_snoc: "history_ok run (history @ [given]) \<longleftrightarrow> history_ok run history \<and> delivery_ok run history given"
  by (auto simp: history_ok_def list_all_iff nth_append less_Suc_eq)

lemma told_by_snoc: "told_by run (events @ [e]) = told (event_payload e) (told_by run events)"
  by (simp add: told_by_def)

text \<open>
  While the dispatcher is enabled, the published state but for the token and a result not yet
  announced is what the events told.
\<close>

definition announced :: "run_shared \<Rightarrow> run_snapshot" where
  "announced sh = (shared_snapshot sh)\<lparr>snap_cancellation_requested := False, snap_outcome := None\<rparr>"

definition listening :: "run_shared \<Rightarrow> bool" where
  "listening sh =
     (live_dispatcher sh \<noteq> None \<longrightarrow>
        live_sequence sh = length (event_history sh)
        \<and> announced sh = told_by (shared_run sh) (map fst (event_history sh)))"

lemma dispatch_fields [simp]:
  "shared_run (dispatch_event payload sh) = shared_run sh"
  "live_result (dispatch_event payload sh) = live_result sh"
  "terminal_dispatched (dispatch_event payload sh) = terminal_dispatched sh"
  "shared_cancelled (dispatch_event payload sh) = shared_cancelled sh"
  "live_work_phase (dispatch_event payload sh) = live_work_phase sh"
  by (simp_all add: dispatch_event_def Let_def split: option.split)


lemma dispatch_history:
  assumes "history_ok (shared_run sh) (event_history sh)" and "nothing_terminal sh"
    and "live_dispatcher sh \<noteq> None \<Longrightarrow> live_sequence sh = length (event_history sh)
      \<and> (shared_snapshot sh)\<lparr>snap_cancellation_requested := False\<rparr>
          = told payload (told_by (shared_run sh) (map fst (event_history sh)))"
  shows "history_ok (shared_run sh) (event_history (dispatch_event payload sh))"
proof (cases "live_dispatcher sh")
  case (Some d)
  with assms(3) have "live_sequence sh = length (event_history sh)"
    "(shared_snapshot sh)\<lparr>snap_cancellation_requested := False\<rparr>
       = told payload (told_by (shared_run sh) (map fst (event_history sh)))"
    by auto
  then show ?thesis
    using assms(1,2) Some
    by (simp add: dispatch_event_def Let_def history_ok_snoc delivery_ok_def told_by_snoc nothing_terminal_def
        shared_snapshot_def split: option.split)
qed (use assms(1) in \<open>simp add: dispatch_event_def Let_def\<close>)

lemma dispatch_plain:
  assumes "\<not> is_terminal_event payload" and "nothing_terminal sh"
  shows "nothing_terminal (dispatch_event payload sh)"
  using assms by (auto simp: dispatch_event_def Let_def nothing_terminal_def split: option.split)

lemma dispatch_listening:
  assumes "live_result sh = None"
    and "live_dispatcher sh \<noteq> None \<Longrightarrow> live_sequence sh = length (event_history sh)
      \<and> (shared_snapshot sh)\<lparr>snap_cancellation_requested := False\<rparr>
          = told payload (told_by (shared_run sh) (map fst (event_history sh)))"
  shows "listening (dispatch_event payload sh)"
proof (cases "live_dispatcher sh")
  case (Some d)
  with assms(2) have "live_sequence sh = length (event_history sh)"
    "(shared_snapshot sh)\<lparr>snap_cancellation_requested := False\<rparr>
       = told payload (told_by (shared_run sh) (map fst (event_history sh)))"
    by auto
  then show ?thesis
    using assms(1) Some
    by (simp add: dispatch_event_def Let_def listening_def told_by_snoc announced_def
        shared_snapshot_def split: option.split)
qed (simp add: dispatch_event_def Let_def listening_def)

lemma publish_live_dispatches:
  "\<exists>payload sh'. publish_live item sh = dispatch_event payload sh' \<and> \<not> is_terminal_event payload
     \<and> event_history sh' = event_history sh \<and> shared_run sh' = shared_run sh
     \<and> live_result sh' = live_result sh \<and> live_sequence sh' = live_sequence sh
     \<and> live_dispatcher sh' = live_dispatcher sh \<and> terminal_dispatched sh' = terminal_dispatched sh
     \<and> announced sh' = told payload (announced sh)"
proof (cases item)
  case (PubPhase r)
  then show ?thesis
    by (intro exI [of _ "EventPhase r"] exI [of _ "(if record_of r \<noteq> SafetyCleanup
            then sh\<lparr>live_phase := record_of r, live_progress := progress r, live_work_phase := record_of r\<rparr>
            else sh\<lparr>live_phase := record_of r, live_progress := progress r\<rparr>)"])
      (simp add: Let_def announced_def shared_snapshot_def)
next
  case (PubFailure f)
  then show ?thesis
    by (intro exI [of _ "EventFailure f"] exI [of _ "sh\<lparr>live_failures := live_failures sh + 1\<rparr>"])
      (simp add: announced_def shared_snapshot_def)
next
  case (PubDiagnostic d)
  then show ?thesis
    by (intro exI [of _ "EventDiagnostic d"] exI [of _ "sh\<lparr>live_diagnostics := live_diagnostics sh @ [d]\<rparr>"])
      (simp add: announced_def shared_snapshot_def)
qed

subsection \<open>The invariant of one run\<close>

definition not_committed :: "run_shared \<Rightarrow> bool" where
  "not_committed sh =
     (history_ok (shared_run sh) (event_history sh) \<and> nothing_terminal sh \<and> listening sh
      \<and> live_result sh = None \<and> \<not> terminal_dispatched sh)"

text \<open>The four places of a worker that has committed.\<close>

definition after_commit :: "run_result \<Rightarrow> worker_act list \<Rightarrow> run_shared \<Rightarrow> bool" where
  "after_commit result acts sh =
     (history_ok (shared_run sh) (event_history sh) \<and> live_result sh = Some result
      \<and> terminal_dispatched sh = (acts = [])
      \<and> (acts = [DispatchTerminal result, DropDispatcher, ReleaseWaiters] \<and> nothing_terminal sh \<and> listening sh
         \<or> acts = [DropDispatcher, ReleaseWaiters]
         \<or> acts = [ReleaseWaiters] \<and> live_dispatcher sh = None
         \<or> acts = [] \<and> live_dispatcher sh = None))"

definition run_ok :: "run_lifetime \<Rightarrow> bool" where
  "run_ok life =
     (committing (life_acts life) \<and> not_committed (life_shared life)
      \<or> (\<exists>result. after_commit result (life_acts life) (life_shared life)))"

lemma publish_not_committed:
  assumes "not_committed sh"
  shows "not_committed (publish_live item sh)"
proof -
  obtain payload sh' where p: "publish_live item sh = dispatch_event payload sh'" "\<not> is_terminal_event payload"
    "event_history sh' = event_history sh" "shared_run sh' = shared_run sh" "live_result sh' = live_result sh"
    "live_sequence sh' = live_sequence sh" "live_dispatcher sh' = live_dispatcher sh"
    "terminal_dispatched sh' = terminal_dispatched sh" "announced sh' = told payload (announced sh)"
    using publish_live_dispatches by blast
  have none: "live_result sh' = None" and quiet: "nothing_terminal sh'"
    using assms p by (simp_all add: not_committed_def nothing_terminal_def)
  have "(shared_snapshot sh')\<lparr>snap_cancellation_requested := False\<rparr> = announced sh'"
    using none by (simp add: announced_def shared_snapshot_def)
  then have told: "live_dispatcher sh' \<noteq> None \<Longrightarrow> live_sequence sh' = length (event_history sh')
      \<and> (shared_snapshot sh')\<lparr>snap_cancellation_requested := False\<rparr>
          = told payload (told_by (shared_run sh') (map fst (event_history sh')))"
    using assms p by (simp add: not_committed_def listening_def)
  have "history_ok (shared_run sh') (event_history sh')" using assms p by (simp add: not_committed_def)
  then show ?thesis
    using assms p none quiet told dispatch_history [OF _ quiet told] dispatch_plain [OF p(2) quiet]
      dispatch_listening [OF none told]
    by (simp add: not_committed_def)
qed


lemma act_not_committed:
  assumes "not_committed sh" and "committing (act # rest)"
  shows "(case act of Publish item \<Rightarrow> committing rest \<and> not_committed (perform_act act sh)
      | CommitResult result \<Rightarrow> after_commit result rest (perform_act act sh)
      | _ \<Rightarrow> False)"
proof -
  obtain items result where script: "act # rest = map Publish items @ commit_acts result"
    using assms(2) by (auto simp: committing_def)
  show ?thesis
  proof (cases items)
    case Nil
    then show ?thesis
      using script assms(1)
      by (auto simp: commit_acts_def after_commit_def perform_act_def not_committed_def nothing_terminal_def
          listening_def announced_def shared_snapshot_def)
  next
    case (Cons item more_items)
    then show ?thesis
      using script publish_not_committed [OF assms(1)] committingI [of more_items result]
      by (simp add: perform_act_def)
  qed
qed

lemma act_after_commit:
  assumes "after_commit result (act # rest) sh"
  shows "after_commit result rest (perform_act act sh)"
proof (cases act)
  case (DispatchTerminal r)
  then have script: "r = result" "rest = [DropDispatcher, ReleaseWaiters]" "nothing_terminal sh" "listening sh"
      "live_result sh = Some result" "history_ok (shared_run sh) (event_history sh)"
    using assms by (auto simp: after_commit_def)
  have "(shared_snapshot sh)\<lparr>snap_cancellation_requested := False\<rparr> = told (EventTerminal result) (announced sh)"
    using script(5) by (simp add: announced_def shared_snapshot_def)
  then have "live_dispatcher sh \<noteq> None \<Longrightarrow> live_sequence sh = length (event_history sh)
      \<and> (shared_snapshot sh)\<lparr>snap_cancellation_requested := False\<rparr>
          = told (EventTerminal result) (told_by (shared_run sh) (map fst (event_history sh)))"
    using script(4) by (simp add: listening_def)
  from dispatch_history [OF script(6,3) this] show ?thesis
    using assms script by (simp add: after_commit_def perform_act_def DispatchTerminal)
qed (use assms in \<open>auto simp: after_commit_def perform_act_def\<close>)

lemma run_ok_act: "run_ok life \<Longrightarrow> run_ok (act_once life)"
proof (cases "life_acts life")
  case (Cons act rest)
  assume ok: "run_ok life"
  then consider "committing (act # rest)" "not_committed (life_shared life)"
    | result where "after_commit result (act # rest) (life_shared life)"
    by (auto simp: run_ok_def Cons)
  then show ?thesis
  proof cases
    case 1
    from act_not_committed [OF 1(2,1)] show ?thesis
      by (auto simp: act_once_def Cons run_ok_def split: worker_act.splits)
  next
    case 2
    from act_after_commit [OF 2] show ?thesis by (auto simp: act_once_def Cons run_ok_def)
  qed
qed (simp add: act_once_def)

lemma act_once_fields [simp]:
  "life_worker (act_once life) = life_worker life" "life_joined (act_once life) = life_joined life"
  "life_joins (act_once life) = life_joins life" "life_handle (act_once life) = life_handle life"
  "life_scheduled (act_once life) = life_scheduled life" "life_acts (act_once life) = tl (life_acts life)"
  by (simp_all add: act_once_def split: list.split)

text \<open>The result of a run appears when its commit is performed, and stays.\<close>

lemma act_once_result:
  assumes "run_ok life"
  shows "live_result (life_shared (act_once life)) \<noteq> None
    \<longleftrightarrow> live_result (life_shared life) \<noteq> None \<or> releases_slot (life_acts life)"
proof (cases "life_acts life")
  case (Cons act rest)
  have "live_result (publish_live item sh) = live_result sh" for item sh
    using publish_live_dispatches [of item sh] by auto
  then show ?thesis using Cons by (cases act) (simp_all add: act_once_def perform_act_def)
qed (simp add: act_once_def)

lemma act_once_keeps_result:
  assumes "run_ok life" and "live_result (life_shared life) = Some result"
  shows "live_result (life_shared (act_once life)) = Some result"
proof -
  have "after_commit result (life_acts life) (life_shared life)"
    using assms by (auto simp: run_ok_def not_committed_def after_commit_def)
  then show ?thesis
    using act_after_commit [of result "hd (life_acts life)" "tl (life_acts life)" "life_shared life"] assms
    by (cases "life_acts life") (auto simp: act_once_def after_commit_def)
qed

lemma run_ok_cancel [simp]: "run_ok (cancel_shared life) = run_ok life"
  by (simp add: cancel_shared_def run_ok_def not_committed_def after_commit_def nothing_terminal_def
      listening_def announced_def shared_snapshot_def)

lemma run_ok_fields:
  "run_ok (life\<lparr>life_worker := w\<rparr>) = run_ok life" "run_ok (life\<lparr>life_joined := j\<rparr>) = run_ok life"
  "run_ok (life\<lparr>life_joins := n\<rparr>) = run_ok life" "run_ok (life\<lparr>life_handle := h\<rparr>) = run_ok life"
  by (simp_all add: run_ok_def)

subsection \<open>Handles and joins\<close>

definition joins_ok :: "run_lifetime \<Rightarrow> bool" where
  "joins_ok life =
     ((life_handle life = NoHandleYet \<longrightarrow> life_worker life = None \<and> \<not> life_joined life)
      \<and> (life_handle life \<noteq> NoHandleYet \<longrightarrow> life_worker life \<noteq> None \<or> work_finished life)
      \<and> (life_joined life \<longrightarrow> work_finished life)
      \<and> (life_handle life = HandleDropped \<longrightarrow> life_joined life)
      \<and> life_joins life = (if life_joined life \<and> life_worker life \<noteq> None then 1 else 0))"

lemma joins_ok_act: "joins_ok life \<Longrightarrow> joins_ok (act_once life)"
  by (auto simp: joins_ok_def)

lemma cancel_fields [simp]:
  "life_acts (cancel_shared life) = life_acts life" "life_worker (cancel_shared life) = life_worker life"
  "life_joined (cancel_shared life) = life_joined life" "life_joins (cancel_shared life) = life_joins life"
  "life_handle (cancel_shared life) = life_handle life"
  "live_result (life_shared (cancel_shared life)) = live_result (life_shared life)"
  "terminal_dispatched (life_shared (cancel_shared life)) = terminal_dispatched (life_shared life)"
  by (simp_all add: cancel_shared_def)

lemma joins_ok_cancel [simp]: "joins_ok (cancel_shared life) = joins_ok life"
  by (simp add: joins_ok_def)

lemma start_returns_ok:
  assumes "start_returns life = Some life'" and "joins_ok life" and "run_ok life"
  shows "joins_ok life'" and "run_ok life'" and "live_result (life_shared life') = live_result (life_shared life)"
    and "life_acts life' = life_acts life"
  using assms by (auto simp: start_returns_def joins_ok_def run_ok_fields split: if_splits scheduled.splits)

lemma join_blocks_cancels: "cancel_and_join who run life = JoinBlocks life' \<Longrightarrow> life' = cancel_shared life"
  by (auto simp: cancel_and_join_def Let_def split: if_splits option.splits)

lemma join_returns_ok:
  assumes "cancel_and_join who run life = JoinReturns life'" and "life_handle life = HandleHeld"
    and "joins_ok life" and "run_ok life"
  shows "joins_ok life'" and "run_ok life'" and "life_joined life'" and "work_finished life'"
    and "live_result (life_shared life') = live_result (life_shared life)"
    and "life_acts life' = life_acts life" and "life_handle life' = HandleHeld"
  using assms
  by (auto simp: cancel_and_join_def Let_def joins_ok_def run_ok_fields split: if_splits option.splits)


subsection \<open>The invariant of the process\<close>

definition runs_ok :: "app_process \<Rightarrow> bool" where
  "runs_ok p =
     ((\<forall>run < length (started_runs p). run_ok (started_runs p ! run) \<and> joins_ok (started_runs p ! run)
        \<and> (live_result (life_shared (started_runs p ! run)) = None \<longleftrightarrow> active_run p = Some run))
      \<and> (\<forall>run. active_run p = Some run \<longrightarrow> run < length (started_runs p))
      \<and> set (retained_runs p) \<subseteq> {..<length (started_runs p)})"

lemma runs_okD:
  assumes "runs_ok p" and "run < length (started_runs p)"
  shows "run_ok (started_runs p ! run)" and "joins_ok (started_runs p ! run)"
    and "live_result (life_shared (started_runs p ! run)) = None \<longleftrightarrow> active_run p = Some run"
  using assms by (auto simp: runs_ok_def)

lemma update_run_fields [simp]:
  "length (started_runs (update_run run f p)) = length (started_runs p)"
  "active_run (update_run run f p) = active_run p" "retained_runs (update_run run f p) = retained_runs p"
  by (simp_all add: update_run_def)

lemma update_run_nth:
  "other < length (started_runs p) \<Longrightarrow> started_runs (update_run run f p) ! other
     = (if other = run then f (started_runs p ! run) else started_runs p ! other)"
  by (simp add: update_run_def nth_list_update)

text \<open>An update of one run that leaves it well formed and its result alone.\<close>

lemma runs_ok_update:
  assumes "runs_ok p" and "run < length (started_runs p)"
    and "run_ok (f (started_runs p ! run))" and "joins_ok (f (started_runs p ! run))"
    and "live_result (life_shared (f (started_runs p ! run))) = live_result (life_shared (started_runs p ! run))"
  shows "runs_ok (update_run run f p)"
  using assms by (auto simp: runs_ok_def update_run_nth)

lemma new_run_ok:
  assumes "committing acts"
  shows "run_ok \<lparr>life_shared = new_shared run request dispatcher, life_scheduled = how, life_acts = acts,
      life_worker = None, life_joined = False, life_joins = 0, life_handle = NoHandleYet\<rparr>"
  using assms
  by (simp add: run_ok_def not_committed_def new_shared_def nothing_terminal_def listening_def announced_def
      shared_snapshot_def told_by_def new_snapshot_def)

lemma started_run:
  assumes "start_run how sv t run request dispatcher p = Ok p'"
  obtains life where "started_runs p' = started_runs p @ [life]" "run_ok life" "joins_ok life"
    "live_result (life_shared life) = None" "active_run p = None" "active_run p' = Some (length (started_runs p))"
    "set (retained_runs p') \<subseteq> insert (length (started_runs p)) (set (retained_runs p))"
    "life_acts life \<noteq> []"
proof -
  obtain acts where acts: "scheduled_acts how sv t (new_shared run request dispatcher) = Ok acts" "committing acts"
    using scheduled_acts_commit by blast
  have "acts \<noteq> []" using acts(2) by (auto simp: committing_def commit_acts_def)
  let ?life = "\<lparr>life_shared = new_shared run request dispatcher, life_scheduled = how, life_acts = acts,
      life_worker = None, life_joined = False, life_joins = 0, life_handle = NoHandleYet\<rparr>"
  have "started_runs p' = started_runs p @ [?life]" "active_run p = None"
    "active_run p' = Some (length (started_runs p))"
    "set (retained_runs p') \<subseteq> insert (length (started_runs p)) (set (retained_runs p))"
    using assms acts(1)
    by (auto simp: start_run_def start_refusal_def Let_def split: if_splits)
  then show thesis
    using that [of ?life] new_run_ok [OF acts(2)] \<open>acts \<noteq> []\<close> by (simp add: joins_ok_def new_shared_def)
qed

lemma runs_ok_start:
  assumes "runs_ok p" and "start_run how sv t run request dispatcher p = Ok p'"
  shows "runs_ok p'"
proof -
  obtain life where "started_runs p' = started_runs p @ [life]" "run_ok life" "joins_ok life"
    "live_result (life_shared life) = None" "active_run p = None" "active_run p' = Some (length (started_runs p))"
    "set (retained_runs p') \<subseteq> insert (length (started_runs p)) (set (retained_runs p))"
    by (rule started_run [OF assms(2)])
  then show ?thesis using assms(1) by (fastforce simp: runs_ok_def nth_append less_Suc_eq)
qed

lemma work_step_fields [simp]:
  "length (started_runs (work_step run p)) = length (started_runs p)"
  "retained_runs (work_step run p) = retained_runs p"
  by (simp_all add: work_step_def Let_def)

lemma work_step_nth:
  "other < length (started_runs p) \<Longrightarrow> started_runs (work_step run p) ! other
     = (if other = run then act_once (started_runs p ! run) else started_runs p ! other)"
  by (simp add: work_step_def Let_def update_run_nth)

lemma runs_ok_work:
  assumes "runs_ok p" and "run < length (started_runs p)"
  shows "runs_ok (work_step run p)"
proof -
  let ?life = "started_runs p ! run"
  note life = runs_okD [OF assms]
  have result: "live_result (life_shared (act_once ?life)) = None
      \<longleftrightarrow> active_run p = Some run \<and> \<not> releases_slot (life_acts ?life)"
    using act_once_result [OF life(1)] life(3) by metis
  have "active_run (work_step run p)
      = (if releases_slot (life_acts ?life) \<and> active_run p = Some run then None else active_run p)"
    by (simp add: work_step_def Let_def)
  then show ?thesis
    using assms result run_ok_act [OF life(1)] joins_ok_act [OF life(2)]
    by (auto simp: runs_ok_def work_step_nth)
qed

lemma runs_ok_step: "process_step p p' \<Longrightarrow> runs_ok p \<Longrightarrow> runs_ok p'"
proof (induction rule: process_step.induct)
  case (run_starts how sv t run request dispatcher p p')
  then show ?case by (rule runs_ok_start [rotated])
next
  case (worker_goes_on run p)
  then show ?case by (simp add: runs_ok_work)
next
  case (start_ends run p life)
  then show ?case
    using start_returns_ok [OF start_ends.hyps(2)] runs_okD [OF start_ends.prems start_ends.hyps(1)]
    by (intro runs_ok_update) auto
next
  case (cancellation_requested run p)
  then show ?case using runs_okD [OF cancellation_requested.prems cancellation_requested.hyps(1)]
    by (intro runs_ok_update) auto
next
  case (join_waits run p who life)
  then show ?case
    using runs_okD [OF join_waits.prems join_waits.hyps(1)] join_blocks_cancels [OF join_waits.hyps(3)]
    by (intro runs_ok_update) auto
next
  case (service_joins run p who life)
  then have run: "run < length (started_runs p)" by (auto simp: runs_ok_def)
  note before = runs_okD [OF service_joins.prems run]
  note joined = join_returns_ok [OF service_joins.hyps(3,2) before(2,1)]
  show ?case by (rule runs_ok_update [OF service_joins.prems run joined(2,1,5)])
next
  case (handle_dropped run p who life)
  note before = runs_okD [OF handle_dropped.prems handle_dropped.hyps(1)]
  note joined = join_returns_ok [OF handle_dropped.hyps(3,2) before(2,1)]
  have "joins_ok (life\<lparr>life_handle := HandleDropped\<rparr>)"
    using joined(1,3,4) by (simp add: joins_ok_def)
  then show ?case
    using joined(2,5) handle_dropped.prems handle_dropped.hyps(1) by (intro runs_ok_update) (simp_all add: run_ok_fields)
qed

lemma process_runs_ok: "process_reachable p \<Longrightarrow> runs_ok p"
proof (induction rule: process_reachable.induct)
  case at_launch
  show ?case by (simp add: runs_ok_def new_process_def)
qed (rule runs_ok_step)


subsection \<open>One active run\<close>

definition has_result :: "run_lifetime \<Rightarrow> bool" where
  "has_result life = (live_result (life_shared life) \<noteq> None)"

lemma indices_of_filter: "length (filter P xs) = card {i. i < length xs \<and> P (xs ! i)}"
  by (simp add: length_filter_conv_card)

lemma unfinished_is_active:
  assumes "runs_ok p"
  shows "{i. i < length (started_runs p) \<and> \<not> has_result (started_runs p ! i)}
    = (case active_run p of None \<Rightarrow> {} | Some run \<Rightarrow> {run})"
  using assms by (auto simp: runs_ok_def has_result_def split: option.split)

text \<open>
  C26: In every process the service can reach, whatever the scheduler, the dispatchers and the threads
  do, at most one run has no result, and a well-formed request is refused, with \<open>ActiveRun\<close>, exactly
  while there is such a run: no start is rejected once the last result can be seen, and none admitted
  beside a run that owes its result.
\<close>

theorem one_active_run:
  assumes "process_reachable p"
    and "profile_identity request \<noteq> []" and "selection_directory (mod_selection request) \<noteq> []"
  shows "length (filter (\<lambda>life. \<not> has_result life) (started_runs p)) \<le> 1
    \<and> start_refusal request p = (if list_all has_result (started_runs p) then None else Some ActiveRun)"
proof -
  note active = unfinished_is_active [OF process_runs_ok [OF assms(1)]]
  have "list_all has_result (started_runs p)
      \<longleftrightarrow> {i. i < length (started_runs p) \<and> \<not> has_result (started_runs p ! i)} = {}"
    by (auto simp: list_all_length)
  then show ?thesis
    using assms(2,3) by (auto simp: indices_of_filter active start_refusal_def split: option.split)
qed

subsection \<open>Events\<close>

lemma history_numbers:
  "history_ok run history \<Longrightarrow> map (\<lambda>(e, _). event_sequence e) history = [1..<Suc (length history)]"
  by (induction history rule: rev_induct) (auto simp: history_ok_snoc delivery_ok_def)

lemma history_terminal_last:
  "history_ok run history \<Longrightarrow> list_all (\<lambda>(e, _). \<not> is_terminal_event (event_payload e)) (butlast history)"
  by (cases history rule: rev_cases) (auto simp: history_ok_snoc delivery_ok_def)

lemma run_history:
  assumes "process_reachable p" and "run < length (started_runs p)"
  shows "history_ok (shared_run (life_shared (started_runs p ! run)))
    (event_history (life_shared (started_runs p ! run)))"
  using runs_okD(1) [OF process_runs_ok [OF assms(1)] assms(2)]
  by (auto simp: run_ok_def not_committed_def after_commit_def)

text \<open>
  C27: Every dispatcher receives the events of its run numbered from one without a gap, each with
  the run's identity; no event follows the terminal one; and the snapshot it can read at an event
  says, but for the cancellation request, exactly what the events up to that one told.
\<close>

theorem events_tell_the_snapshot:
  assumes "process_reachable p" and "run < length (started_runs p)"
  shows "case life_shared (started_runs p ! run) of sh \<Rightarrow>
      map (\<lambda>(e, _). event_sequence e) (event_history sh) = [1..<Suc (length (event_history sh))]
      \<and> list_all (\<lambda>(e, _). event_run e = shared_run sh) (event_history sh)
      \<and> list_all (\<lambda>(e, _). \<not> is_terminal_event (event_payload e)) (butlast (event_history sh))
      \<and> map (\<lambda>(_, seen). seen\<lparr>snap_cancellation_requested := False\<rparr>) (event_history sh)
          = map (\<lambda>k. told_by (shared_run sh) (map fst (take (Suc k) (event_history sh))))
              [0..<length (event_history sh)]"
proof -
  let ?sh = "life_shared (started_runs p ! run)"
  note ok = run_history [OF assms]
  have each: "delivery_ok (shared_run ?sh) (take k (event_history ?sh)) (event_history ?sh ! k)"
    if "k < length (event_history ?sh)" for k
    using ok that by (simp add: history_ok_def list_all_iff)
  have "list_all (\<lambda>(e, _). event_run e = shared_run ?sh) (event_history ?sh)"
    using each by (fastforce simp: list_all_length delivery_ok_def)
  moreover have "map (\<lambda>(_, seen). seen\<lparr>snap_cancellation_requested := False\<rparr>) (event_history ?sh)
      = map (\<lambda>k. told_by (shared_run ?sh) (map fst (take (Suc k) (event_history ?sh)))) [0..<length (event_history ?sh)]"
    using each by (intro nth_equalityI) (fastforce simp: delivery_ok_def take_Suc_conv_app_nth split: prod.splits)+
  ultimately show ?thesis
    using history_numbers [OF ok] history_terminal_last [OF ok] by simp
qed


subsection \<open>Every run ends\<close>

text \<open>What is left of a run's work, performed without another thread in between.\<close>

definition work_through :: "nat \<Rightarrow> app_process \<Rightarrow> app_process" where
  "work_through run p = (work_step run ^^ length (life_acts (started_runs p ! run))) p"

lemma work_steps_shorten:
  "run < length (started_runs p) \<Longrightarrow>
     life_acts (started_runs ((work_step run ^^ n) p) ! run) = drop n (life_acts (started_runs p ! run))
     \<and> length (started_runs ((work_step run ^^ n) p)) = length (started_runs p)"
  by (induction n) (simp_all add: work_step_nth drop_Suc drop_tl)

lemma work_steps_reach:
  assumes "process_reachable p" and "run < length (started_runs p)" and "n \<le> length (life_acts (started_runs p ! run))"
  shows "process_reachable ((work_step run ^^ n) p)"
  using assms(3)
proof (induction n)
  case (Suc n)
  then have "life_acts (started_runs ((work_step run ^^ n) p) ! run) \<noteq> []"
    by (simp add: work_steps_shorten [OF assms(2)])
  then show ?case
    using Suc worker_goes_on [of run "(work_step run ^^ n) p"] work_steps_shorten [OF assms(2), of n] assms(2)
    by (auto intro: after_step)
qed (simp add: assms(1))

lemma finished_run:
  assumes "process_reachable p" and "run < length (started_runs p)" and "work_finished (started_runs p ! run)"
  shows "terminal_dispatched (life_shared (started_runs p ! run))" and "has_result (started_runs p ! run)"
    and "live_dispatcher (life_shared (started_runs p ! run)) = None" and "active_run p \<noteq> Some run"
proof -
  note ok = runs_okD [OF process_runs_ok [OF assms(1)] assms(2)]
  obtain result where "after_commit result [] (life_shared (started_runs p ! run))"
    using ok(1) assms(3) by (auto simp: run_ok_def committing_def commit_acts_def)
  then show "terminal_dispatched (life_shared (started_runs p ! run))" "has_result (started_runs p ! run)"
    "live_dispatcher (life_shared (started_runs p ! run)) = None" "active_run p \<noteq> Some run"
    using ok(3) by (auto simp: after_commit_def has_result_def)
qed

text \<open>
  C25: Every run ends, also one whose worker could not be started and one whose executor, services or
  dispatcher panicked: a started run has finitely many acts left, and after them its one result is
  committed, its dispatcher dropped, the active slot free, and a \<open>wait\<close> from any thread but its own
  worker returns that result.
\<close>

theorem every_run_ends:
  assumes "process_reachable p" and "run < length (started_runs p)"
  shows "case work_through run p of p' \<Rightarrow>
      process_reachable p' \<and> active_run p' \<noteq> Some run
      \<and> (case started_runs p' ! run of life \<Rightarrow>
           work_finished life \<and> live_dispatcher (life_shared life) = None
           \<and> (\<exists>result. live_result (life_shared life) = Some result
                \<and> wait_for who run life
                    = (if called_from_worker who run life then WaitPanics else WaitReturns result)))"
proof -
  let ?p = "work_through run p"
  have reached: "process_reachable ?p" "run < length (started_runs ?p)" "work_finished (started_runs ?p ! run)"
    using work_steps_reach [OF assms order_refl] work_steps_shorten [OF assms(2)] assms(2)
    by (simp_all add: work_through_def)
  from finished_run [OF this] reached show ?thesis
    by (auto simp: wait_for_def has_result_def)
qed

text \<open>A result that is there stays; the acts that are left get fewer.\<close>

definition goes_on :: "run_lifetime \<Rightarrow> run_lifetime \<Rightarrow> bool" where
  "goes_on life life' =
     ((case live_result (life_shared life) of
         None \<Rightarrow> True
       | Some result \<Rightarrow> live_result (life_shared life') = Some result)
      \<and> suffix (life_acts life') (life_acts life))"

lemma goes_on_same:
  "live_result (life_shared life') = live_result (life_shared life) \<Longrightarrow> life_acts life' = life_acts life
     \<Longrightarrow> goes_on life life'"
  by (simp add: goes_on_def split: option.split)

lemma goes_on_update:
  assumes "goes_on (started_runs p ! run) (f (started_runs p ! run))" and "other < length (started_runs p)"
  shows "goes_on (started_runs p ! other) (started_runs (update_run run f p) ! other)"
  using assms by (simp add: update_run_nth goes_on_same)

lemma step_goes_on:
  assumes "process_step p p'" and "runs_ok p" and "other < length (started_runs p)"
  shows "goes_on (started_runs p ! other) (started_runs p' ! other)"
  using assms(1)
proof cases
  case (run_starts how sv t run request dispatcher)
  then obtain life where "started_runs p' = started_runs p @ [life]" using started_run by metis
  then show ?thesis using assms(3) by (simp add: nth_append goes_on_same)
next
  case (worker_goes_on run)
  then show ?thesis
    using assms(3) act_once_keeps_result [OF runs_okD(1) [OF assms(2,3)]]
    by (auto simp: work_step_nth goes_on_def suffix_tl split: option.split)
next
  case (start_ends run life)
  show ?thesis unfolding start_ends(1)
    using start_returns_ok [OF start_ends(3)] runs_okD [OF assms(2) start_ends(2)] assms(3)
    by (intro goes_on_update goes_on_same) auto
next
  case (cancellation_requested run)
  show ?thesis unfolding cancellation_requested(1)
    using assms(3) by (intro goes_on_update goes_on_same) auto
next
  case (join_waits run who life)
  show ?thesis unfolding join_waits(1)
    using assms(3) join_blocks_cancels [OF join_waits(4)] by (intro goes_on_update goes_on_same) auto
next
  case (service_joins run who life)
  have run: "run < length (started_runs p)" using assms(2) service_joins(2) by (auto simp: runs_ok_def)
  note joined = join_returns_ok [OF service_joins(4,3) runs_okD(2,1) [OF assms(2) run]]
  show ?thesis unfolding service_joins(1)
    using assms(3) joined(5,6) by (intro goes_on_update goes_on_same) auto
next
  case (handle_dropped run who life)
  note joined = join_returns_ok [OF handle_dropped(4,3) runs_okD(2,1) [OF assms(2) handle_dropped(2)]]
  show ?thesis unfolding handle_dropped(1)
    using assms(3) joined(5,6) by (intro goes_on_update goes_on_same) auto
qed

text \<open>
  C28: No step of any thread changes or withdraws a committed result, cancellation and the steps of the
  same run included, and no step gives a run more work: what a run still has to do is a rest of what
  it had.
\<close>

theorem committed_result_stays:
  assumes "process_reachable p" and "process_step p p'" and "run < length (started_runs p)"
  shows "(case live_result (life_shared (started_runs p ! run)) of
        None \<Rightarrow> True
      | Some result \<Rightarrow> live_result (life_shared (started_runs p' ! run)) = Some result)
    \<and> suffix (life_acts (started_runs p' ! run)) (life_acts (started_runs p ! run))"
  using step_goes_on [OF assms(2) process_runs_ok [OF assms(1)] assms(3)] by (simp add: goes_on_def)

text \<open>
  C29: A run is never abandoned while it executes: once its handle is dropped, and once the service
  has joined it, its worker has finished, its result is committed and announced, and the worker was
  joined at most once.
\<close>

theorem dropped_run_has_ended:
  assumes "process_reachable p" and "run < length (started_runs p)"
    and "life_joined (started_runs p ! run) \<or> life_handle (started_runs p ! run) = HandleDropped"
  shows "work_finished (started_runs p ! run) \<and> has_result (started_runs p ! run)
    \<and> terminal_dispatched (life_shared (started_runs p ! run)) \<and> life_joins (started_runs p ! run) \<le> 1"
proof -
  have "joins_ok (started_runs p ! run)" by (rule runs_okD(2) [OF process_runs_ok [OF assms(1)] assms(2)])
  then have "work_finished (started_runs p ! run)" "life_joins (started_runs p ! run) \<le> 1"
    using assms(3) by (auto simp: joins_ok_def)
  then show ?thesis using finished_run [OF assms(1,2)] by simp
qed


subsection \<open>A run whose worker could not be started\<close>

definition demo_started :: app_process where
  "demo_started =
     (case start_run (NotScheduled ''no thread'') (demo_services (Returned (Ok []))) None ''run-1'' demo_run
             (Some (\<lambda>_ _ _. None)) new_process of
        Ok p \<Rightarrow> p
      | Err _ \<Rightarrow> new_process)"

definition demo_ended :: app_process where
  "demo_ended = work_through 0 demo_started"

definition demo_returned :: app_process where
  "demo_returned = update_run 0 (\<lambda>life. life\<lparr>life_handle := HandleHeld\<rparr>) demo_ended"

definition demo_dropped :: app_process where
  "demo_dropped = update_run 0 (\<lambda>life. (cancel_shared life)\<lparr>life_joined := True, life_handle := HandleDropped\<rparr>) demo_returned"

lemma demo_refusal: "start_refusal demo_run new_process = None"
  by (simp add: start_refusal_def demo_run_def run_request_new_def demo_mod_def new_process_def)

lemma demo_start_run:
  "start_run (NotScheduled ''no thread'') (demo_services (Returned (Ok []))) None ''run-1'' demo_run
     (Some (\<lambda>_ _ _. None)) new_process = Ok demo_started"
  by (simp add: demo_started_def start_run_def demo_refusal Let_def)

lemma demo_started_runs:
  "process_reachable demo_started" "length (started_runs demo_started) = 1" "active_run demo_started = Some 0"
  "life_acts (started_runs demo_started ! 0) \<noteq> []"
proof -
  show "process_reachable demo_started" by (rule after_step [OF at_launch run_starts [OF demo_start_run]])
  obtain life where "started_runs demo_started = started_runs new_process @ [life]" "life_acts life \<noteq> []"
    "active_run demo_started = Some (length (started_runs new_process))"
    by (rule started_run [OF demo_start_run])
  then show "length (started_runs demo_started) = 1" "active_run demo_started = Some 0"
    "life_acts (started_runs demo_started ! 0) \<noteq> []" by (simp_all add: new_process_def)
qed

lemma terminal_evidence_trace:
  "trace (terminal_evidence f (Some no_temporary_artifacts) (Some shared_sink) t)
     = [PubFailure f, PubPhase (executed SafetyCleanup None)]"
proof -
  let ?ev = "record_failure f (new_evidence (Some shared_sink))"
  have ev: "phases (storage_of ?ev) = []" "trace ?ev = [PubFailure f]" "observations ?ev = Some shared_sink"
    by (simp_all add: record_failure_def retain_failure_def new_evidence_def default_storage_def report_safely_trace)
  then have "acceptable (executed SafetyCleanup None) (storage_of ?ev)"
    by (simp add: acceptable_def last_record_def executed_def validate_progress_def begins_at_zero_def)
  from accept_phase_accepted [OF this] ev
  have "trace (snd (record_phase (executed SafetyCleanup None) ?ev))
      = [PubFailure f, PubPhase (executed SafetyCleanup None)]"
    by (simp add: record_phase_def report_safely_trace executed_def attempt_bearing_phases_def plannable_phases_def)
  then show ?thesis
    by (simp add: terminal_evidence_def Let_def no_temporary_artifacts_def collect_safety_cleanup_failures_def
        record_cancellation_observation_def)
qed

lemma scheduling_acts:
  "\<exists>result. scheduling_failure_acts what t
     = Ok ([Publish (PubFailure (new_run_failure SchedulingFailed Preparing what)),
            Publish (PubPhase (executed SafetyCleanup None))] @ commit_acts result)"
  using terminal_failure_seals [of "new_run_failure SchedulingFailed Preparing what"
      "Some no_temporary_artifacts" "Some shared_sink" Preparing t]
  by (auto simp: scheduling_failure_acts_def terminal_acts_def published_by_def terminal_evidence_trace)

lemma work_steps_run:
  "run < length (started_runs p) \<Longrightarrow> started_runs ((work_step run ^^ n) p) ! run = (act_once ^^ n) (started_runs p ! run)"
  by (induction n) (simp_all add: work_step_nth work_steps_shorten)

lemma demo_ended_shape:
  "process_reachable demo_ended" "length (started_runs demo_ended) = 1"
  "length (event_history (life_shared (started_runs demo_ended ! 0))) = 3"
  "life_handle (started_runs demo_ended ! 0) = NoHandleYet" "life_worker (started_runs demo_ended ! 0) = None"
  "life_scheduled (started_runs demo_ended ! 0) = NotScheduled ''no thread''"
  "work_finished (started_runs demo_ended ! 0)"
proof -
  note started = demo_started_runs
  show "process_reachable demo_ended" "length (started_runs demo_ended) = 1" "work_finished (started_runs demo_ended ! 0)"
    using work_steps_reach [OF started(1), of 0] work_steps_shorten [of 0 demo_started] started(2)
    by (simp_all add: demo_ended_def work_through_def)
  obtain result where "scheduling_failure_acts ''no thread'' None
      = Ok ([Publish (PubFailure (new_run_failure SchedulingFailed Preparing ''no thread'')),
             Publish (PubPhase (executed SafetyCleanup None))] @ commit_acts result)"
    using scheduling_acts by blast
  then have first: "started_runs demo_started ! 0 =
      \<lparr>life_shared = new_shared ''run-1'' demo_run (Some (\<lambda>_ _ _. None)),
       life_scheduled = NotScheduled ''no thread'',
       life_acts = [Publish (PubFailure (new_run_failure SchedulingFailed Preparing ''no thread'')),
         Publish (PubPhase (executed SafetyCleanup None)), CommitResult result, DispatchTerminal result,
         DropDispatcher, ReleaseWaiters],
       life_worker = None, life_joined = False, life_joins = 0, life_handle = NoHandleYet\<rparr>"
    using arg_cong [OF demo_start_run, of "\<lambda>r. case r of Ok p \<Rightarrow> started_runs p ! 0 | _ \<Rightarrow> undefined"]
      demo_refusal
    by (simp add: start_run_def Let_def scheduled_acts_def commit_acts_def new_process_def)
  have run: "started_runs demo_ended ! 0 = (act_once ^^ 6) (started_runs demo_started ! 0)"
  proof -
    have "length (life_acts (started_runs demo_started ! 0)) = 6" by (simp add: first)
    then have "demo_ended = (work_step 0 ^^ 6) demo_started" by (simp only: demo_ended_def work_through_def)
    then show ?thesis using work_steps_run [of 0 demo_started 6] started(2) by (simp del: funpow.simps)
  qed
  show "length (event_history (life_shared (started_runs demo_ended ! 0))) = 3"
    "life_handle (started_runs demo_ended ! 0) = NoHandleYet" "life_worker (started_runs demo_ended ! 0) = None"
    "life_scheduled (started_runs demo_ended ! 0) = NotScheduled ''no thread''"
    by (simp_all add: run first eval_nat_numeral act_once_def perform_act_def dispatch_event_def new_shared_def
        executed_def Let_def)
qed

theorem one_active_run_witness:
  "length (filter (\<lambda>life. \<not> has_result life) (started_runs demo_started)) \<le> 1
     \<and> start_refusal demo_run demo_started = Some ActiveRun"
proof -
  have asked: "profile_identity demo_run \<noteq> []" "selection_directory (mod_selection demo_run) \<noteq> []"
    by (simp_all add: demo_run_def run_request_new_def demo_mod_def)
  have "\<not> list_all has_result (started_runs demo_started)"
    using runs_okD(3) [OF process_runs_ok [OF demo_started_runs(1)], of 0] demo_started_runs(2,3)
    by (auto simp: list_all_length has_result_def)
  with one_active_run [OF demo_started_runs(1) asked] show ?thesis by simp
qed

theorem events_tell_the_snapshot_witness:
  "map (\<lambda>(e, _). event_sequence e) (event_history (life_shared (started_runs demo_ended ! 0))) = [1, 2, 3]"
  using events_tell_the_snapshot [OF demo_ended_shape(1), of 0] demo_ended_shape(2,3)
  by (simp add: upt_rec)

theorem every_run_ends_witness:
  "\<exists>result. wait_for \<lparr>caller_thread = 7, caller_scopes = []\<rparr> 0 (started_runs demo_ended ! 0) = WaitReturns result"
proof -
  have "\<not> called_from_worker \<lparr>caller_thread = 7, caller_scopes = []\<rparr> 0 (started_runs demo_ended ! 0)"
    by (simp add: called_from_worker_def in_scope_def demo_ended_shape)
  then show ?thesis
    using every_run_ends [OF demo_started_runs(1), of 0 "\<lparr>caller_thread = 7, caller_scopes = []\<rparr>"] demo_started_runs(2)
    by (auto simp: demo_ended_def)
qed

lemma demo_returned_reached:
  "process_reachable demo_returned" "process_step demo_ended demo_returned" "length (started_runs demo_returned) = 1"
  "life_handle (started_runs demo_returned ! 0) = HandleHeld"
proof -
  let ?life = "started_runs demo_ended ! 0"
  have "start_returns ?life = Some (?life\<lparr>life_handle := HandleHeld\<rparr>)"
    by (simp add: start_returns_def demo_ended_shape)
  from start_ends [OF _ this] show step: "process_step demo_ended demo_returned"
    by (simp add: demo_returned_def update_run_def demo_ended_shape)
  show "process_reachable demo_returned" by (rule after_step [OF demo_ended_shape(1) step])
  show "length (started_runs demo_returned) = 1" "life_handle (started_runs demo_returned ! 0) = HandleHeld"
    by (simp_all add: demo_returned_def demo_ended_shape update_run_nth)
qed

theorem committed_result_stays_witness:
  "\<exists>result. live_result (life_shared (started_runs demo_ended ! 0)) = Some result
     \<and> live_result (life_shared (started_runs demo_returned ! 0)) = Some result"
  using committed_result_stays [OF demo_ended_shape(1) demo_returned_reached(2), of 0] demo_ended_shape(2)
    finished_run(2) [OF demo_ended_shape(1), of 0] demo_ended_shape(7)
  by (auto simp: has_result_def)

theorem dropped_run_has_ended_witness:
  "life_handle (started_runs demo_dropped ! 0) = HandleDropped \<and> has_result (started_runs demo_dropped ! 0)"
proof -
  let ?life = "started_runs demo_returned ! 0" and ?who = "\<lparr>caller_thread = 7, caller_scopes = []\<rparr>"
  have life: "?life = (started_runs demo_ended ! 0)\<lparr>life_handle := HandleHeld\<rparr>"
    by (simp add: demo_returned_def demo_ended_shape update_run_nth)
  have "\<not> life_joined (started_runs demo_ended ! 0)"
    using runs_okD(2) [OF process_runs_ok [OF demo_ended_shape(1)], of 0] demo_ended_shape
    by (simp add: joins_ok_def)
  then have "cancel_and_join ?who 0 ?life = JoinReturns ((cancel_shared ?life)\<lparr>life_joined := True\<rparr>)"
    by (simp add: cancel_and_join_def called_from_worker_def in_scope_def Let_def life demo_ended_shape)
  from handle_dropped [OF _ demo_returned_reached(4) this] have "process_step demo_returned demo_dropped"
    by (simp add: demo_returned_reached demo_dropped_def update_run_def)
  then have reached: "process_reachable demo_dropped" by (rule after_step [OF demo_returned_reached(1)])
  have "life_handle (started_runs demo_dropped ! 0) = HandleDropped" "length (started_runs demo_dropped) = 1"
    by (simp_all add: demo_dropped_def demo_returned_reached update_run_nth)
  then show ?thesis using dropped_run_has_ended [OF reached, of 0] by simp
qed

end
