(* ===== verification/Spec2Isabelle.thy ===== *)
theory Spec2Isabelle
  imports Routing WorkChoices EvidencePublication Capacity GamePaths ArchivePreflight ArchiveExtraction Discovery
    ModSelection FinalizationProperties RunResults StagingManifest
    AssetCompletion RunServiceLaws
begin

text \<open>
  A model of the core of CAO, the Cathedral Assets Optimizer (\<open>src/crates/cao-core\<close>). An optimization
  run takes a Run Request, resolves its Mod Roots, extracts Archives, routes every file of the Effective
  Asset Tree to an optimizer, attempts each routed Asset, packs the results into Archives again, and
  ends in Safety Cleanup. The run records what it does in Run Evidence, whose sealed form is its result.

  \<^bold>\<open>How the model reads.\<close> Each theory opens with the source files it models, and its definitions follow
  their order and names. Structs are records, enums are datatypes, errors are \<open>Err\<close> of a sum, machine
  integers are words where their width matters and a \<open>Path\<close> is the list of its components. What the
  program borrows from outside, the filesystem, the packer, the Archive reader, volume probes, optimizers and Win32
  handles, is an argument of the definitions that use it. Such an environment answers
  from the list of all calls made before, so a theorem about the calls holds for every behaviour of the
  outside world, and a call that fails, or panics where the program contains panics, is one of its answers.
  A loop is recursion over the list it runs through, or over a measure that is shown
  to descend; no fuel is used.

  \<^bold>\<open>Shared theories.\<close>
  \<^item> \<open>Prelude\<close>: results, saturating \<open>u64\<close>, ASCII, paths, ordered maps, and the collections of rules.
  \<^item> \<open>Observation\<close>: the cancellation token as a run reads it, and calls that panic.
  \<^item> \<open>Effects\<close>: the actions the stateful parts are written in, with errors and contained panics.
  \<^item> \<open>Unicode\<close>: names as characters and the text of a path.

  \<^bold>\<open>Vocabulary and rules.\<close>
  \<^item> \<open>Routing\<close> (\<open>routing.rs\<close>): policies, the Routing Decision of a path and the Routing Ledger.
  \<^item> \<open>Attempts\<close>, \<open>AssetResults\<close> (\<open>attempt.rs\<close>, \<open>execution.rs\<close>): outcomes, mutation and the safe-to-continue rule.
  \<^item> \<open>WorkChoices\<close> (\<open>admission.rs\<close>, \<open>run/work_choices.rs\<close>, \<open>run/lifecycle.rs\<close>): choices, admissions, requests.
  \<^item> \<open>Lifecycle\<close> (\<open>run/lifecycle.rs\<close>, \<open>run/preparation.rs\<close>, \<open>error.rs\<close>): phases, records, failures.
  \<^item> \<open>Capacity\<close> (\<open>run/capacity.rs\<close>): demands by volume and the verdict of a Capacity Check.
  \<^item> \<open>GamePaths\<close> (\<open>run/archives.rs\<close>, \<open>run/artifacts.rs\<close>): entry names, reserved names, path conflicts.

  \<^bold>\<open>Run Evidence\<close> (\<open>run/evidence.rs\<close> and its submodules). \<open>Evidence\<close> defines the store and every recording
  step; \<open>EvidenceLaws\<close> and \<open>EvidenceRuns\<close> show its invariant kept by all of them; \<open>EvidencePublication\<close>
  holds what is reported to the sink and what sealing derives; \<open>EvidenceProducers\<close> states what a phase
  that records may rely on.

  \<^bold>\<open>Interfaces.\<close> The locale \<open>attempt_kind\<close> states what one kind of attempt has to provide, and is interpreted on
  the three kinds. The locale \<open>frame\<close> of \<open>Effects\<close> carries a preorder on states, what an action may
  change, through sequencing, branches and loops; each phase interprets it for the relation its properties are about.

  \<^bold>\<open>The phases.\<close>
  \<^item> \<open>ModSelection\<close> (\<open>run/mod_selection.rs\<close>): the canonical Mod Roots of a run.
  \<^item> \<open>Discovery\<close> (\<open>run/executor/work_phases.rs\<close>): the walker both discovery passes share.
  \<^item> \<open>ArchivePreflight\<close>, \<open>ArchiveExtraction\<close> (\<open>run/archives.rs\<close>): which Archive provides which file, and
    one extraction attempt with every call it makes.
  \<^item> \<open>FinalizationSeams\<close>, \<open>LoadingPlugins\<close>, \<open>FinalizationPlanning\<close>, \<open>FinalizationAttempt\<close>, \<open>Finalization\<close>,
    \<open>FinalizationLaws\<close>, \<open>FinalizationProperties\<close> (\<open>run/finalization/\<close>): planning, Loading Plugins, output
    attempts, the Apply phase and the Dry Run's plan.

  \<^bold>\<open>The executor\<close> (\<open>run/executor.rs\<close>, \<open>run/executor/work_phases.rs\<close>, \<open>run/toolset.rs\<close>). \<open>WorkPhases\<close> and
  \<open>Executor\<close> compose the parts as the code does. \<open>RunStages\<close>, \<open>RunPhases\<close>, \<open>RunOutcomes\<close> and \<open>RunTraversal\<close>
  carry triples over the evidence through every phase; \<open>RunCalls\<close> orders the calls of a run;
  \<open>RunCompletion\<close> shows that a run stops early only with a reason; \<open>RunResults\<close> holds what a caller may
  conclude from a result.

  \<^bold>\<open>Temporary Ownership\<close> (\<open>run/staging.rs\<close>, \<open>run/staging/recovery.rs\<close>, \<open>run/artifacts.rs\<close>, the requests of
  \<open>cao-winfs\<close>). The state is the record \<open>custody\<close> of \<open>Disk\<close>: the calls made, the areas of the staging scope, its pins
  and locks, and the artifacts of the registry.
  \<^item> \<open>StagingManifest\<close>: the ownership manifest, its parser, its round trip and the names it can hold.
  \<^item> \<open>Disk\<close>: every call the core makes on files, with the environment \<open>disk\<close> that answers it.
  \<^item> \<open>StagingScope\<close>, \<open>StagingRecovery\<close>, \<open>StagingOwnership\<close>: the checks both sides share, the recovery of leftover staging,
    and the scope that claims a Mod Root, stages, releases and cleans up.
  \<^item> \<open>StagingSafety\<close>, \<open>StagingProof\<close>: what recovery removes, that its walk ends, and what the answers it got prove
    before it removes anything.
  \<^item> \<open>Artifacts\<close>, \<open>ArtifactLaws\<close>: captured destinations, staging and publication through receipts, registration
    and Safety Cleanup; a publication renames at most once, and cleanup removes only what the run owns.

  \<^bold>\<open>Asset execution\<close> (\<open>execution.rs\<close>, \<open>run/asset_attempt.rs\<close>). \<open>AssetExecution\<close> holds the executor over one
  backend, the pinned source of a conversion, quarantine and the attempt adapter, over the same \<open>custody\<close> and \<open>disk\<close>.
  \<open>AssetSafety\<close> shows what an attempt may change and that it reports it; \<open>AssetCompletion\<close> that it ends.
  The executor's model takes such an attempt as an answer of its environment; the two are not composed.

  \<^bold>\<open>The Run Service\<close> (\<open>run/service.rs\<close>, \<open>run/scheduler.rs\<close>). \<open>RunService\<close> holds the published state of a run with its
  numbered events, its worker as a script of acts computed from the executor's model, and the process as an inductive
  step relation over starts, acts, cancellations, waits, joins and drops; \<open>RunServiceLaws\<close> shows its invariants
  over every interleaving.

  \<^bold>\<open>Bounds.\<close> Where the program counts in \<open>usize\<close> or numbers events in \<open>u64\<close>, the model counts in \<open>nat\<close>: no counter is
  shown to stay below its width. Byte sizes and capacities are 64 bit words and saturate or wrap as the code does. The
  numbered names of a quarantine end, as in a build with overflow checks, with a panic at the last \<open>u64\<close>.

  \<^bold>\<open>Not modelled.\<close>
  \<^item> Foreign code, a parameter wherever the core calls it: Win32 (\<open>cao-winfs\<close>), the BSA container format, DirectX,
    nifly and Havok.
  \<^item> Crates beside the core: game profiles and INI files (\<open>cao-profiles\<close>), Archive splitting and writing
    (\<open>cao-archive\<close>), the optimizers' own rules (\<open>cao-optimizers\<close>), the desktop interface (\<open>cao-gui\<close>) and the test support.
  \<^item> Of the core: the pin of a cleaned source Archive (\<open>run/source_pin.rs\<close>) and the volume probes, which are
    answers of environments; Application Log lines; the randomness of the run id.
  \<^item> The Archive preflight sees one snapshot of the filesystem and of each Archive, and a discovery pass one tree;
    the phases that write ask again at each call.
  \<^item> Calls into the registry during an extraction answer or fail, but do not panic; a scheduler that panics, the
    debug assertion on a toolset's mode, and a failed seek before a pinned source is read again are left out.
\<close>

end
